(* ===== verification/Prelude.thy ===== *)
theory Prelude
  imports Main "HOL-Library.Word" "HOL-Library.Signed_Division" "HOL-Library.Monad_Syntax"
begin

text \<open>
  The vocabulary every component shares: the machine integers of the C sources, the places where
  the language leaves the behaviour undefined, byte memory, and the allocator.

  A C function that may run into undefined behaviour (an access outside an object, a dereferenced
  NULL, a signed overflow, a division by zero) is an \<open>option\<close>-valued function: \<open>None\<close>
  is "no defined result", \<open>Some r\<close> is the result the code computes. A loop that does not
  return has no defined result either. So a theorem whose conclusion is \<open>f x = Some y\<close>
  says that the code is memory safe, does not overflow, and returns.
\<close>

unbundle bit_operations_syntax

type_synonym u8 = "8 word"
type_synonym u16 = "16 word"
type_synonym u32 = "32 word"
type_synonym u64 = "64 word"

text \<open>Collections: facts on C arithmetic and memory under their side conditions, and the
  well-formedness predicates a proof unfolds.\<close>

named_theorems c_arith
named_theorems c_mem
named_theorems wf_defs

section \<open>Integers of type int\<close>

definition INT_MAX :: int where "INT_MAX = 2147483647"
definition INT_MIN :: int where "INT_MIN = - 2147483648"

text \<open>The value of an \<open>int\<close> expression; outside the range of the type the behaviour is
  undefined.\<close>

definition c_int :: "int \<Rightarrow> int option" where
  "c_int x = (if INT_MIN \<le> x \<and> x \<le> INT_MAX then Some x else None)"

text \<open>C's remainder: truncated towards zero, undefined for a zero divisor.\<close>

definition c_mod :: "int \<Rightarrow> int \<Rightarrow> int option" where
  "c_mod a b = (if b = 0 then None else Some (a smod b))"

definition c_div :: "int \<Rightarrow> int \<Rightarrow> int option" where
  "c_div a b = (if b = 0 then None else Some (a sdiv b))"

text \<open>Conversions between \<open>int\<close> and \<open>uint32_t\<close>: modulo \<open>2 ^ 32\<close> one way, two's
  complement the other.\<close>

definition u32_of_int :: "int \<Rightarrow> u32" where "u32_of_int x = word_of_int x"
definition int_of_u32 :: "u32 \<Rightarrow> int" where "int_of_u32 w = sint w"

definition u32_mod :: "u32 \<Rightarrow> u32 \<Rightarrow> u32 option" where
  "u32_mod a b = (if b = 0 then None else Some (a mod b))"

lemma c_int_in_range [c_arith]:
  "- 2147483648 \<le> x \<Longrightarrow> x \<le> 2147483647 \<Longrightarrow> c_int x = Some x"
  by (simp add: c_int_def INT_MIN_def INT_MAX_def)

lemma c_int_SomeD: "c_int x = Some y \<Longrightarrow> y = x"
  by (simp add: c_int_def split: if_splits)

lemma c_mod_nonneg [c_arith]: "0 \<le> a \<Longrightarrow> 0 < b \<Longrightarrow> c_mod a b = Some (a mod b)"
  by (auto simp: c_mod_def smod_int_alt_def sgn_if)

lemma c_div_nonneg [c_arith]: "0 \<le> a \<Longrightarrow> 0 < b \<Longrightarrow> c_div a b = Some (a div b)"
  by (auto simp: c_div_def signed_divide_int_def sgn_if)

lemma uint_u32_of_int [c_arith]: "0 \<le> x \<Longrightarrow> x < 4294967296 \<Longrightarrow> uint (u32_of_int x) = x"
  by (simp add: u32_of_int_def uint_word_of_int_eq take_bit_int_eq_self)

lemma int_of_u32_small [c_arith]: "uint w < 2147483648 \<Longrightarrow> int_of_u32 w = uint w"
  unfolding int_of_u32_def
  by (simp add: sint_uint, rule signed_take_bit_int_eq_self) (simp_all add: order_trans [OF _ uint_ge_0])

lemma u32_of_int_uint [simp]: "u32_of_int (uint w) = w"
  by (simp add: u32_of_int_def)

lemma u32_less_of_int [c_arith]:
  "0 \<le> x \<Longrightarrow> x < 4294967296 \<Longrightarrow> (w < u32_of_int x) = (uint w < x)"
  by (simp add: word_less_def uint_u32_of_int)

lemma u32_of_int_less [c_arith]:
  "0 \<le> x \<Longrightarrow> x < 4294967296 \<Longrightarrow> (u32_of_int x < w) = (x < uint w)"
  by (simp add: word_less_def uint_u32_of_int)


lemma unat_of_nat_u32 [c_arith]: "n < 4294967296 \<Longrightarrow> unat (of_nat n :: u32) = n"
  by (simp add: unat_of_nat)

lemma uint_of_nat_u32 [c_arith]: "n < 4294967296 \<Longrightarrow> uint (of_nat n :: u32) = int n"
  using unat_of_nat_u32 [of n] by (metis int_nat_eq uint_ge_0 unat_eq_nat_uint)

text \<open>\<open>if(count > size) count = size;\<close> with an \<open>int\<close> count and a \<open>uint32_t\<close>
  size: the count is converted for the comparison, the size for the assignment.\<close>

definition c_clip :: "int \<Rightarrow> u32 \<Rightarrow> int" where
  "c_clip count size' = (if size' < u32_of_int count then int_of_u32 size' else count)"

lemma c_clip_min [c_arith]:
  "0 \<le> count \<Longrightarrow> count < 2147483648 \<Longrightarrow> c_clip count w = min (uint w) count"
  by (auto simp: c_clip_def u32_less_of_int int_of_u32_small)

section \<open>Byte memory\<close>

text \<open>An object of \<open>n\<close> bytes is a list of \<open>n\<close> bytes. Reading or writing any byte
  outside it is undefined; a zero-length access at one past the end is allowed.\<close>

definition mem_read :: "u8 list \<Rightarrow> int \<Rightarrow> int \<Rightarrow> u8 list option" where
  "mem_read m off n =
     (if 0 \<le> off \<and> 0 \<le> n \<and> off + n \<le> int (length m)
      then Some (take (nat n) (drop (nat off) m)) else None)"

definition mem_write :: "u8 list \<Rightarrow> int \<Rightarrow> u8 list \<Rightarrow> u8 list option" where
  "mem_write m off d =
     (if 0 \<le> off \<and> off + int (length d) \<le> int (length m)
      then Some (take (nat off) m @ d @ drop (nat off + length d) m) else None)"

lemma mem_read_ok [c_mem]:
  "0 \<le> off \<Longrightarrow> 0 \<le> n \<Longrightarrow> off + n \<le> int (length m) \<Longrightarrow>
     mem_read m off n = Some (take (nat n) (drop (nat off) m))"
  by (simp add: mem_read_def)

lemma mem_write_ok [c_mem]:
  "0 \<le> off \<Longrightarrow> off + int (length d) \<le> int (length m) \<Longrightarrow>
     mem_write m off d = Some (take (nat off) m @ d @ drop (nat off + length d) m)"
  by (simp add: mem_write_def)

lemma mem_read_length: "mem_read m off n = Some d \<Longrightarrow> int (length d) = n"
  by (auto simp: mem_read_def split: if_splits)

lemma mem_write_length: "mem_write m off d = Some m' \<Longrightarrow> length m' = length m"
  by (auto simp: mem_write_def split: if_splits)

section \<open>The allocator\<close>

text \<open>
  \<open>mal k n\<close> is the outcome of the \<open>k\<close>-th call of \<open>malloc\<close> when it asks for
  \<open>n\<close> bytes: \<open>None\<close> for NULL, otherwise the (indeterminate) bytes of the new object.
  \<open>allocator_ok\<close> is what the C standard promises: the object has the size asked for.
\<close>

type_synonym allocator = "nat \<Rightarrow> nat \<Rightarrow> u8 list option"

definition allocator_ok :: "allocator \<Rightarrow> bool" where
  "allocator_ok mal \<longleftrightarrow> (\<forall>k n m. mal k n = Some m \<longrightarrow> length m = n)"

definition zero_alloc :: allocator where
  "zero_alloc k n = Some (replicate n 0)"

lemma zero_alloc_ok [simp]: "allocator_ok zero_alloc"
  by (simp add: allocator_ok_def zero_alloc_def)

lemma allocator_okD: "allocator_ok mal \<Longrightarrow> mal k n = Some m \<Longrightarrow> length m = n"
  by (auto simp: allocator_ok_def)

section \<open>Lists and options\<close>

lemma bind_eq_SomeD: "Option.bind x f = Some y \<Longrightarrow> \<exists>z. x = Some z \<and> f z = Some y"
  by (cases x) auto

lemma take_take_drop_append: "take m xs @ take n (drop m xs) = take (m + n) xs"
  by (simp add: take_add)

lemma mod_less_double: "x < 2 * (n::nat) \<Longrightarrow> x mod n = (if x < n then x else x - n)"
  by (simp add: mod_if)

text \<open>A counted loop whose body may be undefined.\<close>

fun each :: "'a list \<Rightarrow> ('a \<Rightarrow> 's \<Rightarrow> 's option) \<Rightarrow> 's \<Rightarrow> 's option" where
  "each [] f s = Some s"
| "each (x # xs) f s = do { s' \<leftarrow> f x s; each xs f s' }"

lemma each_append: "each (xs @ ys) f s = do { s' \<leftarrow> each xs f s; each ys f s' }"
  by (induction xs arbitrary: s) (auto split: Option.bind_split)

lemma each_inv:
  assumes "each xs f s = Some s'" "P s" "\<And>x s s'. P s \<Longrightarrow> f x s = Some s' \<Longrightarrow> P s'"
  shows "P s'"
  using assms(1,2)
proof (induction xs arbitrary: s)
  case (Cons x xs)
  then show ?case using assms(3) by (auto dest!: bind_eq_SomeD)
qed simp

text \<open>A loop that appends the pieces \<open>g x\<close> to what \<open>con\<close> reads off the state, while there
  is room.\<close>

lemma each_appends:
  assumes "\<And>x s. P s \<Longrightarrow> length (con s) + length (g x) \<le> N \<Longrightarrow>
      \<exists>s'. f x s = Some s' \<and> P s' \<and> con s' = con s @ g x"
    "P s" "length (con s) + length (concat (map g xs)) \<le> N"
  shows "\<exists>s'. each xs f s = Some s' \<and> P s' \<and> con s' = con s @ concat (map g xs)"
  using assms(2,3)
proof (induction xs arbitrary: s)
  case (Cons x xs)
  then obtain s1 where s1: "f x s = Some s1" "P s1" "con s1 = con s @ g x"
    using assms(1) [of s x] by auto
  with Cons.prems have "length (con s1) + length (concat (map g xs)) \<le> N" by simp
  from Cons.IH [OF s1(2) this] s1 show ?case by auto
qed simp

lemma each_count:
  assumes "\<And>x s s'. f x s = Some s' \<Longrightarrow> P s \<Longrightarrow> P s' \<and> \<mu> s' = \<mu> s + (k::int)"
    "each xs f s = Some s'" "P s"
  shows "P s' \<and> \<mu> s' = \<mu> s + k * int (length xs)"
  using assms(2,3)
proof (induction xs arbitrary: s)
  case (Cons x xs)
  then obtain s1 where s1: "f x s = Some s1" "each xs f s1 = Some s'" by (auto dest!: bind_eq_SomeD)
  with assms(1) [OF s1(1) Cons.prems(2)] Cons.IH [OF s1(2)] show ?case by (simp add: algebra_simps)
qed simp

lemma each_upt_from:
  assumes "\<And>i s. m \<le> i \<Longrightarrow> i < n \<Longrightarrow> P i s \<Longrightarrow> \<exists>s'. f i s = Some s' \<and> P (Suc i) s'" "P m s" "m \<le> n"
  shows "\<exists>s'. each [m..<n] f s = Some s' \<and> P n s'"
  using assms
proof (induction "n - m" arbitrary: m s)
  case (Suc d)
  then have lt: "m < n" by simp
  from Suc.prems(1) [OF order_refl lt Suc.prems(2)] obtain s1 where s1: "f m s = Some s1" "P (Suc m) s1"
    by blast
  have "\<exists>s'. each [Suc m..<n] f s1 = Some s' \<and> P n s'"
    by (rule Suc.hyps(1)) (use Suc.hyps(2) Suc.prems(1) s1(2) lt in auto)
  with s1 lt show ?case by (simp add: upt_conv_Cons)
qed simp

lemmas each_upt = each_upt_from [where m = 0, simplified]

section \<open>Objects as bytes\<close>

text \<open>The object representation of an unsigned integer or a pointer on the little-endian targets of
  the code.\<close>

definition le_bytes :: "nat \<Rightarrow> 'a::len word \<Rightarrow> u8 list" where
  "le_bytes n w = map (\<lambda>i. ucast (drop_bit (8 * i) w)) [0..<n]"

definition le_word :: "u8 list \<Rightarrow> 'a::len word" where
  "le_word bs = foldr (\<lambda>b acc. ucast b OR push_bit 8 acc) bs 0"

lemma length_le_bytes [simp]: "length (le_bytes n w) = n"
  by (simp add: le_bytes_def)

lemma bit_le_word:
  "bit (le_word bs :: 'a::len word) i \<longleftrightarrow>
     i < LENGTH('a) \<and> i div 8 < length bs \<and> bit (bs ! (i div 8)) (i mod 8)"
proof (induction bs arbitrary: i)
  case (Cons b bs)
  have step: "(le_word (b # bs) :: 'a word) = ucast b OR push_bit 8 (le_word bs)"
    by (simp add: le_word_def)
  have u: "bit b i \<Longrightarrow> i < 8" using bit_imp_le_length [of b i] by simp
  show ?case
  proof (cases "i < 8")
    case True
    then show ?thesis by (auto simp: step bit_simps)
  next
    case False
    then have "i div 8 = Suc ((i - 8) div 8)" "(i - 8) mod 8 = i mod 8"
      by (simp_all add: le_div_geq le_mod_geq [of 8 i])
    with False u show ?thesis by (auto simp: step bit_simps Cons.IH)
  qed
qed (simp add: le_word_def)

lemma le_word_bytes:
  assumes "LENGTH('a::len) \<le> 8 * n"
  shows "le_word (le_bytes n w) = (w :: 'a word)"
proof (rule bit_eqI)
  fix i assume "possible_bit TYPE('a word) i"
  then have i: "i < LENGTH('a)" by simp
  with assms have "i div 8 < n" by linarith
  with i show "bit (le_word (le_bytes n w) :: 'a word) i = bit w i"
    by (simp add: bit_le_word le_bytes_def bit_simps)
qed

end
