(* ===== verification/Byte_Fifo.thy ===== *)
theory Byte_Fifo
  imports Prelude
begin

text \<open>
  The interface between a byte queue and its users: what the audio pipeline expects from a
  buffer, whichever of the two buffers of the code provides it. \<open>fifo_run\<close> plays a script of
  pushes and pops; the lemma \<open>run_stream\<close> of the locale says that a queue that keeps the two
  laws delivers exactly the bytes it accepted, in order.
\<close>

datatype fifo_op = Push "u8 list" | Pop nat

text \<open>The result of a script: the bytes accepted, the bytes delivered, the final queue.\<close>

fun fifo_run ::
  "('q \<Rightarrow> u8 list \<Rightarrow> (nat \<times> 'q) option) \<Rightarrow> ('q \<Rightarrow> nat \<Rightarrow> (u8 list \<times> 'q) option) \<Rightarrow>
     fifo_op list \<Rightarrow> 'q \<Rightarrow> (u8 list \<times> u8 list \<times> 'q) option" where
  "fifo_run push pop [] q = Some ([], [], q)"
| "fifo_run push pop (Push bs # ops) q = do {
     (n, q1) \<leftarrow> push q bs;
     (i, out, q2) \<leftarrow> fifo_run push pop ops q1;
     Some (take n bs @ i, out, q2) }"
| "fifo_run push pop (Pop n # ops) q = do {
     (bs, q1) \<leftarrow> pop q n;
     (i, out, q2) \<leftarrow> fifo_run push pop ops q1;
     Some (i, bs @ out, q2) }"

fun op_small :: "fifo_op \<Rightarrow> bool" where
  "op_small (Push bs) = (length bs < 2147483648)"
| "op_small (Pop n) = (n < 2147483648)"

locale byte_fifo =
  fixes push :: "'q \<Rightarrow> u8 list \<Rightarrow> (nat \<times> 'q) option"
    and pop :: "'q \<Rightarrow> nat \<Rightarrow> (u8 list \<times> 'q) option"
    and contents :: "'q \<Rightarrow> u8 list"
    and wf :: "'q \<Rightarrow> bool"
    and cap :: "'q \<Rightarrow> nat"
  assumes push_law: "wf q \<Longrightarrow> length bs < 2147483648 \<Longrightarrow>
      \<exists>n q'. push q bs = Some (n, q') \<and> wf q' \<and> n \<le> length bs \<and>
        contents q' = contents q @ take n bs \<and> cap q' = cap q"
    and pop_law: "wf q \<Longrightarrow> n < 2147483648 \<Longrightarrow>
      \<exists>q'. pop q n = Some (take n (contents q), q') \<and> wf q' \<and>
        contents q' = drop n (contents q) \<and> cap q' = cap q"
    and bounded: "wf q \<Longrightarrow> length (contents q) \<le> cap q"
begin

lemma run_stream:
  assumes "wf q" "list_all op_small ops"
  shows "\<exists>i out q'. fifo_run push pop ops q = Some (i, out, q') \<and> wf q' \<and> cap q' = cap q \<and>
    contents q @ i = out @ contents q'"
  using assms
proof (induction ops arbitrary: q)
  case Nil
  then show ?case by simp
next
  case (Cons x ops)
  show ?case
  proof (cases x)
    case (Push bs)
    then obtain n q1 where p: "push q bs = Some (n, q1)" "wf q1"
        "contents q1 = contents q @ take n bs" "cap q1 = cap q"
      using Cons.prems push_law [of q bs] by auto
    with Cons.IH [of q1] Cons.prems(2) Push show ?thesis by fastforce
  next
    case (Pop n)
    then obtain q1 where p: "pop q n = Some (take n (contents q), q1)" "wf q1"
        "contents q1 = drop n (contents q)" "cap q1 = cap q"
      using Cons.prems pop_law [of q n] by auto
    with Cons.IH [of q1] Cons.prems(2)
    obtain i out q' where r: "fifo_run push pop ops q1 = Some (i, out, q')" "wf q'"
        "cap q' = cap q" "contents q1 @ i = out @ contents q'"
      by fastforce
    have "contents q @ i = take n (contents q) @ out @ contents q'"
      using p(3) r(4) by (metis append.assoc append_take_drop_id)
    with p r Pop show ?thesis by simp
  qed
qed

lemma push_then_pop:
  assumes "wf q" "contents q = []" "length bs < 2147483648"
  shows "\<exists>n q1 q2. push q bs = Some (n, q1) \<and> pop q1 n = Some (take n bs, q2) \<and>
    contents q2 = []"
proof -
  obtain n q1 where p: "push q bs = Some (n, q1)" "wf q1" "n \<le> length bs"
      "contents q1 = take n bs"
    using push_law [OF assms(1,3)] assms(2) by auto
  from pop_law [OF p(2), of n] p assms(3) show ?thesis by auto
qed

end

text \<open>A queue that takes as much of an offer as fits, and one that takes an offer as a whole or
  not at all.\<close>

locale greedy_fifo = byte_fifo +
  assumes push_greedy: "wf q \<Longrightarrow> length bs < 2147483648 \<Longrightarrow>
      \<exists>q'. push q bs = Some (min (length bs) (cap q - length (contents q)), q')"
begin

lemma push_fits:
  assumes "wf q" "length (contents q) + length bs \<le> cap q" "length bs < 2147483648"
  shows "\<exists>q'. push q bs = Some (length bs, q') \<and> wf q' \<and> contents q' = contents q @ bs"
  using push_law [OF assms(1,3)] push_greedy [OF assms(1,3)] assms(2) by fastforce

end

locale atomic_fifo = byte_fifo +
  assumes push_atomic: "wf q \<Longrightarrow> length bs < 2147483648 \<Longrightarrow>
      \<exists>q'. push q bs = Some (if length (contents q) + length bs \<le> cap q then length bs else 0, q')"
begin

lemma push_refused:
  assumes "wf q" "cap q < length (contents q) + length bs" "length bs < 2147483648"
  shows "\<exists>q'. push q bs = Some (0, q') \<and> wf q' \<and> contents q' = contents q"
  using push_law [OF assms(1,3)] push_atomic [OF assms(1,3)] assms(2) by fastforce

end

end
