(* ===== verification/Ring_Buffer.thy ===== *)
theory Ring_Buffer
  imports Byte_Fifo
begin

text \<open>
  The byte ring buffer of utils/ring_buffer.c: a record with the fields of \<open>ring_buffer_t\<close>
  and one definition per function. One cell of the array is kept free, so \<open>read = write\<close>
  means empty. The abstraction \<open>ring_contents\<close> reads the queued bytes in order; the lemmas
  show that push, pop, clear and the two counters are the operations of a bounded FIFO of bytes,
  that no access leaves the array and that no \<open>int\<close> overflows.
\<close>

section \<open>State and operations\<close>

record ring_buffer =
  rb_read :: int
  rb_write :: int
  rb_size :: int
  rb_buffer :: "u8 list option"

text \<open>\<open>ring_buffer->size = size + 1\<close> is computed in \<open>uint32_t\<close> and stored in an
  \<open>int\<close>; \<open>malloc\<close> receives it as a \<open>size_t\<close>, so a negative size asks for more
  than any allocator has.\<close>

definition ring_buffer_init :: "allocator \<Rightarrow> nat \<Rightarrow> u32 \<Rightarrow> int \<times> ring_buffer" where
  "ring_buffer_init mal k req =
     (let sz = int_of_u32 (req + 1);
          buf = (if sz < 0 then None else mal k (nat sz));
          rb = \<lparr>rb_read = 0, rb_write = 0, rb_size = sz, rb_buffer = buf\<rparr>
      in (if buf = None then - 1 else 0, rb))"

definition ring_buffer_deinit :: "ring_buffer \<Rightarrow> int \<times> ring_buffer" where
  "ring_buffer_deinit rb = (0, rb\<lparr>rb_buffer := None\<rparr>)"

definition ring_buffer_get_count :: "ring_buffer \<Rightarrow> int option" where
  "ring_buffer_get_count rb = do {
     s \<leftarrow> c_int (rb_size rb + rb_write rb);
     tmp \<leftarrow> c_int (s - rb_read rb);
     if rb_size rb \<le> tmp then c_int (tmp - rb_size rb) else Some tmp }"

definition ring_buffer_get_free_count :: "ring_buffer \<Rightarrow> int option" where
  "ring_buffer_get_free_count rb = do {
     s \<leftarrow> c_int (rb_size rb + rb_read rb);
     tmp \<leftarrow> c_int (s - rb_write rb);
     tmp \<leftarrow> (if rb_size rb < tmp then c_int (tmp - rb_size rb) else Some tmp);
     c_int (tmp - 1) }"

text \<open>The source bytes of push are those of the caller's object \<open>buf\<close>, \<open>req\<close> of them.\<close>

definition ring_buffer_push :: "ring_buffer \<Rightarrow> u8 list \<Rightarrow> u32 \<Rightarrow> (u32 \<times> ring_buffer) option" where
  "ring_buffer_push rb buf req = do {
     tmp \<leftarrow> c_int (rb_size rb - rb_write rb);
     free \<leftarrow> ring_buffer_get_free_count rb;
     let count = c_clip free req;
     mem \<leftarrow> rb_buffer rb;
     mem' \<leftarrow> (if count \<le> tmp
              then do { d \<leftarrow> mem_read buf 0 count; mem_write mem (rb_write rb) d }
              else do { d1 \<leftarrow> mem_read buf 0 tmp;
                        m1 \<leftarrow> mem_write mem (rb_write rb) d1;
                        d2 \<leftarrow> mem_read buf tmp (count - tmp);
                        mem_write m1 0 d2 });
     s \<leftarrow> c_int (rb_write rb + count);
     w \<leftarrow> c_mod s (rb_size rb);
     Some (u32_of_int count, rb\<lparr>rb_write := w, rb_buffer := Some mem'\<rparr>) }"

text \<open>The one or two \<open>memcpy\<close> calls of pop: \<open>tmp\<close> bytes up to the end of the array,
  the rest from its start.\<close>

definition ring_copy_out :: "u8 list \<Rightarrow> int \<Rightarrow> int \<Rightarrow> int \<Rightarrow> u8 list option" where
  "ring_copy_out mem r tmp count =
     (if count \<le> tmp then mem_read mem r count
      else do { d1 \<leftarrow> mem_read mem r tmp;
                d2 \<leftarrow> mem_read mem 0 (count - tmp);
                Some (d1 @ d2) })"

text \<open>The bytes that pop copies to the caller's buffer are part of its result; a NULL buffer
  (\<open>wanted = False\<close>) copies none and only moves the read index.\<close>

definition ring_buffer_pop ::
  "ring_buffer \<Rightarrow> bool \<Rightarrow> u32 \<Rightarrow> (u32 \<times> u8 list \<times> ring_buffer) option" where
  "ring_buffer_pop rb wanted req = do {
     tmp \<leftarrow> c_int (rb_size rb - rb_read rb);
     cnt \<leftarrow> ring_buffer_get_count rb;
     let count = c_clip cnt req;
     out \<leftarrow> (if wanted then do {
               mem \<leftarrow> rb_buffer rb;
               ring_copy_out mem (rb_read rb) tmp count }
             else Some []);
     s \<leftarrow> c_int (rb_read rb + count);
     r \<leftarrow> c_mod s (rb_size rb);
     Some (u32_of_int count, out, rb\<lparr>rb_read := r\<rparr>) }"

definition ring_buffer_clear :: "ring_buffer \<Rightarrow> int \<times> ring_buffer" where
  "ring_buffer_clear rb = (0, rb\<lparr>rb_read := rb_write rb\<rparr>)"

section \<open>Well-formedness and contents\<close>

definition ring_wf :: "ring_buffer \<Rightarrow> bool" where
  "ring_wf rb \<longleftrightarrow>
     0 \<le> rb_read rb \<and> rb_read rb < rb_size rb \<and>
     0 \<le> rb_write rb \<and> rb_write rb < rb_size rb \<and>
     rb_size rb \<le> 1073741824 \<and>
     (\<exists>m. rb_buffer rb = Some m \<and> int (length m) = rb_size rb)"

definition ring_len :: "ring_buffer \<Rightarrow> nat" where
  "ring_len rb = nat ((rb_write rb - rb_read rb) mod rb_size rb)"

definition ring_cap :: "ring_buffer \<Rightarrow> nat" where
  "ring_cap rb = nat (rb_size rb - 1)"

text \<open>The \<open>n\<close> bytes of a circular array from index \<open>i\<close> on.\<close>

definition circ :: "'a list \<Rightarrow> nat \<Rightarrow> nat \<Rightarrow> 'a list" where
  "circ m i n = map (\<lambda>j. m ! ((i + j) mod length m)) [0..<n]"

definition ring_contents :: "ring_buffer \<Rightarrow> u8 list" where
  "ring_contents rb =
     (case rb_buffer rb of None \<Rightarrow> [] | Some m \<Rightarrow> circ m (nat (rb_read rb)) (ring_len rb))"

lemma length_circ [simp]: "length (circ m i n) = n"
  by (simp add: circ_def)

lemma nth_circ [simp]: "j < n \<Longrightarrow> circ m i n ! j = m ! ((i + j) mod length m)"
  by (simp add: circ_def)

lemma circ_append: "circ m i (n + k) = circ m i n @ circ m ((i + n) mod length m) k"
proof (rule nth_equalityI)
  fix j assume j: "j < length (circ m i (n + k))"
  have "((i + n) mod length m + (j - n)) mod length m = (i + j) mod length m" if "n \<le> j"
    using that by (simp only: mod_add_left_eq) simp
  then show "circ m i (n + k) ! j = (circ m i n @ circ m ((i + n) mod length m) k) ! j"
    using j by (cases "j < n") (simp_all add: nth_append)
qed simp

lemma circ_straight: "i + n \<le> length m \<Longrightarrow> circ m i n = take n (drop i m)"
  by (rule nth_equalityI) (simp_all add: circ_def)

lemma circ_wrap:
  assumes "i < length m" "length m \<le> i + n" "i + n \<le> 2 * length m"
  shows "circ m i n = drop i m @ take (i + n - length m) m"
proof -
  have n: "n = (length m - i) + (i + n - length m)" using assms by simp
  have "circ m i n = circ m i (length m - i) @ circ m 0 (i + n - length m)"
    using assms by (subst n, subst circ_append) simp
  also have "\<dots> = drop i m @ take (i + n - length m) m"
    using assms by (simp add: circ_straight)
  finally show ?thesis .
qed

text \<open>Overwriting the free part of a circular array: the queued part is untouched and the new
  bytes follow it.\<close>

definition circ_write :: "'a list \<Rightarrow> nat \<Rightarrow> 'a list \<Rightarrow> 'a list" where
  "circ_write m i d =
     (if i + length d \<le> length m then take i m @ d @ drop (i + length d) m
      else let t = length m - i
           in drop t d @ drop (length d - t) (take i m) @ take t d)"


lemma length_circ_write:
  "i \<le> length m \<Longrightarrow> length d \<le> length m \<Longrightarrow> length (circ_write m i d) = length m"
  by (auto simp: circ_write_def Let_def)

lemma nth_circ_write:
  assumes "w < length m" "length d \<le> length m" "j < length m"
  shows "circ_write m w d ! j =
    (if (j + (length m - w)) mod length m < length d
     then d ! ((j + (length m - w)) mod length m) else m ! j)"
proof (cases "w \<le> j")
  case True
  then have e: "(j + (length m - w)) mod length m = j - w"
    using assms by (subst mod_if) auto
  show ?thesis using True assms unfolding e
    by (auto simp: circ_write_def Let_def nth_append)
next
  case False
  then have e: "(j + (length m - w)) mod length m = j + (length m - w)"
    using assms by simp
  show ?thesis using False assms unfolding e
    by (auto simp: circ_write_def Let_def nth_append add.commute)
qed

lemma circ_circ_write:
  assumes i: "i < length m" and n: "n + length d \<le> length m"
  shows "circ (circ_write m ((i + n) mod length m) d) i (n + length d) = circ m i n @ d"
proof (rule nth_equalityI)
  let ?L = "length m" and ?w = "(i + n) mod length m"
  have w: "?w < ?L" using i by (intro mod_less_divisor) linarith
  fix j assume "j < length (circ (circ_write m ?w d) i (n + length d))"
  then have j: "j < n + length d" by simp
  have k: "(i + j) mod ?L < ?L" using i by (intro mod_less_divisor) linarith
  have off: "((i + j) mod ?L + (?L - ?w)) mod ?L = (if j < n then j + ?L - n else j - n)"
    using i n j w by (cases "i + n < ?L"; cases "i + j < ?L") (simp_all add: mod_less_double)
  have len: "length (circ_write m ?w d) = ?L"
    using w n by (intro length_circ_write) auto
  have "circ (circ_write m ?w d) i (n + length d) ! j = circ_write m ?w d ! ((i + j) mod ?L)"
    using j by (simp add: circ_def len)
  also have "\<dots> = (circ m i n @ d) ! j"
    using n j by (subst nth_circ_write [OF w _ k])
      (auto simp: off nth_append)
  finally show "circ (circ_write m ?w d) i (n + length d) ! j = (circ m i n @ d) ! j" .
qed simp


section \<open>The counters\<close>

lemma ring_lenE:
  assumes "ring_wf rb"
  obtains "rb_read rb \<le> rb_write rb" "int (ring_len rb) = rb_write rb - rb_read rb"
  | "rb_write rb < rb_read rb" "int (ring_len rb) = rb_write rb - rb_read rb + rb_size rb"
proof (cases "rb_read rb \<le> rb_write rb")
  case True
  then have "(rb_write rb - rb_read rb) mod rb_size rb = rb_write rb - rb_read rb"
    using assms by (intro mod_pos_pos_trivial) (auto simp: ring_wf_def)
  then show ?thesis using True that(1) by (simp add: ring_len_def)
next
  case False
  have "(rb_write rb - rb_read rb) mod rb_size rb
      = (rb_write rb - rb_read rb + rb_size rb) mod rb_size rb" by simp
  also have "\<dots> = rb_write rb - rb_read rb + rb_size rb"
    using assms False by (intro mod_pos_pos_trivial) (auto simp: ring_wf_def)
  finally show ?thesis using False that(2) assms by (simp add: ring_len_def ring_wf_def)
qed

lemma ring_wf_bounds:
  assumes "ring_wf rb"
  shows "0 \<le> rb_read rb" "rb_read rb < rb_size rb" "0 \<le> rb_write rb" "rb_write rb < rb_size rb"
    "0 < rb_size rb" "rb_size rb \<le> 1073741824"
  using assms by (auto simp: ring_wf_def)

lemma ring_len_le: "ring_wf rb \<Longrightarrow> int (ring_len rb) \<le> rb_size rb - 1"
  by (frule ring_wf_bounds(2), frule ring_wf_bounds(4), frule ring_wf_bounds(1))
    (auto elim: ring_lenE)

lemma ring_get_count [c_arith]:
  assumes "ring_wf rb"
  shows "ring_buffer_get_count rb = Some (int (ring_len rb))"
  using assms by (rule ring_lenE)
    (use ring_wf_bounds [OF assms] in \<open>simp_all add: ring_buffer_get_count_def c_arith\<close>)

lemma ring_get_free_count [c_arith]:
  assumes "ring_wf rb"
  shows "ring_buffer_get_free_count rb = Some (rb_size rb - 1 - int (ring_len rb))"
  using assms by (rule ring_lenE)
    (use ring_wf_bounds [OF assms] in \<open>simp_all add: ring_buffer_get_free_count_def c_arith\<close>)

lemma length_ring_contents: "ring_wf rb \<Longrightarrow> length (ring_contents rb) = ring_len rb"
  by (auto simp: ring_contents_def ring_wf_def)

section \<open>Push\<close>

lemma ring_write_index:
  assumes "ring_wf rb"
  shows "nat (rb_write rb) = (nat (rb_read rb) + ring_len rb) mod nat (rb_size rb)"
  using assms by (rule ring_lenE)
    (use assms in \<open>auto simp: ring_wf_def mod_less_double\<close>)

text \<open>What push copies and returns, in one equation.\<close>

lemma ring_buffer_push_eq:
  fixes req :: u32
  assumes wf: "ring_wf rb" and m: "rb_buffer rb = Some m"
    and c: "c = min (uint req) (rb_size rb - 1 - int (ring_len rb))"
    and buf: "c \<le> int (length buf)"
  shows "ring_buffer_push rb buf req =
    Some (u32_of_int c, rb\<lparr>rb_write := (rb_write rb + c) mod rb_size rb,
      rb_buffer := Some (circ_write m (nat (rb_write rb)) (take (nat c) buf))\<rparr>)"
proof -
  have len: "int (length m) = rb_size rb" using wf m by (auto simp: ring_wf_def)
  have free: "0 \<le> rb_size rb - 1 - int (ring_len rb)" "int (ring_len rb) \<ge> 0"
    using ring_len_le [OF wf] by simp_all
  have c0: "0 \<le> c" "c \<le> rb_size rb - 1" using c free by simp_all
  have cnt: "c_clip (rb_size rb - 1 - int (ring_len rb)) req = c"
    using free ring_wf_bounds [OF wf] c by (simp add: c_clip_min)
  have le: "length (take (nat c) buf) = nat c" using buf c0 by simp
  obtain w n where w: "rb_write rb = int w" and n: "c = int n"
    using ring_wf_bounds(3) [OF wf] c0(1) by (metis nonneg_int_cases)
  note b = ring_wf_bounds [OF wf] c0 buf cnt ring_get_free_count [OF wf]
  have L: "rb_size rb = int (length m)" using len by simp
  show ?thesis
  proof (cases "w + n \<le> length m")
    case True
    then show ?thesis using b m
      by (simp add: ring_buffer_push_def w n L c_arith c_mem circ_write_def Let_def)
  next
    case False
    define t where "t = length m - w"
    have "n < length m" "w < length m"
      using c0(2) n L w ring_wf_bounds(4) [OF wf] by simp_all
    then have t: "length m = w + t" "t < n" "n - t \<le> w"
      using False by (auto simp: t_def)
    have Lt: "rb_size rb = int w + int t" using L t by simp
    have d1: "mem_read buf 0 (int t) = Some (take t buf)"
      using t buf n by (simp add: c_mem)
    have m1: "mem_write m (int w) (take t buf) = Some (take w m @ take t buf)"
      using t buf n by (simp add: c_mem min_def)
    have d2: "mem_read buf (int t) (int n - int t) = Some (take (n - t) (drop t buf))"
      using t buf n by (simp add: c_mem nat_diff_distrib')
    have m2: "mem_write (take w m @ take t buf) 0 (take (n - t) (drop t buf))
        = Some (circ_write m w (take n buf))"
      using t buf n by (subst mem_write_ok) (auto simp: circ_write_def Let_def drop_take)
    have "n > t" "int w < int w + int t" "int w + int t \<le> 1073741824"
      using t b Lt w by simp_all
    then show ?thesis using b m d1 m1 d2 m2 Lt t(1)
      by (simp add: ring_buffer_push_def w n c_arith Let_def)
  qed
qed

text \<open>What push does, seen from the contents: it appends the first \<open>c\<close> bytes, where
  \<open>c\<close> is the smaller of the request and the free space.\<close>

lemma ring_push_contents:
  assumes wf: "ring_wf rb" and m: "rb_buffer rb = Some m"
    and c: "c \<le> ring_cap rb - ring_len rb" "c \<le> length buf"
  defines "rb' \<equiv> rb\<lparr>rb_write := (rb_write rb + int c) mod rb_size rb,
      rb_buffer := Some (circ_write m (nat (rb_write rb)) (take c buf))\<rparr>"
  shows "ring_wf rb'" "ring_contents rb' = ring_contents rb @ take c buf"
    "ring_cap rb' = ring_cap rb" "rb_size rb' = rb_size rb"
proof -
  note b = ring_wf_bounds [OF wf]
  have L: "rb_size rb = int (length m)" using wf m by (auto simp: ring_wf_def)
  have l: "length (take c buf) = c" using c by simp
  have n: "ring_len rb + c < length m"
    using c(1) ring_len_le [OF wf] b L by (simp add: ring_cap_def)
  have w: "nat (rb_write rb) < length m" "nat (rb_read rb) < length m" using b L by auto
  have cw: "length (circ_write m (nat (rb_write rb)) (take c buf)) = length m"
    using w n l by (intro length_circ_write) auto
  show wf': "ring_wf rb'" using b L cw unfolding rb'_def ring_wf_def by simp
  have len': "ring_len rb' = ring_len rb + c"
  proof -
    have "(rb_write rb' - rb_read rb') mod rb_size rb'
        = (rb_write rb - rb_read rb + int c) mod int (length m)"
      by (simp add: rb'_def L mod_diff_left_eq algebra_simps)
    also have "\<dots> = ((rb_write rb - rb_read rb) mod int (length m) + int c) mod int (length m)"
      by (simp add: mod_add_left_eq)
    also have "\<dots> = int (ring_len rb + c) mod int (length m)"
      using b L by (simp add: ring_len_def)
    also have "\<dots> = int (ring_len rb + c)" using n by simp
    finally show ?thesis by (simp add: ring_len_def [of rb'])
  qed
  have wi: "nat (rb_write rb) = (nat (rb_read rb) + ring_len rb) mod length m"
    using ring_write_index [OF wf] L by simp
  have "ring_contents rb' = circ (circ_write m ((nat (rb_read rb) + ring_len rb) mod length m)
      (take c buf)) (nat (rb_read rb)) (ring_len rb + length (take c buf))"
    using l len' by (simp add: ring_contents_def wi rb'_def)
  also have "\<dots> = ring_contents rb @ take c buf"
    using w n l by (subst circ_circ_write) (simp_all add: ring_contents_def m)
  finally show "ring_contents rb' = ring_contents rb @ take c buf" .
  show "ring_cap rb' = ring_cap rb" "rb_size rb' = rb_size rb"
    by (simp_all add: rb'_def ring_cap_def)
qed

lemma ring_push:
  fixes req :: u32
  assumes wf: "ring_wf rb"
  defines "c \<equiv> min (unat req) (ring_cap rb - ring_len rb)"
  assumes buf: "c \<le> length buf"
  obtains rb' where "ring_buffer_push rb buf req = Some (of_nat c, rb')" "ring_wf rb'"
    "ring_contents rb' = ring_contents rb @ take c buf" "ring_cap rb' = ring_cap rb"
    "rb_size rb' = rb_size rb"
proof -
  obtain m where m: "rb_buffer rb = Some m" using wf by (auto simp: ring_wf_def)
  have "int c = min (uint req) (rb_size rb - 1 - int (ring_len rb))"
    using ring_len_le [OF wf] unfolding c_def ring_cap_def uint_nat by linarith
  from ring_buffer_push_eq [OF wf m this] buf
  have "ring_buffer_push rb buf req = Some (of_nat c, rb\<lparr>rb_write := (rb_write rb + int c)
      mod rb_size rb, rb_buffer := Some (circ_write m (nat (rb_write rb)) (take c buf))\<rparr>)"
    by (simp add: u32_of_int_def)
  moreover have "c \<le> ring_cap rb - ring_len rb" by (simp add: c_def)
  ultimately show ?thesis
    using ring_push_contents [OF wf m _ buf] that by blast
qed

section \<open>Pop and clear\<close>

lemma ring_pop_contents:
  assumes wf: "ring_wf rb" and c: "c \<le> ring_len rb"
  defines "rb' \<equiv> rb\<lparr>rb_read := (rb_read rb + int c) mod rb_size rb\<rparr>"
  shows "ring_wf rb'" "ring_contents rb = take c (ring_contents rb) @ ring_contents rb'"
    "ring_cap rb' = ring_cap rb" "rb_size rb' = rb_size rb"
proof -
  note b = ring_wf_bounds [OF wf]
  obtain m where m: "rb_buffer rb = Some m" and L: "rb_size rb = int (length m)"
    using wf by (auto simp: ring_wf_def)
  show wf': "ring_wf rb'" using b L m unfolding rb'_def ring_wf_def by simp
  have len': "ring_len rb' = ring_len rb - c"
  proof -
    have "(rb_write rb' - rb_read rb') mod rb_size rb'
        = (rb_write rb - rb_read rb - int c) mod int (length m)"
      by (simp add: rb'_def L mod_diff_right_eq algebra_simps)
    also have "\<dots> = ((rb_write rb - rb_read rb) mod int (length m) - int c) mod int (length m)"
      by (simp add: mod_diff_left_eq)
    also have "\<dots> = int (ring_len rb - c) mod int (length m)"
      using b L c by (simp add: ring_len_def)
    also have "\<dots> = int (ring_len rb - c)" using ring_len_le [OF wf] L by simp
    finally show ?thesis by (simp add: ring_len_def [of rb'])
  qed
  have ri: "nat (rb_read rb') = (nat (rb_read rb) + c) mod length m"
    using b L by (simp add: rb'_def nat_mod_distrib nat_add_distrib)
  have "ring_contents rb = circ m (nat (rb_read rb)) (c + (ring_len rb - c))"
    using c by (simp add: ring_contents_def m)
  also have "\<dots> = circ m (nat (rb_read rb)) c @ ring_contents rb'"
    using ri len' by (subst circ_append) (simp add: ring_contents_def m rb'_def)
  finally have split: "ring_contents rb = circ m (nat (rb_read rb)) c @ ring_contents rb'" .
  then show "ring_contents rb = take c (ring_contents rb) @ ring_contents rb'" by simp
  show "ring_cap rb' = ring_cap rb" "rb_size rb' = rb_size rb"
    by (simp_all add: rb'_def ring_cap_def)
qed

lemma ring_buffer_pop_eq:
  fixes req :: u32
  assumes wf: "ring_wf rb"
  defines "c \<equiv> min (unat req) (ring_len rb)"
  shows "ring_buffer_pop rb wanted req = Some (of_nat c,
    if wanted then take c (ring_contents rb) else [],
    rb\<lparr>rb_read := (rb_read rb + int c) mod rb_size rb\<rparr>)"
proof -
  note b = ring_wf_bounds [OF wf]
  obtain m where m: "rb_buffer rb = Some m" and L: "rb_size rb = int (length m)"
    using wf by (auto simp: ring_wf_def)
  obtain r where r: "rb_read rb = int r" using b(1) by (metis nonneg_int_cases)
  have rl: "r < length m" using b(2) r L by simp
  have cl: "c \<le> ring_len rb" "int (ring_len rb) < int (length m)" "c < length m"
    using ring_len_le [OF wf] L by (simp_all add: c_def)
  have cnt: "c_clip (int (ring_len rb)) req = int c"
    using b cl L by (simp add: c_clip_min c_def of_nat_min)
  have part: "take c (ring_contents rb) = circ m r c"
    using circ_append [of m r c "ring_len rb - c"] cl m r by (simp add: ring_contents_def)
  have out: "ring_copy_out m (int r) (int (length m) - int r) (int c) = Some (circ m r c)"
  proof (cases "r + c \<le> length m")
    case True
    then show ?thesis using rl by (simp add: ring_copy_out_def c_mem circ_straight)
  next
    case False
    define t where "t = length m - r"
    have t: "length m = r + t" "t < c" using False rl by (auto simp: t_def)
    have "mem_read m (int r) (int t) = Some (drop r m)"
      using t by (simp add: c_mem)
    moreover have "mem_read m 0 (int c - int t) = Some (take (c - t) m)"
      using t cl by (simp add: c_mem nat_diff_distrib')
    moreover have "drop r m @ take (c - t) m = circ m r c"
      using t cl rl by (subst circ_wrap) auto
    ultimately show ?thesis using t by (simp add: ring_copy_out_def)
  qed
  have "ring_buffer_pop rb True req = Some (of_nat c, circ m r c,
      rb\<lparr>rb_read := (rb_read rb + int c) mod rb_size rb\<rparr>)"
    using b cnt out cl m
    by (simp add: ring_buffer_pop_def ring_get_count [OF wf] r L Let_def c_arith
        u32_of_int_def)
  moreover have "ring_buffer_pop rb False req = Some (of_nat c, [],
      rb\<lparr>rb_read := (rb_read rb + int c) mod rb_size rb\<rparr>)"
    using b cnt cl
    by (simp add: ring_buffer_pop_def ring_get_count [OF wf] r L Let_def c_arith u32_of_int_def)
  ultimately show ?thesis using part by simp
qed

lemma ring_pop:
  fixes req :: u32
  assumes wf: "ring_wf rb"
  defines "c \<equiv> min (unat req) (ring_len rb)"
  obtains rb' where "ring_buffer_pop rb wanted req =
      Some (of_nat c, if wanted then take c (ring_contents rb) else [], rb')"
    "ring_wf rb'" "ring_contents rb' = drop c (ring_contents rb)" "ring_cap rb' = ring_cap rb"
    "rb_size rb' = rb_size rb"
proof -
  have c: "c \<le> ring_len rb" by (simp add: c_def)
  note p = ring_pop_contents [OF wf c]
  have "length (take c (ring_contents rb)) = c" using c by (simp add: length_ring_contents [OF wf])
  then have "ring_contents (rb\<lparr>rb_read := (rb_read rb + int c) mod rb_size rb\<rparr>)
      = drop c (ring_contents rb)"
    using p(2) by (metis append_eq_conv_conj)
  with p ring_buffer_pop_eq [OF wf, of wanted req] that show ?thesis by (simp add: c_def)
qed

lemma ring_clear:
  assumes "ring_wf rb"
  shows "ring_wf (snd (ring_buffer_clear rb))" "ring_contents (snd (ring_buffer_clear rb)) = []"
    "ring_cap (snd (ring_buffer_clear rb)) = ring_cap rb"
    "rb_size (snd (ring_buffer_clear rb)) = rb_size rb"
  using assms
  by (auto simp: ring_buffer_clear_def ring_wf_def ring_contents_def ring_len_def ring_cap_def
      circ_def)

lemma ring_init:
  fixes req :: u32
  assumes "allocator_ok mal" "uint req < 1073741824"
  shows "case mal k (Suc (unat req)) of
      None \<Rightarrow> fst (ring_buffer_init mal k req) = - 1
    | Some m \<Rightarrow> fst (ring_buffer_init mal k req) = 0 \<and> ring_wf (snd (ring_buffer_init mal k req)) \<and>
        ring_contents (snd (ring_buffer_init mal k req)) = [] \<and>
        ring_cap (snd (ring_buffer_init mal k req)) = unat req \<and>
        rb_size (snd (ring_buffer_init mal k req)) = uint req + 1"
proof -
  define n where "n = unat req"
  have n1: "uint req = int n" by (simp add: n_def)
  have n: "uint req = int n" "n < 1073741824" using assms(2) unfolding n1 by simp_all
  have "uint (req + 1) = int (Suc n)" using n by (simp add: uint_word_ariths)
  then have s: "int_of_u32 (req + 1) = int (Suc n)"
    using n by (subst int_of_u32_small) simp_all
  have "nat (1 + int n) = Suc n" by simp
  note s = s this
  show ?thesis
  proof (cases "mal k (Suc n)")
    case None
    then show ?thesis by (simp add: ring_buffer_init_def s n_def [symmetric] Let_def)
  next
    case (Some m)
    then have "length m = Suc n" using allocator_okD [OF assms(1)] by simp
    with Some show ?thesis using n(2)
      by (simp add: ring_buffer_init_def s n_def [symmetric] n(1) Let_def ring_wf_def
          ring_contents_def ring_len_def ring_cap_def circ_def)
  qed
qed

section \<open>The ring buffer is a greedy FIFO\<close>

definition ring_push_bytes :: "ring_buffer \<Rightarrow> u8 list \<Rightarrow> (nat \<times> ring_buffer) option" where
  "ring_push_bytes rb bs =
     map_option (\<lambda>(n, rb'). (unat n, rb')) (ring_buffer_push rb bs (of_nat (length bs)))"

definition ring_pop_bytes :: "ring_buffer \<Rightarrow> nat \<Rightarrow> (u8 list \<times> ring_buffer) option" where
  "ring_pop_bytes rb n =
     map_option (\<lambda>(_, bs, rb'). (bs, rb')) (ring_buffer_pop rb True (of_nat n))"

interpretation ring: greedy_fifo ring_push_bytes ring_pop_bytes ring_contents ring_wf ring_cap
proof unfold_locales
  fix q and bs :: "u8 list"
  assume q: "ring_wf q" and l: "length bs < 2147483648"
  obtain q' where p: "ring_buffer_push q bs (of_nat (length bs)) =
        Some (of_nat (min (length bs) (ring_cap q - ring_len q)), q')"
      "ring_wf q'" "ring_cap q' = ring_cap q"
      "ring_contents q' = ring_contents q @ take (min (length bs) (ring_cap q - ring_len q)) bs"
    using q l by (rule_tac ring_push [of q "of_nat (length bs)" bs]) (auto simp: c_arith)
  have *: "ring_push_bytes q bs = Some (min (length bs) (ring_cap q - ring_len q), q')"
    using p(1) l by (simp add: ring_push_bytes_def c_arith)
  then show "\<exists>n q'. ring_push_bytes q bs = Some (n, q') \<and> ring_wf q' \<and> n \<le> length bs \<and>
      ring_contents q' = ring_contents q @ take n bs \<and> ring_cap q' = ring_cap q"
    using p by auto
  from * show "\<exists>q'. ring_push_bytes q bs =
      Some (min (length bs) (ring_cap q - length (ring_contents q)), q')"
    using q by (simp add: length_ring_contents)
next
  fix q and n :: nat
  assume q: "ring_wf q" and n: "n < 2147483648"
  obtain q' where p: "ring_buffer_pop q True (of_nat n) =
        Some (of_nat (min n (ring_len q)), take (min n (ring_len q)) (ring_contents q), q')"
      "ring_wf q'" "ring_cap q' = ring_cap q"
      "ring_contents q' = drop (min n (ring_len q)) (ring_contents q)"
    using q n by (rule_tac ring_pop [of q True "of_nat n"]) (auto simp: c_arith)
  then show "\<exists>q'. ring_pop_bytes q n = Some (take n (ring_contents q), q') \<and> ring_wf q' \<and>
      ring_contents q' = drop n (ring_contents q) \<and> ring_cap q' = ring_cap q"
    using q by (auto simp: ring_pop_bytes_def length_ring_contents min_def)
next
  fix q assume "ring_wf q"
  then show "length (ring_contents q) \<le> ring_cap q"
    using ring_len_le [of q] by (simp add: length_ring_contents ring_cap_def)
qed

end
