(* ===== verification/Direct_Buffer.thy ===== *)
theory Direct_Buffer
  imports Ring_Buffer
begin

text \<open>
  The linear buffer of utils/direct_buffer.c and the macros of direct_buffer.h: bytes are written
  at \<open>write\<close>, read at \<open>read\<close>, and space is only recovered by clear. The decoder of MP3
  frames uses it for the PCM data it has not yet delivered. The lemmas show that push, pop, resize
  and clear act on the unread bytes as a FIFO that never leaves its array; \<open>push_one\<close>, which
  the source does not guard, is defined exactly while there is free space.
\<close>

record direct_buffer =
  db_read :: int
  db_write :: int
  db_size :: int
  db_buffer :: "u8 list option"

text \<open>A call of \<open>malloc\<close> with an \<open>int\<close> size: a negative size is a request for nearly
  the whole address space, which fails.\<close>

definition malloc_int :: "allocator \<Rightarrow> nat \<Rightarrow> int \<Rightarrow> u8 list option" where
  "malloc_int mal k n = (if n < 0 then None else mal k (nat n))"

text \<open>The result of create carries the number of the next allocation.\<close>

definition direct_buffer_create :: "allocator \<Rightarrow> nat \<Rightarrow> int \<Rightarrow> nat \<times> direct_buffer option" where
  "direct_buffer_create mal k n =
     (if mal k 24 = None then (k + 1, None)
      else case malloc_int mal (k + 1) n of
        None \<Rightarrow> (k + 2, None)
      | Some m \<Rightarrow> (k + 2, Some \<lparr>db_read = 0, db_write = 0, db_size = n, db_buffer = Some m\<rparr>))"

text \<open>The argument of destroy is a pointer to a pointer; either may be NULL.\<close>

definition direct_buffer_destroy :: "direct_buffer option option \<Rightarrow> direct_buffer option option" where
  "direct_buffer_destroy pp =
     (case pp of None \<Rightarrow> None | Some None \<Rightarrow> Some None | Some (Some db) \<Rightarrow> Some None)"

definition direct_buffer_resize ::
  "allocator \<Rightarrow> nat \<Rightarrow> direct_buffer \<Rightarrow> int \<Rightarrow> (int \<times> nat \<times> direct_buffer) option" where
  "direct_buffer_resize mal k db n =
     (if db_size db < n then do {
        count \<leftarrow> c_int (db_write db - db_read db);
        case malloc_int mal k n of
          None \<Rightarrow> Some (0, k + 1, db)
        | Some new \<Rightarrow> do {
            new' \<leftarrow> (if 0 < count then do {
                      old \<leftarrow> db_buffer db;
                      d \<leftarrow> mem_read old (db_read db) count;
                      mem_write new (db_read db) d }
                    else Some new);
            Some (n, k + 1, db\<lparr>db_buffer := Some new', db_size := n\<rparr>) } }
      else Some (n, k, db))"

definition direct_buffer_push :: "direct_buffer \<Rightarrow> u8 list \<Rightarrow> int \<Rightarrow> (int \<times> direct_buffer) option" where
  "direct_buffer_push db buf n = do {
     count \<leftarrow> c_int (db_size db - db_write db);
     if count \<le> 0 then Some (0, db)
     else do {
       let count = (if n < count then n else count);
       mem \<leftarrow> db_buffer db;
       d \<leftarrow> mem_read buf 0 count;
       mem' \<leftarrow> mem_write mem (db_write db) d;
       w \<leftarrow> c_int (db_write db + count);
       Some (count, db\<lparr>db_buffer := Some mem', db_write := w\<rparr>) } }"

text \<open>Pop hands out a pointer into the array: its index, \<open>None\<close> for NULL. The caller reads
  the \<open>count\<close> bytes there.\<close>

definition direct_buffer_pop ::
  "direct_buffer \<Rightarrow> int \<Rightarrow> (int \<times> int option \<times> direct_buffer) option" where
  "direct_buffer_pop db n = do {
     count \<leftarrow> c_int (db_write db - db_read db);
     if count \<le> 0 then Some (0, None, db)
     else do {
       let count = (if n < count then n else count);
       r \<leftarrow> c_int (db_read db + count);
       Some (count, Some (db_read db), db\<lparr>db_read := r\<rparr>) } }"

text \<open>The macros.\<close>

definition direct_buffer_push_one :: "direct_buffer \<Rightarrow> u8 \<Rightarrow> direct_buffer option" where
  "direct_buffer_push_one db y = do {
     mem \<leftarrow> db_buffer db;
     mem' \<leftarrow> mem_write mem (db_write db) [y];
     w \<leftarrow> c_int (db_write db + 1);
     Some (db\<lparr>db_buffer := Some mem', db_write := w\<rparr>) }"

definition direct_buffer_pop_only :: "direct_buffer \<Rightarrow> int \<Rightarrow> direct_buffer option" where
  "direct_buffer_pop_only db y = do { r \<leftarrow> c_int (db_read db + y); Some (db\<lparr>db_read := r\<rparr>) }"

definition direct_buffer_clear :: "direct_buffer \<Rightarrow> direct_buffer" where
  "direct_buffer_clear db = db\<lparr>db_write := 0, db_read := 0\<rparr>"

definition direct_buffer_get_count :: "direct_buffer \<Rightarrow> int option" where
  "direct_buffer_get_count db = c_int (db_write db - db_read db)"

definition direct_buffer_get_free_count :: "direct_buffer \<Rightarrow> int option" where
  "direct_buffer_get_free_count db = c_int (db_size db - db_write db)"

section \<open>Contents\<close>

definition direct_wf :: "direct_buffer \<Rightarrow> bool" where
  "direct_wf db \<longleftrightarrow> 0 \<le> db_read db \<and> db_read db \<le> db_write db \<and> db_write db \<le> db_size db \<and>
     db_size db \<le> 2147483647 \<and> (\<exists>m. db_buffer db = Some m \<and> int (length m) = db_size db)"

definition direct_contents :: "direct_buffer \<Rightarrow> u8 list" where
  "direct_contents db = (case db_buffer db of None \<Rightarrow> []
     | Some m \<Rightarrow> drop (nat (db_read db)) (take (nat (db_write db)) m))"

definition direct_cap :: "direct_buffer \<Rightarrow> nat" where
  "direct_cap db = nat (db_size db)"

lemma direct_wfE:
  assumes "direct_wf db"
  obtains m r w where "db_buffer db = Some m" "db_read db = int r" "db_write db = int w"
    "db_size db = int (length m)" "r \<le> w" "w \<le> length m" "length m \<le> 2147483647"
    "direct_contents db = drop r (take w m)"
proof -
  from assms obtain m where m: "db_buffer db = Some m" "int (length m) = db_size db"
    by (auto simp: direct_wf_def)
  from assms obtain r w where "db_read db = int r" "db_write db = int w"
    unfolding direct_wf_def by (meson nonneg_int_cases order_trans)
  with m assms that [of m r w] show ?thesis
    by (simp add: direct_wf_def direct_contents_def)
qed

lemma direct_create:
  assumes "allocator_ok mal" "direct_buffer_create mal k n = (k', Some db)" "n \<le> 2147483647"
  shows "direct_wf db \<and> direct_contents db = [] \<and> direct_cap db = nat n"
  using assms
  by (auto simp: direct_buffer_create_def malloc_int_def direct_wf_def direct_contents_def
      direct_cap_def allocator_okD split: if_splits option.splits)

lemma direct_push:
  assumes "direct_wf db" "0 \<le> n" "n \<le> int (length buf)"
  obtains c db' where "direct_buffer_push db buf n = Some (int c, db')" "direct_wf db'"
    "c = min (nat n) (direct_cap db - nat (db_write db))"
    "direct_contents db' = direct_contents db @ take c buf" "direct_cap db' = direct_cap db"
proof -
  from direct_wfE [OF assms(1)] obtain m r w where
    d: "db_buffer db = Some m" "db_read db = int r" "db_write db = int w"
    "db_size db = int (length m)" "r \<le> w" "w \<le> length m" "length m \<le> 2147483647"
    "direct_contents db = drop r (take w m)" .
  define c where "c = min (nat n) (length m - w)"
  show ?thesis
  proof (cases "w < length m")
    case False
    with d assms have "direct_buffer_push db buf n = Some (int 0, db)"
      by (simp add: direct_buffer_push_def c_arith)
    with that [of 0 db] d False assms show ?thesis by (simp add: direct_cap_def)
  next
    case True
    have cl: "(if n < int (length m) - int w then n else int (length m) - int w) = int c"
      using True assms by (auto simp: c_def)
    have c: "c \<le> length m - w" "c \<le> length buf" using assms by (auto simp: c_def)
    define db' where "db' = db\<lparr>db_buffer := Some (take w m @ take c buf @ drop (w + c) m),
      db_write := int (w + c)\<rparr>"
    have "direct_buffer_push db buf n = Some (int c, db')"
      using d True c assms unfolding db'_def
      by (simp add: direct_buffer_push_def c_arith cl c_mem Let_def min_def)
    moreover have "direct_wf db'" "direct_cap db' = direct_cap db"
      using d c True by (auto simp: direct_wf_def db'_def direct_cap_def)
    moreover have "direct_contents db' = direct_contents db @ take c buf"
      using d c True by (simp add: direct_contents_def db'_def take_add nat_int_add)
    ultimately show ?thesis using that [of c db'] d by (simp add: c_def direct_cap_def)
  qed
qed

lemma direct_pop:
  assumes "direct_wf db" "0 \<le> n"
  obtains c p db' where "direct_buffer_pop db n = Some (int c, p, db')" "direct_wf db'"
    "c = min (nat n) (length (direct_contents db))"
    "direct_contents db' = drop c (direct_contents db)" "direct_cap db' = direct_cap db"
    "direct_contents db = [] \<and> p = None \<or>
      (\<exists>i m. p = Some i \<and> db_buffer db = Some m \<and>
        mem_read m i (int c) = Some (take c (direct_contents db)))"
proof -
  from direct_wfE [OF assms(1)] obtain m r w where
    d: "db_buffer db = Some m" "db_read db = int r" "db_write db = int w"
    "db_size db = int (length m)" "r \<le> w" "w \<le> length m" "length m \<le> 2147483647"
    "direct_contents db = drop r (take w m)" .
  define c where "c = min (nat n) (w - r)"
  show ?thesis
  proof (cases "r < w")
    case False
    with d assms have "direct_buffer_pop db n = Some (int 0, None, db)"
      by (simp add: direct_buffer_pop_def c_arith)
    with that [of 0 None db] d False assms show ?thesis by simp
  next
    case True
    have cl: "(if n < int w - int r then n else int w - int r) = int c"
      using True assms by (auto simp: c_def)
    have c: "c \<le> w - r" by (auto simp: c_def)
    define db' where "db' = db\<lparr>db_read := int (r + c)\<rparr>"
    have "direct_buffer_pop db n = Some (int c, Some (int r), db')"
      using d True c assms unfolding db'_def
      by (simp add: direct_buffer_pop_def c_arith cl Let_def)
    moreover have "direct_wf db'" "direct_cap db' = direct_cap db"
      using d c True by (auto simp: direct_wf_def db'_def direct_cap_def)
    moreover have "direct_contents db' = drop c (direct_contents db)"
      using d c True by (simp add: direct_contents_def db'_def nat_int_add add.commute)
    moreover have "mem_read m (int r) (int c) = Some (take c (direct_contents db))"
      using d c True by (simp add: c_mem drop_take min_def)
    ultimately show ?thesis using that [of c "Some (int r)" db'] d by (simp add: c_def)
  qed
qed

lemma direct_clear:
  "direct_wf db \<Longrightarrow> direct_wf (direct_buffer_clear db) \<and> direct_contents (direct_buffer_clear db) = []
     \<and> direct_cap (direct_buffer_clear db) = direct_cap db"
  by (auto simp: direct_wf_def direct_contents_def direct_cap_def direct_buffer_clear_def)

lemma direct_push_one:
  assumes "direct_wf db" "direct_buffer_get_free_count db = Some n" "0 < n"
  shows "\<exists>db'. direct_buffer_push_one db y = Some db' \<and> direct_wf db' \<and>
    direct_contents db' = direct_contents db @ [y] \<and> direct_cap db' = direct_cap db"
proof -
  from direct_wfE [OF assms(1)] obtain m r w where
    d: "db_buffer db = Some m" "db_read db = int r" "db_write db = int w"
    "db_size db = int (length m)" "r \<le> w" "w \<le> length m" "length m \<le> 2147483647"
    "direct_contents db = drop r (take w m)" .
  from d assms have "w < length m"
    by (auto simp: direct_buffer_get_free_count_def dest: c_int_SomeD)
  with d show ?thesis
    by (auto simp: direct_buffer_push_one_def c_mem c_arith direct_wf_def direct_contents_def
        direct_cap_def nat_add_distrib)
qed

lemma direct_push_one_wf:
  assumes "direct_wf db" "direct_buffer_push_one db y = Some db'"
  shows "direct_wf db'"
  using assms
  by (auto simp: direct_buffer_push_one_def direct_wf_def mem_write_def
      dest!: bind_eq_SomeD c_int_SomeD split: if_splits)

text \<open>A push of one byte with no room is a write past the array.\<close>

lemma direct_push_one_full:
  assumes "direct_wf db" "direct_buffer_get_free_count db = Some 0"
  shows "direct_buffer_push_one db y = None"
  using assms
  by (auto simp: direct_wf_def direct_buffer_push_one_def direct_buffer_get_free_count_def
      mem_write_def dest!: c_int_SomeD)

text \<open>Resizing keeps every unread byte; a failed allocation changes nothing and is reported by 0.\<close>

lemma direct_resize:
  assumes "direct_wf db" "allocator_ok mal" "0 < n" "n \<le> 2147483647"
  obtains v k' db' where "direct_buffer_resize mal k db n = Some (v, k', db')" "direct_wf db'"
    "direct_contents db' = direct_contents db"
    "v = 0 \<and> db' = db \<or> v = n \<and> direct_cap db' = max (direct_cap db) (nat n)"
proof -
  from direct_wfE [OF assms(1)] obtain m r w where
    d: "db_buffer db = Some m" "db_read db = int r" "db_write db = int w"
    "db_size db = int (length m)" "r \<le> w" "w \<le> length m" "length m \<le> 2147483647"
    "direct_contents db = drop r (take w m)" .
  show ?thesis
  proof (cases "db_size db < n")
    case False
    then have "direct_buffer_resize mal k db n = Some (n, k, db)"
      by (simp add: direct_buffer_resize_def)
    from that [OF this assms(1)] False show ?thesis by (auto simp: direct_cap_def)
  next
    case lt: True
    show ?thesis
    proof (cases "mal k (nat n)")
      case None
      with lt d assms have "direct_buffer_resize mal k db n = Some (0, k + 1, db)"
        by (simp add: direct_buffer_resize_def c_arith malloc_int_def)
      from that [OF this assms(1)] show ?thesis by simp
    next
      case (Some new)
      with assms have len: "length new = nat n" by (auto dest: allocator_okD)
      define new' where "new' = (if r < w then take r new @ drop r (take w m) @ drop w new else new)"
      define db' where "db' = db\<lparr>db_buffer := Some new', db_size := n\<rparr>"
      have "direct_buffer_resize mal k db n = Some (n, k + 1, db')"
        using lt d assms Some len unfolding db'_def new'_def
        by (simp add: direct_buffer_resize_def c_arith malloc_int_def c_mem drop_take nat_diff_distrib)
      moreover have l: "w \<le> length new" using lt d len by linarith
      then have "length new' = length new" using d(5,6) by (simp add: new'_def)
      then have "direct_wf db'" "direct_cap db' = max (direct_cap db) (nat n)"
        using lt d assms(3,4) len by (simp_all add: direct_wf_def db'_def direct_cap_def)
      moreover have "direct_contents db' = direct_contents db"
        using d(1-3,5,6,8) l by (simp add: db'_def new'_def direct_contents_def)
      ultimately show ?thesis using that by simp
    qed
  qed
qed

section \<open>The byte FIFO it provides\<close>

text \<open>The bytes a caller of pop reads through the pointer it is given.\<close>

definition direct_push_bytes :: "direct_buffer \<Rightarrow> u8 list \<Rightarrow> (nat \<times> direct_buffer) option" where
  "direct_push_bytes db bs = do {
     (n, db') \<leftarrow> direct_buffer_push db bs (int (length bs)); Some (nat n, db') }"

definition direct_pop_bytes :: "direct_buffer \<Rightarrow> nat \<Rightarrow> (u8 list \<times> direct_buffer) option" where
  "direct_pop_bytes db n = do {
     (c, p, db') \<leftarrow> direct_buffer_pop db (int n);
     case p of None \<Rightarrow> Some ([], db')
     | Some i \<Rightarrow> do { m \<leftarrow> db_buffer db'; d \<leftarrow> mem_read m i c; Some (d, db') } }"

lemma direct_pop_buffer: "direct_buffer_pop db n = Some (c, p, db') \<Longrightarrow> db_buffer db' = db_buffer db"
  by (auto simp: direct_buffer_pop_def dest!: bind_eq_SomeD split: if_splits)

interpretation direct: byte_fifo direct_push_bytes direct_pop_bytes direct_contents direct_wf direct_cap
proof unfold_locales
  fix q :: direct_buffer and bs :: "u8 list"
  assume "direct_wf q" "length bs < 2147483648"
  from direct_push [OF this(1), of "int (length bs)" bs]
  show "\<exists>n q'. direct_push_bytes q bs = Some (n, q') \<and> direct_wf q' \<and> n \<le> length bs \<and>
    direct_contents q' = direct_contents q @ take n bs \<and> direct_cap q' = direct_cap q"
    by (fastforce simp: direct_push_bytes_def)
next
  fix q :: direct_buffer and n :: nat
  assume "direct_wf q" "n < 2147483648"
  note q = this
  obtain c p db' where pop: "direct_buffer_pop q (int n) = Some (int c, p, db')" "direct_wf db'"
    "c = min n (length (direct_contents q))"
    "direct_contents db' = drop c (direct_contents q)" "direct_cap db' = direct_cap q"
    "direct_contents q = [] \<and> p = None \<or>
      (\<exists>i m. p = Some i \<and> db_buffer q = Some m \<and>
        mem_read m i (int c) = Some (take c (direct_contents q)))"
    using direct_pop [OF q(1), of "int n"] by (metis nat_int of_nat_0_le_iff)
  then show "\<exists>q'. direct_pop_bytes q n = Some (take n (direct_contents q), q') \<and> direct_wf q' \<and>
    direct_contents q' = drop n (direct_contents q) \<and> direct_cap q' = direct_cap q"
    by (auto simp: direct_pop_bytes_def direct_pop_buffer [OF pop(1)] min_def)
next
  fix q assume "direct_wf q"
  from direct_wfE [OF this] obtain m r w where
    "db_size q = int (length m)" "r \<le> w" "w \<le> length m" "direct_contents q = drop r (take w m)" .
  then show "length (direct_contents q) \<le> direct_cap q" by (auto simp: direct_cap_def)
qed

end
