(* ===== verification/Common_Buffer.thy ===== *)
theory Common_Buffer
  imports Ring_Buffer
begin

text \<open>
  The segmented buffer of utils/common_buffer.c: a linked list of ring buffers of
  \<open>node_size\<close> bytes, allocated while data arrives and freed when it is read, with a byte
  count kept modulo \<open>max_size + 1\<close>. The list from \<open>head\<close> to \<open>tail\<close> is the list
  \<open>cb_nodes\<close>. Both loops are partial functions: \<open>None\<close> is undefined behaviour or a
  loop that does not end. The lemmas prove that they end, that push takes an offer as a whole
  or refuses it (a failed allocation keeps a prefix), and that pop returns the oldest bytes.
\<close>

datatype common_buffer_return =
  COMMON_BUF_SUCCESS | COMMON_BUF_ERR_EMPTY | COMMON_BUF_ERR_MALLOC | COMMON_BUF_ERR_SIZE

record common_buffer =
  cb_read_count :: int
  cb_write_count :: int
  cb_node_size :: int
  cb_max_size :: int
  cb_nodes :: "ring_buffer list"

definition common_buffer_init :: "u32 \<Rightarrow> u32 \<Rightarrow> common_buffer" where
  "common_buffer_init node_sz max_sz =
     \<lparr>cb_read_count = 0, cb_write_count = 0, cb_node_size = int_of_u32 node_sz,
      cb_max_size = int_of_u32 (max_sz + 1), cb_nodes = []\<rparr>"

definition common_buffer_clear :: "common_buffer \<Rightarrow> common_buffer" where
  "common_buffer_clear cb = cb\<lparr>cb_nodes := [], cb_read_count := cb_write_count cb\<rparr>"

definition common_buffer_deinit :: "common_buffer \<Rightarrow> common_buffer_return \<times> common_buffer" where
  "common_buffer_deinit cb = (COMMON_BUF_SUCCESS, common_buffer_clear cb)"

definition common_buffer_get_count :: "common_buffer \<Rightarrow> int option" where
  "common_buffer_get_count cb = do {
     s \<leftarrow> c_int (cb_max_size cb + cb_write_count cb);
     tmp \<leftarrow> c_int (s - cb_read_count cb);
     if cb_max_size cb \<le> tmp then c_int (tmp - cb_max_size cb) else Some tmp }"

definition common_buffer_get_free_count :: "common_buffer \<Rightarrow> int option" where
  "common_buffer_get_free_count cb = do {
     s \<leftarrow> c_int (cb_max_size cb + cb_read_count cb);
     tmp \<leftarrow> c_int (s - cb_write_count cb);
     tmp \<leftarrow> (if cb_max_size cb < tmp then c_int (tmp - cb_max_size cb) else Some tmp);
     c_int (tmp - 1) }"

text \<open>Two allocations: the node (32 bytes) and the array of its ring buffer.\<close>

definition common_buffer_create_node ::
  "allocator \<Rightarrow> nat \<Rightarrow> u32 \<Rightarrow> common_buffer_return \<times> nat \<times> ring_buffer option" where
  "common_buffer_create_node mal k node_sz =
     (case mal k 32 of
        None \<Rightarrow> (COMMON_BUF_ERR_MALLOC, k + 1, None)
      | Some _ \<Rightarrow> (let (ret, rb) = ring_buffer_init mal (k + 1) node_sz in
          if ret \<noteq> 0 then (COMMON_BUF_ERR_MALLOC, k + 2, None)
          else (COMMON_BUF_SUCCESS, k + 2, Some rb)))"

text \<open>The condition under which push appends a node: no tail, or a full one.\<close>

definition tail_full :: "ring_buffer list \<Rightarrow> bool option" where
  "tail_full ns = (if ns = [] then Some True
     else do { f \<leftarrow> ring_buffer_get_free_count (last ns); Some (f \<le> 0) })"

definition common_buffer_extend ::
  "allocator \<Rightarrow> nat \<Rightarrow> common_buffer \<Rightarrow> (common_buffer_return \<times> nat \<times> ring_buffer list) option" where
  "common_buffer_extend mal k cb = do {
     full \<leftarrow> tail_full (cb_nodes cb);
     if full then
       (case common_buffer_create_node mal k (u32_of_int (cb_node_size cb)) of
          (ret, k', nd) \<Rightarrow> Some (ret, k',
             cb_nodes cb @ (case nd of None \<Rightarrow> [] | Some n \<Rightarrow> [n])))
     else Some (COMMON_BUF_SUCCESS, k, cb_nodes cb) }"

partial_function (option) push_loop ::
  "allocator \<Rightarrow> u8 list \<Rightarrow> u32 \<Rightarrow> u32 \<Rightarrow> nat \<Rightarrow> common_buffer \<Rightarrow>
     (common_buffer_return \<times> nat \<times> common_buffer) option" where
  "push_loop mal buf sz pos k cb =
     (if pos < sz then do {
        x \<leftarrow> common_buffer_extend mal k cb;
        if fst x \<noteq> COMMON_BUF_SUCCESS then Some (fst x, fst (snd x), cb)
        else do {
          y \<leftarrow> ring_buffer_push (last (snd (snd x))) (drop (unat pos) buf) (sz - pos);
          wc \<leftarrow> u32_mod (u32_of_int (cb_write_count cb) + fst y) (u32_of_int (cb_max_size cb));
          push_loop mal buf sz (pos + fst y) (fst (snd x))
            (cb\<lparr>cb_nodes := butlast (snd (snd x)) @ [snd y], cb_write_count := int_of_u32 wc\<rparr>) } }
      else Some (COMMON_BUF_SUCCESS, k, cb))"

definition common_buffer_push ::
  "allocator \<Rightarrow> nat \<Rightarrow> common_buffer \<Rightarrow> u8 list \<Rightarrow> u32 \<Rightarrow>
     (common_buffer_return \<times> nat \<times> common_buffer) option" where
  "common_buffer_push mal k cb buf sz = do {
     free \<leftarrow> common_buffer_get_free_count cb;
     if u32_of_int free < sz then Some (COMMON_BUF_ERR_SIZE, k, cb)
     else push_loop mal buf sz 0 k cb }"

text \<open>The head leaves the list when it is empty and not the tail.\<close>

definition drop_empty_head :: "ring_buffer list \<Rightarrow> ring_buffer list option" where
  "drop_empty_head ns = (case ns of
      [] \<Rightarrow> None
    | nd # rest \<Rightarrow> do { c \<leftarrow> ring_buffer_get_count nd;
                       Some (if c \<le> 0 \<and> rest \<noteq> [] then rest else nd # rest) })"

partial_function (option) pop_loop ::
  "bool \<Rightarrow> u32 \<Rightarrow> u32 \<Rightarrow> u8 list \<Rightarrow> common_buffer \<Rightarrow>
     (common_buffer_return \<times> u8 list \<times> common_buffer) option" where
  "pop_loop wanted sz pos acc cb =
     (if pos < sz then
        (if cb_nodes cb = [] then Some (COMMON_BUF_ERR_EMPTY, acc, cb)
         else do {
           x \<leftarrow> ring_buffer_pop (hd (cb_nodes cb)) wanted (sz - pos);
           rc \<leftarrow> u32_mod (u32_of_int (cb_read_count cb) + fst x) (u32_of_int (cb_max_size cb));
           ns \<leftarrow> drop_empty_head (snd (snd x) # tl (cb_nodes cb));
           pop_loop wanted sz (pos + fst x) (acc @ fst (snd x))
             (cb\<lparr>cb_nodes := ns, cb_read_count := int_of_u32 rc\<rparr>) })
      else Some (COMMON_BUF_SUCCESS, acc, cb))"

text \<open>The result: the return code, the final \<open>*p_size\<close>, the bytes copied, the buffer.\<close>

definition common_buffer_pop ::
  "common_buffer \<Rightarrow> bool \<Rightarrow> u32 \<Rightarrow> (common_buffer_return \<times> u32 \<times> u8 list \<times> common_buffer) option" where
  "common_buffer_pop cb wanted req = do {
     count \<leftarrow> common_buffer_get_count cb;
     let sz = (if u32_of_int count < req then u32_of_int count else req);
     if cb_nodes cb = [] then Some (COMMON_BUF_ERR_EMPTY, sz, [], cb)
     else do {
       (ret, out, cb') \<leftarrow> pop_loop wanted sz 0 [] cb;
       Some (ret, sz, out, cb') } }"

section \<open>Well-formedness and contents\<close>

definition nodes_contents :: "ring_buffer list \<Rightarrow> u8 list" where
  "nodes_contents ns = concat (map ring_contents ns)"

definition common_contents :: "common_buffer \<Rightarrow> u8 list" where
  "common_contents cb = nodes_contents (cb_nodes cb)"

definition common_cap :: "common_buffer \<Rightarrow> nat" where
  "common_cap cb = nat (cb_max_size cb - 1)"

definition node_wf :: "int \<Rightarrow> ring_buffer \<Rightarrow> bool" where
  "node_wf n rb \<longleftrightarrow> ring_wf rb \<and> rb_size rb = n + 1"

definition nodes_wf :: "int \<Rightarrow> ring_buffer list \<Rightarrow> bool" where
  "nodes_wf n ns \<longleftrightarrow> (\<forall>nd \<in> set ns. node_wf n nd) \<and> (\<forall>nd \<in> set (butlast ns). 0 < ring_len nd)"

definition common_wf :: "common_buffer \<Rightarrow> bool" where
  "common_wf cb \<longleftrightarrow>
     0 \<le> cb_read_count cb \<and> cb_read_count cb < cb_max_size cb \<and>
     0 \<le> cb_write_count cb \<and> cb_write_count cb < cb_max_size cb \<and>
     cb_max_size cb \<le> 1073741824 \<and> 1 \<le> cb_node_size cb \<and> cb_node_size cb < 1073741824 \<and>
     nodes_wf (cb_node_size cb) (cb_nodes cb) \<and>
     (cb_write_count cb - cb_read_count cb) mod cb_max_size cb = int (length (common_contents cb))"

lemma common_init:
  assumes "1 \<le> uint node_sz" "uint node_sz < 1073741824" "uint max_sz < 1073741824"
  shows "common_wf (common_buffer_init node_sz max_sz) \<and>
    common_contents (common_buffer_init node_sz max_sz) = [] \<and>
    common_cap (common_buffer_init node_sz max_sz) = unat max_sz"
proof -
  have "uint (max_sz + 1) = uint max_sz + 1"
    using assms by (simp add: uint_word_ariths take_bit_int_eq_self)
  with assms have m: "int_of_u32 (max_sz + 1) = uint max_sz + 1"
    by (simp add: int_of_u32_small)
  have n: "int_of_u32 node_sz = uint node_sz" using assms by (simp add: int_of_u32_small)
  have "nat (uint max_sz) = unat max_sz" by simp
  then show ?thesis
    using assms unfolding common_buffer_init_def m n
    by (simp add: common_wf_def common_contents_def nodes_contents_def nodes_wf_def common_cap_def)
qed

lemma common_clear:
  "common_wf cb \<Longrightarrow> common_wf (common_buffer_clear cb) \<and>
    common_contents (common_buffer_clear cb) = [] \<and>
    common_cap (common_buffer_clear cb) = common_cap cb"
  by (simp add: common_wf_def common_buffer_clear_def common_contents_def nodes_contents_def
      nodes_wf_def common_cap_def)

lemma common_length: "common_wf cb \<Longrightarrow> length (common_contents cb) \<le> common_cap cb"
  using pos_mod_bound [of "cb_max_size cb" "cb_write_count cb - cb_read_count cb"]
  by (simp add: common_wf_def common_cap_def)

lemma mod_diff_cases:
  assumes "0 \<le> a" "a < M" "0 \<le> b" "b < (M::int)"
  shows "(a - b) mod M = (if b \<le> a then a - b else a - b + M)"
proof (cases "b \<le> a")
  case False
  have "(a - b) mod M = (a - b + M) mod M" by simp
  also have "\<dots> = a - b + M" using assms False by (intro mod_pos_pos_trivial) linarith+
  finally show ?thesis using False by simp
qed (use assms in simp)

lemma common_get_count:
  assumes "common_wf cb"
  shows "common_buffer_get_count cb = Some (int (length (common_contents cb)))"
proof -
  have "(cb_write_count cb - cb_read_count cb) mod cb_max_size cb =
    (if cb_read_count cb \<le> cb_write_count cb then cb_write_count cb - cb_read_count cb
     else cb_write_count cb - cb_read_count cb + cb_max_size cb)"
    using assms by (intro mod_diff_cases) (simp_all add: common_wf_def)
  with assms show ?thesis
    by (auto simp: common_wf_def common_buffer_get_count_def c_arith split: if_splits)
qed

lemma common_get_free_count:
  assumes "common_wf cb"
  shows "common_buffer_get_free_count cb =
    Some (int (common_cap cb) - int (length (common_contents cb)))"
proof -
  have "(cb_write_count cb - cb_read_count cb) mod cb_max_size cb =
    (if cb_read_count cb \<le> cb_write_count cb then cb_write_count cb - cb_read_count cb
     else cb_write_count cb - cb_read_count cb + cb_max_size cb)"
    using assms by (intro mod_diff_cases) (simp_all add: common_wf_def)
  with assms show ?thesis
    by (auto simp: common_wf_def common_buffer_get_free_count_def common_cap_def c_arith
        split: if_splits)
qed

section \<open>One step of each loop\<close>

lemma u32_advance:
  fixes pos sz :: u32
  assumes "pos \<le> sz" "n \<le> unat (sz - pos)"
  shows "unat (pos + of_nat n) = unat pos + n" "unat (sz - (pos + of_nat n)) = unat (sz - pos) - n"
    "pos + of_nat n \<le> sz"
proof -
  have d: "unat (sz - pos) = unat sz - unat pos" using assms(1) by (simp add: unat_sub)
  have le: "unat pos \<le> unat sz" using assms(1) by (simp add: word_le_nat_alt)
  have lt: "unat sz < 4294967296" by (rule order_less_le_trans [OF unsigned_less]) simp
  have n: "unat (of_nat n :: u32) = n" using assms(2) d lt by (intro unat_of_nat_u32) linarith
  show 1: "unat (pos + of_nat n) = unat pos + n"
    using assms(2) d lt le by (subst unat_plus_simple [THEN iffD1])
      (simp_all add: no_olen_add_nat n)
  show 3: "pos + of_nat n \<le> sz" using 1 assms(2) d le by (simp add: word_le_nat_alt)
  show "unat (sz - (pos + of_nat n)) = unat (sz - pos) - n"
    using 1 d by (subst unat_sub [OF 3]) simp
qed

lemma nodes_contents_snoc [simp]: "nodes_contents (ns @ [nd]) = nodes_contents ns @ ring_contents nd"
  and nodes_contents_Cons [simp]: "nodes_contents (nd # ns) = ring_contents nd @ nodes_contents ns"
  and nodes_contents_Nil [simp]: "nodes_contents [] = []"
  by (simp_all add: nodes_contents_def)

lemma nodes_wf_snoc:
  "nodes_wf n (ns @ [nd]) \<longleftrightarrow> (\<forall>x \<in> set ns. node_wf n x \<and> 0 < ring_len x) \<and> node_wf n nd"
  by (auto simp: nodes_wf_def)

lemma nodes_wf_Cons:
  "nodes_wf n (nd # ns) \<longleftrightarrow> node_wf n nd \<and> (ns = [] \<or> 0 < ring_len nd) \<and> nodes_wf n ns"
  by (auto simp: nodes_wf_def)

text \<open>Both counters advance modulo \<open>max_size\<close>.\<close>

lemma count_step:
  assumes "0 \<le> a" "a < M" "M \<le> 1073741824" "n \<le> 1073741824"
  shows "\<exists>w. u32_mod (u32_of_int a + of_nat n) (u32_of_int M) = Some w \<and>
    int_of_u32 w = (a + int n) mod M"
proof -
  have M: "uint (u32_of_int M) = M" and a: "uint (u32_of_int a) = a"
    using assms by (simp_all add: uint_u32_of_int)
  have n: "uint (of_nat n :: u32) = int n"
    using assms by (simp add: uint_nat unat_of_nat_u32)
  have s: "uint (u32_of_int a + of_nat n) = a + int n"
    using assms by (simp add: uint_plus_if_size a n word_size)
  have "u32_of_int M \<noteq> 0" using M assms by auto
  moreover have m: "uint ((u32_of_int a + of_nat n) mod u32_of_int M) = (a + int n) mod M"
    by (simp add: uint_mod s M)
  have "(a + int n) mod M < M" using assms by simp
  then have "int_of_u32 ((u32_of_int a + of_nat n) mod u32_of_int M) = (a + int n) mod M"
    using m assms by (subst int_of_u32_small) linarith+
  ultimately show ?thesis by (simp add: u32_mod_def)
qed

lemma common_create_node:
  assumes "allocator_ok mal" "1 \<le> n" "n < 1073741824"
  obtains k' where "common_buffer_create_node mal k (u32_of_int n) = (COMMON_BUF_ERR_MALLOC, k', None)"
      "\<exists>i m. mal i m = None"
  | k' nd where "common_buffer_create_node mal k (u32_of_int n) = (COMMON_BUF_SUCCESS, k', Some nd)"
      "node_wf n nd" "ring_contents nd = []" "ring_len nd = 0"
proof -
  have u: "uint (u32_of_int n) = n" using assms by (simp add: uint_u32_of_int)
  note init = ring_init [OF assms(1), of "u32_of_int n" "k + 1", unfolded u, OF assms(3)]
  obtain ret rb where ri: "ring_buffer_init mal (k + 1) (u32_of_int n) = (ret, rb)" by fastforce
  show ?thesis
  proof (cases "ret = 0 \<and> mal k 32 \<noteq> None")
    case True
    with init ri have "ring_wf rb" "ring_contents rb = []" "rb_size rb = n + 1"
      by (auto split: option.splits)
    with that(2) [of "k + 2" rb] True ri show ?thesis
      by (auto simp: common_buffer_create_node_def node_wf_def length_ring_contents [symmetric])
  next
    case False
    with init ri have "\<exists>i m. mal i m = None" by (auto split: option.splits)
    with False that(1) ri show ?thesis
      by (cases "mal k 32") (auto simp: common_buffer_create_node_def)
  qed
qed

lemma common_extend:
  assumes "allocator_ok mal" "common_wf cb"
  obtains k' ns where "common_buffer_extend mal k cb = Some (COMMON_BUF_ERR_MALLOC, k', ns)"
      "\<exists>i m. mal i m = None"
  | k' ns nd where "common_buffer_extend mal k cb = Some (COMMON_BUF_SUCCESS, k', ns @ [nd])"
      "nodes_wf (cb_node_size cb) (ns @ [nd])" "nodes_contents (ns @ [nd]) = common_contents cb"
      "int (ring_len nd) < cb_node_size cb"
proof -
  let ?n = "cb_node_size cb"
  have n: "1 \<le> ?n" "?n < 1073741824" and w: "nodes_wf ?n (cb_nodes cb)"
    using assms(2) by (simp_all add: common_wf_def)
  show ?thesis
  proof (cases "tail_full (cb_nodes cb) = Some False")
    case False
    then have full: "tail_full (cb_nodes cb) = Some True \<and> (\<forall>x \<in> set (cb_nodes cb). node_wf ?n x \<and> 0 < ring_len x)"
      using w n
      by (cases "cb_nodes cb" rule: rev_cases)
        (auto simp: tail_full_def nodes_wf_snoc node_wf_def ring_get_free_count)
    show ?thesis
    proof (rule common_create_node [OF assms(1) n, of k])
      fix k' assume "common_buffer_create_node mal k (u32_of_int ?n) = (COMMON_BUF_ERR_MALLOC, k', None)"
        "\<exists>i m. mal i m = None"
      with full show ?thesis by (intro that(1)) (simp add: common_buffer_extend_def)
    next
      fix k' x assume x: "common_buffer_create_node mal k (u32_of_int ?n) = (COMMON_BUF_SUCCESS, k', Some x)"
        "node_wf ?n x" "ring_contents x = []" "ring_len x = 0"
      then have "nodes_wf ?n (cb_nodes cb @ [x])" using full by (simp add: nodes_wf_snoc)
      with full x n show ?thesis
        by (intro that(2) [of k' "cb_nodes cb" x])
          (simp_all add: common_buffer_extend_def common_contents_def)
    qed
  next
    case True
    then obtain ns nd where snoc: "cb_nodes cb = ns @ [nd]"
      by (cases "cb_nodes cb" rule: rev_cases) (auto simp: tail_full_def)
    with w have nd: "ring_wf nd" "rb_size nd = ?n + 1" by (auto simp: nodes_wf_snoc node_wf_def)
    with True snoc have "int (ring_len nd) < ?n"
      by (simp add: tail_full_def ring_get_free_count)
    with True snoc w show ?thesis
      by (intro that(2) [of k ns nd]) (simp_all add: common_buffer_extend_def common_contents_def)
  qed
qed

section \<open>Push and pop\<close>

text \<open>The loop of push ends, keeps the buffer well formed and appends a prefix of the offer: all of
  it, or what was queued when an allocation failed.\<close>

lemma push_loop_spec:
  assumes "allocator_ok mal" "common_wf cb" "pos \<le> sz" "unat sz \<le> length buf"
    "length (common_contents cb) + unat (sz - pos) \<le> common_cap cb"
  shows "\<exists>ret k' cb' n. push_loop mal buf sz pos k cb = Some (ret, k', cb') \<and> common_wf cb' \<and>
    n \<le> unat (sz - pos) \<and> common_contents cb' = common_contents cb @ take n (drop (unat pos) buf) \<and>
    common_cap cb' = common_cap cb \<and>
    (ret = COMMON_BUF_SUCCESS \<and> n = unat (sz - pos) \<or> ret = COMMON_BUF_ERR_MALLOC \<and> (\<exists>i m. mal i m = None))"
  using assms(2-5)
proof (induction "unat (sz - pos)" arbitrary: pos k cb rule: less_induct)
  case less
  show ?case
  proof (cases "pos < sz")
    case False
    with less.prems(2) have "pos = sz" by simp
    with less.prems show ?thesis by (subst push_loop.simps) auto
  next
    case lt: True
    let ?n = "cb_node_size cb" and ?M = "cb_max_size cb" and ?rem = "unat (sz - pos)"
    have wf: "0 \<le> cb_write_count cb" "cb_write_count cb < ?M" "?M \<le> 1073741824" "1 \<le> ?n"
      "(cb_write_count cb - cb_read_count cb) mod ?M = int (length (common_contents cb))"
      using less.prems(1) by (simp_all add: common_wf_def)
    show ?thesis
    proof (rule common_extend [OF assms(1) less.prems(1), of k])
      fix k' ns assume "common_buffer_extend mal k cb = Some (COMMON_BUF_ERR_MALLOC, k', ns)"
        "\<exists>i m. mal i m = None"
      with lt less.prems(1) show ?thesis by (subst push_loop.simps) auto
    next
      fix k' ns nd
      assume x: "common_buffer_extend mal k cb = Some (COMMON_BUF_SUCCESS, k', ns @ [nd])"
        "nodes_wf ?n (ns @ [nd])" "nodes_contents (ns @ [nd]) = common_contents cb"
        "int (ring_len nd) < ?n"
      have nd: "ring_wf nd" "rb_size nd = ?n + 1" using x(2) by (simp_all add: nodes_wf_snoc node_wf_def)
      define c where "c = min ?rem (ring_cap nd - ring_len nd)"
      have rem: "0 < ?rem" using lt by (simp add: unat_gt_0)
      have c: "0 < c" "c \<le> ?rem" using x(4) rem nd(2) by (auto simp: c_def ring_cap_def)
      have buf: "c \<le> length (drop (unat pos) buf)"
        using c(2) less.prems(2,3) by (simp add: unat_sub word_le_nat_alt)
      obtain rb' where p: "ring_buffer_push nd (drop (unat pos) buf) (sz - pos) = Some (of_nat c, rb')"
        "ring_wf rb'" "ring_contents rb' = ring_contents nd @ take c (drop (unat pos) buf)"
        "rb_size rb' = rb_size nd"
        using ring_push [OF nd(1), of "sz - pos" "drop (unat pos) buf"] buf unfolding c_def by metis
      have cM: "int c < ?M" using c less.prems(4) wf by (simp add: common_cap_def)
      obtain w where w: "u32_mod (u32_of_int (cb_write_count cb) + of_nat c) (u32_of_int ?M) = Some w"
        "int_of_u32 w = (cb_write_count cb + int c) mod ?M"
        using count_step [OF wf(1-3), of c] cM wf(3) by auto
      define cb' where "cb' = cb\<lparr>cb_nodes := ns @ [rb'], cb_write_count := int_of_u32 w\<rparr>"
      have con: "common_contents cb' = common_contents cb @ take c (drop (unat pos) buf)"
        using p(3) x(3) by (simp add: common_contents_def cb'_def)
      have cap: "common_cap cb' = common_cap cb" by (simp add: common_cap_def cb'_def)
      have len: "length (common_contents cb') = length (common_contents cb) + c"
        using buf by (simp add: con)
      have "((cb_write_count cb + int c) mod ?M - cb_read_count cb) mod ?M =
        ((cb_write_count cb - cb_read_count cb) mod ?M + int c) mod ?M"
        by (simp add: mod_simps algebra_simps)
      also have "\<dots> = int (length (common_contents cb')) mod ?M" using wf(5) len by simp
      also have "\<dots> = int (length (common_contents cb'))"
        using len c(2) less.prems(4) wf by (intro mod_pos_pos_trivial) (auto simp: common_cap_def)
      finally have "common_wf cb'"
        using less.prems(1) x(2) p(2,4) nd(2) w(2) wf unfolding common_wf_def
        by (simp add: cb'_def nodes_wf_snoc node_wf_def)
      note adv = u32_advance [OF less.prems(2) c(2)]
      have "\<exists>ret k'' cb'' n. push_loop mal buf sz (pos + of_nat c) k' cb' = Some (ret, k'', cb'') \<and>
        common_wf cb'' \<and> n \<le> ?rem - c \<and>
        common_contents cb'' = common_contents cb' @ take n (drop (unat pos + c) buf) \<and>
        common_cap cb'' = common_cap cb' \<and>
        (ret = COMMON_BUF_SUCCESS \<and> n = ?rem - c \<or> ret = COMMON_BUF_ERR_MALLOC \<and> (\<exists>i m. mal i m = None))"
        using less.hyps [of "pos + of_nat c" cb' k', unfolded adv(1,2)] \<open>common_wf cb'\<close> adv(3)
          less.prems(3,4) c len cap rem by simp
      then obtain ret k'' cb'' n where r: "push_loop mal buf sz (pos + of_nat c) k' cb' = Some (ret, k'', cb'')"
        "common_wf cb''" "n \<le> ?rem - c"
        "common_contents cb'' = common_contents cb' @ take n (drop (unat pos + c) buf)"
        "common_cap cb'' = common_cap cb'"
        "ret = COMMON_BUF_SUCCESS \<and> n = ?rem - c \<or>
          ret = COMMON_BUF_ERR_MALLOC \<and> (\<exists>i m. mal i m = None)" by blast
      have "push_loop mal buf sz pos k cb = Some (ret, k'', cb'')"
        using lt x(1) p(1) w(1) r(1) by (subst push_loop.simps) (simp add: cb'_def)
      moreover have "common_contents cb'' = common_contents cb @ take (c + n) (drop (unat pos) buf)"
        by (simp add: r(4) con take_add add.commute)
      ultimately show ?thesis using r c(2) cap
        by (intro exI [of _ ret] exI [of _ k''] exI [of _ cb''] exI [of _ "c + n"]) auto
    qed
  qed
qed

lemma common_push:
  assumes "allocator_ok mal" "common_wf cb" "unat sz \<le> length buf"
  shows "\<exists>ret k' cb' n. common_buffer_push mal k cb buf sz = Some (ret, k', cb') \<and> common_wf cb' \<and>
    common_cap cb' = common_cap cb \<and> common_contents cb' = common_contents cb @ take n buf \<and>
    n \<le> unat sz \<and>
    (if common_cap cb < length (common_contents cb) + unat sz
     then ret = COMMON_BUF_ERR_SIZE \<and> cb' = cb \<and> n = 0
     else ret = COMMON_BUF_SUCCESS \<and> n = unat sz \<or>
       ret = COMMON_BUF_ERR_MALLOC \<and> (\<exists>i m. mal i m = None))"
proof -
  have le: "length (common_contents cb) \<le> common_cap cb" using common_length assms by blast
  have cap: "common_cap cb < 1073741824" using assms(2) by (auto simp: common_wf_def common_cap_def)
  have free: "(u32_of_int (int (common_cap cb) - int (length (common_contents cb))) < sz) =
      (common_cap cb < length (common_contents cb) + unat sz)"
  proof -
    have u: "uint sz = int (unat sz)" by simp
    have "(u32_of_int (int (common_cap cb) - int (length (common_contents cb))) < sz) =
        (int (common_cap cb) - int (length (common_contents cb)) < uint sz)"
      using le cap by (intro u32_of_int_less) auto
    then show ?thesis using u by linarith
  qed
  show ?thesis
  proof (cases "common_cap cb < length (common_contents cb) + unat sz")
    case True
    with assms free show ?thesis
      by (auto simp: common_buffer_push_def common_get_free_count intro!: exI [of _ "0::nat"])
  next
    case False
    then have "length (common_contents cb) + unat (sz - 0) \<le> common_cap cb" by simp
    then obtain ret k' cb' n where r: "push_loop mal buf sz 0 k cb = Some (ret, k', cb')" "common_wf cb'"
      "n \<le> unat sz" "common_contents cb' = common_contents cb @ take n buf"
      "common_cap cb' = common_cap cb"
      "ret = COMMON_BUF_SUCCESS \<and> n = unat sz \<or>
        ret = COMMON_BUF_ERR_MALLOC \<and> (\<exists>i m. mal i m = None)"
      using push_loop_spec [OF assms(1,2) _ assms(3), of 0 k, simplified]
        False unfolding not_less by blast
    have "common_buffer_push mal k cb buf sz = Some (ret, k', cb')"
      using False free r(1) assms(2) by (simp add: common_buffer_push_def common_get_free_count)
    with False r show ?thesis by auto
  qed
qed

lemma drop_empty_head:
  assumes "nodes_wf n (nd # rest)"
  obtains ns where "drop_empty_head (nd # rest) = Some ns" "nodes_wf n ns"
    "nodes_contents ns = nodes_contents (nd # rest)"
proof -
  have nd: "ring_wf nd" using assms by (simp add: nodes_wf_Cons node_wf_def)
  then have d: "drop_empty_head (nd # rest) = Some (if ring_len nd = 0 \<and> rest \<noteq> [] then rest else nd # rest)"
    by (simp add: drop_empty_head_def ring_get_count)
  show ?thesis
  proof (cases "ring_len nd = 0 \<and> rest \<noteq> []")
    case True
    then have "ring_contents nd = []" using length_ring_contents [OF nd] by simp
    with True d assms show ?thesis by (intro that [of rest]) (auto simp: nodes_wf_Cons)
  next
    case False
    with d assms show ?thesis by (intro that [of "nd # rest"]) simp_all
  qed
qed

text \<open>The nodes after a pop, before an emptied head is freed.\<close>

lemma nodes_wf_popped:
  assumes "nodes_wf n (nd # rest)" "node_wf n nd'" "rest = [] \<or> 0 < ring_len nd'"
  shows "nodes_wf n (nd' # rest)"
  using assms by (auto simp: nodes_wf_Cons)

lemma drop_head_popped:
  assumes "nodes_wf n (nd # rest)" "node_wf n nd'"
  obtains ns where "drop_empty_head (nd' # rest) = Some ns" "nodes_wf n ns"
    "nodes_contents ns = nodes_contents (nd' # rest)"
proof (cases "rest = [] \<or> 0 < ring_len nd'")
  case True
  from drop_empty_head [OF nodes_wf_popped [OF assms True]] that show ?thesis by blast
next
  case False
  have "ring_wf nd'" using assms(2) by (simp add: node_wf_def)
  from length_ring_contents [OF this] False have "ring_contents nd' = []" by simp
  with False assms \<open>ring_wf nd'\<close> show ?thesis
    by (intro that [of rest]) (auto simp: drop_empty_head_def ring_get_count nodes_wf_Cons)
qed

lemma pop_loop_spec:
  assumes "common_wf cb" "pos \<le> sz" "unat (sz - pos) \<le> length (common_contents cb)"
  shows "\<exists>cb'. pop_loop wanted sz pos acc cb = Some (COMMON_BUF_SUCCESS,
      acc @ (if wanted then take (unat (sz - pos)) (common_contents cb) else []), cb') \<and>
    common_wf cb' \<and> common_contents cb' = drop (unat (sz - pos)) (common_contents cb) \<and>
    common_cap cb' = common_cap cb"
  using assms
proof (induction "unat (sz - pos)" arbitrary: pos acc cb rule: less_induct)
  case less
  show ?case
  proof (cases "pos < sz")
    case False
    with less.prems(2) have "pos = sz" by simp
    with less.prems show ?thesis by (subst pop_loop.simps) auto
  next
    case lt: True
    let ?n = "cb_node_size cb" and ?M = "cb_max_size cb" and ?rem = "unat (sz - pos)"
    have wf: "0 \<le> cb_read_count cb" "cb_read_count cb < ?M" "?M \<le> 1073741824"
      "(cb_write_count cb - cb_read_count cb) mod ?M = int (length (common_contents cb))"
      "nodes_wf ?n (cb_nodes cb)"
      using less.prems(1) by (simp_all add: common_wf_def)
    have rem: "0 < ?rem" using lt by (simp add: unat_gt_0)
    then obtain nd rest where ns: "cb_nodes cb = nd # rest"
      using less.prems(3) by (cases "cb_nodes cb") (auto simp: common_contents_def)
    have nd: "ring_wf nd" "rb_size nd = ?n + 1" "rest = [] \<or> 0 < ring_len nd"
      using wf(5) by (simp_all add: ns nodes_wf_Cons node_wf_def)
    define c where "c = min ?rem (ring_len nd)"
    have all: "common_contents cb = ring_contents nd @ nodes_contents rest"
      by (simp add: common_contents_def ns)
    have lnd: "length (ring_contents nd) = ring_len nd" by (rule length_ring_contents [OF nd(1)])
    have c: "0 < c" "c \<le> ?rem" "c \<le> ring_len nd" "c \<le> length (common_contents cb)"
      using rem nd(3) less.prems(3) lnd by (auto simp: c_def all)
    obtain rb' where p: "ring_buffer_pop nd wanted (sz - pos) =
        Some (of_nat c, if wanted then take c (ring_contents nd) else [], rb')"
      "ring_wf rb'" "ring_contents rb' = drop c (ring_contents nd)" "rb_size rb' = rb_size nd"
      using ring_pop [OF nd(1), of wanted "sz - pos"] unfolding c_def by metis
    obtain ns' where d: "drop_empty_head (rb' # rest) = Some ns'" "nodes_wf ?n ns'"
      "nodes_contents ns' = nodes_contents (rb' # rest)"
      using drop_head_popped [of ?n nd rest rb'] wf(5) ns p(2,4) nd(2)
      by (auto simp: node_wf_def)
    have cl: "int c \<le> int (length (common_contents cb))" "int (length (common_contents cb)) < ?M"
      using c(4) wf(4) pos_mod_bound [of ?M "cb_write_count cb - cb_read_count cb"] wf(1,2) by auto
    obtain w where w: "u32_mod (u32_of_int (cb_read_count cb) + of_nat c) (u32_of_int ?M) = Some w"
      "int_of_u32 w = (cb_read_count cb + int c) mod ?M"
      using count_step [OF wf(1-3), of c] cl wf(3) by auto
    define cb' where "cb' = cb\<lparr>cb_nodes := ns', cb_read_count := int_of_u32 w\<rparr>"
    have con: "common_contents cb' = drop c (common_contents cb)"
      using d(3) p(3) c(3) lnd by (simp add: common_contents_def cb'_def ns)
    have cap: "common_cap cb' = common_cap cb" by (simp add: common_cap_def cb'_def)
    have "(cb_write_count cb - (cb_read_count cb + int c) mod ?M) mod ?M =
      ((cb_write_count cb - cb_read_count cb) mod ?M - int c) mod ?M"
      by (simp add: mod_simps algebra_simps)
    also have "\<dots> = (int (length (common_contents cb)) - int c) mod ?M" by (simp add: wf(4))
    also have "\<dots> = int (length (common_contents cb'))"
      using cl con by (subst mod_pos_pos_trivial) auto
    finally have "common_wf cb'"
      using less.prems(1) d(2) w(2) wf unfolding common_wf_def by (simp add: cb'_def)
    note adv = u32_advance [OF less.prems(2) c(2)]
    let ?acc = "acc @ (if wanted then take c (ring_contents nd) else [])"
    have "\<exists>cb''. pop_loop wanted sz (pos + of_nat c) ?acc cb' = Some (COMMON_BUF_SUCCESS,
        ?acc @ (if wanted then take (?rem - c) (common_contents cb') else []), cb'') \<and>
      common_wf cb'' \<and> common_contents cb'' = drop (?rem - c) (common_contents cb') \<and>
      common_cap cb'' = common_cap cb'"
      using less.hyps [of "pos + of_nat c" cb' ?acc, unfolded adv(1,2)] \<open>common_wf cb'\<close> adv(3)
        less.prems(3) c con rem by simp
    then obtain cb'' where r: "pop_loop wanted sz (pos + of_nat c) ?acc cb' = Some (COMMON_BUF_SUCCESS,
        ?acc @ (if wanted then take (?rem - c) (common_contents cb') else []), cb'')"
      "common_wf cb''" "common_contents cb'' = drop (?rem - c) (common_contents cb')"
      "common_cap cb'' = common_cap cb'" by blast
    have "pop_loop wanted sz pos acc cb = pop_loop wanted sz (pos + of_nat c) ?acc cb'"
      using lt p(1) w(1) d(1) ns by (subst pop_loop.simps) (simp add: cb'_def)
    moreover have "take c (ring_contents nd) @ take (?rem - c) (common_contents cb') =
        take ?rem (common_contents cb)"
    proof -
      have "take c (ring_contents nd) = take c (common_contents cb)" using c(3) lnd by (simp add: all)
      then show ?thesis using c(2) by (simp add: con take_take_drop_append)
    qed
    ultimately show ?thesis using r c(2) cap con by auto
  qed
qed

lemma common_pop:
  fixes req :: u32
  assumes "common_wf cb"
  defines "c \<equiv> min (unat req) (length (common_contents cb))"
  shows "\<exists>ret cb'. common_buffer_pop cb wanted req =
      Some (ret, of_nat c, if wanted then take c (common_contents cb) else [], cb') \<and>
    common_wf cb' \<and> common_contents cb' = drop c (common_contents cb) \<and>
    common_cap cb' = common_cap cb \<and>
    ret = (if cb_nodes cb = [] then COMMON_BUF_ERR_EMPTY else COMMON_BUF_SUCCESS)"
proof -
  let ?l = "length (common_contents cb)"
  have l: "?l \<le> common_cap cb" using common_length assms by blast
  have cap: "common_cap cb < 1073741824" using assms(1) by (auto simp: common_wf_def common_cap_def)
  have ul: "uint (u32_of_int (int ?l)) = int ?l" using l cap by (intro uint_u32_of_int) auto
  then have nl: "unat (u32_of_int (int ?l)) = ?l" by (simp flip: nat_uint_eq)
  have sz: "(if u32_of_int (int ?l) < req then u32_of_int (int ?l) else req) = of_nat c"
    using nl by (auto simp: c_def word_less_nat_alt min_def u32_of_int_def)
  have cu: "unat (of_nat c :: u32) = c" using l cap by (intro unat_of_nat_u32) (simp add: c_def)
  note g = common_get_count [OF assms(1)]
  show ?thesis
  proof (cases "cb_nodes cb = []")
    case True
    have "common_buffer_pop cb wanted req = Some (COMMON_BUF_ERR_EMPTY, of_nat c, [], cb)"
      using True sz by (simp add: common_buffer_pop_def g Let_def)
    moreover have "common_contents cb = []" using True by (simp add: common_contents_def)
    ultimately show ?thesis using True assms(1) by (simp add: c_def)
  next
    case False
    have "c \<le> ?l" by (simp add: c_def)
    with pop_loop_spec [OF assms(1), of 0 "of_nat c" wanted "[]"] cu
    obtain cb' where "pop_loop wanted (of_nat c) 0 [] cb = Some (COMMON_BUF_SUCCESS,
        if wanted then take c (common_contents cb) else [], cb')" "common_wf cb'"
      "common_contents cb' = drop c (common_contents cb)" "common_cap cb' = common_cap cb" by auto
    with False g sz show ?thesis by (simp add: common_buffer_pop_def)
  qed
qed

section \<open>The byte FIFO it provides\<close>

text \<open>With an allocator that does not run out of memory, push takes all of an offer or nothing.\<close>

definition common_push_bytes :: "common_buffer \<Rightarrow> u8 list \<Rightarrow> (nat \<times> common_buffer) option" where
  "common_push_bytes cb bs = do {
     (ret, k, cb') \<leftarrow> common_buffer_push zero_alloc 0 cb bs (of_nat (length bs));
     Some (if ret = COMMON_BUF_SUCCESS then length bs else 0, cb') }"

definition common_pop_bytes :: "common_buffer \<Rightarrow> nat \<Rightarrow> (u8 list \<times> common_buffer) option" where
  "common_pop_bytes cb n = do {
     (ret, sz, out, cb') \<leftarrow> common_buffer_pop cb True (of_nat n); Some (out, cb') }"

lemma common_push_bytes:
  fixes bs :: "u8 list"
  assumes "common_wf cb" "length bs < 2147483648"
  defines "n \<equiv> if length (common_contents cb) + length bs \<le> common_cap cb then length bs else 0"
  shows "\<exists>cb'. common_push_bytes cb bs = Some (n, cb') \<and> common_wf cb' \<and>
    common_contents cb' = common_contents cb @ take n bs \<and> common_cap cb' = common_cap cb"
proof -
  have u: "unat (of_nat (length bs) :: u32) = length bs" using assms(2) by (intro unat_of_nat_u32) simp
  have z: "\<not> (\<exists>i m. zero_alloc i m = None)" by (simp add: zero_alloc_def)
  from common_push [OF zero_alloc_ok assms(1), of "of_nat (length bs)" bs 0, unfolded u]
  obtain ret k' cb' j where r: "common_buffer_push zero_alloc 0 cb bs (of_nat (length bs)) = Some (ret, k', cb')"
    "common_wf cb'" "common_cap cb' = common_cap cb" "common_contents cb' = common_contents cb @ take j bs"
    "if common_cap cb < length (common_contents cb) + length bs
     then ret = COMMON_BUF_ERR_SIZE \<and> cb' = cb \<and> j = 0
     else ret = COMMON_BUF_SUCCESS \<and> j = length bs \<or>
       ret = COMMON_BUF_ERR_MALLOC \<and> (\<exists>i m. zero_alloc i m = None)"
    by blast
  with z have "j = n" "ret = COMMON_BUF_SUCCESS \<and> j = length bs \<or> ret = COMMON_BUF_ERR_SIZE \<and> j = 0"
    by (auto simp: n_def zero_alloc_def split: if_splits)
  with r show ?thesis by (auto simp: common_push_bytes_def)
qed

interpretation common: atomic_fifo common_push_bytes common_pop_bytes common_contents common_wf common_cap
proof unfold_locales
  fix q and bs :: "u8 list"
  assume q: "common_wf q" "length bs < 2147483648"
  let ?n = "if length (common_contents q) + length bs \<le> common_cap q then length bs else 0"
  have "?n \<le> length bs" by simp
  with common_push_bytes [OF q]
  show "\<exists>n q'. common_push_bytes q bs = Some (n, q') \<and> common_wf q' \<and> n \<le> length bs \<and>
    common_contents q' = common_contents q @ take n bs \<and> common_cap q' = common_cap q"
    by blast
  from common_push_bytes [OF q]
  show "\<exists>q'. common_push_bytes q bs = Some (if length (common_contents q) + length bs \<le> common_cap q
    then length bs else 0, q')" by blast
next
  fix q and n :: nat
  assume q: "common_wf q" "n < 2147483648"
  have u: "unat (of_nat n :: u32) = n" using q(2) by (intro unat_of_nat_u32) simp
  have m: "take (min n (length xs)) xs = take n xs" "drop (min n (length xs)) xs = drop n xs"
    for xs :: "u8 list" by (simp_all add: min_def)
  from common_pop [OF q(1), where req = "of_nat n" and wanted = True, unfolded u m]
  show "\<exists>q'. common_pop_bytes q n = Some (take n (common_contents q), q') \<and> common_wf q' \<and>
    common_contents q' = drop n (common_contents q) \<and> common_cap q' = common_cap q"
    by (auto simp: common_pop_bytes_def)
qed (rule common_length)

end
