(* ===== verification/Common_Event.thy ===== *)
theory Common_Event
  imports Prelude
begin

text \<open>
  The event groups of src/common_event.c, which os/typedefs.h puts behind the FreeRTOS names
  (\<open>xEventGroupSetBits\<close> is \<open>common_set_event\<close> and so on), and the deadline arithmetic
  the file shares with \<open>xSemaphoreTake\<close> of os/typedefs.c. An event group is its word of
  pending bits. The mutex makes every operation atomic except the wait on the condition variable;
  what other threads do while a waiter sleeps is an explicit list of wake-ups.
\<close>

datatype event_op = Set_Bits u32 | Clear_Bits u32

definition common_set_event :: "u32 \<Rightarrow> u32 \<Rightarrow> u32" where
  "common_set_event ev events = ev OR events"

definition common_clear_event :: "u32 \<Rightarrow> u32 \<Rightarrow> u32" where
  "common_clear_event ev events = ev AND NOT events"

fun event_op_apply :: "event_op \<Rightarrow> u32 \<Rightarrow> u32" where
  "event_op_apply (Set_Bits b) ev = common_set_event ev b"
| "event_op_apply (Clear_Bits b) ev = common_clear_event ev b"

text \<open>One return of \<open>pthread_cond_timedwait\<close>: what the other threads did to the group while
  the mutex was released, and whether the call reports \<open>ETIMEDOUT\<close>.\<close>

datatype wakeup = Wakeup "event_op list" bool

text \<open>The loop of wait; \<open>None\<close> when the list of wake-ups ends, that is, the caller sleeps
  on.\<close>

fun wait_loop :: "u32 \<Rightarrow> u32 \<Rightarrow> wakeup list \<Rightarrow> (u32 \<times> u32) option" where
  "wait_loop ev bits [] = None"
| "wait_loop ev bits (Wakeup ops timed_out # ws) =
     (let ev' = fold event_op_apply ops ev in
      if timed_out then Some (0, ev')
      else if ev' AND bits = 0 then wait_loop ev' bits ws
      else Some (ev' AND bits, ev'))"

text \<open>The bits returned and the group afterwards.\<close>

definition common_wait_event :: "u32 \<Rightarrow> u32 \<Rightarrow> u32 \<Rightarrow> wakeup list \<Rightarrow> (u32 \<times> u32) option" where
  "common_wait_event ev events timeout ws = do {
     (ret, ev') \<leftarrow> (if ev AND events = 0 \<and> 0 < timeout then wait_loop ev events ws
                   else Some (ev AND events, ev));
     Some (ret, if ret \<noteq> 0 then ev' AND NOT ret else ev') }"

text \<open>The absolute deadline in seconds and nanoseconds.\<close>

definition event_deadline :: "int \<Rightarrow> int \<Rightarrow> u32 \<Rightarrow> int \<times> int" where
  "event_deadline tv_sec tv_usec timeout =
     (let sec = tv_sec + uint (timeout div 1000);
          usec = tv_usec + uint ((timeout mod 1000) * 1000);
          sec' = sec + usec div 1000000;
          usec' = usec mod 1000000
      in (sec', usec' * 1000))"

definition common_create_event :: "allocator \<Rightarrow> nat \<Rightarrow> u32 option" where
  "common_create_event mal k = (if mal k 96 = None then None else Some 0)"

section \<open>Properties\<close>

lemma wait_loop_bits:
  "wait_loop ev bits ws = Some (ret, ev') \<Longrightarrow> ret = 0 \<or> ret = ev' AND bits"
  by (induction ev bits ws rule: wait_loop.induct) (auto simp: Let_def split: if_splits)

lemma common_wait_now:
  "ev AND bits \<noteq> 0 \<or> timeout = 0 \<Longrightarrow>
    common_wait_event ev bits timeout ws = Some (ev AND bits, ev AND NOT (ev AND bits))"
  by (cases "ev AND bits = 0") (auto simp: common_wait_event_def simp del: bit.de_Morgan_conj)

lemma common_wait_timeout:
  "ev AND bits = 0 \<Longrightarrow> 0 < timeout \<Longrightarrow>
    common_wait_event ev bits timeout [Wakeup [] True] = Some (0, ev)"
  by (simp add: common_wait_event_def)

text \<open>The operations of the other threads during the first wake-ups.\<close>

fun wakeup_ops :: "wakeup \<Rightarrow> event_op list" where
  "wakeup_ops (Wakeup ops timed_out) = ops"

definition pending_after :: "nat \<Rightarrow> wakeup list \<Rightarrow> u32 \<Rightarrow> u32" where
  "pending_after k ws ev = fold event_op_apply (concat (map wakeup_ops (take k ws))) ev"

lemma wait_loop_pending:
  "wait_loop ev bits ws = Some (ret, ev') \<Longrightarrow> \<exists>k. k \<le> length ws \<and> ev' = pending_after k ws ev"
proof (induction ev bits ws rule: wait_loop.induct)
  case (2 ev bits ops timed_out ws)
  show ?case
  proof (cases "\<not> timed_out \<and> fold event_op_apply ops ev AND bits = 0")
    case True
    with 2 obtain k where "k \<le> length ws" "ev' = pending_after k ws (fold event_op_apply ops ev)" by (auto simp: Let_def)
    then show ?thesis by (intro exI [of _ "Suc k"]) (simp add: pending_after_def)
  next
    case False
    with "2.prems" have "ev' = pending_after 1 (Wakeup ops timed_out # ws) ev"
      by (auto simp: Let_def pending_after_def split: if_splits)
    then show ?thesis by (intro exI [of _ 1]) simp
  qed
qed simp

text \<open>A wait takes bits out of the group and changes no other: what it returns and what is left
  partition the bits that were pending when it returned.\<close>

lemma common_wait_partition:
  assumes "common_wait_event ev bits timeout ws = Some (ret, ev')"
  shows "\<exists>k. k \<le> length ws \<and> ret OR ev' = pending_after k ws ev \<and> ret AND ev' = 0 \<and>
    (ret = 0 \<or> ret = pending_after k ws ev AND bits)"
proof -
  from assms obtain p where p: "if ev AND bits = 0 \<and> 0 < timeout then wait_loop ev bits ws = Some (ret, p)
      else ret = ev AND bits \<and> p = ev" "ev' = (if ret \<noteq> 0 then p AND NOT ret else p)"
    by (auto simp: common_wait_event_def dest!: bind_eq_SomeD split: if_splits)
  then have "\<exists>k. k \<le> length ws \<and> p = pending_after k ws ev"
    using wait_loop_pending [of ev bits ws ret p] by (cases "ev AND bits = 0 \<and> 0 < timeout")
      (simp_all add: exI [of _ 0] pending_after_def)
  moreover have r: "ret = 0 \<or> ret = p AND bits" using p(1) by (auto dest: wait_loop_bits split: if_splits)
  then have "ret OR ev' = p" "ret AND ev' = 0"
    using p(2) by (auto simp: bit_eq_iff bit_simps)
  ultimately show ?thesis using r by blast
qed

lemma event_deadline_exact:
  assumes "event_deadline s us timeout = (s', ns')" "0 \<le> us" "us < 1000000"
  shows "s' * 1000000000 + ns' = s * 1000000000 + us * 1000 + uint timeout * 1000000 \<and>
    0 \<le> ns' \<and> ns' < 1000000000"
proof -
  have m: "uint ((timeout mod 1000) * 1000) = uint timeout mod 1000 * 1000"
    by (simp add: uint_word_ariths uint_mod take_bit_int_eq_self)
  have d: "uint (timeout div 1000) = uint timeout div 1000"
    by (simp add: uint_div)
  define u where "u = us + uint timeout mod 1000 * 1000"
  have s: "s' = s + uint timeout div 1000 + u div 1000000" "ns' = u mod 1000000 * 1000"
    using assms(1) by (simp_all add: event_deadline_def m d u_def Let_def split: prod.splits)
  define d m q r where "d = u div 1000000" "m = u mod 1000000" "q = uint timeout div 1000"
    "r = uint timeout mod 1000"
  have "0 \<le> m" "m < 1000000" "u = d * 1000000 + m" "uint timeout = q * 1000 + r"
    "u = us + r * 1000"
    by (simp_all add: d_m_q_r_def u_def)
  then show ?thesis unfolding s d_m_q_r_def [symmetric] by simp
qed

end
