(* ===== verification/Com_Fsm.thy ===== *)
theory Com_Fsm
  imports Common_Event
begin

text \<open>
  The table-driven state machine of utils/common_fsm.c, on which the decoders, the PCM
  transmitter, the HTTP download, the asynchronous task and the player run. The type variable
  \<open>'a\<close> names the action functions of a client and \<open>exec\<close> runs one; \<open>'u\<close> is the
  state behind \<open>user_param\<close>. The group of definitions follows the C file; the step relation
  \<open>fsm_step\<close> interleaves the task with the other threads, and the locale
  \<open>fsm_client\<close> carries an invariant of the client through every interleaving.
\<close>

definition COM_FSM_HOLD_STATE :: u32 where "COM_FSM_HOLD_STATE = 0xFFFFFF"
definition COM_FSM_EVENT_NONE :: u32 where "COM_FSM_EVENT_NONE = 0"
definition COM_FSM_EVENT_ALL :: u32 where "COM_FSM_EVENT_ALL = 0xFFFFFF"
definition COM_FSM_EVENT_EXIT :: u32 where "COM_FSM_EVENT_EXIT = 0x800000"
definition portMAX_DELAY :: u32 where "portMAX_DELAY = 0xFFFFFFFF"

lemmas fsm_consts = COM_FSM_HOLD_STATE_def COM_FSM_EVENT_NONE_def COM_FSM_EVENT_ALL_def
  COM_FSM_EVENT_EXIT_def portMAX_DELAY_def

record 'a com_fsm_lookup =
  lk_event :: u32
  lk_state :: u32
  lk_action :: 'a
  lk_timeout :: u32

text \<open>The two event groups are \<open>None\<close> when their allocation failed.\<close>

record 'a com_fsm =
  event_handle :: "u32 option"
  event_ack_handle :: "u32 option"
  cur_state :: u32
  lookup_table :: "'a com_fsm_lookup list"
  init_action :: "'a option"
  deinit_action :: "'a option"

definition lookup_match :: "u32 \<Rightarrow> u32 \<Rightarrow> 'a com_fsm_lookup \<Rightarrow> bool" where
  "lookup_match st event row \<longleftrightarrow> st = lk_state row \<and>
     (if event = COM_FSM_EVENT_NONE then event = lk_event row
      else lk_event row = event AND lk_event row)"

text \<open>The index of the first row that matches.\<close>

fun com_fsm_get_lookup :: "'a com_fsm_lookup list \<Rightarrow> u32 \<Rightarrow> u32 \<Rightarrow> nat option" where
  "com_fsm_get_lookup [] st event = None"
| "com_fsm_get_lookup (row # rows) st event =
     (if lookup_match st event row then Some 0
      else map_option Suc (com_fsm_get_lookup rows st event))"

type_synonym ('a, 'u) fsm_exec = "'a \<Rightarrow> 'a com_fsm \<times> 'u \<Rightarrow> (u32 \<times> 'a com_fsm \<times> 'u) option"

text \<open>The body of the task's loop once its wait has returned \<open>events\<close>: whether the task goes
  on, the machine and the client's state.\<close>

definition com_fsm_ack :: "u32 \<Rightarrow> 'a com_fsm \<Rightarrow> 'a com_fsm option" where
  "com_fsm_ack events f =
     (if events \<noteq> COM_FSM_EVENT_NONE
      then do { ack \<leftarrow> event_ack_handle f;
                Some (f\<lparr>event_ack_handle := Some (common_set_event ack events)\<rparr>) }
      else Some f)"

definition com_fsm_dispatch ::
  "('a, 'u) fsm_exec \<Rightarrow> u32 \<Rightarrow> 'a com_fsm \<times> 'u \<Rightarrow> (bool \<times> 'a com_fsm \<times> 'u) option" where
  "com_fsm_dispatch exec events s =
     (if events AND COM_FSM_EVENT_EXIT \<noteq> 0 then do {
        f \<leftarrow> com_fsm_ack events (fst s); Some (False, f, snd s) }
      else
        let look = com_fsm_get_lookup (lookup_table (fst s)) (cur_state (fst s)) in
        case (case look events of
                None \<Rightarrow> if events = COM_FSM_EVENT_NONE then look COM_FSM_EVENT_NONE else None
              | Some i \<Rightarrow> Some i) of
          None \<Rightarrow> do { f \<leftarrow> com_fsm_ack events (fst s); Some (True, f, snd s) }
        | Some i \<Rightarrow> do {
            (st, f, u) \<leftarrow> exec (lk_action (lookup_table (fst s) ! i)) s;
            f' \<leftarrow> com_fsm_ack events
              (if st \<noteq> COM_FSM_HOLD_STATE \<and> st \<noteq> cur_state f then f\<lparr>cur_state := st\<rparr> else f);
            Some (True, f', u) })"

definition com_fsm_timeout :: "'a com_fsm \<Rightarrow> u32" where
  "com_fsm_timeout f =
     (case com_fsm_get_lookup (lookup_table f) (cur_state f) COM_FSM_EVENT_NONE of
        None \<Rightarrow> portMAX_DELAY | Some i \<Rightarrow> lk_timeout (lookup_table f ! i))"

definition com_fsm_iteration ::
  "('a, 'u) fsm_exec \<Rightarrow> wakeup list \<Rightarrow> 'a com_fsm \<times> 'u \<Rightarrow> (bool \<times> 'a com_fsm \<times> 'u) option" where
  "com_fsm_iteration exec ws s = do {
     ev \<leftarrow> event_handle (fst s);
     (events, ev') \<leftarrow> common_wait_event ev COM_FSM_EVENT_ALL (com_fsm_timeout (fst s)) ws;
     com_fsm_dispatch exec events ((fst s)\<lparr>event_handle := Some ev'\<rparr>, snd s) }"

text \<open>The task over a list of waits: still running when the list ends, otherwise stopped by the
  exit event, after which the machine is freed and the deinit action runs on the client's
  state.\<close>

fun com_fsm_loop ::
  "('a, 'u) fsm_exec \<Rightarrow> wakeup list list \<Rightarrow> 'a com_fsm \<times> 'u \<Rightarrow> (bool \<times> 'a com_fsm \<times> 'u) option" where
  "com_fsm_loop exec [] s = Some (True, s)"
| "com_fsm_loop exec (ws # wss) s = do {
     (running, s') \<leftarrow> com_fsm_iteration exec ws s;
     if running then com_fsm_loop exec wss s' else Some (False, s') }"

definition com_fsm_task ::
  "('a, 'u) fsm_exec \<Rightarrow> ('a \<Rightarrow> 'u \<Rightarrow> 'u option) \<Rightarrow> wakeup list list \<Rightarrow> 'a com_fsm \<times> 'u \<Rightarrow>
     ('a com_fsm option \<times> 'u) option" where
  "com_fsm_task exec exec_deinit wss s = do {
     s1 \<leftarrow> (case init_action (fst s) of
              None \<Rightarrow> Some s
            | Some a \<Rightarrow> do { (st, f, u) \<leftarrow> exec a s; Some (f\<lparr>cur_state := st\<rparr>, u) });
     (running, f, u) \<leftarrow> com_fsm_loop exec wss s1;
     if running then Some (Some f, u)
     else (case deinit_action f of
             None \<Rightarrow> Some (None, u)
           | Some a \<Rightarrow> do { u' \<leftarrow> exec_deinit a u; Some (None, u') }) }"

text \<open>Creation: the struct (72 bytes), the table (24 bytes a row), the two event groups.\<close>

definition com_fsm_create_inner ::
  "allocator \<Rightarrow> nat \<Rightarrow> 'a com_fsm_lookup list \<Rightarrow> 'a option \<Rightarrow> 'a option \<Rightarrow> nat \<times> 'a com_fsm option" where
  "com_fsm_create_inner mal k rows init deinit =
     (if mal k 72 = None then (k + 1, None)
      else if mal (k + 1) (length rows * 24) = None then (k + 2, None)
      else (k + 4, Some \<lparr>event_handle = common_create_event mal (k + 2),
        event_ack_handle = common_create_event mal (k + 3), cur_state = 0, lookup_table = rows,
        init_action = init, deinit_action = deinit\<rparr>))"

text \<open>Signalling: \<open>serve\<close> is what the task does to the machine while the caller waits for the
  acknowledgement (\<open>Some\<close> for nothing at all); the wait then finds the acknowledgement or
  times out.\<close>

definition com_fsm_set_event ::
  "('a com_fsm \<times> 'u \<Rightarrow> ('a com_fsm \<times> 'u) option) \<Rightarrow> ('a com_fsm \<times> 'u) \<Rightarrow> u32 \<Rightarrow> u32 \<Rightarrow>
     ('a com_fsm \<times> 'u) option" where
  "com_fsm_set_event serve s event handle_timeout =
     (case event_handle (fst s) of
        None \<Rightarrow> Some s
      | Some ev \<Rightarrow>
          let s1 = ((fst s)\<lparr>event_handle := Some (common_set_event ev event)\<rparr>, snd s) in
          if 0 < handle_timeout then do {
            (f, u) \<leftarrow> serve s1;
            ack \<leftarrow> event_ack_handle f;
            (_, ack') \<leftarrow> common_wait_event ack event handle_timeout [Wakeup [] True];
            Some (f\<lparr>event_ack_handle := Some ack'\<rparr>, u) }
          else Some s1)"

definition com_fsm_set_event_from_isr :: "'a com_fsm option \<Rightarrow> u32 \<Rightarrow> 'a com_fsm option" where
  "com_fsm_set_event_from_isr fo event =
     map_option (\<lambda>f. f\<lparr>event_handle := map_option (\<lambda>ev. common_set_event ev event) (event_handle f)\<rparr>) fo"

definition com_fsm_clear_event :: "'a com_fsm \<Rightarrow> u32 \<Rightarrow> 'a com_fsm option" where
  "com_fsm_clear_event f event =
     (case event_handle f of
        None \<Rightarrow> Some f
      | Some ev \<Rightarrow> do {
          ack \<leftarrow> event_ack_handle f;
          Some (f\<lparr>event_handle := Some (common_clear_event ev event),
                  event_ack_handle := Some (common_clear_event ack event)\<rparr>) })"

definition com_fsm_set_poll :: "'a com_fsm \<Rightarrow> u32 \<Rightarrow> u32 \<Rightarrow> 'a com_fsm" where
  "com_fsm_set_poll f st timeout =
     (case com_fsm_get_lookup (lookup_table f) st COM_FSM_EVENT_NONE of
        None \<Rightarrow> f
      | Some i \<Rightarrow> f\<lparr>lookup_table := (lookup_table f)[i := (lookup_table f ! i)\<lparr>lk_timeout := timeout\<rparr>]\<rparr>)"

definition com_fsm_get_state :: "'a com_fsm option \<Rightarrow> u32" where
  "com_fsm_get_state fo = (case fo of None \<Rightarrow> COM_FSM_HOLD_STATE | Some f \<Rightarrow> cur_state f)"

text \<open>Deletion raises the exit event without waiting and clears the caller's pointer; the task
  frees the machine.\<close>

definition com_fsm_delete :: "'a com_fsm \<times> 'u \<Rightarrow> ('a com_fsm \<times> 'u) option" where
  "com_fsm_delete s = com_fsm_set_event Some s COM_FSM_EVENT_EXIT 0"

section \<open>The table\<close>

lemma get_lookup_SomeD:
  "com_fsm_get_lookup rows st ev = Some i \<Longrightarrow> i < length rows \<and> lookup_match st ev (rows ! i) \<and>
    (\<forall>j < i. \<not> lookup_match st ev (rows ! j))"
proof (induction rows arbitrary: i)
  case (Cons row rows)
  show ?case
  proof (cases "lookup_match st ev row")
    case False
    with Cons.prems obtain i' where i: "i = Suc i'" "com_fsm_get_lookup rows st ev = Some i'" by auto
    from Cons.IH [OF i(2)] False show ?thesis by (auto simp: i(1) less_Suc_eq_0_disj)
  qed (use Cons.prems in simp)
qed simp

lemma get_lookup_None:
  "com_fsm_get_lookup rows st ev = None \<longleftrightarrow> (\<forall>row \<in> set rows. \<not> lookup_match st ev row)"
  by (induction rows) auto

text \<open>A row for \<open>COM_FSM_EVENT_NONE\<close> is the poll row of its state, and it matches every
  event that no earlier row takes.\<close>

lemma poll_row_matches_all: "lk_event row = 0 \<Longrightarrow> lookup_match (lk_state row) ev row"
  by (simp add: lookup_match_def fsm_consts)

section \<open>Dispatch\<close>

lemma dispatch_exit:
  assumes "events AND COM_FSM_EVENT_EXIT \<noteq> 0" "event_ack_handle f = Some ack"
  shows "com_fsm_dispatch exec events (f, u) =
    Some (False, f\<lparr>event_ack_handle := Some (ack OR events)\<rparr>, u)"
  using assms by (auto simp: com_fsm_dispatch_def com_fsm_ack_def common_set_event_def fsm_consts)

text \<open>A single round runs at most one action, that of the first matching row, and acknowledges all
  the bits it took, handled or not.\<close>

lemma dispatch_first:
  assumes "events AND COM_FSM_EVENT_EXIT = 0"
    "com_fsm_get_lookup (lookup_table f) (cur_state f) events = Some i"
    "exec (lk_action (lookup_table f ! i)) (f, u) = Some (st, f', u')"
    "event_ack_handle f' = Some ack"
  shows "com_fsm_dispatch exec events (f, u) = Some (True,
    f'\<lparr>cur_state := if st = COM_FSM_HOLD_STATE then cur_state f' else st,
       event_ack_handle := Some (ack OR events)\<rparr>, u')"
  using assms
  by (cases "events = 0") (auto simp: com_fsm_dispatch_def com_fsm_ack_def common_set_event_def
      COM_FSM_EVENT_NONE_def)

lemma dispatch_unhandled:
  assumes "events AND COM_FSM_EVENT_EXIT = 0"
    "com_fsm_get_lookup (lookup_table f) (cur_state f) events = None"
    "event_ack_handle f = Some ack"
  shows "com_fsm_dispatch exec events (f, u) =
    Some (True, f\<lparr>event_ack_handle := Some (ack OR events)\<rparr>, u)"
  using assms
  by (cases "events = 0") (auto simp: com_fsm_dispatch_def com_fsm_ack_def common_set_event_def
      COM_FSM_EVENT_NONE_def Let_def)

lemma iteration_pending:
  assumes "event_handle f = Some ev" "ev AND COM_FSM_EVENT_ALL \<noteq> 0"
  shows "com_fsm_iteration exec ws (f, u) =
    com_fsm_dispatch exec (ev AND COM_FSM_EVENT_ALL)
      (f\<lparr>event_handle := Some (ev AND NOT (ev AND COM_FSM_EVENT_ALL))\<rparr>, u)"
  using assms by (simp add: com_fsm_iteration_def common_wait_now)

section \<open>Clients\<close>

text \<open>An action may raise events, clear them and change the poll times; it leaves the state
  number to the task and the rows to the table.\<close>

definition row_key :: "'a com_fsm_lookup \<Rightarrow> u32 \<times> u32 \<times> 'a" where
  "row_key r = (lk_event r, lk_state r, lk_action r)"

definition same_machine :: "'a com_fsm \<Rightarrow> 'a com_fsm \<Rightarrow> bool" where
  "same_machine f g \<longleftrightarrow> cur_state g = cur_state f \<and>
     map row_key (lookup_table g) = map row_key (lookup_table f) \<and>
     (event_handle g = None \<longleftrightarrow> event_handle f = None) \<and>
     (event_ack_handle g = None \<longleftrightarrow> event_ack_handle f = None) \<and>
     init_action g = init_action f \<and> deinit_action g = deinit_action f"

definition fsm_ready :: "'a com_fsm \<Rightarrow> bool" where
  "fsm_ready f \<longleftrightarrow> event_handle f \<noteq> None \<and> event_ack_handle f \<noteq> None"

lemma same_machine_refl [simp]: "same_machine f f"
  by (simp add: same_machine_def)

lemma same_machine_trans: "same_machine f g \<Longrightarrow> same_machine g h \<Longrightarrow> same_machine f h"
  by (simp add: same_machine_def)

lemma same_machine_set_event:
  "com_fsm_set_event Some (f, u) event 0 = Some (f', u') \<Longrightarrow> same_machine f f' \<and> u' = u"
  by (auto simp: com_fsm_set_event_def same_machine_def split: option.splits)

lemma set_event_async:
  "fsm_ready f \<Longrightarrow> \<exists>f'. com_fsm_set_event serve (f, u) event 0 = Some (f', u) \<and> same_machine f f' \<and>
    event_handle f' = map_option (\<lambda>ev. ev OR event) (event_handle f)"
  by (auto simp: com_fsm_set_event_def same_machine_def fsm_ready_def common_set_event_def)

lemma same_machine_set_poll: "same_machine f (com_fsm_set_poll f st timeout)"
proof -
  have "map row_key (rows[i := (rows ! i)\<lparr>lk_timeout := timeout\<rparr>]) = map row_key rows"
    for rows :: "'a com_fsm_lookup list" and i
    by (cases "i < length rows") (auto simp: row_key_def nth_list_update intro!: nth_equalityI)
  then show ?thesis
    by (simp add: com_fsm_set_poll_def same_machine_def split: option.split)
qed

lemma same_machine_ready: "same_machine f g \<Longrightarrow> fsm_ready g = fsm_ready f"
  by (simp add: same_machine_def fsm_ready_def)

text \<open>One step of the machine among other threads: a round of the task, a signal or a clear from
  outside, a caller that takes an acknowledgement, or an operation of the client's interface on its
  own state.\<close>

inductive fsm_step ::
  "('a, 'u) fsm_exec \<Rightarrow> ('u \<Rightarrow> 'u \<Rightarrow> bool) \<Rightarrow> 'a com_fsm \<times> 'u \<Rightarrow> 'a com_fsm \<times> 'u \<Rightarrow> bool"
  for exec api where
  round: "com_fsm_iteration exec ws s = Some (True, s') \<Longrightarrow> fsm_step exec api s s'"
| signal: "com_fsm_set_event Some s event 0 = Some s' \<Longrightarrow> fsm_step exec api s s'"
| clear: "com_fsm_clear_event f event = Some f' \<Longrightarrow> fsm_step exec api (f, u) (f', u)"
| acknowledged: "event_ack_handle f = Some ack \<Longrightarrow> fsm_step exec api (f, u) (f\<lparr>event_ack_handle := Some ack'\<rparr>, u)"
| poll: "fsm_step exec api (f, u) (com_fsm_set_poll f st timeout, u)"
| api: "api u u' \<Longrightarrow> fsm_step exec api (f, u) (f, u')"

inductive fsm_reach ::
  "('a, 'u) fsm_exec \<Rightarrow> ('u \<Rightarrow> 'u \<Rightarrow> bool) \<Rightarrow> 'a com_fsm \<times> 'u \<Rightarrow> 'a com_fsm \<times> 'u \<Rightarrow> bool"
  for exec api s where
  start: "fsm_reach exec api s s"
| step: "fsm_reach exec api s s' \<Longrightarrow> fsm_step exec api s' s'' \<Longrightarrow> fsm_reach exec api s s''"

inductive_cases fsm_stepE: "fsm_step exec api s s'"

lemma same_machine_clear: "com_fsm_clear_event f event = Some f' \<Longrightarrow> same_machine f f'"
  by (auto simp: com_fsm_clear_event_def same_machine_def dest!: bind_eq_SomeD split: option.splits)

text \<open>The contract of a client: an invariant \<open>I\<close> of the state number and the client's data
  that every action of a row keeps (with the state it asks for) and that the interface keeps in
  every state. A client whose actions also always have a defined result meets the second
  contract.\<close>

locale fsm_safe =
  fixes exec :: "('a, 'u) fsm_exec"
    and rows :: "(u32 \<times> u32 \<times> 'a) list"
    and api :: "'u \<Rightarrow> 'u \<Rightarrow> bool"
    and I :: "u32 \<Rightarrow> 'u \<Rightarrow> bool"
  assumes action_law: "fsm_ready f \<Longrightarrow> I (cur_state f) u \<Longrightarrow> (ev, cur_state f, a) \<in> set rows \<Longrightarrow>
      exec a (f, u) = Some (st, f', u') \<Longrightarrow> same_machine f f' \<and>
        I (if st = COM_FSM_HOLD_STATE then cur_state f else st) u'"
    and api_law: "I st u \<Longrightarrow> api u u' \<Longrightarrow> I st u'"
begin

definition fsm_inv :: "'a com_fsm \<times> 'u \<Rightarrow> bool" where
  "fsm_inv s \<longleftrightarrow> fsm_ready (fst s) \<and> map row_key (lookup_table (fst s)) = rows \<and>
     I (cur_state (fst s)) (snd s)"

lemma fsm_inv_row:
  assumes "fsm_inv (f, u)" "com_fsm_get_lookup (lookup_table f) (cur_state f) events = Some i"
  shows "(lk_event (lookup_table f ! i), cur_state f, lk_action (lookup_table f ! i)) \<in> set rows"
proof -
  from get_lookup_SomeD [OF assms(2)]
  have i: "i < length (lookup_table f)" "lk_state (lookup_table f ! i) = cur_state f"
    by (auto simp: lookup_match_def)
  from i have "row_key (lookup_table f ! i) \<in> set (map row_key (lookup_table f))" by simp
  then have "row_key (lookup_table f ! i) \<in> set rows"
    using assms(1) by (simp only: fsm_inv_def fst_conv)
  with i show ?thesis by (simp add: row_key_def)
qed

lemma dispatch_safe:
  assumes "fsm_inv s" "com_fsm_dispatch exec events s = Some (r, s')"
  shows "fsm_inv s'"
proof -
  obtain f u where s: "s = (f, u)" by fastforce
  from assms obtain ev ack where f: "event_handle f = Some ev" "event_ack_handle f = Some ack"
    "map row_key (lookup_table f) = rows" "I (cur_state f) u"
    by (auto simp: s fsm_inv_def fsm_ready_def)
  show ?thesis
  proof (cases "events AND COM_FSM_EVENT_EXIT = 0")
    case False
    with f assms(2) show ?thesis by (auto simp: s dispatch_exit [OF False f(2)] fsm_inv_def fsm_ready_def)
  next
    case True
    show ?thesis
    proof (cases "com_fsm_get_lookup (lookup_table f) (cur_state f) events")
      case None
      with f True assms(2) show ?thesis
        by (auto simp: s dispatch_unhandled [OF True None f(2)] fsm_inv_def fsm_ready_def)
    next
      case (Some i)
      let ?row = "lookup_table f ! i"
      note row = fsm_inv_row [OF assms(1) [unfolded s] Some]
      from assms(2) True Some obtain st f' u' where
        e: "exec (lk_action ?row) (f, u) = Some (st, f', u')"
        by (auto simp: s com_fsm_dispatch_def Let_def dest!: bind_eq_SomeD split: option.splits if_splits)
      from action_law [OF _ f(4) row e] f(1,2) have l: "same_machine f f'"
        "I (if st = COM_FSM_HOLD_STATE then cur_state f else st) u'" by (auto simp: fsm_ready_def)
      from l(1) f(2) obtain ack' where a: "event_ack_handle f' = Some ack'"
        by (auto simp: same_machine_def)
      from dispatch_first [where exec = exec, OF True Some e a] l f assms(2) show ?thesis
        by (auto simp: s fsm_inv_def fsm_ready_def same_machine_def)
    qed
  qed
qed

lemma fsm_inv_event: "fsm_inv (f, u) \<Longrightarrow> fsm_inv (f\<lparr>event_handle := Some ev\<rparr>, u)"
  by (simp add: fsm_inv_def fsm_ready_def)

lemma iteration_inv:
  assumes "fsm_inv s" "com_fsm_iteration exec ws s = Some (r, s')"
  shows "fsm_inv s'"
proof -
  from assms obtain events ev' where
    "com_fsm_dispatch exec events ((fst s)\<lparr>event_handle := Some ev'\<rparr>, snd s) = Some (r, s')"
    by (auto simp: com_fsm_iteration_def dest!: bind_eq_SomeD)
  moreover have "fsm_inv ((fst s)\<lparr>event_handle := Some ev'\<rparr>, snd s)"
    using assms(1) by (intro fsm_inv_event) simp
  ultimately show ?thesis by (rule dispatch_safe [rotated])
qed

lemma set_event_inv:
  assumes "com_fsm_set_event serve s event t = Some s'" "fsm_inv s" "\<And>s s'. serve s = Some s' \<Longrightarrow> fsm_inv s \<Longrightarrow> fsm_inv s'"
  shows "fsm_inv s'"
proof (cases "event_handle (fst s)")
  case (Some ev)
  let ?s1 = "((fst s)\<lparr>event_handle := Some (common_set_event ev event)\<rparr>, snd s)"
  have i: "fsm_inv ?s1" using assms(2) by (intro fsm_inv_event) simp
  show ?thesis
  proof (cases "0 < t")
    case True
    with Some assms(1) obtain f u ack where "serve ?s1 = Some (f, u)" "s' = (f\<lparr>event_ack_handle := Some ack\<rparr>, u)"
      by (auto simp: com_fsm_set_event_def Let_def bind_eq_Some_conv)
    with assms(3) [OF this(1) i] show ?thesis by (simp add: fsm_inv_def fsm_ready_def)
  qed (use Some assms(1) i in \<open>simp add: com_fsm_set_event_def\<close>)
qed (use assms(1,2) in \<open>simp add: com_fsm_set_event_def\<close>)

lemma step_inv:
  assumes "fsm_step exec api s s'" "fsm_inv s"
  shows "fsm_inv s'"
  using assms
proof cases
  case (round ws)
  with assms(2) show ?thesis by (blast intro: iteration_inv)
next
  case (signal event)
  with same_machine_set_event [of "fst s" "snd s" event "fst s'" "snd s'"] assms(2) show ?thesis
    by (auto simp: fsm_inv_def same_machine_def fsm_ready_def)
next
  case (clear f event f' u)
  with same_machine_clear [OF clear(3)] assms(2) show ?thesis
    by (auto simp: fsm_inv_def same_machine_def fsm_ready_def)
next
  case (acknowledged f ack u ack')
  with assms(2) show ?thesis by (simp add: fsm_inv_def fsm_ready_def)
next
  case (poll f u st timeout)
  with same_machine_set_poll [of f st timeout] assms(2) show ?thesis
    by (auto simp: fsm_inv_def same_machine_def fsm_ready_def)
next
  case (api u u' f)
  with assms(2) show ?thesis by (auto simp: fsm_inv_def intro: api_law)
qed

lemma reach_inv:
  assumes "fsm_reach exec api s s'" "fsm_inv s"
  shows "fsm_inv s'"
  using assms by induction (auto intro: step_inv)

end

locale fsm_client = fsm_safe +
  assumes action_defined: "fsm_ready f \<Longrightarrow> I (cur_state f) u \<Longrightarrow> (ev, cur_state f, a) \<in> set rows \<Longrightarrow>
      \<exists>r. exec a (f, u) = Some r"
begin

lemma dispatch_defined:
  assumes "fsm_inv s"
  shows "\<exists>r s'. com_fsm_dispatch exec events s = Some (r, s') \<and> fsm_inv s'"
proof -
  obtain f u where s: "s = (f, u)" by fastforce
  from assms obtain ack where f: "fsm_ready f" "event_ack_handle f = Some ack" "I (cur_state f) u"
    by (auto simp: s fsm_inv_def fsm_ready_def)
  have "\<exists>r s'. com_fsm_dispatch exec events s = Some (r, s')"
  proof (cases "events AND COM_FSM_EVENT_EXIT = 0")
    case False
    with f show ?thesis by (auto simp: s dispatch_exit [OF False f(2)])
  next
    case True
    show ?thesis
    proof (cases "com_fsm_get_lookup (lookup_table f) (cur_state f) events")
      case None
      with True f show ?thesis by (auto simp: s dispatch_unhandled [OF True None f(2)])
    next
      case (Some i)
      note row = fsm_inv_row [OF assms [unfolded s] Some]
      from action_defined [OF f(1,3) row] obtain st f' u' where
        e: "exec (lk_action (lookup_table f ! i)) (f, u) = Some (st, f', u')" by auto
      from action_law [OF f(1,3) row e] f(2) obtain ack' where "event_ack_handle f' = Some ack'"
        by (auto simp: same_machine_def)
      from dispatch_first [where exec = exec, OF True Some e this] show ?thesis by (auto simp: s)
    qed
  qed
  with dispatch_safe [OF assms] show ?thesis by blast
qed

text \<open>A round of the task always has a defined result once its wait has returned.\<close>

lemma pending_progress:
  assumes "fsm_inv (f, u)" "event_handle f = Some ev" "ev AND COM_FSM_EVENT_ALL \<noteq> 0"
  shows "\<exists>r s'. com_fsm_iteration exec ws (f, u) = Some (r, s') \<and> fsm_inv s'"
  using dispatch_defined [OF fsm_inv_event [OF assms(1)]] by (simp add: iteration_pending [OF assms(2,3)])

end

end
