(* ===== verification/Async_Task.thy ===== *)
theory Async_Task
  imports Common_Buffer Com_Fsm
begin

text \<open>
  The worker of utils/async_task.c: callers append job records to a common buffer and raise
  \<open>ASYNC_TASK_EVENT_EXE\<close>; the task takes one job a round and raises the event again while
  more are queued. The jobs travel through the buffer as their 24 bytes. The lemmas show that the
  jobs run in the order they were added, one a round, and that a queued job always has its event
  pending, so that none is left behind.
\<close>

definition ASYNC_TASK_STA_IDLE :: u32 where "ASYNC_TASK_STA_IDLE = 0"
definition ASYNC_TASK_EVENT_EXE :: u32 where "ASYNC_TASK_EVENT_EXE = 1"

datatype async_action = Async_Task_Exe_Action

record async_execute =
  user_data :: u64
  user_data2 :: u64
  callback :: u64

definition async_bytes :: "async_execute \<Rightarrow> u8 list" where
  "async_bytes x = le_bytes 8 (user_data x) @ le_bytes 8 (user_data2 x) @ le_bytes 8 (callback x)"

definition async_parse :: "u8 list \<Rightarrow> async_execute" where
  "async_parse bs = \<lparr>user_data = le_word (take 8 bs), user_data2 = le_word (take 8 (drop 8 bs)),
     callback = le_word (drop 16 bs)\<rparr>"

lemma async_bytes_length [simp]: "length (async_bytes x) = 24"
  by (simp add: async_bytes_def)

lemma async_parse_bytes [simp]: "async_parse (async_bytes x) = x"
  by (simp add: async_parse_def async_bytes_def le_word_bytes)

text \<open>The comparison of an \<open>int\<close> with \<open>sizeof(...)\<close> is unsigned in 64 bits.\<close>

definition size_of_int :: "int \<Rightarrow> int" where
  "size_of_int c = c mod 2 ^ 64"

text \<open>\<open>call\<close> is what running a job does to the rest of the program. The assertion of the
  source is the test of the size popped.\<close>

definition async_task_exe ::
  "(async_execute \<Rightarrow> 'w \<Rightarrow> 'w) \<Rightarrow> common_buffer \<times> 'w \<Rightarrow> (bool \<times> common_buffer \<times> 'w) option" where
  "async_task_exe call s = do {
     c \<leftarrow> common_buffer_get_count (fst s);
     (q, w) \<leftarrow> (if 24 \<le> size_of_int c then do {
                 (ret, sz, out, q) \<leftarrow> common_buffer_pop (fst s) True 24;
                 if sz \<noteq> 24 \<or> length out \<noteq> 24 then None
                 else Some (q, call (async_parse out) (snd s)) }
               else Some s);
     c' \<leftarrow> common_buffer_get_count q;
     Some (24 \<le> size_of_int c', q, w) }"

fun async_task_exe_action ::
  "(async_execute \<Rightarrow> 'w \<Rightarrow> 'w) \<Rightarrow> (async_action, common_buffer \<times> 'w) fsm_exec" where
  "async_task_exe_action call Async_Task_Exe_Action (f, s) = do {
     (more, s') \<leftarrow> async_task_exe call s;
     (f', s'') \<leftarrow> (if more then com_fsm_set_event Some (f, s') ASYNC_TASK_EVENT_EXE 0
                  else Some (f, s'));
     Some (COM_FSM_HOLD_STATE, f', s'') }"

text \<open>The row leaves \<open>timeout\<close> out of its initialiser, so it is 0.\<close>

definition async_lookup :: "async_action com_fsm_lookup list" where
  "async_lookup = [\<lparr>lk_event = ASYNC_TASK_EVENT_EXE, lk_state = ASYNC_TASK_STA_IDLE,
     lk_action = Async_Task_Exe_Action, lk_timeout = 0\<rparr>]"

text \<open>Creation: the struct is 40 bytes; the result of the state machine's creation is not
  checked.\<close>

definition async_task_create ::
  "allocator \<Rightarrow> nat \<Rightarrow> nat \<times> (async_action com_fsm option \<times> common_buffer) option" where
  "async_task_create mal k =
     (if mal k 40 = None then (k + 1, None)
      else case com_fsm_create_inner mal (k + 1) async_lookup None None of
        (k', f) \<Rightarrow> (k', Some (f, common_buffer_init 10240 (10240 * 64))))"

text \<open>Adding a job ignores the outcome of the push.\<close>

definition async_task_add ::
  "allocator \<Rightarrow> nat \<Rightarrow> async_action com_fsm \<times> common_buffer \<times> 'w \<Rightarrow> async_execute \<Rightarrow>
     (nat \<times> async_action com_fsm \<times> common_buffer \<times> 'w) option" where
  "async_task_add mal k s x = do {
     (ret, k', q) \<leftarrow> common_buffer_push mal k (fst (snd s)) (async_bytes x) 24;
     s' \<leftarrow> com_fsm_set_event Some (fst s, q, snd (snd s)) ASYNC_TASK_EVENT_EXE 0;
     Some (k', s') }"

definition async_task_destroy ::
  "(async_action com_fsm \<times> common_buffer \<times> 'w) \<Rightarrow> (async_action com_fsm \<times> common_buffer \<times> 'w) option" where
  "async_task_destroy s = do {
     (f, q, w) \<leftarrow> com_fsm_delete s;
     Some (f, snd (common_buffer_deinit q), w) }"

section \<open>Jobs\<close>

definition jobs_in :: "common_buffer \<Rightarrow> async_execute list \<Rightarrow> bool" where
  "jobs_in q js \<longleftrightarrow> common_wf q \<and> common_contents q = concat (map async_bytes js)"

lemma length_jobs: "length (concat (map async_bytes js)) = 24 * length js"
  by (induction js) simp_all

lemma jobs_length: "jobs_in q js \<Longrightarrow> length (common_contents q) = 24 * length js"
  by (simp add: jobs_in_def length_jobs)

lemma jobs_count:
  assumes "jobs_in q js"
  obtains c where "common_buffer_get_count q = Some c" "(24 \<le> size_of_int c) = (js \<noteq> [])"
proof -
  have q: "common_wf q" using assms by (simp add: jobs_in_def)
  have "common_cap q < 1073741824" using q by (auto simp: common_wf_def common_cap_def)
  with common_length [OF q] have "24 * int (length js) < 1073741824"
    unfolding jobs_length [OF assms] by linarith
  then have s: "size_of_int (24 * int (length js)) = 24 * int (length js)"
    by (simp add: size_of_int_def)
  have "(24 \<le> 24 * int (length js)) = (js \<noteq> [])" by (cases js) auto
  moreover have "common_buffer_get_count q = Some (24 * int (length js))"
    using common_get_count [OF q] jobs_length [OF assms] by simp
  ultimately show ?thesis using that by (simp add: s)
qed

text \<open>One call of the worker's body runs the oldest job and reports whether more are queued.\<close>

lemma async_exe_job:
  assumes "jobs_in q (x # js)"
  shows "\<exists>q'. async_task_exe call (q, w) = Some (js \<noteq> [], q', call x w) \<and> jobs_in q' js"
proof -
  have q: "common_wf q" and con: "common_contents q = async_bytes x @ concat (map async_bytes js)"
    using assms by (simp_all add: jobs_in_def)
  from jobs_count [OF assms] obtain c where c: "common_buffer_get_count q = Some c" "24 \<le> size_of_int c"
    by auto
  from common_pop [OF q, where req = 24 and wanted = True]
  obtain ret q' where p: "common_buffer_pop q True 24 = Some (ret, 24, async_bytes x, q')"
    "common_wf q'" "common_contents q' = concat (map async_bytes js)"
    by (auto simp: con)
  then have j: "jobs_in q' js" by (simp add: jobs_in_def)
  from jobs_count [OF this] obtain c' where "common_buffer_get_count q' = Some c'"
    "(24 \<le> size_of_int c') = (js \<noteq> [])" by auto
  with c p j show ?thesis by (auto simp: async_task_exe_def)
qed

lemma async_exe_idle:
  assumes "jobs_in q []"
  shows "async_task_exe call (q, w) = Some (False, q, w)"
proof -
  from jobs_count [OF assms] obtain c where "common_buffer_get_count q = Some c"
    "\<not> 24 \<le> size_of_int c" by auto
  then show ?thesis by (simp add: async_task_exe_def)
qed

section \<open>The machine\<close>

text \<open>Between rounds: the queue holds whole jobs.\<close>

definition async_inv :: "u32 \<Rightarrow> common_buffer \<times> 'w \<Rightarrow> bool" where
  "async_inv st s \<longleftrightarrow> st = ASYNC_TASK_STA_IDLE \<and> (\<exists>js. jobs_in (fst s) js)"

text \<open>What other threads do to the queue: append a job, refuse it, or keep nothing of it.\<close>

definition async_api :: "common_buffer \<times> 'w \<Rightarrow> common_buffer \<times> 'w \<Rightarrow> bool" where
  "async_api s s' \<longleftrightarrow> (\<exists>k x ret k' q. common_buffer_push zero_alloc k (fst s) (async_bytes x) 24 =
     Some (ret, k', q) \<and> s' = (q, snd s))"

lemma async_push_job:
  assumes "jobs_in q js"
  obtains ret k' q' where "common_buffer_push zero_alloc k q (async_bytes x) 24 = Some (ret, k', q')"
    "ret = COMMON_BUF_SUCCESS \<and> jobs_in q' (js @ [x]) \<or> ret = COMMON_BUF_ERR_SIZE \<and> q' = q"
proof -
  have q: "common_wf q" using assms by (simp add: jobs_in_def)
  have u: "unat (24 :: u32) = 24" by simp
  from common_push [OF zero_alloc_ok q, of 24 "async_bytes x" k, unfolded u]
  obtain ret k' q' n where r: "common_buffer_push zero_alloc k q (async_bytes x) 24 = Some (ret, k', q')"
    "common_wf q'" "common_contents q' = common_contents q @ take n (async_bytes x)"
    "if common_cap q < length (common_contents q) + 24 then ret = COMMON_BUF_ERR_SIZE \<and> q' = q \<and> n = 0
     else ret = COMMON_BUF_SUCCESS \<and> n = 24 \<or>
       ret = COMMON_BUF_ERR_MALLOC \<and> (\<exists>i m. zero_alloc i m = None)" by auto
  then have "ret = COMMON_BUF_SUCCESS \<and> n = 24 \<or> ret = COMMON_BUF_ERR_SIZE \<and> q' = q"
    by (auto simp: zero_alloc_def split: if_splits)
  with that r assms show ?thesis by (auto simp: jobs_in_def)
qed

lemma async_action_step:
  assumes "fsm_ready f" "async_inv (cur_state f) u"
  shows "\<exists>f' u'. async_task_exe_action call Async_Task_Exe_Action (f, u) =
      Some (COM_FSM_HOLD_STATE, f', u') \<and> same_machine f f' \<and> async_inv (cur_state f) u'"
proof -
  obtain q w where u: "u = (q, w)" by fastforce
  from assms u obtain js where js: "jobs_in q js" by (auto simp: async_inv_def)
  have "\<exists>more s'. async_task_exe call u = Some (more, s') \<and> async_inv (cur_state f) s'"
  proof (cases js)
    case Nil
    with js u assms show ?thesis by (auto simp: async_exe_idle async_inv_def)
  next
    case (Cons x xs)
    with async_exe_job [of q x xs call w] js u assms show ?thesis by (auto simp: async_inv_def)
  qed
  then obtain more s' where e: "async_task_exe call u = Some (more, s')" "async_inv (cur_state f) s'"
    by blast
  from set_event_async [OF assms(1), of Some s' ASYNC_TASK_EVENT_EXE] e show ?thesis
    by (cases more; cases s') auto
qed

interpretation async: fsm_client "async_task_exe_action call"
  "[(ASYNC_TASK_EVENT_EXE, ASYNC_TASK_STA_IDLE, Async_Task_Exe_Action)]" async_api async_inv
proof unfold_locales
  fix f f' :: "async_action com_fsm" and u u' :: "common_buffer \<times> 'a" and ev a st
  assume f: "fsm_ready f" "async_inv (cur_state f) u"
    "(ev, cur_state f, a) \<in> set [(ASYNC_TASK_EVENT_EXE, ASYNC_TASK_STA_IDLE, Async_Task_Exe_Action)]"
  have "\<exists>f' u'. async_task_exe_action call a (f, u) = Some (COM_FSM_HOLD_STATE, f', u') \<and>
      same_machine f f' \<and> async_inv (cur_state f) u'"
    using async_action_step [OF f(1,2)] by (cases a) simp
  then show "\<exists>r. async_task_exe_action call a (f, u) = Some r"
    and "async_task_exe_action call a (f, u) = Some (st, f', u') \<Longrightarrow> same_machine f f' \<and>
      async_inv (if st = COM_FSM_HOLD_STATE then cur_state f else st) u'"
    by auto
next
  fix st and u u' :: "common_buffer \<times> 'a"
  assume "async_inv st u" "async_api u u'"
  then obtain js k x ret k' q where "st = ASYNC_TASK_STA_IDLE" "jobs_in (fst u) js"
    "common_buffer_push zero_alloc k (fst u) (async_bytes x) 24 = Some (ret, k', q)" "u' = (q, snd u)"
    by (auto simp: async_inv_def async_api_def)
  with async_push_job [of "fst u" js k x] show "async_inv st u'" by (auto simp: async_inv_def)
qed

section \<open>Order and completion\<close>

text \<open>A machine that waits for work: idle, both event groups there, and the event pending whenever
  a job is queued.\<close>

definition async_live :: "async_action com_fsm \<times> common_buffer \<times> 'w \<Rightarrow> async_execute list \<Rightarrow> bool" where
  "async_live s js \<longleftrightarrow> fsm_ready (fst s) \<and> lookup_table (fst s) = async_lookup \<and>
     cur_state (fst s) = ASYNC_TASK_STA_IDLE \<and> jobs_in (fst (snd s)) js \<and>
     event_handle (fst s) = Some (if js = [] then 0 else ASYNC_TASK_EVENT_EXE)"

lemma async_round:
  assumes "async_live (f, q, w) (x # js)"
  shows "\<exists>f' q'. com_fsm_iteration (async_task_exe_action call) ws (f, q, w) =
    Some (True, f', q', call x w) \<and> async_live (f', q', call x w) js"
proof -
  have f: "fsm_ready f" "lookup_table f = async_lookup" "cur_state f = 0" "event_handle f = Some 1"
    "jobs_in q (x # js)"
    using assms by (simp_all add: async_live_def ASYNC_TASK_STA_IDLE_def ASYNC_TASK_EVENT_EXE_def)
  then obtain ack where ack: "event_ack_handle f = Some ack" by (auto simp: fsm_ready_def)
  from async_exe_job [OF f(5), of call w] obtain q' where q:
    "async_task_exe call (q, w) = Some (js \<noteq> [], q', call x w)" "jobs_in q' js" by blast
  let ?f = "f\<lparr>event_handle := Some 0\<rparr>"
  have it: "com_fsm_iteration (async_task_exe_action call) ws (f, q, w) =
      com_fsm_dispatch (async_task_exe_action call) 1 (?f, q, w)"
    by (subst iteration_pending [OF f(4)]) (simp_all add: COM_FSM_EVENT_ALL_def)
  have look: "com_fsm_get_lookup (lookup_table ?f) (cur_state ?f) 1 = Some 0"
    using f(2,3) by (simp add: async_lookup_def lookup_match_def ASYNC_TASK_EVENT_EXE_def
        ASYNC_TASK_STA_IDLE_def COM_FSM_EVENT_NONE_def)
  let ?g = "f\<lparr>event_handle := Some (if js = [] then 0 else 1)\<rparr>"
  have ex: "async_task_exe_action call (lk_action (lookup_table ?f ! 0)) (?f, q, w) =
      Some (COM_FSM_HOLD_STATE, ?g, q', call x w)"
    using f(2) q(1) by (cases js) (simp_all add: async_lookup_def com_fsm_set_event_def
        common_set_event_def ASYNC_TASK_EVENT_EXE_def)
  have ga: "event_ack_handle ?g = Some ack" by (simp add: ack)
  show ?thesis
    unfolding it dispatch_first [where exec = "async_task_exe_action call" and events = 1, OF _ look ex ga,
        unfolded COM_FSM_EVENT_EXIT_def, simplified]
    using f q(2) by (auto simp: async_live_def fsm_ready_def ASYNC_TASK_STA_IDLE_def
        ASYNC_TASK_EVENT_EXE_def)
qed

text \<open>Round after round, the queued jobs run in order.\<close>

lemma async_drain:
  assumes "async_live (f, q, w) js" "length wss = length js"
  shows "\<exists>f' q'. com_fsm_loop (async_task_exe_action call) wss (f, q, w) =
    Some (True, f', q', fold call js w) \<and> async_live (f', q', fold call js w) []"
  using assms
proof (induction js arbitrary: f q w wss)
  case (Cons x js)
  then obtain ws wss' where ws: "wss = ws # wss'" "length wss' = length js" by (cases wss) auto
  from async_round [OF Cons.prems(1), of call ws] obtain f' q' where
    "com_fsm_iteration (async_task_exe_action call) ws (f, q, w) = Some (True, f', q', call x w)"
    "async_live (f', q', call x w) js" by blast
  with Cons.IH [OF this(2) ws(2)] ws(1) show ?case by auto
qed simp

lemma async_add_live:
  assumes "async_live (f, q, w) js"
  obtains k' f' q' where "async_task_add zero_alloc k (f, q, w) x = Some (k', f', q', w)"
    "async_live (f', q', w) (js @ [x]) \<or> q' = q \<and> common_cap q < 24 * length js + 24"
proof -
  have f: "fsm_ready f" "lookup_table f = async_lookup" "cur_state f = ASYNC_TASK_STA_IDLE"
    "event_handle f = Some (if js = [] then 0 else ASYNC_TASK_EVENT_EXE)" "jobs_in q js"
    using assms by (simp_all add: async_live_def)
  have q: "common_wf q" using f(5) by (simp add: jobs_in_def)
  have u: "unat (24 :: u32) = 24" by simp
  from common_push [OF zero_alloc_ok q, of 24 "async_bytes x" k, unfolded u]
  obtain ret k' q' n where r: "common_buffer_push zero_alloc k q (async_bytes x) 24 = Some (ret, k', q')"
    "common_wf q'" "common_contents q' = common_contents q @ take n (async_bytes x)"
    "if common_cap q < length (common_contents q) + 24 then ret = COMMON_BUF_ERR_SIZE \<and> q' = q \<and> n = 0
     else ret = COMMON_BUF_SUCCESS \<and> n = 24 \<or>
       ret = COMMON_BUF_ERR_MALLOC \<and> (\<exists>i m. zero_alloc i m = None)" by auto
  then have n: "n = 24 \<or> q' = q \<and> common_cap q < 24 * length js + 24"
    using jobs_length [OF f(5)] by (auto simp: zero_alloc_def split: if_splits)
  let ?f = "f\<lparr>event_handle := Some ASYNC_TASK_EVENT_EXE\<rparr>"
  have add: "async_task_add zero_alloc k (f, q, w) x = Some (k', ?f, q', w)"
    using f(4) r(1) by (simp add: async_task_add_def com_fsm_set_event_def common_set_event_def)
  show ?thesis
  proof (rule that [OF add], cases "n = 24")
    case True
    with r f have "jobs_in q' (js @ [x])" by (simp add: jobs_in_def)
    with f show "async_live (?f, q', w) (js @ [x]) \<or> q' = q \<and> common_cap q < 24 * length js + 24"
      by (simp add: async_live_def fsm_ready_def)
  qed (use n in simp)
qed

lemma async_create_live:
  assumes "async_task_create zero_alloc k = (k', Some (Some f, q))"
  shows "async_live (f, q, w) []"
proof -
  have "common_wf (common_buffer_init 10240 (10240 * 64)) \<and>
      common_contents (common_buffer_init 10240 (10240 * 64)) = []"
    by (rule common_init [THEN conjunct1, THEN conjI]) (simp_all add: common_contents_def
        nodes_contents_def common_buffer_init_def)
  with assms show ?thesis
    by (auto simp: async_task_create_def com_fsm_create_inner_def zero_alloc_def async_live_def
        common_create_event_def fsm_ready_def ASYNC_TASK_STA_IDLE_def jobs_in_def)
qed

end
