(* ===== verification/Audio_Queue.thy ===== *)
theory Audio_Queue
  imports Prelude
begin

text \<open>
  The play list of src/audio_queue.c: a doubly linked list of nodes with a cursor, in an explicit
  heap, because the list, the cursor and the queued items alias each other. Following a NULL or
  freed pointer, freeing an object twice and locking a NULL mutex have no result. The relation
  \<open>aq_rep\<close> reads the heap as a list of items with an optional cursor position; every
  operation is shown to be the list operation it stands for.
\<close>

datatype audio_queue_return =
  AUDIO_QUEUE_SUCCESS | AUDIO_QUEUE_ERR_EMPTY | AUDIO_QUEUE_ERR_PARAM | AUDIO_QUEUE_ERR_MALLOC |
  AUDIO_QUEUE_ERR_MOVE

type_synonym addr = nat

record audio_queue_node =
  player_info :: "addr option"
  pre :: "addr option"
  nxt :: "addr option"

record audio_queue =
  aq_mutex :: bool
  aq_count :: int
  aq_head :: "addr option"
  aq_tail :: "addr option"
  aq_curr :: "addr option"

text \<open>The allocated nodes, and the allocated \<open>player_info\<close> objects the queue may own.\<close>

record aq_heap =
  aq_nodes :: "addr \<Rightarrow> audio_queue_node option"
  aq_infos :: "addr set"

definition node_of :: "aq_heap \<Rightarrow> addr option \<Rightarrow> audio_queue_node option" where
  "node_of h p = (case p of None \<Rightarrow> None | Some a \<Rightarrow> aq_nodes h a)"

definition node_update ::
  "(audio_queue_node \<Rightarrow> audio_queue_node) \<Rightarrow> addr option \<Rightarrow> aq_heap \<Rightarrow> aq_heap option" where
  "node_update g p h = do {
     n \<leftarrow> node_of h p; a \<leftarrow> p; Some (h\<lparr>aq_nodes := (aq_nodes h)(a := Some (g n))\<rparr>) }"

definition node_free :: "addr \<Rightarrow> aq_heap \<Rightarrow> aq_heap option" where
  "node_free a h = (if aq_nodes h a = None then None
     else Some (h\<lparr>aq_nodes := (aq_nodes h)(a := None)\<rparr>))"

definition info_free :: "addr option \<Rightarrow> aq_heap \<Rightarrow> aq_heap option" where
  "info_free p h = (case p of None \<Rightarrow> Some h
     | Some i \<Rightarrow> if i \<in> aq_infos h then Some (h\<lparr>aq_infos := aq_infos h - {i}\<rparr>) else None)"

definition audio_queue_init :: "bool \<Rightarrow> audio_queue" where
  "audio_queue_init mutex_ok =
     \<lparr>aq_mutex = mutex_ok, aq_count = 0, aq_head = None, aq_tail = None, aq_curr = None\<rparr>"

definition audio_queue_deinit :: "audio_queue \<Rightarrow> audio_queue" where
  "audio_queue_deinit q = q\<lparr>aq_mutex := False\<rparr>"

text \<open>Locking and unlocking bracket every operation; they need the mutex.\<close>

definition audio_queue_lock :: "audio_queue \<Rightarrow> unit option" where
  "audio_queue_lock q = (if aq_mutex q then Some () else None)"

partial_function (option) clear_loop :: "addr option \<Rightarrow> aq_heap \<Rightarrow> aq_heap option" where
  "clear_loop head h =
     (case head of None \<Rightarrow> Some h
      | Some a \<Rightarrow> do {
          n \<leftarrow> node_of h head;
          h1 \<leftarrow> info_free (player_info n) h;
          h2 \<leftarrow> node_free a h1;
          clear_loop (nxt n) h2 })"

type_synonym aq_state = "audio_queue \<times> aq_heap"

definition audio_queue_clear :: "aq_state \<Rightarrow> (audio_queue_return \<times> aq_state) option" where
  "audio_queue_clear s = do {
     _ \<leftarrow> audio_queue_lock (fst s);
     h \<leftarrow> clear_loop (aq_head (fst s)) (snd s);
     Some (AUDIO_QUEUE_SUCCESS,
       (fst s)\<lparr>aq_count := 0, aq_head := None, aq_tail := None, aq_curr := None\<rparr>, h) }"

text \<open>\<open>new\<close> is what \<open>malloc\<close> returns for the node.\<close>

definition audio_queue_push ::
  "addr option \<Rightarrow> addr option \<Rightarrow> aq_state \<Rightarrow> (audio_queue_return \<times> aq_state) option" where
  "audio_queue_push new info s =
     (if info = None then Some (AUDIO_QUEUE_ERR_PARAM, s)
      else do {
        _ \<leftarrow> audio_queue_lock (fst s);
        case new of
          None \<Rightarrow> Some (AUDIO_QUEUE_ERR_MALLOC, s)
        | Some a \<Rightarrow> do {
            let h = (snd s)\<lparr>aq_nodes := (aq_nodes (snd s))
              (a := Some \<lparr>player_info = info, pre = aq_tail (fst s), nxt = None\<rparr>)\<rparr>;
            (q, h') \<leftarrow> (if aq_head (fst s) = None
              then Some ((fst s)\<lparr>aq_head := Some a, aq_tail := Some a\<rparr>, h)
              else do { h' \<leftarrow> node_update (\<lambda>n. n\<lparr>nxt := Some a\<rparr>) (aq_tail (fst s)) h;
                        Some ((fst s)\<lparr>aq_tail := Some a\<rparr>, h') });
            c \<leftarrow> c_int (aq_count q + 1);
            Some (AUDIO_QUEUE_SUCCESS, q\<lparr>aq_count := c\<rparr>, h') } })"

text \<open>The item of a successful pop is part of the result.\<close>

definition audio_queue_pop ::
  "aq_state \<Rightarrow> (audio_queue_return \<times> addr option \<times> aq_state) option" where
  "audio_queue_pop s = do {
     _ \<leftarrow> audio_queue_lock (fst s);
     case aq_head (fst s) of
       None \<Rightarrow> Some (AUDIO_QUEUE_ERR_EMPTY, None, s)
     | Some a \<Rightarrow> do {
         n \<leftarrow> node_of (snd s) (Some a);
         (q, h) \<leftarrow> (if nxt n = None
           then Some ((fst s)\<lparr>aq_head := None, aq_tail := None\<rparr>, snd s)
           else do { h \<leftarrow> node_update (\<lambda>m. m\<lparr>pre := None\<rparr>) (nxt n) (snd s);
                     Some ((fst s)\<lparr>aq_head := nxt n\<rparr>, h) });
         c \<leftarrow> c_int (aq_count q - 1);
         m \<leftarrow> node_of h (Some a);
         h' \<leftarrow> node_free a h;
         Some (AUDIO_QUEUE_SUCCESS, player_info m,
           q\<lparr>aq_count := c, aq_curr := if aq_curr q = Some a then None else aq_curr q\<rparr>, h') } }"

definition audio_queue_get_count :: "audio_queue \<Rightarrow> int" where
  "audio_queue_get_count q = aq_count q"

text \<open>The flag says whether the caller passed a place for the item.\<close>

definition audio_queue_get_current ::
  "bool \<Rightarrow> aq_state \<Rightarrow> (audio_queue_return \<times> addr option) option" where
  "audio_queue_get_current wanted s =
     (if \<not> wanted then Some (AUDIO_QUEUE_ERR_PARAM, None)
      else do {
        _ \<leftarrow> audio_queue_lock (fst s);
        if aq_curr (fst s) = None then Some (AUDIO_QUEUE_ERR_EMPTY, None)
        else do { n \<leftarrow> node_of (snd s) (aq_curr (fst s)); Some (AUDIO_QUEUE_SUCCESS, player_info n) } })"

definition audio_queue_move_prev ::
  "bool \<Rightarrow> aq_state \<Rightarrow> (audio_queue_return \<times> addr option \<times> aq_state) option" where
  "audio_queue_move_prev wanted s = do {
     _ \<leftarrow> audio_queue_lock (fst s);
     p \<leftarrow> (if aq_curr (fst s) \<noteq> None
           then do { n \<leftarrow> node_of (snd s) (aq_curr (fst s)); Some (pre n) }
           else Some (aq_tail (fst s)));
     let s' = ((fst s)\<lparr>aq_curr := p\<rparr>, snd s);
     if p = None then Some (AUDIO_QUEUE_ERR_MOVE, None, s')
     else if wanted then do { n \<leftarrow> node_of (snd s) p; Some (AUDIO_QUEUE_SUCCESS, player_info n, s') }
     else Some (AUDIO_QUEUE_SUCCESS, None, s') }"

definition audio_queue_move_next ::
  "bool \<Rightarrow> aq_state \<Rightarrow> (audio_queue_return \<times> addr option \<times> aq_state) option" where
  "audio_queue_move_next wanted s = do {
     _ \<leftarrow> audio_queue_lock (fst s);
     p \<leftarrow> (if aq_curr (fst s) \<noteq> None
           then do { n \<leftarrow> node_of (snd s) (aq_curr (fst s)); Some (nxt n) }
           else Some (aq_head (fst s)));
     let s' = ((fst s)\<lparr>aq_curr := p\<rparr>, snd s);
     if p = None then Some (AUDIO_QUEUE_ERR_MOVE, None, s')
     else if wanted then do { n \<leftarrow> node_of (snd s) p; Some (AUDIO_QUEUE_SUCCESS, player_info n, s') }
     else Some (AUDIO_QUEUE_SUCCESS, None, s') }"

section \<open>The list in the heap\<close>

text \<open>A list of nodes and their items, and the position of the cursor.\<close>

type_synonym aq_abs = "(addr \<times> addr) list \<times> nat option"

definition link :: "(addr \<times> addr) list \<Rightarrow> nat \<Rightarrow> addr option" where
  "link xs k = (if k < length xs then Some (fst (xs ! k)) else None)"

definition node_at :: "(addr \<times> addr) list \<Rightarrow> nat \<Rightarrow> audio_queue_node" where
  "node_at xs k = \<lparr>player_info = Some (snd (xs ! k)),
     pre = (if k = 0 then None else link xs (k - 1)), nxt = link xs (Suc k)\<rparr>"

definition aq_rep :: "aq_state \<Rightarrow> aq_abs \<Rightarrow> bool" where
  "aq_rep s a \<longleftrightarrow> (case (s, a) of ((q, h), (xs, c)) \<Rightarrow>
     aq_mutex q \<and> aq_count q = int (length xs) \<and> length xs < 2147483647 \<and>
     aq_head q = link xs 0 \<and> aq_tail q = (if xs = [] then None else link xs (length xs - 1)) \<and>
     distinct (map fst xs) \<and> (\<forall>k < length xs. aq_nodes h (fst (xs ! k)) = Some (node_at xs k)) \<and>
     (case c of None \<Rightarrow> aq_curr q = None | Some i \<Rightarrow> i < length xs \<and> aq_curr q = link xs i))"

lemma aq_repD:
  assumes "aq_rep (q, h) (xs, c)"
  shows "aq_mutex q" "aq_count q = int (length xs)" "length xs < 2147483647" "aq_head q = link xs 0"
    "aq_tail q = (if xs = [] then None else link xs (length xs - 1))" "distinct (map fst xs)"
    "\<And>k. k < length xs \<Longrightarrow> aq_nodes h (fst (xs ! k)) = Some (node_at xs k)"
    "case c of None \<Rightarrow> aq_curr q = None | Some i \<Rightarrow> i < length xs \<and> aq_curr q = link xs i"
  using assms by (simp_all add: aq_rep_def)

lemma node_of_link:
  "aq_rep (q, h) (xs, c) \<Longrightarrow> k < length xs \<Longrightarrow> node_of h (link xs k) = Some (node_at xs k)"
  by (simp add: node_of_def link_def aq_repD(7))

lemma addr_inj:
  "distinct (map fst xs) \<Longrightarrow> j < length xs \<Longrightarrow> k < length xs \<Longrightarrow> (fst (xs ! j) = fst (xs ! k)) = (j = k)"
  by (metis distinct_conv_nth length_map nth_map)

lemma link_eq_None [simp]: "(link xs k = None) = (length xs \<le> k)"
  by (simp add: link_def)

lemma link_inj:
  "distinct (map fst xs) \<Longrightarrow> j < length xs \<Longrightarrow> k < length xs \<Longrightarrow> (link xs j = link xs k) = (j = k)"
  by (simp add: link_def addr_inj)

text \<open>The operations on the list.\<close>

definition abs_next :: "aq_abs \<Rightarrow> nat option" where
  "abs_next a = (let i = (case snd a of None \<Rightarrow> 0 | Some i \<Rightarrow> Suc i)
     in if i < length (fst a) then Some i else None)"

definition abs_prev :: "aq_abs \<Rightarrow> nat option" where
  "abs_prev a = (case snd a of None \<Rightarrow> if fst a = [] then None else Some (length (fst a) - 1)
     | Some i \<Rightarrow> if i = 0 then None else Some (i - 1))"

definition abs_pop_cursor :: "nat option \<Rightarrow> nat option" where
  "abs_pop_cursor c = (case c of None \<Rightarrow> None | Some i \<Rightarrow> if i = 0 then None else Some (i - 1))"

lemma queue_init: "aq_rep (audio_queue_init True, h) ([], None)"
  by (simp add: aq_rep_def audio_queue_init_def link_def)

lemma aq_rep_cursor:
  assumes "aq_rep (q, h) (xs, c)" "case c' of None \<Rightarrow> p = None | Some i \<Rightarrow> i < length xs \<and> p = link xs i"
  shows "aq_rep (q\<lparr>aq_curr := p\<rparr>, h) (xs, c')"
  using assms by (cases c') (simp_all add: aq_rep_def)

text \<open>The result of a move: the new cursor, and the item under it or the error at the end.\<close>

definition move_result ::
  "bool \<Rightarrow> aq_state \<Rightarrow> (addr \<times> addr) list \<Rightarrow> nat option \<Rightarrow> audio_queue_return \<times> addr option \<times> aq_state" where
  "move_result wanted s xs c = (case c of
      None \<Rightarrow> (AUDIO_QUEUE_ERR_MOVE, None, (fst s)\<lparr>aq_curr := None\<rparr>, snd s)
    | Some i \<Rightarrow> (AUDIO_QUEUE_SUCCESS, if wanted then Some (snd (xs ! i)) else None,
        (fst s)\<lparr>aq_curr := link xs i\<rparr>, snd s))"

lemma move_result_rep:
  assumes "aq_rep s (xs, c)" "case c' of None \<Rightarrow> True | Some i \<Rightarrow> i < length xs"
  shows "aq_rep (snd (snd (move_result wanted s xs c'))) (xs, c')"
  using assms by (cases s) (auto simp: move_result_def intro!: aq_rep_cursor split: option.splits)

lemma queue_move_next:
  assumes "aq_rep s (xs, c)"
  shows "audio_queue_move_next wanted s = Some (move_result wanted s xs (abs_next (xs, c)))"
proof -
  obtain q h where s: "s = (q, h)" by fastforce
  note r = aq_repD [OF assms [unfolded s]] and n = node_of_link [OF assms [unfolded s]]
  show ?thesis
  proof (cases c)
    case None
    with r n show ?thesis by (auto simp: s audio_queue_move_next_def audio_queue_lock_def
        move_result_def abs_next_def Let_def node_at_def)
  next
    case (Some i)
    with r have i: "i < length xs" "aq_curr q = link xs i" by auto
    with Some r n [of i] n [of "Suc i"] show ?thesis
      by (auto simp: s audio_queue_move_next_def audio_queue_lock_def
        move_result_def abs_next_def Let_def node_at_def)
  qed
qed

lemma queue_move_prev:
  assumes "aq_rep s (xs, c)"
  shows "audio_queue_move_prev wanted s = Some (move_result wanted s xs (abs_prev (xs, c)))"
proof -
  obtain q h where s: "s = (q, h)" by fastforce
  note r = aq_repD [OF assms [unfolded s]] and n = node_of_link [OF assms [unfolded s]]
  show ?thesis
  proof (cases c)
    case None
    with r n [of "length xs - 1"] show ?thesis by (auto simp: s audio_queue_move_prev_def
        audio_queue_lock_def move_result_def abs_prev_def Let_def node_at_def not_le)
  next
    case (Some i)
    with r have i: "i < length xs" "aq_curr q = link xs i" by auto
    with Some r n [of i] n [of "i - 1"] show ?thesis
      by (auto simp: s audio_queue_move_prev_def audio_queue_lock_def
        move_result_def abs_prev_def Let_def node_at_def)
  qed
qed

lemma queue_current:
  assumes "aq_rep s (xs, c)"
  shows "audio_queue_get_current True s = Some (case c of
      None \<Rightarrow> (AUDIO_QUEUE_ERR_EMPTY, None) | Some i \<Rightarrow> (AUDIO_QUEUE_SUCCESS, Some (snd (xs ! i))))"
proof -
  obtain q h where s: "s = (q, h)" by fastforce
  note r = aq_repD [OF assms [unfolded s]] and n = node_of_link [OF assms [unfolded s]]
  show ?thesis
  proof (cases c)
    case (Some i)
    with r have i: "i < length xs" "aq_curr q = link xs i" by auto
    then have "link xs i \<noteq> None" by simp
    with Some i r(1) n [of i] show ?thesis
      by (simp add: s audio_queue_get_current_def audio_queue_lock_def node_at_def del: link_eq_None)
  qed (use r in \<open>simp add: s audio_queue_get_current_def audio_queue_lock_def\<close>)
qed

text \<open>Push appends behind the tail and leaves the cursor on its item.\<close>

lemma queue_push:
  assumes rep: "aq_rep (q, h) (xs, c)" and fresh: "aq_nodes h a = None"
    and room: "length xs < 2147483646"
  obtains q' h' where "audio_queue_push (Some a) (Some i) (q, h) = Some (AUDIO_QUEUE_SUCCESS, q', h')"
    "aq_rep (q', h') (xs @ [(a, i)], c)" "aq_infos h' = aq_infos h"
proof -
  note r = aq_repD [OF rep]
  have na: "a \<noteq> fst (xs ! k)" if "k < length xs" for k using fresh r(7) [OF that] by auto
  show ?thesis
  proof (cases "xs = []")
    case True
    let ?q = "q\<lparr>aq_head := Some a, aq_tail := Some a, aq_count := 1\<rparr>"
    let ?h = "h\<lparr>aq_nodes := (aq_nodes h)(a := Some (node_at [(a, i)] 0))\<rparr>"
    have "audio_queue_push (Some a) (Some i) (q, h) = Some (AUDIO_QUEUE_SUCCESS, ?q, ?h)"
      using True r(1-5) by (simp add: audio_queue_push_def audio_queue_lock_def link_def
          node_at_def c_arith)
    moreover have "aq_rep (?q, ?h) (xs @ [(a, i)], c)"
      using True r by (auto simp: aq_rep_def link_def split: option.splits)
    ultimately show ?thesis by (rule that) simp
  next
    case False
    let ?l = "length xs - 1" and ?ys = "xs @ [(a, i)]"
    let ?q = "q\<lparr>aq_tail := Some a, aq_count := int (length xs) + 1\<rparr>"
    let ?h = "h\<lparr>aq_nodes := (aq_nodes h)(a := Some (node_at ?ys (length xs)),
      fst (xs ! ?l) := Some (node_at ?ys ?l))\<rparr>"
    have l: "?l < length xs" "Suc ?l = length xs" using False by (cases xs; simp)+
    have "link xs 0 \<noteq> None" using False by simp
    have upd: "node_update (\<lambda>n. n\<lparr>nxt := Some a\<rparr>) (link xs ?l)
        (h\<lparr>aq_nodes := (aq_nodes h)(a := Some (node_at ?ys (length xs)))\<rparr>) = Some ?h"
      using l na [OF l(1)] r(7) [OF l(1)] False
      by (auto simp: node_update_def node_of_def link_def node_at_def nth_append)
    have "\<lparr>player_info = Some i, pre = link xs ?l, nxt = None\<rparr> = node_at ?ys (length xs)"
      using l False by (simp add: node_at_def link_def nth_append)
    then have "audio_queue_push (Some a) (Some i) (q, h) = Some (AUDIO_QUEUE_SUCCESS, ?q, ?h)"
      using False r(1-5) room upd by (simp add: audio_queue_push_def audio_queue_lock_def Let_def c_arith)
    moreover have "aq_rep (?q, ?h) (?ys, c)"
    proof -
      have nodes: "(aq_nodes ?h) (fst (?ys ! k)) = Some (node_at ?ys k)" if "k < length ?ys" for k
      proof (cases "k = length xs \<or> k = ?l")
        case True
        with l na [OF l(1)] show ?thesis by (auto simp: nth_append)
      next
        case False
        with that l have k: "k < length xs" "Suc k < length xs" by auto
        then have "k - Suc 0 < length xs" by linarith
        with k have "node_at ?ys k = node_at xs k" by (simp add: node_at_def link_def nth_append)
        with k False na [OF k(1)] r(7) [OF k(1)] addr_inj [OF r(6) l(1) k(1)] show ?thesis
          by (auto simp: nth_append)
      qed
      have "a \<notin> set (map fst xs)" using na by (metis in_set_conv_nth length_map nth_map)
      then have dist: "distinct (map fst ?ys)" using r(6) by simp
      have curs: "case c of None \<Rightarrow> aq_curr ?q = None
          | Some j \<Rightarrow> j < length ?ys \<and> aq_curr ?q = link ?ys j"
        using r(8) by (cases c) (auto simp: link_def nth_append)
      have ends: "aq_head ?q = link ?ys 0" "aq_tail ?q = link ?ys (length ?ys - 1)"
        using False r(4) by (simp_all add: link_def nth_append)
      show ?thesis
        unfolding aq_rep_def prod.case using nodes dist curs ends r(1) room by (intro conjI) simp_all
    qed
    ultimately show ?thesis by (rule that) simp
  qed
qed

text \<open>Pop hands out the first item and frees its node; a cursor on it is reset, any other stays on
  its item.\<close>

lemma queue_pop_empty:
  assumes "aq_rep s ([], c)"
  shows "audio_queue_pop s = Some (AUDIO_QUEUE_ERR_EMPTY, None, s)"
  using assms by (cases s) (simp add: aq_rep_def audio_queue_pop_def audio_queue_lock_def link_def)

lemma queue_pop:
  assumes rep: "aq_rep (q, h) (x # xs, c)"
  obtains q' h' where "audio_queue_pop (q, h) = Some (AUDIO_QUEUE_SUCCESS, Some (snd x), q', h')"
    "aq_rep (q', h') (xs, abs_pop_cursor c)" "aq_infos h' = aq_infos h"
    "\<forall>a. aq_nodes h' a \<noteq> None \<longleftrightarrow> aq_nodes h a \<noteq> None \<and> a \<noteq> fst x"
proof -
  note r = aq_repD [OF rep]
  let ?a = "fst x"
  have head: "aq_head q = Some ?a" using r(4) by (simp add: link_def)
  have n0: "aq_nodes h ?a = Some (node_at (x # xs) 0)" using r(7) [of 0] by simp
  have d: "distinct (map fst xs)" "?a \<notin> fst ` set xs" using r(6) by auto
  have na: "fst (xs ! k) \<noteq> ?a" if "k < length xs" for k
    using d(2) that by (metis image_eqI nth_mem)
  have sh: "aq_nodes h (fst (xs ! k)) = Some (node_at (x # xs) (Suc k))" if "k < length xs" for k
    using r(7) [of "Suc k"] that by simp
  have cur: "(aq_curr q = Some ?a) = (c = Some 0)"
    using r(8) na by (cases c) (auto simp: link_def nth_Cons split: nat.splits)
  define cu where "cu = (if aq_curr q = Some ?a then None else aq_curr q)"
  have curs: "case abs_pop_cursor c of None \<Rightarrow> cu = None | Some i \<Rightarrow> i < length xs \<and> cu = link xs i"
    using r(8) cur by (cases c)
      (auto simp: abs_pop_cursor_def cu_def link_def nth_Cons split: nat.splits)
  show ?thesis
  proof (cases xs)
    case Nil
    let ?q = "q\<lparr>aq_head := None, aq_tail := None, aq_count := 0, aq_curr := cu\<rparr>"
    let ?h = "h\<lparr>aq_nodes := (aq_nodes h)(?a := None)\<rparr>"
    have "audio_queue_pop (q, h) = Some (AUDIO_QUEUE_SUCCESS, Some (snd x), ?q, ?h)"
      using Nil head n0 r(1,2) by (simp add: audio_queue_pop_def audio_queue_lock_def node_of_def
          node_at_def link_def c_arith node_free_def cu_def)
    moreover have "aq_rep (?q, ?h) (xs, abs_pop_cursor c)"
      using Nil r(1) curs by (cases "abs_pop_cursor c") (simp_all add: aq_rep_def link_def)
    ultimately show ?thesis by (rule that) auto
  next
    case (Cons y ys)
    let ?b = "fst y"
    have b: "?b \<noteq> ?a" "xs ! 0 = y" using na [of 0] Cons by auto
    let ?q = "q\<lparr>aq_head := Some ?b, aq_count := int (length xs), aq_curr := cu\<rparr>"
    let ?h = "h\<lparr>aq_nodes := (aq_nodes h)(?b := Some (node_at xs 0), ?a := None)\<rparr>"
    have nx: "nxt (node_at (x # xs) 0) = Some ?b" by (simp add: node_at_def link_def Cons)
    have nb: "aq_nodes h ?b = Some (node_at (x # xs) 1)" using sh [of 0] Cons by simp
    have p0: "(node_at (x # xs) 1)\<lparr>pre := None\<rparr> = node_at xs 0"
      by (simp add: node_at_def link_def)
    have "node_update (\<lambda>m. m\<lparr>pre := None\<rparr>) (Some ?b) h =
        Some (h\<lparr>aq_nodes := (aq_nodes h)(?b := Some (node_at xs 0))\<rparr>)"
      using nb p0 by (simp add: node_update_def node_of_def)
    moreover have "player_info (node_at (x # xs) 0) = Some (snd x)" by (simp add: node_at_def)
    ultimately have pop: "audio_queue_pop (q, h) = Some (AUDIO_QUEUE_SUCCESS, Some (snd x), ?q, ?h)"
      using head n0 nx r(1,2,3) b by (simp add: audio_queue_pop_def audio_queue_lock_def node_of_def
          c_arith node_free_def cu_def fun_upd_twist)
    have "aq_nodes ?h (fst (xs ! k)) = Some (node_at xs k)" if "k < length xs" for k
    proof (cases k)
      case 0
      with b show ?thesis by simp
    next
      case (Suc j)
      have "fst (xs ! k) \<noteq> fst (xs ! 0)"
        using addr_inj [OF d(1) that, of 0] Suc Cons by simp
      moreover have "node_at (x # xs) (Suc k) = node_at xs k"
        using Suc that by (simp add: node_at_def link_def)
      ultimately show ?thesis using na [OF that] sh [OF that] b(2) by simp
    qed
    then have "aq_rep (?q, ?h) (xs, abs_pop_cursor c)"
      using r(1,3,5) d(1) curs Cons
      by (cases "abs_pop_cursor c") (simp_all add: aq_rep_def link_def)
    with pop show ?thesis by (rule that) (use nb b n0 in auto)
  qed
qed

text \<open>Clear frees every node and every item once.\<close>

lemma clear_loop_frees:
  assumes "distinct (map fst xs)" "distinct (map snd xs)" "snd ` set xs \<subseteq> aq_infos h"
    "\<And>k. k < length xs \<Longrightarrow> \<exists>n. aq_nodes h (fst (xs ! k)) = Some n \<and>
      player_info n = Some (snd (xs ! k)) \<and> nxt n = link xs (Suc k)"
  shows "clear_loop (link xs 0) h = Some (h\<lparr>aq_nodes := (\<lambda>a. if a \<in> fst ` set xs then None else aq_nodes h a),
    aq_infos := aq_infos h - snd ` set xs\<rparr>)"
  using assms
proof (induction xs arbitrary: h)
  case Nil
  then show ?case by (simp add: clear_loop.simps link_def)
next
  case (Cons x xs)
  from Cons.prems(4) [of 0] obtain n where n: "aq_nodes h (fst x) = Some n"
    "player_info n = Some (snd x)" "nxt n = link xs 0" by (auto simp: link_def)
  let ?h = "h\<lparr>aq_infos := aq_infos h - {snd x}, aq_nodes := (aq_nodes h)(fst x := None)\<rparr>"
  have "clear_loop (link (x # xs) 0) h = clear_loop (link xs 0) ?h"
    using n Cons.prems(3) by (subst clear_loop.simps)
      (simp add: link_def node_of_def info_free_def node_free_def)
  also have "\<dots> = Some (?h\<lparr>aq_nodes := (\<lambda>a. if a \<in> fst ` set xs then None else aq_nodes ?h a),
      aq_infos := aq_infos ?h - snd ` set xs\<rparr>)"
  proof (rule Cons.IH)
    show "distinct (map fst xs)" "distinct (map snd xs)" using Cons.prems by auto
    show "snd ` set xs \<subseteq> aq_infos ?h" using Cons.prems(2,3) by (simp add: subset_Diff_insert)
    fix k assume k: "k < length xs"
    moreover have "fst x \<notin> fst ` set xs" using Cons.prems(1) by simp
    ultimately have "fst (xs ! k) \<noteq> fst x" by (metis image_eqI nth_mem)
    with Cons.prems(4) [of "Suc k"] k
    show "\<exists>n. aq_nodes ?h (fst (xs ! k)) = Some n \<and> player_info n = Some (snd (xs ! k)) \<and>
        nxt n = link xs (Suc k)" by (auto simp: link_def)
  qed
  finally show ?case by (auto simp: fun_eq_iff intro!: aq_heap.equality)
qed

lemma queue_clear:
  assumes rep: "aq_rep (q, h) (xs, c)" and own: "distinct (map snd xs)" "snd ` set xs \<subseteq> aq_infos h"
  obtains q' h' where "audio_queue_clear (q, h) = Some (AUDIO_QUEUE_SUCCESS, q', h')"
    "aq_rep (q', h') ([], None)" "aq_infos h' = aq_infos h - snd ` set xs"
    "aq_nodes h' = (\<lambda>a. if a \<in> fst ` set xs then None else aq_nodes h a)"
proof -
  note r = aq_repD [OF rep]
  have "\<exists>n. aq_nodes h (fst (xs ! k)) = Some n \<and> player_info n = Some (snd (xs ! k)) \<and>
      nxt n = link xs (Suc k)" if "k < length xs" for k
    using r(7) [OF that] by (simp add: node_at_def)
  note free = clear_loop_frees [OF r(6) own this]
  show ?thesis
    by (rule that; (simp add: audio_queue_clear_def audio_queue_lock_def r(1,4) free)?)
      (simp_all add: aq_rep_def link_def r(1))
qed

section \<open>Scripts of operations\<close>

text \<open>One call of the interface with its result; the address of a push is what \<open>malloc\<close>
  returned.\<close>

datatype aq_op = Op_Push addr addr | Op_Pop | Op_Next | Op_Prev | Op_Current

type_synonym aq_answer = "audio_queue_return \<times> addr option"

fun aq_exec :: "aq_op \<Rightarrow> aq_state \<Rightarrow> (aq_answer \<times> aq_state) option" where
  "aq_exec (Op_Push a i) s = do { (r, s) \<leftarrow> audio_queue_push (Some a) (Some i) s; Some ((r, None), s) }"
| "aq_exec Op_Pop s = do { (r, i, s) \<leftarrow> audio_queue_pop s; Some ((r, i), s) }"
| "aq_exec Op_Next s = do { (r, i, s) \<leftarrow> audio_queue_move_next True s; Some ((r, i), s) }"
| "aq_exec Op_Prev s = do { (r, i, s) \<leftarrow> audio_queue_move_prev True s; Some ((r, i), s) }"
| "aq_exec Op_Current s = do { (r, i) \<leftarrow> audio_queue_get_current True s; Some ((r, i), s) }"

text \<open>The same on the list. A push has no result when the allocator returns the address of a live
  node or the list is full.\<close>

definition moved :: "(addr \<times> addr) list \<Rightarrow> nat option \<Rightarrow> aq_answer \<times> aq_abs" where
  "moved xs c = (case c of None \<Rightarrow> ((AUDIO_QUEUE_ERR_MOVE, None), xs, None)
     | Some i \<Rightarrow> ((AUDIO_QUEUE_SUCCESS, Some (snd (xs ! i))), xs, Some i))"

fun aq_spec :: "aq_op \<Rightarrow> aq_abs \<Rightarrow> (aq_answer \<times> aq_abs) option" where
  "aq_spec (Op_Push a i) (xs, c) = (if a \<in> fst ` set xs \<or> 2147483646 \<le> length xs then None
     else Some ((AUDIO_QUEUE_SUCCESS, None), xs @ [(a, i)], c))"
| "aq_spec Op_Pop ([], c) = Some ((AUDIO_QUEUE_ERR_EMPTY, None), [], c)"
| "aq_spec Op_Pop (x # xs, c) = Some ((AUDIO_QUEUE_SUCCESS, Some (snd x)), xs, abs_pop_cursor c)"
| "aq_spec Op_Next (xs, c) = Some (moved xs (abs_next (xs, c)))"
| "aq_spec Op_Prev (xs, c) = Some (moved xs (abs_prev (xs, c)))"
| "aq_spec Op_Current (xs, c) = Some (case c of None \<Rightarrow> (AUDIO_QUEUE_ERR_EMPTY, None)
     | Some i \<Rightarrow> (AUDIO_QUEUE_SUCCESS, Some (snd (xs ! i))), xs, c)"

fun run_script :: "('o \<Rightarrow> 's \<Rightarrow> ('a \<times> 's) option) \<Rightarrow> 'o list \<Rightarrow> 's \<Rightarrow> ('a list \<times> 's) option" where
  "run_script step [] s = Some ([], s)"
| "run_script step (x # xs) s = do { (r, s) \<leftarrow> step x s; (rs, s) \<leftarrow> run_script step xs s; Some (r # rs, s) }"

text \<open>The heap holds the nodes of the list and no others.\<close>

definition aq_exact :: "aq_state \<Rightarrow> aq_abs \<Rightarrow> bool" where
  "aq_exact s a \<longleftrightarrow> aq_rep s a \<and> (\<forall>x. aq_nodes (snd s) x \<noteq> None \<longleftrightarrow> x \<in> fst ` set (fst a))"

lemma moved_rep:
  assumes "aq_exact s (xs, c)" "case c' of None \<Rightarrow> True | Some i \<Rightarrow> i < length xs"
  shows "\<exists>s'. move_result True s xs c' = (fst (fst (moved xs c')), snd (fst (moved xs c')), s') \<and>
    aq_exact s' (snd (moved xs c'))"
proof -
  have r: "aq_rep s (xs, c)" using assms(1) by (simp add: aq_exact_def)
  from move_result_rep [OF r assms(2), of True] assms(1) show ?thesis
    by (cases c') (simp_all add: move_result_def moved_def aq_exact_def)
qed

lemma abs_move_bounds:
  assumes "aq_rep s (xs, c)"
  shows "case abs_next (xs, c) of None \<Rightarrow> True | Some i \<Rightarrow> i < length xs"
    "case abs_prev (xs, c) of None \<Rightarrow> True | Some i \<Rightarrow> i < length xs"
  using assms by (cases s; cases c; auto simp: abs_next_def abs_prev_def aq_rep_def Let_def)+

lemma queue_step:
  assumes "aq_exact s a" "aq_spec x a = Some (r, a')"
  shows "\<exists>s'. aq_exec x s = Some (r, s') \<and> aq_exact s' a'"
proof -
  obtain q h xs c where s: "s = (q, h)" "a = (xs, c)" by (cases s; cases a)
  have rep: "aq_rep (q, h) (xs, c)" using assms(1) s by (simp add: aq_exact_def)
  show ?thesis
  proof (cases x)
    case (Op_Push b i)
    with assms s have f: "aq_nodes h b = None" "length xs < 2147483646"
      by (auto simp: aq_exact_def split: if_splits)
    from queue_push [OF rep f, of i] obtain q' h' where
      p: "audio_queue_push (Some b) (Some i) (q, h) = Some (AUDIO_QUEUE_SUCCESS, q', h')"
        "aq_rep (q', h') (xs @ [(b, i)], c)" by metis
    have "aq_nodes h' y \<noteq> None \<longleftrightarrow> y = b \<or> aq_nodes h y \<noteq> None" for y
      using p(1) by (auto simp: audio_queue_push_def node_update_def node_of_def Let_def
          dest!: bind_eq_SomeD split: if_splits)
    with p assms s Op_Push show ?thesis by (auto simp: aq_exact_def split: if_splits)
  next
    case Op_Pop
    show ?thesis
    proof (cases xs)
      case Nil
      with queue_pop_empty [of "(q, h)" c] rep assms s Op_Pop show ?thesis by auto
    next
      case (Cons y ys)
      from queue_pop [OF rep [unfolded Cons]] obtain q' h' where
        p: "audio_queue_pop (q, h) = Some (AUDIO_QUEUE_SUCCESS, Some (snd y), q', h')"
        "aq_rep (q', h') (ys, abs_pop_cursor c)" and
        n: "\<And>a. aq_nodes h' a \<noteq> None \<longleftrightarrow> aq_nodes h a \<noteq> None \<and> a \<noteq> fst y"
        by metis
      have y: "fst y \<notin> fst ` set ys" using aq_repD(6) [OF rep] Cons by simp
      have m: "aq_nodes h b \<noteq> None \<longleftrightarrow> b = fst y \<or> b \<in> fst ` set ys" for b
        using assms(1) s Cons by (simp add: aq_exact_def del: not_None_eq)
      have "aq_nodes h' b \<noteq> None \<longleftrightarrow> b \<in> fst ` set ys" for b
        unfolding n m using y by (cases "b = fst y") simp_all
      with p(2) have "aq_exact (q', h') (ys, abs_pop_cursor c)" by (simp add: aq_exact_def del: not_None_eq)
      with p(1) show ?thesis using assms(2) s Op_Pop Cons by auto
    qed
  next
    case Op_Next
    with moved_rep [OF assms(1) [unfolded s] abs_move_bounds(1) [OF rep]] queue_move_next [OF rep, of True] assms(2) s
    show ?thesis by auto
  next
    case Op_Prev
    with moved_rep [OF assms(1) [unfolded s] abs_move_bounds(2) [OF rep]] queue_move_prev [OF rep, of True] assms(2) s
    show ?thesis by auto
  next
    case Op_Current
    with queue_current [OF rep] assms s show ?thesis by (cases c) auto
  qed
qed

lemma queue_script:
  assumes "aq_exact s a" "run_script aq_spec xs a = Some (rs, a')"
  shows "\<exists>s'. run_script aq_exec xs s = Some (rs, s') \<and> aq_exact s' a'"
  using assms
proof (induction xs arbitrary: s a rs)
  case (Cons x xs)
  then obtain r a1 rs1 where x: "aq_spec x a = Some (r, a1)" and r: "run_script aq_spec xs a1 = Some (rs1, a')" "rs = r # rs1"
    by (auto dest!: bind_eq_SomeD)
  from queue_step [OF Cons.prems(1) x] obtain s1 where s1: "aq_exec x s = Some (r, s1)" "aq_exact s1 a1" by blast
  from Cons.IH [OF s1(2) r(1)] s1(1) r(2) show ?case by auto
qed simp

end
