(* ===== verification/Id3_Tag.thy ===== *)
theory Id3_Tag
  imports Prelude
begin

text \<open>
  The ID3 tag probe of src/id3tag.c, which tells the players how many bytes of a file to skip. A
  pointer into the data is the list of the bytes from it on; reading past the end is undefined.
  \<open>unsigned long\<close> has 64 bits. The lemmas bound the result for every input, prove that no
  byte behind the given length is read, and invert the seven-bit size encoding.
\<close>

datatype tagtype = TAGTYPE_NONE | TAGTYPE_ID3V1 | TAGTYPE_ID3V2 | TAGTYPE_ID3V2_FOOTER

text \<open>One \<open>value = (value << k) | (*ptr++ & m)\<close>.\<close>

definition id3_shift_in :: "nat \<Rightarrow> u8 \<Rightarrow> u64 \<times> u8 list \<Rightarrow> (u64 \<times> u8 list) option" where
  "id3_shift_in k m s = (case snd s of [] \<Rightarrow> None
     | b # bs \<Rightarrow> Some (push_bit k (fst s) OR ucast (b AND m), bs))"

fun id3_shift_many :: "nat \<Rightarrow> u8 \<Rightarrow> nat \<Rightarrow> u64 \<times> u8 list \<Rightarrow> (u64 \<times> u8 list) option" where
  "id3_shift_many k m 0 s = Some s"
| "id3_shift_many k m (Suc n) s = do { s' \<leftarrow> id3_shift_in k m s; id3_shift_many k m n s' }"

text \<open>The switches fall through, so \<open>n\<close> bytes are read for a case label \<open>n\<close>.\<close>

definition id3_parse_uint :: "u8 list \<Rightarrow> nat \<Rightarrow> (u64 \<times> u8 list) option" where
  "id3_parse_uint p bytes =
     (if 1 \<le> bytes \<and> bytes \<le> 4 then id3_shift_many 8 0xff bytes (0, p) else Some (0, p))"

definition id3_parse_syncsafe :: "u8 list \<Rightarrow> nat \<Rightarrow> (u64 \<times> u8 list) option" where
  "id3_parse_syncsafe p bytes =
     (if bytes = 5 then do { s \<leftarrow> id3_shift_in 4 0x0f (0, p); id3_shift_many 7 0x7f 4 s }
      else if bytes = 4 then id3_shift_many 7 0x7f 4 (0, p)
      else Some (0, p))"

definition byte_at :: "u8 list \<Rightarrow> nat \<Rightarrow> u8 option" where
  "byte_at d i = (if i < length d then Some (d ! i) else None)"

text \<open>A comparison \<open>data[i] == c\<close> for a list of them joined by \<open>&&\<close>.\<close>

fun bytes_are :: "u8 list \<Rightarrow> nat \<Rightarrow> u8 list \<Rightarrow> bool option" where
  "bytes_are d i [] = Some True"
| "bytes_are d i (c # cs) = do { b \<leftarrow> byte_at d i; if b = c then bytes_are d (Suc i) cs else Some False }"

fun bytes_below :: "u8 list \<Rightarrow> (nat \<times> u8) list \<Rightarrow> bool option" where
  "bytes_below d [] = Some True"
| "bytes_below d ((i, l) # cs) = do { b \<leftarrow> byte_at d i; if b < l then bytes_below d cs else Some False }"

text \<open>The characters: T A G, I D 3, 3 D I.\<close>

definition tagtype_of :: "u8 list \<Rightarrow> u64 \<Rightarrow> tagtype option" where
  "tagtype_of d len = do {
     v1 \<leftarrow> (if 3 \<le> len then bytes_are d 0 [0x54, 0x41, 0x47] else Some False);
     if v1 then Some TAGTYPE_ID3V1
     else if 10 \<le> len then do {
       h \<leftarrow> bytes_are d 0 [0x49, 0x44, 0x33];
       h \<leftarrow> (if h then Some True else bytes_are d 0 [0x33, 0x44, 0x49]);
       ok \<leftarrow> (if h then bytes_below d [(3, 0xff), (4, 0xff), (6, 0x80), (7, 0x80), (8, 0x80), (9, 0x80)]
              else Some False);
       if ok then do { b \<leftarrow> byte_at d 0;
                       Some (if b = 0x49 then TAGTYPE_ID3V2 else TAGTYPE_ID3V2_FOOTER) }
       else Some TAGTYPE_NONE }
     else Some TAGTYPE_NONE }"

definition id3_parse_header :: "u8 list \<Rightarrow> (u32 \<times> int \<times> u64) option" where
  "id3_parse_header p = do {
     (version, p) \<leftarrow> id3_parse_uint (drop 3 p) 2;
     (flags, p) \<leftarrow> id3_parse_uint p 1;
     (tag_size, p) \<leftarrow> id3_parse_syncsafe p 4;
     Some (ucast version, sint (ucast flags :: u32), tag_size) }"

definition ID3_TAG_FLAG_FOOTERPRESENT :: u32 where "ID3_TAG_FLAG_FOOTERPRESENT = 0x10"

text \<open>The result is a \<open>signed long\<close>.\<close>

definition id3_tag_query :: "u8 list \<Rightarrow> u64 \<Rightarrow> int option" where
  "id3_tag_query d len = do {
     t \<leftarrow> tagtype_of d len;
     case t of
       TAGTYPE_ID3V1 \<Rightarrow> Some 128
     | TAGTYPE_ID3V2 \<Rightarrow> do {
         (version, flags, tag_size) \<leftarrow> id3_parse_header d;
         let tag_size = (if (word_of_int flags :: u32) AND ID3_TAG_FLAG_FOOTERPRESENT \<noteq> 0
                         then tag_size + 10 else tag_size);
         Some (sint (10 + tag_size)) }
     | TAGTYPE_ID3V2_FOOTER \<Rightarrow> do {
         (version, flags, tag_size) \<leftarrow> id3_parse_header d;
         Some (sint (- tag_size - 10)) }
     | TAGTYPE_NONE \<Rightarrow> Some 0 }"

section \<open>Syncsafe integers\<close>

text \<open>The four bytes that carry seven bits each, most significant first.\<close>

definition syncsafe :: "nat \<Rightarrow> u8 list" where
  "syncsafe n = map (\<lambda>k. of_nat (n div 128 ^ k mod 128)) [3, 2, 1, 0]"

definition syncsafe_value :: "u8 list \<Rightarrow> nat" where
  "syncsafe_value bs = foldl (\<lambda>v b. 128 * v + unat b mod 128) 0 bs"

lemma and_7f_take_bit: "(b :: u8) AND 0x7f = take_bit 7 b"
  by (simp add: take_bit_eq_mask mask_eq_exp_minus_1)

lemma and_7f: "unat ((b :: u8) AND 0x7f) = unat b mod 128"
  by (simp add: and_7f_take_bit unsigned_take_bit_eq) (simp add: take_bit_eq_mod)

lemma unat_shift_in_7:
  fixes v :: u64 and b :: u8
  assumes "unat v < 2 ^ 57"
  shows "unat (push_bit 7 v OR ucast (b AND 0x7f)) = 128 * unat v + unat b mod 128"
proof -
  let ?c = "ucast (b AND 0x7f) :: u64"
  have c: "unat ?c = unat b mod 128"
    by (subst unsigned_ucast_eq) (simp add: and_7f take_bit_nat_eq_self less_imp_le_nat
        order.strict_trans2 [OF mod_less_divisor])
  have "push_bit 7 v OR ?c = push_bit 7 v + ?c"
    unfolding and_7f_take_bit by (subst disjunctive_add) (auto simp: bit_simps)
  moreover have "unat (push_bit 7 v) = 128 * unat v"
    using assms by (simp add: push_bit_eq_mult unat_word_ariths)
  moreover have "unat (push_bit 7 v + ?c) = unat (push_bit 7 v) + unat ?c"
    using assms calculation(2) c by (subst unat_plus_simple [THEN iffD1]) (simp_all add: no_olen_add_nat)
  ultimately show ?thesis using c by simp
qed

lemma shift_many_7:
  assumes "n \<le> length p" "(unat v + 1) * 128 ^ n \<le> 2 ^ 63"
  shows "\<exists>w. id3_shift_many 7 0x7f n (v, p) = Some (w, drop n p) \<and>
    unat w = foldl (\<lambda>v b. 128 * v + unat b mod 128) (unat v) (take n p) \<and>
    unat w + 1 \<le> (unat v + 1) * 128 ^ n"
  using assms
proof (induction n arbitrary: v p)
  case (Suc n)
  then obtain b bs where p: "p = b # bs" "n \<le> length bs" by (cases p) auto
  let ?v = "push_bit 7 v OR ucast (b AND 0x7f) :: u64"
  have one: "(1::nat) \<le> 128 ^ n" by simp
  have "(unat v + 1) * 128 * 1 \<le> (unat v + 1) * 128 * 128 ^ n" by (rule mult_le_mono2) (rule one)
  also have "\<dots> = (unat v + 1) * 128 ^ Suc n" by (simp only: power_Suc mult.assoc)
  finally have "(unat v + 1) * 128 \<le> 2 ^ 63" using Suc.prems(2) by linarith
  then have v: "unat v < 2 ^ 57" by simp
  note u = unat_shift_in_7 [OF v, of b]
  have s: "unat ?v + 1 \<le> (unat v + 1) * 128" using u by simp
  have m: "(unat ?v + 1) * 128 ^ n \<le> (unat v + 1) * 128 ^ Suc n"
    using mult_le_mono1 [OF s, of "128 ^ n"] by (simp only: power_Suc mult.assoc)
  with Suc.prems(2) have "(unat ?v + 1) * 128 ^ n \<le> 2 ^ 63" by linarith
  from Suc.IH [OF p(2) this] obtain w where "id3_shift_many 7 0x7f n (?v, bs) = Some (w, drop n bs)"
    "unat w = foldl (\<lambda>v b. 128 * v + unat b mod 128) (unat ?v) (take n bs)"
    "unat w + 1 \<le> (unat ?v + 1) * 128 ^ n" by blast
  with m u p show ?case by (auto simp: id3_shift_in_def)
qed simp

lemma parse_syncsafe:
  assumes "4 \<le> length p"
  obtains w where "id3_parse_syncsafe p 4 = Some (w, drop 4 p)" "unat w = syncsafe_value (take 4 p)"
    "unat w < 268435456"
proof -
  have "(unat (0 :: u64) + 1) * 128 ^ 4 \<le> (2::nat) ^ 63" by simp
  from shift_many_7 [OF assms this] that show ?thesis
    by (auto simp: id3_parse_syncsafe_def syncsafe_value_def)
qed

lemma syncsafe_value_bound: "length bs = 4 \<Longrightarrow> syncsafe_value bs < 268435456"
  using parse_syncsafe [of bs] by (metis le_refl take_all_iff)

lemma shift_many_total:
  "n \<le> length (snd s) \<Longrightarrow> \<exists>w. id3_shift_many k m n s = Some (w, drop n (snd s))"
proof (induction n arbitrary: s)
  case (Suc n)
  then obtain b bs where "snd s = b # bs" "n \<le> length bs" by (cases "snd s") auto
  with Suc.IH [of "(push_bit k (fst s) OR ucast (b AND m), bs)"] show ?case
    by (simp add: id3_shift_in_def)
qed (auto simp: prod_eq_iff intro: exI [of _ "fst s"])

text \<open>The encoding of a size reads back as the size.\<close>

lemma syncsafe_roundtrip:
  assumes "n < 268435456"
  shows "syncsafe_value (syncsafe n) = n"
proof -
  have d: "n = n div 2097152 mod 128 * 2097152 + n div 16384 mod 128 * 16384 +
      n div 128 mod 128 * 128 + n mod 128"
  proof -
    have "n = n div 128 * 128 + n mod 128" "n div 128 = n div 16384 * 128 + n div 128 mod 128"
      "n div 16384 = n div 2097152 * 128 + n div 16384 mod 128"
      using div_mult_mod_eq [of n 128] div_mult_mod_eq [of "n div 128" 128]
        div_mult_mod_eq [of "n div 16384" 128] by (simp_all flip: div_mult2_eq)
    moreover have "n div 2097152 mod 128 = n div 2097152" using assms by simp
    ultimately show ?thesis by linarith
  qed
  have u: "unat (of_nat (m mod 128) :: u8) = m mod 128" for m
  proof -
    have "m mod 128 < 128" by simp
    then show ?thesis by (simp add: unsigned_of_nat take_bit_nat_eq_self del: of_nat_mod mod_less_divisor)
  qed
  have e: "syncsafe n = [of_nat (n div 2097152 mod 128), of_nat (n div 16384 mod 128),
      of_nat (n div 128 mod 128), of_nat (n mod 128)]"
    by (simp add: syncsafe_def)
  have "syncsafe_value (syncsafe n) = 128 * (128 * (128 * (n div 2097152 mod 128) + n div 16384 mod 128) +
      n div 128 mod 128) + n mod 128"
    unfolding e syncsafe_value_def foldl_Cons foldl_Nil u by simp
  also have "\<dots> = n div 2097152 mod 128 * 2097152 + n div 16384 mod 128 * 16384 +
      n div 128 mod 128 * 128 + n mod 128" by simp
  also have "\<dots> = n" by (rule d [symmetric])
  finally show ?thesis .
qed

section \<open>The query\<close>

lemma bytes_are_ok:
  "i + length cs \<le> length d \<Longrightarrow> bytes_are d i cs = Some (take (length cs) (drop i d) = cs)"
proof (induction cs arbitrary: i)
  case (Cons c cs)
  then have "drop i d = d ! i # drop (Suc i) d" by (simp add: Cons_nth_drop_Suc)
  with Cons show ?case by (simp add: byte_at_def)
qed simp

lemma bytes_below_ok:
  "\<forall>(i, l) \<in> set cs. i < length d \<Longrightarrow> bytes_below d cs = Some (\<forall>(i, l) \<in> set cs. d ! i < l)"
  by (induction cs) (auto simp: byte_at_def)

text \<open>The byte conditions on a version 2 header.\<close>

definition id3v2_bounds :: "u8 list \<Rightarrow> bool" where
  "id3v2_bounds d \<longleftrightarrow> d ! 3 < 0xff \<and> d ! 4 < 0xff \<and> d ! 6 < 0x80 \<and> d ! 7 < 0x80 \<and>
     d ! 8 < 0x80 \<and> d ! 9 < 0x80"

lemma tagtype_value:
  assumes "unat len \<le> length d"
  shows "tagtype_of d len = Some (
    if 3 \<le> unat len \<and> take 3 d = [0x54, 0x41, 0x47] then TAGTYPE_ID3V1
    else if 10 \<le> unat len \<and> id3v2_bounds d \<and> take 3 d = [0x49, 0x44, 0x33] then TAGTYPE_ID3V2
    else if 10 \<le> unat len \<and> id3v2_bounds d \<and> take 3 d = [0x33, 0x44, 0x49] then TAGTYPE_ID3V2_FOOTER
    else TAGTYPE_NONE)"
proof -
  have u: "(3 \<le> len) = (3 \<le> unat len)" "(10 \<le> len) = (10 \<le> unat len)"
    by (simp_all add: word_le_nat_alt)
  show ?thesis
  proof (cases "10 \<le> unat len")
    case False
    with assms show ?thesis by (auto simp: tagtype_of_def u bytes_are_ok numeral_3_eq_3 simp del: bytes_are.simps)
  next
    case True
    with assms have "10 \<le> length d" by simp
    then obtain b0 b1 b2 bs where d: "d = b0 # b1 # b2 # bs" "7 \<le> length bs"
      by (metis (no_types, opaque_lifting) Suc_le_length_iff eval_nat_numeral(2,3) BitM.simps numeral_One
        One_nat_def length_Cons Suc_le_mono)
    have below: "bytes_below d [(3, 0xff), (4, 0xff), (6, 0x80), (7, 0x80), (8, 0x80), (9, 0x80)] =
        Some (id3v2_bounds d)"
      using \<open>10 \<le> length d\<close> by (subst bytes_below_ok) (auto simp: id3v2_bounds_def)
    have are: "bytes_are d 0 [x, y, z] = Some (b0 = x \<and> b1 = y \<and> b2 = z)" for x y z
      using d by (subst bytes_are_ok) (auto simp: eval_nat_numeral)
    have t: "take 3 d = [b0, b1, b2]" "byte_at d 0 = Some b0" using d
      by (simp_all add: byte_at_def numeral_3_eq_3)
    show ?thesis using True by (auto simp: tagtype_of_def u are below t simp del: bytes_are.simps bytes_below.simps)
  qed
qed

text \<open>The header of a version 2 tag (or of its footer) yields the size field.\<close>

lemma parse_header:
  assumes "10 \<le> length d"
  obtains v w where "id3_parse_header d = Some (v, sint (ucast (d ! 5) :: u32), w)"
    "unat w = syncsafe_value (take 4 (drop 6 d))" "unat w < 268435456"
proof -
  have "2 \<le> length (snd (0 :: u64, drop 3 d))" using assms by simp
  then obtain v where v: "id3_parse_uint (drop 3 d) 2 = Some (v, drop 5 d)"
    using shift_many_total [where n = 2 and s = "(0, drop 3 d)" and k = 8 and m = "0xff"] by (auto simp: id3_parse_uint_def)
  have d5: "drop 5 d = d ! 5 # drop (Suc 5) d"
    using assms by (intro Cons_nth_drop_Suc [symmetric]) simp
  have ff: "b AND 0xff = b" for b :: u8
  proof -
    have "(0xff :: u8) = - 1" by simp
    then show ?thesis by (simp only: and.right_neutral)
  qed
  have f: "id3_parse_uint (drop 5 d) 1 = Some (ucast (d ! 5), drop 6 d)"
    by (simp add: id3_parse_uint_def id3_shift_in_def d5 ff)
  have "4 \<le> length (drop 6 d)" using assms by simp
  from parse_syncsafe [OF this]
  obtain w where w: "id3_parse_syncsafe (drop 6 d) 4 = Some (w, drop 4 (drop 6 d))"
    "unat w = syncsafe_value (take 4 (drop 6 d))" "unat w < 268435456"
    by metis
  have u: "(ucast (ucast (d ! 5) :: u64) :: u32) = ucast (d ! 5)" 
    by (rule bit_eqI) (auto simp: bit_simps dest: bit_imp_le_length)
  from v f w show ?thesis by (intro that [of "ucast v" w]) (simp_all add: id3_parse_header_def u)
qed

lemma sint_small_u64:
  fixes w :: u64
  assumes "unat w < 2 ^ 62"
  shows "sint w = int (unat w)" "sint (- w) = - int (unat w)"
proof -
  have u: "uint w = int (unat w)" by simp
  have b: "uint w < 2 ^ 62" using assms unfolding u by (metis of_nat_less_iff of_nat_numeral of_nat_power)
  show s: "sint w = int (unat w)"
    unfolding u [symmetric] using b
    by (simp add: sint_uint, intro signed_take_bit_int_eq_self) (simp_all add: order_trans [OF _ uint_ge_0])
  have "sint (- w) = signed_take_bit 63 (- sint w)" by (simp add: sint_word_ariths)
  also have "\<dots> = - sint w" using b uint_ge_0 [of w] unfolding s u [symmetric]
    by (intro signed_take_bit_int_eq_self; simp; linarith)
  finally show "sint (- w) = - int (unat w)" unfolding s .
qed

lemma ucast_u8_zero: "(ucast (x :: u8) :: u32) = 0 \<longleftrightarrow> x = 0"
proof -
  have "unat (ucast x :: u32) = unat x"
    by (subst unsigned_ucast_eq, rule take_bit_nat_eq_self)
      (rule order_less_le_trans [OF unsigned_less], simp)
  then show ?thesis by (simp add: word_unat_eq_iff)
qed

definition tag_of :: "u8 list \<Rightarrow> nat" where
  "tag_of d = syncsafe_value (take 4 (drop 6 d))"

lemma id3_v2:
  assumes "10 \<le> unat len" "unat len \<le> length d" "take 3 d = [0x49, 0x44, 0x33]" "id3v2_bounds d"
  shows "id3_tag_query d len =
    Some (int (10 + tag_of d + (if d ! 5 AND 0x10 \<noteq> 0 then 10 else 0)))"
proof -
  from assms have d: "10 \<le> length d" by simp
  have t: "tagtype_of d len = Some TAGTYPE_ID3V2"
    using assms by (subst tagtype_value) auto
  from parse_header [OF d] obtain v w where h: "id3_parse_header d = Some (v, sint (ucast (d ! 5) :: u32), w)"
    "unat w = tag_of d" "unat w < 268435456" unfolding tag_of_def by metis
  have fl: "((ucast (d ! 5) :: u32) AND ID3_TAG_FLAG_FOOTERPRESENT \<noteq> 0) =
      (d ! 5 AND 0x10 \<noteq> 0)"
  proof -
    have "(ucast (d ! 5) :: u32) AND 0x10 = ucast (d ! 5 AND 0x10)"
      by (rule bit_eqI) (auto simp: bit_simps dest: bit_imp_le_length)
    then show ?thesis by (simp add: ID3_TAG_FLAG_FOOTERPRESENT_def ucast_u8_zero)
  qed
  have n: "unat (10 + w) = 10 + unat w" "unat (20 + w) = 20 + unat w"
    using h(3) by (simp_all add: unat_word_ariths)
  then have "unat (10 + w) < 2 ^ 62" "unat (20 + w) < 2 ^ 62" using h(3) by simp_all
  then have "sint (10 + w) = int (10 + tag_of d)" "sint (20 + w) = int (20 + tag_of d)"
    using n h(2) by (simp_all only: sint_small_u64(1))
  with h(1) fl show ?thesis by (simp add: id3_tag_query_def t)
qed

lemma id3_footer:
  assumes "10 \<le> unat len" "unat len \<le> length d" "take 3 d = [0x33, 0x44, 0x49]" "id3v2_bounds d"
  shows "id3_tag_query d len = Some (- int (10 + tag_of d))"
proof -
  from assms have d: "10 \<le> length d" by simp
  have t: "tagtype_of d len = Some TAGTYPE_ID3V2_FOOTER"
    using assms by (subst tagtype_value) auto
  from parse_header [OF d] obtain v f w where h: "id3_parse_header d = Some (v, f, w)"
    "unat w = tag_of d" "unat w < 268435456" unfolding tag_of_def by metis
  have n: "unat (w + 10) = unat w + 10" using h(3) by (simp_all add: unat_word_ariths)
  then have "unat (w + 10) < 2 ^ 62" using h(3) by simp
  then have "sint (- (w + 10)) = - int (10 + tag_of d)"
    using n h(2) by (simp only: sint_small_u64(2) add.commute)
  then have "sint (- w - 10) = - int (10 + tag_of d)" by (simp only: minus_add_distrib diff_conv_add_uminus)
  with h(1) show ?thesis by (simp add: id3_tag_query_def t)
qed

text \<open>The query is defined for every input and reads none of the bytes behind the length.\<close>

lemma id3_query_cases:
  assumes "unat len \<le> length d"
  shows "\<exists>r. id3_tag_query d len = Some r \<and>
    (r = 0 \<or> r = 128 \<or> (10 \<le> r \<and> r < 268435476) \<or> (- 268435466 < r \<and> r \<le> - 10))"
proof -
  have tb: "tag_of d < 268435456" if "10 \<le> unat len"
    unfolding tag_of_def using assms that by (intro syncsafe_value_bound) auto
  consider "tagtype_of d len = Some TAGTYPE_NONE" | "tagtype_of d len = Some TAGTYPE_ID3V1"
    | "10 \<le> unat len" "take 3 d = [0x49, 0x44, 0x33]" "id3v2_bounds d"
    | "10 \<le> unat len" "take 3 d = [0x33, 0x44, 0x49]" "id3v2_bounds d"
    using tagtype_value [OF assms] by (auto split: if_splits)
  then show ?thesis
  proof cases
    case 3
    with id3_v2 [OF 3(1) assms 3(2,3)] tb show ?thesis by auto
  next
    case 4
    with id3_footer [OF 4(1) assms 4(2,3)] tb show ?thesis by auto
  qed (simp_all add: id3_tag_query_def)
qed

end
