(* ===== verification/Pcm_Trans.thy ===== *)
theory Pcm_Trans
  imports Com_Fsm
begin

text \<open>
  The PCM transmitter and receiver of src/pcm_trans.c: two state machines that move sound between a
  callback and the ALSA library. The library, the callbacks and the allocator are a parameter
  \<open>env\<close> over a world \<open>'w\<close>; the program's own state is the record \<open>pcm_trans\<close>.
  A handle and a buffer are tracked through open and close, allocation and release, so that use of
  a closed handle and a second release are undefined. The invariant says that both are live
  exactly outside the idle state; the interface functions follow.
\<close>

datatype handle = No_Handle | Open_Handle | Closed_Handle

text \<open>A pointer to a heap object: NULL, to a live object, to a freed one.\<close>

datatype heap_ptr = Null_Ptr | Live "u8 list" | Freed

definition PCM_TRANS_EVENT_START :: u32 where "PCM_TRANS_EVENT_START = 1"
definition PCM_TRANS_EVENT_RESUME :: u32 where "PCM_TRANS_EVENT_RESUME = 2"
definition PCM_TRANS_EVENT_PAUSE :: u32 where "PCM_TRANS_EVENT_PAUSE = 4"
definition PCM_TRANS_EVENT_STOP :: u32 where "PCM_TRANS_EVENT_STOP = 8"

definition PCM_TRANS_STA_IDLE :: u32 where "PCM_TRANS_STA_IDLE = 0"
definition PCM_TRANS_STA_RX_RUN :: u32 where "PCM_TRANS_STA_RX_RUN = 1"
definition PCM_TRANS_STA_TX_RUN :: u32 where "PCM_TRANS_STA_TX_RUN = 2"
definition PCM_TRANS_STA_RX_PAUSE :: u32 where "PCM_TRANS_STA_RX_PAUSE = 3"
definition PCM_TRANS_STA_TX_PAUSE :: u32 where "PCM_TRANS_STA_TX_PAUSE = 4"
definition PCM_TRANS_STA_TX_DONE :: u32 where "PCM_TRANS_STA_TX_DONE = 5"

lemmas pcm_events = PCM_TRANS_EVENT_START_def PCM_TRANS_EVENT_RESUME_def PCM_TRANS_EVENT_PAUSE_def
  PCM_TRANS_EVENT_STOP_def
lemmas pcm_states = PCM_TRANS_STA_IDLE_def PCM_TRANS_STA_RX_RUN_def PCM_TRANS_STA_TX_RUN_def
  PCM_TRANS_STA_RX_PAUSE_def PCM_TRANS_STA_TX_PAUSE_def PCM_TRANS_STA_TX_DONE_def

definition COM_PLAYER_FIXED_SAMPLERATE :: u32 where "COM_PLAYER_FIXED_SAMPLERATE = 32000"
definition COM_PLAYER_FIXED_CHANNELS :: int where "COM_PLAYER_FIXED_CHANNELS = 2"
definition I2S_DATA_REQUEST_SIZE :: int where "I2S_DATA_REQUEST_SIZE = 16384"
definition I2S_DATA_NOTIFY_SIZE :: int where "I2S_DATA_NOTIFY_SIZE = 4096"
definition EPIPE :: int where "EPIPE = 32"
definition COM_FSM_MAX_WAIT_TIME :: u32 where "COM_FSM_MAX_WAIT_TIME = 30000"

record 'c pcm_trans =
  pcm_handle :: handle
  sample_rate :: u32
  channels :: u8
  no_data :: bool
  pcm_buffer :: heap_ptr
  pcm_size :: int
  pcm_callback :: "'c option"

text \<open>What the machine calls: the ALSA functions (the flag of open is true for playback; read
  returns the frames and the bytes it stored), the callback with its parameter (its result and
  the bytes it leaves in the buffer), and \<open>malloc\<close>.\<close>

record ('c, 'w) pcm_env =
  snd_open :: "bool \<Rightarrow> 'w \<Rightarrow> int \<times> 'w"
  snd_params :: "int \<Rightarrow> u32 \<Rightarrow> int \<Rightarrow> 'w \<Rightarrow> int \<times> 'w"
  snd_writei :: "u8 list \<Rightarrow> int \<Rightarrow> 'w \<Rightarrow> int \<times> 'w"
  snd_readi :: "int \<Rightarrow> 'w \<Rightarrow> int \<times> u8 list \<times> 'w"
  snd_recover :: "int \<Rightarrow> 'w \<Rightarrow> int \<times> 'w"
  snd_prepare :: "'w \<Rightarrow> 'w"
  snd_drop :: "'w \<Rightarrow> 'w"
  snd_close :: "'w \<Rightarrow> 'w"
  pcm_call :: "'c \<Rightarrow> heap_ptr \<Rightarrow> int \<Rightarrow> 'w \<Rightarrow> (int \<times> heap_ptr \<times> 'w) option"
  pcm_malloc :: "int \<Rightarrow> 'w \<Rightarrow> u8 list option \<times> 'w"

text \<open>An ALSA call needs an open handle; \<open>free\<close> takes NULL or a live object.\<close>

definition need_open :: "'c pcm_trans \<Rightarrow> unit option" where
  "need_open p = (if pcm_handle p = Open_Handle then Some () else None)"

definition ptr_of :: "u8 list option \<Rightarrow> heap_ptr" where
  "ptr_of m = (case m of None \<Rightarrow> Null_Ptr | Some d \<Rightarrow> Live d)"

definition free_ptr :: "heap_ptr \<Rightarrow> heap_ptr option" where
  "free_ptr q = (case q of Null_Ptr \<Rightarrow> Some Null_Ptr | Live d \<Rightarrow> Some Freed | Freed \<Rightarrow> None)"

datatype pcm_action = Tx_Start | Tx_Stop | Tx_Resume | Tx_Run_Poll | Rx_Start | Rx_Stop | Rx_Run_Poll

definition pcm_trans_tx_start_action ::
  "('c, 'w) pcm_env \<Rightarrow> 'c pcm_trans \<times> 'w \<Rightarrow> (u32 \<times> 'c pcm_trans \<times> 'w) option" where
  "pcm_trans_tx_start_action env s = do {
     let (err, w) = snd_open env True (snd s);
     let p = (if err < 0 then fst s else (fst s)\<lparr>pcm_handle := Open_Handle\<rparr>);
     _ \<leftarrow> need_open p;
     let (err, w) = snd_params env COM_PLAYER_FIXED_CHANNELS COM_PLAYER_FIXED_SAMPLERATE 500000 w;
     let (m, w) = pcm_malloc env I2S_DATA_REQUEST_SIZE w;
     Some (PCM_TRANS_STA_TX_RUN, p\<lparr>pcm_size := I2S_DATA_REQUEST_SIZE, pcm_buffer := ptr_of m\<rparr>, w) }"

definition pcm_trans_tx_stop_action ::
  "('c, 'w) pcm_env \<Rightarrow> 'c pcm_trans \<times> 'w \<Rightarrow> (u32 \<times> 'c pcm_trans \<times> 'w) option" where
  "pcm_trans_tx_stop_action env s = do {
     b \<leftarrow> free_ptr (pcm_buffer (fst s));
     _ \<leftarrow> need_open (fst s);
     Some (PCM_TRANS_STA_IDLE, (fst s)\<lparr>pcm_buffer := b, pcm_handle := Closed_Handle\<rparr>,
       snd_close env (snd_drop env (snd s))) }"

text \<open>The bytes ALSA reads for \<open>frames\<close> frames; none from a NULL buffer.\<close>

definition frame_bytes :: "heap_ptr \<Rightarrow> int \<Rightarrow> int \<Rightarrow> u8 list option" where
  "frame_bytes q frames frame_size = (case q of Live d \<Rightarrow> mem_read d 0 (frames * frame_size)
     | _ \<Rightarrow> if frames = 0 then Some [] else None)"

definition pcm_trans_tx_run_poll ::
  "('c, 'w) pcm_env \<Rightarrow> 'c pcm_trans \<times> 'w \<Rightarrow> (u32 \<times> 'c pcm_trans \<times> 'w) option" where
  "pcm_trans_tx_run_poll env s =
     (case pcm_callback (fst s) of
        None \<Rightarrow> Some (PCM_TRANS_STA_TX_PAUSE, s)
      | Some cb \<Rightarrow> do {
          (input_size, buf, w) \<leftarrow> pcm_call env cb (pcm_buffer (fst s)) (pcm_size (fst s)) (snd s);
          let p = (fst s)\<lparr>pcm_buffer := buf\<rparr>;
          if 0 < input_size then do {
            frames \<leftarrow> c_div input_size (COM_PLAYER_FIXED_CHANNELS * 2);
            _ \<leftarrow> need_open p;
            d \<leftarrow> frame_bytes buf frames (COM_PLAYER_FIXED_CHANNELS * 2);
            let (n, w) = snd_writei env d frames w;
            let w = (if n < 0 then snd (snd_recover env n w) else w);
            Some (COM_FSM_HOLD_STATE, p, w) }
          else if no_data p then Some (PCM_TRANS_STA_TX_DONE, p, w)
          else Some (PCM_TRANS_STA_TX_PAUSE, p, w) })"

definition pcm_trans_rx_start_action ::
  "('c, 'w) pcm_env \<Rightarrow> 'c pcm_trans \<times> 'w \<Rightarrow> (u32 \<times> 'c pcm_trans \<times> 'w) option" where
  "pcm_trans_rx_start_action env s = do {
     let (err, w) = snd_open env False (snd s);
     let p = (if err < 0 then fst s else (fst s)\<lparr>pcm_handle := Open_Handle\<rparr>);
     _ \<leftarrow> need_open p;
     let (err, w) = snd_params env 1 (sample_rate p) 100000 w;
     let (m, w) = pcm_malloc env I2S_DATA_NOTIFY_SIZE w;
     Some (PCM_TRANS_STA_RX_RUN, p\<lparr>pcm_size := I2S_DATA_NOTIFY_SIZE, pcm_buffer := ptr_of m\<rparr>, w) }"

text \<open>Storing what a read returned at the start of the buffer.\<close>

definition store_read :: "heap_ptr \<Rightarrow> u8 list \<Rightarrow> heap_ptr option" where
  "store_read q d = (case q of Live m \<Rightarrow> map_option Live (mem_write m 0 d)
     | _ \<Rightarrow> if d = [] then Some q else None)"

definition pcm_trans_rx_run_poll ::
  "('c, 'w) pcm_env \<Rightarrow> 'c pcm_trans \<times> 'w \<Rightarrow> (u32 \<times> 'c pcm_trans \<times> 'w) option" where
  "pcm_trans_rx_run_poll env s = do {
     _ \<leftarrow> need_open (fst s);
     want \<leftarrow> c_div (pcm_size (fst s)) 2;
     let (frames, d, w) = snd_readi env want (snd s);
     buf \<leftarrow> store_read (pcm_buffer (fst s)) d;
     let w = (if frames = - EPIPE then snd_prepare env w else w);
     let p = (fst s)\<lparr>pcm_buffer := buf\<rparr>;
     case pcm_callback p of
       None \<Rightarrow> Some (COM_FSM_HOLD_STATE, p, w)
     | Some cb \<Rightarrow> do {
         (r, buf', w) \<leftarrow> pcm_call env cb buf (frames * 2) w;
         Some (COM_FSM_HOLD_STATE, p\<lparr>pcm_buffer := buf'\<rparr>, w) } }"

definition pcm_trans_rx_stop_action ::
  "('c, 'w) pcm_env \<Rightarrow> 'c pcm_trans \<times> 'w \<Rightarrow> (u32 \<times> 'c pcm_trans \<times> 'w) option" where
  "pcm_trans_rx_stop_action env s = do {
     b \<leftarrow> free_ptr (pcm_buffer (fst s));
     _ \<leftarrow> need_open (fst s);
     Some (PCM_TRANS_STA_IDLE, (fst s)\<lparr>pcm_buffer := b, pcm_handle := Closed_Handle\<rparr>,
       snd_close env (snd_drop env (snd s))) }"

definition pcm_trans_tx_resume_action :: "'c pcm_trans \<times> 'w \<Rightarrow> (u32 \<times> 'c pcm_trans \<times> 'w) option" where
  "pcm_trans_tx_resume_action s = Some (PCM_TRANS_STA_TX_RUN, s)"

definition pcm_run :: "('c, 'w) pcm_env \<Rightarrow> pcm_action \<Rightarrow> 'c pcm_trans \<times> 'w \<Rightarrow> (u32 \<times> 'c pcm_trans \<times> 'w) option" where
  "pcm_run env a = (case a of
       Tx_Start \<Rightarrow> pcm_trans_tx_start_action env
     | Tx_Stop \<Rightarrow> pcm_trans_tx_stop_action env
     | Tx_Resume \<Rightarrow> pcm_trans_tx_resume_action
     | Tx_Run_Poll \<Rightarrow> pcm_trans_tx_run_poll env
     | Rx_Start \<Rightarrow> pcm_trans_rx_start_action env
     | Rx_Stop \<Rightarrow> pcm_trans_rx_stop_action env
     | Rx_Run_Poll \<Rightarrow> pcm_trans_rx_run_poll env)"

text \<open>No action touches its own machine.\<close>

definition pcm_exec :: "('c, 'w) pcm_env \<Rightarrow> (pcm_action, 'c pcm_trans \<times> 'w) fsm_exec" where
  "pcm_exec env a s = do { (st, u) \<leftarrow> pcm_run env a (snd s); Some (st, fst s, u) }"

definition lookup_tx :: "pcm_action com_fsm_lookup list" where
  "lookup_tx = [
     \<lparr>lk_event = PCM_TRANS_EVENT_START, lk_state = PCM_TRANS_STA_IDLE, lk_action = Tx_Start, lk_timeout = 0\<rparr>,
     \<lparr>lk_event = PCM_TRANS_EVENT_STOP, lk_state = PCM_TRANS_STA_TX_RUN, lk_action = Tx_Stop, lk_timeout = 0\<rparr>,
     \<lparr>lk_event = PCM_TRANS_EVENT_STOP, lk_state = PCM_TRANS_STA_TX_PAUSE, lk_action = Tx_Stop, lk_timeout = 0\<rparr>,
     \<lparr>lk_event = PCM_TRANS_EVENT_STOP, lk_state = PCM_TRANS_STA_TX_DONE, lk_action = Tx_Stop, lk_timeout = 0\<rparr>,
     \<lparr>lk_event = PCM_TRANS_EVENT_RESUME, lk_state = PCM_TRANS_STA_TX_PAUSE, lk_action = Tx_Resume, lk_timeout = 0\<rparr>,
     \<lparr>lk_event = COM_FSM_EVENT_NONE, lk_state = PCM_TRANS_STA_TX_RUN, lk_action = Tx_Run_Poll, lk_timeout = 0\<rparr>]"

definition lookup_rx :: "pcm_action com_fsm_lookup list" where
  "lookup_rx = [
     \<lparr>lk_event = PCM_TRANS_EVENT_START, lk_state = PCM_TRANS_STA_IDLE, lk_action = Rx_Start, lk_timeout = 0\<rparr>,
     \<lparr>lk_event = PCM_TRANS_EVENT_STOP, lk_state = PCM_TRANS_STA_RX_RUN, lk_action = Rx_Stop, lk_timeout = 0\<rparr>,
     \<lparr>lk_event = PCM_TRANS_EVENT_STOP, lk_state = PCM_TRANS_STA_RX_PAUSE, lk_action = Rx_Stop, lk_timeout = 0\<rparr>,
     \<lparr>lk_event = COM_FSM_EVENT_NONE, lk_state = PCM_TRANS_STA_RX_RUN, lk_action = Rx_Run_Poll, lk_timeout = 0\<rparr>]"

definition pcm_trans_zero :: "'c pcm_trans" where
  "pcm_trans_zero = \<lparr>pcm_handle = No_Handle, sample_rate = 0, channels = 0, no_data = False,
     pcm_buffer = Null_Ptr, pcm_size = 0, pcm_callback = None\<rparr>"

text \<open>The two static instances; a machine that could not be created is \<open>None\<close>.\<close>

definition pcm_trans_init ::
  "allocator \<Rightarrow> nat \<Rightarrow> nat \<times> (pcm_action com_fsm option \<times> 'c pcm_trans) \<times> (pcm_action com_fsm option \<times> 'c pcm_trans)" where
  "pcm_trans_init mal k =
     (let (k1, tx) = com_fsm_create_inner mal k lookup_tx None None;
          (k2, rx) = com_fsm_create_inner mal k1 lookup_rx None None
      in (k2, (tx, pcm_trans_zero), (rx, pcm_trans_zero)))"

section \<open>The interface\<close>

type_synonym ('c, 'w) tx_state = "pcm_action com_fsm \<times> 'c pcm_trans \<times> 'w"
type_synonym ('c, 'w) tx_serve = "('c, 'w) tx_state \<Rightarrow> ('c, 'w) tx_state option"

definition pcm_trans_start_tx ::
  "('c, 'w) tx_serve \<Rightarrow> ('c, 'w) tx_state \<Rightarrow> u32 \<Rightarrow> u8 \<Rightarrow> ('c, 'w) tx_state option" where
  "pcm_trans_start_tx serve s rate chan =
     com_fsm_set_event serve
       (fst s, (fst (snd s))\<lparr>sample_rate := rate, channels := chan, no_data := False\<rparr>, snd (snd s))
       PCM_TRANS_EVENT_START COM_FSM_MAX_WAIT_TIME"

definition pcm_trans_stop_tx ::
  "('c, 'w) tx_serve \<Rightarrow> ('c, 'w) tx_state \<Rightarrow> ('c, 'w) tx_state option" where
  "pcm_trans_stop_tx serve s = do {
     (f, u) \<leftarrow> com_fsm_set_event serve s PCM_TRANS_EVENT_STOP COM_FSM_MAX_WAIT_TIME;
     f' \<leftarrow> com_fsm_clear_event f COM_FSM_EVENT_ALL;
     Some (f', u) }"

definition pcm_trans_resume_tx ::
  "('c, 'w) tx_serve \<Rightarrow> ('c, 'w) tx_state \<Rightarrow> ('c, 'w) tx_state option" where
  "pcm_trans_resume_tx serve s =
     com_fsm_set_event serve s PCM_TRANS_EVENT_RESUME COM_FSM_MAX_WAIT_TIME"

definition pcm_trans_start_rx ::
  "('c, 'w) tx_serve \<Rightarrow> ('c, 'w) tx_state \<Rightarrow> u32 \<Rightarrow> u8 \<Rightarrow> ('c, 'w) tx_state option" where
  "pcm_trans_start_rx serve s rate chan =
     com_fsm_set_event serve
       (fst s, (fst (snd s))\<lparr>sample_rate := rate, channels := chan\<rparr>, snd (snd s))
       PCM_TRANS_EVENT_START COM_FSM_MAX_WAIT_TIME"

definition pcm_trans_stop_rx ::
  "('c, 'w) tx_serve \<Rightarrow> ('c, 'w) tx_state \<Rightarrow> ('c, 'w) tx_state option" where
  "pcm_trans_stop_rx serve s = do {
     (f, u) \<leftarrow> com_fsm_set_event serve s PCM_TRANS_EVENT_STOP COM_FSM_MAX_WAIT_TIME;
     f' \<leftarrow> com_fsm_clear_event f COM_FSM_EVENT_ALL;
     Some (f', u) }"

definition pcm_trans_register_callback :: "'c option \<Rightarrow> 'c pcm_trans \<Rightarrow> 'c pcm_trans" where
  "pcm_trans_register_callback cb p = p\<lparr>pcm_callback := cb\<rparr>"

definition pcm_trans_set_tx_no_data :: "'c pcm_trans \<Rightarrow> 'c pcm_trans" where
  "pcm_trans_set_tx_no_data p = p\<lparr>no_data := True\<rparr>"

definition pcm_trans_get_cur_state :: "pcm_action com_fsm option \<Rightarrow> u32 option" where
  "pcm_trans_get_cur_state fo = do { f \<leftarrow> fo; Some (cur_state f) }"

text \<open>Without effect in this build.\<close>

definition pcm_trans_pause_tx :: "('c, 'w) tx_state \<Rightarrow> ('c, 'w) tx_state" where
  "pcm_trans_pause_tx s = s"

text \<open>Both machines are deleted, which leaves NULL pointers and the exit event to their tasks; the library
  frees its global configuration.\<close>

definition pcm_trans_deinit :: "('w \<Rightarrow> 'w) \<Rightarrow> pcm_action com_fsm option \<times> 'c pcm_trans \<Rightarrow> pcm_action com_fsm option \<times> 'c pcm_trans \<Rightarrow> 'w \<Rightarrow>
    ((pcm_action com_fsm option \<times> 'c pcm_trans) \<times> (pcm_action com_fsm option \<times> 'c pcm_trans) \<times> 'w) option" where
  "pcm_trans_deinit snd_config_free tx rx w = do {
     _ \<leftarrow> (case fst tx of None \<Rightarrow> Some None | Some f \<Rightarrow> map_option Some (com_fsm_delete (f, w)));
     _ \<leftarrow> (case fst rx of None \<Rightarrow> Some None | Some f \<Rightarrow> map_option Some (com_fsm_delete (f, w)));
     Some ((None, snd tx), (None, snd rx), snd_config_free w) }"

text \<open>What the interface does to the transmitter's data from other threads.\<close>

definition pcm_api :: "'c pcm_trans \<times> 'w \<Rightarrow> 'c pcm_trans \<times> 'w \<Rightarrow> bool" where
  "pcm_api s s' \<longleftrightarrow> (\<exists>p w'. s' = (p, w') \<and>
     ((\<exists>cb. p = pcm_trans_register_callback cb (fst s)) \<or> p = pcm_trans_set_tx_no_data (fst s) \<or>
      (\<exists>r c n. p = (fst s)\<lparr>sample_rate := r, channels := c, no_data := n\<rparr>)))"

section \<open>Handle and buffer\<close>

text \<open>Outside the idle state the handle is open, in it it is not. A callback may fill the buffer; as
  long as none frees it, the buffer can be freed exactly outside the idle state.\<close>

definition keeps_buffer :: "('c, 'w) pcm_env \<Rightarrow> bool" where
  "keeps_buffer env \<longleftrightarrow> (\<forall>cb q n w r q' w'. pcm_call env cb q n w = Some (r, q', w') \<longrightarrow>
     (q' = Freed) = (q = Freed))"

definition pcm_live :: "('c, 'w) pcm_env \<Rightarrow> 'c pcm_trans \<Rightarrow> bool" where
  "pcm_live env p \<longleftrightarrow> pcm_handle p = Open_Handle \<and> (keeps_buffer env \<longrightarrow> pcm_buffer p \<noteq> Freed)"

definition tx_inv :: "('c, 'w) pcm_env \<Rightarrow> u32 \<Rightarrow> 'c pcm_trans \<times> 'w \<Rightarrow> bool" where
  "tx_inv env st s \<longleftrightarrow>
     (if st = PCM_TRANS_STA_IDLE then pcm_handle (fst s) \<noteq> Open_Handle
      else st \<in> {PCM_TRANS_STA_TX_RUN, PCM_TRANS_STA_TX_PAUSE, PCM_TRANS_STA_TX_DONE} \<and>
        pcm_live env (fst s))"

definition rx_inv :: "('c, 'w) pcm_env \<Rightarrow> u32 \<Rightarrow> 'c pcm_trans \<times> 'w \<Rightarrow> bool" where
  "rx_inv env st s \<longleftrightarrow>
     (if st = PCM_TRANS_STA_IDLE then pcm_handle (fst s) \<noteq> Open_Handle
      else st = PCM_TRANS_STA_RX_RUN \<and> pcm_live env (fst s))"

lemma need_open_Some [simp]: "need_open p = Some x \<longleftrightarrow> pcm_handle p = Open_Handle"
  by (simp add: need_open_def)

lemma ptr_of_not_Freed [simp]: "ptr_of m \<noteq> Freed"
  by (simp add: ptr_of_def split: option.split)

lemma store_read_Freed: "store_read q d = Some q' \<Longrightarrow> (q' = Freed) = (q = Freed)"
  by (auto simp: store_read_def split: heap_ptr.splits if_splits)

lemma tx_start: "pcm_trans_tx_start_action env s = Some (st, s') \<Longrightarrow>
    st = PCM_TRANS_STA_TX_RUN \<and> pcm_live env (fst s')"
  by (auto simp: pcm_trans_tx_start_action_def pcm_live_def Let_def dest!: bind_eq_SomeD
      split: prod.splits if_splits)

lemma tx_stop: "pcm_trans_tx_stop_action env s = Some (st, s') \<Longrightarrow>
    st = PCM_TRANS_STA_IDLE \<and> pcm_handle (fst s') = Closed_Handle"
  by (auto simp: pcm_trans_tx_stop_action_def dest!: bind_eq_SomeD)

lemma tx_poll:
  assumes "pcm_trans_tx_run_poll env s = Some (st, s')" "pcm_live env (fst s)"
  shows "st \<in> {COM_FSM_HOLD_STATE, PCM_TRANS_STA_TX_PAUSE, PCM_TRANS_STA_TX_DONE} \<and> pcm_live env (fst s')"
proof -
  have k: "pcm_call env cb q n w = Some (r, q', w') \<Longrightarrow> keeps_buffer env \<Longrightarrow> (q' = Freed) = (q = Freed)"
    for cb q n w r q' w' unfolding keeps_buffer_def by blast
  show ?thesis using assms
    by (auto simp: pcm_trans_tx_run_poll_def pcm_live_def Let_def dest!: bind_eq_SomeD
        split: option.splits if_splits prod.splits; metis k)
qed

lemma rx_start: "pcm_trans_rx_start_action env s = Some (st, s') \<Longrightarrow>
    st = PCM_TRANS_STA_RX_RUN \<and> pcm_live env (fst s')"
  by (auto simp: pcm_trans_rx_start_action_def pcm_live_def Let_def dest!: bind_eq_SomeD
      split: prod.splits if_splits)

lemma rx_stop: "pcm_trans_rx_stop_action env s = Some (st, s') \<Longrightarrow>
    st = PCM_TRANS_STA_IDLE \<and> pcm_handle (fst s') = Closed_Handle"
  by (auto simp: pcm_trans_rx_stop_action_def dest!: bind_eq_SomeD)

lemma rx_poll:
  assumes "pcm_trans_rx_run_poll env s = Some (st, s')" "pcm_live env (fst s)"
  shows "st = COM_FSM_HOLD_STATE \<and> pcm_live env (fst s')"
proof -
  have k: "pcm_call env cb q n w = Some (r, Freed, w') \<Longrightarrow> keeps_buffer env \<Longrightarrow> q = Freed"
    for cb q n w r w' unfolding keeps_buffer_def by blast
  show ?thesis using assms
    by (auto simp: pcm_trans_rx_run_poll_def pcm_live_def Let_def dest!: bind_eq_SomeD
        split: option.splits if_splits prod.splits; metis k store_read_Freed)
qed

text \<open>The state numbers differ from each other and from the hold state.\<close>

lemma pcm_distinct [simp]:
  "PCM_TRANS_STA_TX_RUN \<noteq> PCM_TRANS_STA_IDLE" "PCM_TRANS_STA_TX_PAUSE \<noteq> PCM_TRANS_STA_IDLE"
  "PCM_TRANS_STA_TX_DONE \<noteq> PCM_TRANS_STA_IDLE" "PCM_TRANS_STA_RX_RUN \<noteq> PCM_TRANS_STA_IDLE"
  "PCM_TRANS_STA_IDLE \<noteq> COM_FSM_HOLD_STATE" "PCM_TRANS_STA_TX_RUN \<noteq> COM_FSM_HOLD_STATE"
  "PCM_TRANS_STA_TX_PAUSE \<noteq> COM_FSM_HOLD_STATE" "PCM_TRANS_STA_TX_DONE \<noteq> COM_FSM_HOLD_STATE"
  "PCM_TRANS_STA_RX_RUN \<noteq> COM_FSM_HOLD_STATE"
  by (simp_all add: pcm_states COM_FSM_HOLD_STATE_def)

lemma pcm_api_same: "pcm_api s s' \<Longrightarrow>
    pcm_handle (fst s') = pcm_handle (fst s) \<and> pcm_buffer (fst s') = pcm_buffer (fst s)"
  by (auto simp: pcm_api_def pcm_trans_register_callback_def pcm_trans_set_tx_no_data_def)

lemma tx_step:
  assumes "tx_inv env st0 u" "(ev, st0, a) \<in> set (map row_key lookup_tx)" "pcm_run env a u = Some (st, u')"
  shows "tx_inv env (if st = COM_FSM_HOLD_STATE then st0 else st) u'"
proof -
  from assms(2) consider "a = Tx_Start" | "a = Tx_Stop" | "a = Tx_Resume" "st0 = PCM_TRANS_STA_TX_PAUSE"
    | "a = Tx_Run_Poll" "st0 = PCM_TRANS_STA_TX_RUN"
    by (auto simp: lookup_tx_def row_key_def)
  then show ?thesis
  proof cases
    case 1
    with assms(3) tx_start [of env u st u'] show ?thesis by (simp add: pcm_run_def tx_inv_def)
  next
    case 2
    with assms(3) tx_stop [of env u st u'] show ?thesis by (simp add: pcm_run_def tx_inv_def)
  next
    case 3
    with assms show ?thesis by (auto simp: pcm_run_def tx_inv_def pcm_trans_tx_resume_action_def)
  next
    case 4
    with assms tx_poll [of env u st u'] show ?thesis by (auto simp: pcm_run_def tx_inv_def)
  qed
qed

lemma rx_step:
  assumes "rx_inv env st0 u" "(ev, st0, a) \<in> set (map row_key lookup_rx)" "pcm_run env a u = Some (st, u')"
  shows "rx_inv env (if st = COM_FSM_HOLD_STATE then st0 else st) u'"
proof -
  from assms(2) consider "a = Rx_Start" | "a = Rx_Stop" | "a = Rx_Run_Poll" "st0 = PCM_TRANS_STA_RX_RUN"
    by (auto simp: lookup_rx_def row_key_def)
  then show ?thesis
  proof cases
    case 1
    with assms(3) rx_start [of env u st u'] show ?thesis by (simp add: pcm_run_def rx_inv_def)
  next
    case 2
    with assms(3) rx_stop [of env u st u'] show ?thesis by (simp add: pcm_run_def rx_inv_def)
  next
    case 3
    with assms rx_poll [of env u st u'] show ?thesis by (auto simp: pcm_run_def rx_inv_def)
  qed
qed

interpretation tx: fsm_safe "pcm_exec env" "map row_key lookup_tx" pcm_api "tx_inv env"
proof unfold_locales
  fix f f' and u u' :: "'a pcm_trans \<times> 'b" and ev a st
  assume "tx_inv env (cur_state f) u" "(ev, cur_state f, a) \<in> set (map row_key lookup_tx)"
    "pcm_exec env a (f, u) = Some (st, f', u')"
  moreover from this(3) have "f' = f" "pcm_run env a u = Some (st, u')"
    by (auto simp: pcm_exec_def dest!: bind_eq_SomeD)
  ultimately show "same_machine f f' \<and> tx_inv env (if st = COM_FSM_HOLD_STATE then cur_state f else st) u'"
    by (simp add: tx_step)
qed (auto simp: tx_inv_def pcm_live_def dest: pcm_api_same)

interpretation rx: fsm_safe "pcm_exec env" "map row_key lookup_rx" pcm_api "rx_inv env"
proof unfold_locales
  fix f f' and u u' :: "'a pcm_trans \<times> 'b" and ev a st
  assume "rx_inv env (cur_state f) u" "(ev, cur_state f, a) \<in> set (map row_key lookup_rx)"
    "pcm_exec env a (f, u) = Some (st, f', u')"
  moreover from this(3) have "f' = f" "pcm_run env a u = Some (st, u')"
    by (auto simp: pcm_exec_def dest!: bind_eq_SomeD)
  ultimately show "same_machine f f' \<and> rx_inv env (if st = COM_FSM_HOLD_STATE then cur_state f else st) u'"
    by (simp add: rx_step)
qed (auto simp: rx_inv_def pcm_live_def dest: pcm_api_same)

section \<open>Definedness\<close>

text \<open>With a sound card that opens, the start action always succeeds; with one that does not, it goes
  on to use the handle it has not got.\<close>

lemma tx_start_opens:
  assumes "fst (snd_open env True w) \<ge> 0"
  shows "\<exists>s'. pcm_trans_tx_start_action env (p, w) = Some (PCM_TRANS_STA_TX_RUN, s') \<and> pcm_live env (fst s')"
  using assms by (auto simp: pcm_trans_tx_start_action_def pcm_live_def need_open_def Let_def split: prod.splits)

lemma tx_start_fails:
  assumes "fst (snd_open env True w) < 0" "pcm_handle p \<noteq> Open_Handle"
  shows "pcm_trans_tx_start_action env (p, w) = None"
  using assms by (auto simp: pcm_trans_tx_start_action_def need_open_def Let_def split: prod.splits)

lemma tx_stop_defined:
  assumes "pcm_live env p" "keeps_buffer env"
  shows "\<exists>s'. pcm_trans_tx_stop_action env (p, w) = Some (PCM_TRANS_STA_IDLE, s')"
  using assms by (auto simp: pcm_trans_tx_stop_action_def pcm_live_def need_open_def free_ptr_def
      split: heap_ptr.split)

end
