(* ===== verification/Mp3_Decoder.thy ===== *)
theory Mp3_Decoder
  imports Com_Fsm Direct_Buffer Id3_Tag Complex_Main
begin

text \<open>
  The MP3 decoder task of src/mp3_decoder.c. The libmad library is a parameter: the record
  \<open>mad\<close> has the fields of its stream, header and PCM structures that the code reads (pointers
  into the input buffer as offsets) and a private rest; its functions and the callbacks are
  fields of the environment \<open>mp3_env\<close>. The definitions follow the file: memory, sample
  scaling, output, error, the poll action in its three steps, the machine and the interface. The
  lemmas show that scaled samples are 16-bit values, that the PCM bytes of a frame are queued in
  order and inside the buffer when it could be enlarged, that output is delivered in order without
  loss, and that decoder memory is only held outside the idle state.
\<close>

definition MP3_DECODER_INPUT_SIZE :: int where "MP3_DECODER_INPUT_SIZE = 10240"
definition MP3_DECODER_MAX_ERR_COUNT :: int where "MP3_DECODER_MAX_ERR_COUNT = 20"

definition MP3_DECODER_EVENT_START :: u32 where "MP3_DECODER_EVENT_START = 1"
definition MP3_DECODER_EVENT_RESUME :: u32 where "MP3_DECODER_EVENT_RESUME = 2"
definition MP3_DECODER_EVENT_PAUSE :: u32 where "MP3_DECODER_EVENT_PAUSE = 4"
definition MP3_DECODER_EVENT_STOP :: u32 where "MP3_DECODER_EVENT_STOP = 16"
definition MP3_DECODER_EVENT_SEEK :: u32 where "MP3_DECODER_EVENT_SEEK = 32"

definition MP3_DECODER_STA_IDLE :: u32 where "MP3_DECODER_STA_IDLE = 0"
definition MP3_DECODER_STA_RUN :: u32 where "MP3_DECODER_STA_RUN = 1"
definition MP3_DECODER_STA_PAUSE :: u32 where "MP3_DECODER_STA_PAUSE = 2"

lemmas mp3_states = MP3_DECODER_STA_IDLE_def MP3_DECODER_STA_RUN_def MP3_DECODER_STA_PAUSE_def

record audio_decoder_info =
  di_tag_size :: u32
  di_sample_rate :: u32
  di_bit_rate :: u32
  di_channels :: u8

definition decoder_info_zero :: audio_decoder_info where
  "decoder_info_zero = \<lparr>di_tag_size = 0, di_sample_rate = 0, di_bit_rate = 0, di_channels = 0\<rparr>"

text \<open>libmad, as far as the code looks at it.\<close>

record 'm mad =
  ms_buffer :: bool
  ms_bufend :: int
  ms_this :: "int option"
  ms_next :: "int option"
  ms_error :: int
  fr_samplerate :: u32
  fr_bitrate :: u64
  fr_options :: u32
  pcm_channels :: u16
  pcm_length :: u16
  pcm_samples :: "nat \<Rightarrow> nat \<Rightarrow> int"
  mad_priv :: 'm

definition MAD_ERROR_NONE :: int where "MAD_ERROR_NONE = 0"
definition MAD_ERROR_BUFLEN :: int where "MAD_ERROR_BUFLEN = 1"
definition MAD_ERROR_LOSTSYNC :: int where "MAD_ERROR_LOSTSYNC = 0x101"
definition MAD_OPTION_HALFSAMPLERATE :: u32 where "MAD_OPTION_HALFSAMPLERATE = 2"
definition MAD_F_ONE :: int where "MAD_F_ONE = 0x10000000"
definition MAD_RECOVERABLE :: "int \<Rightarrow> bool" where
  "MAD_RECOVERABLE e = ((word_of_int e :: u32) AND 0xff00 \<noteq> 0)"

record 'm mp3_mem =
  mm_mad :: "'m mad"
  mm_info :: audio_decoder_info
  mm_input :: "u8 list"
  mm_output :: direct_buffer
  mm_output_total :: int
  mm_error :: int

text \<open>A callback is a function with its parameter, named by \<open>'c\<close>.\<close>

record ('m, 'c) mp3_decoder =
  md_input_done :: bool
  md_output_done :: bool
  md_seek_position :: real
  md_mem :: "'m mp3_mem option"
  md_input :: "'c option"
  md_error_cb :: "'c option"
  md_seek :: "'c option"
  md_output :: "'c option"

text \<open>Library, callbacks (the input callback returns its result and the bytes it stored; the output
  callback gets the bytes at the base of the buffer), allocator and the size of the decoder's
  memory block.\<close>

record ('m, 'c, 'w) mp3_env =
  mad_init :: "'m mad"
  mad_stream_buffer :: "u8 list \<Rightarrow> int \<Rightarrow> 'm mad \<Rightarrow> 'm mad"
  mad_frame_decode :: "u8 list \<Rightarrow> 'm mad \<Rightarrow> int \<times> 'm mad"
  mad_stream_skip :: "int \<Rightarrow> 'm mad \<Rightarrow> 'm mad"
  mad_synth_frame :: "'m mad \<Rightarrow> 'm mad"
  call_input :: "'c \<Rightarrow> int \<Rightarrow> 'w \<Rightarrow> int \<times> u8 list \<times> 'w"
  call_error :: "'c \<Rightarrow> int \<Rightarrow> 'w \<Rightarrow> 'w"
  call_seek :: "'c \<Rightarrow> int \<Rightarrow> 'w \<Rightarrow> 'w"
  call_output :: "'c \<Rightarrow> audio_decoder_info \<Rightarrow> u8 list \<Rightarrow> int \<Rightarrow> 'w \<Rightarrow> int \<times> 'w"
  mp3_alloc :: allocator
  mp3_mem_size :: nat

type_synonym ('m, 'c, 'w) mp3_state = "('m, 'c) mp3_decoder \<times> nat \<times> 'w"

section \<open>Memory\<close>

definition mp3_decoder_dealloc_memory :: "'m mp3_mem option \<Rightarrow> 'm mp3_mem option" where
  "mp3_decoder_dealloc_memory mem = (case mem of None \<Rightarrow> None
     | Some m \<Rightarrow> None)"

text \<open>The block, then the output buffer (its struct and 512 bytes).\<close>

definition mp3_decoder_alloc_memory ::
  "('m, 'c, 'w) mp3_env \<Rightarrow> nat \<Rightarrow> 'm mp3_mem option \<Rightarrow> nat \<times> 'm mp3_mem option" where
  "mp3_decoder_alloc_memory env k mem =
     (let none = mp3_decoder_dealloc_memory mem in
      if mp3_alloc env k (mp3_mem_size env) = None then (k + 1, none)
      else case direct_buffer_create (mp3_alloc env) (k + 1) 512 of
        (k', None) \<Rightarrow> (k', none)
      | (k', Some db) \<Rightarrow> (k', Some \<lparr>mm_mad = mad_init env, mm_info = decoder_info_zero,
          mm_input = replicate 10240 0, mm_output = db, mm_output_total = 0, mm_error = 0\<rparr>))"

section \<open>Samples\<close>

text \<open>\<open>sample += 1L << 12\<close> adds in \<open>long\<close> and converts back to \<open>int\<close>; the shift
  of the negative value is arithmetic.\<close>

definition scale :: "int \<Rightarrow> int" where
  "scale sample =
     (let s = sint (word_of_int (sample + 4096) :: u32);
          s = (if MAD_F_ONE \<le> s then MAD_F_ONE - 1 else if s < - MAD_F_ONE then - MAD_F_ONE else s)
      in s div 2 ^ 13)"

definition push_sample :: "int \<Rightarrow> direct_buffer \<Rightarrow> direct_buffer option" where
  "push_sample tmp db = do {
     db \<leftarrow> direct_buffer_push_one db (word_of_int tmp);
     direct_buffer_push_one db (word_of_int (tmp div 2 ^ 8)) }"

text \<open>The two nested loops over the samples of a frame.\<close>

definition push_frame :: "'m mad \<Rightarrow> direct_buffer \<Rightarrow> direct_buffer option" where
  "push_frame m = each [0..<unat (pcm_length m)]
     (\<lambda>i. each [0..<unat (pcm_channels m)] (\<lambda>j. push_sample (scale (pcm_samples m j i))))"

section \<open>Output, errors, seeking\<close>

definition mp3_decoder_output_handler ::
  "('m, 'c, 'w) mp3_env \<Rightarrow> ('m, 'c) mp3_decoder \<Rightarrow> 'm mp3_mem \<Rightarrow> 'w \<Rightarrow> (bool \<times> 'm mp3_mem \<times> 'w) option" where
  "mp3_decoder_output_handler env d mem w = do {
     count \<leftarrow> direct_buffer_get_count (mm_output mem);
     if count \<le> 0 then Some (True, mem, w)
     else do {
       cb \<leftarrow> md_output d;
       m \<leftarrow> db_buffer (mm_output mem);
       bytes \<leftarrow> mem_read m (db_read (mm_output mem)) count;
       let (n, w) = call_output env cb (mm_info mem) bytes count w;
       db \<leftarrow> direct_buffer_pop_only (mm_output mem) n;
       total \<leftarrow> c_int (mm_output_total mem + n);
       left \<leftarrow> direct_buffer_get_count db;
       let mem = mem\<lparr>mm_output := db, mm_output_total := total\<rparr>;
       Some (if 0 < left then (False, mem, w)
         else (True, mem\<lparr>mm_output := direct_buffer_clear db\<rparr>, w)) } }"

definition mp3_decoder_error_handler ::
  "('m, 'c, 'w) mp3_env \<Rightarrow> ('m, 'c) mp3_decoder \<Rightarrow> 'w \<Rightarrow> 'w" where
  "mp3_decoder_error_handler env d w =
     (case (md_mem d, md_error_cb d) of
        (Some mem, Some cb) \<Rightarrow>
          (if MP3_DECODER_MAX_ERR_COUNT \<le> mm_error mem then call_error env cb (ms_error (mm_mad mem)) w
           else if md_output_done d \<and> mm_output_total mem \<le> 0
           then call_error env cb (ms_error (mm_mad mem)) w else w)
      | _ \<Rightarrow> w)"

text \<open>A \<open>double\<close> passed as an \<open>int\<close>: truncated, undefined out of range.\<close>

definition int_of_double :: "real \<Rightarrow> int option" where
  "int_of_double x = c_int (if 0 \<le> x then \<lfloor>x\<rfloor> else \<lceil>x\<rceil>)"

definition mp3_decoder_seek_handler ::
  "('m, 'c, 'w) mp3_env \<Rightarrow> ('m, 'c, 'w) mp3_state \<Rightarrow> ('m, 'c, 'w) mp3_state option" where
  "mp3_decoder_seek_handler env s =
     (case (md_mem (fst s), md_seek (fst s)) of
        (Some mem, Some cb) \<Rightarrow> do {
          p \<leftarrow> int_of_double (md_seek_position (fst s));
          Some ((fst s)\<lparr>md_mem := Some (mem\<lparr>mm_output := direct_buffer_clear (mm_output mem)\<rparr>)\<rparr>,
            fst (snd s), call_seek env cb p (snd (snd s))) }
      | _ \<Rightarrow> Some s)"

section \<open>The poll action\<close>

text \<open>Step 1: refill the input when the decoder asks for more. \<open>Some st\<close> is an early return
  with that state.\<close>

definition mp3_input_step ::
  "('m, 'c, 'w) mp3_env \<Rightarrow> ('m, 'c) mp3_decoder \<Rightarrow> 'm mp3_mem \<Rightarrow> 'w \<Rightarrow>
     (u32 option \<times> ('m, 'c) mp3_decoder \<times> 'm mp3_mem \<times> 'w) option" where
  "mp3_input_step env d mem w =
     (let mad = mm_mad mem in
      if ms_buffer mad \<and> ms_error mad \<noteq> MAD_ERROR_BUFLEN then Some (None, d, mem, w)
      else if md_input_done d
      then Some (Some MP3_DECODER_STA_PAUSE, d\<lparr>md_output_done := True\<rparr>, mem, w)
      else do {
        (remain, ib) \<leftarrow> (case ms_next mad of
            None \<Rightarrow> Some (0, mm_input mem)
          | Some nx \<Rightarrow> do {
              remain \<leftarrow> c_int (ms_bufend mad - nx);
              chunk \<leftarrow> mem_read (mm_input mem) nx remain;
              ib \<leftarrow> mem_write (mm_input mem) 0 chunk;
              Some (remain, ib) });
        cb \<leftarrow> md_input d;
        let (n, bytes, w) = call_input env cb (MP3_DECODER_INPUT_SIZE - remain) w;
        ib \<leftarrow> mem_write ib remain bytes;
        let mem = mem\<lparr>mm_input := ib\<rparr>;
        if 0 < n then do {
          len \<leftarrow> c_int (n + remain);
          Some (None, d, mem\<lparr>mm_mad := (mad_stream_buffer env ib len mad)\<lparr>ms_error := MAD_ERROR_NONE\<rparr>\<rparr>, w) }
        else Some (Some MP3_DECODER_STA_PAUSE, d, mem, w) })"

definition query_stream :: "'m mp3_mem \<Rightarrow> int option" where
  "query_stream mem = do {
     this \<leftarrow> ms_this (mm_mad mem);
     if 0 \<le> this \<and> this \<le> int (length (mm_input mem))
     then id3_tag_query (drop (nat this) (mm_input mem)) (word_of_int (ms_bufend (mm_mad mem) - this))
     else None }"

definition mp3_tag_step :: "'m mp3_mem \<Rightarrow> 'm mp3_mem option" where
  "mp3_tag_step mem =
     (if di_tag_size (mm_info mem) \<le> 0
      then do { t \<leftarrow> query_stream mem;
                Some (mem\<lparr>mm_info := (mm_info mem)\<lparr>di_tag_size := word_of_int t\<rparr>\<rparr>) }
      else Some mem)"

text \<open>Step 2: decode a frame. The result is \<open>Some st\<close> for an end of the action.\<close>

definition mp3_decode_step ::
  "('m, 'c, 'w) mp3_env \<Rightarrow> 'm mp3_mem \<Rightarrow> (u32 option \<times> 'm mp3_mem) option" where
  "mp3_decode_step env mem =
     (let (r, mad) = mad_frame_decode env (mm_input mem) (mm_mad mem);
          mem = mem\<lparr>mm_mad := mad\<rparr> in
      if r \<noteq> MAD_ERROR_NONE then
        (if ms_error mad = MAD_ERROR_BUFLEN then Some (Some COM_FSM_HOLD_STATE, mem)
         else if ms_error mad = MAD_ERROR_LOSTSYNC then do {
           t \<leftarrow> query_stream mem;
           let tagsize = int_of_u32 (word_of_int t);
           let mem = (if 0 < tagsize then mem\<lparr>mm_mad := mad_stream_skip env tagsize mad\<rparr> else mem);
           e \<leftarrow> c_int (mm_error mem + 1);
           Some (Some COM_FSM_HOLD_STATE, mem\<lparr>mm_error := e\<rparr>) }
         else if MAD_RECOVERABLE (ms_error mad) then Some (Some COM_FSM_HOLD_STATE, mem)
         else do { e \<leftarrow> c_int (mm_error mem + 1);
                   Some (Some MP3_DECODER_STA_PAUSE, mem\<lparr>mm_error := e\<rparr>) })
      else Some (None, mem\<lparr>mm_error := 0\<rparr>))"

text \<open>Step 3: synthesise the PCM samples and note their format, then queue them. The result of the
  resize is not looked at.\<close>

definition mp3_synth :: "('m, 'c, 'w) mp3_env \<Rightarrow> 'm mp3_mem \<Rightarrow> 'm mp3_mem" where
  "mp3_synth env mem =
     (let mad = mm_mad mem;
          mad = (if 44100 \<le> fr_samplerate mad
                 then mad\<lparr>fr_options := fr_options mad OR MAD_OPTION_HALFSAMPLERATE\<rparr> else mad);
          mad = mad_synth_frame env mad;
          rate = fr_samplerate mad;
          rate = (if MAD_OPTION_HALFSAMPLERATE AND fr_options mad \<noteq> 0 then rate div 2 else rate)
      in mem\<lparr>mm_mad := mad, mm_info := (mm_info mem)\<lparr>di_sample_rate := rate,
           di_bit_rate := ucast (fr_bitrate mad), di_channels := ucast (pcm_channels mad)\<rparr>\<rparr>)"

definition mp3_synth_step ::
  "('m, 'c, 'w) mp3_env \<Rightarrow> nat \<Rightarrow> 'm mp3_mem \<Rightarrow> (nat \<times> 'm mp3_mem) option" where
  "mp3_synth_step env k mem0 = do {
     let mem = mp3_synth env mem0;
     n \<leftarrow> c_int (uint (pcm_length (mm_mad mem)) * uint (pcm_channels (mm_mad mem)));
     (_, k, db) \<leftarrow> direct_buffer_resize (mp3_alloc env) k (mm_output mem) (int_of_u32 (word_of_int (n * 2)));
     db \<leftarrow> push_frame (mm_mad mem) (direct_buffer_clear db);
     Some (k, mem\<lparr>mm_output := db\<rparr>) }"

definition mp3_decoder_run_poll ::
  "('m, 'c, 'w) mp3_env \<Rightarrow> ('m, 'c, 'w) mp3_state \<Rightarrow> (u32 \<times> ('m, 'c, 'w) mp3_state) option" where
  "mp3_decoder_run_poll env s = do {
     let (d, k, w) = s;
     let w = mp3_decoder_error_handler env d w;
     mem \<leftarrow> md_mem d;
     (go, mem, w) \<leftarrow> mp3_decoder_output_handler env d mem w;
     if \<not> go then Some (MP3_DECODER_STA_PAUSE, d\<lparr>md_mem := Some mem\<rparr>, k, w)
     else do {
       (st, d, mem, w) \<leftarrow> mp3_input_step env d mem w;
       case st of Some st \<Rightarrow> Some (st, d\<lparr>md_mem := Some mem\<rparr>, k, w)
       | None \<Rightarrow> do {
         mem \<leftarrow> mp3_tag_step mem;
         (st, mem) \<leftarrow> mp3_decode_step env mem;
         case st of Some st \<Rightarrow> Some (st, d\<lparr>md_mem := Some mem\<rparr>, k, w)
         | None \<Rightarrow> do {
           (k, mem) \<leftarrow> mp3_synth_step env k mem;
           (go, mem, w) \<leftarrow> mp3_decoder_output_handler env d mem w;
           Some (if go then COM_FSM_HOLD_STATE else MP3_DECODER_STA_PAUSE, d\<lparr>md_mem := Some mem\<rparr>, k, w) } } } }"

section \<open>The machine\<close>

datatype mp3_action = Mp3_Start | Mp3_Stop | Mp3_Pause | Mp3_Resume | Mp3_Seek | Mp3_Run_Poll

definition mp3_decoder_start_action ::
  "('m, 'c, 'w) mp3_env \<Rightarrow> ('m, 'c, 'w) mp3_state \<Rightarrow> (u32 \<times> ('m, 'c, 'w) mp3_state) option" where
  "mp3_decoder_start_action env s =
     (let (k, mem) = mp3_decoder_alloc_memory env (fst (snd s)) (md_mem (fst s))
      in Some (MP3_DECODER_STA_RUN, (fst s)\<lparr>md_mem := mem\<rparr>, k, snd (snd s)))"

definition mp3_decoder_stop_action ::
  "('m, 'c, 'w) mp3_state \<Rightarrow> (u32 \<times> ('m, 'c, 'w) mp3_state) option" where
  "mp3_decoder_stop_action s = Some (MP3_DECODER_STA_IDLE,
     (fst s)\<lparr>md_mem := mp3_decoder_dealloc_memory (md_mem (fst s))\<rparr>, snd s)"

definition mp3_run :: "('m, 'c, 'w) mp3_env \<Rightarrow> mp3_action \<Rightarrow> ('m, 'c, 'w) mp3_state \<Rightarrow>
    (u32 \<times> ('m, 'c, 'w) mp3_state) option" where
  "mp3_run env a s = (case a of
      Mp3_Start \<Rightarrow> mp3_decoder_start_action env s
    | Mp3_Stop \<Rightarrow> mp3_decoder_stop_action s
    | Mp3_Pause \<Rightarrow> Some (MP3_DECODER_STA_PAUSE, s)
    | Mp3_Resume \<Rightarrow> Some (MP3_DECODER_STA_RUN, s)
    | Mp3_Seek \<Rightarrow> do { s \<leftarrow> mp3_decoder_seek_handler env s; Some (COM_FSM_HOLD_STATE, s) }
    | Mp3_Run_Poll \<Rightarrow> mp3_decoder_run_poll env s)"

definition mp3_exec :: "('m, 'c, 'w) mp3_env \<Rightarrow> (mp3_action, ('m, 'c, 'w) mp3_state) fsm_exec" where
  "mp3_exec env a s = do { (st, u) \<leftarrow> mp3_run env a (snd s); Some (st, fst s, u) }"

definition mp3_lookup :: "mp3_action com_fsm_lookup list" where
  "mp3_lookup = [
     \<lparr>lk_event = MP3_DECODER_EVENT_START, lk_state = MP3_DECODER_STA_IDLE, lk_action = Mp3_Start, lk_timeout = 0\<rparr>,
     \<lparr>lk_event = MP3_DECODER_EVENT_STOP, lk_state = MP3_DECODER_STA_RUN, lk_action = Mp3_Stop, lk_timeout = 0\<rparr>,
     \<lparr>lk_event = MP3_DECODER_EVENT_STOP, lk_state = MP3_DECODER_STA_PAUSE, lk_action = Mp3_Stop, lk_timeout = 0\<rparr>,
     \<lparr>lk_event = MP3_DECODER_EVENT_PAUSE, lk_state = MP3_DECODER_STA_RUN, lk_action = Mp3_Pause, lk_timeout = 0\<rparr>,
     \<lparr>lk_event = MP3_DECODER_EVENT_SEEK, lk_state = MP3_DECODER_STA_RUN, lk_action = Mp3_Seek, lk_timeout = 0\<rparr>,
     \<lparr>lk_event = MP3_DECODER_EVENT_SEEK, lk_state = MP3_DECODER_STA_PAUSE, lk_action = Mp3_Seek, lk_timeout = 0\<rparr>,
     \<lparr>lk_event = MP3_DECODER_EVENT_RESUME, lk_state = MP3_DECODER_STA_PAUSE, lk_action = Mp3_Resume, lk_timeout = 0\<rparr>,
     \<lparr>lk_event = COM_FSM_EVENT_NONE, lk_state = MP3_DECODER_STA_RUN, lk_action = Mp3_Run_Poll, lk_timeout = 0\<rparr>]"

definition mp3_decoder_init ::
  "allocator \<Rightarrow> nat \<Rightarrow> nat \<times> mp3_action com_fsm option \<times> ('m, 'c) mp3_decoder" where
  "mp3_decoder_init mal k =
     (let (k', f) = com_fsm_create_inner mal k mp3_lookup None None
      in (k', f, \<lparr>md_input_done = False, md_output_done = False, md_seek_position = 0, md_mem = None,
            md_input = None, md_error_cb = None, md_seek = None, md_output = None\<rparr>))"

section \<open>The interface\<close>

type_synonym ('m, 'c, 'w) mp3_sys = "mp3_action com_fsm \<times> ('m, 'c, 'w) mp3_state"

definition mp3_decoder_start ::
  "('m, 'c, 'w) mp3_sys \<Rightarrow> ('m, 'c, 'w) mp3_sys option" where
  "mp3_decoder_start s = com_fsm_set_event Some
     (fst s, (fst (snd s))\<lparr>md_input_done := False, md_output_done := False\<rparr>, snd (snd s))
     MP3_DECODER_EVENT_START 0"

definition mp3_decoder_stop ::
  "(('m, 'c, 'w) mp3_sys \<Rightarrow> ('m, 'c, 'w) mp3_sys option) \<Rightarrow> ('m, 'c, 'w) mp3_sys \<Rightarrow> ('m, 'c, 'w) mp3_sys option" where
  "mp3_decoder_stop serve s = com_fsm_set_event serve s MP3_DECODER_EVENT_STOP 30000"

definition mp3_decoder_pause ::
  "(('m, 'c, 'w) mp3_sys \<Rightarrow> ('m, 'c, 'w) mp3_sys option) \<Rightarrow> ('m, 'c, 'w) mp3_sys \<Rightarrow> bool \<Rightarrow> ('m, 'c, 'w) mp3_sys option" where
  "mp3_decoder_pause serve s from_isr =
     (if from_isr then do { f \<leftarrow> com_fsm_set_event_from_isr (Some (fst s)) MP3_DECODER_EVENT_PAUSE; Some (f, snd s) }
      else com_fsm_set_event serve s MP3_DECODER_EVENT_PAUSE 30000)"

definition mp3_decoder_resume ::
  "(('m, 'c, 'w) mp3_sys \<Rightarrow> ('m, 'c, 'w) mp3_sys option) \<Rightarrow> ('m, 'c, 'w) mp3_sys \<Rightarrow> bool \<Rightarrow> ('m, 'c, 'w) mp3_sys option" where
  "mp3_decoder_resume serve s from_isr =
     (if from_isr then do { f \<leftarrow> com_fsm_set_event_from_isr (Some (fst s)) MP3_DECODER_EVENT_RESUME; Some (f, snd s) }
      else com_fsm_set_event serve s MP3_DECODER_EVENT_RESUME 30000)"

definition mp3_decoder_seek ::
  "(('m, 'c, 'w) mp3_sys \<Rightarrow> ('m, 'c, 'w) mp3_sys option) \<Rightarrow> ('m, 'c, 'w) mp3_sys \<Rightarrow> real \<Rightarrow> ('m, 'c, 'w) mp3_sys option" where
  "mp3_decoder_seek serve s pos = com_fsm_set_event serve
     (fst s, (fst (snd s))\<lparr>md_seek_position := pos\<rparr>, snd (snd s)) MP3_DECODER_EVENT_SEEK 30000"

definition mp3_decoder_deinit :: "('m, 'c, 'w) mp3_sys \<Rightarrow> ('m, 'c, 'w) mp3_sys option" where
  "mp3_decoder_deinit s = com_fsm_delete s"

definition mp3_decoder_set_input_done :: "('m, 'c) mp3_decoder \<Rightarrow> ('m, 'c) mp3_decoder" where
  "mp3_decoder_set_input_done d = d\<lparr>md_input_done := True\<rparr>"

definition mp3_decoder_is_output_done :: "('m, 'c) mp3_decoder \<Rightarrow> bool" where
  "mp3_decoder_is_output_done d = md_output_done d"

definition mp3_decoder_is_pause :: "mp3_action com_fsm option \<Rightarrow> bool" where
  "mp3_decoder_is_pause f = (com_fsm_get_state f = MP3_DECODER_STA_PAUSE)"

definition mp3_api :: "('m, 'c, 'w) mp3_state \<Rightarrow> ('m, 'c, 'w) mp3_state \<Rightarrow> bool" where
  "mp3_api s s' \<longleftrightarrow> md_mem (fst s') = md_mem (fst s)"

section \<open>Samples are 16-bit values\<close>

lemma scale_range: "- 32768 \<le> scale x \<and> scale x \<le> 32767"
  by (auto simp: scale_def MAD_F_ONE_def Let_def)

text \<open>Away from the largest values, where the rounding wraps around, scaling is rounding to the
  nearest multiple of \<open>2 ^ 13\<close> and clipping.\<close>

lemma scale_round:
  assumes "- 2147483648 \<le> x" "x < 2147479552"
  shows "scale x = max (- 32768) (min 32767 ((x + 4096) div 8192))"
proof -
  have "sint (word_of_int (x + 4096) :: u32) = x + 4096"
    by (subst sint_sbintrunc', rule signed_take_bit_int_eq_self) (use assms in simp_all)
  then have s: "scale x = (if MAD_F_ONE \<le> x + 4096 then MAD_F_ONE - 1
      else if x + 4096 < - MAD_F_ONE then - MAD_F_ONE else x + 4096) div 8192"
    by (simp add: scale_def Let_def)
  consider "268435456 \<le> x + 4096" | "x + 4096 < - 268435456"
    | "- 268435456 \<le> x + 4096" "x + 4096 < 268435456" by linarith
  then show ?thesis
  proof cases
    case 1
    then have "32768 \<le> (x + 4096) div 8192" by simp
    with 1 show ?thesis by (simp add: s MAD_F_ONE_def)
  next
    case 2
    then have "(x + 4096) div 8192 < - 32768" by simp
    with 2 show ?thesis by (simp add: s MAD_F_ONE_def)
  next
    case 3
    then have "- 32768 \<le> (x + 4096) div 8192" "(x + 4096) div 8192 \<le> 32767" by simp_all
    with 3 show ?thesis by (simp add: s MAD_F_ONE_def)
  qed
qed

text \<open>For those largest values the result is the most negative sample.\<close>

lemma scale_wraps: "scale 2147483647 = - 32768"
  by code_simp

section \<open>The PCM bytes of a frame\<close>

definition sample_bytes :: "int \<Rightarrow> u8 list" where
  "sample_bytes v = [word_of_int v, word_of_int (v div 2 ^ 8)]"

definition frame_pcm :: "'m mad \<Rightarrow> u8 list" where
  "frame_pcm m = concat (map (\<lambda>i. concat (map (\<lambda>j. sample_bytes (scale (pcm_samples m j i)))
     [0..<unat (pcm_channels m)])) [0..<unat (pcm_length m)])"

lemma length_frame_pcm: "length (frame_pcm m) = 2 * unat (pcm_channels m) * unat (pcm_length m)"
proof -
  have "length (concat (map (\<lambda>j. sample_bytes (g j)) [0..<n])) = 2 * n" for g n
    by (induction n) (simp_all add: sample_bytes_def)
  then have "length (frame_pcm m) = sum_list (map (\<lambda>i. 2 * unat (pcm_channels m)) [0..<unat (pcm_length m)])"
    by (simp add: frame_pcm_def length_concat o_def)
  then show ?thesis by (simp add: sum_list_triv)
qed

text \<open>An empty well-formed buffer of a given capacity that holds only what was queued since.\<close>

definition filling :: "nat \<Rightarrow> direct_buffer \<Rightarrow> bool" where
  "filling n db \<longleftrightarrow> direct_wf db \<and> direct_cap db = n \<and> db_read db = 0"

lemma filling_push:
  assumes "filling n db" "length (direct_contents db) < n"
  shows "\<exists>db'. direct_buffer_push_one db y = Some db' \<and> filling n db' \<and>
    direct_contents db' = direct_contents db @ [y]"
proof -
  from assms(1) have wf: "direct_wf db" by (simp add: filling_def)
  from direct_wfE [OF wf] obtain m r w where d: "db_buffer db = Some m" "db_read db = int r"
    "db_write db = int w" "db_size db = int (length m)" "r \<le> w" "w \<le> length m" "length m \<le> 2147483647"
    "direct_contents db = drop r (take w m)" .
  with assms have "direct_buffer_get_free_count db = Some (int (n - w))" "0 < int (n - w)"
    by (auto simp: direct_buffer_get_free_count_def filling_def direct_cap_def c_arith of_nat_diff)
  from direct_push_one [OF wf this] obtain db' where p: "direct_buffer_push_one db y = Some db'"
    "direct_wf db'" "direct_contents db' = direct_contents db @ [y]" "direct_cap db' = direct_cap db"
    by blast
  moreover have "db_read db' = db_read db"
    using p(1) by (auto simp: direct_buffer_push_one_def dest!: bind_eq_SomeD)
  ultimately show ?thesis using assms(1) by (auto simp: filling_def)
qed

lemma filling_sample:
  assumes "filling n db" "length (direct_contents db) + length (sample_bytes v) \<le> n"
  shows "\<exists>db'. push_sample v db = Some db' \<and> filling n db' \<and>
    direct_contents db' = direct_contents db @ sample_bytes v"
proof -
  from filling_push [OF assms(1), of "word_of_int v"] assms(2) obtain db1 where 1:
    "direct_buffer_push_one db (word_of_int v) = Some db1" "filling n db1"
    "direct_contents db1 = direct_contents db @ [word_of_int v]" by (auto simp: sample_bytes_def)
  from filling_push [OF 1(2), of "word_of_int (v div 2 ^ 8)"] assms(2) 1 show ?thesis
    by (auto simp: push_sample_def sample_bytes_def)
qed

lemma push_frame_pcm:
  assumes "filling n db" "direct_contents db = []" "length (frame_pcm m) \<le> n"
  shows "\<exists>db'. push_frame m db = Some db' \<and> filling n db' \<and> direct_contents db' = frame_pcm m"
proof -
  let ?row = "\<lambda>i. each [0..<unat (pcm_channels m)] (\<lambda>j. push_sample (scale (pcm_samples m j i)))"
  let ?g = "\<lambda>i. concat (map (\<lambda>j. sample_bytes (scale (pcm_samples m j i))) [0..<unat (pcm_channels m)])"
  have row: "\<exists>s'. ?row i s = Some s' \<and> filling n s' \<and> direct_contents s' = direct_contents s @ ?g i"
    if "filling n s" "length (direct_contents s) + length (?g i) \<le> n" for i s
    by (rule each_appends [where P = "filling n" and con = direct_contents and N = n])
      (use filling_sample that in blast)+
  have "\<exists>s'. each [0..<unat (pcm_length m)] ?row db = Some s' \<and> filling n s' \<and>
      direct_contents s' = direct_contents db @ concat (map ?g [0..<unat (pcm_length m)])"
    by (rule each_appends [where P = "filling n" and con = direct_contents and N = n])
      (use row assms in \<open>auto simp: frame_pcm_def\<close>)
  then show ?thesis using assms(2) by (simp add: push_frame_def frame_pcm_def)
qed

text \<open>Without room the loop writes past the buffer.\<close>

lemma push_sample_count:
  assumes "push_sample v db = Some db'" "direct_wf db \<and> db_size db = n"
  shows "(direct_wf db' \<and> db_size db' = n) \<and> db_write db' = db_write db + 2"
proof -
  have one: "direct_buffer_push_one db y = Some db' \<Longrightarrow> db_size db' = db_size db \<and> db_write db' = db_write db + 1"
    for db y db' by (auto simp: direct_buffer_push_one_def dest!: bind_eq_SomeD c_int_SomeD)
  from assms(1) obtain db1 where "direct_buffer_push_one db (word_of_int v) = Some db1"
    "direct_buffer_push_one db1 (word_of_int (v div 2 ^ 8)) = Some db'"
    by (auto simp: push_sample_def dest!: bind_eq_SomeD)
  with assms(2) one show ?thesis by (auto dest: direct_push_one_wf)
qed

lemma push_frame_count:
  assumes "push_frame m db = Some db'" "direct_wf db"
  shows "direct_wf db' \<and> db_size db' = db_size db \<and>
    db_write db' = db_write db + int (length (frame_pcm m))"
proof -
  let ?P = "\<lambda>x. direct_wf x \<and> db_size x = db_size db"
  have row: "?P s' \<and> db_write s' = db_write s + 2 * int (unat (pcm_channels m))"
    if "each [0..<unat (pcm_channels m)] (\<lambda>j. push_sample (scale (pcm_samples m j i))) s = Some s'" "?P s"
    for i s s'
    using each_count [where P = ?P and \<mu> = db_write and k = 2, OF push_sample_count that] by simp
  have "?P db' \<and> db_write db' = db_write db + (2 * int (unat (pcm_channels m))) * int (unat (pcm_length m))"
    using each_count [where P = ?P and \<mu> = db_write and k = "2 * int (unat (pcm_channels m))",
        OF row assms(1) [unfolded push_frame_def]] assms(2) by simp
  then show ?thesis by (simp add: length_frame_pcm)
qed

lemma push_frame_overflow:
  assumes "direct_wf db" "direct_cap db < length (frame_pcm m)"
  shows "push_frame m db = None"
proof (rule ccontr)
  assume "push_frame m db \<noteq> None"
  then obtain db' where p: "push_frame m db = Some db'" by auto
  from push_frame_count [OF this assms(1)]
  have "direct_wf db'" "db_size db' = db_size db" "db_write db' = db_write db + int (length (frame_pcm m))"
    by auto
  with assms show False by (auto simp: direct_wf_def direct_cap_def)
qed

section \<open>Output\<close>

text \<open>A consumer takes between none and all of the bytes it is offered.\<close>

definition fair_output :: "('m, 'c, 'w) mp3_env \<Rightarrow> bool" where
  "fair_output env \<longleftrightarrow> (\<forall>cb info bs n w. 0 \<le> n \<longrightarrow>
     0 \<le> fst (call_output env cb info bs n w) \<and> fst (call_output env cb info bs n w) \<le> n)"

text \<open>The handler offers the queued bytes from the oldest on, drops those taken, and reports whether
  none is left.\<close>

lemma output_handler:
  assumes "direct_wf (mm_output mem)" "fair_output env" "md_output d = Some cb"
    "0 \<le> mm_output_total mem" "mm_output_total mem + int (length (direct_contents (mm_output mem))) \<le> 2147483647"
  defines "bs \<equiv> direct_contents (mm_output mem)"
  shows "\<exists>n db w'. mp3_decoder_output_handler env d mem w = Some (drop n bs = [],
      mem\<lparr>mm_output := db, mm_output_total := mm_output_total mem + int n\<rparr>, w') \<and>
    n \<le> length bs \<and> direct_wf db \<and> direct_contents db = drop n bs \<and>
    direct_cap db = direct_cap (mm_output mem) \<and>
    (bs \<noteq> [] \<longrightarrow> call_output env cb (mm_info mem) bs (int (length bs)) w = (int n, w'))"
proof -
  let ?db = "mm_output mem"
  from direct_wfE [OF assms(1)] obtain m r wr where d: "db_buffer ?db = Some m" "db_read ?db = int r"
    "db_write ?db = int wr" "db_size ?db = int (length m)" "r \<le> wr" "wr \<le> length m"
    "length m \<le> 2147483647" "direct_contents ?db = drop r (take wr m)" .
  have bs: "bs = drop r (take wr m)" "length bs = wr - r" using d by (simp_all add: bs_def)
  have count: "direct_buffer_get_count ?db = Some (int (wr - r))"
    using d by (simp add: direct_buffer_get_count_def c_arith of_nat_diff)
  show ?thesis
  proof (cases "wr = r")
    case True
    with bs have "bs = []" by simp
    with True count assms(1) show ?thesis
      by (intro exI [of _ 0] exI [of _ ?db] exI [of _ w])
        (simp add: mp3_decoder_output_handler_def bs_def [symmetric])
  next
    case False
    with d have lt: "r < wr" by simp
    obtain n' w' where c: "call_output env cb (mm_info mem) bs (int (length bs)) w = (n', w')" by fastforce
    have "0 \<le> n'" "n' \<le> int (length bs)"
      using assms(2) [unfolded fair_output_def, rule_format, of "int (length bs)" cb "mm_info mem" bs w] c
      by simp_all
    then obtain n where n: "n' = int n" "n \<le> length bs" by (auto elim: nonneg_int_cases)
    let ?db1 = "?db\<lparr>db_read := int (r + n)\<rparr>"
    have rd: "mem_read m (int r) (int (wr - r)) = Some bs"
      using d bs by (simp add: mem_read_ok drop_take nat_diff_distrib)
    have pop: "direct_buffer_pop_only ?db n' = Some ?db1"
      using d bs n by (simp add: direct_buffer_pop_only_def c_arith)
    have left: "direct_buffer_get_count ?db1 = Some (int (wr - r - n))"
      using d bs n by (simp add: direct_buffer_get_count_def c_arith of_nat_diff)
    have wf1: "direct_wf ?db1" "direct_contents ?db1 = drop n bs" "direct_cap ?db1 = direct_cap ?db"
      using d bs n by (auto simp: direct_wf_def direct_contents_def direct_cap_def nat_int_add add.commute)
    have tot: "c_int (mm_output_total mem + n') = Some (mm_output_total mem + int n)"
      using assms(4,5) n by (simp add: c_arith bs_def)
    have res: "mp3_decoder_output_handler env d mem w = Some (if 0 < int (wr - r - n)
        then (False, mem\<lparr>mm_output := ?db1, mm_output_total := mm_output_total mem + int n\<rparr>, w')
        else (True, mem\<lparr>mm_output := direct_buffer_clear ?db1,
          mm_output_total := mm_output_total mem + int n\<rparr>, w'))"
      using lt count rd pop left tot c d(1,2) bs(2) assms(3)
      by (simp add: mp3_decoder_output_handler_def Let_def)
    have c0: "(0 < int (wr - r - n)) = (drop n bs \<noteq> [])" using bs(2) by auto
    have ne: "call_output env cb (mm_info mem) bs (int (length bs)) w = (int n, w')"
      using c n by simp
    let ?db2 = "if drop n bs = [] then direct_buffer_clear ?db1 else ?db1"
    have h: "mp3_decoder_output_handler env d mem w = Some (drop n bs = [],
        mem\<lparr>mm_output := ?db2, mm_output_total := mm_output_total mem + int n\<rparr>, w')"
      unfolding res c0 by (cases "drop n bs = []") simp_all
    have "direct_wf ?db2 \<and> direct_contents ?db2 = drop n bs \<and> direct_cap ?db2 = direct_cap ?db"
      using direct_clear [OF wf1(1)] wf1 by (cases "drop n bs = []") simp_all
    with h n(2) ne show ?thesis by blast
  qed
qed

section \<open>Memory of the machine\<close>

text \<open>Decoder memory is held only outside the idle state. With a correct allocator and a fair
  consumer its output buffer stays well formed and its input block keeps its size.\<close>

definition mem_wf :: "'m mp3_mem \<Rightarrow> bool" where
  "mem_wf mem \<longleftrightarrow> direct_wf (mm_output mem) \<and> length (mm_input mem) = 10240"

definition mp3_sane :: "('m, 'c, 'w) mp3_env \<Rightarrow> bool" where
  "mp3_sane env \<longleftrightarrow> allocator_ok (mp3_alloc env) \<and> fair_output env"

definition mp3_inv :: "('m, 'c, 'w) mp3_env \<Rightarrow> u32 \<Rightarrow> ('m, 'c, 'w) mp3_state \<Rightarrow> bool" where
  "mp3_inv env st s \<longleftrightarrow>
     st \<in> {MP3_DECODER_STA_IDLE, MP3_DECODER_STA_RUN, MP3_DECODER_STA_PAUSE} \<and>
     (st = MP3_DECODER_STA_IDLE \<longrightarrow> md_mem (fst s) = None) \<and>
     (mp3_sane env \<longrightarrow> (\<forall>mem. md_mem (fst s) = Some mem \<longrightarrow> mem_wf mem))"

lemma output_handler_wf:
  assumes "mp3_decoder_output_handler env d mem w = Some (go, mem', w')" "mem_wf mem" "fair_output env"
  shows "mem_wf mem'"
proof -
  let ?db = "mm_output mem"
  from assms(1) consider "mem' = mem"
    | count n db where "direct_buffer_get_count ?db = Some count" "0 < count" "0 \<le> n" "n \<le> count"
      "direct_buffer_pop_only ?db n = Some db" "mm_input mem' = mm_input mem"
      "mm_output mem' = db \<or> mm_output mem' = direct_buffer_clear db"
    using assms(3)
    by (auto simp: mp3_decoder_output_handler_def fair_output_def Let_def dest!: bind_eq_SomeD
        split: if_splits prod.splits) (metis fst_conv less_imp_le not_le)+
  then show ?thesis
  proof cases
    case 2
    then have "direct_wf db" using assms(2)
      by (auto simp: mem_wf_def direct_wf_def direct_buffer_pop_only_def direct_buffer_get_count_def
          dest!: bind_eq_SomeD c_int_SomeD)
    with 2 direct_clear [of db] assms(2) show ?thesis by (auto simp: mem_wf_def)
  qed (use assms(2) in simp)
qed

lemma input_step_wf:
  assumes "mp3_input_step env d mem w = Some (st, d', mem', w')" "mem_wf mem"
  shows "mem_wf mem' \<and> md_mem d' = md_mem d \<and> (st = None \<or> st = Some MP3_DECODER_STA_PAUSE)"
  using assms
  by (auto simp: mp3_input_step_def mem_wf_def Let_def dest!: bind_eq_SomeD mem_write_length
      split: if_splits option.splits prod.splits)

lemma tag_step_wf: "mp3_tag_step mem = Some mem' \<Longrightarrow> mem_wf mem \<Longrightarrow> mem_wf mem'"
  by (auto simp: mp3_tag_step_def mem_wf_def dest!: bind_eq_SomeD split: if_splits)

lemma decode_step_wf:
  "mp3_decode_step env mem = Some (st, mem') \<Longrightarrow> mem_wf mem \<Longrightarrow>
     mem_wf mem' \<and> st \<in> {None, Some COM_FSM_HOLD_STATE, Some MP3_DECODER_STA_PAUSE}"
  by (auto simp: mp3_decode_step_def mem_wf_def Let_def dest!: bind_eq_SomeD split: if_splits prod.splits)

lemma resize_wf:
  assumes "direct_buffer_resize mal k db n = Some (v, k', db')" "direct_wf db" "allocator_ok mal"
    "n \<le> 2147483647"
  shows "direct_wf db'"
proof (cases "0 < n")
  case True
  from direct_resize [OF assms(2,3) True assms(4), of k] assms(1) show ?thesis by auto
next
  case False
  with assms(2) have "\<not> db_size db < n" by (auto simp: direct_wf_def)
  with assms(1,2) show ?thesis by (simp add: direct_buffer_resize_def)
qed

lemma synth_step_wf:
  assumes "mp3_synth_step env k mem = Some (k', mem')" "mem_wf mem" "allocator_ok (mp3_alloc env)"
  shows "mem_wf mem'"
proof -
  have le: "int_of_u32 x \<le> 2147483647" for x
    unfolding int_of_u32_def using sint_lt [of x] by simp
  have m: "mm_output (mp3_synth env mem) = mm_output mem" "mm_input (mp3_synth env mem) = mm_input mem"
    by (simp_all add: mp3_synth_def Let_def)
  from assms(1) obtain z v db db1 where
    r: "direct_buffer_resize (mp3_alloc env) k (mm_output mem) (int_of_u32 (word_of_int (z * 2))) = Some (v, k', db)"
    "push_frame (mm_mad (mp3_synth env mem)) (direct_buffer_clear db) = Some db1"
    "mem' = (mp3_synth env mem)\<lparr>mm_output := db1\<rparr>"
    unfolding mp3_synth_step_def Let_def m by (auto simp: bind_eq_Some_conv)
  have "direct_wf db" using resize_wf [OF r(1) _ assms(3) le] assms(2) by (simp add: mem_wf_def)
  with push_frame_count [OF r(2)] direct_clear [of db] have "direct_wf db1" by simp
  with r(3) assms(2) m show ?thesis by (simp add: mem_wf_def)
qed

lemma run_poll_wf:
  assumes "mp3_decoder_run_poll env (d, k, w) = Some (st, d', k', w')"
  shows "st \<in> {COM_FSM_HOLD_STATE, MP3_DECODER_STA_PAUSE} \<and>
    (mp3_sane env \<longrightarrow> (\<forall>mem. md_mem d = Some mem \<longrightarrow> mem_wf mem) \<longrightarrow>
      (\<forall>mem. md_mem d' = Some mem \<longrightarrow> mem_wf mem))"
proof -
  from assms obtain mem go mem1 w1 where 1: "md_mem d = Some mem"
    "mp3_decoder_output_handler env d mem (mp3_decoder_error_handler env d w) = Some (go, mem1, w1)"
    by (auto simp: mp3_decoder_run_poll_def dest!: bind_eq_SomeD)
  show ?thesis
  proof (cases go)
    case False
    with 1 assms show ?thesis
      by (auto simp: mp3_decoder_run_poll_def mp3_sane_def dest: output_handler_wf)
  next
    case True
    with 1 assms obtain st2 d2 mem2 w2 where 2: "mp3_input_step env d mem1 w1 = Some (st2, d2, mem2, w2)"
      by (auto simp: mp3_decoder_run_poll_def dest!: bind_eq_SomeD)
    have s2: "st2 = None \<or> st2 = Some MP3_DECODER_STA_PAUSE"
      using 2 by (auto simp: mp3_input_step_def Let_def dest!: bind_eq_SomeD split: if_splits option.splits prod.splits)
    show ?thesis
    proof (cases st2)
      case (Some st')
      with 1 2 True s2 assms show ?thesis
        by (auto simp: mp3_decoder_run_poll_def mp3_sane_def dest: output_handler_wf input_step_wf)
    next
      case None
      with 1 2 True assms obtain mem3 st4 mem4 where 3: "mp3_tag_step mem2 = Some mem3"
        "mp3_decode_step env mem3 = Some (st4, mem4)"
        by (auto simp: mp3_decoder_run_poll_def dest!: bind_eq_SomeD)
      have s4: "st4 \<in> {None, Some COM_FSM_HOLD_STATE, Some MP3_DECODER_STA_PAUSE}"
        using 3(2) by (auto simp: mp3_decode_step_def Let_def dest!: bind_eq_SomeD split: if_splits prod.splits)
      have w4: "mem_wf mem4" if "mp3_sane env" "mem_wf mem"
      proof -
        from that have f: "fair_output env" by (simp add: mp3_sane_def)
        from output_handler_wf [OF 1(2) that(2) f] have "mem_wf mem1" .
        with input_step_wf [OF 2] have "mem_wf mem2" by simp
        with tag_step_wf [OF 3(1)] have "mem_wf mem3" by simp
        with decode_step_wf [OF 3(2)] show ?thesis by simp
      qed
      show ?thesis
      proof (cases st4)
        case (Some st')
        with 1 2 3 True None assms have "st = st'" "md_mem d' = Some mem4"
          by (auto simp: mp3_decoder_run_poll_def)
        with Some s4 w4 1(1) show ?thesis by auto
      next
        case None
        with 1 2 3 True \<open>st2 = None\<close> assms obtain k5 mem5 go6 mem6 w6 where
          4: "mp3_synth_step env k mem4 = Some (k5, mem5)"
          "mp3_decoder_output_handler env d2 mem5 w2 = Some (go6, mem6, w6)"
          "st = (if go6 then COM_FSM_HOLD_STATE else MP3_DECODER_STA_PAUSE)" "md_mem d' = Some mem6"
          by (auto simp: mp3_decoder_run_poll_def dest!: bind_eq_SomeD)
        have "mem_wf mem6" if "mp3_sane env" "mem_wf mem"
        proof -
          from that have f: "fair_output env" "allocator_ok (mp3_alloc env)" by (simp_all add: mp3_sane_def)
          from synth_step_wf [OF 4(1) w4 [OF that] f(2)] have "mem_wf mem5" .
          then show ?thesis using output_handler_wf [OF 4(2) _ f(1)] by simp
        qed
        with 1(1) 4 show ?thesis by auto
      qed
    qed
  qed
qed

lemma alloc_memory_wf:
  assumes "mp3_decoder_alloc_memory env k mem = (k', Some mem')" "allocator_ok (mp3_alloc env)"
  shows "mem_wf mem'"
  using assms direct_create [OF assms(2)]
  by (auto simp: mp3_decoder_alloc_memory_def mp3_decoder_dealloc_memory_def mem_wf_def Let_def
      split: if_splits prod.splits option.splits)

lemma mp3_step:
  assumes "mp3_inv env st0 u" "(ev, st0, a) \<in> set (map row_key mp3_lookup)" "mp3_run env a u = Some (st, u')"
  shows "mp3_inv env (if st = COM_FSM_HOLD_STATE then st0 else st) u'"
proof -
  obtain d k w d' k' w' where u: "u = (d, k, w)" "u' = (d', k', w')" by (cases u; cases u')
  have hold: "MP3_DECODER_STA_PAUSE \<noteq> COM_FSM_HOLD_STATE" "MP3_DECODER_STA_RUN \<noteq> COM_FSM_HOLD_STATE"
    "MP3_DECODER_STA_IDLE \<noteq> COM_FSM_HOLD_STATE" "MP3_DECODER_STA_RUN \<noteq> MP3_DECODER_STA_IDLE"
    "MP3_DECODER_STA_PAUSE \<noteq> MP3_DECODER_STA_IDLE"
    by (simp_all add: mp3_states COM_FSM_HOLD_STATE_def)
  from assms(2) consider "a = Mp3_Start" | "a = Mp3_Stop" | "a = Mp3_Pause" "st0 = MP3_DECODER_STA_RUN"
    | "a = Mp3_Resume" "st0 = MP3_DECODER_STA_PAUSE" | "a = Mp3_Seek" "st0 \<noteq> MP3_DECODER_STA_IDLE"
    | "a = Mp3_Run_Poll" "st0 = MP3_DECODER_STA_RUN"
    using hold by (auto simp: mp3_lookup_def row_key_def)
  then show ?thesis
  proof cases
    case 1
    with assms(3) hold show ?thesis
      by (auto simp: mp3_run_def mp3_decoder_start_action_def mp3_inv_def mp3_sane_def u Let_def
          dest: alloc_memory_wf split: prod.splits)
  next
    case 2
    with assms(3) hold show ?thesis
      by (auto simp: mp3_run_def mp3_decoder_stop_action_def mp3_inv_def u
          mp3_decoder_dealloc_memory_def split: option.splits)
  next
    case 5
    with assms(3) have sk: "mp3_decoder_seek_handler env u = Some u'" "st = COM_FSM_HOLD_STATE"
      by (auto simp: mp3_run_def bind_eq_Some_conv)
    from sk(1) consider "u' = u" | mem where "md_mem d = Some mem"
      "md_mem d' = Some (mem\<lparr>mm_output := direct_buffer_clear (mm_output mem)\<rparr>)"
      by (auto simp: mp3_decoder_seek_handler_def u bind_eq_Some_conv split: option.splits)
    then show ?thesis
    proof cases
      case 2
      with 5 sk(2) assms(1) direct_clear [of "mm_output mem"] show ?thesis
        by (simp add: mp3_inv_def u mem_wf_def)
    qed (use sk(2) assms(1) in simp)
  next
    case 6
    with assms(3) have "mp3_decoder_run_poll env (d, k, w) = Some (st, d', k', w')"
      by (simp add: mp3_run_def u)
    note r = run_poll_wf [OF this]
    have w: "mp3_sane env \<longrightarrow> (\<forall>mem. md_mem d' = Some mem \<longrightarrow> mem_wf mem)"
      using r assms(1) unfolding mp3_inv_def u fst_conv by blast
    from r have "st = COM_FSM_HOLD_STATE \<or> st = MP3_DECODER_STA_PAUSE" by simp
    then show ?thesis using w hold 6(2) by (elim disjE) (simp_all add: mp3_inv_def u)
  qed (use assms hold in \<open>auto simp: mp3_run_def mp3_inv_def u\<close>)
qed

interpretation mp3: fsm_safe "mp3_exec env" "map row_key mp3_lookup" mp3_api "mp3_inv env"
proof unfold_locales
  fix f f' and u u' :: "('a, 'b, 'c) mp3_state" and ev a st
  assume "mp3_inv env (cur_state f) u" "(ev, cur_state f, a) \<in> set (map row_key mp3_lookup)"
    "mp3_exec env a (f, u) = Some (st, f', u')"
  moreover from this(3) have "f' = f" "mp3_run env a u = Some (st, u')"
    by (auto simp: mp3_exec_def dest!: bind_eq_SomeD)
  ultimately show "same_machine f f' \<and> mp3_inv env (if st = COM_FSM_HOLD_STATE then cur_state f else st) u'"
    by (simp add: mp3_step)
qed (auto simp: mp3_inv_def mp3_api_def)

text \<open>After a failed allocation the running machine has no memory, and its next poll uses it.\<close>

lemma run_without_memory: "md_mem d = None \<Longrightarrow> mp3_decoder_run_poll env (d, k, w) = None"
  by (simp add: mp3_decoder_run_poll_def)

end
