(* ===== verification/Samplerate_Convert.thy ===== *)
theory Samplerate_Convert
  imports Ring_Buffer
begin

text \<open>
  The sample-rate converter of src/samplerate_convert.c as built for two output channels: it widens
  16-bit input frames into a float buffer, lets the libsamplerate library resample them and pushes
  the result as bytes into the player's ring buffer. Floats (type \<open>'f\<close>) with their two
  conversions and the library are the parameter \<open>src_env\<close>. The lemmas show that the
  conversion loop ends and stays inside its three buffers for mono and stereo input when the
  library keeps its contract, that it appends to the ring buffer and never overfills it, and that
  input with more than two channels runs over the float buffer.
\<close>

definition SAMPLERATE_CONVERT_INPUT_SIZE :: int where "SAMPLERATE_CONVERT_INPUT_SIZE = 1024"
definition SAMPLERATE_CONVERT_OUTPUT_SIZE :: int where "SAMPLERATE_CONVERT_OUTPUT_SIZE = 2048"
definition dst_channels :: int where "dst_channels = 2"

lemmas src_consts = SAMPLERATE_CONVERT_INPUT_SIZE_def SAMPLERATE_CONVERT_OUTPUT_SIZE_def dst_channels_def

text \<open>The library: its state, and a call that returns the new state, the frames used, the frames
  generated and the floats it stored; a float converts to \<open>int16_t\<close> only when in range.\<close>

record ('f, 's, 'r) src_env =
  src_new :: "'s option"
  src_process :: "'s \<Rightarrow> 'f list \<Rightarrow> int \<Rightarrow> int \<Rightarrow> 'r \<Rightarrow> 's \<times> int \<times> int \<times> 'f list"
  float_of_int :: "int \<Rightarrow> 'f"
  int16_of_float :: "'f \<Rightarrow> int option"

record ('f, 's) samplerate_convert =
  sr_state :: "'s option"
  sr_input_frames :: int
  sr_input :: "'f list"

definition samplerate_convert_alloc :: "allocator \<Rightarrow> nat \<Rightarrow> nat \<Rightarrow> 'f \<Rightarrow> ('f, 's) samplerate_convert option" where
  "samplerate_convert_alloc mal k sz zero =
     (if mal k sz = None then None
      else Some \<lparr>sr_state = None, sr_input_frames = 0, sr_input = replicate 1024 zero\<rparr>)"

definition samplerate_convert_dealloc :: "('f, 's) samplerate_convert option \<Rightarrow> ('f, 's) samplerate_convert option" where
  "samplerate_convert_dealloc s = None"

section \<open>Input\<close>

text \<open>The little-endian 16-bit sample at an index.\<close>

definition s16_at :: "u8 list \<Rightarrow> int \<Rightarrow> int option" where
  "s16_at src i = do { d \<leftarrow> mem_read src i 2; Some (sint (le_word d :: u16)) }"

text \<open>\<open>dst[count++] = v\<close>, the array from index \<open>off\<close> of the float buffer on.\<close>

definition put_float :: "nat \<Rightarrow> 'f \<Rightarrow> 'f list \<times> nat \<Rightarrow> ('f list \<times> nat) option" where
  "put_float off v s = (if off + snd s < length (fst s)
     then Some ((fst s)[off + snd s := v], snd s + 1) else None)"

text \<open>The frame count and bytes consumed, and the float buffer; \<open>src\<close> is the source from the
  current position on.\<close>

definition samplerate_convert_input_stereo ::
  "('f, 's, 'r) src_env \<Rightarrow> u8 list \<Rightarrow> int \<Rightarrow> 'f list \<Rightarrow> nat \<Rightarrow> int \<Rightarrow> int \<Rightarrow> (int \<times> int \<times> 'f list) option" where
  "samplerate_convert_input_stereo env src src_len dst off dst_len channels = do {
     let frame_size = 2 * channels;
     fc \<leftarrow> c_div src_len frame_size;
     let frame_count = (if dst_len < fc then dst_len else fc);
     (dst', _) \<leftarrow> each [0..<nat frame_count] (\<lambda>i. each [0..<nat channels] (\<lambda>j s. do {
         v \<leftarrow> s16_at src (int i * frame_size + int j * 2);
         s \<leftarrow> (if channels = 1 then put_float off (float_of_int env v) s else Some s);
         put_float off (float_of_int env v) s })) (dst, 0);
     Some (frame_count * frame_size, frame_count, dst') }"

section \<open>Output\<close>

definition int16_bytes :: "int \<Rightarrow> u8 list" where
  "int16_bytes v = [word_of_int v, word_of_int (v div 2 ^ 8)]"

text \<open>The bytes of the generated frames; the byte array has room for 4096.\<close>

definition convert_output :: "('f, 's, 'r) src_env \<Rightarrow> 'f list \<Rightarrow> int \<Rightarrow> u8 list option" where
  "convert_output env out gen = do {
     bs \<leftarrow> each [0..<nat gen] (\<lambda>i. each [0..<nat dst_channels] (\<lambda>j acc.
       if i * nat dst_channels + j < length out then do {
         v \<leftarrow> int16_of_float env (out ! (i * nat dst_channels + j));
         if length acc + 2 \<le> nat (SAMPLERATE_CONVERT_OUTPUT_SIZE * 2)
         then Some (acc @ int16_bytes v) else None }
       else None)) [];
     Some bs }"

section \<open>The loop\<close>

type_synonym ('f, 's) sr_sys = "('f, 's) samplerate_convert \<times> ring_buffer"

text \<open>The part of a pass behind the library call: shift the unused frames to the front, push the
  generated ones. The result says whether the loop goes on.\<close>

definition convert_commit ::
  "('f, 's, 'r) src_env \<Rightarrow> int \<Rightarrow> int \<Rightarrow> ('f, 's) sr_sys \<Rightarrow> int \<Rightarrow> int \<Rightarrow> 'f list \<Rightarrow>
     (bool \<times> int \<times> ('f, 's) sr_sys) option" where
  "convert_commit env len consumed s used gen out =
     (let sr = fst s; inp = sr_input sr in
      if used \<le> 0 then Some (False, consumed, s)
      else do {
        let left = nat (sr_input_frames sr * dst_channels);
        let first = nat (used * dst_channels);
        inp \<leftarrow> (if first + left \<le> length inp
               then Some (take left (drop first inp) @ drop left inp) else None);
        bs \<leftarrow> convert_output env out gen;
        (_, rb) \<leftarrow> ring_buffer_push (snd s) bs (of_nat (length bs));
        Some (consumed < len, consumed, sr\<lparr>sr_input := inp\<rparr>, rb) })"

definition convert_pass ::
  "('f, 's, 'r) src_env \<Rightarrow> 'r \<Rightarrow> int \<Rightarrow> u8 list \<Rightarrow> int \<Rightarrow> int \<Rightarrow> ('f, 's) sr_sys \<Rightarrow>
     (bool \<times> int \<times> ('f, 's) sr_sys) option" where
  "convert_pass env ratio channels buf len consumed s = do {
     let input_frames = SAMPLERATE_CONVERT_INPUT_SIZE div dst_channels - sr_input_frames (fst s);
     free \<leftarrow> ring_buffer_get_free_count (snd s);
     f1 \<leftarrow> c_div free dst_channels;
     output_frames \<leftarrow> c_div f1 2;
     if output_frames \<le> 0 then Some (False, consumed, s)
     else do {
       (c, frames, inp) \<leftarrow> samplerate_convert_input_stereo env (drop (nat consumed) buf) (len - consumed)
          (sr_input (fst s)) (nat (sr_input_frames (fst s) * dst_channels)) input_frames channels;
       let output_frames = min (SAMPLERATE_CONVERT_OUTPUT_SIZE div dst_channels) output_frames;
       let n = sr_input_frames (fst s) + frames;
       st \<leftarrow> sr_state (fst s);
       let (st, used, gen, out) = src_process env st (take (nat (n * dst_channels)) inp) n output_frames ratio;
       convert_commit env len (consumed + c)
         ((fst s)\<lparr>sr_state := Some st, sr_input := inp, sr_input_frames := n - used\<rparr>, snd s) used gen out } }"

partial_function (option) convert_loop ::
  "('f, 's, 'r) src_env \<Rightarrow> 'r \<Rightarrow> int \<Rightarrow> u8 list \<Rightarrow> int \<Rightarrow> int \<Rightarrow> ('f, 's) sr_sys \<Rightarrow>
     (int \<times> ('f, 's) sr_sys) option" where
  "convert_loop env ratio channels buf len consumed s = do {
     r \<leftarrow> convert_pass env ratio channels buf len consumed s;
     if fst r then convert_loop env ratio channels buf len (fst (snd r)) (snd (snd r))
     else Some (snd r) }"

definition samplerate_convert_process ::
  "('f, 's, 'r) src_env \<Rightarrow> 'r \<Rightarrow> int \<Rightarrow> u8 list \<Rightarrow> int \<Rightarrow> ('f, 's) sr_sys \<Rightarrow> (int \<times> ('f, 's) sr_sys) option" where
  "samplerate_convert_process env ratio channels buf len s = do {
     let sr = (case sr_state (fst s) of None \<Rightarrow> (fst s)\<lparr>sr_state := src_new env\<rparr> | Some _ \<Rightarrow> fst s);
     if sr_state sr = None then Some (0, sr, snd s)
     else convert_loop env ratio channels buf len 0 (sr, snd s) }"

section \<open>Contract of the library\<close>

text \<open>What the loop relies on, for the states that are \<open>ok\<close>, the samples that are \<open>good\<close> and the ratios that are \<open>fine\<close>: the
  library stays within the frames it is given, what it makes converts back, and with room for a whole
  output array it uses something. Samples widened from 16 bits are good.\<close>

locale resampler =
  fixes env :: "('f, 's, 'r) src_env" and ok :: "'s \<Rightarrow> bool" and good :: "'f \<Rightarrow> bool" and fine :: "'r \<Rightarrow> bool"
  assumes new_ok: "src_new env = Some st \<Longrightarrow> ok st"
    and widened: "- 32768 \<le> v \<Longrightarrow> v \<le> 32767 \<Longrightarrow> good (float_of_int env v)"
    and process_ok: "ok st \<Longrightarrow> fine r \<Longrightarrow> 0 \<le> n \<Longrightarrow> n \<le> 512 \<Longrightarrow> 0 < m \<Longrightarrow> m \<le> 1024 \<Longrightarrow> int (length inp) = 2 * n \<Longrightarrow>
      \<forall>x \<in> set inp. good x \<Longrightarrow> src_process env st inp n m r = (st', used, gen, out) \<Longrightarrow>
      ok st' \<and> 0 \<le> used \<and> used \<le> n \<and> 0 \<le> gen \<and> gen \<le> m \<and> int (length out) = 2 * gen \<and>
      (\<forall>x \<in> set out. \<exists>v. int16_of_float env x = Some v) \<and> (0 < n \<longrightarrow> m = 1024 \<longrightarrow> 0 < used)"

definition sr_wf :: "('f, 's) samplerate_convert \<Rightarrow> bool" where
  "sr_wf sr \<longleftrightarrow> 0 \<le> sr_input_frames sr \<and> sr_input_frames sr \<le> 512 \<and> length (sr_input sr) = 1024"

definition sr_ok :: "('s \<Rightarrow> bool) \<Rightarrow> ('f \<Rightarrow> bool) \<Rightarrow> ('f, 's) samplerate_convert \<Rightarrow> bool" where
  "sr_ok ok good sr \<longleftrightarrow> sr_wf sr \<and> (\<forall>x \<in> set (sr_input sr). good x) \<and> (\<forall>st. sr_state sr = Some st \<longrightarrow> ok st)"

section \<open>Input stays in the float buffer\<close>

lemma put_ok: "off + c < length d \<Longrightarrow> put_float off v (d, c) = Some (d[off + c := v], Suc c)"
  by (simp add: put_float_def)

lemma s16_ok:
  assumes "0 \<le> i" "i + 2 \<le> int (length src)"
  shows "\<exists>v. s16_at src i = Some v \<and> - 32768 \<le> v \<and> v \<le> 32767"
proof -
  have "- 32768 \<le> sint w \<and> sint w \<le> 32767" for w :: u16 using sint_less [of w] sint_greater_eq [of w] by simp
  then show ?thesis using assms by (simp add: s16_at_def mem_read_ok)
qed

text \<open>After \<open>i\<close> frames the buffer holds \<open>2 * i\<close> new floats and is unchanged below.\<close>

definition filled :: "('f \<Rightarrow> bool) \<Rightarrow> nat \<Rightarrow> 'f list \<Rightarrow> nat \<Rightarrow> 'f list \<times> nat \<Rightarrow> bool" where
  "filled good off dst i s \<longleftrightarrow> snd s = 2 * i \<and> length (fst s) = length dst \<and> take off (fst s) = take off dst \<and> (\<forall>x \<in> set (fst s). good x)"

lemma update_good: "\<forall>x \<in> set d. good x \<Longrightarrow> good v \<Longrightarrow> \<forall>x \<in> set (d[i := v]). good x"
  using set_update_subset_insert by fastforce

lemma input_stereo_frame:
  assumes "channels = 1 \<or> channels = 2" "(int i + 1) * (2 * channels) \<le> int (length src)"
    "off + 2 * (i + 1) \<le> length dst" "filled good off dst i s"
    "\<And>v. - 32768 \<le> v \<Longrightarrow> v \<le> 32767 \<Longrightarrow> good (float_of_int env v)"
  shows "\<exists>s'. each [0..<nat channels] (\<lambda>j s. do {
         v \<leftarrow> s16_at src (int i * (2 * channels) + int j * 2);
         s \<leftarrow> (if channels = 1 then put_float off (float_of_int env v) s else Some s);
         put_float off (float_of_int env v) s }) s = Some s' \<and> filled good off dst (Suc i) s'"
proof -
  obtain d c where s: "s = (d, c)" by fastforce
  have gs: "\<forall>x \<in> set (d[i := v, j := w]). good x" if "good v" "good w" for i j v w
    using assms(4) that by (intro update_good) (auto simp: s filled_def)
  from assms(1) show ?thesis
  proof
    assume c1: "channels = 1"
    have "\<exists>v. s16_at src (int i * (2 * channels) + int 0 * 2) = Some v \<and> - 32768 \<le> v \<and> v \<le> 32767"
      by (rule s16_ok) (use assms(2) c1 in simp_all)
    then obtain v where "s16_at src (int i * (2 * channels) + int 0 * 2) = Some v" "good (float_of_int env v)" using assms(5) by blast
    with c1 assms(3,4) gs [OF this(2,2), of "off + c" "off + Suc c"] show ?thesis by (simp add: s filled_def put_ok)
  next
    assume c2: "channels = 2"
    then have two: "[0..<nat channels] = [0, 1]" by (simp add: upt_rec)
    have "\<exists>v. s16_at src (int i * (2 * channels) + int 0 * 2) = Some v \<and> - 32768 \<le> v \<and> v \<le> 32767"
      "\<exists>v. s16_at src (int i * (2 * channels) + int 1 * 2) = Some v \<and> - 32768 \<le> v \<and> v \<le> 32767"
      by (rule s16_ok; use assms(2) c2 in simp)+
    then obtain v0 v1 where "s16_at src (int i * (2 * channels) + int 0 * 2) = Some v0"
      "s16_at src (int i * (2 * channels) + int 1 * 2) = Some v1" "good (float_of_int env v0)" "good (float_of_int env v1)"
      using assms(5) by blast
    with c2 assms(3,4) gs [OF this(3,4), of "off + c" "off + Suc c"] show ?thesis unfolding two by (simp add: s filled_def put_ok)
  qed
qed

lemma input_stereo:
  assumes "channels = 1 \<or> channels = 2" "0 \<le> n" "n \<le> int (length src)" "0 \<le> room"
    "int off + 2 * room \<le> int (length dst)" "\<forall>x \<in> set dst. good x"
    "\<And>v. - 32768 \<le> v \<Longrightarrow> v \<le> 32767 \<Longrightarrow> good (float_of_int env v)"
  defines "fc \<equiv> min room (n div (2 * channels))"
  shows "\<exists>dst'. samplerate_convert_input_stereo env src n dst off room channels =
      Some (fc * (2 * channels), fc, dst') \<and> length dst' = length dst \<and> (\<forall>x \<in> set dst'. good x)"
proof -
  have fc: "0 \<le> fc" "fc \<le> room" "fc * (2 * channels) \<le> n"
  proof -
    show "0 \<le> fc" "fc \<le> room" using assms(1,2,4) by (auto simp: fc_def pos_imp_zdiv_nonneg_iff)
    have "fc * (2 * channels) \<le> n div (2 * channels) * (2 * channels)"
      using assms(1) by (intro mult_right_mono) (auto simp: fc_def)
    also have "\<dots> \<le> n" using assms(1,2) by (metis div_mult_mod_eq le_add_same_cancel1 pos_mod_sign
      mult_pos_pos zero_less_numeral zero_less_one)
    finally show "fc * (2 * channels) \<le> n" .
  qed
  have "\<exists>s'. each [0..<nat fc] (\<lambda>i. each [0..<nat channels] (\<lambda>j s. do {
         v \<leftarrow> s16_at src (int i * (2 * channels) + int j * 2);
         s \<leftarrow> (if channels = 1 then put_float off (float_of_int env v) s else Some s);
         put_float off (float_of_int env v) s })) (dst, 0) = Some s' \<and> filled good off dst (nat fc) s'"
  proof (rule each_upt [where P = "filled good off dst"])
    fix i s assume i: "i < nat fc" "filled good off dst i s"
    then have "int i + 1 \<le> fc" by linarith
    then have "(int i + 1) * (2 * channels) \<le> fc * (2 * channels)"
      using assms(1) by (intro mult_right_mono) auto
    with fc assms(3) have "(int i + 1) * (2 * channels) \<le> int (length src)" by linarith
    moreover have "int (off + 2 * (i + 1)) \<le> int (length dst)"
      using \<open>int i + 1 \<le> fc\<close> fc assms(5) by simp
    then have "off + 2 * (i + 1) \<le> length dst" by linarith
    ultimately show "\<exists>s'. each [0..<nat channels] (\<lambda>j s. do {
         v \<leftarrow> s16_at src (int i * (2 * channels) + int j * 2);
         s \<leftarrow> (if channels = 1 then put_float off (float_of_int env v) s else Some s);
         put_float off (float_of_int env v) s }) s = Some s' \<and> filled good off dst (Suc i) s'"
      by (rule input_stereo_frame [OF assms(1) _ _ i(2) assms(7)])
  qed (use assms(6) in \<open>simp add: filled_def\<close>)
  then obtain d c where "each [0..<nat fc] (\<lambda>i. each [0..<nat channels] (\<lambda>j s. do {
         v \<leftarrow> s16_at src (int i * (2 * channels) + int j * 2);
         s \<leftarrow> (if channels = 1 then put_float off (float_of_int env v) s else Some s);
         put_float off (float_of_int env v) s })) (dst, 0) = Some (d, c)" "length d = length dst" "\<forall>x \<in> set d. good x"
    by (auto simp: filled_def)
  moreover have "c_div n (2 * channels) = Some (n div (2 * channels))"
    using assms(1,2) by (auto simp: c_div_nonneg)
  moreover have "(if room < n div (2 * channels) then room else n div (2 * channels)) = fc"
    by (auto simp: fc_def)
  ultimately show ?thesis by (simp add: samplerate_convert_input_stereo_def Let_def)
qed

text \<open>With more channels each frame stores as many floats, although the caller counted two.\<close>

lemma input_overflow:
  assumes "3 \<le> channels" "0 \<le> n" "0 \<le> room" "off \<le> length dst"
    "int (length dst) < int off + channels * min room (n div (2 * channels))"
  shows "samplerate_convert_input_stereo env src n dst off room channels = None"
proof (rule ccontr)
  define fc where "fc = min room (n div (2 * channels))"
  let ?P = "\<lambda>s. off + snd s \<le> length dst \<and> length (fst s) = length dst"
  let ?put = "\<lambda>i j s. do { v \<leftarrow> s16_at src (int i * (2 * channels) + int j * 2);
         s \<leftarrow> (if channels = 1 then put_float off (float_of_int env v) s else Some s);
         put_float off (float_of_int env v) s }"
  have put: "?P s' \<and> int (snd s') = int (snd s) + 1" if "?put i j s = Some s'" "?P s" for i j s s'
    using that assms(1) by (auto simp: put_float_def dest!: bind_eq_SomeD split: if_splits)
  assume "samplerate_convert_input_stereo env src n dst off room channels \<noteq> None"
  moreover have "c_div n (2 * channels) = Some (n div (2 * channels))"
    using assms(1,2) by (auto simp: c_div_nonneg)
  moreover have "(if room < n div (2 * channels) then room else n div (2 * channels)) = fc"
    by (auto simp: fc_def)
  ultimately obtain s' where e: "each [0..<nat fc] (\<lambda>i. each [0..<nat channels] (?put i)) (dst, 0) = Some s'"
    by (auto simp: samplerate_convert_input_stereo_def Let_def bind_eq_Some_conv)
  have fc: "0 \<le> fc" using assms(1-3) by (simp add: fc_def pos_imp_zdiv_nonneg_iff)
  have P0: "?P (dst, 0)" using assms(4) by simp
  have row: "?P s' \<and> int (snd s') = int (snd s) + channels"
    if "each [0..<nat channels] (?put i) s = Some s'" "?P s" for i s s'
    using each_count [where P = ?P and \<mu> = "\<lambda>s. int (snd s)" and k = 1, OF put that] assms(1) by simp
  have "?P s' \<and> int (snd s') = 0 + channels * int (nat fc)"
    using each_count [where P = ?P and \<mu> = "\<lambda>s. int (snd s)" and k = channels, OF row e P0] by simp
  with fc assms(5) show False by (simp add: fc_def [symmetric])
qed

section \<open>Output stays in the byte buffer and in the ring\<close>

lemma convert_output_bytes:
  assumes "0 \<le> gen" "gen \<le> 1024" "int (length out) = 2 * gen"
    "\<forall>x \<in> set out. \<exists>v. int16_of_float env x = Some v"
  shows "\<exists>bs. convert_output env out gen = Some bs \<and> int (length bs) = 4 * gen"
proof -
  have two: "[0..<nat dst_channels] = [0, 1]" by (simp add: dst_channels_def upt_rec)
  have conv: "\<exists>v. int16_of_float env (out ! k) = Some v" if "k < length out" for k
    using assms(4) that by simp
  let ?b = "\<lambda>i j acc. if i * nat dst_channels + j < length out then do {
         v \<leftarrow> int16_of_float env (out ! (i * nat dst_channels + j));
         if length acc + 2 \<le> nat (SAMPLERATE_CONVERT_OUTPUT_SIZE * 2)
         then Some (acc @ int16_bytes v) else None } else None"
  have "\<exists>bs. each [0..<nat gen] (\<lambda>i. each [0..<nat dst_channels] (?b i)) [] = Some bs \<and>
      length bs = 4 * nat gen"
  proof (rule each_upt [where P = "\<lambda>i acc. length acc = 4 * i"])
    fix i and acc :: "u8 list"
    assume i: "i < nat gen" "length acc = 4 * i"
    have k: "i * 2 < length out" "i * 2 + 1 < length out" using i(1) assms(3) by linarith+
    obtain v0 v1 where v: "int16_of_float env (out ! (i * 2)) = Some v0"
      "int16_of_float env (out ! (i * 2 + 1)) = Some v1"
      using conv [OF k(1)] conv [OF k(2)] by blast
    have r: "4 * i + 4 \<le> 4096" using i(1) assms(2) by linarith
    show "\<exists>s'. each [0..<nat dst_channels] (?b i) acc = Some s' \<and> length s' = 4 * Suc i"
      unfolding two using v k r i(2)
      by (simp add: src_consts int16_bytes_def)
  qed simp
  with assms(1) show ?thesis by (auto simp: convert_output_def)
qed

lemma ring_free_frames:
  assumes "ring_wf rb"
  obtains f where "ring_buffer_get_free_count rb = Some (int f)" "f = ring_cap rb - ring_len rb"
    "ring_len rb \<le> ring_cap rb"
proof -
  have "int (ring_len rb) \<le> rb_size rb - 1" by (rule ring_len_le [OF assms])
  then show ?thesis
    using that [of "nat (rb_size rb - 1 - int (ring_len rb))"] ring_get_free_count [OF assms]
    by (auto simp: ring_cap_def)
qed

text \<open>The loop, under the contract.\<close>

context resampler
begin

text \<open>A pass with room in the ring buffer calls the library on the frames left over and the new ones.\<close>

lemma convert_pass_call:
  assumes "sr_ok ok good sr" "ring_wf rb" "sr_state sr = Some st" "channels = 1 \<or> channels = 2"
    "0 \<le> consumed" "consumed \<le> len" "len \<le> int (length buf)" "4 \<le> ring_cap rb - ring_len rb"
  defines "fc \<equiv> min (512 - sr_input_frames sr) ((len - consumed) div (2 * channels))"
    and "m \<equiv> min 1024 (int (ring_cap rb - ring_len rb) div 4)"
  obtains inp where "length inp = 1024" "\<forall>x \<in> set inp. good x" "0 \<le> fc" "fc * (2 * channels) \<le> len - consumed"
    "0 \<le> sr_input_frames sr + fc" "sr_input_frames sr + fc \<le> 512" "0 < m"
    "\<And>st' used gen out. src_process env st (take (nat ((sr_input_frames sr + fc) * 2)) inp) (sr_input_frames sr + fc) m ratio = (st', used, gen, out) \<Longrightarrow>
      convert_pass env ratio channels buf len consumed (sr, rb) = convert_commit env len (consumed + fc * (2 * channels))
        (sr\<lparr>sr_state := Some st', sr_input := inp, sr_input_frames := sr_input_frames sr + fc - used\<rparr>, rb) used gen out"
proof -
  from ring_free_frames [OF assms(2)] obtain f where f: "ring_buffer_get_free_count rb = Some (int f)"
    "f = ring_cap rb - ring_len rb" "ring_len rb \<le> ring_cap rb" .
  let ?of = "int f div 2 div 2"
  have d: "c_div (int f) dst_channels = Some (int f div 2)" "c_div (int f div 2) 2 = Some ?of"
    by (simp_all add: dst_channels_def c_div_nonneg)
  have of: "?of = int f div 4" by (simp add: zdiv_zmult2_eq [symmetric])
  have pos: "0 < ?of" using assms(8) f(2) unfolding of by simp
  have wf: "0 \<le> sr_input_frames sr \<and> sr_input_frames sr \<le> 512 \<and> length (sr_input sr) = 1024"
    and gd: "\<forall>x \<in> set (sr_input sr). good x" using assms(1) by (simp_all add: sr_ok_def sr_wf_def)
  let ?room = "SAMPLERATE_CONVERT_INPUT_SIZE div dst_channels - sr_input_frames sr" and ?off = "nat (sr_input_frames sr * dst_channels)"
  let ?fs = "2 * channels"
  have room: "?room = 512 - sr_input_frames sr" and off: "?off = nat (sr_input_frames sr * 2)"
    by (simp_all add: src_consts)
  have fs: "0 < ?fs" using assms(4) by auto
  have fc: "0 \<le> fc" "fc \<le> 512 - sr_input_frames sr" "fc \<le> (len - consumed) div ?fs"
    using wf assms(6) fs by (auto simp: fc_def pos_imp_zdiv_nonneg_iff)
  have "fc * ?fs \<le> (len - consumed) div ?fs * ?fs" using fc fs by (intro mult_right_mono) auto
  also have "\<dots> = (len - consumed) - (len - consumed) mod ?fs" by (simp only: minus_mod_eq_div_mult)
  also have "\<dots> \<le> len - consumed" using pos_mod_sign [OF fs] by simp
  finally have fcl: "fc * ?fs \<le> len - consumed" .
  have "\<exists>dst'. samplerate_convert_input_stereo env (drop (nat consumed) buf) (len - consumed)
      (sr_input sr) ?off ?room channels = Some (fc * ?fs, fc, dst') \<and> length dst' = length (sr_input sr) \<and> (\<forall>x \<in> set dst'. good x)"
    unfolding fc_def room [symmetric] using assms(4-7) wf gd widened by (intro input_stereo) (auto simp: room off)
  then obtain inp where inp: "samplerate_convert_input_stereo env (drop (nat consumed) buf) (len - consumed)
      (sr_input sr) ?off ?room channels = Some (fc * ?fs, fc, inp)" "length inp = 1024" "\<forall>x \<in> set inp. good x"
    using wf by auto
  have m: "m = min (SAMPLERATE_CONVERT_OUTPUT_SIZE div dst_channels) ?of" using f(2) by (simp add: m_def of src_consts)
  have pass: "convert_pass env ratio channels buf len consumed (sr, rb) = convert_commit env len (consumed + fc * ?fs)
        (sr\<lparr>sr_state := Some st', sr_input := inp, sr_input_frames := sr_input_frames sr + fc - used\<rparr>, rb) used gen out"
    if "src_process env st (take (nat ((sr_input_frames sr + fc) * 2)) inp) (sr_input_frames sr + fc) m ratio = (st', used, gen, out)"
    for st' used gen out
    unfolding convert_pass_def Let_def fst_conv snd_conv f(1) bind.simps d
    using pos inp(1) that assms(3) by (simp add: m dst_channels_def)
  show thesis
    by (rule that [OF inp(2,3) fc(1) fcl _ _ _ pass]) (use fc wf pos in \<open>simp_all add: m src_consts\<close>)
qed

text \<open>What comes back is shifted and pushed.\<close>

lemma convert_commit_ok:
  assumes "sr_input_frames sr = n - used" "length (sr_input sr) = 1024" "ring_wf rb" "0 < used" "used \<le> n" "n \<le> 512"
    "0 \<le> gen" "gen \<le> min 1024 (int (ring_cap rb - ring_len rb) div 4)" "int (length out) = 2 * gen"
    "\<forall>x \<in> set out. \<exists>v. int16_of_float env x = Some v"
  obtains inp bs rb' where "convert_commit env len consumed (sr, rb) used gen out = Some (consumed < len, consumed, sr\<lparr>sr_input := inp\<rparr>, rb')"
    "length inp = 1024" "set inp \<subseteq> set (sr_input sr)" "ring_wf rb'" "ring_contents rb' = ring_contents rb @ bs" "ring_cap rb' = ring_cap rb"
    "length bs \<le> 4096"
proof -
  let ?f = "ring_cap rb - ring_len rb" and ?inp = "sr_input sr"
  from convert_output_bytes [OF assms(7) _ assms(9,10)] assms(8) obtain bs where
    bs: "convert_output env out gen = Some bs" "int (length bs) = 4 * gen" by auto
  have "gen \<le> int ?f div 4" using assms(8) by simp
  then have "4 * gen \<le> int ?f" by presburger
  with bs(2) have lf: "length bs \<le> ?f" by linarith
  have "ring_cap rb < 1073741824" using ring_wf_bounds [OF assms(3)] by (simp add: ring_cap_def)
  then have lb: "length bs < 4294967296" using lf by linarith
  have mn: "min (unat (of_nat (length bs) :: u32)) (ring_cap rb - ring_len rb) = length bs"
    using lf by (simp add: unat_of_nat_u32 [OF lb])
  obtain rb' where rb': "ring_buffer_push rb bs (of_nat (length bs)) = Some (of_nat (length bs), rb')"
    "ring_wf rb'" "ring_contents rb' = ring_contents rb @ bs" "ring_cap rb' = ring_cap rb"
    using ring_push [OF assms(3), of "of_nat (length bs)" bs, unfolded mn] by auto
  let ?left = "nat ((n - used) * dst_channels)" and ?first = "nat (used * dst_channels)"
  let ?new = "take ?left (drop ?first ?inp) @ drop ?left ?inp"
  have "nat (used * 2) + nat ((n - used) * 2) = nat (used * 2 + (n - used) * 2)"
    using assms(4,5) by (intro nat_add_distrib [symmetric]) simp_all
  also have "\<dots> \<le> 1024" using assms(6) by simp
  finally have nn: "?first + ?left \<le> length ?inp" by (simp only: dst_channels_def assms(2))
  have "convert_commit env len consumed (sr, rb) used gen out = Some (consumed < len, consumed, sr\<lparr>sr_input := ?new\<rparr>, rb')"
    using assms(1,4) nn bs(1) rb'(1) by (simp add: convert_commit_def Let_def)
  then show thesis
  proof (rule that [where bs = bs])
    show "set ?new \<subseteq> set ?inp" by (auto dest!: in_set_takeD in_set_dropD)
  qed (use assms(2,8) nn rb' bs(2) in simp_all)
qed

text \<open>What one pass does, under the library's contract, for mono and stereo input. Bytes are taken as long as there is room
  for them, and with much room in the ring buffer there is room for more input behind a pass.\<close>

lemma convert_pass_ok:
  assumes "fine ratio" "sr_ok ok good sr" "ring_wf rb" "sr_state sr = Some st" "channels = 1 \<or> channels = 2"
    "0 \<le> consumed" "consumed \<le> len" "len \<le> int (length buf)"
  defines "frames_left \<equiv> \<lambda>sr c. sr_input_frames sr + (len - c) div (2 * channels)"
  obtains go c' sr' rb' bs where
    "convert_pass env ratio channels buf len consumed (sr, rb) = Some (go, c', sr', rb')"
    "sr_ok ok good sr'" "ring_wf rb'" "sr_state sr' \<noteq> None" "consumed \<le> c'" "c' \<le> len"
    "ring_contents rb' = ring_contents rb @ bs" "ring_cap rb' = ring_cap rb"
    "go \<Longrightarrow> frames_left sr' c' < frames_left sr consumed"
    "4096 \<le> ring_cap rb - ring_len rb \<Longrightarrow> c' = consumed + min (512 - sr_input_frames sr) ((len - consumed) div (2 * channels)) * (2 * channels)"
    "4096 \<le> ring_cap rb - ring_len rb \<Longrightarrow> 0 < sr_input_frames sr \<Longrightarrow> go = (c' < len) \<and> sr_input_frames sr' < 512 \<and> length bs \<le> 4096"
proof (cases "4 \<le> ring_cap rb - ring_len rb")
  case False
  from ring_free_frames [OF assms(3)] obtain f where f: "ring_buffer_get_free_count rb = Some (int f)"
    "f = ring_cap rb - ring_len rb" .
  have "int f div 2 div 2 = int f div 4" by (simp add: zdiv_zmult2_eq [symmetric])
  then have "\<not> 0 < int f div 2 div 2" using False f(2) by simp
  then have "convert_pass env ratio channels buf len consumed (sr, rb) = Some (False, consumed, sr, rb)"
    using f(1) by (simp add: convert_pass_def dst_channels_def c_div_nonneg)
  then show ?thesis by (rule that [where bs = "[]"]) (use assms False in simp_all)
next
  case True
  let ?fs = "2 * channels"
  have st: "ok st" using assms(2,4) by (simp add: sr_ok_def)
  define fc where "fc = min (512 - sr_input_frames sr) ((len - consumed) div ?fs)"
  define m where "m = min 1024 (int (ring_cap rb - ring_len rb) div 4)"
  let ?n = "sr_input_frames sr + fc"
  from convert_pass_call [OF assms(2-8) True, of ratio, folded fc_def m_def] obtain inp where
    inp: "length inp = 1024" "\<forall>x \<in> set inp. good x" and fc: "0 \<le> fc" "fc * ?fs \<le> len - consumed" and n: "0 \<le> ?n" "?n \<le> 512" and m: "0 < m"
    and pass: "\<And>st' used gen out. src_process env st (take (nat (?n * 2)) inp) ?n m ratio = (st', used, gen, out) \<Longrightarrow>
      convert_pass env ratio channels buf len consumed (sr, rb) = convert_commit env len (consumed + fc * ?fs)
        (sr\<lparr>sr_state := Some st', sr_input := inp, sr_input_frames := ?n - used\<rparr>, rb) used gen out" by blast
  obtain st' used gen out where sp: "src_process env st (take (nat (?n * 2)) inp) ?n m ratio = (st', used, gen, out)"
    by (metis prod_cases4)
  have "int (length (take (nat (?n * 2)) inp)) = 2 * ?n" using n inp(1) by simp
  moreover have "\<forall>x \<in> set (take (nat (?n * 2)) inp). good x" using inp(2) by (meson in_set_takeD)
  moreover have "m \<le> 1024" by (simp add: m_def)
  ultimately have c: "ok st'" "0 \<le> used" "used \<le> ?n" "0 \<le> gen" "gen \<le> m" "int (length out) = 2 * gen"
    "\<forall>x \<in> set out. \<exists>v. int16_of_float env x = Some v" "0 < ?n \<longrightarrow> m = 1024 \<longrightarrow> 0 < used"
    using process_ok [OF st assms(1) n m _ _ _ sp] by blast+
  have big: "m = 1024" if "4096 \<le> ring_cap rb - ring_len rb"
  proof -
    have "1024 \<le> int (ring_cap rb - ring_len rb) div 4" using that by linarith
    then show ?thesis by (simp add: m_def)
  qed
  have fs: "0 < ?fs" using assms(5) by auto
  have cons: "consumed \<le> consumed + fc * ?fs" "consumed + fc * ?fs \<le> len" using fc fs by simp_all
  have eat: "consumed + fc * ?fs = consumed + min (512 - sr_input_frames sr) ((len - consumed) div ?fs) * ?fs" by (simp only: fc_def)
  let ?sr = "sr\<lparr>sr_state := Some st', sr_input := inp, sr_input_frames := ?n - used\<rparr>"
  show ?thesis
  proof (cases "used \<le> 0")
    case True
    then have "convert_pass env ratio channels buf len consumed (sr, rb) = Some (False, consumed + fc * ?fs, ?sr, rb)"
      unfolding pass [OF sp] by (simp add: convert_commit_def Let_def)
    then show ?thesis
    proof (rule that [where bs = "[]"])
      show "sr_ok ok good ?sr" using n c(1-3) inp by (simp add: sr_wf_def sr_ok_def)
      show "False = (consumed + fc * ?fs < len) \<and> sr_input_frames ?sr < 512 \<and> length [] \<le> 4096"
        if "4096 \<le> ring_cap rb - ring_len rb" "0 < sr_input_frames sr"
        using c(8) big that fc True by simp
      show "consumed + fc * ?fs = consumed + min (512 - sr_input_frames sr) ((len - consumed) div ?fs) * ?fs" by (rule eat)
    qed (use assms(3) cons in simp_all)
  next
    case used: False
    then have pos: "0 < used" by simp
    have sr: "sr_input_frames ?sr = ?n - used" "length (sr_input ?sr) = 1024" using inp(1) by simp_all
    have gen: "gen \<le> min 1024 (int (ring_cap rb - ring_len rb) div 4)" using c(5) by (simp only: m_def)
    obtain inp' bs rb' where r: "convert_commit env len (consumed + fc * ?fs) (?sr, rb) used gen out =
        Some (consumed + fc * ?fs < len, consumed + fc * ?fs, ?sr\<lparr>sr_input := inp'\<rparr>, rb')"
      "length inp' = 1024" "set inp' \<subseteq> set (sr_input ?sr)" "ring_wf rb'" "ring_contents rb' = ring_contents rb @ bs" "ring_cap rb' = ring_cap rb"
      "length bs \<le> 4096" using convert_commit_ok [OF sr assms(3) pos c(3) n(2) c(4) gen c(6,7)] by metis
    have "convert_pass env ratio channels buf len consumed (sr, rb) =
        Some (consumed + fc * ?fs < len, consumed + fc * ?fs, ?sr\<lparr>sr_input := inp'\<rparr>, rb')" unfolding pass [OF sp] by (rule r(1))
    then show ?thesis
    proof (rule that [where bs = bs])
      show "sr_ok ok good (?sr\<lparr>sr_input := inp'\<rparr>)" using r(2,3) c(1-3) n(2) inp(2) by (auto simp: sr_wf_def sr_ok_def)
      have "len - (consumed + fc * ?fs) = (len - consumed) + (- fc) * ?fs" by simp
      then have "(len - (consumed + fc * ?fs)) div ?fs = (len - consumed) div ?fs - fc"
        using fs by (simp only: div_mult_self1)
      then show "frames_left (?sr\<lparr>sr_input := inp'\<rparr>) (consumed + fc * ?fs) < frames_left sr consumed"
        using used by (simp add: frames_left_def)
      show "(consumed + fc * ?fs < len) = (consumed + fc * ?fs < len) \<and> sr_input_frames (?sr\<lparr>sr_input := inp'\<rparr>) < 512 \<and> length bs \<le> 4096"
        using used n(2) r(7) by simp
      show "consumed + fc * ?fs = consumed + min (512 - sr_input_frames sr) ((len - consumed) div ?fs) * ?fs" by (rule eat)
    qed (use r cons in simp_all)
  qed
qed

text \<open>The loop ends, and appends to the ring.\<close>

lemma convert_loop_ok:
  assumes "fine ratio" "channels = 1 \<or> channels = 2" "len \<le> int (length buf)"
    "sr_ok ok good sr" "ring_wf rb" "sr_state sr \<noteq> None" "0 \<le> consumed" "consumed \<le> len"
  shows "\<exists>c' sr' rb' bs. convert_loop env ratio channels buf len consumed (sr, rb) = Some (c', sr', rb') \<and>
    consumed \<le> c' \<and> c' \<le> len \<and> sr_ok ok good sr' \<and> ring_wf rb' \<and> sr_state sr' \<noteq> None \<and>
    ring_contents rb' = ring_contents rb @ bs \<and> ring_cap rb' = ring_cap rb"
  using assms(4-8)
proof (induction "nat (sr_input_frames sr + (len - consumed) div (2 * channels))"
    arbitrary: sr rb consumed rule: less_induct)
  case less
  then obtain st where st: "sr_state sr = Some st" by auto
  show ?case
  proof (rule convert_pass_ok [OF assms(1) less.prems(1,2) st assms(2) less.prems(4,5) assms(3)])
    fix go c' sr' rb' bs
    assume p: "convert_pass env ratio channels buf len consumed (sr, rb) = Some (go, c', sr', rb')"
      "sr_ok ok good sr'" "ring_wf rb'" "sr_state sr' \<noteq> None" "consumed \<le> c'" "c' \<le> len"
      "ring_contents rb' = ring_contents rb @ bs" "ring_cap rb' = ring_cap rb"
      "go \<Longrightarrow> sr_input_frames sr' + (len - c') div (2 * channels) <
        sr_input_frames sr + (len - consumed) div (2 * channels)"
    show ?thesis
    proof (cases go)
      case False
      with p show ?thesis by (subst convert_loop.simps) auto
    next
      case True
      have "0 \<le> (len - c') div (2 * channels)" using p(6) assms(2)
        by (auto simp: pos_imp_zdiv_nonneg_iff)
      then have "0 \<le> sr_input_frames sr' + (len - c') div (2 * channels)" using p(2) by (simp add: sr_wf_def sr_ok_def)
      with p(9) [OF True] have "nat (sr_input_frames sr' + (len - c') div (2 * channels)) <
          nat (sr_input_frames sr + (len - consumed) div (2 * channels))" by linarith
      from less.hyps [OF this p(2,3,4) _ p(6)] p(5) less.prems(4)
      obtain c2 sr2 rb2 bs2 where r: "convert_loop env ratio channels buf len c' (sr', rb') = Some (c2, sr2, rb2)"
        "c' \<le> c2" "c2 \<le> len" "sr_ok ok good sr2" "ring_wf rb2" "sr_state sr2 \<noteq> None"
        "ring_contents rb2 = ring_contents rb' @ bs2" "ring_cap rb2 = ring_cap rb'" by force
      have "convert_loop env ratio channels buf len consumed (sr, rb) = Some (c2, sr2, rb2)"
        using p(1) True r(1) by (subst convert_loop.simps) simp
      with r p show ?thesis by auto
    qed
  qed
qed

lemma convert_process_ok:
  assumes "fine ratio" "channels = 1 \<or> channels = 2" "0 \<le> len" "len \<le> int (length buf)"
    "sr_ok ok good sr" "ring_wf rb"
  shows "\<exists>c sr' rb' bs. samplerate_convert_process env ratio channels buf len (sr, rb) = Some (c, sr', rb') \<and>
    0 \<le> c \<and> c \<le> len \<and> sr_ok ok good sr' \<and> ring_wf rb' \<and>
    ring_contents rb' = ring_contents rb @ bs \<and> ring_cap rb' = ring_cap rb"
proof -
  define sr0 where "sr0 = (case sr_state sr of None \<Rightarrow> sr\<lparr>sr_state := src_new env\<rparr> | Some _ \<Rightarrow> sr)"
  have wf: "sr_ok ok good sr0" using assms(5) new_ok by (auto simp: sr0_def sr_ok_def sr_wf_def split: option.splits)
  have p: "samplerate_convert_process env ratio channels buf len (sr, rb) =
    (if sr_state sr0 = None then Some (0, sr0, rb) else convert_loop env ratio channels buf len 0 (sr0, rb))"
    by (simp only: samplerate_convert_process_def sr0_def Let_def fst_conv snd_conv)
  show ?thesis
  proof (cases "sr_state sr0 = None")
    case True
    with p wf assms show ?thesis by auto
  next
    case False
    from convert_loop_ok [OF assms(1,2,4) wf assms(6) False, of 0] assms(3) p False show ?thesis by auto
  qed
qed

text \<open>With an empty ring buffer of some size something is taken of every block.\<close>

lemma loop_grows:
  assumes "convert_pass env ratio channels buf len consumed (sr, rb) = Some (go, c, sr1, rb1)" "fine ratio" "channels = 1 \<or> channels = 2"
    "len \<le> int (length buf)" "sr_ok ok good sr1" "ring_wf rb1" "sr_state sr1 \<noteq> None" "0 \<le> c" "c \<le> len"
    "convert_loop env ratio channels buf len consumed (sr, rb) = Some (c', s')"
  shows "c \<le> c'"
proof (cases go)
  case True
  then have "convert_loop env ratio channels buf len c (sr1, rb1) = Some (c', s')"
    using assms(1,10) by (subst (asm) convert_loop.simps) simp
  with convert_loop_ok [OF assms(2-9)] show ?thesis by auto
next
  case False
  then show ?thesis using assms(1,10) by (subst (asm) convert_loop.simps) simp
qed

lemma block_taken:
  assumes "fine ratio" "sr_ok ok good sr" "src_new env \<noteq> None" "ring_wf rb" "ring_contents rb = []" "8192 \<le> ring_cap rb"
    "4 \<le> len" "len \<le> int (length buf)" "samplerate_convert_process env ratio 2 buf len (sr, rb) = Some (c, s')"
  shows "0 < c"
proof -
  define sr0 where "sr0 = (case sr_state sr of None \<Rightarrow> sr\<lparr>sr_state := src_new env\<rparr> | Some _ \<Rightarrow> sr)"
  have wf: "sr_ok ok good sr0" using assms(2) new_ok by (auto simp: sr0_def sr_ok_def sr_wf_def split: option.splits)
  obtain st where st: "sr_state sr0 = Some st" using assms(3) by (cases "sr_state sr") (auto simp: sr0_def)
  then have lp: "convert_loop env ratio 2 buf len 0 (sr0, rb) = Some (c, s')"
    using assms(9) by (simp only: samplerate_convert_process_def sr0_def [symmetric] Let_def fst_conv snd_conv option.distinct if_False)
  have lc: "ring_len r = length (ring_contents r)" if "ring_wf r" for r using length_ring_contents [OF that] by simp
  have room: "4096 \<le> ring_cap rb - ring_len rb" using assms(4-6) lc by simp
  have frames: "1 \<le> len div 4" "0 \<le> len" using assms(7) by simp_all
  have two: "(2::int) = 1 \<or> (2::int) = 2" by simp
  obtain go c1 sr1 rb1 bs where p: "convert_pass env ratio 2 buf len 0 (sr0, rb) = Some (go, c1, sr1, rb1)" "sr_ok ok good sr1" "ring_wf rb1"
    "sr_state sr1 \<noteq> None" "0 \<le> c1" "c1 \<le> len" "ring_contents rb1 = ring_contents rb @ bs" "ring_cap rb1 = ring_cap rb"
    "c1 = 0 + min (512 - sr_input_frames sr0) ((len - 0) div (2 * 2)) * (2 * 2)"
    "0 < sr_input_frames sr0 \<Longrightarrow> go = (c1 < len) \<and> sr_input_frames sr1 < 512 \<and> length bs \<le> 4096"
    using convert_pass_ok [OF assms(1) wf assms(4) st two order_refl frames(2) assms(8)] room by metis
  show ?thesis
  proof (cases "sr_input_frames sr0 < 512")
    case True
    then have "0 < c1" using p(9) frames by simp
    with loop_grows [OF p(1) assms(1) two assms(8) p(2-6) lp] show ?thesis by simp
  next
    case False
    then have c1: "c1 = 0" using p(9) wf frames by (simp add: sr_ok_def sr_wf_def)
    with False p(10) assms(7) have go: "go" "sr_input_frames sr1 < 512" "length bs \<le> 4096" by auto
    have lp1: "convert_loop env ratio 2 buf len 0 (sr1, rb1) = Some (c, s')"
      using lp p(1) go(1) c1 by (subst (asm) convert_loop.simps) simp
    obtain st1 where st1: "sr_state sr1 = Some st1" using p(4) by blast
    have room1: "4096 \<le> ring_cap rb1 - ring_len rb1" using p(3,7,8) go(3) assms(5,6) lc by simp
    obtain go2 c2 sr2 rb2 where q: "convert_pass env ratio 2 buf len 0 (sr1, rb1) = Some (go2, c2, sr2, rb2)" "sr_ok ok good sr2" "ring_wf rb2"
      "sr_state sr2 \<noteq> None" "0 \<le> c2" "c2 \<le> len" "c2 = 0 + min (512 - sr_input_frames sr1) ((len - 0) div (2 * 2)) * (2 * 2)"
      using convert_pass_ok [OF assms(1) p(2,3) st1 two order_refl frames(2) assms(8)] room1 by metis
    have "0 < c2" using q(7) go(2) frames by simp
    with loop_grows [OF q(1) assms(1) two assms(8) q(2-6) lp1] show ?thesis by simp
  qed
qed

end

end
