(* ===== verification/Prompt_Flash.thy ===== *)
theory Prompt_Flash
  imports Prelude
begin

text \<open>
  The prompt sounds of prompt/prompt_flash.c and prompt/flash_access.c: four data images, each a
  directory of eight-byte entries (offset and length, in the order of the file-name tables of
  prompt_def.h) followed by the sounds. The images are linked in from binary files, so they are a
  parameter; reading behind the end of one is undefined. The lemmas show that a lookup by name
  finds the entry of that name, that a sound is read exactly from its slice of its image, and what
  the prefix comparison of the lookup lets through.
\<close>

section \<open>Flash\<close>

definition PROMPT_DATA_1_BASE :: u32 where "PROMPT_DATA_1_BASE = 0x00000000"
definition PROMPT_DATA_2_BASE :: u32 where "PROMPT_DATA_2_BASE = 0x40000000"
definition PROMPT_DATA_3_BASE :: u32 where "PROMPT_DATA_3_BASE = 0x80000000"
definition PROMPT_DATA_4_BASE :: u32 where "PROMPT_DATA_4_BASE = 0xC0000000"
definition ROM_BASE :: u32 where "ROM_BASE = 0"

lemmas prompt_bases = PROMPT_DATA_1_BASE_def PROMPT_DATA_2_BASE_def PROMPT_DATA_3_BASE_def
  PROMPT_DATA_4_BASE_def ROM_BASE_def

text \<open>The images by number. Their addresses are those of objects, so the NULL test of the source
  never fires; the bytes read are the result. A negative length is converted to a huge size.\<close>

type_synonym images = "nat \<Rightarrow> u8 list"

definition flash_image :: "u32 \<Rightarrow> nat" where
  "flash_image addr =
     (let b = 0xC0000000 AND addr in
      if b = PROMPT_DATA_1_BASE then 0 else if b = PROMPT_DATA_2_BASE then 1
      else if b = PROMPT_DATA_3_BASE then 2 else 3)"

definition flash_read :: "images \<Rightarrow> u32 \<Rightarrow> int \<Rightarrow> (int \<times> u8 list) option" where
  "flash_read img addr len = do {
     d \<leftarrow> mem_read (img (flash_image addr)) (uint (0x0FFFFFFF AND addr)) len;
     Some (0, d) }"

section \<open>The directory\<close>

definition prompt_file_name_1 :: "string list" where
  "prompt_file_name_1 = [
    ''AlmDeleteOk.mp3'', ''AlmFull.mp3'', ''AlmNull.mp3'', ''AlmReminder.mp3'',
    ''AlmSetFail.mp3'', ''AlmSetSuccess.mp3'', ''AlmTimeInvalid.mp3'', ''AlmTimePass.mp3'',
    ''AlmTimeSame.mp3'', ''BfEnterLpRemind.mp3'', ''canNotCol.mp3'', ''Colted.mp3'',
    ''StartUp.mp3'', ''charge_prompt.mp3'']"

definition prompt_file_name_2 :: "string list" where
  "prompt_file_name_2 = [
    ''DeviceLock.mp3'', ''DeviceUnlock.mp3'', ''Ding.mp3'', ''HasNw.mp3'', ''LikeNull.mp3'',
    ''LKTranslate.mp3'', ''LKWechat.mp3'', ''LongKey.mp3'', ''LPEnter.mp3'', ''LpPmpt.mp3'',
    ''Song.mp3'', ''Story.mp3'', ''CHstudio.mp3'', ''English.mp3'', ''MinVolumn.mp3'',
    ''MaxVolumn.mp3'']"

definition prompt_file_name_3 :: "string list" where
  "prompt_file_name_3 = [
    ''LPWake.mp3'', ''noMountTfCard.mp3'', ''NoNw.mp3'', ''NoNwCfg.mp3'', ''NwBad.mp3'',
    ''NwCfg.mp3'', ''NwCfgFai.mp3'', ''NwCfging.mp3'', ''NwCfgOk.mp3'', ''NwCnted.mp3'',
    ''NwCntF.mp3'', ''NwDisCnt.mp3'', ''ImHere.mp3'']"

definition prompt_file_name_4 :: "string list" where
  "prompt_file_name_4 = [
    ''NwReCnted.mp3'', ''PleaseUnlock.mp3'', ''readyPlayColList.mp3'',
    ''readyPlayLocalRes.mp3'', ''RequestTimeout.mp3'', ''StyNoSpt.mp3'', ''tfCardNoRes.mp3'',
    ''TfCardPullOut.mp3'', ''UgFail.mp3'', ''UgStart.mp3'', ''UgSuc.mp3'', ''WechatMsgIn.mp3'',
    ''WechatMsgSend.mp3'', ''WechatUnread.mp3'']"

definition data_info :: "(string list \<times> u32) list" where
  "data_info = [(prompt_file_name_1, PROMPT_DATA_1_BASE), (prompt_file_name_2, PROMPT_DATA_2_BASE),
     (prompt_file_name_3, PROMPT_DATA_3_BASE), (prompt_file_name_4, PROMPT_DATA_4_BASE)]"

text \<open>\<open>strncmp(s, t, n) == 0\<close> for strings without their terminator.\<close>

definition strncmp_eq :: "string \<Rightarrow> string \<Rightarrow> nat \<Rightarrow> bool" where
  "strncmp_eq s t n = (take n (s @ [CHR 0x00]) = take n (t @ [CHR 0x00]))"

text \<open>The inner loop: the first entry of a list the name matches.\<close>

fun prompt_find :: "string \<Rightarrow> string list \<Rightarrow> nat \<Rightarrow> nat option" where
  "prompt_find name [] count = None"
| "prompt_find name (f # fs) count =
     (if strncmp_eq name f (length name) then Some count else prompt_find name fs (Suc count))"

fun prompt_search :: "string \<Rightarrow> (string list \<times> u32) list \<Rightarrow> nat \<Rightarrow> (nat \<times> nat) option" where
  "prompt_search name [] index = None"
| "prompt_search name (d # ds) index =
     (case prompt_find name (fst d) 0 of
        Some count \<Rightarrow> Some (index, count)
      | None \<Rightarrow> prompt_search name ds (Suc index))"

text \<open>\<open>strlen\<close> runs before the test for NULL. The inner option is \<open>None\<close> for the return
  value \<open>-1\<close>.\<close>

definition prompt_file_index_get :: "string option \<Rightarrow> (nat \<times> nat) option option" where
  "prompt_file_index_get file_name = do {
     name \<leftarrow> file_name; Some (prompt_search name data_info 0) }"

definition prompt_file_check_exist :: "string option \<Rightarrow> bool option" where
  "prompt_file_check_exist file_name = do {
     r \<leftarrow> prompt_file_index_get file_name; Some (r \<noteq> None) }"

text \<open>Offset and length of a sound, or \<open>None\<close> for \<open>-1\<close>. Both output pointers are
  given.\<close>

definition prompt_addr_info_get :: "images \<Rightarrow> string option \<Rightarrow> (u32 \<times> u32) option option" where
  "prompt_addr_info_get img file_name =
     (if file_name = None then Some None
      else do {
        r \<leftarrow> prompt_file_index_get file_name;
        case r of
          None \<Rightarrow> Some None
        | Some (di, fi) \<Rightarrow> do {
            let base = snd (data_info ! di);
            (ret, d) \<leftarrow> flash_read img (base + of_nat (fi * 8)) 8;
            Some (if ret \<noteq> 0 then None
              else Some (le_word (take 4 d) + base - ROM_BASE, le_word (drop 4 d))) } })"

text \<open>\<open>calloc((int)len, 1)\<close>: zeroed memory, or NULL.\<close>

definition pv_port_calloc :: "allocator \<Rightarrow> nat \<Rightarrow> u32 \<Rightarrow> u8 list option" where
  "pv_port_calloc mal k len =
     (if int_of_u32 len < 0 then None
      else map_option (\<lambda>m. replicate (unat len) 0) (mal k (unat len)))"

definition prompt_audio_data_get_by_offset ::
  "allocator \<Rightarrow> nat \<Rightarrow> images \<Rightarrow> u32 \<Rightarrow> u32 \<Rightarrow> u8 list option option" where
  "prompt_audio_data_get_by_offset mal k img offset_addr data_len =
     (case pv_port_calloc mal k data_len of
        None \<Rightarrow> Some None
      | Some buf \<Rightarrow> do {
          (ret, d) \<leftarrow> flash_read img (ROM_BASE + offset_addr) (int_of_u32 data_len);
          buf' \<leftarrow> mem_write buf 0 d;
          Some (if ret \<noteq> 0 then None else Some buf') })"

definition prompt_audio_data_get_by_name ::
  "allocator \<Rightarrow> nat \<Rightarrow> images \<Rightarrow> string option \<Rightarrow> u8 list option option" where
  "prompt_audio_data_get_by_name mal k img file_name =
     (if file_name = None then Some None
      else do {
        r \<leftarrow> prompt_addr_info_get img file_name;
        case r of
          None \<Rightarrow> Some None
        | Some (offset_addr, len) \<Rightarrow>
            (case pv_port_calloc mal k len of
               None \<Rightarrow> Some None
             | Some buf \<Rightarrow> do {
                 (ret, d) \<leftarrow> flash_read img (ROM_BASE + offset_addr) (int_of_u32 len);
                 buf' \<leftarrow> mem_write buf 0 d;
                 Some (if ret \<noteq> 0 then None else Some buf') }) })"

section \<open>Lookup\<close>

text \<open>The comparison accepts every entry that begins with the name.\<close>

lemma strncmp_prefix: "strncmp_eq s t (length s) \<longleftrightarrow> take (length s) (t @ [CHR 0x00]) = s"
  by (auto simp: strncmp_eq_def)

fun starts_with :: "string \<Rightarrow> string \<Rightarrow> bool" where
  "starts_with [] t = True"
| "starts_with (x # xs) [] = False"
| "starts_with (x # xs) (y # ys) = (x = y \<and> starts_with xs ys)"

lemma strncmp_starts: "strncmp_eq s t (length s) = starts_with s (t @ [CHR 0x00])"
proof -
  have "take (length s) u = s \<longleftrightarrow> starts_with s u" for u
    by (induction s u rule: starts_with.induct) auto
  then show ?thesis by (simp only: strncmp_prefix)
qed

lemma prompt_find_starts [code]:
  "prompt_find name [] count = None"
  "prompt_find name (f # fs) count =
     (if starts_with name (f @ [CHR 0x00]) then Some count else prompt_find name fs (Suc count))"
  by (simp_all add: strncmp_starts)

lemma prompt_index_exact:
  "\<forall>d < 4. \<forall>k < length (fst (data_info ! d)).
     prompt_file_index_get (Some (fst (data_info ! d) ! k)) = Some (Some (d, k))"
  by code_simp

lemma prompt_find_sound:
  "prompt_find name fs c = Some k \<Longrightarrow> c \<le> k \<and> k - c < length fs \<and>
     strncmp_eq name (fs ! (k - c)) (length name)"
proof (induction fs arbitrary: c)
  case (Cons f fs)
  show ?case
  proof (cases "strncmp_eq name f (length name)")
    case False
    with Cons.prems Cons.IH [of "Suc c"] show ?thesis
      by (auto simp: nth_Cons Suc_le_eq split: nat.splits)
        (metis Suc_diff_Suc diff_Suc_eq_diff_pred diff_self_eq_0 old.nat.inject less_Suc_eq_le)+
  qed (use Cons.prems in auto)
qed simp

lemma prompt_search_sound:
  "prompt_search name ds c = Some (i, k) \<Longrightarrow> c \<le> i \<and> i - c < length ds \<and>
     k < length (fst (ds ! (i - c))) \<and> strncmp_eq name (fst (ds ! (i - c)) ! k) (length name)"
proof (induction ds arbitrary: c)
  case (Cons d ds)
  show ?case
  proof (cases "prompt_find name (fst d) 0")
    case None
    with Cons.prems have "prompt_search name ds (Suc c) = Some (i, k)" by simp
    from Cons.IH [OF this] have h: "Suc c \<le> i" "i - Suc c < length ds"
      "k < length (fst (ds ! (i - Suc c)))" "strncmp_eq name (fst (ds ! (i - Suc c)) ! k) (length name)"
      by auto
    then have "i - c = Suc (i - Suc c)" by linarith
    with h show ?thesis by simp
  next
    case (Some j)
    with Cons.prems prompt_find_sound [OF Some] show ?thesis by auto
  qed
qed simp

section \<open>Reading a sound\<close>

lemma low_bits:
  fixes x :: u32
  assumes "uint x < 268435456"
  shows "0xC0000000 AND x = 0" "0x0FFFFFFF AND x = x"
    "bit x n \<Longrightarrow> n < 28"
proof -
  have t: "take_bit 28 x = x"
    using assms by (simp add: word_uint_eq_iff unsigned_take_bit_eq take_bit_int_eq_self)
  have bx: "bit x n \<Longrightarrow> n < 28" for n by (subst (asm) t [symmetric]) (simp add: bit_simps)
  then show "bit x n \<Longrightarrow> n < 28" by blast
  have m: "0xC0000000 = push_bit 30 (3 :: u32)" by (simp add: push_bit_eq_mult)
  have hb: "30 \<le> n" if "bit (0xC0000000 :: u32) n" for n
    using that [unfolded m bit_push_bit_iff] by blast
  have "\<not> (bit (0xC0000000 :: u32) n \<and> bit x n)" for n using hb [of n] bx [of n] by linarith
  then show "0xC0000000 AND x = 0" by (intro bit_eqI) (simp only: bit_and_iff bit_0_eq bot_apply bot_bool_def)
  have "0x0FFFFFFF = (mask 28 :: u32)" by (simp add: mask_eq_exp_minus_1)
  then show "0x0FFFFFFF AND x = x" using t by (simp add: take_bit_eq_mask and.commute)
qed

definition image_base :: "nat \<Rightarrow> u32" where
  "image_base d = push_bit 30 (of_nat d)"

lemma data_info_base: "d < 4 \<Longrightarrow> snd (data_info ! d) = image_base d"
  by (auto simp: data_info_def image_base_def prompt_bases less_Suc_eq eval_nat_numeral push_bit_eq_mult)

lemma flash_image_base:
  assumes "d < 4" "uint x < 268435456"
  shows "flash_image (image_base d + x) = d" "0x0FFFFFFF AND (image_base d + x) = x"
proof -
  note l = low_bits [OF assms(2)]
  have "image_base d + x = image_base d OR x"
    by (rule disjunctive_add) (auto simp: image_base_def bit_simps dest: l(3))
  then have b: "m AND (image_base d + x) = (m AND image_base d) OR (m AND x)" for m
    by (simp add: bit.conj_disj_distrib)
  have d: "d = 0 \<or> d = 1 \<or> d = 2 \<or> d = 3" using assms(1) by linarith
  then have *: "0xC0000000 AND image_base d = image_base d \<and> 0x0FFFFFFF AND image_base d = 0"
    by (elim disjE) (simp_all add: image_base_def push_bit_eq_mult)
  then have m: "0xC0000000 AND (image_base d + x) = image_base d" by (simp only: b l(1)) simp
  have "flash_image (image_base d + x) = (if image_base d = PROMPT_DATA_1_BASE then 0
      else if image_base d = PROMPT_DATA_2_BASE then 1 else if image_base d = PROMPT_DATA_3_BASE then 2 else 3)"
    by (simp only: flash_image_def Let_def m)
  with d show "flash_image (image_base d + x) = d"
    by (elim disjE) (simp_all add: image_base_def push_bit_eq_mult prompt_bases)
  show "0x0FFFFFFF AND (image_base d + x) = x" using * by (simp only: b l(2)) simp
qed

lemma flash_read_image:
  assumes "d < 4" "uint x < 268435456" "0 \<le> n" "uint x + n \<le> int (length (img d))"
  shows "flash_read img (image_base d + x) n = Some (0, take (nat n) (drop (unat x) (img d)))"
  using assms by (simp add: flash_read_def flash_image_base mem_read_ok)

text \<open>An image holds the entry \<open>(off, len)\<close> at position \<open>k\<close> of its directory and the
  bytes \<open>snd'\<close> of the sound at \<open>off\<close>.\<close>

definition image_entry :: "u8 list \<Rightarrow> nat \<Rightarrow> u32 \<Rightarrow> u8 list \<Rightarrow> bool" where
  "image_entry m k off sound \<longleftrightarrow>
     k * 8 + 8 \<le> length m \<and> uint off < 268435456 \<and> length sound < 2147483648 \<and>
     take 8 (drop (k * 8) m) = le_bytes 4 off @ le_bytes 4 (of_nat (length sound) :: u32) \<and>
     unat off + length sound \<le> length m \<and> take (length sound) (drop (unat off) m) = sound"

lemma directory_sizes: "\<forall>d < 4. length (fst (data_info ! d)) \<le> 16"
  by code_simp

lemma prompt_index_of:
  assumes "d < 4" "k < length (fst (data_info ! d))"
  shows "prompt_file_index_get (Some (fst (data_info ! d) ! k)) = Some (Some (d, k))" and "k < 16"
  using assms prompt_index_exact directory_sizes by (blast, fastforce)

lemma prompt_info:
  assumes "d < 4" "k < length (fst (data_info ! d))" "image_entry (img d) k off sound"
  shows "prompt_addr_info_get img (Some (fst (data_info ! d) ! k)) =
    Some (Some (image_base d + off, of_nat (length sound)))"
proof -
  note e = assms(3) [unfolded image_entry_def]
  note ix = prompt_index_of [OF assms(1,2)]
  have u: "unat (of_nat (k * 8) :: u32) = k * 8" "uint (of_nat (k * 8) :: u32) = int (k * 8)"
    using ix(2) by (intro unat_of_nat_u32 uint_of_nat_u32; simp)+
  have "flash_read img (image_base d + of_nat (k * 8)) 8 =
      Some (0, le_bytes 4 off @ le_bytes 4 (of_nat (length sound) :: u32))"
    using e ix(2) by (subst flash_read_image [OF assms(1)]) (simp_all only: u, simp_all)
  then show ?thesis
    using ix(1) by (simp add: prompt_addr_info_get_def data_info_base [OF assms(1)] le_word_bytes
        ROM_BASE_def add.commute)
qed

lemma prompt_by_offset:
  assumes "d < 4" "image_entry (img d) k off sound" "mal i (length sound) \<noteq> None"
  shows "prompt_audio_data_get_by_offset mal i img (image_base d + off) (of_nat (length sound)) =
    Some (Some sound)"
proof -
  note e = assms(2) [unfolded image_entry_def]
  have u: "unat (of_nat (length sound) :: u32) = length sound"
    "uint (of_nat (length sound) :: u32) = int (length sound)"
    using e by (intro unat_of_nat_u32 uint_of_nat_u32; simp)+
  then have "int_of_u32 (of_nat (length sound)) = int (length sound)"
    using e by (simp add: int_of_u32_small)
  moreover have r: "uint off + int (length sound) \<le> int (length (img d))"
  proof -
    have "uint off = int (unat off)" by simp
    moreover have "unat off + length sound \<le> length (img d)" using e by simp
    ultimately show ?thesis by linarith
  qed
  moreover have "flash_read img (image_base d + off) (int (length sound)) = Some (0, sound)"
    using e r by (subst flash_read_image [OF assms(1)]) simp_all
  ultimately show ?thesis
    using assms(3) by (auto simp: prompt_audio_data_get_by_offset_def pv_port_calloc_def ROM_BASE_def u(1)
        mem_write_ok)
qed

lemma prompt_by_name:
  assumes "d < 4" "k < length (fst (data_info ! d))" "image_entry (img d) k off sound"
    "mal i (length sound) \<noteq> None"
  shows "prompt_audio_data_get_by_name mal i img (Some (fst (data_info ! d) ! k)) = Some (Some sound)"
  using prompt_by_offset [where img = img and mal = mal and i = i, OF assms(1,3,4)]
  by (simp add: prompt_audio_data_get_by_name_def prompt_info [where img = img, OF assms(1-3)]
      prompt_audio_data_get_by_offset_def)

end
