(* ===== verification/Aac_Decoder.thy ===== *)
theory Aac_Decoder
  imports Mp3_Decoder
begin

text \<open>
  The AAC decoder of src/aac_decoder.c: a client of the state machine that reads a raw AAC stream or
  an M4A container, decodes a frame a round and queues its samples as bytes. The libraries faad2 and
  mp4ff, the callbacks and the allocator are the parameter \<open>aac_env\<close>; the container library
  gets the two callbacks the code hands it. The lemmas show the bytes of a frame, that a raw stream
  never leaves its buffers, that no memory is held in the idle state, and that polling an M4A file
  past its last sample reads a frame description nobody wrote.
\<close>

section \<open>State\<close>

definition AAC_DECODER_INPUT_SIZE :: int where "AAC_DECODER_INPUT_SIZE = 4608"
definition AAC_DECODER_MAX_ERR_COUNT :: int where "AAC_DECODER_MAX_ERR_COUNT = 20"

definition AAC_DECODER_EVENT_START :: u32 where "AAC_DECODER_EVENT_START = 1"
definition AAC_DECODER_EVENT_RESUME :: u32 where "AAC_DECODER_EVENT_RESUME = 2"
definition AAC_DECODER_EVENT_PAUSE :: u32 where "AAC_DECODER_EVENT_PAUSE = 4"
definition AAC_DECODER_EVENT_STOP :: u32 where "AAC_DECODER_EVENT_STOP = 16"
definition AAC_DECODER_EVENT_SEEK :: u32 where "AAC_DECODER_EVENT_SEEK = 32"

definition AAC_DECODER_STA_IDLE :: u32 where "AAC_DECODER_STA_IDLE = 0"
definition AAC_DECODER_STA_RUN :: u32 where "AAC_DECODER_STA_RUN = 1"
definition AAC_DECODER_STA_PAUSE :: u32 where "AAC_DECODER_STA_PAUSE = 2"

lemmas aac_states = AAC_DECODER_STA_IDLE_def AAC_DECODER_STA_RUN_def AAC_DECODER_STA_PAUSE_def

text \<open>What a decode call reports: the bytes it used, its error code and the samples, which
  \<open>sample_buffer\<close> points to.\<close>

record aac_frame =
  fi_bytesconsumed :: int
  fi_error :: u8
  fi_samples :: "u16 list"

record ('m, 'f) aac_mem =
  am_dec :: 'm
  am_info :: audio_decoder_info
  am_infile :: "'f option"
  am_track :: int
  am_num_samples :: int
  am_sample_id :: int
  am_input :: "u8 list"
  am_remain :: int
  am_output :: "u8 list option"
  am_output_size :: int
  am_output_total :: int
  am_error :: int

record ('m, 'f, 'c) aac_decoder =
  ad_is_m4a :: bool
  ad_input_done :: bool
  ad_output_done :: bool
  ad_mem :: "('m, 'f) aac_mem option"
  ad_seek_position :: real
  ad_initialized :: bool
  ad_input :: "'c option"
  ad_error_cb :: "'c option"
  ad_seek :: "'c option"
  ad_output :: "'c option"

text \<open>The callbacks the container library calls back with: a read of some bytes and a seek.\<close>

type_synonym 'w reader = "u32 \<Rightarrow> 'w \<Rightarrow> (u32 \<times> u8 list \<times> 'w) option"
type_synonym 'w seeker = "u64 \<Rightarrow> 'w \<Rightarrow> (u32 \<times> 'w) option"

record ('m, 'f, 'c, 'w) aac_env =
  NeAACDecOpen :: 'm
  NeAACDecInit :: "u8 list \<Rightarrow> 'm \<Rightarrow> int \<times> u32 \<times> u8 \<times> 'm"
  NeAACDecInit2 :: "u8 list option \<Rightarrow> 'm \<Rightarrow> int \<times> u32 \<times> u8 \<times> 'm"
  NeAACDecAudioSpecificConfig :: "u8 list \<Rightarrow> int"
  NeAACDecDecode :: "u8 list option \<Rightarrow> 'm \<Rightarrow> aac_frame \<times> 'm"
  mp4ff_open_read :: "'w reader \<Rightarrow> 'w seeker \<Rightarrow> 'w \<Rightarrow> ('f option \<times> 'w) option"
  mp4ff_total_tracks :: "'f \<Rightarrow> nat"
  mp4ff_get_decoder_config :: "'f \<Rightarrow> int \<Rightarrow> u8 list option"
  mp4ff_num_samples :: "'f \<Rightarrow> int \<Rightarrow> int"
  mp4ff_get_avg_bitrate :: "'f \<Rightarrow> int \<Rightarrow> u32"
  mp4ff_get_track_duration :: "'f \<Rightarrow> int \<Rightarrow> u32"
  mp4ff_read_sample :: "'w reader \<Rightarrow> 'w seeker \<Rightarrow> 'f \<Rightarrow> int \<Rightarrow> int \<Rightarrow> 'w \<Rightarrow> (u8 list option \<times> 'f \<times> 'w) option"
  aac_input :: "'c \<Rightarrow> int \<Rightarrow> 'w \<Rightarrow> int \<times> u8 list \<times> 'w"
  aac_error :: "'c \<Rightarrow> int \<Rightarrow> 'w \<Rightarrow> 'w"
  aac_seek :: "'c \<Rightarrow> int \<Rightarrow> 'w \<Rightarrow> int \<times> 'w"
  aac_output :: "'c \<Rightarrow> audio_decoder_info \<Rightarrow> u8 list \<Rightarrow> int \<Rightarrow> 'w \<Rightarrow> int \<times> 'w"
  aac_alloc :: allocator
  aac_mem_size :: nat

type_synonym ('m, 'f, 'c, 'w) aac_state = "('m, 'f, 'c) aac_decoder \<times> nat \<times> 'w"

section \<open>Callbacks for the container library\<close>

definition read_callback :: "('m, 'f, 'c, 'w) aac_env \<Rightarrow> ('m, 'f, 'c) aac_decoder \<Rightarrow> 'w reader" where
  "read_callback env d len w = do {
     cb \<leftarrow> ad_input d;
     let (n, bytes, w) = aac_input env cb (int_of_u32 len) w;
     Some (u32_of_int n, bytes, w) }"

definition seek_callback :: "('m, 'f, 'c, 'w) aac_env \<Rightarrow> ('m, 'f, 'c) aac_decoder \<Rightarrow> 'w seeker" where
  "seek_callback env d position w = do {
     cb \<leftarrow> ad_seek d;
     let (n, w) = aac_seek env cb (int_of_u32 (ucast position)) w;
     Some (u32_of_int n, w) }"

text \<open>The first track, from number \<open>i\<close> on with \<open>n\<close> left, whose configuration the decoder
  accepts.\<close>

fun find_track :: "('m, 'f, 'c, 'w) aac_env \<Rightarrow> 'f \<Rightarrow> nat \<Rightarrow> nat \<Rightarrow> int" where
  "find_track env infile i 0 = - 1"
| "find_track env infile i (Suc n) =
     (case mp4ff_get_decoder_config env infile (int i) of
        None \<Rightarrow> find_track env infile (Suc i) n
      | Some buff \<Rightarrow> if NeAACDecAudioSpecificConfig env buff < 0 then find_track env infile (Suc i) n else int i)"

definition GetAACTrack :: "('m, 'f, 'c, 'w) aac_env \<Rightarrow> 'f \<Rightarrow> int" where
  "GetAACTrack env infile = find_track env infile 0 (mp4ff_total_tracks env infile)"

section \<open>Memory\<close>

definition aac_decoder_dealloc_memory :: "('m, 'f) aac_mem option \<Rightarrow> ('m, 'f) aac_mem option" where
  "aac_decoder_dealloc_memory mem = (case mem of None \<Rightarrow> None | Some m \<Rightarrow> None)"

definition aac_decoder_alloc_memory ::
  "('m, 'f, 'c, 'w) aac_env \<Rightarrow> nat \<Rightarrow> ('m, 'f) aac_mem option \<Rightarrow> nat \<times> ('m, 'f) aac_mem option" where
  "aac_decoder_alloc_memory env k mem =
     (let none = aac_decoder_dealloc_memory mem in
      if aac_alloc env k (aac_mem_size env) = None then (k + 1, none)
      else (k + 1, Some \<lparr>am_dec = NeAACDecOpen env, am_info = decoder_info_zero, am_infile = None,
        am_track = 0, am_num_samples = 0, am_sample_id = 0, am_input = replicate 4608 0, am_remain = 0,
        am_output = None, am_output_size = 0, am_output_total = 0, am_error = 0\<rparr>))"

section \<open>Stream headers\<close>

text \<open>Opening an M4A container. The result is whether decoding can start.\<close>

definition aac_init_m4a ::
  "('m, 'f, 'c, 'w) aac_env \<Rightarrow> ('m, 'f, 'c) aac_decoder \<Rightarrow> ('m, 'f) aac_mem \<Rightarrow> 'w \<Rightarrow>
     (bool \<times> ('m, 'f) aac_mem \<times> 'w) option" where
  "aac_init_m4a env d mem w = do {
     (infile, w) \<leftarrow> mp4ff_open_read env (read_callback env d) (seek_callback env d) w;
     let mem = mem\<lparr>am_infile := infile\<rparr>;
     case infile of
       None \<Rightarrow> Some (False, mem, w)
     | Some f \<Rightarrow>
         (let track = GetAACTrack env f;
              mem = mem\<lparr>am_track := track\<rparr> in
          if track < 0 then Some (False, mem, w)
          else let (ret, rate, chan, dec) = NeAACDecInit2 env (mp4ff_get_decoder_config env f track) (am_dec mem);
                   mem = mem\<lparr>am_dec := dec\<rparr> in
            if ret < 0 then Some (False, mem, w)
            else Some (True, mem\<lparr>am_num_samples := mp4ff_num_samples env f track,
              am_info := (am_info mem)\<lparr>di_bit_rate := mp4ff_get_avg_bitrate env f track,
                di_tag_size := mp4ff_get_track_duration env f track,
                di_sample_rate := rate, di_channels := chan\<rparr>\<rparr>, w)) }"

text \<open>The bit rate an ADIF header states, the frame length of an ADTS header.\<close>

definition adif_bitrate :: "u8 list \<Rightarrow> u32" where
  "adif_bitrate b =
     (let skip = (if b ! 4 AND 0x80 \<noteq> 0 then 9 else 0)
      in push_bit 19 (ucast (b ! (4 + skip) AND 0x0F)) OR push_bit 11 (ucast (b ! (5 + skip)))
         OR push_bit 3 (ucast (b ! (6 + skip))) OR drop_bit 5 (ucast (b ! (7 + skip) AND 0xE0)))"

definition adts_frame_len :: "u8 list \<Rightarrow> u32" where
  "adts_frame_len b = push_bit 11 (ucast (b ! 3 AND 0x03)) OR push_bit 3 (ucast (b ! 4))
     OR drop_bit 5 (ucast (b ! 5 AND 0xE0))"

definition stream_bit_rate :: "u8 list \<Rightarrow> u32 \<Rightarrow> u32 \<Rightarrow> u32" where
  "stream_bit_rate b rate old =
     (if take 4 b = map (of_char :: char \<Rightarrow> u8) ''ADIF'' then adif_bitrate b
      else if b ! 0 = 0xFF \<and> b ! 1 AND 0xF6 = 0xF0
      then ucast ((ucast (adts_frame_len b) * 8 * ucast rate :: u64) div 1024)
      else old)"

definition aac_init_raw :: "('m, 'f, 'c, 'w) aac_env \<Rightarrow> ('m, 'f) aac_mem \<Rightarrow> (bool \<times> ('m, 'f) aac_mem) option" where
  "aac_init_raw env mem = do {
     data \<leftarrow> mem_read (am_input mem) 0 (am_remain mem);
     let (ret, rate, chan, dec) = NeAACDecInit env data (am_dec mem);
     let info = (am_info mem)\<lparr>di_bit_rate := stream_bit_rate (am_input mem) rate (di_bit_rate (am_info mem))\<rparr>;
     Some (if ret < 0 then (False, mem\<lparr>am_dec := dec, am_info := info\<rparr>)
       else (True, mem\<lparr>am_dec := dec, am_info := info\<lparr>di_sample_rate := rate, di_channels := chan\<rparr>\<rparr>)) }"

definition aac_decoder_init_handler ::
  "('m, 'f, 'c, 'w) aac_env \<Rightarrow> ('m, 'f, 'c) aac_decoder \<Rightarrow> ('m, 'f) aac_mem \<Rightarrow> 'w \<Rightarrow>
     (bool \<times> ('m, 'f) aac_mem \<times> 'w) option" where
  "aac_decoder_init_handler env d mem w =
     (if ad_is_m4a d then aac_init_m4a env d mem w
      else do { (ok, mem) \<leftarrow> aac_init_raw env mem; Some (ok, mem, w) })"

section \<open>Output, errors, seeking\<close>

text \<open>What stays queued once \<open>n\<close> bytes were taken, and whether that is nothing.\<close>

definition aac_consume :: "u8 list \<Rightarrow> int \<Rightarrow> ('m, 'f) aac_mem \<Rightarrow> (bool \<times> ('m, 'f) aac_mem) option" where
  "aac_consume buf n mem =
     (if n < am_output_size mem then do {
        left \<leftarrow> c_int (am_output_size mem - n);
        rest \<leftarrow> mem_read buf n left;
        buf \<leftarrow> mem_write buf 0 rest;
        Some (False, mem\<lparr>am_output := Some buf, am_output_size := left\<rparr>) }
      else Some (True, mem\<lparr>am_output := None, am_output_size := 0\<rparr>))"

definition aac_decoder_output_handler ::
  "('m, 'f, 'c, 'w) aac_env \<Rightarrow> ('m, 'f, 'c) aac_decoder \<Rightarrow> ('m, 'f) aac_mem \<Rightarrow> 'w \<Rightarrow>
     (bool \<times> ('m, 'f) aac_mem \<times> 'w) option" where
  "aac_decoder_output_handler env d mem w =
     (case am_output mem of
        None \<Rightarrow> Some (True, mem, w)
      | Some buf \<Rightarrow> do {
          cb \<leftarrow> ad_output d;
          bytes \<leftarrow> mem_read buf 0 (am_output_size mem);
          let (n, w) = aac_output env cb (am_info mem) bytes (am_output_size mem) w;
          total \<leftarrow> c_int (am_output_total mem + n);
          (go, mem) \<leftarrow> aac_consume buf n (mem\<lparr>am_output_total := total\<rparr>);
          Some (go, mem, w) })"

definition aac_decoder_error_handler ::
  "('m, 'f, 'c, 'w) aac_env \<Rightarrow> ('m, 'f, 'c) aac_decoder \<Rightarrow> 'w \<Rightarrow> 'w" where
  "aac_decoder_error_handler env d w =
     (case (ad_mem d, ad_error_cb d) of
        (Some mem, Some cb) \<Rightarrow>
          (if AAC_DECODER_MAX_ERR_COUNT \<le> am_error mem then aac_error env cb (am_error mem) w
           else if ad_output_done d \<and> am_output_total mem \<le> 0 then aac_error env cb (am_error mem) w
           else w)
      | _ \<Rightarrow> w)"

text \<open>A \<open>double\<close> stored in a \<open>long\<close>: truncated, undefined out of range.\<close>

definition long_of_double :: "real \<Rightarrow> int option" where
  "long_of_double x =
     (let t = (if 0 \<le> x then \<lfloor>x\<rfloor> else \<lceil>x\<rceil>)
      in if - (2 ^ 63) \<le> t \<and> t < 2 ^ 63 then Some t else None)"

definition aac_decoder_seek_handler :: "('m, 'f, 'c) aac_decoder \<Rightarrow> ('m, 'f, 'c) aac_decoder option" where
  "aac_decoder_seek_handler d =
     (case (ad_mem d, ad_seek d) of
        (Some mem, Some cb) \<Rightarrow> do {
          let mem = (case am_output mem of None \<Rightarrow> mem
            | Some b \<Rightarrow> mem\<lparr>am_output := None, am_output_size := 0\<rparr>);
          if ad_is_m4a d \<and> 0 < am_num_samples mem then do {
            s \<leftarrow> long_of_double (ad_seek_position d * of_int (am_num_samples mem));
            Some (d\<lparr>ad_mem := Some (mem\<lparr>am_sample_id := s\<rparr>)\<rparr>) }
          else Some (d\<lparr>ad_mem := Some mem\<rparr>) }
      | _ \<Rightarrow> Some d)"

section \<open>The poll action\<close>

text \<open>The raw stream's input: \<open>Some st\<close> ends the action with that state.\<close>

definition aac_input_step ::
  "('m, 'f, 'c, 'w) aac_env \<Rightarrow> ('m, 'f, 'c) aac_decoder \<Rightarrow> ('m, 'f) aac_mem \<Rightarrow> 'w \<Rightarrow>
     (bool \<times> ('m, 'f) aac_mem \<times> 'w) option" where
  "aac_input_step env d mem w =
     (if ad_is_m4a d then Some (True, mem, w)
      else do {
        cb \<leftarrow> ad_input d;
        let (n, bytes, w) = aac_input env cb (AAC_DECODER_INPUT_SIZE - am_remain mem) w;
        ib \<leftarrow> mem_write (am_input mem) (am_remain mem) bytes;
        let mem = mem\<lparr>am_input := ib\<rparr>;
        if n \<le> 0 then Some (False, mem, w)
        else do { r \<leftarrow> c_int (am_remain mem + n); Some (True, mem\<lparr>am_remain := r\<rparr>, w) } })"

text \<open>Decoding a frame. At the end of the container no frame is decoded and the description that the
  rest of the action reads is uninitialised.\<close>

definition aac_decode_m4a ::
  "('m, 'f, 'c, 'w) aac_env \<Rightarrow> ('m, 'f, 'c) aac_decoder \<Rightarrow> ('m, 'f) aac_mem \<Rightarrow> 'w \<Rightarrow>
     (aac_frame \<times> ('m, 'f) aac_mem \<times> 'w) option" where
  "aac_decode_m4a env d mem w =
     (if am_num_samples mem \<le> am_sample_id mem then None
      else do {
        f \<leftarrow> am_infile mem;
        (buffer, f, w) \<leftarrow> mp4ff_read_sample env (read_callback env d) (seek_callback env d) f
          (am_track mem) (am_sample_id mem) w;
        let (fi, dec) = NeAACDecDecode env buffer (am_dec mem);
        Some (fi, mem\<lparr>am_infile := Some f, am_dec := dec, am_sample_id := am_sample_id mem + 1\<rparr>, w) })"

definition aac_decode_raw :: "('m, 'f, 'c, 'w) aac_env \<Rightarrow> ('m, 'f) aac_mem \<Rightarrow> (aac_frame \<times> ('m, 'f) aac_mem) option" where
  "aac_decode_raw env mem = do {
     data \<leftarrow> mem_read (am_input mem) 0 (am_remain mem);
     let (fi, dec) = NeAACDecDecode env (Some data) (am_dec mem);
     let r = int_of_u32 (u32_of_int (am_remain mem - fi_bytesconsumed fi));
     let mem = mem\<lparr>am_dec := dec, am_remain := r\<rparr>;
     if 0 < r then do {
       rest \<leftarrow> mem_read (am_input mem) (fi_bytesconsumed fi) r;
       ib \<leftarrow> mem_write (am_input mem) 0 rest;
       Some (fi, mem\<lparr>am_input := ib\<rparr>) }
     else Some (fi, mem) }"

text \<open>The copy loop: two bytes a sample.\<close>

definition aac_store_samples :: "u16 list \<Rightarrow> u8 list \<Rightarrow> u8 list option" where
  "aac_store_samples vs = each [0..<length vs] (\<lambda>j buf. do {
     buf \<leftarrow> mem_write buf (2 * int j) [ucast (vs ! j)];
     mem_write buf (2 * int j + 1) [ucast (drop_bit 8 (vs ! j))] })"

definition aac_frame_step ::
  "('m, 'f, 'c, 'w) aac_env \<Rightarrow> ('m, 'f, 'c) aac_decoder \<Rightarrow> nat \<Rightarrow> aac_frame \<Rightarrow> ('m, 'f) aac_mem \<Rightarrow> 'w \<Rightarrow>
     (u32 \<times> nat \<times> ('m, 'f) aac_mem \<times> 'w) option" where
  "aac_frame_step env d k fi mem w =
     (if fi_error fi \<noteq> 0
      then Some (COM_FSM_HOLD_STATE, k, mem\<lparr>am_remain := 0, am_error := AAC_DECODER_MAX_ERR_COUNT\<rparr>, w)
      else if 0 < length (fi_samples fi) then do {
        buf \<leftarrow> aac_alloc env k (length (fi_samples fi) * 2);
        buf \<leftarrow> aac_store_samples (fi_samples fi) buf;
        (go, mem, w) \<leftarrow> aac_decoder_output_handler env d (mem\<lparr>am_output := Some buf,
          am_output_size := int (length (fi_samples fi)) * 2, am_error := 0\<rparr>) w;
        Some (if go then COM_FSM_HOLD_STATE else AAC_DECODER_STA_PAUSE, k + 1, mem, w) }
      else Some (COM_FSM_HOLD_STATE, k, mem, w))"

text \<open>From the header check on.\<close>

definition aac_decode_step ::
  "('m, 'f, 'c, 'w) aac_env \<Rightarrow> ('m, 'f, 'c) aac_decoder \<Rightarrow> nat \<Rightarrow> ('m, 'f) aac_mem \<Rightarrow> 'w \<Rightarrow>
     (u32 \<times> ('m, 'f, 'c, 'w) aac_state) option" where
  "aac_decode_step env d k mem w = do {
     (ok, mem, w) \<leftarrow> (if ad_initialized d then Some (True, mem, w) else aac_decoder_init_handler env d mem w);
     let d = d\<lparr>ad_initialized := ok\<rparr>;
     if \<not> ok then Some (COM_FSM_HOLD_STATE,
       d\<lparr>ad_mem := Some (mem\<lparr>am_error := AAC_DECODER_MAX_ERR_COUNT\<rparr>)\<rparr>, k, w)
     else do {
       (fi, mem, w) \<leftarrow> (if ad_is_m4a d then aac_decode_m4a env d mem w
         else do { (fi, mem) \<leftarrow> aac_decode_raw env mem; Some (fi, mem, w) });
       (st, k, mem, w) \<leftarrow> aac_frame_step env d k fi mem w;
       Some (st, d\<lparr>ad_mem := Some mem\<rparr>, k, w) } }"

definition aac_decoder_run_poll ::
  "('m, 'f, 'c, 'w) aac_env \<Rightarrow> ('m, 'f, 'c, 'w) aac_state \<Rightarrow> (u32 \<times> ('m, 'f, 'c, 'w) aac_state) option" where
  "aac_decoder_run_poll env s = do {
     let (d, k, w) = s;
     let w = aac_decoder_error_handler env d w;
     mem \<leftarrow> ad_mem d;
     (go, mem, w) \<leftarrow> aac_decoder_output_handler env d mem w;
     if \<not> go then Some (AAC_DECODER_STA_PAUSE, d\<lparr>ad_mem := Some mem\<rparr>, k, w)
     else if ad_input_done d
     then Some (AAC_DECODER_STA_PAUSE, d\<lparr>ad_mem := Some mem, ad_output_done := True\<rparr>, k, w)
     else do {
       (go, mem, w) \<leftarrow> aac_input_step env d mem w;
       if \<not> go then Some (AAC_DECODER_STA_PAUSE, d\<lparr>ad_mem := Some mem\<rparr>, k, w)
       else aac_decode_step env d k mem w } }"

section \<open>The machine\<close>

datatype aac_action = Aac_Start | Aac_Stop | Aac_Pause | Aac_Resume | Aac_Seek | Aac_Run_Poll

definition aac_decoder_start_action ::
  "('m, 'f, 'c, 'w) aac_env \<Rightarrow> ('m, 'f, 'c, 'w) aac_state \<Rightarrow> (u32 \<times> ('m, 'f, 'c, 'w) aac_state) option" where
  "aac_decoder_start_action env s =
     (let (k, mem) = aac_decoder_alloc_memory env (fst (snd s)) (ad_mem (fst s))
      in Some (AAC_DECODER_STA_RUN, (fst s)\<lparr>ad_mem := mem, ad_initialized := False\<rparr>, k, snd (snd s)))"

definition aac_decoder_stop_action ::
  "('m, 'f, 'c, 'w) aac_state \<Rightarrow> (u32 \<times> ('m, 'f, 'c, 'w) aac_state) option" where
  "aac_decoder_stop_action s = Some (AAC_DECODER_STA_IDLE,
     (fst s)\<lparr>ad_mem := aac_decoder_dealloc_memory (ad_mem (fst s))\<rparr>, snd s)"

definition aac_run :: "('m, 'f, 'c, 'w) aac_env \<Rightarrow> aac_action \<Rightarrow> ('m, 'f, 'c, 'w) aac_state \<Rightarrow>
    (u32 \<times> ('m, 'f, 'c, 'w) aac_state) option" where
  "aac_run env a s = (case a of
      Aac_Start \<Rightarrow> aac_decoder_start_action env s
    | Aac_Stop \<Rightarrow> aac_decoder_stop_action s
    | Aac_Pause \<Rightarrow> Some (AAC_DECODER_STA_PAUSE, s)
    | Aac_Resume \<Rightarrow> Some (AAC_DECODER_STA_RUN, s)
    | Aac_Seek \<Rightarrow> do { d \<leftarrow> aac_decoder_seek_handler (fst s); Some (COM_FSM_HOLD_STATE, d, snd s) }
    | Aac_Run_Poll \<Rightarrow> aac_decoder_run_poll env s)"

definition aac_exec :: "('m, 'f, 'c, 'w) aac_env \<Rightarrow> (aac_action, ('m, 'f, 'c, 'w) aac_state) fsm_exec" where
  "aac_exec env a s = do { (st, u) \<leftarrow> aac_run env a (snd s); Some (st, fst s, u) }"

definition aac_lookup :: "aac_action com_fsm_lookup list" where
  "aac_lookup = [
     \<lparr>lk_event = AAC_DECODER_EVENT_START, lk_state = AAC_DECODER_STA_IDLE, lk_action = Aac_Start, lk_timeout = 0\<rparr>,
     \<lparr>lk_event = AAC_DECODER_EVENT_STOP, lk_state = AAC_DECODER_STA_RUN, lk_action = Aac_Stop, lk_timeout = 0\<rparr>,
     \<lparr>lk_event = AAC_DECODER_EVENT_STOP, lk_state = AAC_DECODER_STA_PAUSE, lk_action = Aac_Stop, lk_timeout = 0\<rparr>,
     \<lparr>lk_event = AAC_DECODER_EVENT_PAUSE, lk_state = AAC_DECODER_STA_RUN, lk_action = Aac_Pause, lk_timeout = 0\<rparr>,
     \<lparr>lk_event = AAC_DECODER_EVENT_RESUME, lk_state = AAC_DECODER_STA_PAUSE, lk_action = Aac_Resume, lk_timeout = 0\<rparr>,
     \<lparr>lk_event = AAC_DECODER_EVENT_SEEK, lk_state = AAC_DECODER_STA_RUN, lk_action = Aac_Seek, lk_timeout = 0\<rparr>,
     \<lparr>lk_event = AAC_DECODER_EVENT_SEEK, lk_state = AAC_DECODER_STA_PAUSE, lk_action = Aac_Seek, lk_timeout = 0\<rparr>,
     \<lparr>lk_event = COM_FSM_EVENT_NONE, lk_state = AAC_DECODER_STA_RUN, lk_action = Aac_Run_Poll, lk_timeout = 0\<rparr>]"

definition aac_decoder_init ::
  "allocator \<Rightarrow> nat \<Rightarrow> nat \<times> aac_action com_fsm option \<times> ('m, 'f, 'c) aac_decoder" where
  "aac_decoder_init mal k =
     (let (k', f) = com_fsm_create_inner mal k aac_lookup None None
      in (k', f, \<lparr>ad_is_m4a = False, ad_input_done = False, ad_output_done = False, ad_mem = None,
            ad_seek_position = 0, ad_initialized = False,
            ad_input = None, ad_error_cb = None, ad_seek = None, ad_output = None\<rparr>))"

section \<open>The interface\<close>

type_synonym ('m, 'f, 'c, 'w) aac_sys = "aac_action com_fsm \<times> ('m, 'f, 'c, 'w) aac_state"
type_synonym ('m, 'f, 'c, 'w) aac_serve = "('m, 'f, 'c, 'w) aac_sys \<Rightarrow> ('m, 'f, 'c, 'w) aac_sys option"

definition aac_decoder_start :: "('m, 'f, 'c, 'w) aac_sys \<Rightarrow> bool \<Rightarrow> ('m, 'f, 'c, 'w) aac_sys option" where
  "aac_decoder_start s is_m4a = com_fsm_set_event Some
     (fst s, (fst (snd s))\<lparr>ad_is_m4a := is_m4a, ad_input_done := False, ad_output_done := False\<rparr>, snd (snd s))
     AAC_DECODER_EVENT_START 0"

definition aac_decoder_stop ::
  "('m, 'f, 'c, 'w) aac_serve \<Rightarrow> ('m, 'f, 'c, 'w) aac_sys \<Rightarrow> ('m, 'f, 'c, 'w) aac_sys option" where
  "aac_decoder_stop serve s = com_fsm_set_event serve s AAC_DECODER_EVENT_STOP 30000"

definition aac_decoder_pause ::
  "('m, 'f, 'c, 'w) aac_serve \<Rightarrow> ('m, 'f, 'c, 'w) aac_sys \<Rightarrow> bool \<Rightarrow> ('m, 'f, 'c, 'w) aac_sys option" where
  "aac_decoder_pause serve s from_isr =
     (if from_isr then do { f \<leftarrow> com_fsm_set_event_from_isr (Some (fst s)) AAC_DECODER_EVENT_PAUSE; Some (f, snd s) }
      else com_fsm_set_event serve s AAC_DECODER_EVENT_PAUSE 30000)"

definition aac_decoder_resume ::
  "('m, 'f, 'c, 'w) aac_serve \<Rightarrow> ('m, 'f, 'c, 'w) aac_sys \<Rightarrow> bool \<Rightarrow> ('m, 'f, 'c, 'w) aac_sys option" where
  "aac_decoder_resume serve s from_isr =
     (if from_isr then do { f \<leftarrow> com_fsm_set_event_from_isr (Some (fst s)) AAC_DECODER_EVENT_RESUME; Some (f, snd s) }
      else com_fsm_set_event serve s AAC_DECODER_EVENT_RESUME 30000)"

text \<open>The seek signals the MP3 decoder's event constant, which has the same value.\<close>

definition aac_decoder_seek ::
  "('m, 'f, 'c, 'w) aac_serve \<Rightarrow> ('m, 'f, 'c, 'w) aac_sys \<Rightarrow> real \<Rightarrow> ('m, 'f, 'c, 'w) aac_sys option" where
  "aac_decoder_seek serve s pos = com_fsm_set_event serve
     (fst s, (fst (snd s))\<lparr>ad_seek_position := pos\<rparr>, snd (snd s)) MP3_DECODER_EVENT_SEEK 30000"

definition aac_decoder_deinit :: "('m, 'f, 'c, 'w) aac_sys \<Rightarrow> ('m, 'f, 'c, 'w) aac_sys option" where
  "aac_decoder_deinit s = com_fsm_delete s"

definition aac_decoder_set_input_done :: "('m, 'f, 'c) aac_decoder \<Rightarrow> ('m, 'f, 'c) aac_decoder" where
  "aac_decoder_set_input_done d = d\<lparr>ad_input_done := True\<rparr>"

definition aac_decoder_is_output_done :: "('m, 'f, 'c) aac_decoder \<Rightarrow> bool" where
  "aac_decoder_is_output_done d = ad_output_done d"

definition aac_decoder_is_pause :: "aac_action com_fsm option \<Rightarrow> bool" where
  "aac_decoder_is_pause f = (com_fsm_get_state f = AAC_DECODER_STA_PAUSE)"

definition aac_api :: "('m, 'f, 'c, 'w) aac_state \<Rightarrow> ('m, 'f, 'c, 'w) aac_state \<Rightarrow> bool" where
  "aac_api s s' \<longleftrightarrow> ad_mem (fst s') = ad_mem (fst s) \<and> fst (snd s') = fst (snd s)"

section \<open>The bytes of a frame\<close>

definition aac_pcm :: "u16 list \<Rightarrow> u8 list" where
  "aac_pcm vs = concat (map (le_bytes 2) vs)"

lemma length_aac_pcm: "length (aac_pcm vs) = 2 * length vs"
  by (induction vs) (simp_all add: aac_pcm_def)

lemma le_bytes_2: "le_bytes 2 v = [ucast v, ucast (drop_bit 8 v)]"
  by (simp add: le_bytes_def upt_rec)

lemma mem_write_one: "i < length buf \<Longrightarrow> mem_write buf (int i) [v] = Some (buf[i := v])"
  by (simp add: mem_write_def upd_conv_take_nth_drop)

lemma store_samples:
  assumes "length m = 2 * length vs"
  shows "aac_store_samples vs m = Some (aac_pcm vs)"
proof -
  let ?P = "\<lambda>j buf. length buf = 2 * length vs \<and> take (2 * j) buf = aac_pcm (take j vs)"
  have "\<exists>buf'. aac_store_samples vs m = Some buf' \<and> ?P (length vs) buf'"
    unfolding aac_store_samples_def
  proof (rule each_upt [where P = ?P])
    fix j buf assume j: "j < length vs" and p: "?P j buf"
    have w: "mem_write buf (2 * int j) [v] = Some (buf[2 * j := v])" for v
      using mem_write_one [of "2 * j" buf v] j p by simp
    have w': "mem_write (buf[2 * j := v]) (2 * int j + 1) [v'] = Some (buf[2 * j := v, Suc (2 * j) := v'])" for v v'
      using mem_write_one [of "Suc (2 * j)" "buf[2 * j := v]" v'] j p by (simp add: add.commute)
    have "take (2 * Suc j) (buf[2 * j := v, Suc (2 * j) := v']) = take (2 * j) buf @ [v, v']" for v v'
      using j p by (simp add: take_Suc_conv_app_nth)
    moreover have "aac_pcm (take (Suc j) vs) = aac_pcm (take j vs) @ le_bytes 2 (vs ! j)"
      using j by (simp add: aac_pcm_def take_Suc_conv_app_nth)
    ultimately show "\<exists>s'. (do { buf \<leftarrow> mem_write buf (2 * int j) [ucast (vs ! j)];
        mem_write buf (2 * int j + 1) [ucast (drop_bit 8 (vs ! j))] }) = Some s' \<and> ?P (Suc j) s'"
      using p by (simp add: w w' le_bytes_2)
  qed (use assms in \<open>simp_all add: aac_pcm_def\<close>)
  then show ?thesis by auto
qed

section \<open>Memory of the machine\<close>

text \<open>A consumer takes between none and all of the bytes; a producer fills no more than it is given
  room for and reports how much; the decoder uses no more than it is given.\<close>

definition aac_sane :: "('m, 'f, 'c, 'w) aac_env \<Rightarrow> bool" where
  "aac_sane env \<longleftrightarrow> allocator_ok (aac_alloc env) \<and>
     (\<forall>cb info bs n w. 0 \<le> n \<longrightarrow> 0 \<le> fst (aac_output env cb info bs n w) \<and> fst (aac_output env cb info bs n w) \<le> n) \<and>
     (\<forall>cb room w n bs w'. 0 \<le> room \<longrightarrow> aac_input env cb room w = (n, bs, w') \<longrightarrow> n \<le> room \<and> length bs = nat n) \<and>
     (\<forall>bs dec fi dec'. NeAACDecDecode env (Some bs) dec = (fi, dec') \<longrightarrow>
        0 \<le> fi_bytesconsumed fi \<and> fi_bytesconsumed fi \<le> int (length bs))"

definition aac_wf :: "('m, 'f) aac_mem \<Rightarrow> bool" where
  "aac_wf mem \<longleftrightarrow> length (am_input mem) = 4608 \<and> 0 \<le> am_remain mem \<and> am_remain mem \<le> 4608 \<and>
     (case am_output mem of None \<Rightarrow> True
      | Some b \<Rightarrow> 0 < am_output_size mem \<and> am_output_size mem \<le> int (length b))"

definition aac_inv :: "('m, 'f, 'c, 'w) aac_env \<Rightarrow> u32 \<Rightarrow> ('m, 'f, 'c, 'w) aac_state \<Rightarrow> bool" where
  "aac_inv env st s \<longleftrightarrow>
     st \<in> {AAC_DECODER_STA_IDLE, AAC_DECODER_STA_RUN, AAC_DECODER_STA_PAUSE} \<and>
     (st = AAC_DECODER_STA_IDLE \<longrightarrow> ad_mem (fst s) = None) \<and>
     (aac_sane env \<longrightarrow> (\<forall>mem. ad_mem (fst s) = Some mem \<longrightarrow> aac_wf mem))"

lemma aac_wf_fields [simp]: "aac_wf (mem\<lparr>am_output_total := t\<rparr>) = aac_wf mem"
    "aac_wf (mem\<lparr>am_error := e\<rparr>) = aac_wf mem" "aac_wf (mem\<lparr>am_sample_id := i\<rparr>) = aac_wf mem"
    "aac_wf mem \<Longrightarrow> aac_wf (mem\<lparr>am_output := None, am_output_size := 0\<rparr>)"
    "aac_wf mem \<Longrightarrow> aac_wf (mem\<lparr>am_output := None, am_output_size := 0, am_sample_id := i\<rparr>)"
  by (simp_all add: aac_wf_def split: option.split)

lemma aac_consume_wf:
  assumes "aac_consume buf n mem = Some (go, mem')" "0 \<le> n" "am_output_size mem \<le> int (length buf)" "aac_wf mem"
  shows "aac_wf mem' \<and> (go \<longrightarrow> am_output mem' = None)"
  using assms
  by (auto simp: aac_consume_def aac_wf_def dest!: bind_eq_SomeD c_int_SomeD mem_write_length split: if_splits)

lemma aac_consume_ok:
  assumes "0 \<le> n" "n \<le> am_output_size mem" "am_output_size mem \<le> int (length buf)" "am_output_size mem \<le> 2147483647"
  shows "aac_consume buf n mem = Some (n = am_output_size mem,
    if n = am_output_size mem then mem\<lparr>am_output := None, am_output_size := 0\<rparr>
    else mem\<lparr>am_output := Some (take (nat (am_output_size mem - n)) (drop (nat n) buf) @
        drop (nat (am_output_size mem - n)) buf), am_output_size := am_output_size mem - n\<rparr>)"
proof (cases "n = am_output_size mem")
  case False
  with assms have lt: "n < am_output_size mem" by simp
  have l: "c_int (am_output_size mem - n) = Some (am_output_size mem - n)"
    using assms lt by (intro c_int_in_range) simp_all
  have "length (take (nat (am_output_size mem - n)) (drop (nat n) buf)) = nat (am_output_size mem - n)"
    using assms by simp
  with assms lt l show ?thesis by (simp add: aac_consume_def mem_read_def mem_write_def)
qed (simp add: aac_consume_def)

lemma aac_sane_output: "aac_sane env \<Longrightarrow> aac_output env cb info bs n w = (m, w') \<Longrightarrow> 0 \<le> n \<Longrightarrow> 0 \<le> m \<and> m \<le> n"
  unfolding aac_sane_def by (metis fst_conv)

lemma aac_sane_input: "aac_sane env \<Longrightarrow> aac_input env cb room w = (n, bs, w') \<Longrightarrow> 0 \<le> room \<Longrightarrow>
    n \<le> room \<and> length bs = nat n"
  unfolding aac_sane_def by blast

lemma aac_sane_decode: "aac_sane env \<Longrightarrow> NeAACDecDecode env (Some bs) dec = (fi, dec') \<Longrightarrow>
    0 \<le> fi_bytesconsumed fi \<and> fi_bytesconsumed fi \<le> int (length bs)"
  unfolding aac_sane_def by blast

lemma aac_output_wf:
  assumes "aac_decoder_output_handler env d mem w = Some (go, mem', w')" "aac_sane env" "aac_wf mem"
  shows "aac_wf mem' \<and> (go \<longrightarrow> am_output mem' = None)"
proof (cases "am_output mem")
  case (Some buf)
  with assms(1) obtain cb bytes n total where
    r: "aac_output env cb (am_info mem) bytes (am_output_size mem) w = (n, w')"
    "aac_consume buf n (mem\<lparr>am_output_total := total\<rparr>) = Some (go, mem')"
    by (auto simp: aac_decoder_output_handler_def Let_def dest!: bind_eq_SomeD split: prod.splits)
  from assms(3) Some have b: "0 < am_output_size mem" "am_output_size mem \<le> int (length buf)"
    by (simp_all add: aac_wf_def)
  from aac_consume_wf [OF r(2)] aac_sane_output [OF assms(2) r(1)] b assms(3) show ?thesis
    by simp
qed (use assms in \<open>simp add: aac_decoder_output_handler_def\<close>)

text \<open>The handler offers the queued bytes from the oldest on and keeps those that were not taken.\<close>

lemma aac_output_bytes:
  assumes "aac_sane env" "aac_wf mem" "ad_output d = Some cb" "am_output mem = Some buf"
    "- 2147483648 \<le> am_output_total mem" "am_output_total mem + am_output_size mem \<le> 2147483647"
    "am_output_size mem \<le> 2147483647"
  defines "bs \<equiv> take (nat (am_output_size mem)) buf"
  obtains n mem' w' where "aac_output env cb (am_info mem) bs (int (length bs)) w = (int n, w')"
    "aac_decoder_output_handler env d mem w = Some (drop n bs = [], mem', w')" "n \<le> length bs" "aac_wf mem'"
    "am_output_total mem' = am_output_total mem + int n"
    "(case am_output mem' of None \<Rightarrow> [] | Some b \<Rightarrow> take (nat (am_output_size mem')) b) = drop n bs"
    "am_num_samples mem' = am_num_samples mem" "am_remain mem' = am_remain mem" "am_input mem' = am_input mem"
proof -
  from assms(2,4) have b: "0 < am_output_size mem" "am_output_size mem \<le> int (length buf)"
    by (simp_all add: aac_wf_def)
  then have len: "int (length bs) = am_output_size mem" by (simp add: bs_def)
  obtain m w' where o: "aac_output env cb (am_info mem) bs (int (length bs)) w = (m, w')" by fastforce
  from aac_sane_output [OF assms(1) o] obtain n where n: "m = int n" "n \<le> length bs"
    by (metis nonneg_int_cases of_nat_0_le_iff of_nat_le_iff)
  let ?mem = "mem\<lparr>am_output_total := am_output_total mem + int n\<rparr>"
  have t: "c_int (am_output_total mem + int n) = Some (am_output_total mem + int n)"
    using assms(5,6) n(2) len by (intro c_int_in_range) simp_all
  have "aac_consume buf (int n) ?mem = Some (int n = am_output_size mem,
      if int n = am_output_size mem then ?mem\<lparr>am_output := None, am_output_size := 0\<rparr>
      else ?mem\<lparr>am_output := Some (take (nat (am_output_size mem - int n)) (drop n buf) @
        drop (nat (am_output_size mem - int n)) buf), am_output_size := am_output_size mem - int n\<rparr>)"
    (is "_ = Some (_, ?mem')")
    using aac_consume_ok [of "int n" ?mem buf] n(2) len b assms(7) by simp
  moreover have e: "(int n = am_output_size mem) = (drop n bs = [])" using n(2) len by auto
  ultimately have c: "aac_consume buf (int n) ?mem = Some (drop n bs = [], ?mem')" by simp
  then have h: "aac_decoder_output_handler env d mem w = Some (drop n bs = [], ?mem', w')"
    using assms(3,4) b o n(1) t len
    by (simp add: aac_decoder_output_handler_def mem_read_def flip: bs_def)
  show ?thesis
  proof (rule that [OF o [unfolded n(1)] h n(2)])
    show "aac_wf ?mem'" using aac_consume_wf [OF c] assms(2) b(2) by simp
    show "(case am_output ?mem' of None \<Rightarrow> [] | Some b \<Rightarrow> take (nat (am_output_size ?mem')) b) = drop n bs"
      using n(2) len b(2) by (auto simp: bs_def drop_take min_def nat_diff_distrib nat_le_iff)
  qed simp_all
qed

lemma aac_input_wf:
  assumes "aac_input_step env d mem w = Some (go, mem', w')" "aac_sane env" "aac_wf mem"
  shows "aac_wf mem' \<and> am_output mem' = am_output mem"
proof (cases "ad_is_m4a d")
  case False
  with assms(1) obtain cb n bs w1 ib where
    r: "aac_input env cb (4608 - am_remain mem) w = (n, bs, w1)" "mem_write (am_input mem) (am_remain mem) bs = Some ib"
    and h: "mem' = mem\<lparr>am_input := ib\<rparr> \<or> 0 < n \<and> mem' = mem\<lparr>am_input := ib, am_remain := am_remain mem + n\<rparr>"
    by (auto simp: aac_input_step_def AAC_DECODER_INPUT_SIZE_def Let_def dest!: bind_eq_SomeD c_int_SomeD
        split: prod.splits if_splits)
  have "n \<le> 4608 - am_remain mem"
    using aac_sane_input [OF assms(2) r(1)] assms(3) by (simp add: aac_wf_def)
  with h r(2) assms(3) show ?thesis
    by (auto simp: aac_wf_def dest!: mem_write_length split: option.splits)
qed (use assms in \<open>simp add: aac_input_step_def\<close>)

lemma aac_init_wf:
  assumes "aac_decoder_init_handler env d mem w = Some (ok, mem', w')" "aac_wf mem"
  shows "aac_wf mem' \<and> am_output mem' = am_output mem"
  using assms
  by (auto simp: aac_decoder_init_handler_def aac_init_m4a_def aac_init_raw_def aac_wf_def Let_def
      dest!: bind_eq_SomeD split: if_splits option.splits prod.splits)

lemma aac_m4a_wf:
  assumes "aac_decode_m4a env d mem w = Some (fi, mem', w')" "aac_wf mem"
  shows "aac_wf mem' \<and> am_output mem' = am_output mem"
  using assms
  by (auto simp: aac_decode_m4a_def aac_wf_def Let_def dest!: bind_eq_SomeD split: if_splits option.splits prod.splits)

lemma aac_raw_wf:
  assumes "aac_decode_raw env mem = Some (fi, mem')" "aac_sane env" "aac_wf mem"
  shows "aac_wf mem' \<and> am_output mem' = am_output mem \<and> am_remain mem' = am_remain mem - fi_bytesconsumed fi"
proof -
  from assms(1) obtain data dec where
    r: "mem_read (am_input mem) 0 (am_remain mem) = Some data" "NeAACDecDecode env (Some data) (am_dec mem) = (fi, dec)"
    by (auto simp: aac_decode_raw_def Let_def dest!: bind_eq_SomeD split: prod.splits if_splits)
  have c: "0 \<le> fi_bytesconsumed fi" "fi_bytesconsumed fi \<le> am_remain mem"
    using aac_sane_decode [OF assms(2) r(2)] mem_read_length [OF r(1)] by simp_all
  have m: "am_remain mem \<le> 4608" using assms(3) by (simp add: aac_wf_def)
  have "uint (u32_of_int (am_remain mem - fi_bytesconsumed fi)) = am_remain mem - fi_bytesconsumed fi"
    using c m by (intro uint_u32_of_int) simp_all
  then have "int_of_u32 (u32_of_int (am_remain mem - fi_bytesconsumed fi)) = am_remain mem - fi_bytesconsumed fi"
    using c m by (subst int_of_u32_small) simp_all
  with assms(1,3) r c show ?thesis
    by (auto simp: aac_decode_raw_def aac_wf_def Let_def dest!: bind_eq_SomeD mem_write_length
        split: if_splits option.splits)
qed

lemma aac_frame_wf:
  assumes "aac_frame_step env d k fi mem w = Some (st, k', mem', w')" "aac_sane env" "aac_wf mem"
  shows "aac_wf mem' \<and> (st = COM_FSM_HOLD_STATE \<or> st = AAC_DECODER_STA_PAUSE)"
proof (cases "fi_error fi = 0 \<and> fi_samples fi \<noteq> []")
  case True
  with assms(1) obtain buf0 buf go where b: "aac_alloc env k (length (fi_samples fi) * 2) = Some buf0"
    "aac_store_samples (fi_samples fi) buf0 = Some buf"
    "aac_decoder_output_handler env d (mem\<lparr>am_output := Some buf,
        am_output_size := int (length (fi_samples fi)) * 2, am_error := 0\<rparr>) w = Some (go, mem', w')"
    "st = (if go then COM_FSM_HOLD_STATE else AAC_DECODER_STA_PAUSE)"
    by (auto simp: aac_frame_step_def dest!: bind_eq_SomeD)
  have "length buf0 = 2 * length (fi_samples fi)"
    using assms(2) b(1) unfolding aac_sane_def allocator_ok_def by auto
  with b(2) have "buf = aac_pcm (fi_samples fi)" by (simp add: store_samples)
  then have "aac_wf (mem\<lparr>am_output := Some buf, am_output_size := int (length (fi_samples fi)) * 2, am_error := 0\<rparr>)"
    using assms(3) True by (simp add: aac_wf_def length_aac_pcm)
  from aac_output_wf [OF b(3) assms(2) this] b(4) show ?thesis by simp
qed (use assms in \<open>auto simp: aac_frame_step_def aac_wf_def split: if_splits option.splits\<close>)

lemma aac_decode_step_wf:
  assumes "aac_decode_step env d k mem w = Some (st, d', k', w')"
  shows "(st = COM_FSM_HOLD_STATE \<or> st = AAC_DECODER_STA_PAUSE) \<and>
    (\<exists>mem'. ad_mem d' = Some mem' \<and> (aac_sane env \<longrightarrow> aac_wf mem \<longrightarrow> aac_wf mem'))"
proof -
  from assms obtain ok mem1 w1 where
    1: "(if ad_initialized d then Some (True, mem, w) else aac_decoder_init_handler env d mem w) = Some (ok, mem1, w1)"
    by (auto simp: aac_decode_step_def dest!: bind_eq_SomeD)
  have w1: "aac_wf mem \<Longrightarrow> aac_wf mem1"
    using 1 by (auto split: if_splits dest: aac_init_wf)
  show ?thesis
  proof (cases ok)
    case False
    with 1 assms have "st = COM_FSM_HOLD_STATE"
      "ad_mem d' = Some (mem1\<lparr>am_error := AAC_DECODER_MAX_ERR_COUNT\<rparr>)"
      by (auto simp: aac_decode_step_def)
    then show ?thesis using w1 by simp
  next
    case True
    let ?d = "d\<lparr>ad_initialized := True\<rparr>"
    from True 1 assms obtain fi mem2 w2 mem3 where
      2: "(if ad_is_m4a ?d then aac_decode_m4a env ?d mem1 w1
         else do { (fi, mem) \<leftarrow> aac_decode_raw env mem1; Some (fi, mem, w1) }) = Some (fi, mem2, w2)"
      and 3: "aac_frame_step env ?d k fi mem2 w2 = Some (st, k', mem3, w')" "ad_mem d' = Some mem3"
      by (auto simp: aac_decode_step_def Let_def dest!: bind_eq_SomeD)
    have w2: "aac_sane env \<Longrightarrow> aac_wf mem1 \<Longrightarrow> aac_wf mem2"
      using 2 by (auto split: if_splits dest!: bind_eq_SomeD dest: aac_m4a_wf aac_raw_wf)
    have "st = COM_FSM_HOLD_STATE \<or> st = AAC_DECODER_STA_PAUSE"
      using 3(1) by (auto simp: aac_frame_step_def dest!: bind_eq_SomeD split: if_splits)
    with 3 w1 w2 show ?thesis by (auto dest: aac_frame_wf)
  qed
qed

lemma aac_run_poll_wf:
  assumes "aac_decoder_run_poll env (d, k, w) = Some (st, d', k', w')"
  shows "(st = COM_FSM_HOLD_STATE \<or> st = AAC_DECODER_STA_PAUSE) \<and>
    (aac_sane env \<longrightarrow> (\<forall>mem. ad_mem d = Some mem \<longrightarrow> aac_wf mem) \<longrightarrow>
      (\<forall>mem. ad_mem d' = Some mem \<longrightarrow> aac_wf mem))"
proof -
  from assms obtain mem go mem1 w1 where 1: "ad_mem d = Some mem"
    "aac_decoder_output_handler env d mem (aac_decoder_error_handler env d w) = Some (go, mem1, w1)"
    by (auto simp: aac_decoder_run_poll_def dest!: bind_eq_SomeD)
  have w1: "aac_sane env \<Longrightarrow> aac_wf mem \<Longrightarrow> aac_wf mem1" using aac_output_wf [OF 1(2)] by simp
  show ?thesis
  proof (cases "go \<and> \<not> ad_input_done d")
    case False
    with 1 assms w1 show ?thesis by (auto simp: aac_decoder_run_poll_def split: if_splits)
  next
    case True
    with 1 assms obtain go2 mem2 w2 where 2: "aac_input_step env d mem1 w1 = Some (go2, mem2, w2)"
      "(if \<not> go2 then Some (AAC_DECODER_STA_PAUSE, d\<lparr>ad_mem := Some mem2\<rparr>, k, w2)
       else aac_decode_step env d k mem2 w2) = Some (st, d', k', w')"
      by (auto simp: aac_decoder_run_poll_def dest!: bind_eq_SomeD)
    have w2: "aac_sane env \<Longrightarrow> aac_wf mem1 \<Longrightarrow> aac_wf mem2" using aac_input_wf [OF 2(1)] by simp
    show ?thesis
    proof (cases go2)
      case True
      with 2(2) have "aac_decode_step env d k mem2 w2 = Some (st, d', k', w')" by simp
      from aac_decode_step_wf [OF this] w1 w2 1(1) show ?thesis by auto
    next
      case False
      with 2(2) w1 w2 1(1) show ?thesis by auto
    qed
  qed
qed

lemma aac_seek_wf:
  assumes "aac_decoder_seek_handler d = Some d'" "ad_mem d' = Some mem'" "\<forall>mem. ad_mem d = Some mem \<longrightarrow> aac_wf mem"
  shows "aac_wf mem'"
proof (cases "ad_mem d = None \<or> ad_seek d = None")
  case False
  then obtain mem cb where m: "ad_mem d = Some mem" "ad_seek d = Some cb" by auto
  with assms(3) have w: "aac_wf (case am_output mem of None \<Rightarrow> mem
      | Some b \<Rightarrow> mem\<lparr>am_output := None, am_output_size := 0\<rparr>)" (is "aac_wf ?m")
    by (simp split: option.split)
  have "\<exists>i. mem' = ?m \<or> mem' = ?m\<lparr>am_sample_id := i\<rparr>"
    using assms(1,2) m by (auto simp: aac_decoder_seek_handler_def Let_def bind_eq_Some_conv
        split: if_splits)
  with w show ?thesis by (elim exE disjE) simp_all
qed (use assms in \<open>auto simp: aac_decoder_seek_handler_def split: option.splits\<close>)

lemma aac_step:
  assumes "aac_inv env st0 u" "(ev, st0, a) \<in> set (map row_key aac_lookup)" "aac_run env a u = Some (st, u')"
  shows "aac_inv env (if st = COM_FSM_HOLD_STATE then st0 else st) u'"
proof -
  obtain d k w d' k' w' where u: "u = (d, k, w)" "u' = (d', k', w')" by (cases u; cases u')
  have hold: "AAC_DECODER_STA_PAUSE \<noteq> COM_FSM_HOLD_STATE" "AAC_DECODER_STA_RUN \<noteq> COM_FSM_HOLD_STATE"
    "AAC_DECODER_STA_IDLE \<noteq> COM_FSM_HOLD_STATE" "AAC_DECODER_STA_RUN \<noteq> AAC_DECODER_STA_IDLE"
    "AAC_DECODER_STA_PAUSE \<noteq> AAC_DECODER_STA_IDLE"
    by (simp_all add: aac_states COM_FSM_HOLD_STATE_def)
  from assms(2) consider "a = Aac_Start" | "a = Aac_Stop" | "a = Aac_Pause" "st0 = AAC_DECODER_STA_RUN"
    | "a = Aac_Resume" "st0 = AAC_DECODER_STA_PAUSE" | "a = Aac_Seek" "st0 \<noteq> AAC_DECODER_STA_IDLE"
    | "a = Aac_Run_Poll" "st0 = AAC_DECODER_STA_RUN"
    using hold by (auto simp: aac_lookup_def row_key_def)
  then show ?thesis
  proof cases
    case 1
    with assms(3) hold show ?thesis
      by (auto simp: aac_run_def aac_decoder_start_action_def aac_inv_def aac_decoder_alloc_memory_def
          aac_decoder_dealloc_memory_def aac_wf_def u Let_def split: if_splits option.splits)
  next
    case 2
    with assms(3) hold show ?thesis
      by (auto simp: aac_run_def aac_decoder_stop_action_def aac_inv_def u
          aac_decoder_dealloc_memory_def split: option.splits)
  next
    case 5
    with assms(3) have sk: "aac_decoder_seek_handler d = Some d'" "st = COM_FSM_HOLD_STATE"
      by (auto simp: aac_run_def bind_eq_Some_conv u)
    have "aac_sane env \<longrightarrow> (\<forall>mem. ad_mem d' = Some mem \<longrightarrow> aac_wf mem)"
      using aac_seek_wf [OF sk(1)] assms(1) unfolding aac_inv_def u fst_conv by blast
    moreover have "st0 \<in> {AAC_DECODER_STA_IDLE, AAC_DECODER_STA_RUN, AAC_DECODER_STA_PAUSE}"
      using assms(1) unfolding aac_inv_def by blast
    ultimately show ?thesis using 5(2) sk(2) unfolding aac_inv_def u fst_conv by simp
  next
    case 6
    with assms(3) have "aac_decoder_run_poll env (d, k, w) = Some (st, d', k', w')"
      by (simp add: aac_run_def u)
    note r = aac_run_poll_wf [OF this]
    have w: "aac_sane env \<longrightarrow> (\<forall>mem. ad_mem d' = Some mem \<longrightarrow> aac_wf mem)"
      using r assms(1) unfolding aac_inv_def u fst_conv by blast
    from r have "st = COM_FSM_HOLD_STATE \<or> st = AAC_DECODER_STA_PAUSE" by simp
    then show ?thesis using w hold 6(2) by (elim disjE) (simp_all add: aac_inv_def u)
  qed (use assms hold in \<open>auto simp: aac_run_def aac_inv_def u\<close>)
qed

interpretation aac: fsm_safe "aac_exec env" "map row_key aac_lookup" aac_api "aac_inv env"
proof unfold_locales
  fix f f' and u u' :: "('a, 'b, 'c, 'd) aac_state" and ev a st
  assume "aac_inv env (cur_state f) u" "(ev, cur_state f, a) \<in> set (map row_key aac_lookup)"
    "aac_exec env a (f, u) = Some (st, f', u')"
  moreover from this(3) have "f' = f" "aac_run env a u = Some (st, u')"
    by (auto simp: aac_exec_def dest!: bind_eq_SomeD)
  ultimately show "same_machine f f' \<and> aac_inv env (if st = COM_FSM_HOLD_STATE then cur_state f else st) u'"
    by (simp add: aac_step)
qed (auto simp: aac_inv_def aac_api_def)

section \<open>Polling a raw stream\<close>

lemma aac_output_defined:
  assumes "aac_sane env" "aac_wf mem" "ad_output d = Some cb" "0 \<le> am_output_total mem"
    "am_output_total mem \<le> 2000000000" "am_output mem = None \<or> am_output_size mem \<le> 32768"
  shows "\<exists>go mem' w'. aac_decoder_output_handler env d mem w = Some (go, mem', w') \<and> am_remain mem' = am_remain mem \<and>
    am_output_total mem \<le> am_output_total mem' \<and> am_output_total mem' \<le> am_output_total mem + 32768"
proof (cases "am_output mem")
  case (Some buf)
  with assms have "am_output_size mem \<le> 32768" by simp
  with assms Some aac_output_bytes [OF assms(1-3) Some, of w] show ?thesis
    by (smt (verit) int_nat_eq length_take min_less_iff_conj nat_int_comparison(3) not_less of_nat_0_le_iff)
qed (auto simp: aac_decoder_output_handler_def)

lemma aac_raw_defined:
  assumes "aac_sane env" "aac_wf mem"
  shows "\<exists>fi mem'. aac_decode_raw env mem = Some (fi, mem') \<and> am_output_total mem' = am_output_total mem \<and>
    (\<exists>bs dec. fi = fst (NeAACDecDecode env bs dec))"
proof -
  have m: "length (am_input mem) = 4608" "0 \<le> am_remain mem" "am_remain mem \<le> 4608"
    using assms(2) by (simp_all add: aac_wf_def)
  let ?data = "take (nat (am_remain mem)) (am_input mem)"
  have r: "mem_read (am_input mem) 0 (am_remain mem) = Some ?data" using m by (simp add: mem_read_def)
  obtain fi dec where d: "NeAACDecDecode env (Some ?data) (am_dec mem) = (fi, dec)" by fastforce
  have c: "0 \<le> fi_bytesconsumed fi" "fi_bytesconsumed fi \<le> am_remain mem"
    using aac_sane_decode [OF assms(1) d] m by simp_all
  have "uint (u32_of_int (am_remain mem - fi_bytesconsumed fi)) = am_remain mem - fi_bytesconsumed fi"
    using c m by (intro uint_u32_of_int) simp_all
  then have n: "int_of_u32 (u32_of_int (am_remain mem - fi_bytesconsumed fi)) = am_remain mem - fi_bytesconsumed fi"
    using c m by (subst int_of_u32_small) simp_all
  have fi: "\<exists>bs dec. fi = fst (NeAACDecDecode env bs dec)" using d by (metis fst_conv)
  have rd: "mem_read (am_input mem) (fi_bytesconsumed fi) (am_remain mem - fi_bytesconsumed fi) =
      Some (take (nat (am_remain mem - fi_bytesconsumed fi)) (drop (nat (fi_bytesconsumed fi)) (am_input mem)))"
    using c m by (intro mem_read_ok) simp_all
  obtain ib where "mem_write (am_input mem) 0 (take (nat (am_remain mem - fi_bytesconsumed fi))
      (drop (nat (fi_bytesconsumed fi)) (am_input mem))) = Some ib"
    using c m by (simp add: mem_write_def)
  with r d n rd fi show ?thesis by (simp add: aac_decode_raw_def Let_def)
qed

text \<open>With memory, callbacks, an allocator that never fails and frames of at most 16384 samples, a
  poll of a raw stream has a defined result: no access leaves a buffer.\<close>

definition aac_plenty :: "('m, 'f, 'c, 'w) aac_env \<Rightarrow> bool" where
  "aac_plenty env \<longleftrightarrow> aac_sane env \<and> (\<forall>k n. aac_alloc env k n \<noteq> None) \<and>
     (\<forall>bs dec. length (fi_samples (fst (NeAACDecDecode env bs dec))) \<le> 16384)"

lemma aac_init_raw_defined:
  assumes "aac_wf mem"
  shows "\<exists>ok mem'. aac_init_raw env mem = Some (ok, mem') \<and> am_output_total mem' = am_output_total mem"
proof -
  have "mem_read (am_input mem) 0 (am_remain mem) \<noteq> None"
    using assms by (simp add: aac_wf_def mem_read_def)
  then show ?thesis by (auto simp: aac_init_raw_def Let_def split: prod.split)
qed

lemma aac_frame_defined:
  assumes "aac_plenty env" "aac_wf mem" "ad_output d = Some cb" "0 \<le> am_output_total mem"
    "am_output_total mem \<le> 2000000000" "length (fi_samples fi) \<le> 16384"
  shows "\<exists>r. aac_frame_step env d k fi mem w = Some r"
proof (cases "fi_error fi = 0 \<and> fi_samples fi \<noteq> []")
  case True
  from assms(1) have s: "aac_sane env" by (simp add: aac_plenty_def)
  from assms(1) obtain buf0 where b: "aac_alloc env k (length (fi_samples fi) * 2) = Some buf0"
    unfolding aac_plenty_def by blast
  with s have "length buf0 = 2 * length (fi_samples fi)"
    unfolding aac_sane_def allocator_ok_def by auto
  note st = store_samples [OF this]
  let ?mem = "mem\<lparr>am_output := Some (aac_pcm (fi_samples fi)),
      am_output_size := int (length (fi_samples fi)) * 2, am_error := 0\<rparr>"
  have "aac_wf ?mem" using assms(2) True by (simp add: aac_wf_def length_aac_pcm)
  from aac_output_defined [OF s this assms(3), of w] assms(4-6) obtain go mem' w' where
    "aac_decoder_output_handler env d ?mem w = Some (go, mem', w')" by auto
  with True b st show ?thesis by (simp add: aac_frame_step_def)
qed (auto simp: aac_frame_step_def)

lemma aac_poll_raw:
  assumes "aac_plenty env" "ad_mem d = Some mem" "aac_wf mem" "\<not> ad_is_m4a d"
    "ad_output d = Some co" "ad_input d = Some ci" "0 \<le> am_output_total mem" "am_output_total mem \<le> 1000000000"
    "am_output mem = None \<or> am_output_size mem \<le> 32768"
  shows "\<exists>r. aac_decoder_run_poll env (d, k, w) = Some r"
proof -
  from assms(1) have s: "aac_sane env" by (simp add: aac_plenty_def)
  let ?w = "aac_decoder_error_handler env d w"
  have tot: "am_output_total mem \<le> 2000000000" using assms(8) by simp
  from aac_output_defined [OF s assms(3,5,7) tot assms(9), of ?w] obtain go mem1 w1 where
    1: "aac_decoder_output_handler env d mem ?w = Some (go, mem1, w1)" "am_remain mem1 = am_remain mem"
    and t1: "0 \<le> am_output_total mem1" "am_output_total mem1 \<le> 2000000000"
    using assms(7,8) by force
  have wf1: "aac_wf mem1" using aac_output_wf [OF 1(1) s assms(3)] by simp
  obtain n bs w2 where i: "aac_input env ci (4608 - am_remain mem1) w1 = (n, bs, w2)" by (metis prod_cases3)
  have r1: "length (am_input mem1) = 4608" "0 \<le> am_remain mem1" "am_remain mem1 \<le> 4608"
    using wf1 by (simp_all add: aac_wf_def)
  have nb: "n \<le> 4608 - am_remain mem1 \<and> length bs = nat n" using aac_sane_input [OF s i] r1 by simp
  then obtain ib where ib: "mem_write (am_input mem1) (am_remain mem1) bs = Some ib"
    using r1 by (cases "0 \<le> n") (simp_all add: mem_write_def)
  define mem2 where "mem2 = (if n \<le> 0 then mem1\<lparr>am_input := ib\<rparr>
      else mem1\<lparr>am_input := ib, am_remain := am_remain mem1 + n\<rparr>)"
  have c: "0 < n \<Longrightarrow> c_int (am_remain mem1 + n) = Some (am_remain mem1 + n)"
    using r1 nb by (intro c_int_in_range) simp_all
  have 2: "aac_input_step env d mem1 w1 = Some (0 < n, mem2, w2)"
    using assms(4,6) i ib c by (simp add: aac_input_step_def AAC_DECODER_INPUT_SIZE_def mem2_def)
  have wf2: "aac_wf mem2" using aac_input_wf [OF 2 s wf1] by simp
  have t2: "am_output_total mem2 = am_output_total mem1" by (simp add: mem2_def)
  have "\<exists>r. aac_decode_step env d k mem2 w2 = Some r"
  proof -
    obtain ok mem3 where 3: "(if ad_initialized d then Some (True, mem2, w2)
        else aac_decoder_init_handler env d mem2 w2) = Some (ok, mem3, w2)"
      and w3: "aac_wf mem3" and t3: "am_output_total mem3 = am_output_total mem2"
    proof (cases "ad_initialized d")
      case False
      from aac_init_raw_defined [OF wf2, of env] assms(4) obtain ok mem3 where
        h: "aac_decoder_init_handler env d mem2 w2 = Some (ok, mem3, w2)" "am_output_total mem3 = am_output_total mem2"
        by (auto simp: aac_decoder_init_handler_def)
      with aac_init_wf [OF h(1) wf2] False that show ?thesis by simp
    qed (use that [of True mem2] wf2 in simp)
    show ?thesis
    proof (cases ok)
      case True
      let ?d = "d\<lparr>ad_initialized := True\<rparr>"
      from aac_raw_defined [OF s w3] obtain fi mem4 bs' dec where
        4: "aac_decode_raw env mem3 = Some (fi, mem4)" "am_output_total mem4 = am_output_total mem3"
        "fi = fst (NeAACDecDecode env bs' dec)" by blast
      have "length (fi_samples fi) \<le> 16384" using assms(1) 4(3) by (simp add: aac_plenty_def)
      moreover have "aac_wf mem4" using aac_raw_wf [OF 4(1) s w3] by simp
      ultimately have "\<exists>r. aac_frame_step env ?d k fi mem4 w2 = Some r"
        by (intro aac_frame_defined [OF assms(1)]) (use assms(5) t1 t2 t3 4(2) in simp_all)
      then obtain st k' mem5 w5 where "aac_frame_step env ?d k fi mem4 w2 = Some (st, k', mem5, w5)" by auto
      with 3 4(1) True assms(4) show ?thesis by (simp add: aac_decode_step_def Let_def)
    qed (use 3 in \<open>simp add: aac_decode_step_def\<close>)
  qed
  with 1(1) 2 assms(2) show ?thesis by (auto simp: aac_decoder_run_poll_def)
qed

text \<open>At the end of a container the poll reads an uninitialised frame description, and a seek position
  of 1 or more moves there.\<close>

lemma aac_m4a_end:
  assumes "ad_mem d = Some mem" "ad_is_m4a d" "ad_initialized d" "\<not> ad_input_done d"
    "am_output mem = None" "am_num_samples mem \<le> am_sample_id mem"
  shows "aac_decoder_run_poll env (d, k, w) = None"
  using assms by (simp add: aac_decoder_run_poll_def aac_decoder_output_handler_def aac_input_step_def
      aac_decode_step_def aac_decode_m4a_def Let_def)

lemma aac_seek_past_end:
  assumes "ad_mem d = Some mem" "ad_seek d = Some cb" "ad_is_m4a d" "0 < am_num_samples mem"
    "am_num_samples mem \<le> 2147483647" "1 \<le> ad_seek_position d" "ad_seek_position d \<le> 100"
  shows "\<exists>mem'. aac_decoder_seek_handler d = Some (d\<lparr>ad_mem := Some mem'\<rparr>) \<and>
    am_num_samples mem' = am_num_samples mem \<and> am_num_samples mem' \<le> am_sample_id mem' \<and> am_output mem' = None"
proof -
  let ?x = "ad_seek_position d * of_int (am_num_samples mem)"
  have "of_int (am_num_samples mem) \<le> ?x" using assms(4,6) by simp
  moreover have "?x \<le> 100 * of_int (am_num_samples mem)" using assms(4,7) by simp
  ultimately have "am_num_samples mem \<le> \<lfloor>?x\<rfloor>" "\<lfloor>?x\<rfloor> \<le> 100 * am_num_samples mem"
    by (simp_all add: le_floor_iff floor_le_iff)
  moreover have "0 \<le> ?x" using assms(4,6) by simp
  moreover have "real_of_int (am_num_samples mem) \<le> 2147483647" using assms(5) by linarith
  with \<open>?x \<le> _\<close> have "?x < 9223372036854775808" by linarith
  ultimately have "long_of_double ?x = Some \<lfloor>?x\<rfloor>" "am_num_samples mem \<le> \<lfloor>?x\<rfloor>"
    using assms(4,5) unfolding long_of_double_def Let_def by simp_all
  with assms show ?thesis
    by (auto simp: aac_decoder_seek_handler_def Let_def split: option.split)
qed

end
