(* ===== verification/Com_Player.thy ===== *)
theory Com_Player
  imports Mp3_Decoder Aac_Decoder Pcm_Trans Samplerate_Convert
begin

text \<open>
  The player of src/common_player.c, which joins a decoder, the sample rate converter, a ring buffer
  and the PCM transmitter. Players are named by their address (a \<open>nat\<close>); the system state holds
  them with the transmitter and \<open>g_pcm_trans_holder\<close>, the player that owns the transmitter.
  The lemmas show that the transmitter's callback always belongs to the holder, that no player gets
  it while another has it, what the two callbacks move between decoder, ring buffer and transmitter,
  and where a seek goes. Machines that other tasks run while a call waits are the functions
  \<open>pe_tx\<close>, \<open>pe_mp3\<close>, \<open>pe_aac\<close> and \<open>pe_threads\<close> of the environment.
\<close>

section \<open>State\<close>

definition COM_PLAYER_OUTPUT_SIZE :: u32 where "COM_PLAYER_OUTPUT_SIZE = 32 * 1024"
definition COM_PLAYER_START_TIMEOUT :: u32 where "COM_PLAYER_START_TIMEOUT = 15000"

definition COM_PLAYER_EVENT_ALL :: u32 where "COM_PLAYER_EVENT_ALL = 0xFFFFFF"
definition COM_PLAYER_EVENT_DECODER :: u32 where "COM_PLAYER_EVENT_DECODER = 1"
definition COM_PLAYER_EVENT_EXIT :: u32 where "COM_PLAYER_EVENT_EXIT = 2"

datatype com_player_return = COM_PLAYER_SUCCESS | COM_PLAYER_ERR_PARAM | COM_PLAYER_ERR_PCM_TRANS
  | COM_PLAYER_ERR_EXIT | COM_PLAYER_ERR_TIMEOUT | COM_PLAYER_ERR_SEEK

datatype com_player_type = COM_PLAYER_TYPE_MP3 | COM_PLAYER_TYPE_AAC | COM_PLAYER_TYPE_M4A

text \<open>What a decoder calls: the player's own output callback or one of the player's client.\<close>

datatype 'c player_cb = Decoder_Output nat | Client_Cb 'c

record ('m, 'd, 'f, 'c, 'v, 's) com_player =
  cp_event :: "u32 option"
  cp_type :: com_player_type
  cp_mp3 :: "mp3_action com_fsm option \<times> ('m, 'c player_cb) mp3_decoder"
  cp_aac :: "aac_action com_fsm option \<times> ('d, 'f, 'c player_cb) aac_decoder"
  cp_output :: ring_buffer
  cp_info :: audio_decoder_info
  cp_wait_decoder :: bool
  cp_input_done :: bool
  cp_consumed :: u32
  cp_enable :: bool
  cp_converter :: "('v, 's) samplerate_convert option"

record ('m, 'd, 'f, 'c, 'v, 's, 'w) player_sys =
  ps_player :: "nat \<Rightarrow> ('m, 'd, 'f, 'c, 'v, 's) com_player"
  ps_holder :: "nat option"
  ps_tx :: "pcm_action com_fsm option \<times> nat pcm_trans"
  ps_k :: nat
  ps_w :: 'w

record ('m, 'd, 'f, 'c, 'v, 's, 'w) player_env =
  pe_alloc :: allocator
  pe_convert_size :: nat
  pe_zero :: 'v
  pe_src :: "('v, 's, real) src_env"
  pe_tx :: "(nat, 'w) tx_serve"
  pe_mp3 :: "('m, 'c player_cb, 'w) mp3_sys \<Rightarrow> ('m, 'c player_cb, 'w) mp3_sys option"
  pe_aac :: "('d, 'f, 'c player_cb, 'w) aac_serve"
  pe_threads :: "('m, 'd, 'f, 'c, 'v, 's, 'w) player_sys \<Rightarrow> ('m, 'd, 'f, 'c, 'v, 's, 'w) player_sys option"

definition set_player ::
  "nat \<Rightarrow> (('m, 'd, 'f, 'c, 'v, 's) com_player \<Rightarrow> ('m, 'd, 'f, 'c, 'v, 's) com_player) \<Rightarrow>
     ('m, 'd, 'f, 'c, 'v, 's, 'w) player_sys \<Rightarrow> ('m, 'd, 'f, 'c, 'v, 's, 'w) player_sys" where
  "set_player p g s = s\<lparr>ps_player := (ps_player s)(p := g (ps_player s p))\<rparr>"

text \<open>The state machine interface takes a NULL machine as it takes one without an event group: it
  does nothing.\<close>

definition null_fsm :: "'a com_fsm" where
  "null_fsm = \<lparr>event_handle = None, event_ack_handle = None, cur_state = 0, lookup_table = [],
     init_action = None, deinit_action = None\<rparr>"

definition with_fsm :: "('a com_fsm \<times> 'u \<Rightarrow> ('a com_fsm \<times> 'u) option) \<Rightarrow> 'a com_fsm option \<Rightarrow> 'u \<Rightarrow>
    ('a com_fsm option \<times> 'u) option" where
  "with_fsm call fo u = (case fo of
       None \<Rightarrow> do { (f, u) \<leftarrow> call (null_fsm, u); Some (None, u) }
     | Some f \<Rightarrow> do { (f, u) \<leftarrow> call (f, u); Some (Some f, u) })"

definition on_tx :: "((nat, 'w) tx_state \<Rightarrow> (nat, 'w) tx_state option) \<Rightarrow>
    ('m, 'd, 'f, 'c, 'v, 's, 'w) player_sys \<Rightarrow> ('m, 'd, 'f, 'c, 'v, 's, 'w) player_sys option" where
  "on_tx call s = do {
     (fo, t, w) \<leftarrow> with_fsm call (fst (ps_tx s)) (snd (ps_tx s), ps_w s);
     Some (s\<lparr>ps_tx := (fo, t), ps_w := w\<rparr>) }"

definition on_mp3 :: "(('m, 'c player_cb, 'w) mp3_sys \<Rightarrow> ('m, 'c player_cb, 'w) mp3_sys option) \<Rightarrow> nat \<Rightarrow>
    ('m, 'd, 'f, 'c, 'v, 's, 'w) player_sys \<Rightarrow> ('m, 'd, 'f, 'c, 'v, 's, 'w) player_sys option" where
  "on_mp3 call p s = do {
     (fo, d, k, w) \<leftarrow> with_fsm call (fst (cp_mp3 (ps_player s p))) (snd (cp_mp3 (ps_player s p)), ps_k s, ps_w s);
     Some (set_player p (\<lambda>c. c\<lparr>cp_mp3 := (fo, d)\<rparr>) (s\<lparr>ps_k := k, ps_w := w\<rparr>)) }"

definition on_aac :: "('d, 'f, 'c player_cb, 'w) aac_serve \<Rightarrow> nat \<Rightarrow>
    ('m, 'd, 'f, 'c, 'v, 's, 'w) player_sys \<Rightarrow> ('m, 'd, 'f, 'c, 'v, 's, 'w) player_sys option" where
  "on_aac call p s = do {
     (fo, d, k, w) \<leftarrow> with_fsm call (fst (cp_aac (ps_player s p))) (snd (cp_aac (ps_player s p)), ps_k s, ps_w s);
     Some (set_player p (\<lambda>c. c\<lparr>cp_aac := (fo, d)\<rparr>) (s\<lparr>ps_k := k, ps_w := w\<rparr>)) }"

text \<open>The branch every operation takes on the type of its decoder.\<close>

definition on_decoder ::
  "(('m, 'c player_cb, 'w) mp3_sys \<Rightarrow> ('m, 'c player_cb, 'w) mp3_sys option) \<Rightarrow> ('d, 'f, 'c player_cb, 'w) aac_serve \<Rightarrow>
     nat \<Rightarrow> ('m, 'd, 'f, 'c, 'v, 's, 'w) player_sys \<Rightarrow> ('m, 'd, 'f, 'c, 'v, 's, 'w) player_sys option" where
  "on_decoder mp3_call aac_call p s =
     (if cp_type (ps_player s p) = COM_PLAYER_TYPE_MP3 then on_mp3 mp3_call p s else on_aac aac_call p s)"

definition mp3_data :: "(('m, 'c player_cb) mp3_decoder \<Rightarrow> ('m, 'c player_cb) mp3_decoder) \<Rightarrow>
    ('m, 'd, 'f, 'c, 'v, 's) com_player \<Rightarrow> ('m, 'd, 'f, 'c, 'v, 's) com_player" where
  "mp3_data g c = c\<lparr>cp_mp3 := (fst (cp_mp3 c), g (snd (cp_mp3 c)))\<rparr>"

definition aac_data :: "(('d, 'f, 'c player_cb) aac_decoder \<Rightarrow> ('d, 'f, 'c player_cb) aac_decoder) \<Rightarrow>
    ('m, 'd, 'f, 'c, 'v, 's) com_player \<Rightarrow> ('m, 'd, 'f, 'c, 'v, 's) com_player" where
  "aac_data g c = c\<lparr>cp_aac := (fst (cp_aac c), g (snd (cp_aac c)))\<rparr>"

definition decoder_data where
  "decoder_data g h c = (if cp_type c = COM_PLAYER_TYPE_MP3 then mp3_data g c else aac_data h c)"

section \<open>Events\<close>

definition com_player_set_event :: "nat \<Rightarrow> u32 \<Rightarrow> ('m, 'd, 'f, 'c, 'v, 's, 'w) player_sys \<Rightarrow> ('m, 'd, 'f, 'c, 'v, 's, 'w) player_sys" where
  "com_player_set_event p events =
     set_player p (\<lambda>c. c\<lparr>cp_event := map_option (\<lambda>ev. common_set_event ev events) (cp_event c)\<rparr>)"

definition com_player_wait_event :: "nat \<Rightarrow> u32 \<Rightarrow> u32 \<Rightarrow> ('m, 'd, 'f, 'c, 'v, 's, 'w) player_sys \<Rightarrow>
    (u32 \<times> ('m, 'd, 'f, 'c, 'v, 's, 'w) player_sys) option" where
  "com_player_wait_event p events timeout s =
     (case cp_event (ps_player s p) of
        None \<Rightarrow> Some (0, s)
      | Some ev \<Rightarrow> do {
          (ret, ev') \<leftarrow> common_wait_event ev events timeout [Wakeup [] True];
          Some (ret, set_player p (\<lambda>c. c\<lparr>cp_event := Some ev'\<rparr>) s) })"

definition com_player_clear_event :: "nat \<Rightarrow> u32 \<Rightarrow> ('m, 'd, 'f, 'c, 'v, 's, 'w) player_sys \<Rightarrow> ('m, 'd, 'f, 'c, 'v, 's, 'w) player_sys" where
  "com_player_clear_event p events =
     set_player p (\<lambda>c. c\<lparr>cp_event := map_option (\<lambda>ev. common_clear_event ev events) (cp_event c)\<rparr>)"

section \<open>Creation\<close>

definition com_player_zero :: "('m, 'd, 'f, 'c, 'v, 's) com_player" where
  "com_player_zero = \<lparr>cp_event = None, cp_type = COM_PLAYER_TYPE_MP3,
     cp_mp3 = (None, \<lparr>md_input_done = False, md_output_done = False, md_seek_position = 0, md_mem = None,
        md_input = None, md_error_cb = None, md_seek = None, md_output = None\<rparr>),
     cp_aac = (None, \<lparr>ad_is_m4a = False, ad_input_done = False, ad_output_done = False, ad_mem = None,
        ad_seek_position = 0, ad_initialized = False,
        ad_input = None, ad_error_cb = None, ad_seek = None, ad_output = None\<rparr>),
     cp_output = \<lparr>rb_read = 0, rb_write = 0, rb_size = 0, rb_buffer = None\<rparr>,
     cp_info = decoder_info_zero, cp_wait_decoder = False, cp_input_done = False, cp_consumed = 0,
     cp_enable = False, cp_converter = None\<rparr>"

definition com_player_init :: "('m, 'd, 'f, 'c, 'v, 's, 'w) player_env \<Rightarrow> nat \<Rightarrow> ('m, 'd, 'f, 'c, 'v, 's, 'w) player_sys \<Rightarrow>
    com_player_return \<times> ('m, 'd, 'f, 'c, 'v, 's, 'w) player_sys" where
  "com_player_init env p s =
     (let ev = common_create_event (pe_alloc env) (ps_k s);
          (err, rb) = ring_buffer_init (pe_alloc env) (ps_k s + 1) COM_PLAYER_OUTPUT_SIZE
      in (COM_PLAYER_SUCCESS, set_player p (\<lambda>c. com_player_zero\<lparr>cp_event := ev, cp_output := rb\<rparr>)
            (s\<lparr>ps_k := ps_k s + 2\<rparr>)))"

definition com_player_deinit :: "nat \<Rightarrow> ('m, 'd, 'f, 'c, 'v, 's, 'w) player_sys \<Rightarrow>
    com_player_return \<times> ('m, 'd, 'f, 'c, 'v, 's, 'w) player_sys" where
  "com_player_deinit p s = (COM_PLAYER_SUCCESS,
     set_player p (\<lambda>c. c\<lparr>cp_event := None, cp_output := snd (ring_buffer_deinit (cp_output c))\<rparr>) s)"

section \<open>Start\<close>

text \<open>Setting up the decoder of the given type with its callbacks, and starting it.\<close>

definition start_mp3 :: "('m, 'd, 'f, 'c, 'v, 's, 'w) player_env \<Rightarrow> nat \<Rightarrow> 'c option \<Rightarrow> 'c option \<Rightarrow> 'c option \<Rightarrow>
    ('m, 'd, 'f, 'c, 'v, 's, 'w) player_sys \<Rightarrow> ('m, 'd, 'f, 'c, 'v, 's, 'w) player_sys option" where
  "start_mp3 env p input error seek s =
     (let (k, f, d) = mp3_decoder_init (pe_alloc env) (ps_k s);
          d = d\<lparr>md_input := map_option Client_Cb input, md_output := Some (Decoder_Output p),
            md_seek := map_option Client_Cb seek, md_error_cb := map_option Client_Cb error\<rparr>
      in on_mp3 mp3_decoder_start p (set_player p (\<lambda>c. c\<lparr>cp_mp3 := (f, d)\<rparr>) (s\<lparr>ps_k := k\<rparr>)))"

definition start_aac :: "('m, 'd, 'f, 'c, 'v, 's, 'w) player_env \<Rightarrow> nat \<Rightarrow> 'c option \<Rightarrow> 'c option \<Rightarrow> 'c option \<Rightarrow>
    ('m, 'd, 'f, 'c, 'v, 's, 'w) player_sys \<Rightarrow> ('m, 'd, 'f, 'c, 'v, 's, 'w) player_sys option" where
  "start_aac env p input error seek s =
     (let (k, f, d) = aac_decoder_init (pe_alloc env) (ps_k s);
          d = d\<lparr>ad_input := map_option Client_Cb input, ad_output := Some (Decoder_Output p),
            ad_seek := map_option Client_Cb seek, ad_error_cb := map_option Client_Cb error\<rparr>;
          s = set_player p (\<lambda>c. c\<lparr>cp_aac := (f, d)\<rparr>) (s\<lparr>ps_k := k\<rparr>)
      in on_aac (\<lambda>m. aac_decoder_start m (cp_type (ps_player s p) = COM_PLAYER_TYPE_M4A)) p s)"

text \<open>The flags start resets before anything else.\<close>

definition start_flags :: "com_player_type \<Rightarrow> ('m, 'd, 'f, 'c, 'v, 's) com_player \<Rightarrow> ('m, 'd, 'f, 'c, 'v, 's) com_player" where
  "start_flags audio_type c = c\<lparr>cp_input_done := False, cp_wait_decoder := True, cp_consumed := 0,
     cp_enable := True, cp_converter := None, cp_type := audio_type, cp_info := decoder_info_zero\<rparr>"

text \<open>Handing the transmitter to a player: its callback, the start, the holder. Starting the
  transmitter always reports success.\<close>

definition take_transmitter :: "('m, 'd, 'f, 'c, 'v, 's, 'w) player_env \<Rightarrow> nat \<Rightarrow>
    ('m, 'd, 'f, 'c, 'v, 's, 'w) player_sys \<Rightarrow> ('m, 'd, 'f, 'c, 'v, 's, 'w) player_sys option" where
  "take_transmitter env p s = do {
     let s = s\<lparr>ps_tx := (fst (ps_tx s), pcm_trans_register_callback (Some p) (snd (ps_tx s)))\<rparr>;
     on_tx (\<lambda>m. pcm_trans_start_tx (pe_tx env) m (di_sample_rate (cp_info (ps_player s p)))
       (di_channels (cp_info (ps_player s p)))) s }"

definition start_outcome :: "('m, 'd, 'f, 'c, 'v, 's, 'w) player_env \<Rightarrow> nat \<Rightarrow> u32 \<Rightarrow>
    ('m, 'd, 'f, 'c, 'v, 's, 'w) player_sys \<Rightarrow> (com_player_return \<times> ('m, 'd, 'f, 'c, 'v, 's, 'w) player_sys) option" where
  "start_outcome env p events s =
     (if COM_PLAYER_EVENT_DECODER AND events \<noteq> 0 then do {
        s \<leftarrow> take_transmitter env p s;
        Some (COM_PLAYER_SUCCESS, (set_player p (\<lambda>c. c\<lparr>cp_wait_decoder := False\<rparr>) s)\<lparr>ps_holder := Some p\<rparr>) }
      else if COM_PLAYER_EVENT_EXIT AND events \<noteq> 0 then Some (COM_PLAYER_ERR_EXIT, s)
      else Some (COM_PLAYER_ERR_TIMEOUT, s))"

definition com_player_start :: "('m, 'd, 'f, 'c, 'v, 's, 'w) player_env \<Rightarrow> nat \<Rightarrow> com_player_type \<Rightarrow>
    'c option \<Rightarrow> 'c option \<Rightarrow> 'c option \<Rightarrow> ('m, 'd, 'f, 'c, 'v, 's, 'w) player_sys \<Rightarrow>
    (com_player_return \<times> ('m, 'd, 'f, 'c, 'v, 's, 'w) player_sys) option" where
  "com_player_start env p audio_type input error seek s = do {
     let s = set_player p (start_flags audio_type) s;
     if ps_holder s \<noteq> None then Some (COM_PLAYER_ERR_PCM_TRANS, s)
     else case samplerate_convert_alloc (pe_alloc env) (ps_k s) (pe_convert_size env) (pe_zero env) of
       None \<Rightarrow> Some (COM_PLAYER_ERR_PCM_TRANS, s\<lparr>ps_k := ps_k s + 1\<rparr>)
     | Some cv \<Rightarrow> do {
         let s = set_player p (\<lambda>c. c\<lparr>cp_converter := Some cv\<rparr>) (s\<lparr>ps_k := ps_k s + 1\<rparr>);
         s \<leftarrow> (if audio_type = COM_PLAYER_TYPE_MP3 then start_mp3 env p input error seek s
              else start_aac env p input error seek s);
         s \<leftarrow> pe_threads env s;
         (events, s) \<leftarrow> com_player_wait_event p (COM_PLAYER_EVENT_DECODER OR COM_PLAYER_EVENT_EXIT)
           COM_PLAYER_START_TIMEOUT s;
         start_outcome env p events s } }"

section \<open>Stop, pause, resume\<close>

definition drop_transmitter :: "('m, 'd, 'f, 'c, 'v, 's, 'w) player_env \<Rightarrow> nat \<Rightarrow>
    ('m, 'd, 'f, 'c, 'v, 's, 'w) player_sys \<Rightarrow> ('m, 'd, 'f, 'c, 'v, 's, 'w) player_sys option" where
  "drop_transmitter env p s =
     (if ps_holder s = Some p then do {
        let s = s\<lparr>ps_tx := (fst (ps_tx s), pcm_trans_register_callback None (snd (ps_tx s)))\<rparr>;
        s \<leftarrow> on_tx (pcm_trans_stop_tx (pe_tx env)) s;
        Some (s\<lparr>ps_holder := None\<rparr>) }
      else Some s)"

definition unregister :: "('m, 'd, 'f, 'c, 'v, 's) com_player \<Rightarrow> ('m, 'd, 'f, 'c, 'v, 's) com_player" where
  "unregister = decoder_data
     (\<lambda>d. d\<lparr>md_input := None, md_output := None, md_seek := None, md_error_cb := None\<rparr>)
     (\<lambda>d. d\<lparr>ad_input := None, ad_output := None, ad_error_cb := None, ad_seek := None\<rparr>)"

text \<open>Deletion hands the machine to its task and clears the pointer.\<close>

definition forget_machine :: "('m, 'd, 'f, 'c, 'v, 's) com_player \<Rightarrow> ('m, 'd, 'f, 'c, 'v, 's) com_player" where
  "forget_machine c = (if cp_type c = COM_PLAYER_TYPE_MP3 then c\<lparr>cp_mp3 := (None, snd (cp_mp3 c))\<rparr>
     else c\<lparr>cp_aac := (None, snd (cp_aac c))\<rparr>)"

definition com_player_stop :: "('m, 'd, 'f, 'c, 'v, 's, 'w) player_env \<Rightarrow> nat \<Rightarrow>
    ('m, 'd, 'f, 'c, 'v, 's, 'w) player_sys \<Rightarrow> (com_player_return \<times> ('m, 'd, 'f, 'c, 'v, 's, 'w) player_sys) option" where
  "com_player_stop env p s = do {
     let s = set_player p (\<lambda>c. c\<lparr>cp_enable := False\<rparr>) s;
     s \<leftarrow> drop_transmitter env p s;
     s \<leftarrow> on_decoder (mp3_decoder_stop (pe_mp3 env)) (aac_decoder_stop (pe_aac env)) p s;
     let s = set_player p unregister s;
     s \<leftarrow> on_decoder mp3_decoder_deinit aac_decoder_deinit p s;
     let s = set_player p forget_machine s;
     let s = set_player p (\<lambda>c. c\<lparr>cp_output := snd (ring_buffer_clear (cp_output c))\<rparr>) s;
     let s = com_player_clear_event p COM_PLAYER_EVENT_ALL s;
     let s = set_player p (\<lambda>c. c\<lparr>cp_converter := samplerate_convert_dealloc (cp_converter c)\<rparr>) s;
     Some (COM_PLAYER_SUCCESS, s) }"

definition com_player_pause :: "('m, 'd, 'f, 'c, 'v, 's, 'w) player_env \<Rightarrow> nat \<Rightarrow>
    ('m, 'd, 'f, 'c, 'v, 's, 'w) player_sys \<Rightarrow> (com_player_return \<times> ('m, 'd, 'f, 'c, 'v, 's, 'w) player_sys) option" where
  "com_player_pause env p s = do {
     let s = set_player p (\<lambda>c. c\<lparr>cp_enable := False\<rparr>) s;
     s \<leftarrow> drop_transmitter env p s;
     s \<leftarrow> on_decoder (\<lambda>m. mp3_decoder_pause (pe_mp3 env) m False) (\<lambda>m. aac_decoder_pause (pe_aac env) m False) p s;
     Some (COM_PLAYER_SUCCESS, s) }"

definition com_player_resume :: "('m, 'd, 'f, 'c, 'v, 's, 'w) player_env \<Rightarrow> nat \<Rightarrow>
    ('m, 'd, 'f, 'c, 'v, 's, 'w) player_sys \<Rightarrow> (com_player_return \<times> ('m, 'd, 'f, 'c, 'v, 's, 'w) player_sys) option" where
  "com_player_resume env p s =
     (if ps_holder s \<noteq> None then Some (COM_PLAYER_ERR_PCM_TRANS, s)
      else do {
        s \<leftarrow> take_transmitter env p (set_player p (\<lambda>c. c\<lparr>cp_enable := True\<rparr>) s);
        Some (COM_PLAYER_SUCCESS, s\<lparr>ps_holder := Some p\<rparr>) })"

section \<open>Seeking, progress\<close>

text \<open>\<open>double\<close> expressions are over the reals. The position in the file and the bytes that
  position stands for.\<close>

definition mp3_seek_target :: "audio_decoder_info \<Rightarrow> int \<Rightarrow> real \<Rightarrow> (int \<times> u32) option" where
  "mp3_seek_target info total_len seek_progress = do {
     cur \<leftarrow> int_of_double (of_int (uint (u32_of_int total_len - di_tag_size info)) * seek_progress / 100);
     n \<leftarrow> int_of_double (of_int (COM_PLAYER_FIXED_CHANNELS * uint COM_PLAYER_FIXED_SAMPLERATE * 2) * of_int cur * 8
       / of_int (uint (di_bit_rate info)));
     let pos = int_of_u32 (u32_of_int cur + di_tag_size info);
     Some (if total_len \<le> pos then total_len - 1 else pos, u32_of_int n) }"

definition m4a_seek_consumed :: "audio_decoder_info \<Rightarrow> real \<Rightarrow> u32 option" where
  "m4a_seek_consumed info seek_progress = do {
     n \<leftarrow> int_of_double (seek_progress * of_int (uint (di_tag_size info)) / of_int (uint (di_sample_rate info))
       * of_int COM_PLAYER_FIXED_CHANNELS * of_int (uint COM_PLAYER_FIXED_SAMPLERATE) * 2);
     Some (u32_of_int n) }"

definition bad_stream :: "int \<Rightarrow> audio_decoder_info \<Rightarrow> bool" where
  "bad_stream total_len info \<longleftrightarrow>
     total_len \<le> 0 \<or> di_bit_rate info \<le> 0 \<or> di_sample_rate info \<le> 0 \<or> di_channels info \<le> 0"

definition com_player_seek :: "('m, 'd, 'f, 'c, 'v, 's, 'w) player_env \<Rightarrow> nat \<Rightarrow> int \<Rightarrow> real \<Rightarrow>
    ('m, 'd, 'f, 'c, 'v, 's, 'w) player_sys \<Rightarrow> (com_player_return \<times> ('m, 'd, 'f, 'c, 'v, 's, 'w) player_sys) option" where
  "com_player_seek env p total_len seek_progress s =
     (let info = cp_info (ps_player s p);
          clear = set_player p (\<lambda>c. c\<lparr>cp_output := snd (ring_buffer_clear (cp_output c))\<rparr>) in
      if bad_stream total_len info then Some (COM_PLAYER_ERR_SEEK, s)
      else case cp_type (ps_player s p) of
        COM_PLAYER_TYPE_MP3 \<Rightarrow> do {
          (pos, n) \<leftarrow> mp3_seek_target info total_len seek_progress;
          s \<leftarrow> on_mp3 (\<lambda>m. mp3_decoder_seek (pe_mp3 env) m (of_int pos)) p (set_player p (\<lambda>c. c\<lparr>cp_consumed := n\<rparr>) s);
          Some (COM_PLAYER_SUCCESS, clear s) }
      | COM_PLAYER_TYPE_M4A \<Rightarrow> do {
          n \<leftarrow> m4a_seek_consumed info seek_progress;
          s \<leftarrow> on_aac (\<lambda>m. aac_decoder_seek (pe_aac env) m seek_progress) p (set_player p (\<lambda>c. c\<lparr>cp_consumed := n\<rparr>) s);
          Some (COM_PLAYER_SUCCESS, clear s) }
      | COM_PLAYER_TYPE_AAC \<Rightarrow> Some (COM_PLAYER_SUCCESS, s))"

definition com_player_set_done :: "nat \<Rightarrow> bool \<Rightarrow> ('m, 'd, 'f, 'c, 'v, 's, 'w) player_sys \<Rightarrow> ('m, 'd, 'f, 'c, 'v, 's, 'w) player_sys" where
  "com_player_set_done p error_occur s =
     (let s = set_player p (decoder_data mp3_decoder_set_input_done aac_decoder_set_input_done) s
      in if error_occur \<or> cp_wait_decoder (ps_player s p) then com_player_set_event p COM_PLAYER_EVENT_EXIT s else s)"

definition com_player_is_done :: "('m, 'd, 'f, 'c, 'v, 's, 'w) player_sys \<Rightarrow> bool option" where
  "com_player_is_done s = do { st \<leftarrow> pcm_trans_get_cur_state (fst (ps_tx s)); Some (st = PCM_TRANS_STA_TX_DONE) }"

definition com_player_auto_resume :: "('m, 'd, 'f, 'c, 'v, 's, 'w) player_env \<Rightarrow> nat \<Rightarrow>
    ('m, 'd, 'f, 'c, 'v, 's, 'w) player_sys \<Rightarrow> (bool \<times> ('m, 'd, 'f, 'c, 'v, 's, 'w) player_sys) option" where
  "com_player_auto_resume env p s = do {
     st \<leftarrow> pcm_trans_get_cur_state (fst (ps_tx s));
     let c = ps_player s p;
     let decoder_pause = (if cp_type c = COM_PLAYER_TYPE_MP3 then mp3_decoder_is_pause (fst (cp_mp3 c))
       else aac_decoder_is_pause (fst (cp_aac c)));
     if st = PCM_TRANS_STA_TX_PAUSE \<and> decoder_pause
     then do { s \<leftarrow> on_tx (pcm_trans_resume_tx (pe_tx env)) s; Some (True, s) }
     else Some (False, s) }"

text \<open>\<open>Some None\<close> is the return value false; otherwise the current and the whole time.\<close>

definition com_player_get_progress :: "('m, 'd, 'f, 'c, 'v, 's) com_player \<Rightarrow> int \<Rightarrow> int \<Rightarrow> (int \<times> int) option option" where
  "com_player_get_progress c cur_pos total_len =
     (let info = cp_info c;
          cur_time = int_of_u32 (cp_consumed c div u32_of_int COM_PLAYER_FIXED_CHANNELS div 2 div COM_PLAYER_FIXED_SAMPLERATE) in
      if cp_type c = COM_PLAYER_TYPE_MP3 \<and> u32_of_int cur_pos < di_tag_size info then Some None
      else if bad_stream total_len info then Some None
      else case cp_type c of
        COM_PLAYER_TYPE_MP3 \<Rightarrow>
          Some (Some (cur_time, int_of_u32 ((u32_of_int total_len - di_tag_size info) * 8 div di_bit_rate info)))
      | COM_PLAYER_TYPE_M4A \<Rightarrow> Some (Some (cur_time, int_of_u32 (di_tag_size info div di_sample_rate info)))
      | COM_PLAYER_TYPE_AAC \<Rightarrow> do {
          n \<leftarrow> c_int (total_len * 8);
          Some (Some (cur_time, int_of_u32 (u32_of_int n div di_bit_rate info))) })"

section \<open>Stream types\<close>

fun strstr :: "string \<Rightarrow> string \<Rightarrow> bool" where
  "strstr [] pat = (pat = [])"
| "strstr (c # cs) pat = (take (length pat) (c # cs) = pat \<or> strstr cs pat)"

definition com_player_get_audio_type_by_name :: "string \<Rightarrow> com_player_type" where
  "com_player_get_audio_type_by_name path =
     (if strstr path ''.mp3'' then COM_PLAYER_TYPE_MP3
      else if strstr path ''.MP3'' then COM_PLAYER_TYPE_MP3
      else if strstr path ''.aac'' then COM_PLAYER_TYPE_AAC
      else if strstr path ''.AAC'' then COM_PLAYER_TYPE_AAC
      else if strstr path ''.m4a'' then COM_PLAYER_TYPE_M4A
      else if strstr path ''.M4A'' then COM_PLAYER_TYPE_M4A
      else COM_PLAYER_TYPE_MP3)"

definition ascii :: "string \<Rightarrow> u8 list" where
  "ascii = map of_char"

definition com_player_get_audio_type_by_header :: "u8 list \<Rightarrow> com_player_type option" where
  "com_player_get_audio_type_by_header buf =
     (if length buf < 8 then None
      else Some (if take 3 buf = ascii ''ID3'' then COM_PLAYER_TYPE_MP3
        else if take 4 (drop 4 buf) = ascii ''ftyp'' then COM_PLAYER_TYPE_M4A
        else if take 4 buf = ascii ''ADIF'' then COM_PLAYER_TYPE_AAC
        else if buf ! 0 = 0xFF \<and> buf ! 1 AND 0xF6 = 0xF0 then COM_PLAYER_TYPE_AAC
        else COM_PLAYER_TYPE_MP3))"

section \<open>The two callbacks\<close>

text \<open>After a block of samples: the format of the first one for the starting player, or a wake-up of
  the transmitter.\<close>

definition output_notify :: "('m, 'd, 'f, 'c, 'v, 's, 'w) player_env \<Rightarrow> nat \<Rightarrow> audio_decoder_info \<Rightarrow>
    ('m, 'd, 'f, 'c, 'v, 's, 'w) player_sys \<Rightarrow> ('m, 'd, 'f, 'c, 'v, 's, 'w) player_sys option" where
  "output_notify env p decoder_info s =
     (if cp_wait_decoder (ps_player s p)
      then Some (com_player_set_event p COM_PLAYER_EVENT_DECODER (set_player p (\<lambda>c. c\<lparr>cp_info := decoder_info\<rparr>) s))
      else if cp_enable (ps_player s p) then on_tx (pcm_trans_resume_tx (pe_tx env)) s
      else Some s)"

definition note_bit_rate :: "audio_decoder_info \<Rightarrow> ('m, 'd, 'f, 'c, 'v, 's) com_player \<Rightarrow> ('m, 'd, 'f, 'c, 'v, 's) com_player" where
  "note_bit_rate decoder_info c =
     (if di_bit_rate decoder_info \<noteq> di_bit_rate (cp_info c)
      then c\<lparr>cp_info := (cp_info c)\<lparr>di_bit_rate := di_bit_rate decoder_info\<rparr>\<rparr> else c)"

definition decoder_output_callback :: "('m, 'd, 'f, 'c, 'v, 's, 'w) player_env \<Rightarrow> nat \<Rightarrow> audio_decoder_info \<Rightarrow>
    u8 list \<Rightarrow> int \<Rightarrow> ('m, 'd, 'f, 'c, 'v, 's, 'w) player_sys \<Rightarrow> (int \<times> ('m, 'd, 'f, 'c, 'v, 's, 'w) player_sys) option" where
  "decoder_output_callback env p decoder_info buf len s = do {
     cv \<leftarrow> cp_converter (ps_player s p);
     ratio \<leftarrow> (if di_sample_rate decoder_info = 0 then None
       else Some (of_int (uint COM_PLAYER_FIXED_SAMPLERATE) / of_int (uint (di_sample_rate decoder_info))));
     (consumed, cv, rb) \<leftarrow> samplerate_convert_process (pe_src env) ratio (uint (di_channels decoder_info)) buf len
       (cv, cp_output (ps_player s p));
     let s = set_player p (\<lambda>c. c\<lparr>cp_converter := Some cv, cp_output := rb\<rparr>) s;
     s \<leftarrow> output_notify env p decoder_info s;
     let s = set_player p (note_bit_rate decoder_info) s;
     Some (int_of_u32 (u32_of_int consumed), s) }"

text \<open>The zeros for the first request.\<close>

definition lead_in :: "u32 \<Rightarrow> u32 \<Rightarrow> int \<Rightarrow> u8 list \<Rightarrow> (u32 \<times> u8 list) option" where
  "lead_in consumed th ring_count buf =
     (if consumed \<le> 0 \<and> u32_of_int ring_count < th
      then do { buf \<leftarrow> mem_write buf 0 (replicate (unat th) 0); Some (th, buf) }
      else Some (0, buf))"

text \<open>The bytes for the transmitter: silence in front of the first ones when few are queued, then
  what the ring buffer has. The result is the byte count, the buffer, and the ring buffer.\<close>

definition request_bytes :: "u32 \<Rightarrow> ring_buffer \<Rightarrow> u8 list \<Rightarrow> int \<Rightarrow> (u32 \<times> u32 \<times> u8 list \<times> ring_buffer) option" where
  "request_bytes consumed rb buf len = do {
     t \<leftarrow> c_div len 3;
     t \<leftarrow> c_div t 4;
     let th = u32_of_int (t * 4);
     ring_count \<leftarrow> ring_buffer_get_count rb;
     (count, buf) \<leftarrow> lead_in consumed th ring_count buf;
     (tmp, out, rb) \<leftarrow> ring_buffer_pop rb True (u32_of_int len - count);
     buf \<leftarrow> mem_write buf (uint count) out;
     Some (count + tmp, tmp, buf, rb) }"

definition pcm_trans_data_request_callback :: "('m, 'd, 'f, 'c, 'v, 's, 'w) player_env \<Rightarrow> nat \<Rightarrow>
    u8 list \<Rightarrow> int \<Rightarrow> ('m, 'd, 'f, 'c, 'v, 's, 'w) player_sys \<Rightarrow>
    (int \<times> u8 list \<times> ('m, 'd, 'f, 'c, 'v, 's, 'w) player_sys) option" where
  "pcm_trans_data_request_callback env p buf len s = do {
     let c = ps_player s p;
     ring_count \<leftarrow> ring_buffer_get_count (cp_output c);
     ring_free \<leftarrow> ring_buffer_get_free_count (cp_output c);
     let output_done = (if cp_type c = COM_PLAYER_TYPE_MP3 then mp3_decoder_is_output_done (snd (cp_mp3 c))
       else aac_decoder_is_output_done (snd (cp_aac c)));
     if output_done \<and> ring_count \<le> 0
     then Some (0, buf, s\<lparr>ps_tx := (fst (ps_tx s), pcm_trans_set_tx_no_data (snd (ps_tx s)))\<rparr>)
     else do {
       (count, tmp, buf, rb) \<leftarrow> request_bytes (cp_consumed c) (cp_output c) buf len;
       let s = set_player p (\<lambda>c. c\<lparr>cp_output := rb, cp_consumed := cp_consumed c + tmp\<rparr>) s;
       let ring_count = int_of_u32 (u32_of_int ring_count - tmp);
       let ring_free = int_of_u32 (u32_of_int ring_free + tmp);
       s \<leftarrow> (if \<not> output_done \<and> cp_enable c \<and> ring_count < ring_free
            then on_decoder (\<lambda>m. mp3_decoder_resume (pe_mp3 env) m True) (\<lambda>m. aac_decoder_resume (pe_aac env) m True) p s
            else Some s);
       Some (int_of_u32 count, buf, s) } }"

section \<open>One owner of the transmitter\<close>

lemma set_player_frame [simp]:
  "ps_holder (set_player p g s) = ps_holder s" "ps_tx (set_player p g s) = ps_tx s"
  "ps_player (set_player p g s) p = g (ps_player s p)" "ps_k (set_player p g s) = ps_k s" "ps_w (set_player p g s) = ps_w s"
  by (simp_all add: set_player_def)

lemma set_player_other [simp]: "q \<noteq> p \<Longrightarrow> ps_player (set_player p g s) q = ps_player s q"
  by (simp add: set_player_def)

lemma player_event_frame [simp]:
  "ps_holder (com_player_set_event p ev s) = ps_holder s" "ps_tx (com_player_set_event p ev s) = ps_tx s"
  "ps_holder (com_player_clear_event p ev s) = ps_holder s" "ps_tx (com_player_clear_event p ev s) = ps_tx s"
  by (simp_all add: com_player_set_event_def com_player_clear_event_def)

text \<open>A decoder call leaves transmitter and holder alone.\<close>

lemma on_mp3_frame: "on_mp3 call p s = Some s' \<Longrightarrow> ps_holder s' = ps_holder s \<and> ps_tx s' = ps_tx s"
  by (auto simp: on_mp3_def dest!: bind_eq_SomeD)

lemma on_aac_frame: "on_aac call p s = Some s' \<Longrightarrow> ps_holder s' = ps_holder s \<and> ps_tx s' = ps_tx s"
  by (auto simp: on_aac_def dest!: bind_eq_SomeD)

lemma on_decoder_frame: "on_decoder c1 c2 p s = Some s' \<Longrightarrow> ps_holder s' = ps_holder s \<and> ps_tx s' = ps_tx s"
  by (auto simp: on_decoder_def dest: on_mp3_frame on_aac_frame split: if_splits)

lemma start_decoder_frame:
  "start_mp3 env p i e k s = Some s' \<Longrightarrow> ps_holder s' = ps_holder s \<and> ps_tx s' = ps_tx s"
  "start_aac env p i e k s = Some s' \<Longrightarrow> ps_holder s' = ps_holder s \<and> ps_tx s' = ps_tx s"
  by (auto simp: start_mp3_def start_aac_def Let_def dest!: on_mp3_frame on_aac_frame split: prod.splits)

definition tx_callback :: "('m, 'd, 'f, 'c, 'v, 's, 'w) player_sys \<Rightarrow> nat option" where
  "tx_callback s = pcm_callback (snd (ps_tx s))"

text \<open>The tasks that run meanwhile register no callback and start no player.\<close>

definition keeps_owner :: "('m, 'd, 'f, 'c, 'v, 's, 'w) player_env \<Rightarrow> bool" where
  "keeps_owner env \<longleftrightarrow>
     (\<forall>m m'. pe_tx env m = Some m' \<longrightarrow> pcm_callback (fst (snd m')) = pcm_callback (fst (snd m))) \<and>
     (\<forall>s s'. pe_threads env s = Some s' \<longrightarrow> ps_holder s' = ps_holder s \<and> tx_callback s' = tx_callback s)"

lemma tx_serve_callback:
  assumes "com_fsm_set_event serve m ev t = Some m'"
    "\<And>m m'. serve m = Some m' \<Longrightarrow> pcm_callback (fst (snd m')) = pcm_callback (fst (snd m))"
  shows "pcm_callback (fst (snd m')) = pcm_callback (fst (snd m))"
  using assms(1)
  by (auto simp: com_fsm_set_event_def Let_def dest!: bind_eq_SomeD assms(2) split: option.splits if_splits)

lemma on_tx_frame:
  assumes "on_tx call s = Some s'"
    "\<And>m m'. call m = Some m' \<Longrightarrow> pcm_callback (fst (snd m')) = pcm_callback (fst (snd m))"
  shows "ps_holder s' = ps_holder s \<and> tx_callback s' = tx_callback s \<and> ps_player s' = ps_player s"
  using assms(1)
  by (auto simp: on_tx_def with_fsm_def tx_callback_def dest!: bind_eq_SomeD assms(2) split: option.splits)

lemma tx_calls_frame:
  assumes "keeps_owner env"
  shows "pcm_trans_start_tx (pe_tx env) m r ch = Some m' \<Longrightarrow> pcm_callback (fst (snd m')) = pcm_callback (fst (snd m))"
    "pcm_trans_stop_tx (pe_tx env) m = Some m' \<Longrightarrow> pcm_callback (fst (snd m')) = pcm_callback (fst (snd m))"
    "pcm_trans_resume_tx (pe_tx env) m = Some m' \<Longrightarrow> pcm_callback (fst (snd m')) = pcm_callback (fst (snd m))"
proof -
  have k: "pe_tx env m = Some m' \<Longrightarrow> pcm_callback (fst (snd m')) = pcm_callback (fst (snd m))" for m m'
    using assms unfolding keeps_owner_def by blast
  show "pcm_trans_start_tx (pe_tx env) m r ch = Some m' \<Longrightarrow> pcm_callback (fst (snd m')) = pcm_callback (fst (snd m))"
    unfolding pcm_trans_start_tx_def by (drule tx_serve_callback) (auto dest: k)
  show "pcm_trans_stop_tx (pe_tx env) m = Some m' \<Longrightarrow> pcm_callback (fst (snd m')) = pcm_callback (fst (snd m))"
    unfolding pcm_trans_stop_tx_def by (auto dest!: bind_eq_SomeD tx_serve_callback [OF _ k])
  show "pcm_trans_resume_tx (pe_tx env) m = Some m' \<Longrightarrow> pcm_callback (fst (snd m')) = pcm_callback (fst (snd m))"
    unfolding pcm_trans_resume_tx_def by (drule tx_serve_callback) (auto dest: k)
qed

lemma take_transmitter_owner:
  assumes "take_transmitter env p s = Some s'" "keeps_owner env"
  shows "tx_callback s' = Some p \<and> ps_holder s' = ps_holder s"
proof -
  let ?s = "s\<lparr>ps_tx := (fst (ps_tx s), pcm_trans_register_callback (Some p) (snd (ps_tx s)))\<rparr>"
  from assms(1) have "on_tx (\<lambda>m. pcm_trans_start_tx (pe_tx env) m (di_sample_rate (cp_info (ps_player ?s p)))
      (di_channels (cp_info (ps_player ?s p)))) ?s = Some s'"
    by (simp add: take_transmitter_def Let_def)
  from on_tx_frame [OF this tx_calls_frame(1) [OF assms(2)]] show ?thesis
    by (auto simp: tx_callback_def pcm_trans_register_callback_def)
qed

lemma drop_transmitter_owner:
  assumes "drop_transmitter env p s = Some s'" "keeps_owner env"
  shows "if ps_holder s = Some p then tx_callback s' = None \<and> ps_holder s' = None else s' = s"
proof (cases "ps_holder s = Some p")
  case True
  let ?s = "s\<lparr>ps_tx := (fst (ps_tx s), pcm_trans_register_callback None (snd (ps_tx s)))\<rparr>"
  from True assms(1) obtain s1 where "on_tx (pcm_trans_stop_tx (pe_tx env)) ?s = Some s1" "s' = s1\<lparr>ps_holder := None\<rparr>"
    by (auto simp: drop_transmitter_def Let_def dest!: bind_eq_SomeD)
  with on_tx_frame [OF this(1) tx_calls_frame(2) [OF assms(2)]] True show ?thesis
    by (auto simp: tx_callback_def pcm_trans_register_callback_def)
qed (use assms(1) in \<open>simp add: drop_transmitter_def\<close>)

text \<open>One operation of any player, from any thread.\<close>

inductive player_step ::
  "('m, 'd, 'f, 'c, 'v, 's, 'w) player_env \<Rightarrow> nat \<Rightarrow> ('m, 'd, 'f, 'c, 'v, 's, 'w) player_sys \<Rightarrow>
     ('m, 'd, 'f, 'c, 'v, 's, 'w) player_sys \<Rightarrow> bool" for env p where
  init: "com_player_init env p s = (r, s') \<Longrightarrow> player_step env p s s'"
| deinit: "com_player_deinit p s = (r, s') \<Longrightarrow> player_step env p s s'"
| start: "com_player_start env p t i e k s = Some (r, s') \<Longrightarrow> player_step env p s s'"
| stop: "com_player_stop env p s = Some (r, s') \<Longrightarrow> player_step env p s s'"
| pause: "com_player_pause env p s = Some (r, s') \<Longrightarrow> player_step env p s s'"
| resume: "com_player_resume env p s = Some (r, s') \<Longrightarrow> player_step env p s s'"
| seek: "com_player_seek env p len x s = Some (r, s') \<Longrightarrow> player_step env p s s'"
| set_done: "player_step env p s (com_player_set_done p err s)"
| auto_resume: "com_player_auto_resume env p s = Some (r', s') \<Longrightarrow> player_step env p s s'"
| decoded: "decoder_output_callback env p info buf n s = Some (m, s') \<Longrightarrow> player_step env p s s'"
| requested: "pcm_trans_data_request_callback env p buf n s = Some (m, buf', s') \<Longrightarrow> player_step env p s s'"

inductive player_reach ::
  "('m, 'd, 'f, 'c, 'v, 's, 'w) player_env \<Rightarrow> ('m, 'd, 'f, 'c, 'v, 's, 'w) player_sys \<Rightarrow>
     ('m, 'd, 'f, 'c, 'v, 's, 'w) player_sys \<Rightarrow> bool" for env s where
  here: "player_reach env s s"
| step: "player_reach env s s' \<Longrightarrow> player_step env p s' s'' \<Longrightarrow> player_reach env s s''"

definition owner_inv :: "('m, 'd, 'f, 'c, 'v, 's, 'w) player_sys \<Rightarrow> bool" where
  "owner_inv s \<longleftrightarrow> tx_callback s = ps_holder s"

text \<open>How the operations change the owner: not at all, from none to this player, or from this player
  to none. The failing start and resume change nothing.\<close>

definition owner_change :: "nat \<Rightarrow> ('m, 'd, 'f, 'c, 'v, 's, 'w) player_sys \<Rightarrow> ('m, 'd, 'f, 'c, 'v, 's, 'w) player_sys \<Rightarrow> bool" where
  "owner_change p s s' \<longleftrightarrow>
     ps_holder s' = ps_holder s \<and> tx_callback s' = tx_callback s \<or>
     ps_holder s = None \<and> ps_holder s' = Some p \<and> tx_callback s' = Some p \<or>
     ps_holder s = Some p \<and> ps_holder s' = None \<and> tx_callback s' = None"

lemma owner_same: "ps_holder s' = ps_holder s \<Longrightarrow> ps_tx s' = ps_tx s \<Longrightarrow> owner_change p s s'"
  by (simp add: owner_change_def tx_callback_def)

lemma set_player_callback [simp]: "tx_callback (set_player p g s) = tx_callback s"
  by (simp add: tx_callback_def)

lemma wait_event_frame:
  "com_player_wait_event p ev t s = Some (r, s') \<Longrightarrow> ps_holder s' = ps_holder s \<and> tx_callback s' = tx_callback s"
  by (auto simp: com_player_wait_event_def dest!: bind_eq_SomeD split: option.splits)

lemma start_owner:
  fixes s :: "('m, 'd, 'f, 'c, 'v, 's, 'w) player_sys"
  assumes "com_player_start env p t i e k s = Some (r, s')" "keeps_owner env"
  shows "owner_change p s s'"
proof (cases "ps_holder s = None")
  case True
  let ?s = "set_player p (start_flags t) s"
  show ?thesis
  proof (cases "samplerate_convert_alloc (pe_alloc env) (ps_k s) (pe_convert_size env) (pe_zero env)
      :: ('v, 's) samplerate_convert option")
    case None
    with True assms(1) have "s' = ?s\<lparr>ps_k := ps_k s + 1\<rparr>"
      by (auto simp: com_player_start_def Let_def)
    then show ?thesis by (simp add: owner_same)
  next
    case (Some cv)
    let ?s1 = "set_player p (\<lambda>c. c\<lparr>cp_converter := Some cv\<rparr>) (?s\<lparr>ps_k := Suc (ps_k s)\<rparr>)"
    from True Some assms(1) obtain s2 s3 ev s4 where
      c: "(if t = COM_PLAYER_TYPE_MP3 then start_mp3 env p i e k ?s1 else start_aac env p i e k ?s1) = Some s2"
        "pe_threads env s2 = Some s3"
        "com_player_wait_event p (COM_PLAYER_EVENT_DECODER OR COM_PLAYER_EVENT_EXIT) COM_PLAYER_START_TIMEOUT s3 = Some (ev, s4)"
        "start_outcome env p ev s4 = Some (r, s')"
      by (auto simp: com_player_start_def Let_def dest!: bind_eq_SomeD)
    have "ps_holder s2 = ps_holder s \<and> ps_tx s2 = ps_tx s"
      using c(1) by (auto split: if_splits dest!: start_decoder_frame)
    moreover have "ps_holder s3 = ps_holder s2 \<and> tx_callback s3 = tx_callback s2"
      using c(2) assms(2) unfolding keeps_owner_def by blast
    moreover note wait_event_frame [OF c(3)]
    ultimately have f: "ps_holder s4 = None" "tx_callback s4 = tx_callback s"
      using True by (simp_all add: tx_callback_def)
    show ?thesis
    proof (cases "COM_PLAYER_EVENT_DECODER AND ev = 0")
      case True
      with c(4) f \<open>ps_holder s = None\<close> show ?thesis
        by (auto simp: start_outcome_def owner_change_def split: if_splits)
    next
      case False
      with c(4) obtain s5 where "take_transmitter env p s4 = Some s5"
        "s' = (set_player p (\<lambda>c. c\<lparr>cp_wait_decoder := False\<rparr>) s5)\<lparr>ps_holder := Some p\<rparr>"
        by (auto simp: start_outcome_def dest!: bind_eq_SomeD)
      with take_transmitter_owner [OF this(1) assms(2)] \<open>ps_holder s = None\<close> show ?thesis
        by (simp add: owner_change_def tx_callback_def)
    qed
  qed
next
  case False
  with assms(1) have "s' = set_player p (start_flags t) s" by (simp add: com_player_start_def Let_def)
  then show ?thesis by (simp add: owner_same)
qed

lemma drop_owner:
  assumes "drop_transmitter env p (set_player p g s) = Some s1" "keeps_owner env"
    "ps_holder s' = ps_holder s1" "ps_tx s' = ps_tx s1"
  shows "owner_change p s s'"
  using drop_transmitter_owner [OF assms(1,2)] assms(3,4)
  by (auto simp: owner_change_def tx_callback_def split: if_splits)

lemma stop_owner:
  assumes "com_player_stop env p s = Some (r, s')" "keeps_owner env"
  shows "owner_change p s s'"
proof -
  from assms(1) obtain s1 s2 s3 where c: "drop_transmitter env p (set_player p (\<lambda>c. c\<lparr>cp_enable := False\<rparr>) s) = Some s1"
    "on_decoder (mp3_decoder_stop (pe_mp3 env)) (aac_decoder_stop (pe_aac env)) p s1 = Some s2"
    "on_decoder mp3_decoder_deinit aac_decoder_deinit p (set_player p unregister s2) = Some s3"
    "ps_holder s' = ps_holder s3" "ps_tx s' = ps_tx s3"
    by (auto simp: com_player_stop_def Let_def dest!: bind_eq_SomeD)
  show ?thesis
    by (rule drop_owner [OF c(1) assms(2)]) (use c(4,5) on_decoder_frame [OF c(2)] on_decoder_frame [OF c(3)] in simp_all)
qed

lemma pause_owner:
  assumes "com_player_pause env p s = Some (r, s')" "keeps_owner env"
  shows "owner_change p s s'"
proof -
  from assms(1) obtain s1 where c: "drop_transmitter env p (set_player p (\<lambda>c. c\<lparr>cp_enable := False\<rparr>) s) = Some s1"
    "on_decoder (\<lambda>m. mp3_decoder_pause (pe_mp3 env) m False) (\<lambda>m. aac_decoder_pause (pe_aac env) m False) p s1 = Some s'"
    by (auto simp: com_player_pause_def Let_def dest!: bind_eq_SomeD)
  show ?thesis by (rule drop_owner [OF c(1) assms(2)]) (use on_decoder_frame [OF c(2)] in simp_all)
qed

lemma resume_owner:
  assumes "com_player_resume env p s = Some (r, s')" "keeps_owner env"
  shows "owner_change p s s'"
proof (cases "ps_holder s = None")
  case True
  with assms(1) obtain s1 where "take_transmitter env p (set_player p (\<lambda>c. c\<lparr>cp_enable := True\<rparr>) s) = Some s1"
    "s' = s1\<lparr>ps_holder := Some p\<rparr>" by (auto simp: com_player_resume_def dest!: bind_eq_SomeD)
  with take_transmitter_owner [OF this(1) assms(2)] True show ?thesis
    by (simp add: owner_change_def tx_callback_def)
qed (use assms(1) in \<open>simp add: com_player_resume_def owner_same\<close>)

lemma seek_owner: "com_player_seek env p len x s = Some (r, s') \<Longrightarrow> owner_change p s s'"
  by (rule owner_same) (auto simp: com_player_seek_def Let_def dest!: bind_eq_SomeD dest: on_mp3_frame on_aac_frame
      split: if_splits com_player_type.splits)

lemma resume_tx_owner:
  "on_tx (pcm_trans_resume_tx (pe_tx env)) s = Some s' \<Longrightarrow> keeps_owner env \<Longrightarrow>
    ps_holder s' = ps_holder s \<and> tx_callback s' = tx_callback s"
  using on_tx_frame tx_calls_frame(3) by blast

lemma decoded_owner:
  assumes "decoder_output_callback env p info buf n s = Some (m, s')" "keeps_owner env"
  shows "owner_change p s s'"
proof -
  from assms(1) obtain g s2 where c: "output_notify env p info (set_player p g s) = Some s2"
    "s' = set_player p (note_bit_rate info) s2"
    by (auto simp: decoder_output_callback_def Let_def bind_eq_Some_conv)
  have "ps_holder s2 = ps_holder s \<and> tx_callback s2 = tx_callback s"
    using c(1) resume_tx_owner [OF _ assms(2), of "set_player p g s" s2]
    by (auto simp: output_notify_def tx_callback_def split: if_splits)
  with c(2) show ?thesis by (simp add: owner_change_def tx_callback_def)
qed

lemma auto_resume_owner:
  assumes "com_player_auto_resume env p s = Some (r, s')" "keeps_owner env"
  shows "owner_change p s s'"
proof -
  from assms(1) have "s' = s \<or> on_tx (pcm_trans_resume_tx (pe_tx env)) s = Some s'"
    by (auto simp: com_player_auto_resume_def Let_def bind_eq_Some_conv split: if_splits)
  with resume_tx_owner [OF _ assms(2)] show ?thesis by (auto simp: owner_change_def)
qed

lemma requested_owner:
  assumes "pcm_trans_data_request_callback env p buf n s = Some (m, buf', s')"
  shows "owner_change p s s'"
proof -
  from assms consider "s' = s\<lparr>ps_tx := (fst (ps_tx s), pcm_trans_set_tx_no_data (snd (ps_tx s)))\<rparr>"
    | g where "s' = set_player p g s" | c1 c2 g where "on_decoder c1 c2 p (set_player p g s) = Some s'"
    by (auto simp: pcm_trans_data_request_callback_def Let_def dest!: bind_eq_SomeD split: if_splits)
  then show ?thesis
    by cases (auto simp: owner_change_def tx_callback_def pcm_trans_set_tx_no_data_def dest: on_decoder_frame)
qed

lemma player_step_owner:
  assumes "player_step env p s s'" "keeps_owner env"
  shows "owner_change p s s'"
  using assms
proof cases
  case set_done
  then show ?thesis by (simp add: owner_same com_player_set_done_def Let_def)
qed (auto simp: com_player_init_def com_player_deinit_def Let_def owner_same split: prod.splits
    dest: start_owner stop_owner pause_owner resume_owner seek_owner decoded_owner auto_resume_owner requested_owner)

lemma player_reach_owner:
  assumes "player_reach env s s'" "keeps_owner env" "owner_inv s"
  shows "owner_inv s'"
  using assms(1)
proof induction
  case (step s' p s'')
  with player_step_owner [OF step.hyps(2) assms(2)] show ?case
    by (auto simp: owner_inv_def owner_change_def)
qed (use assms(3) in simp)

text \<open>While another player holds the transmitter, no operation of this one takes it.\<close>

lemma player_step_other:
  assumes "player_step env p s s'" "keeps_owner env" "ps_holder s = Some q" "q \<noteq> p"
  shows "ps_holder s' = Some q \<and> tx_callback s' = tx_callback s"
  using player_step_owner [OF assms(1,2)] assms(3,4) by (auto simp: owner_change_def)

section \<open>What the callbacks move\<close>

definition silence :: "u32 \<Rightarrow> nat \<Rightarrow> int \<Rightarrow> nat" where
  "silence consumed queued len =
     (let th = nat (len div 3 div 4 * 4) in if consumed = 0 \<and> queued < th then th else 0)"

lemma request_bytes_spec:
  fixes consumed :: u32
  assumes "ring_wf rb" "0 \<le> len" "len \<le> int (length buf)" "len < 2147483648"
  defines "pre \<equiv> silence consumed (ring_len rb) len"
  defines "n \<equiv> min (nat len - pre) (ring_len rb)"
  obtains rb' where "request_bytes consumed rb buf len = Some (of_nat (pre + n), of_nat n,
      replicate pre 0 @ take n (ring_contents rb) @ drop (pre + n) buf, rb')"
    "ring_wf rb'" "ring_contents rb' = drop n (ring_contents rb)" "ring_cap rb' = ring_cap rb" "pre + n \<le> nat len"
proof -
  define th where "th = len div 3 div 4 * 4"
  have th: "0 \<le> th" "th \<le> len" using assms(2) by (simp_all add: th_def)
  have pre: "pre = (if consumed = 0 \<and> int (ring_len rb) < th then nat th else 0)"
    by (auto simp: pre_def silence_def Let_def th_def)
  have prelen: "int pre \<le> len" using th by (simp add: pre)
  have rl: "int (ring_len rb) < 2147483648"
    using ring_len_le [OF assms(1)] ring_wf_bounds(6) [OF assms(1)] by simp
  have cmp: "(u32_of_int (int (ring_len rb)) < u32_of_int th) = (int (ring_len rb) < th)"
    using th assms(4) rl by (simp add: u32_of_int_less uint_u32_of_int)
  have uth: "unat (u32_of_int th) = nat th"
    using th assms(4) by (simp add: unat_eq_nat_uint uint_u32_of_int)
  have thw: "u32_of_int th = of_nat (nat th)" using th by (simp add: u32_of_int_def)
  define buf1 where "buf1 = replicate pre 0 @ drop pre buf"
  have step1: "lead_in consumed (u32_of_int th) (int (ring_len rb)) buf = Some (of_nat pre, buf1)"
  proof (cases "consumed = 0 \<and> int (ring_len rb) < th")
    case True
    have "mem_write buf 0 (replicate (nat th) 0) = Some (replicate (nat th) 0 @ drop (nat th) buf)"
      using th assms(3) by (simp add: mem_write_def)
    with True show ?thesis unfolding lead_in_def cmp uth pre buf1_def by (simp add: thw)
  next
    case False
    then show ?thesis unfolding lead_in_def cmp uth pre buf1_def by auto
  qed
  have rest: "u32_of_int len - of_nat pre = of_nat (nat len - pre)"
    using prelen assms(2) by (simp add: u32_of_int_def of_nat_diff nat_le_iff)
  have un: "unat (of_nat (nat len - pre) :: u32) = nat len - pre"
    using assms(4) by (intro unat_of_nat_u32) linarith
  from ring_pop [OF assms(1), of True "of_nat (nat len - pre)", unfolded un, folded n_def]
  obtain rb' where p: "ring_buffer_pop rb True (of_nat (nat len - pre)) = Some (of_nat n, take n (ring_contents rb), rb')"
    "ring_wf rb'" "ring_contents rb' = drop n (ring_contents rb)" "ring_cap rb' = ring_cap rb" by auto
  have n: "pre + n \<le> nat len" "n \<le> ring_len rb" using prelen by (simp_all add: n_def nat_le_iff)
  have lt: "length (take n (ring_contents rb)) = n" using n(2) length_ring_contents [OF assms(1)] by simp
  have up: "uint (of_nat pre :: u32) = int pre" using prelen assms(4) by (intro uint_of_nat_u32) simp
  have wr: "mem_write buf1 (int pre) (take n (ring_contents rb)) =
      Some (replicate pre 0 @ take n (ring_contents rb) @ drop (pre + n) buf)"
    using n(1) prelen assms(3) lt by (simp add: mem_write_def buf1_def add.commute)
  have d: "c_div len 3 = Some (len div 3)" "c_div (len div 3) 4 = Some (len div 3 div 4)"
    using assms(2) by (simp_all add: c_div_nonneg)
  have "request_bytes consumed rb buf len = Some (of_nat pre + of_nat n, of_nat n,
      replicate pre 0 @ take n (ring_contents rb) @ drop (pre + n) buf, rb')"
    using step1 p(1) wr
    by (simp add: request_bytes_def d ring_get_count [OF assms(1)] Let_def rest up flip: th_def)
  with p n that show ?thesis by simp
qed

text \<open>The state a playing player is in: a converter and a well-formed ring buffer.\<close>

definition player_ready :: "('s \<Rightarrow> bool) \<Rightarrow> ('v \<Rightarrow> bool) \<Rightarrow> ('m, 'd, 'f, 'c, 'v, 's) com_player \<Rightarrow> bool" where
  "player_ready ok good c \<longleftrightarrow> ring_wf (cp_output c) \<and> (\<exists>cv. cp_converter c = Some cv \<and> sr_ok ok good cv)"

definition output_ratio :: "audio_decoder_info \<Rightarrow> real" where
  "output_ratio info = of_int (uint COM_PLAYER_FIXED_SAMPLERATE) / of_int (uint (di_sample_rate info))"

lemma output_notify_player:
  assumes "output_notify env p info s = Some s'" "keeps_owner env"
  shows "\<exists>ev. ps_player s' p = (if cp_wait_decoder (ps_player s p)
    then (ps_player s p)\<lparr>cp_info := info, cp_event := ev\<rparr> else ps_player s p)"
proof (cases "cp_wait_decoder (ps_player s p)")
  case True
  with assms(1) show ?thesis by (auto simp: output_notify_def com_player_set_event_def)
next
  case False
  with assms(1) on_tx_frame tx_calls_frame(3) [OF assms(2)] have "ps_player s' p = ps_player s p"
    by (fastforce simp: output_notify_def split: if_splits)
  with False show ?thesis by simp
qed

lemma decoder_output_moves:
  assumes "resampler (pe_src env) ok good fine" "player_ready ok good (ps_player s p)" "keeps_owner env"
    "fine (output_ratio info)" "di_channels info = 1 \<or> di_channels info = 2" "0 \<le> len" "len \<le> int (length buf)" "len < 2147483648"
    "decoder_output_callback env p info buf len s = Some (n, s')"
  shows "0 \<le> n \<and> n \<le> len \<and> player_ready ok good (ps_player s' p) \<and>
    (\<exists>bs. ring_contents (cp_output (ps_player s' p)) = ring_contents (cp_output (ps_player s p)) @ bs) \<and>
    (cp_wait_decoder (ps_player s p) \<longrightarrow> cp_info (ps_player s' p) = info)"
proof -
  from assms(2) obtain cv where cv: "cp_converter (ps_player s p) = Some cv" "sr_ok ok good cv"
    and rb: "ring_wf (cp_output (ps_player s p))" by (auto simp: player_ready_def)
  have ch: "uint (di_channels info) = 1 \<or> uint (di_channels info) = 2" using assms(5) by auto
  let ?ratio = "output_ratio info"
  from resampler.convert_process_ok [OF assms(1,4) ch assms(6,7) cv(2) rb] obtain c sr rb' bs where
    c: "samplerate_convert_process (pe_src env) ?ratio (uint (di_channels info)) buf len (cv, cp_output (ps_player s p)) =
        Some (c, sr, rb')" "0 \<le> c" "c \<le> len" "sr_ok ok good sr" "ring_wf rb'"
      "ring_contents rb' = ring_contents (cp_output (ps_player s p)) @ bs" by blast
  let ?s1 = "set_player p (\<lambda>c. c\<lparr>cp_converter := Some sr, cp_output := rb'\<rparr>) s"
  from assms(9) cv(1) c(1) obtain s2 where o: "output_notify env p info ?s1 = Some s2"
    "s' = set_player p (note_bit_rate info) s2" "n = int_of_u32 (u32_of_int c)"
    by (auto simp: decoder_output_callback_def output_ratio_def Let_def bind_eq_Some_conv split: if_splits)
  have "n = c" using c(2,3) assms(8) unfolding o(3) by (simp add: int_of_u32_small uint_u32_of_int)
  moreover from output_notify_player [OF o(1) assms(3)] obtain ev where "ps_player s2 p =
      (if cp_wait_decoder (ps_player s p) then (ps_player ?s1 p)\<lparr>cp_info := info, cp_event := ev\<rparr> else ps_player ?s1 p)"
    by auto
  ultimately show ?thesis using c(2-6) o(2) by (auto simp: player_ready_def note_bit_rate_def)
qed

section \<open>Seeking\<close>

lemma int_of_double_floor:
  "0 \<le> x \<Longrightarrow> x \<le> 2147483647 \<Longrightarrow> int_of_double x = Some \<lfloor>x\<rfloor>"
  unfolding int_of_double_def by (simp add: c_int_in_range le_floor_iff floor_le_iff)

lemma percent_bounds:
  fixes d :: real
  assumes "0 \<le> d" "0 \<le> x" "x \<le> 100"
  shows "0 \<le> d * x / 100" "d * x / 100 \<le> d"
  using assms mult_left_mono [of x 100 d] by simp_all

lemma seek_rate_bounds:
  fixes c b :: int
  assumes "0 < b" "0 \<le> c" "1024000 * c \<le> 2147483647 * b"
  shows "0 \<le> 128000 * real_of_int c * 8 / real_of_int b" "128000 * real_of_int c * 8 / real_of_int b \<le> 2147483647"
proof -
  have "real_of_int (1024000 * c) \<le> real_of_int (2147483647 * b)" using assms(3) by (simp only: of_int_le_iff)
  with assms(1) show "128000 * real_of_int c * 8 / real_of_int b \<le> 2147483647" by (simp add: divide_le_eq)
qed (use assms in simp)

text \<open>For an MP3 stream the progress is a percentage: the target lies behind the tag and inside the
  file.\<close>

lemma mp3_seek_target_spec:
  assumes "0 \<le> x" "x \<le> 100" "0 < len" "len \<le> 2147483647" "uint (di_tag_size info) \<le> len"
    "1024000 * len \<le> 2147483647 * uint (di_bit_rate info)"
  defines "pos \<equiv> uint (di_tag_size info) + \<lfloor>of_int (len - uint (di_tag_size info)) * x / 100\<rfloor>"
  obtains n where "mp3_seek_target info len x = Some (min pos (len - 1), n)" "uint (di_tag_size info) \<le> pos"
proof -
  let ?tag = "uint (di_tag_size info)" and ?br = "uint (di_bit_rate info)"
  let ?x = "of_int (len - ?tag) * x / 100" and ?cur = "\<lfloor>of_int (len - ?tag) * x / 100\<rfloor>"
  have u: "uint (u32_of_int len - di_tag_size info) = len - ?tag"
    using assms(3-5) by (subst uint_sub_lem [THEN iffD1]) (simp_all add: word_le_def uint_u32_of_int)
  have x: "0 \<le> ?x" "?x \<le> of_int (len - ?tag)"
    using percent_bounds [OF _ assms(1,2), of "of_int (len - ?tag)"] assms(5) by (simp_all only: of_int_0_le_iff diff_ge_0_iff_ge)
  have tot: "real_of_int (len - ?tag) \<le> 2147483647" using assms(4) uint_ge_0 [of "di_tag_size info"] by linarith
  have cur: "0 \<le> ?cur" "?cur \<le> len - ?tag" using x by (simp_all add: floor_le_iff)
  have i1: "int_of_double ?x = Some ?cur" using x tot by (intro int_of_double_floor) linarith+
  have br: "0 < ?br" using assms(3,6) by (smt (verit) mult_nonneg_nonpos)
  have "1024000 * ?cur \<le> 2147483647 * ?br" using cur(2) assms(6) uint_ge_0 [of "di_tag_size info"] by linarith
  note b = seek_rate_bounds [OF br cur(1) this]
  from int_of_double_floor [OF b] obtain n where
    i2: "int_of_double (128000 * real_of_int ?cur * 8 / real_of_int ?br) = Some n" by blast
  have rate: "real_of_int (COM_PLAYER_FIXED_CHANNELS * uint COM_PLAYER_FIXED_SAMPLERATE * 2) = 128000"
    by (simp add: COM_PLAYER_FIXED_CHANNELS_def COM_PLAYER_FIXED_SAMPLERATE_def)
  have up: "uint (u32_of_int ?cur + di_tag_size info) = ?cur + ?tag"
  proof -
    have uc: "uint (u32_of_int ?cur) = ?cur" using cur assms(4) uint_ge_0 [of "di_tag_size info"]
      by (intro uint_u32_of_int) linarith+
    then show ?thesis using cur(2) assms(4) by (subst uint_add_lem [THEN iffD1]) (simp_all add: uc)
  qed
  have ip: "int_of_u32 (u32_of_int ?cur + di_tag_size info) = pos"
    using up cur assms(4) by (subst int_of_u32_small) (simp_all add: pos_def)
  have "mp3_seek_target info len x = Some (if len \<le> pos then len - 1 else pos, u32_of_int n)"
    by (simp only: mp3_seek_target_def u i1 rate i2 ip Let_def Option.bind.simps)
  moreover have "(if len \<le> pos then len - 1 else pos) = min pos (len - 1)" by simp
  ultimately show ?thesis using that cur(1) by (simp add: pos_def)
qed

section \<open>Stream types\<close>

lemma strstr_append: "strstr xs pat \<longleftrightarrow> (\<exists>us vs. xs = us @ pat @ vs)"
proof (induction xs)
  case (Cons c cs)
  have "take (length pat) (c # cs) = pat \<longleftrightarrow> (\<exists>vs. c # cs = pat @ vs)"
    by (metis append_eq_conv_conj append_take_drop_id)
  with Cons show ?case by (auto simp: Cons_eq_append_conv) 
qed simp

text \<open>A name with one dot has the type of its extension.\<close>

lemma type_by_extension:
  assumes "CHR ''.'' \<notin> set stem" "CHR ''.'' \<notin> set ext"
  shows "com_player_get_audio_type_by_name (stem @ ''.'' @ ext) =
    (if take 3 ext = ''aac'' \<or> take 3 ext = ''AAC'' then COM_PLAYER_TYPE_AAC
     else if take 3 ext = ''m4a'' \<or> take 3 ext = ''M4A'' then COM_PLAYER_TYPE_M4A
     else COM_PLAYER_TYPE_MP3)"
proof -
  have none: "CHR ''.'' \<notin> set e \<Longrightarrow> \<not> strstr e (CHR ''.'' # pat)" for e pat
    by (auto simp: strstr_append)
  have "strstr (stem @ CHR ''.'' # ext) (CHR ''.'' # pat) \<longleftrightarrow> take (length pat) ext = pat" for pat
    using assms by (induction stem) (auto simp: none)
  then show ?thesis by (auto simp: com_player_get_audio_type_by_name_def numeral_3_eq_3)
qed

end
