(* ===== verification/C_String.thy ===== *)
theory C_String
  imports Prelude
begin

text \<open>
  The functions of string.h, strings.h and stdio.h that the HTTP client calls. A C string is the
  list of its bytes without the terminator. \<open>sscanf\<close> of a number that its type cannot
  represent is undefined (C11 7.21.6.2), so the scanners have an outer option for that and an inner
  one for a conversion that fails.
\<close>

definition lit :: "string \<Rightarrow> u8 list" where "lit = map of_char"

lemma lit_simps [simp]: "lit [] = []" "lit (c # cs) = of_char c # lit cs" "length (lit cs) = length cs"
  by (simp_all add: lit_def)

text \<open>The string that begins an object: everything before the first NUL. Its users keep a NUL behind
  the last byte they hold.\<close>

definition c_string :: "u8 list \<Rightarrow> u8 list" where
  "c_string m = takeWhile (\<lambda>b. b \<noteq> 0) m"

definition no_nul :: "u8 list \<Rightarrow> bool" where
  "no_nul s \<longleftrightarrow> 0 \<notin> set s"

lemma c_string_id [simp]: "no_nul s \<Longrightarrow> c_string s = s"
  by (auto simp: no_nul_def c_string_def takeWhile_eq_all_conv)

lemma c_string_terminated [simp]: "no_nul s \<Longrightarrow> c_string (s @ 0 # r) = s"
  by (induction s) (auto simp: no_nul_def c_string_def)

lemma no_nul_c_string [simp]: "no_nul (c_string m)"
  by (auto simp: no_nul_def c_string_def dest: set_takeWhileD)

lemma length_c_string: "length (c_string m) \<le> length m"
  by (simp add: c_string_def length_takeWhile_le)

section \<open>Searching and comparing\<close>

text \<open>\<open>strstr(s, pat)\<close> and \<open>strchr(s, c)\<close> as offsets.\<close>

fun c_strstr :: "u8 list \<Rightarrow> u8 list \<Rightarrow> nat option" where
  "c_strstr [] pat = (if pat = [] then Some 0 else None)"
| "c_strstr (c # s) pat =
     (if take (length pat) (c # s) = pat then Some 0 else map_option Suc (c_strstr s pat))"

fun c_strchr :: "u8 list \<Rightarrow> u8 \<Rightarrow> nat option" where
  "c_strchr [] x = None"
| "c_strchr (c # s) x = (if c = x then Some 0 else map_option Suc (c_strchr s x))"

lemma c_strstr_SomeD:
  "c_strstr s pat = Some i \<Longrightarrow> i + length pat \<le> length s \<and> take (length pat) (drop i s) = pat"
proof (induction s arbitrary: i)
  case (Cons c s)
  show ?case
  proof (cases "take (length pat) (c # s) = pat")
    case True
    with Cons.prems have "i = 0" by simp
    moreover have "length pat \<le> length (c # s)" by (subst True [symmetric]) simp
    ultimately show ?thesis using True by simp
  qed (use Cons in auto)
qed (auto split: if_splits)

lemma c_strchr_SomeD: "c_strchr s x = Some i \<Longrightarrow> i < length s \<and> s ! i = x \<and> x \<notin> set (take i s)"
proof (induction s arbitrary: i)
  case (Cons c s)
  show ?case
  proof (cases "c = x")
    case False
    with Cons.prems obtain j where "i = Suc j" "c_strchr s x = Some j" by auto
    with Cons.IH [of j] False show ?thesis by simp
  qed (use Cons.prems in simp)
qed simp

lemma c_strchr_append: "x \<notin> set s \<Longrightarrow> c_strchr (s @ r) x = map_option ((+) (length s)) (c_strchr r x)"
proof (induction s)
  case (Cons c s)
  then show ?case by (cases "c_strchr r x") auto
qed (cases "c_strchr r x"; simp)

lemma c_strchr_None: "x \<notin> set s \<Longrightarrow> c_strchr s x = None"
  by (induction s) auto

text \<open>A pattern is found right behind a prefix that lacks its first byte.\<close>

lemma c_strstr_append:
  "p \<notin> set s \<Longrightarrow> c_strstr (s @ (p # pat) @ r) (p # pat) = Some (length s)"
  by (induction s) auto

definition lower :: "u8 \<Rightarrow> u8" where
  "lower b = (if 65 \<le> b \<and> b \<le> 90 then b + 32 else b)"

text \<open>\<open>strncasecmp(s, t, n) == 0\<close>.\<close>

definition strncasecmp_eq :: "u8 list \<Rightarrow> u8 list \<Rightarrow> nat \<Rightarrow> bool" where
  "strncasecmp_eq s t n \<longleftrightarrow> map lower (take n (s @ [0])) = map lower (take n (t @ [0]))"

section \<open>Numbers\<close>

definition is_space :: "u8 \<Rightarrow> bool" where
  "is_space b \<longleftrightarrow> b = 32 \<or> (9 \<le> b \<and> b \<le> 13)"

definition skip_space :: "u8 list \<Rightarrow> u8 list" where
  "skip_space s = dropWhile is_space s"

definition digit_of :: "nat \<Rightarrow> u8 \<Rightarrow> nat option" where
  "digit_of base b =
     (let d = (if 48 \<le> b \<and> b \<le> 57 then unat b - 48
               else if 97 \<le> lower b \<and> lower b \<le> 122 then unat (lower b) - 87 else 36)
      in if d < base then Some d else None)"

fun scan_digits :: "nat \<Rightarrow> nat \<Rightarrow> u8 list \<Rightarrow> nat \<times> u8 list" where
  "scan_digits base v [] = (v, [])"
| "scan_digits base v (b # s) =
     (case digit_of base b of None \<Rightarrow> (v, b # s) | Some d \<Rightarrow> scan_digits base (base * v + d) s)"

text \<open>An optional sign, then digits: at least one, or the conversion fails. In base 16 the digits may
  follow \<open>0x\<close>.\<close>

definition scan_sign :: "u8 list \<Rightarrow> int \<times> u8 list" where
  "scan_sign s = (case s of [] \<Rightarrow> (1, [])
     | c # r \<Rightarrow> if c = 45 then (-1, r) else if c = 43 then (1, r) else (1, s))"

definition scan_prefix :: "nat \<Rightarrow> u8 list \<Rightarrow> u8 list" where
  "scan_prefix base s = (if base = 16 \<and> map lower (take 2 s) = [48, 120] then drop 2 s else s)"

definition scan_number :: "nat \<Rightarrow> u8 list \<Rightarrow> (int \<times> u8 list) option" where
  "scan_number base s =
     (let sg = scan_sign (skip_space s);
          t = scan_prefix base (snd sg)
      in case t of [] \<Rightarrow> None
         | b # _ \<Rightarrow> if digit_of base b = None then None
                  else (let r = scan_digits base 0 t in Some (fst sg * int (fst r), snd r)))"

text \<open>\<open>%d\<close>, \<open>%hu\<close> and \<open>%lx\<close>.\<close>

definition scan_range :: "int \<Rightarrow> int \<Rightarrow> nat \<Rightarrow> u8 list \<Rightarrow> (int \<times> u8 list) option option" where
  "scan_range lo hi base s = (case scan_number base s of None \<Rightarrow> Some None
     | Some (v, r) \<Rightarrow> if lo \<le> v \<and> v \<le> hi then Some (Some (v, r)) else None)"

definition scan_d :: "u8 list \<Rightarrow> (int \<times> u8 list) option option" where
  "scan_d = scan_range INT_MIN INT_MAX 10"

definition scan_hu :: "u8 list \<Rightarrow> (int \<times> u8 list) option option" where
  "scan_hu = scan_range 0 65535 10"

definition scan_lx :: "u8 list \<Rightarrow> (int \<times> u8 list) option option" where
  "scan_lx = scan_range 0 18446744073709551615 16"

text \<open>A literal of the format.\<close>

definition scan_lit :: "u8 list \<Rightarrow> u8 list \<Rightarrow> u8 list option" where
  "scan_lit l s = (if take (length l) s = l then Some (drop (length l) s) else None)"

text \<open>\<open>%d\<close> of printf.\<close>

fun show_nat :: "nat \<Rightarrow> u8 list" where
  "show_nat n = (if n < 10 then [48 + of_nat n] else show_nat (n div 10) @ [48 + of_nat (n mod 10)])"

declare show_nat.simps [simp del]

definition show_int :: "int \<Rightarrow> u8 list" where
  "show_int x = (if x < 0 then 45 # show_nat (nat (- x)) else show_nat (nat x))"

text \<open>\<open>snprintf(buf, n, ...)\<close> keeps at most \<open>n - 1\<close> bytes.\<close>

definition snprintf_cut :: "nat \<Rightarrow> u8 list \<Rightarrow> u8 list" where
  "snprintf_cut n s = take (n - 1) s"

lemma no_nul_append [simp]: "no_nul (s @ t) \<longleftrightarrow> no_nul s \<and> no_nul t"
  by (auto simp: no_nul_def)

lemma digit_of_10 [simp]: "d < 10 \<Longrightarrow> digit_of 10 (48 + of_nat d) = Some d"
proof -
  assume "d < 10"
  then have "d \<in> {0, 1, 2, 3, 4, 5, 6, 7, 8, 9}" by auto
  then show ?thesis by (auto simp: digit_of_def lower_def)
qed

lemma show_nat_not_Nil [simp]: "show_nat n \<noteq> []"
  by (subst show_nat.simps) simp

lemma scan_digits_append:
  "\<forall>b \<in> set s. digit_of base b \<noteq> None \<Longrightarrow>
    scan_digits base v (s @ r) = scan_digits base (fst (scan_digits base v s)) r"
  by (induction s arbitrary: v) auto

lemma show_nat_digits: "b \<in> set (show_nat n) \<Longrightarrow> \<exists>d < 10. b = 48 + of_nat d"
proof (induction n rule: show_nat.induct)
  case (1 n)
  show ?case
  proof (cases "n < 10")
    case True
    with 1 show ?thesis by (simp add: show_nat.simps [of n]) blast
  next
    case False
    with 1(2) have "b \<in> set (show_nat (n div 10)) \<or> b = 48 + of_nat (n mod 10)"
      by (auto simp: show_nat.simps [of n])
    then show ?thesis using 1(1) [OF False] by (auto intro: exI [of _ "n mod 10"])
  qed
qed

lemma fst_scan_digits_snoc:
  "\<forall>b \<in> set s. digit_of base b \<noteq> None \<Longrightarrow> digit_of base c = Some d \<Longrightarrow>
    fst (scan_digits base v (s @ [c])) = base * fst (scan_digits base v s) + d"
  by (simp add: scan_digits_append)

lemma scan_digits_show_nat: "fst (scan_digits 10 0 (show_nat n)) = n"
proof (induction n rule: show_nat.induct)
  case (1 n)
  show ?case
  proof (cases "n < 10")
    case False
    have dig: "\<forall>b \<in> set (show_nat (n div 10)). digit_of 10 b \<noteq> None"
      using show_nat_digits [of _ "n div 10"] by fastforce
    have "fst (scan_digits 10 0 (show_nat n)) = 10 * fst (scan_digits 10 0 (show_nat (n div 10))) + n mod 10"
      unfolding show_nat.simps [of n] using False by (simp add: fst_scan_digits_snoc [OF dig])
    with 1 [OF False] show ?thesis by simp
  qed (simp add: show_nat.simps)
qed

text \<open>Printing and scanning are inverse when no further digit follows.\<close>

lemma scan_number_show_nat:
  assumes "r = [] \<or> digit_of 10 (hd r) = None"
  shows "scan_number 10 (show_nat n @ r) = Some (int n, r)"
proof -
  from show_nat_not_Nil [of n] obtain b s where bs: "show_nat n = b # s" by (cases "show_nat n") blast
  then obtain d where d: "d < 10" "b = 48 + of_nat d" using show_nat_digits [of b n] by auto
  then have "d \<in> {0, 1, 2, 3, 4, 5, 6, 7, 8, 9}" by auto
  with d have b: "\<not> is_space b" "b \<noteq> 45" "b \<noteq> 43" by (auto simp: is_space_def)
  have "\<forall>b \<in> set (show_nat n). digit_of 10 b \<noteq> None"
    using show_nat_digits [of _ n] by fastforce
  then have "scan_digits 10 0 (show_nat n @ r) = scan_digits 10 n r"
    by (simp add: scan_digits_append scan_digits_show_nat)
  also have "\<dots> = (n, r)" using assms by (cases r) auto
  finally show ?thesis using b d bs
    by (simp add: scan_number_def skip_space_def scan_sign_def scan_prefix_def Let_def)
qed

lemma length_show_nat: "n < 10 ^ k \<Longrightarrow> 0 < k \<Longrightarrow> length (show_nat n) \<le> k"
proof (induction k arbitrary: n)
  case (Suc k)
  show ?case
  proof (cases "n < 10")
    case False
    with Suc.prems have "k \<noteq> 0" by (intro notI) simp
    moreover have "n div 10 < 10 ^ k" using Suc.prems(1) by (simp add: less_mult_imp_div_less mult.commute)
    ultimately have "length (show_nat (n div 10)) \<le> k" using Suc.IH by simp
    then show ?thesis using False by (simp add: show_nat.simps [of n])
  qed (simp add: show_nat.simps [of n])
qed simp

lemma length_show_int: "0 \<le> x \<Longrightarrow> x \<le> INT_MAX \<Longrightarrow> length (show_int x) \<le> 10"
  unfolding show_int_def by (auto intro!: length_show_nat simp: nat_less_iff INT_MAX_def)

end
