(* ===== verification/Http_Request.thy ===== *)
theory Http_Request
  imports C_String
begin

text \<open>
  The sending half of utils/httpclient.c (the build without TLS): base64, URL parsing, connection,
  request header. The network is a record: what \<open>recv\<close>, \<open>send\<close> and
  \<open>getaddrinfo\<close> will meet, in order, what has been sent and which sockets have been closed.
  A result of \<open>None\<close> is undefined behaviour: a write past a buffer, or arithmetic on a NULL
  pointer.
\<close>

definition HTTPCLIENT_ERROR_PARSE :: int where "HTTPCLIENT_ERROR_PARSE = -6"
definition HTTPCLIENT_UNRESOLVED_DNS :: int where "HTTPCLIENT_UNRESOLVED_DNS = -5"
definition HTTPCLIENT_ERROR_PRTCL :: int where "HTTPCLIENT_ERROR_PRTCL = -4"
definition HTTPCLIENT_ERROR :: int where "HTTPCLIENT_ERROR = -3"
definition HTTPCLIENT_CLOSED :: int where "HTTPCLIENT_CLOSED = -2"
definition HTTPCLIENT_ERROR_CONN :: int where "HTTPCLIENT_ERROR_CONN = -1"
definition HTTPCLIENT_OK :: int where "HTTPCLIENT_OK = 0"
definition HTTPCLIENT_RETRIEVE_MORE_DATA :: int where "HTTPCLIENT_RETRIEVE_MORE_DATA = 1"

lemmas http_codes = HTTPCLIENT_ERROR_PARSE_def HTTPCLIENT_UNRESOLVED_DNS_def HTTPCLIENT_ERROR_PRTCL_def
  HTTPCLIENT_ERROR_def HTTPCLIENT_CLOSED_def HTTPCLIENT_ERROR_CONN_def HTTPCLIENT_OK_def
  HTTPCLIENT_RETRIEVE_MORE_DATA_def

definition HTTPCLIENT_AUTHB_SIZE :: int where "HTTPCLIENT_AUTHB_SIZE = 128"
definition HTTPCLIENT_SEND_BUF_SIZE :: int where "HTTPCLIENT_SEND_BUF_SIZE = 2048"
definition HTTPCLIENT_MAX_HOST_LEN :: int where "HTTPCLIENT_MAX_HOST_LEN = 64"
definition HTTPCLIENT_MAX_URL_LEN :: int where "HTTPCLIENT_MAX_URL_LEN = 2048"
definition HTTPCLIENT_CHUNK_SIZE :: int where "HTTPCLIENT_CHUNK_SIZE = 2048"
definition HTTPCLIENT_IF_RANGE_SIZE :: int where "HTTPCLIENT_IF_RANGE_SIZE = 128"
definition HTTPCLIENT_LOCATION_SIZE :: int where "HTTPCLIENT_LOCATION_SIZE = 512"
definition HTTP_PORT :: int where "HTTP_PORT = 80"
definition HTTPS_PORT :: int where "HTTPS_PORT = 443"

lemmas http_sizes = HTTPCLIENT_AUTHB_SIZE_def HTTPCLIENT_SEND_BUF_SIZE_def HTTPCLIENT_MAX_HOST_LEN_def
  HTTPCLIENT_MAX_URL_LEN_def HTTPCLIENT_CHUNK_SIZE_def HTTPCLIENT_IF_RANGE_SIZE_def
  HTTPCLIENT_LOCATION_SIZE_def HTTP_PORT_def HTTPS_PORT_def

datatype HTTPCLIENT_REQUEST_TYPE =
  HTTPCLIENT_GET | HTTPCLIENT_POST | HTTPCLIENT_PUT | HTTPCLIENT_DELETE | HTTPCLIENT_HEAD

section \<open>The network\<close>

text \<open>What a \<open>recv\<close> meets: at least one byte, nothing before its timeout, or an error. When the
  list is empty the peer has closed. A \<open>send\<close> takes at most as many bytes as the next number
  says (all when none is given), none or fails when it is not positive. Each \<open>getaddrinfo\<close>
  fails or gives addresses, each with the descriptor \<open>socket\<close> returns and whether
  \<open>connect\<close> succeeds.\<close>

datatype rx = Rx_Data u8 "u8 list" | Rx_Again | Rx_Error

record net =
  nt_rx :: "rx list"
  nt_tx :: "int list"
  nt_dns :: "(int \<times> bool) list option list"
  nt_sent :: "u8 list"
  nt_closed :: "int list"
  nt_clock :: "nat \<Rightarrow> u32"
  nt_reads :: nat

definition sock_send :: "u8 list \<Rightarrow> net \<Rightarrow> int \<times> net" where
  "sock_send d net = (case nt_tx net of
      [] \<Rightarrow> (int (length d), net\<lparr>nt_sent := nt_sent net @ d\<rparr>)
    | r # rs \<Rightarrow> if r \<le> 0 then (r, net\<lparr>nt_tx := rs\<rparr>)
        else (int (min (nat r) (length d)),
              net\<lparr>nt_tx := rs, nt_sent := nt_sent net @ take (nat r) d\<rparr>))"

definition sock_close :: "int \<Rightarrow> net \<Rightarrow> net" where
  "sock_close fd net = net\<lparr>nt_closed := nt_closed net @ [fd]\<rparr>"

section \<open>The client's data\<close>

record httpclient =
  hc_socket :: int
  hc_remote_port :: int
  hc_response_code :: int
  hc_header :: "u8 list option"
  hc_auth_user :: "u8 list option"
  hc_auth_password :: "u8 list option"
  hc_is_http :: bool

definition httpclient_zero :: httpclient where
  "httpclient_zero = \<lparr>hc_socket = 0, hc_remote_port = 0, hc_response_code = 0, hc_header = None,
     hc_auth_user = None, hc_auth_password = None, hc_is_http = False\<rparr>"

record http_data_ext =
  ex_is_range :: bool
  ex_if_range :: "u8 list"
  ex_range_beg :: int
  ex_range_end :: int
  ex_range_len :: int
  ex_location :: "u8 list"
  ex_remain_data_buf :: "u8 list"
  ex_remain_data_len :: int

text \<open>The buffers a data record points to are part of it; \<open>None\<close> is the NULL pointer.\<close>

record httpclient_data =
  hd_is_more :: bool
  hd_is_chunked :: bool
  hd_retrieve_len :: int
  hd_response_content_len :: int
  hd_content_block_len :: int
  hd_post_buf_len :: int
  hd_response_buf_len :: int
  hd_header_buf_len :: int
  hd_post_content_type :: "u8 list option"
  hd_post_buf :: "u8 list option"
  hd_response_buf :: "u8 list"
  hd_header_buf :: "u8 list option"
  hd_ext :: "http_data_ext option"

section \<open>Base64\<close>

definition b64_code :: "u8 list" where
  "b64_code = lit ''ABCDEFGHIJKLMNOPQRSTUVWXYZabcdefghijklmnopqrstuvwxyz0123456789+/=''"

text \<open>\<open>x\<close> is an \<open>int\<close> whose shifts the compiler takes modulo \<open>2 ^ 32\<close>;
  \<open>char\<close> is signed.\<close>

definition b64_char :: "u32 \<Rightarrow> u8" where
  "b64_char x = b64_code ! unat (x AND 63)"

fun b64_emit :: "u32 \<Rightarrow> nat \<Rightarrow> u8 list \<times> nat" where
  "b64_emit x l =
     (if 6 \<le> l then (let r = b64_emit x (l - 6) in (b64_char (drop_bit (l - 6) x) # fst r, snd r))
      else ([], l))"

declare b64_emit.simps [simp del]

fun b64_loop :: "u8 list \<Rightarrow> u32 \<Rightarrow> nat \<Rightarrow> u8 list \<times> u32 \<times> nat" where
  "b64_loop [] x l = ([], x, l)"
| "b64_loop (c # s) x l =
     (let x' = push_bit 8 x OR scast c; e = b64_emit x' (l + 8); r = b64_loop s x' (snd e)
      in (fst e @ fst r, snd r))"

definition httpclient_base64enc :: "u8 list \<Rightarrow> u8 list" where
  "httpclient_base64enc s =
     (case b64_loop s 0 0 of (out, x, l) \<Rightarrow>
        let out = out @ (if 0 < l then [b64_char (push_bit (6 - l) x)] else [])
        in out @ replicate ((4 - length out mod 4) mod 4) 61)"

section \<open>URLs\<close>

text \<open>An error comes with the port, when it was stored before the error was found.\<close>

type_synonym url_parts = "u8 list \<times> u8 list \<times> int \<times> u8 list"

definition url_host_port :: "u8 list \<Rightarrow> nat \<Rightarrow> (nat \<times> int) option option" where
  "url_host_port host pp = (case c_strchr host 58 of
      None \<Rightarrow> Some (Some (pp, 0))
    | Some p \<Rightarrow> if p < pp
        then do { r \<leftarrow> scan_hu (drop (p + 1) host);
                  Some (map_option (\<lambda>v. (if p = 0 then pp else p, fst v)) r) }
        else Some (Some (pp, 0)))"

definition url_path_len :: "u8 list \<Rightarrow> nat \<Rightarrow> int" where
  "url_path_len host pp = (case c_strchr host 35 of
      Some f \<Rightarrow> (int f - int pp) mod 2 ^ 64
    | None \<Rightarrow> int (length host) - int pp)"

definition httpclient_parse_url ::
  "u8 list \<Rightarrow> int \<Rightarrow> int \<Rightarrow> int \<Rightarrow> ((int \<times> int option) + url_parts) option" where
  "httpclient_parse_url url max_scheme_len maxhost_len max_path_len =
     (case c_strstr url (lit ''://'') of
        None \<Rightarrow> Some (Inl (HTTPCLIENT_ERROR_PARSE, None))
      | Some h \<Rightarrow>
        if max_scheme_len < int h + 1 then Some (Inl (HTTPCLIENT_ERROR_PARSE, None))
        else (let host = drop (h + 3) url in do {
          pp \<leftarrow> c_strchr host 47;
          hp \<leftarrow> url_host_port host pp;
          (case hp of
             None \<Rightarrow> Some (Inl (HTTPCLIENT_ERROR_PARSE, None))
           | Some (host_len, port) \<Rightarrow>
             if maxhost_len < int host_len + 1 then Some (Inl (HTTPCLIENT_ERROR_PARSE, Some port))
             else if max_path_len < (url_path_len host pp + 1) mod 2 ^ 64
             then Some (Inl (HTTPCLIENT_ERROR_PARSE, Some port))
             else do {
               path \<leftarrow> mem_read (drop pp host @ [0]) 0 (url_path_len host pp);
               Some (Inr (take h url, take host_len host, port, path)) }) }))"

section \<open>Connecting\<close>

fun conn_try :: "(int \<times> bool) list \<Rightarrow> int \<Rightarrow> httpclient \<Rightarrow> net \<Rightarrow> int \<times> httpclient \<times> net" where
  "conn_try [] ret client net = (ret, client, net)"
| "conn_try ((fd, ok) # addrs) ret client net =
     (let client = client\<lparr>hc_socket := fd\<rparr> in
      if fd < 0 then conn_try addrs HTTPCLIENT_ERROR_CONN client net
      else if ok then (0, client, net)
      else conn_try addrs HTTPCLIENT_ERROR_CONN client (sock_close fd net))"

definition httpclient_conn :: "httpclient \<Rightarrow> net \<Rightarrow> int \<times> httpclient \<times> net" where
  "httpclient_conn client net = (case nt_dns net of
      [] \<Rightarrow> (HTTPCLIENT_UNRESOLVED_DNS, client, net)
    | None # r \<Rightarrow> (HTTPCLIENT_UNRESOLVED_DNS, client, net\<lparr>nt_dns := r\<rparr>)
    | Some addrs # r \<Rightarrow> conn_try addrs HTTPCLIENT_UNRESOLVED_DNS client (net\<lparr>nt_dns := r\<rparr>))"

text \<open>The result has the count of allocations, the return value, the client and the network.\<close>

type_synonym http_result = "(nat \<times> int \<times> httpclient \<times> net) option"

definition connect_scheme :: "u8 list \<Rightarrow> int \<Rightarrow> httpclient \<Rightarrow> httpclient" where
  "connect_scheme scheme port client =
     (let client = client\<lparr>hc_remote_port := port,
            hc_is_http := (if scheme = lit ''https'' then False else if scheme = lit ''http'' then True
                           else hc_is_http client)\<rparr>
      in client\<lparr>hc_remote_port := (if port = 0 then if hc_is_http client then HTTP_PORT else HTTPS_PORT
                                  else port),
            hc_socket := -1\<rparr>)"

definition httpclient_connect :: "allocator \<Rightarrow> nat \<Rightarrow> httpclient \<Rightarrow> u8 list \<Rightarrow> net \<Rightarrow> http_result" where
  "httpclient_connect mal k client url net =
     (if mal k 2048 = None then Some (k + 1, HTTPCLIENT_ERROR, client, net)
      else do {
        r \<leftarrow> httpclient_parse_url url 8 HTTPCLIENT_MAX_HOST_LEN HTTPCLIENT_MAX_URL_LEN;
        (case r of
           Inl (res, port) \<Rightarrow> Some (k + 1, res,
             (case port of None \<Rightarrow> client | Some p \<Rightarrow> client\<lparr>hc_remote_port := p\<rparr>), net)
         | Inr (scheme, host, port, path) \<Rightarrow>
             (let client = connect_scheme scheme port client in
              if hc_is_http client then Some (k + 1, httpclient_conn client net)
              else Some (k + 1, HTTPCLIENT_ERROR_CONN, client, net))) })"

definition httpclient_close :: "httpclient \<Rightarrow> net \<Rightarrow> httpclient \<times> net" where
  "httpclient_close client net =
     (client\<lparr>hc_socket := -1\<rparr>,
      if hc_is_http client \<and> 0 \<le> hc_socket client then sock_close (hc_socket client) net else net)"

definition httpclient_set_response_timeout :: "httpclient \<Rightarrow> int \<Rightarrow> int" where
  "httpclient_set_response_timeout client timeout = (if hc_socket client < 0 then -1 else 0)"

section \<open>Sending\<close>

text \<open>\<open>written\<close> is what went out before the data that is left.\<close>

function tcp_send_loop :: "u8 list \<Rightarrow> int \<Rightarrow> net \<Rightarrow> int \<times> net" where
  "tcp_send_loop d written net =
     (if d = [] then (written, net)
      else (let r = sock_send d net in
        if 0 < fst r then tcp_send_loop (drop (nat (fst r)) d) (written + fst r) (snd r)
        else if fst r = 0 then (written, snd r)
        else (-1, snd r)))"
  by pat_completeness auto
termination
proof (relation "measure (\<lambda>(d, _, _). length d)")
  fix d :: "u8 list" and written :: int and net :: net and r
  assume "d \<noteq> []" "r = sock_send d net" "0 < fst r"
  then show "((drop (nat (fst r)) d, written + fst r, snd r), d, written, net) \<in> measure (\<lambda>(d, _, _). length d)"
    by (cases d) auto
qed simp

declare tcp_send_loop.simps [simp del]

definition httpclient_tcp_send_all :: "u8 list \<Rightarrow> net \<Rightarrow> int \<times> net" where
  "httpclient_tcp_send_all d net = tcp_send_loop d 0 net"

text \<open>Appends \<open>text\<close> to the send buffer; a full buffer is sent, and then neither the buffer's
  index nor the text is moved.\<close>

partial_function (option) get_info_loop ::
  "bool \<Rightarrow> u8 list \<Rightarrow> nat \<Rightarrow> u8 list \<Rightarrow> int \<Rightarrow> net \<Rightarrow> (int \<times> u8 list \<times> int \<times> net) option" where
  "get_info_loop is_http txt len send_buf idx net = do {
     let cp_len = (if int len \<le> HTTPCLIENT_SEND_BUF_SIZE - idx then len else nat (HTTPCLIENT_SEND_BUF_SIZE - idx));
     d \<leftarrow> mem_read txt 0 (int cp_len);
     send_buf \<leftarrow> mem_write send_buf idx d;
     let idx = idx + int cp_len;
     if idx = HTTPCLIENT_SEND_BUF_SIZE \<and> \<not> is_http then Some (HTTPCLIENT_ERROR, send_buf, idx, net)
     else do {
       let r = (if idx = HTTPCLIENT_SEND_BUF_SIZE then httpclient_tcp_send_all send_buf net else (0, net));
       if fst r \<noteq> 0 then Some (fst r, send_buf, idx, snd r)
       else if len - cp_len \<noteq> 0 then get_info_loop is_http txt (len - cp_len) send_buf idx (snd r)
       else Some (HTTPCLIENT_OK, send_buf, idx, snd r) } }"

text \<open>The buffer that is filled and the count of its bytes.\<close>

type_synonym send_state = "u8 list \<times> int \<times> net"

definition httpclient_get_info :: "httpclient \<Rightarrow> u8 list \<Rightarrow> nat \<Rightarrow> send_state \<Rightarrow> (int \<times> send_state) option" where
  "httpclient_get_info client txt len s = do {
     let len = (if len = 0 then length txt else len);
     r \<leftarrow> get_info_loop (hc_is_http client) txt len (fst s) (fst (snd s)) (snd (snd s));
     (case r of (ret, send_buf, idx, net) \<Rightarrow>
        Some (ret, send_buf, if ret = 0 then idx else fst (snd s), net)) }"

definition httpclient_basic_auth :: "httpclient \<Rightarrow> u8 list \<Rightarrow> u8 list \<Rightarrow> int \<times> httpclient" where
  "httpclient_basic_auth client user password =
     (if HTTPCLIENT_AUTHB_SIZE \<le> int (length user + length password) then (HTTPCLIENT_ERROR, client)
      else (HTTPCLIENT_OK, client\<lparr>hc_auth_user := Some user, hc_auth_password := Some password\<rparr>))"

definition httpclient_set_custom_header :: "httpclient \<Rightarrow> u8 list \<Rightarrow> httpclient" where
  "httpclient_set_custom_header client header = client\<lparr>hc_header := Some header\<rparr>"

definition crlf :: "u8 list" where "crlf = [13, 10]"

text \<open>The two arrays have 131 and 177 bytes.\<close>

definition httpclient_send_auth :: "httpclient \<Rightarrow> send_state \<Rightarrow> send_state option" where
  "httpclient_send_auth client s = do {
     (_, s) \<leftarrow> httpclient_get_info client (lit ''Authorization: Basic '') 0 s;
     user \<leftarrow> hc_auth_user client;
     password \<leftarrow> hc_auth_password client;
     let plain = user @ lit '':'' @ password;
     if 131 < length plain + 1 then None
     else do {
       let b = httpclient_base64enc plain;
       if 177 < length b + 3 then None
       else map_option snd (httpclient_get_info client (b @ crlf) 0 s) } }"

definition method_name :: "HTTPCLIENT_REQUEST_TYPE \<Rightarrow> u8 list" where
  "method_name m = (case m of HTTPCLIENT_GET \<Rightarrow> lit ''GET'' | HTTPCLIENT_POST \<Rightarrow> lit ''POST''
     | HTTPCLIENT_PUT \<Rightarrow> lit ''PUT'' | HTTPCLIENT_DELETE \<Rightarrow> lit ''DELETE'' | HTTPCLIENT_HEAD \<Rightarrow> lit ''HEAD'')"

definition request_lines :: "u8 list \<Rightarrow> u8 list \<Rightarrow> u8 list \<Rightarrow> u8 list" where
  "request_lines meth path host =
     meth @ lit '' '' @ path @ lit '' HTTP/1.1'' @ crlf @
     lit ''Host: '' @ host @ crlf @ lit ''Accept: */*'' @ crlf @
     lit ''Referer: http://'' @ host @ crlf @
     lit ''User-Agent: Mozilla/4.0 (compatible; MSIE 5.00; Windows 98)'' @ crlf @
     lit ''Pragma: no-cache'' @ crlf @ lit ''Cache-Control: no-cache'' @ crlf"

text \<open>\<open>strcat\<close> of a piece that was printed into an array of 64 bytes.\<close>

definition strcat_piece :: "u8 list \<Rightarrow> u8 list \<Rightarrow> u8 list option" where
  "strcat_piece buf piece =
     (let t = buf @ snprintf_cut 64 piece in
      if int (length t) < HTTPCLIENT_SEND_BUF_SIZE then Some t else None)"

definition range_lines :: "int \<Rightarrow> int \<Rightarrow> u8 list option \<Rightarrow> u8 list \<Rightarrow> u8 list option" where
  "range_lines begin_pos end_pos if_range buf =
     (if 0 \<le> begin_pos then do {
        buf \<leftarrow> strcat_piece buf (lit ''Range: bytes='' @ show_int begin_pos @ lit ''-'');
        buf \<leftarrow> strcat_piece buf ((if 0 < end_pos then show_int end_pos else []) @ crlf);
        (case if_range of
           None \<Rightarrow> Some buf
         | Some t \<Rightarrow> strcat_piece buf (lit ''If-Range: '' @ t @ crlf)) }
      else Some buf)"

text \<open>A header line whose result the code does not look at.\<close>

definition put_line :: "httpclient \<Rightarrow> u8 list \<Rightarrow> send_state \<Rightarrow> send_state option" where
  "put_line client txt s = map_option snd (httpclient_get_info client txt (length txt) s)"

definition send_extra :: "httpclient \<Rightarrow> httpclient_data \<Rightarrow> send_state \<Rightarrow> send_state option" where
  "send_extra client data s = do {
     s \<leftarrow> (if hc_auth_user client \<noteq> None then httpclient_send_auth client s else Some s);
     s \<leftarrow> (case hc_header client of None \<Rightarrow> Some s | Some h \<Rightarrow> put_line client h s);
     s \<leftarrow> (if hd_post_buf data \<noteq> None then do {
             s \<leftarrow> put_line client (lit ''Content-Length: '' @ show_int (hd_post_buf_len data) @ crlf) s;
             (case hd_post_content_type data of
                None \<Rightarrow> Some s
              | Some t \<Rightarrow> put_line client
                  (snprintf_cut (nat HTTPCLIENT_SEND_BUF_SIZE) (lit ''Content-Type: '' @ t @ crlf)) s) }
           else Some s);
     put_line client crlf s }"

definition send_result :: "int \<Rightarrow> int" where
  "send_result ret = (if 0 < ret then HTTPCLIENT_OK else if ret = 0 then HTTPCLIENT_CLOSED else HTTPCLIENT_ERROR_CONN)"

definition send_request_text ::
  "httpclient \<Rightarrow> httpclient_data \<Rightarrow> u8 list \<Rightarrow> u8 list \<Rightarrow> net \<Rightarrow> (int \<times> net) option" where
  "send_request_text client data buf send_buf net = do {
     (ret, s) \<leftarrow> httpclient_get_info client buf (length buf) (send_buf, 0, net);
     if ret \<noteq> 0 then Some (HTTPCLIENT_ERROR_CONN, snd (snd s))
     else do {
       (send_buf, len, net) \<leftarrow> send_extra client data s;
       d \<leftarrow> mem_read send_buf 0 len;
       let r = httpclient_tcp_send_all d net;
       Some (send_result (fst r), snd r) } }"

text \<open>Three allocations of 2048 bytes, made until one fails.\<close>

fun alloc_all :: "allocator \<Rightarrow> nat \<Rightarrow> nat list \<Rightarrow> bool \<times> nat" where
  "alloc_all mal k [] = (True, k)"
| "alloc_all mal k (n # ns) = (if mal k n = None then (False, k + 1) else alloc_all mal (k + 1) ns)"

definition httpclient_send_header ::
  "allocator \<Rightarrow> nat \<Rightarrow> httpclient \<Rightarrow> u8 list \<Rightarrow> HTTPCLIENT_REQUEST_TYPE \<Rightarrow> httpclient_data \<Rightarrow>
     int \<Rightarrow> int \<Rightarrow> u8 list option \<Rightarrow> net \<Rightarrow> (nat \<times> int \<times> net) option" where
  "httpclient_send_header mal k client url method data begin_pos end_pos if_range net =
     (case alloc_all mal k [2048, 2048, 2048] of (ok, k) \<Rightarrow>
      if \<not> ok then Some (k, HTTPCLIENT_ERROR, net)
      else do {
        r \<leftarrow> httpclient_parse_url url 8 HTTPCLIENT_MAX_HOST_LEN HTTPCLIENT_MAX_URL_LEN;
        (case r of
           Inl (res, _) \<Rightarrow> Some (k, res, net)
         | Inr (scheme, host, port, path) \<Rightarrow> do {
             buf \<leftarrow> range_lines begin_pos end_pos if_range
               (snprintf_cut (nat HTTPCLIENT_SEND_BUF_SIZE) (request_lines (method_name method) path host));
             x \<leftarrow> send_request_text client data buf (replicate (nat HTTPCLIENT_SEND_BUF_SIZE) 0) net;
             Some (k, x) }) })"

definition httpclient_send_userdata :: "httpclient \<Rightarrow> httpclient_data \<Rightarrow> net \<Rightarrow> (int \<times> net) option" where
  "httpclient_send_userdata client data net = (case hd_post_buf data of
      None \<Rightarrow> Some (HTTPCLIENT_OK, net)
    | Some b \<Rightarrow> if hd_post_buf_len data = 0 then Some (HTTPCLIENT_OK, net)
        else do {
          d \<leftarrow> mem_read b 0 (hd_post_buf_len data);
          let r = httpclient_tcp_send_all d net;
          Some (send_result (fst r), snd r) })"

definition httpclient_send_request_with_range ::
  "allocator \<Rightarrow> nat \<Rightarrow> httpclient \<Rightarrow> u8 list \<Rightarrow> HTTPCLIENT_REQUEST_TYPE \<Rightarrow> httpclient_data \<Rightarrow>
     int \<Rightarrow> int \<Rightarrow> u8 list option \<Rightarrow> net \<Rightarrow> (nat \<times> int \<times> net) option" where
  "httpclient_send_request_with_range mal k client url method data begin_pos end_pos if_range net =
     (if hc_socket client < 0 then Some (k, HTTPCLIENT_ERROR_CONN, net)
      else do {
        (k, ret, net) \<leftarrow> httpclient_send_header mal k client url method data begin_pos end_pos if_range net;
        if ret \<noteq> 0 then Some (k, ret, net)
        else if method = HTTPCLIENT_POST \<or> method = HTTPCLIENT_PUT
        then do { x \<leftarrow> httpclient_send_userdata client data net; Some (k, x) }
        else Some (k, ret, net) })"

definition httpclient_send_request ::
  "allocator \<Rightarrow> nat \<Rightarrow> httpclient \<Rightarrow> u8 list \<Rightarrow> HTTPCLIENT_REQUEST_TYPE \<Rightarrow> httpclient_data \<Rightarrow>
     net \<Rightarrow> (nat \<times> int \<times> net) option" where
  "httpclient_send_request mal k client url method data net =
     (if hc_socket client < 0 then Some (k, HTTPCLIENT_ERROR_CONN, net)
      else do {
        (k, ret, net) \<leftarrow> httpclient_send_header mal k client url method data (-1) (-1) (Some []) net;
        if ret \<noteq> 0 then Some (k, ret, net)
        else if method = HTTPCLIENT_POST \<or> method = HTTPCLIENT_PUT
        then do { x \<leftarrow> httpclient_send_userdata client data net; Some (k, x) }
        else Some (k, ret, net) })"

section \<open>Base64 and RFC 4648\<close>

text \<open>Three octets are four groups of six bits; a rest of one or two octets is padded.\<close>

fun b64_ref :: "u8 list \<Rightarrow> u8 list" where
  "b64_ref [] = []"
| "b64_ref [a] = map (\<lambda>s. b64_code ! unat s) [drop_bit 2 a, push_bit 4 (take_bit 2 a)] @ [61, 61]"
| "b64_ref [a, b] = map (\<lambda>s. b64_code ! unat s)
     [drop_bit 2 a, push_bit 4 (take_bit 2 a) OR drop_bit 4 b, push_bit 2 (take_bit 4 b)] @ [61]"
| "b64_ref (a # b # c # s) = map (\<lambda>s. b64_code ! unat s)
     [drop_bit 2 a, push_bit 4 (take_bit 2 a) OR drop_bit 4 b, push_bit 2 (take_bit 4 b) OR drop_bit 6 c,
      take_bit 6 c] @ b64_ref s"

lemma b64_charI: "x AND 63 = ucast s \<Longrightarrow> b64_char x = b64_code ! unat (s :: u8)"
proof -
  assume a: "x AND 63 = ucast s"
  have "unat s < 2 ^ 32" using unsigned_less [of s, where 'a = nat] by simp
  then have "unat (ucast s :: u32) = unat s" by (simp add: unsigned_ucast_eq take_bit_nat_eq_self)
  with a show ?thesis by (simp add: b64_char_def)
qed

lemma and_63: "(w :: u32) AND 63 = take_bit 6 w"
  by (simp add: take_bit_eq_mask mask_eq_exp_minus_1)

lemma ascii_bits: "(a :: u8) < 128 \<Longrightarrow> bit a n \<Longrightarrow> n < 7"
proof -
  assume "a < 128"
  then have "unat a < 2 ^ 7" by (simp add: word_less_nat_alt)
  then have "a = take_bit 7 a"
    by (metis take_bit_nat_eq_self unsigned_take_bit_eq word_unat_eq_iff)
  then show "bit a n \<Longrightarrow> n < 7" by (metis bit_take_bit_iff)
qed

lemma ascii_scast: "(a :: u8) < 128 \<Longrightarrow> (scast a :: u32) = ucast a"
  by (rule bit_word_eqI) (auto simp: bit_simps dest: ascii_bits)

lemmas b64_bits = and_63 bit_simps

lemma b64_emit_steps:
  "b64_emit x 8 = ([b64_char (drop_bit 2 x)], 2)"
  "b64_emit x 10 = ([b64_char (drop_bit 4 x)], 4)"
  "b64_emit x 12 = ([b64_char (drop_bit 6 x), b64_char x], 0)"
  by (simp_all add: b64_emit.simps)

lemma b64_loop_3:
  assumes "a < 128" "b < 128" "c < 128"
  shows "\<exists>x' w. length w = 4 \<and> b64_ref (a # b # c # s) = w @ b64_ref s \<and>
    b64_loop (a # b # c # s) x 0 = (w @ fst (b64_loop s x' 0), snd (b64_loop s x' 0))"
proof -
  let ?x = "push_bit 8 x OR ucast a :: u32" let ?y = "push_bit 8 ?x OR ucast b :: u32"
  let ?z = "push_bit 8 ?y OR ucast c :: u32"
  have "drop_bit 2 ?x AND 63 = ucast (drop_bit 2 a)"
    by (rule bit_word_eqI) (use assms in \<open>auto simp: b64_bits dest: ascii_bits\<close>)
  moreover have "drop_bit 4 ?y AND 63 = ucast (push_bit 4 (take_bit 2 a) OR drop_bit 4 b)"
    by (rule bit_word_eqI) (use assms in \<open>auto simp: b64_bits dest: ascii_bits\<close>)
  moreover have "drop_bit 6 ?z AND 63 = ucast (push_bit 2 (take_bit 4 b) OR drop_bit 6 c)"
    by (rule bit_word_eqI) (use assms in \<open>auto simp: b64_bits dest: ascii_bits\<close>)
  moreover have "?z AND 63 = ucast (take_bit 6 c)"
    by (rule bit_word_eqI) (use assms in \<open>auto simp: b64_bits dest: ascii_bits\<close>)
  ultimately show ?thesis
    by (intro exI [of _ ?z] exI [of _ "map (\<lambda>s. b64_code ! unat s) [drop_bit 2 a,
      push_bit 4 (take_bit 2 a) OR drop_bit 4 b, push_bit 2 (take_bit 4 b) OR drop_bit 6 c, take_bit 6 c]"])
      (simp add: assms [THEN ascii_scast] b64_emit_steps b64_charI Let_def)
qed

definition b64_finish :: "u8 list \<times> u32 \<times> nat \<Rightarrow> u8 list" where
  "b64_finish r = (let out = fst r @ (if 0 < snd (snd r) then [b64_char (push_bit (6 - snd (snd r)) (fst (snd r)))] else [])
     in out @ replicate ((4 - length out mod 4) mod 4) 61)"

lemma b64_finish_append: "length w = 4 \<Longrightarrow> b64_finish (w @ out, y) = w @ b64_finish (out, y)"
  by (simp add: b64_finish_def Let_def)

lemma b64_finish_loop:
  assumes "\<forall>b \<in> set s. b < 128"
  shows "b64_finish (b64_loop s x 0) = b64_ref s"
  using assms
proof (induction s arbitrary: x rule: b64_ref.induct)
  case 1
  show ?case by (simp add: b64_finish_def)
next
  case (2 a)
  let ?x = "push_bit 8 x OR ucast a :: u32"
  from 2 have a: "a < 128" by simp
  have "drop_bit 2 ?x AND 63 = ucast (drop_bit 2 a)" "push_bit 4 ?x AND 63 = ucast (push_bit 4 (take_bit 2 a))"
    by (rule bit_word_eqI, use a in \<open>auto simp: b64_bits dest: ascii_bits\<close>)+
  note c = this [THEN b64_charI]
  have "b64_loop [a] x 0 = ([b64_char (drop_bit 2 ?x)], ?x, 2)"
    by (simp add: ascii_scast [OF a] b64_emit_steps Let_def)
  also have "b64_finish \<dots> = [b64_char (drop_bit 2 ?x), b64_char (push_bit 4 ?x), 61, 61]"
    by (simp add: b64_finish_def Let_def numeral_2_eq_2 [THEN arg_cong [where f = "\<lambda>n. replicate n _"]])
  finally show ?case by (simp only: c b64_ref.simps list.map append.simps)
next
  case (3 a b)
  let ?x = "push_bit 8 x OR ucast a :: u32" let ?y = "push_bit 8 ?x OR ucast b :: u32"
  from 3 have ab: "a < 128" "b < 128" by simp_all
  have "drop_bit 2 ?x AND 63 = ucast (drop_bit 2 a)"
    "drop_bit 4 ?y AND 63 = ucast (push_bit 4 (take_bit 2 a) OR drop_bit 4 b)"
    "push_bit 2 ?y AND 63 = ucast (push_bit 2 (take_bit 4 b))"
    by (rule bit_word_eqI, use ab in \<open>auto simp: b64_bits dest: ascii_bits\<close>)+
  note c = this [THEN b64_charI]
  have "b64_loop [a, b] x 0 = ([b64_char (drop_bit 2 ?x), b64_char (drop_bit 4 ?y)], ?y, 4)"
    by (simp add: ab [THEN ascii_scast] b64_emit_steps Let_def)
  also have "b64_finish \<dots> = [b64_char (drop_bit 2 ?x), b64_char (drop_bit 4 ?y), b64_char (push_bit 2 ?y), 61]"
    by (simp add: b64_finish_def Let_def)
  finally show ?case by (simp only: c b64_ref.simps list.map append.simps)
next
  case (4 a b c s)
  then have "a < 128" "b < 128" "c < 128" by simp_all
  from b64_loop_3 [OF this, of s x] obtain x' w where w: "length w = 4"
    "b64_ref (a # b # c # s) = w @ b64_ref s"
    "b64_loop (a # b # c # s) x 0 = (w @ fst (b64_loop s x' 0), snd (b64_loop s x' 0))"
    by blast
  have "b64_finish (b64_loop (a # b # c # s) x 0) = w @ b64_finish (b64_loop s x' 0)"
    unfolding w(3) b64_finish_append [OF w(1)] by simp
  with 4 show ?case by (simp only: w(2)) simp
qed

text \<open>For ASCII text the encoder is that of RFC 4648.\<close>

lemma base64enc_ref: "\<forall>b \<in> set s. b < 128 \<Longrightarrow> httpclient_base64enc s = b64_ref s"
  using b64_finish_loop [of s 0]
  by (cases "b64_loop s 0 0") (auto simp: httpclient_base64enc_def b64_finish_def Let_def split: if_splits)

lemma length_b64_ref: "length (b64_ref s) = (length s + 2) div 3 * 4"
  by (induction s rule: b64_ref.induct) (simp_all, presburger)

section \<open>URLs and their parts\<close>

definition host_ok :: "u8 list \<Rightarrow> bool" where
  "host_ok host \<longleftrightarrow> host \<noteq> [] \<and> length host < 64 \<and> 58 \<notin> set host \<and> 47 \<notin> set host \<and> 35 \<notin> set host"

definition path_ok :: "u8 list \<Rightarrow> bool" where
  "path_ok path \<longleftrightarrow> path \<noteq> [] \<and> hd path = 47 \<and> length path < 2048 \<and> 35 \<notin> set path"

definition scheme_ok :: "u8 list \<Rightarrow> bool" where
  "scheme_ok scheme \<longleftrightarrow> length scheme < 8 \<and> 58 \<notin> set scheme"

lemmas [wf_defs] = host_ok_def path_ok_def scheme_ok_def

lemma show_nat_no: "b \<notin> {48, 49, 50, 51, 52, 53, 54, 55, 56, 57} \<Longrightarrow> b \<notin> set (show_nat n)"
proof
  assume b: "b \<notin> {48, 49, 50, 51, 52, 53, 54, 55, 56, 57}" "b \<in> set (show_nat n)"
  from show_nat_digits [OF b(2)] obtain d where d: "d < 10" "b = 48 + of_nat d" by blast
  then have "d \<in> {0, 1, 2, 3, 4, 5, 6, 7, 8, 9}" by auto
  with d b(1) show False by auto
qed

lemma c_strstr_scheme: "58 \<notin> set scheme \<Longrightarrow> c_strstr (scheme @ 58 # 47 # 47 # r) [58, 47, 47] = Some (length scheme)"
  using c_strstr_append [of 58 scheme "[47, 47]" r] by simp

lemma url_path_len_ok:
  "host_ok host \<Longrightarrow> path_ok path \<Longrightarrow> 35 \<notin> set mid \<Longrightarrow>
    url_path_len (host @ mid @ path) (length host + length mid) = int (length path)"
  by (simp add: url_path_len_def c_strchr_None wf_defs)

lemma parse_url_parts:
  assumes "scheme_ok scheme" "host_ok host" "path_ok path" "35 \<notin> set mid" "47 \<notin> set mid"
    "url_host_port (host @ mid @ path) (length host + length mid) = Some (Some (length host, port))"
  shows "httpclient_parse_url (scheme @ lit ''://'' @ host @ mid @ path) 8 64 2048 =
    Some (Inr (scheme, host, port, path))"
proof -
  have "c_strchr path 47 = Some 0" using assms(3) by (cases path) (simp_all add: wf_defs)
  then have s: "c_strchr (host @ mid @ path) 47 = Some (length host + length mid)"
    using assms(2,5) by (simp add: c_strchr_append wf_defs)
  have m: "(int (length path) + 1) mod 18446744073709551616 \<le> 2048"
    using assms(3) by (simp add: wf_defs)
  show ?thesis
    using assms(1,2,3) s m
    by (simp add: httpclient_parse_url_def c_strstr_scheme url_path_len_ok [OF assms(2,3,4)] assms(6)
        mem_read_ok wf_defs Let_def)
qed

text \<open>Parsing undoes printing.\<close>

lemma parse_url_with_port:
  assumes "scheme_ok scheme" "host_ok host" "path_ok path" "port < 65536"
  shows "httpclient_parse_url (scheme @ lit ''://'' @ host @ lit '':'' @ show_nat port @ path) 8 64 2048 =
    Some (Inr (scheme, host, int port, path))"
proof -
  let ?mid = "lit '':'' @ show_nat port"
  have "path = [] \<or> digit_of 10 (hd path) = None"
    using assms(3) by (simp add: wf_defs digit_of_def lower_def)
  then have "scan_hu (show_nat port @ path) = Some (Some (int port, path))"
    using assms(4) by (simp add: scan_hu_def scan_range_def scan_number_show_nat)
  then have "url_host_port (host @ ?mid @ path) (length host + length ?mid) = Some (Some (length host, int port))"
    using assms(2) by (simp add: url_host_port_def c_strchr_append wf_defs)
  from parse_url_parts [OF assms(1-3) _ _ this] show ?thesis by (simp add: show_nat_no)
qed

lemma parse_url_without_port:
  assumes "scheme_ok scheme" "host_ok host" "path_ok path"
  shows "httpclient_parse_url (scheme @ lit ''://'' @ host @ path) 8 64 2048 = Some (Inr (scheme, host, 0, path))"
proof -
  have "url_host_port (host @ [] @ path) (length host + length ([] :: u8 list)) = Some (Some (length host, 0))"
    using assms(2) by (cases "c_strchr path 58") (simp_all add: url_host_port_def c_strchr_append wf_defs)
  from parse_url_parts [OF assms _ _ this] show ?thesis by simp
qed

section \<open>What is sent\<close>

definition accepts :: "net \<Rightarrow> bool" where
  "accepts net \<longleftrightarrow> (\<forall>r \<in> set (nt_tx net). 0 < r)"

lemma tcp_send_loop_prefix:
  "tcp_send_loop d w net = (ret, net') \<Longrightarrow>
    \<exists>n \<le> length d. nt_sent net' = nt_sent net @ take n d \<and> (ret = w + int n \<or> ret = -1)"
proof (induction d w net rule: tcp_send_loop.induct)
  case (1 d w net)
  show ?case
  proof (cases "d \<noteq> [] \<and> 0 < fst (sock_send d net)")
    case True
    obtain r n1 where s: "sock_send d net = (r, n1)" by (cases "sock_send d net")
    with True have r: "0 < r" by simp
    from s r have r': "nat r \<le> length d" "nt_sent n1 = nt_sent net @ take (nat r) d"
      by (auto simp: sock_send_def min_def split: list.splits if_splits)
    from 1 True s obtain n where n: "n \<le> length (drop (nat r) d)"
      "nt_sent net' = nt_sent n1 @ take n (drop (nat r) d)" "ret = w + r + int n \<or> ret = -1"
      by (auto simp: tcp_send_loop.simps [of d] Let_def)
    with r r' show ?thesis
      by (intro exI [of _ "nat r + n"]) (auto simp: take_add)
  next
    case False
    with "1.prems" show ?thesis
      by (auto simp: tcp_send_loop.simps [of d] sock_send_def Let_def split: list.splits if_splits intro: exI [of _ 0])
  qed
qed

lemma tcp_send_all_accepts:
  "accepts net \<Longrightarrow> \<exists>net'. tcp_send_loop d w net = (w + int (length d), net') \<and> accepts net' \<and>
    nt_sent net' = nt_sent net @ d"
proof (induction d w net rule: tcp_send_loop.induct)
  case (1 d w net)
  show ?case
  proof (cases "d = []")
    case False
    obtain r n1 where s: "sock_send d net = (r, n1)" by (cases "sock_send d net")
    with False "1.prems" have r: "0 < r" "accepts n1" "nat r \<le> length d" "nt_sent n1 = nt_sent net @ take (nat r) d"
      by (auto simp: sock_send_def accepts_def min_def split: list.splits if_splits)
    with 1 False s show ?thesis by (auto simp: tcp_send_loop.simps [of d])
  qed (use "1.prems" in \<open>simp add: tcp_send_loop.simps\<close>)
qed

text \<open>While the send buffer does not fill, \<open>get_info\<close> appends.\<close>

lemma get_info_appends:
  assumes "txt \<noteq> []" "length send_buf = 2048" "0 \<le> idx" "idx + int (length txt) < 2048" "len = 0 \<or> len = length txt"
  shows "httpclient_get_info client txt len (send_buf, idx, net) =
    Some (0, take (nat idx) send_buf @ txt @ drop (nat idx + length txt) send_buf, idx + int (length txt), net)"
proof -
  from assms have "mem_read txt 0 (int (length txt)) = Some txt"
    "mem_write send_buf idx txt = Some (take (nat idx) send_buf @ txt @ drop (nat idx + length txt) send_buf)"
    by (simp_all add: mem_read_ok mem_write_ok)
  with assms show ?thesis
    by (auto simp: httpclient_get_info_def get_info_loop.simps [of _ _ "length txt"] http_sizes http_codes Let_def)
qed

text \<open>What goes out is the request text and an empty line.\<close>

lemma send_request_text_sends:
  assumes "accepts net" "buf \<noteq> []" "length buf + 2 < 2048"
    "hc_auth_user client = None" "hc_header client = None" "hd_post_buf data = None"
  shows "\<exists>net'. send_request_text client data buf (replicate 2048 0) net = Some (HTTPCLIENT_OK, net') \<and>
    nt_sent net' = nt_sent net @ buf @ crlf"
proof -
  have c: "crlf \<noteq> []" "length crlf = 2" by (simp_all add: crlf_def)
  let ?b = "buf @ replicate (2048 - length buf) 0"
  have 1: "httpclient_get_info client buf (length buf) (replicate 2048 0, 0, net) = Some (0, ?b, int (length buf), net)"
    using get_info_appends [OF assms(2), of "replicate 2048 0" 0 "length buf" client net] assms(3) by simp
  have 2: "put_line client crlf (?b, int (length buf), net) =
      Some (buf @ crlf @ replicate (2048 - length buf - 2) 0, int (length buf) + 2, net)"
    using get_info_appends [OF c(1), of ?b "int (length buf)" 2 client net] c(2) assms(3) by (simp add: put_line_def)
  obtain net' where n: "httpclient_tcp_send_all (buf @ crlf) net = (int (length buf) + 2, net')"
    "nt_sent net' = nt_sent net @ buf @ crlf"
    using tcp_send_all_accepts [OF assms(1), of "buf @ crlf" 0] c(2) by (auto simp: httpclient_tcp_send_all_def)
  have "mem_read (buf @ crlf @ replicate (2048 - length buf - 2) 0) 0 (int (length buf) + 2) = Some (buf @ crlf)"
    using c(2) by (simp add: mem_read_ok nat_add_distrib)
  with 1 2 n show ?thesis using assms(4-6)
    by (simp add: send_request_text_def send_extra_def send_result_def)
qed

text \<open>The text of a request that fills its buffer leaves no room for the range.\<close>

lemma range_lines_full: "length buf = 2047 \<Longrightarrow> 0 \<le> b \<Longrightarrow> range_lines b e if_range buf = None"
  by (simp add: range_lines_def strcat_piece_def snprintf_cut_def http_sizes Let_def)

lemma send_request_range:
  assumes "accepts net" "scheme_ok scheme" "host_ok host" "path_ok path" "\<forall>i n. mal i n \<noteq> None" "0 \<le> hc_socket client"
    "hc_auth_user client = None" "hc_header client = None" "hd_post_buf data = None"
    "0 \<le> b" "b \<le> INT_MAX" "0 < e" "e \<le> INT_MAX"
    "length (request_lines (lit ''GET'') path host) < 2000"
  shows "\<exists>net'. httpclient_send_request_with_range mal k client (scheme @ lit ''://'' @ host @ path) HTTPCLIENT_GET data b e None net =
      Some (k + 3, HTTPCLIENT_OK, net') \<and>
    nt_sent net' = nt_sent net @ request_lines (lit ''GET'') path host @
      lit ''Range: bytes='' @ show_int b @ lit ''-'' @ show_int e @ crlf @ crlf"
proof -
  let ?rl = "request_lines (lit ''GET'') path host"
  let ?buf = "?rl @ lit ''Range: bytes='' @ show_int b @ lit ''-'' @ show_int e @ crlf"
  have l: "length (show_int b) \<le> 10" "length (show_int e) \<le> 10" using assms by (simp_all add: length_show_int)
  have c: "length crlf = 2" by (simp add: crlf_def)
  have r: "range_lines b e None ?rl = Some ?buf"
    using assms(10,12,14) l c by (simp add: range_lines_def strcat_piece_def snprintf_cut_def http_sizes Let_def)
  have "?buf \<noteq> []" "length ?buf + 2 < 2048" using assms(14) l c by (simp_all add: request_lines_def)
  from send_request_text_sends [OF assms(1) this assms(7-9)] obtain net' where
    s: "send_request_text client data ?buf (replicate 2048 0) net = Some (HTTPCLIENT_OK, net')"
    "nt_sent net' = nt_sent net @ ?buf @ crlf" by blast
  have "snprintf_cut 2048 ?rl = ?rl" using assms(14) by (simp add: snprintf_cut_def)
  moreover have "alloc_all mal k [2048, 2048, 2048] = (True, k + 3)" using assms(5) by simp
  ultimately have "httpclient_send_header mal k client (scheme @ lit ''://'' @ host @ path) HTTPCLIENT_GET data b e None net =
      Some (k + 3, HTTPCLIENT_OK, net')"
    using parse_url_without_port [OF assms(2-4)] r s(1)
    by (simp add: httpclient_send_header_def http_sizes method_name_def del: alloc_all.simps)
  with assms(6) s(2) show ?thesis
    by (simp add: httpclient_send_request_with_range_def http_codes)
qed

end
