(* ===== verification/Http_Response.thy ===== *)
theory Http_Response
  imports Http_Request
begin

text \<open>
  The receiving half of utils/httpclient.c: the response line and headers, and the retrieval of the
  content in blocks of the caller's buffer, in the three ways the code knows (until the peer
  closes, with a content length, in chunks). The work buffer of 2048 bytes is represented by the
  list of the bytes it holds, its first \<open>len\<close>; the code keeps a NUL behind them and reads
  nothing else of it. All loops are partial functions: \<open>None\<close> is undefined behaviour or a loop
  that does not end, and there is one of those (lemma \<open>chunk_header_spins\<close>).
\<close>

section \<open>Receiving\<close>

definition size_t :: "int \<Rightarrow> int" where
  "size_t x = (if x < 0 then x + 18446744073709551616 else x)"

text \<open>\<open>recv(fd, buf, n)\<close>: its value, whether it failed with \<open>EWOULDBLOCK\<close>, the bytes.\<close>

definition sock_recv :: "nat \<Rightarrow> net \<Rightarrow> int \<times> bool \<times> u8 list \<times> net" where
  "sock_recv n net = (case nt_rx net of
      [] \<Rightarrow> (0, False, [], net)
    | Rx_Again # r \<Rightarrow> (-1, True, [], net\<lparr>nt_rx := r\<rparr>)
    | Rx_Error # r \<Rightarrow> (-1, False, [], net\<lparr>nt_rx := r\<rparr>)
    | Rx_Data b bs # r \<Rightarrow>
        (int (min n (Suc (length bs))), False, take n (b # bs),
         net\<lparr>nt_rx := (case drop n (b # bs) of [] \<Rightarrow> r | c # cs \<Rightarrow> Rx_Data c cs # r)\<rparr>))"

datatype recv_next = Recv_Go | Recv_End int

text \<open>One round of the loop: up to \<open>min_len\<close> bytes the call blocks, then it does not.
  \<open>room\<close> is what the object has from the pointer on.\<close>

definition recv_once ::
  "int \<Rightarrow> int \<Rightarrow> int \<Rightarrow> u8 list \<Rightarrow> net \<Rightarrow> (recv_next \<times> u8 list \<times> net) option" where
  "recv_once room min_len max_len acc net =
     (let got = int (length acc);
          blocking = (got < size_t min_len);
          n = (if blocking then size_t min_len else size_t max_len) - got
      in if room \<le> got \<or> room < got + n then None
         else (case sock_recv (nat n) net of (ret, again, d, net) \<Rightarrow> Some
           (if 0 < ret then (Recv_Go, acc @ d, net)
            else if ret = 0 then (Recv_End (if blocking then HTTPCLIENT_CLOSED else HTTPCLIENT_OK), acc, net)
            else if \<not> blocking \<and> again then (Recv_End HTTPCLIENT_OK, acc, net)
            else (Recv_End HTTPCLIENT_ERROR_CONN, acc, net))))"

partial_function (option) recv_loop ::
  "int \<Rightarrow> int \<Rightarrow> int \<Rightarrow> u8 list \<Rightarrow> net \<Rightarrow> (int \<times> u8 list \<times> net) option" where
  "recv_loop room min_len max_len acc net =
     (if int (length acc) < size_t max_len then do {
        r \<leftarrow> recv_once room min_len max_len acc net;
        (case fst r of
           Recv_Go \<Rightarrow> recv_loop room min_len max_len (fst (snd r)) (snd (snd r))
         | Recv_End ret \<Rightarrow> Some (ret, fst (snd r), snd (snd r))) }
      else if room \<le> int (length acc) then None
      else Some (HTTPCLIENT_OK, acc, net))"

definition httpclient_recv ::
  "httpclient \<Rightarrow> int \<Rightarrow> int \<Rightarrow> int \<Rightarrow> net \<Rightarrow> (int \<times> u8 list \<times> net) option" where
  "httpclient_recv client room min_len max_len net =
     (if hc_is_http client then recv_loop room min_len max_len [] net
      else if room \<le> 0 then None else Some (HTTPCLIENT_OK, [], net))"

text \<open>The answers after which the callers give up.\<close>

definition recv_failed :: "int \<Rightarrow> u8 list \<Rightarrow> bool" where
  "recv_failed ret bytes \<longleftrightarrow> ret = HTTPCLIENT_ERROR_CONN \<or> ret = HTTPCLIENT_CLOSED \<and> bytes = []"

section \<open>The timer\<close>

definition http_current_time_ms :: "net \<Rightarrow> u32 \<times> net" where
  "http_current_time_ms net = (nt_clock net (nt_reads net), net\<lparr>nt_reads := Suc (nt_reads net)\<rparr>)"

definition countdown_ms :: "u32 \<Rightarrow> net \<Rightarrow> u32 \<times> net" where
  "countdown_ms timeout net = (let r = http_current_time_ms net in (fst r + timeout, snd r))"

definition expired :: "u32 \<Rightarrow> net \<Rightarrow> bool \<times> net" where
  "expired end_time net =
     (let r = http_current_time_ms net in (end_time < fst r \<or> end_time = fst r, snd r))"

section \<open>The content\<close>

text \<open>Bytes and a NUL into the caller's buffer.\<close>

definition put_body :: "httpclient_data \<Rightarrow> int \<Rightarrow> u8 list \<Rightarrow> httpclient_data option" where
  "put_body d off bytes = do {
     b \<leftarrow> mem_write (hd_response_buf d) off (bytes @ [0]);
     Some (d\<lparr>hd_response_buf := b\<rparr>) }"

type_synonym content_result = "(int \<times> httpclient_data \<times> net) option"

text \<open>A content of unknown length: until the peer closes.\<close>

partial_function (option) raw_loop ::
  "httpclient \<Rightarrow> u8 list \<Rightarrow> int \<Rightarrow> httpclient_data \<Rightarrow> net \<Rightarrow> content_result" where
  "raw_loop client dat count d net =
     (if count + int (length dat) < hd_response_buf_len d - 1 then do {
        d \<leftarrow> put_body d count dat;
        let count = count + int (length dat);
        r \<leftarrow> httpclient_recv client HTTPCLIENT_CHUNK_SIZE 1
          (min (HTTPCLIENT_CHUNK_SIZE - 1) (hd_response_buf_len d - 1 - count)) net;
        if fst r = HTTPCLIENT_ERROR_CONN
        then Some (fst r, d\<lparr>hd_content_block_len := count\<rparr>, snd (snd r))
        else if fst (snd r) = [] then Some (HTTPCLIENT_OK, d\<lparr>hd_is_more := False\<rparr>, snd (snd r))
        else raw_loop client (fst (snd r)) count d (snd (snd r)) }
      else do {
        piece \<leftarrow> mem_read dat 0 (hd_response_buf_len d - 1 - count);
        d \<leftarrow> put_body d count piece;
        Some (HTTPCLIENT_RETRIEVE_MORE_DATA, d\<lparr>hd_content_block_len := hd_response_buf_len d - 1\<rparr>, net) })"

text \<open>The header of a chunk. The search stops two bytes before the end of the data. The code's test
  for a full work buffer comes after its write of the NUL behind the data, so it is never reached
  with one.\<close>

definition find_crlf :: "u8 list \<Rightarrow> nat option" where
  "find_crlf dat = c_strstr (butlast dat) crlf"

partial_function (option) chunk_header_loop ::
  "httpclient \<Rightarrow> int \<Rightarrow> u8 list \<Rightarrow> net \<Rightarrow> ((int + nat) \<times> u8 list \<times> net) option" where
  "chunk_header_loop client buf_len dat net =
     (if HTTPCLIENT_CHUNK_SIZE \<le> int (length dat) then None
      else (case find_crlf dat of
         Some p \<Rightarrow> Some (Inr p, dat, net)
       | None \<Rightarrow> do {
           r \<leftarrow> httpclient_recv client (HTTPCLIENT_CHUNK_SIZE - int (length dat)) 0
             (min buf_len HTTPCLIENT_CHUNK_SIZE - int (length dat) - 1) net;
           if recv_failed (fst r) (fst (snd r)) then Some (Inl (fst r), dat @ fst (snd r), snd (snd r))
           else chunk_header_loop client buf_len (dat @ fst (snd r)) (snd (snd r)) }))"

text \<open>\<open>readLen\<close> is a \<open>size_t\<close>, \<open>retrieve_len\<close> an \<open>int\<close>.\<close>

definition int_of_size :: "int \<Rightarrow> int" where
  "int_of_size n = sint (word_of_int n :: 32 word)"

definition chunk_start ::
  "u8 list \<Rightarrow> nat \<Rightarrow> httpclient_data \<Rightarrow> (int option \<times> int \<times> httpclient_data) option" where
  "chunk_start dat p d = do {
     x \<leftarrow> scan_lx (c_string (take p dat));
     let readLen = (case x of None \<Rightarrow> 0 | Some (v, _) \<Rightarrow> v);
     total \<leftarrow> c_int (hd_response_content_len d + int_of_size readLen);
     let d = d\<lparr>hd_retrieve_len := int_of_size readLen, hd_response_content_len := total\<rparr>;
     Some (if x = None then Some HTTPCLIENT_ERROR_PRTCL else None, readLen, d) }"

text \<open>What does not fit the caller's buffer is kept for the next call.\<close>

definition keep_remain :: "u8 list \<Rightarrow> httpclient_data \<Rightarrow> httpclient_data option" where
  "keep_remain rest d = (case hd_ext d of
      None \<Rightarrow> Some d
    | Some e \<Rightarrow> if rest = [] then Some d
        else if HTTPCLIENT_CHUNK_SIZE < int (length rest)
        then Some (d\<lparr>hd_ext := Some (e\<lparr>ex_remain_data_buf := replicate 2048 0,
                 ex_remain_data_len := int (length rest)\<rparr>)\<rparr>)
        else do {
          b \<leftarrow> mem_write (replicate 2048 0) 0 rest;
          Some (d\<lparr>hd_ext := Some (e\<lparr>ex_remain_data_buf := b, ex_remain_data_len := int (length rest)\<rparr>)\<rparr>) })"

text \<open>The loop over one piece of \<open>readLen\<close> bytes; \<open>Some ret\<close> when the function returns
  from inside it.\<close>

partial_function (option) body_loop ::
  "httpclient \<Rightarrow> u32 \<Rightarrow> u8 list \<Rightarrow> int \<Rightarrow> int \<Rightarrow> httpclient_data \<Rightarrow> net \<Rightarrow>
     (int option \<times> u8 list \<times> int \<times> httpclient_data \<times> net) option" where
  "body_loop client end_time dat count readLen d net =
     (let t = expired end_time net; net = snd t; templen = min (int (length dat)) readLen;
          n = hd_response_buf_len d - 1 - count
      in if fst t then Some (Some HTTPCLIENT_ERROR_CONN, dat, count, d, net)
      else if count + templen < hd_response_buf_len d - 1 then do {
        d \<leftarrow> put_body d count (take (nat templen) dat);
        rl \<leftarrow> c_int (hd_retrieve_len d - templen);
        let count = count + templen;
        let d = d\<lparr>hd_retrieve_len := rl\<rparr>;
        if readLen \<le> int (length dat)
        then Some (None, drop (nat readLen) dat, count, d\<lparr>hd_retrieve_len := 0\<rparr>, net)
        else do {
          r \<leftarrow> httpclient_recv client HTTPCLIENT_CHUNK_SIZE 1
            (min (min (HTTPCLIENT_CHUNK_SIZE - 1) (hd_response_buf_len d - 1 - count)) (readLen - int (length dat))) net;
          if recv_failed (fst r) (fst (snd r)) then Some (Some (fst r), fst (snd r), count, d, snd (snd r))
          else body_loop client end_time (fst (snd r)) count (readLen - int (length dat)) d (snd (snd r)) } }
      else do {
        piece \<leftarrow> mem_read dat 0 n;
        d \<leftarrow> put_body d count piece;
        rl \<leftarrow> c_int (hd_retrieve_len d - n);
        d \<leftarrow> keep_remain (drop (nat n) dat)
          (d\<lparr>hd_retrieve_len := rl, hd_content_block_len := hd_response_buf_len d - 1\<rparr>);
        Some (Some HTTPCLIENT_RETRIEVE_MORE_DATA, dat, count, d, net) })"

text \<open>The line end behind a chunk.\<close>

definition chunk_end ::
  "httpclient \<Rightarrow> int \<Rightarrow> int \<Rightarrow> u8 list \<Rightarrow> net \<Rightarrow> (int option \<times> u8 list \<times> net) option" where
  "chunk_end client buf_len count dat net = do {
     r \<leftarrow> (if length dat < 2
       then httpclient_recv client (HTTPCLIENT_CHUNK_SIZE - int (length dat)) (2 - int (length dat))
         (min (buf_len - 1 - count + 2) (HTTPCLIENT_CHUNK_SIZE - int (length dat) - 1)) net
       else Some (HTTPCLIENT_OK, [], net));
     let dat = dat @ fst (snd r);
     let net = snd (snd r);
     Some (if recv_failed (fst r) (fst (snd r)) then (Some (fst r), dat, net)
       else if take 2 dat \<noteq> crlf then (Some HTTPCLIENT_ERROR_PRTCL, dat, net)
       else (None, drop 2 dat, net)) }"

definition content_done :: "int \<Rightarrow> httpclient_data \<Rightarrow> httpclient_data" where
  "content_done count d = d\<lparr>hd_ext := map_option (\<lambda>e. e\<lparr>ex_remain_data_len := 0\<rparr>) (hd_ext d),
     hd_content_block_len := count\<rparr>"

text \<open>The length of the next piece: of the next chunk, or what is left of the content. An answer
  \<open>Inl\<close> ends the retrieval.\<close>

definition next_piece ::
  "httpclient \<Rightarrow> u8 list \<Rightarrow> httpclient_data \<Rightarrow> net \<Rightarrow>
     ((int + int) \<times> u8 list \<times> httpclient_data \<times> net) option" where
  "next_piece client dat d net =
     (if hd_is_chunked d \<and> hd_retrieve_len d \<le> 0 then do {
        (x, dat, net) \<leftarrow> chunk_header_loop client (hd_response_buf_len d) dat net;
        (case x of
           Inl ret \<Rightarrow> Some (Inl ret, dat, d, net)
         | Inr p \<Rightarrow> do {
             (e, readLen, d) \<leftarrow> chunk_start dat p d;
             Some (case e of Some ret \<Rightarrow> Inl ret | None \<Rightarrow> Inr readLen, drop (p + 2) dat, d, net) }) }
      else Some (Inr (size_t (hd_retrieve_len d)), dat, d, net))"

partial_function (option) retrieve_loop ::
  "httpclient \<Rightarrow> u8 list \<Rightarrow> int \<Rightarrow> httpclient_data \<Rightarrow> net \<Rightarrow> content_result" where
  "retrieve_loop client dat count d net = do {
     x \<leftarrow> next_piece client dat d net;
     (case x of
        (Inl ret, _, d, net) \<Rightarrow> Some (ret, d, net)
      | (Inr readLen, dat, d, net) \<Rightarrow>
          if hd_is_chunked d \<and> readLen = 0
          then Some (HTTPCLIENT_OK, content_done count (d\<lparr>hd_is_more := False\<rparr>), net)
          else do {
            let t = countdown_ms 5000 net;
            y \<leftarrow> body_loop client (fst t) dat count readLen d (snd t);
            (case y of
               (Some ret, _, _, d, net) \<Rightarrow> Some (ret, d, net)
             | (None, dat, count, d, net) \<Rightarrow>
                 if \<not> hd_is_chunked d
                 then Some (HTTPCLIENT_OK, content_done count (d\<lparr>hd_is_more := False\<rparr>), net)
                 else do {
                   z \<leftarrow> chunk_end client (hd_response_buf_len d) count dat net;
                   (case z of
                      (Some ret, _, net) \<Rightarrow> Some (ret, d, net)
                    | (None, dat, net) \<Rightarrow> retrieve_loop client dat count d net) }) }) }"

text \<open>The bytes kept by the last call.\<close>

definition take_remain :: "u8 list \<Rightarrow> httpclient_data \<Rightarrow> (u8 list \<times> httpclient_data) option" where
  "take_remain dat d = (case hd_ext d of
      None \<Rightarrow> Some (dat, d)
    | Some e \<Rightarrow>
      if dat = [] \<and> 0 < hd_retrieve_len d \<and> 0 < ex_remain_data_len e then do {
        dat \<leftarrow> mem_read (ex_remain_data_buf e) 0 (ex_remain_data_len e);
        Some (dat, d\<lparr>hd_ext := Some (e\<lparr>ex_remain_data_len := 0\<rparr>)\<rparr>) }
      else Some (dat, d))"

definition httpclient_retrieve_content ::
  "httpclient \<Rightarrow> u8 list \<Rightarrow> httpclient_data \<Rightarrow> net \<Rightarrow> content_result" where
  "httpclient_retrieve_content client dat d net = do {
     (dat, d) \<leftarrow> take_remain dat (d\<lparr>hd_is_more := True\<rparr>);
     if hd_response_content_len d = -1 \<and> \<not> hd_is_chunked d
     then raw_loop client dat 0 d net
     else retrieve_loop client dat 0 d net }"

section \<open>Response line and headers\<close>

text \<open>\<open>"HTTP/%*d.%*d %d %*[...]"\<close>: the response code.\<close>

definition scan_status :: "u8 list \<Rightarrow> int option option" where
  "scan_status s = (case do {
       s \<leftarrow> scan_lit (lit ''HTTP/'') s;
       (_, s) \<leftarrow> scan_number 10 s;
       s \<leftarrow> scan_lit (lit ''.'') s;
       (_, s) \<leftarrow> scan_number 10 s;
       Some s } of
     None \<Rightarrow> Some None
   | Some s \<Rightarrow> map_option (map_option fst) (scan_d s))"

text \<open>\<open>"bytes %d-%d/%d"\<close>: each number is stored when it is reached.\<close>

definition scan_part ::
  "u8 list \<Rightarrow> (int \<Rightarrow> http_data_ext \<Rightarrow> http_data_ext) \<Rightarrow> http_data_ext \<times> u8 list option \<Rightarrow>
     (http_data_ext \<times> u8 list option) option" where
  "scan_part l upd x = (case snd x of
      None \<Rightarrow> Some x
    | Some s \<Rightarrow> (case scan_lit l s of
        None \<Rightarrow> Some (fst x, None)
      | Some s \<Rightarrow> do {
          r \<leftarrow> scan_d s;
          Some (case r of None \<Rightarrow> (fst x, None) | Some (v, s) \<Rightarrow> (upd v (fst x), Some s)) }))"

definition scan_content_range :: "u8 list \<Rightarrow> http_data_ext \<Rightarrow> http_data_ext option" where
  "scan_content_range s e = do {
     x \<leftarrow> scan_part (lit ''bytes'') (\<lambda>v e. e\<lparr>ex_range_beg := v\<rparr>) (e, Some s);
     x \<leftarrow> scan_part (lit ''-'') (\<lambda>v e. e\<lparr>ex_range_end := v\<rparr>) x;
     x \<leftarrow> scan_part (lit ''/'') (\<lambda>v e. e\<lparr>ex_range_len := v\<rparr>) x;
     Some (fst x) }"

text \<open>A header into an array of \<open>room\<close> bytes, if it fits.\<close>

definition store_value :: "int \<Rightarrow> u8 list \<Rightarrow> int \<Rightarrow> u8 list \<Rightarrow> u8 list option" where
  "store_value room value value_len field =
     (if value_len < room then do {
        v \<leftarrow> mem_read value 0 value_len;
        mem_write field 0 (v @ [0]) }
      else Some field)"

definition with_ext ::
  "(http_data_ext \<Rightarrow> http_data_ext option) \<Rightarrow> httpclient_data \<Rightarrow> httpclient_data option" where
  "with_ext f d = (case hd_ext d of None \<Rightarrow> Some d | Some e \<Rightarrow> do { e \<leftarrow> f e; Some (d\<lparr>hd_ext := Some e\<rparr>) })"

definition note_content_length :: "u8 list \<Rightarrow> httpclient_data \<Rightarrow> httpclient_data option" where
  "note_content_length value d = do {
     x \<leftarrow> scan_d value;
     let n = (case x of None \<Rightarrow> hd_response_content_len d | Some (v, _) \<Rightarrow> v);
     Some (d\<lparr>hd_response_content_len := n, hd_retrieve_len := n\<rparr>) }"

definition note_transfer_encoding :: "u8 list \<Rightarrow> int \<Rightarrow> httpclient_data \<Rightarrow> httpclient_data" where
  "note_transfer_encoding value value_len d =
     (if strncasecmp_eq value (lit ''Chunked'') (nat (size_t value_len))
      then d\<lparr>hd_is_chunked := True, hd_response_content_len := 0, hd_retrieve_len := 0\<rparr> else d)"

text \<open>One header line: \<open>s\<close> is the rest of the response from the line on, \<open>c\<close> the position
  of the colon, \<open>p\<close> that of the line end.\<close>

definition header_field :: "u8 list \<Rightarrow> nat \<Rightarrow> nat \<Rightarrow> httpclient_data \<Rightarrow> httpclient_data option" where
  "header_field s c p d =
     (let is_key = (\<lambda>name. strncasecmp_eq s (lit name) c);
          value_len = int p - int c - 2;
          value = drop (c + 2) s
      in if is_key ''Content-Length'' then note_content_length value d
         else if is_key ''Transfer-Encoding'' then Some (note_transfer_encoding value value_len d)
         else if is_key ''Accept-Ranges'' \<or> is_key ''Content-Range'' then
           with_ext (\<lambda>e. let e = e\<lparr>ex_is_range := True\<rparr> in
             if is_key ''Content-Range'' then scan_content_range value e else Some e) d
         else if is_key ''ETag'' then
           with_ext (\<lambda>e. do { t \<leftarrow> store_value HTTPCLIENT_IF_RANGE_SIZE value value_len (ex_if_range e);
                              Some (e\<lparr>ex_if_range := t\<rparr>) }) d
         else if is_key ''Location'' then
           with_ext (\<lambda>e. do { t \<leftarrow> store_value HTTPCLIENT_LOCATION_SIZE value value_len (ex_location e);
                              Some (e\<lparr>ex_location := t\<rparr>) }) d
         else Some d)"

text \<open>The caller's header buffer, if any, takes the lines while they fit: \<open>pos\<close> is how far it is
  filled.\<close>

definition copy_header :: "u8 list \<Rightarrow> int \<Rightarrow> httpclient_data \<Rightarrow> (int \<times> httpclient_data) option" where
  "copy_header line pos d = (case hd_header_buf d of
      None \<Rightarrow> Some (pos, d)
    | Some b \<Rightarrow> if int (length line) \<le> hd_header_buf_len d - pos then do {
          b \<leftarrow> mem_write b pos line;
          Some (pos + int (length line), d\<lparr>hd_header_buf := Some b\<rparr>) }
        else Some (pos, d))"

partial_function (option) header_loop ::
  "httpclient \<Rightarrow> u8 list \<Rightarrow> int \<Rightarrow> httpclient_data \<Rightarrow> net \<Rightarrow> content_result" where
  "header_loop client dat pos d net =
     (case c_strstr (c_string dat) crlf of
        None \<Rightarrow>
          if int (length dat) < HTTPCLIENT_CHUNK_SIZE - 1 then do {
            r \<leftarrow> httpclient_recv client (HTTPCLIENT_CHUNK_SIZE - int (length dat)) 1
              (HTTPCLIENT_CHUNK_SIZE - int (length dat) - 1) net;
            if recv_failed (fst r) (fst (snd r)) then Some (fst r, d, snd (snd r))
            else header_loop client (dat @ fst (snd r)) pos d (snd (snd r)) }
          else Some (HTTPCLIENT_ERROR, d, net)
      | Some p \<Rightarrow>
          if p = 0 then httpclient_retrieve_content client (drop 2 dat) d net
          else (case c_strstr (c_string dat) (lit '': '') of
              None \<Rightarrow> Some (HTTPCLIENT_ERROR, d, net)
            | Some c \<Rightarrow> do {
                h \<leftarrow> copy_header (take (p + 2) dat) pos d;
                d \<leftarrow> header_field (c_string dat) c p (snd h);
                header_loop client (drop (p + 2) dat) (fst h) d net }))"

definition response_reset :: "httpclient_data \<Rightarrow> httpclient_data option" where
  "response_reset d = do {
     h \<leftarrow> (case hd_header_buf d of
        None \<Rightarrow> Some None
      | Some b \<Rightarrow> map_option Some (mem_write b 0 (replicate (nat (hd_header_buf_len d)) 0)));
     Some (d\<lparr>hd_header_buf := h, hd_response_content_len := -1,
       hd_ext := map_option (\<lambda>e. e\<lparr>ex_range_beg := 0, ex_range_end := 0, ex_range_len := 0,
                                   ex_is_range := False\<rparr>) (hd_ext d)\<rparr>) }"

type_synonym response_result = "(int \<times> httpclient \<times> httpclient_data \<times> net) option"

definition httpclient_response_parse ::
  "httpclient \<Rightarrow> u8 list \<Rightarrow> httpclient_data \<Rightarrow> net \<Rightarrow> response_result" where
  "httpclient_response_parse client dat d net = do {
     d \<leftarrow> response_reset d;
     (case c_strstr (c_string dat) crlf of
        None \<Rightarrow> Some (HTTPCLIENT_ERROR_PRTCL, client, d, net)
      | Some p \<Rightarrow> do {
          code \<leftarrow> scan_status (take p (c_string dat));
          (case code of
             None \<Rightarrow> Some (HTTPCLIENT_ERROR_PRTCL, client, d, net)
           | Some v \<Rightarrow> do {
               let client = client\<lparr>hc_response_code := v\<rparr>;
               (ret, d, net) \<leftarrow> header_loop client (drop (p + 2) dat) 0 (d\<lparr>hd_is_chunked := False\<rparr>) net;
               Some (ret, client, d, net) }) }) }"

definition httpclient_recv_response :: "httpclient \<Rightarrow> httpclient_data \<Rightarrow> net \<Rightarrow> response_result" where
  "httpclient_recv_response client d net =
     (if hc_socket client < 0 then Some (HTTPCLIENT_ERROR_CONN, client, d, net)
      else if hd_is_more d then do {
        d \<leftarrow> put_body d 0 [];
        (ret, d, net) \<leftarrow> httpclient_retrieve_content client [] d net;
        Some (ret, client, d, net) }
      else do {
        (ret, dat, net) \<leftarrow> httpclient_recv client HTTPCLIENT_CHUNK_SIZE 1 (HTTPCLIENT_CHUNK_SIZE - 1) net;
        if (ret \<noteq> HTTPCLIENT_OK \<and> ret \<noteq> HTTPCLIENT_CLOSED) \<or> dat = [] then Some (ret, client, d, net)
        else httpclient_response_parse client dat d net })"

section \<open>Whole requests\<close>

definition httpclient_get_response_code :: "httpclient \<Rightarrow> int" where
  "httpclient_get_response_code client = hc_response_code client"

type_synonym exchange_result = "(nat \<times> int \<times> httpclient \<times> httpclient_data \<times> net) option"

definition httpclient_common ::
  "allocator \<Rightarrow> nat \<Rightarrow> httpclient \<Rightarrow> u8 list \<Rightarrow> HTTPCLIENT_REQUEST_TYPE \<Rightarrow> httpclient_data \<Rightarrow> net \<Rightarrow> exchange_result" where
  "httpclient_common mal k client url method d net = do {
     (k, ret, client, net) \<leftarrow> httpclient_connect mal k client url net;
     (k, ret, net) \<leftarrow> (if ret = 0 then httpclient_send_request mal k client url method d net else Some (k, ret, net));
     (ret, client, d, net) \<leftarrow> (if ret = 0 then httpclient_recv_response client d net else Some (ret, client, d, net));
     let c = httpclient_close client net;
     Some (k, ret, fst c, d, snd c) }"

definition httpclient_get ::
  "allocator \<Rightarrow> nat \<Rightarrow> httpclient \<Rightarrow> u8 list \<Rightarrow> httpclient_data \<Rightarrow> net \<Rightarrow> exchange_result" where
  "httpclient_get mal k client url d net = httpclient_common mal k client url HTTPCLIENT_GET d net"

definition httpclient_post ::
  "allocator \<Rightarrow> nat \<Rightarrow> httpclient \<Rightarrow> u8 list \<Rightarrow> httpclient_data \<Rightarrow> net \<Rightarrow> exchange_result" where
  "httpclient_post mal k client url d net = httpclient_common mal k client url HTTPCLIENT_POST d net"

definition httpclient_put ::
  "allocator \<Rightarrow> nat \<Rightarrow> httpclient \<Rightarrow> u8 list \<Rightarrow> httpclient_data \<Rightarrow> net \<Rightarrow> exchange_result" where
  "httpclient_put mal k client url d net = httpclient_common mal k client url HTTPCLIENT_PUT d net"

definition httpclient_delete ::
  "allocator \<Rightarrow> nat \<Rightarrow> httpclient \<Rightarrow> u8 list \<Rightarrow> httpclient_data \<Rightarrow> net \<Rightarrow> exchange_result" where
  "httpclient_delete mal k client url d net = httpclient_common mal k client url HTTPCLIENT_DELETE d net"

definition httpclient_data_zero :: httpclient_data where
  "httpclient_data_zero = \<lparr>hd_is_more = False, hd_is_chunked = False, hd_retrieve_len = 0,
     hd_response_content_len = 0, hd_content_block_len = 0, hd_post_buf_len = 0, hd_response_buf_len = 0,
     hd_header_buf_len = 0, hd_post_content_type = None, hd_post_buf = None, hd_response_buf = [],
     hd_header_buf = None, hd_ext = None\<rparr>"

text \<open>The buffer with the response, \<open>None\<close> for NULL.\<close>

definition http_get :: "allocator \<Rightarrow> nat \<Rightarrow> u8 list \<Rightarrow> net \<Rightarrow> (nat \<times> u8 list option \<times> net) option" where
  "http_get mal k url net = (case (mal k 2048, mal (k + 1) 2048) of
      (Some buf, Some header) \<Rightarrow> do {
        buf \<leftarrow> mem_write buf 0 [0];
        (k, ret, _, d, net) \<leftarrow> httpclient_get mal (k + 2) httpclient_zero url
          (httpclient_data_zero\<lparr>hd_header_buf := Some header, hd_header_buf_len := 2048,
             hd_response_buf := buf, hd_response_buf_len := 2048\<rparr>) net;
        Some (k, if ret < 0 then None else Some (hd_response_buf d), net) }
    | _ \<Rightarrow> Some (k + 2, None, net))"

text \<open>The value of a header in a buffer of header lines: offset and length, or \<open>-1\<close>.\<close>

function response_header_value :: "u8 list \<Rightarrow> u8 list \<Rightarrow> nat \<Rightarrow> (int \<times> int \<times> int) option" where
  "response_header_value s name off =
     (case c_strstr s (lit '': '') of
        None \<Rightarrow> Some (-1, 0, 0)
      | Some c \<Rightarrow> (case c_strstr s crlf of
          None \<Rightarrow> None
        | Some p \<Rightarrow>
          if strncasecmp_eq s name c then Some (0, int (off + c + 2), int p - int c - 2)
          else response_header_value (drop (p + 2) s) name (off + p + 2)))"
  by pat_completeness auto
termination
proof (relation "measure (\<lambda>(s, _, _). length s)")
  fix s name :: "u8 list" and off c p
  assume "c_strstr s crlf = Some p"
  then show "((drop (p + 2) s, name, off + p + 2), s, name, off) \<in> measure (\<lambda>(s, _, _). length s)"
    using c_strstr_SomeD [of s crlf p] by (auto simp: crlf_def)
qed simp

declare response_header_value.simps [simp del]

definition httpclient_get_response_header_value ::
  "u8 list option \<Rightarrow> u8 list option \<Rightarrow> (int \<times> int \<times> int) option" where
  "httpclient_get_response_header_value header_buf name = (case (header_buf, name) of
      (Some h, Some n) \<Rightarrow> response_header_value (c_string h) n 0
    | _ \<Rightarrow> Some (-1, 0, 0))"

section \<open>What the network still holds\<close>

fun rx_bytes :: "rx \<Rightarrow> u8 list" where
  "rx_bytes (Rx_Data b bs) = b # bs"
| "rx_bytes r = []"

definition net_bytes :: "net \<Rightarrow> u8 list" where
  "net_bytes net = concat (map rx_bytes (nt_rx net))"

text \<open>Everything but what can be received.\<close>

definition same_net :: "net \<Rightarrow> net \<Rightarrow> bool" where
  "same_net net net' \<longleftrightarrow> nt_rx_update (\<lambda>_. []) net' = nt_rx_update (\<lambda>_. []) net"

lemma same_net_refl [simp]: "same_net net net"
  by (simp add: same_net_def)

lemma same_net_trans [trans]: "same_net a b \<Longrightarrow> same_net b c \<Longrightarrow> same_net a c"
  by (simp add: same_net_def)

lemma sock_recv_bytes:
  assumes "sock_recv n net = (ret, again, d, net')" "0 < n"
  shows "net_bytes net = d @ net_bytes net' \<and> same_net net net' \<and> length d \<le> n \<and>
    (0 < ret \<longleftrightarrow> d \<noteq> []) \<and> (ret = 0 \<longrightarrow> nt_rx net' = [] \<and> net' = net) \<and> (0 \<le> ret \<longrightarrow> ret = int (length d)) \<and>
    (d = [] \<longrightarrow> ret = 0 \<or> length (nt_rx net') < length (nt_rx net))"
proof (cases "nt_rx net")
  case (Cons x r)
  show ?thesis
  proof (cases x)
    case (Rx_Data b bs)
    let ?s = "b # bs"
    have d: "d = take n ?s" "net' = net\<lparr>nt_rx := (case drop n ?s of [] \<Rightarrow> r | c # cs \<Rightarrow> Rx_Data c cs # r)\<rparr>"
      "ret = int (min n (Suc (length bs)))"
      using assms(1) Cons Rx_Data by (auto simp: sock_recv_def)
    have "net_bytes net = take n ?s @ drop n ?s @ concat (map rx_bytes r)"
      using Cons Rx_Data by (simp only: net_bytes_def append.assoc [symmetric] append_take_drop_id) simp
    also have "drop n ?s @ concat (map rx_bytes r) = net_bytes net'"
      by (cases "drop n ?s") (simp_all add: d net_bytes_def)
    finally show ?thesis using assms(2) by (auto simp: d same_net_def)
  qed (use assms Cons in \<open>auto simp: sock_recv_def net_bytes_def same_net_def\<close>)
qed (use assms in \<open>auto simp: sock_recv_def net_bytes_def\<close>)

text \<open>What a caller of \<open>recv\<close> gets.\<close>

definition received :: "int \<Rightarrow> int \<Rightarrow> net \<Rightarrow> int \<times> u8 list \<times> net \<Rightarrow> bool" where
  "received min_len max_len net r \<longleftrightarrow> (case r of (ret, out, net') \<Rightarrow>
     net_bytes net = out @ net_bytes net' \<and> same_net net net' \<and> int (length out) \<le> max_len \<and>
     (ret = HTTPCLIENT_OK \<and> min_len \<le> int (length out) \<or>
      ret = HTTPCLIENT_CLOSED \<and> nt_rx net' = [] \<or> ret = HTTPCLIENT_ERROR_CONN))"

lemma recv_loop_total:
  assumes "0 \<le> mn" "mn \<le> mx" "mx < room" "int (length acc) \<le> mx"
  shows "\<exists>ret out net'. recv_loop room mn mx acc net = Some (ret, acc @ out, net') \<and>
    net_bytes net = out @ net_bytes net' \<and> same_net net net' \<and> int (length (acc @ out)) \<le> mx \<and>
    (ret = HTTPCLIENT_OK \<and> mn \<le> int (length (acc @ out)) \<or>
     ret = HTTPCLIENT_CLOSED \<and> nt_rx net' = [] \<or> ret = HTTPCLIENT_ERROR_CONN)"
  using assms(4)
proof (induction "nat (mx - int (length acc))" arbitrary: acc net rule: less_induct)
  case less
  have sz: "size_t mn = mn" "size_t mx = mx" using assms by (simp_all add: size_t_def)
  show ?case
  proof (cases "int (length acc) < mx")
    case False
    then show ?thesis using less.prems assms
      by (subst recv_loop.simps) (auto simp: sz intro: exI [of _ "[]"])
  next
    case True
    let ?n = "(if int (length acc) < mn then mn else mx) - int (length acc)"
    obtain ret again d n1 where s: "sock_recv (nat ?n) net = (ret, again, d, n1)"
      by (cases "sock_recv (nat ?n) net") auto
    have n: "0 < ?n" "int (length acc) + ?n \<le> mx" using True assms by auto
    from sock_recv_bytes [OF s] n(1) have b: "net_bytes net = d @ net_bytes n1" "same_net net n1"
      "length d \<le> nat ?n" "0 < ret \<longleftrightarrow> d \<noteq> []" "ret = 0 \<longrightarrow> nt_rx n1 = []" by auto
    have once: "recv_once room mn mx acc net = Some
       (if 0 < ret then (Recv_Go, acc @ d, n1)
        else if ret = 0 then (Recv_End (if int (length acc) < mn then HTTPCLIENT_CLOSED else HTTPCLIENT_OK), acc, n1)
        else if \<not> int (length acc) < mn \<and> again then (Recv_End HTTPCLIENT_OK, acc, n1)
        else (Recv_End HTTPCLIENT_ERROR_CONN, acc, n1))"
      using True assms n(2) s by (auto simp: recv_once_def sz Let_def)
    show ?thesis
    proof (cases "0 < ret")
      case True
      with b(4) have "d \<noteq> []" by simp
      with b(3) n have "nat (mx - int (length (acc @ d))) < nat (mx - int (length acc))" "int (length (acc @ d)) \<le> mx"
        by (auto simp del: length_greater_0_conv simp add: length_greater_0_conv [symmetric])
      from less.hyps [OF this] obtain ret' out n2 where r: "recv_loop room mn mx (acc @ d) n1 = Some (ret', (acc @ d) @ out, n2)"
        "net_bytes n1 = out @ net_bytes n2" "same_net n1 n2" "int (length ((acc @ d) @ out)) \<le> mx"
        "ret' = HTTPCLIENT_OK \<and> mn \<le> int (length ((acc @ d) @ out)) \<or>
          ret' = HTTPCLIENT_CLOSED \<and> nt_rx n2 = [] \<or> ret' = HTTPCLIENT_ERROR_CONN" by blast
      have "recv_loop room mn mx acc net = Some (ret', acc @ (d @ out), n2)"
        using \<open>int (length acc) < mx\<close> True r(1) by (subst recv_loop.simps) (simp add: sz once)
      with b r show ?thesis
        by (intro exI [of _ ret'] exI [of _ "d @ out"] exI [of _ n2]) (auto intro: same_net_trans)
    next
      case False
      with b(4) have "d = []" by simp
      moreover have "\<exists>ret'. recv_loop room mn mx acc net = Some (ret', acc @ [], n1) \<and>
        (ret' = HTTPCLIENT_OK \<and> mn \<le> int (length (acc @ ([] :: u8 list))) \<or>
          ret' = HTTPCLIENT_CLOSED \<and> nt_rx n1 = [] \<or> ret' = HTTPCLIENT_ERROR_CONN)"
        using \<open>int (length acc) < mx\<close> False b(5) by (subst recv_loop.simps) (auto simp: sz once)
      ultimately show ?thesis using b(1,2) less.prems by auto
    qed
  qed
qed

lemma recv_total:
  assumes "hc_is_http client" "0 \<le> mn" "mn \<le> mx" "mx < room"
  shows "\<exists>r. httpclient_recv client room mn mx net = Some r \<and> received mn mx net r"
  using recv_loop_total [OF assms(2-4), of "[]" net] assms
  by (auto simp: httpclient_recv_def received_def)


section \<open>The content is delivered\<close>

definition remain :: "httpclient_data \<Rightarrow> u8 list" where
  "remain d = (case hd_ext d of None \<Rightarrow> []
     | Some e \<Rightarrow> take (nat (ex_remain_data_len e)) (ex_remain_data_buf e))"

text \<open>The caller's buffer and the kept bytes.\<close>

definition data_ok :: "httpclient_data \<Rightarrow> bool" where
  "data_ok d \<longleftrightarrow> 1 < hd_response_buf_len d \<and> hd_response_buf_len d \<le> INT_MAX \<and>
     hd_response_buf_len d \<le> int (length (hd_response_buf d)) \<and>
     (\<exists>e. hd_ext d = Some e \<and> length (ex_remain_data_buf e) = 2048 \<and>
        0 \<le> ex_remain_data_len e \<and> ex_remain_data_len e < 2048)"

definition same_request :: "httpclient_data \<Rightarrow> httpclient_data \<Rightarrow> bool" where
  "same_request d d' \<longleftrightarrow> hd_is_chunked d' = hd_is_chunked d \<and> hd_is_more d' = hd_is_more d \<and>
     hd_response_content_len d' = hd_response_content_len d \<and>
     hd_response_buf_len d' = hd_response_buf_len d \<and>
     length (hd_response_buf d') = length (hd_response_buf d)"

lemma put_body_ok:
  assumes "0 \<le> off" "off + int (length bytes) < int (length (hd_response_buf d))"
  shows "\<exists>b. put_body d off bytes = Some (d\<lparr>hd_response_buf := b\<rparr>) \<and>
    length b = length (hd_response_buf d) \<and>
    take (nat off + length bytes) b = take (nat off) (hd_response_buf d) @ bytes"
  using assms by (auto simp: put_body_def mem_write_ok)

lemma keep_remain_ok:
  assumes "data_ok d" "length rest < 2048" "rest = [] \<Longrightarrow> remain d = []"
  shows "\<exists>x. keep_remain rest d = Some (d\<lparr>hd_ext := x\<rparr>) \<and> remain (d\<lparr>hd_ext := x\<rparr>) = rest \<and>
    data_ok (d\<lparr>hd_ext := x\<rparr>)"
proof (cases "rest = []")
  case True
  with assms obtain e where e: "hd_ext d = Some e" by (auto simp: data_ok_def)
  then have "d\<lparr>hd_ext := Some e\<rparr> = d" by simp
  moreover have "keep_remain rest d = Some d" using e True by (simp add: keep_remain_def)
  ultimately show ?thesis using assms True by (metis (no_types))
next
  case False
  with assms show ?thesis
    by (auto simp: keep_remain_def data_ok_def remain_def mem_write_ok http_sizes)
qed

definition body_post ::
  "int \<Rightarrow> int \<Rightarrow> httpclient_data \<Rightarrow> u8 list \<Rightarrow> int option \<times> u8 list \<times> int \<times> httpclient_data \<times> net \<Rightarrow> bool" where
  "body_post count readLen d P r \<longleftrightarrow> (case r of (ret, dat', count', d', net') \<Rightarrow>
     same_request d d' \<and> data_ok d' \<and>
     (case ret of
        None \<Rightarrow> readLen \<le> int (length P) \<and> count' = count + readLen \<and> count' < hd_response_buf_len d - 1 \<and>
          take (nat count') (hd_response_buf d') = take (nat count) (hd_response_buf d) @ take (nat readLen) P \<and>
          dat' @ net_bytes net' = drop (nat readLen) P \<and> length dat' < 2048 \<and>
          hd_retrieve_len d' = 0 \<and> hd_ext d' = hd_ext d
      | Some c \<Rightarrow> (let n = hd_response_buf_len d - 1 - count in
          if c = HTTPCLIENT_RETRIEVE_MORE_DATA
          then n \<le> readLen \<and> n \<le> int (length P) \<and>
            take (nat (hd_response_buf_len d - 1)) (hd_response_buf d') =
              take (nat count) (hd_response_buf d) @ take (nat n) P \<and>
            remain d' @ net_bytes net' = drop (nat n) P \<and>
            hd_retrieve_len d' = readLen - n \<and> hd_content_block_len d' = hd_response_buf_len d - 1
          else c = HTTPCLIENT_CLOSED \<or> c = HTTPCLIENT_ERROR_CONN)))"

lemma net_bytes_expired [simp]: "net_bytes (snd (expired t net)) = net_bytes net"
  by (simp add: expired_def http_current_time_ms_def net_bytes_def Let_def)

lemma net_bytes_countdown [simp]: "net_bytes (snd (countdown_ms t net)) = net_bytes net"
  by (simp add: countdown_ms_def http_current_time_ms_def net_bytes_def Let_def)

lemma take_length_append: "length xs \<le> n \<Longrightarrow> take n (xs @ ys) = xs @ take (n - length xs) ys"
  by simp

text \<open>A round that used up \<open>dat\<close> before the rest.\<close>

lemma body_post_shift:
  assumes "body_post (count + int (length dat)) (readLen - int (length dat)) (d\<lparr>hd_response_buf := b, hd_retrieve_len := rl\<rparr>) P r"
    "nat (count + int (length dat)) = nat count + length dat"
    "take (nat count + length dat) b = take (nat count) (hd_response_buf d) @ dat"
    "length b = length (hd_response_buf d)" "\<not> readLen \<le> int (length dat)"
    "count + int (length dat) < hd_response_buf_len d - 1"
  shows "body_post count readLen d (dat @ P) r"
proof -
  obtain ret dat' count' d' net' where r: "r = (ret, dat', count', d', net')" by (cases r) auto
  have sr: "same_request (d\<lparr>hd_response_buf := b, hd_retrieve_len := rl\<rparr>) d' \<Longrightarrow> same_request d d'"
    using assms(4) by (simp add: same_request_def)
  show ?thesis
  proof (cases ret)
    case None
    have "nat readLen = length dat + nat (readLen - int (length dat))" using assms(5) by simp
    with None assms r sr show ?thesis by (auto simp: body_post_def)
  next
    case (Some c)
    show ?thesis
    proof (cases "c = HTTPCLIENT_RETRIEVE_MORE_DATA")
      case True
      let ?n = "hd_response_buf_len d - 1 - count"
      have e: "nat ?n = length dat + nat (?n - int (length dat))"
        "hd_response_buf_len d - 1 - (count + int (length dat)) = ?n - int (length dat)" using assms(6) by simp_all
      from assms(1-5) Some True r sr show ?thesis by (simp add: body_post_def e Let_def)
    qed (use assms Some r sr in \<open>auto simp: body_post_def\<close>)
  qed
qed

text \<open>The piece does not fit what is left of the buffer.\<close>

lemma body_loop_full:
  assumes "data_ok d" "0 \<le> count" "count < hd_response_buf_len d - 1" "readLen \<le> INT_MAX"
    "hd_retrieve_len d = readLen" "length dat < 2048" "readLen = 0 \<or> remain d = []"
    "\<not> count + min (int (length dat)) readLen < hd_response_buf_len d - 1" "expired end_time net = (False, n1)"
  shows "\<exists>r. body_loop client end_time dat count readLen d net = Some r \<and>
    body_post count readLen d (dat @ net_bytes net) r"
proof -
  let ?len = "int (length dat)" and ?B = "hd_response_buf_len d"
  let ?n = "?B - 1 - count"
  have n1: "net_bytes n1 = net_bytes net" using net_bytes_expired [of end_time net] assms(9) by simp
  have bl: "?B \<le> int (length (hd_response_buf d))" "?B \<le> INT_MAX" using assms(1) by (simp_all add: data_ok_def)
  have n: "0 < ?n" "?n \<le> ?len" "?n \<le> readLen" using assms by auto
  from n have rd: "mem_read dat 0 ?n = Some (take (nat ?n) dat)" by (simp add: mem_read_ok)
  have l: "length (take (nat ?n) dat) = nat ?n" using n by simp
  from put_body_ok [of count "take (nat ?n) dat" d, unfolded l] n assms(2) bl obtain b where b:
    "put_body d count (take (nat ?n) dat) = Some (d\<lparr>hd_response_buf := b\<rparr>)"
    "length b = length (hd_response_buf d)"
    "take (nat count + nat ?n) b = take (nat count) (hd_response_buf d) @ take (nat ?n) dat" by auto
  have ci: "c_int (hd_retrieve_len d - ?n) = Some (readLen - ?n)"
    using n assms by (simp add: c_int_in_range INT_MAX_def)
  let ?d = "d\<lparr>hd_response_buf := b, hd_retrieve_len := readLen - ?n, hd_content_block_len := ?B - 1\<rparr>"
  have ok: "data_ok ?d" "remain ?d = remain d" using assms(1) b(2) by (simp_all add: data_ok_def remain_def)
  have p: "length (drop (nat ?n) dat) < 2048" "remain ?d = []" using assms(6,7) n ok(2) by auto
  obtain x where x:
    "keep_remain (drop (nat ?n) dat) ?d = Some (?d\<lparr>hd_ext := x\<rparr>)" "remain (?d\<lparr>hd_ext := x\<rparr>) = drop (nat ?n) dat"
    "data_ok (?d\<lparr>hd_ext := x\<rparr>)" using keep_remain_ok [OF ok(1) p(1) p(2)] by blast
  have "body_loop client end_time dat count readLen d net =
    Some (Some HTTPCLIENT_RETRIEVE_MORE_DATA, dat, count, ?d\<lparr>hd_ext := x\<rparr>, n1)"
    using assms(8) rd b(1) ci x(1) assms(5) by (subst body_loop.simps) (simp add: assms(9) Let_def)
  moreover have "nat (?B - 1) = nat count + nat ?n" using n assms(2) by simp
  ultimately show ?thesis using n b(2,3) x(2,3) n1 ok
    by (auto simp: body_post_def same_request_def Let_def)
qed

lemma body_loop_total:
  assumes "hc_is_http client" "data_ok d" "0 \<le> count" "count < hd_response_buf_len d - 1" "0 \<le> readLen" "readLen \<le> INT_MAX"
    "hd_retrieve_len d = readLen" "length dat < 2048" "readLen = 0 \<or> remain d = []"
  shows "\<exists>r. body_loop client end_time dat count readLen d net = Some r \<and>
    body_post count readLen d (dat @ net_bytes net) r"
  using assms(2-9)
proof (induction "2 * nat readLen + (if dat = [] then 1 else 0)" arbitrary: readLen dat count d net rule: less_induct)
  case less
  let ?len = "int (length dat)" and ?B = "hd_response_buf_len d"
  let ?n = "?B - 1 - count" and ?t = "min ?len readLen" and ?P = "dat @ net_bytes net"
  obtain dead n1 where t: "expired end_time net = (dead, n1)" by (cases "expired end_time net")
  then have n1: "net_bytes n1 = net_bytes net" using net_bytes_expired [of end_time net] by simp
  have bl: "?B \<le> int (length (hd_response_buf d))" "?B \<le> INT_MAX" using less.prems by (simp_all add: data_ok_def)
  show ?case
  proof (cases dead)
    case True
    then show ?thesis using less.prems t
      by (subst body_loop.simps) (auto simp: body_post_def same_request_def http_codes Let_def)
  next
    case alive: False
    show ?thesis
    proof (cases "count + ?t < ?B - 1")
      case False
      from alive t have "expired end_time net = (False, n1)" by simp
      from body_loop_full [OF less.prems(1-3,5-8) False this] show ?thesis .
    next
      case room: True
      have l: "length (take (nat ?t) dat) = nat ?t" by auto
      from put_body_ok [of count "take (nat ?t) dat" d, unfolded l] room less.prems(2,4) bl obtain b where b:
        "put_body d count (take (nat ?t) dat) = Some (d\<lparr>hd_response_buf := b\<rparr>)"
        "length b = length (hd_response_buf d)"
        "take (nat count + nat ?t) b = take (nat count) (hd_response_buf d) @ take (nat ?t) dat" by auto
      have ci: "c_int (hd_retrieve_len d - ?t) = Some (readLen - ?t)"
        using less.prems(4-6) by (simp add: c_int_in_range INT_MAX_def min_def)
      let ?d = "d\<lparr>hd_response_buf := b, hd_retrieve_len := readLen - ?t\<rparr>"
      have ok: "data_ok ?d" "remain ?d = remain d" using less.prems(1) b(2) by (simp_all add: data_ok_def remain_def)
      show ?thesis
      proof (cases "readLen \<le> ?len")
        case fits: True
        then have t': "?t = readLen" by simp
        have "body_loop client end_time dat count readLen d net =
          Some (None, drop (nat readLen) dat, count + readLen, ?d\<lparr>hd_retrieve_len := 0\<rparr>, n1)"
          using alive room b(1) ci fits less.prems(6) by (subst body_loop.simps) (simp add: t Let_def)
        moreover have "data_ok (?d\<lparr>hd_retrieve_len := 0\<rparr>)" using ok(1) by (simp add: data_ok_def)
        moreover have "nat (count + readLen) = nat count + nat readLen" using less.prems(2,4) by (simp add: nat_add_distrib)
        ultimately show ?thesis using fits b(2,3) n1 less.prems(7) room
          by (auto simp: body_post_def same_request_def Let_def)
      next
        case more: False
        then have t': "?t = ?len" by simp
        let ?mx = "min (min (HTTPCLIENT_CHUNK_SIZE - 1) (?B - 1 - (count + ?len))) (readLen - ?len)"
        have mx: "1 \<le> ?mx" "?mx < HTTPCLIENT_CHUNK_SIZE" using room more by (auto simp: http_sizes)
        obtain ret out n2 where r: "httpclient_recv client HTTPCLIENT_CHUNK_SIZE 1 ?mx n1 = Some (ret, out, n2)"
          "received 1 ?mx n1 (ret, out, n2)"
          using recv_total [OF assms(1) _ mx(1), of HTTPCLIENT_CHUNK_SIZE n1] mx(2) by auto
        then have nb: "net_bytes n1 = out @ net_bytes n2" "int (length out) \<le> ?mx"
          and ret: "ret = HTTPCLIENT_OK \<and> out \<noteq> [] \<or> ret = HTTPCLIENT_CLOSED \<or> ret = HTTPCLIENT_ERROR_CONN"
          by (auto simp: received_def)
        have step: "body_loop client end_time dat count readLen d net =
          (if recv_failed ret out then Some (Some ret, out, count + ?len, ?d, n2)
           else body_loop client end_time out (count + ?len) (readLen - ?len) ?d n2)"
          using alive room b(1) ci more less.prems(6) r(1) t' by (subst body_loop.simps) (simp add: t Let_def)
        show ?thesis
        proof (cases "recv_failed ret out")
          case True
          with step ok b(2) ret show ?thesis
            by (auto simp: body_post_def same_request_def recv_failed_def http_codes Let_def)
        next
          case False
          with ret have out: "out \<noteq> []" by (auto simp: recv_failed_def)
          let ?P = "out @ net_bytes n2"
          have "2 * nat (readLen - ?len) + (if out = [] then 1 else 0) < 2 * nat readLen + (if dat = [] then 1 else (0 :: nat))"
            using out more by (cases dat) auto
          moreover have "0 \<le> count + ?len" "count + ?len < hd_response_buf_len ?d - 1" "0 \<le> readLen - ?len"
            "readLen - ?len \<le> INT_MAX" "hd_retrieve_len ?d = readLen - ?len" "length out < 2048"
            "readLen - ?len = 0 \<or> remain ?d = []"
            using less.prems room more nb(2) mx(2) ok(2) t' by (auto simp: http_sizes)
          ultimately obtain r where r': "body_loop client end_time out (count + ?len) (readLen - ?len) ?d n2 = Some r"
            "body_post (count + ?len) (readLen - ?len) ?d ?P r"
            using less.hyps [of "readLen - ?len" out ?d "count + ?len" n2] ok(1) by blast
          have P: "dat @ net_bytes net = dat @ ?P" using n1 nb(1) by simp
          have c: "nat (count + ?len) = nat count + length dat" "take (nat count + length dat) b = take (nat count) (hd_response_buf d) @ dat"
            using less.prems(2) b(3) t' by (simp_all add: nat_add_distrib)
          have "body_post count readLen d (dat @ net_bytes net) r"
            unfolding P using r'(2) c b(2) more room [unfolded t'] by (rule body_post_shift)
          with step False r'(1) show ?thesis by simp
        qed
      qed
    qed
  qed
qed

text \<open>The bytes the content is taken from: kept by the last call, or read with the headers, and then
  those of the network.\<close>

definition held :: "u8 list \<Rightarrow> httpclient_data \<Rightarrow> u8 list" where
  "held dat d = (if dat = [] \<and> 0 < hd_retrieve_len d then remain d else dat)"

lemma take_remain_ok:
  assumes "data_ok d" "length dat < 2048" "dat \<noteq> [] \<Longrightarrow> remain d = []"
  shows "\<exists>x. take_remain dat d = Some (held dat d, d\<lparr>hd_ext := x\<rparr>) \<and> data_ok (d\<lparr>hd_ext := x\<rparr>) \<and>
    (hd_retrieve_len d = 0 \<or> remain (d\<lparr>hd_ext := x\<rparr>) = [] \<or> hd_retrieve_len d < 0) \<and> length (held dat d) < 2048"
proof -
  from assms(1) obtain e where e: "hd_ext d = Some e" "length (ex_remain_data_buf e) = 2048"
    "0 \<le> ex_remain_data_len e" "ex_remain_data_len e < 2048" by (auto simp: data_ok_def)
  then have d: "d\<lparr>hd_ext := Some e\<rparr> = d" by simp
  show ?thesis
  proof (cases "dat = [] \<and> 0 < hd_retrieve_len d \<and> 0 < ex_remain_data_len e")
    case True
    with e assms(1) show ?thesis
      by (intro exI [of _ "Some (e\<lparr>ex_remain_data_len := 0\<rparr>)"])
        (simp add: take_remain_def held_def remain_def data_ok_def mem_read_ok)
  next
    case False
    then have "take_remain dat d = Some (dat, d)" using e by (auto simp: take_remain_def)
    moreover have "held dat d = dat" using False e by (auto simp: held_def remain_def)
    moreover have "hd_retrieve_len d = 0 \<or> remain d = [] \<or> hd_retrieve_len d < 0"
      using False e assms(3) by (auto simp: remain_def)
    ultimately show ?thesis using assms(1,2) d by (intro exI [of _ "Some e"]) simp
  qed
qed

text \<open>One call, for a content whose length is known.\<close>

definition content_post :: "httpclient_data \<Rightarrow> u8 list \<Rightarrow> int \<times> httpclient_data \<times> net \<Rightarrow> bool" where
  "content_post d P r \<longleftrightarrow> (case r of (ret, d', net') \<Rightarrow>
     let R = hd_retrieve_len d; B = hd_response_buf_len d - 1 in
     (if ret = HTTPCLIENT_OK
      then R < B \<and> R \<le> int (length P) \<and> hd_content_block_len d' = R \<and>
        take (nat R) (hd_response_buf d') = take (nat R) P \<and> \<not> hd_is_more d'
      else if ret = HTTPCLIENT_RETRIEVE_MORE_DATA
      then B \<le> R \<and> B \<le> int (length P) \<and> hd_content_block_len d' = B \<and>
        take (nat B) (hd_response_buf d') = take (nat B) P \<and>
        remain d' @ net_bytes net' = drop (nat B) P \<and> hd_retrieve_len d' = R - B \<and>
        data_ok d' \<and> hd_is_more d' \<and> \<not> hd_is_chunked d' \<and>
        hd_response_content_len d' = hd_response_content_len d \<and> hd_response_buf_len d' = hd_response_buf_len d
      else ret = HTTPCLIENT_CLOSED \<or> ret = HTTPCLIENT_ERROR_CONN))"

lemma retrieve_content_total:
  assumes "hc_is_http client" "data_ok d" "\<not> hd_is_chunked d" "hd_response_content_len d \<noteq> -1"
    "0 \<le> hd_retrieve_len d" "hd_retrieve_len d \<le> INT_MAX" "length dat < 2048" "dat \<noteq> [] \<Longrightarrow> remain d = []"
  shows "\<exists>r. httpclient_retrieve_content client dat d net = Some r \<and> content_post d (held dat d @ net_bytes net) r"
proof -
  let ?d = "d\<lparr>hd_is_more := True\<rparr>"
  have ok: "data_ok ?d" "remain ?d = remain d" "held dat ?d = held dat d"
    using assms(2) by (simp_all add: data_ok_def remain_def held_def)
  from take_remain_ok [OF ok(1) assms(7)] assms(5,8) ok(2,3) obtain x where x:
    "take_remain dat ?d = Some (held dat d, ?d\<lparr>hd_ext := x\<rparr>)" "data_ok (?d\<lparr>hd_ext := x\<rparr>)"
    "hd_retrieve_len d = 0 \<or> remain (?d\<lparr>hd_ext := x\<rparr>) = []" "length (held dat d) < 2048" by auto
  let ?e = "?d\<lparr>hd_ext := x\<rparr>"
  obtain et n1 where t: "countdown_ms 5000 net = (et, n1)" by (cases "countdown_ms 5000 net")
  then have n1: "net_bytes n1 = net_bytes net" using net_bytes_countdown [of 5000 net] by simp
  have "0 < hd_response_buf_len ?e - 1" using assms(2) by (simp add: data_ok_def)
  with body_loop_total [OF assms(1) x(2), of 0 "hd_retrieve_len d" "held dat d" et n1] assms(5,6) x(3,4)
  obtain ret dat' count' d' n2 where b: "body_loop client et (held dat d) 0 (hd_retrieve_len d) ?e n1 = Some (ret, dat', count', d', n2)"
    "body_post 0 (hd_retrieve_len d) ?e (held dat d @ net_bytes net) (ret, dat', count', d', n2)"
    by (auto simp: n1)
  then have ch: "\<not> hd_is_chunked d'" using assms(3) by (simp add: body_post_def same_request_def)
  have loop: "httpclient_retrieve_content client dat d net = (case ret of
      Some c \<Rightarrow> Some (c, d', n2)
    | None \<Rightarrow> Some (HTTPCLIENT_OK, content_done count' (d'\<lparr>hd_is_more := False\<rparr>), n2))"
    using assms(3,4,5) x(1) t b(1) ch
    by (simp add: httpclient_retrieve_content_def retrieve_loop.simps next_piece_def size_t_def split: option.split)
  show ?thesis
  proof (cases ret)
    case None
    with b(2) loop show ?thesis
      by (auto simp: content_post_def body_post_def content_done_def http_codes Let_def)
  next
    case (Some c)
    with b(2) loop ch show ?thesis
      by (auto simp: content_post_def body_post_def same_request_def http_codes Let_def)
  qed
qed

text \<open>The caller's loop: calls until there is nothing more to retrieve.\<close>

fun fetch :: "nat \<Rightarrow> httpclient \<Rightarrow> httpclient_data \<Rightarrow> net \<Rightarrow> (int \<times> u8 list) option" where
  "fetch 0 client d net = Some (HTTPCLIENT_RETRIEVE_MORE_DATA, [])"
| "fetch (Suc n) client d net = do {
     (ret, client, d, net) \<leftarrow> httpclient_recv_response client d net;
     let block = take (nat (hd_content_block_len d)) (hd_response_buf d);
     if ret = HTTPCLIENT_RETRIEVE_MORE_DATA
     then do { (ret, rest) \<leftarrow> fetch n client d net; Some (ret, block @ rest) }
     else Some (ret, if ret = HTTPCLIENT_OK then block else []) }"

lemma recv_response_more:
  assumes "hd_is_more d" "data_ok d" "0 \<le> hc_socket client" "hc_is_http client" "\<not> hd_is_chunked d"
    "hd_response_content_len d \<noteq> -1" "0 \<le> hd_retrieve_len d" "hd_retrieve_len d \<le> INT_MAX"
  shows "\<exists>ret d' net'. httpclient_recv_response client d net = Some (ret, client, d', net') \<and>
    content_post d (held [] d @ net_bytes net) (ret, d', net')"
proof -
  have "0 < length (hd_response_buf d)" using assms(2) by (auto simp: data_ok_def)
  then obtain b where b: "put_body d 0 [] = Some (d\<lparr>hd_response_buf := b\<rparr>)" "length b = length (hd_response_buf d)"
    using put_body_ok [of 0 "[]" d] by auto
  let ?d = "d\<lparr>hd_response_buf := b\<rparr>"
  have "data_ok ?d" "held [] ?d = held [] d" using assms(2) b(2) by (simp_all add: data_ok_def held_def remain_def)
  with retrieve_content_total [of client ?d "[]" net] assms obtain r where
    "httpclient_retrieve_content client [] ?d net = Some r" "content_post ?d (held [] d @ net_bytes net) r" by auto
  moreover have "content_post ?d = content_post d" by (intro ext) (simp add: content_post_def)
  moreover obtain ret d' net' where "r = (ret, d', net')" by (cases r) auto
  ultimately show ?thesis using b(1) assms(1,3) by (simp add: httpclient_recv_response_def)
qed

lemma fetch_delivers:
  assumes "hd_is_more d" "data_ok d" "0 \<le> hc_socket client" "hc_is_http client" "\<not> hd_is_chunked d"
    "hd_response_content_len d \<noteq> -1" "0 \<le> hd_retrieve_len d" "hd_retrieve_len d \<le> INT_MAX"
    "nat (hd_retrieve_len d) div nat (hd_response_buf_len d - 1) < n"
  shows "\<exists>ret bs. fetch n client d net = Some (ret, bs) \<and> ret \<noteq> HTTPCLIENT_RETRIEVE_MORE_DATA \<and>
    bs = take (length bs) (held [] d @ net_bytes net) \<and> length bs \<le> nat (hd_retrieve_len d) \<and>
    (ret = HTTPCLIENT_OK \<longrightarrow> length bs = nat (hd_retrieve_len d))"
  using assms
proof (induction n arbitrary: d net)
  case (Suc n)
  from recv_response_more [OF Suc.prems(1-8)] obtain ret d' net' where r:
    "httpclient_recv_response client d net = Some (ret, client, d', net')"
    "content_post d (held [] d @ net_bytes net) (ret, d', net')" by blast
  let ?P = "held [] d @ net_bytes net" and ?B = "nat (hd_response_buf_len d - 1)" and ?R = "nat (hd_retrieve_len d)"
  show ?case
  proof (cases "ret = HTTPCLIENT_RETRIEVE_MORE_DATA")
    case False
    with r Suc.prems(7) show ?thesis by (auto simp: content_post_def Let_def http_codes min_def split: if_splits)
  next
    case True
    with r(2) have p: "?B \<le> ?R" "?B \<le> length ?P" "take ?B (hd_response_buf d') = take ?B ?P"
      "nat (hd_content_block_len d') = ?B" "remain d' @ net_bytes net' = drop ?B ?P"
      "hd_retrieve_len d' = hd_retrieve_len d - (hd_response_buf_len d - 1)" "data_ok d'" "hd_is_more d'" "\<not> hd_is_chunked d'"
      "hd_response_content_len d' \<noteq> -1" "hd_response_buf_len d' = hd_response_buf_len d" "0 \<le> hd_retrieve_len d'"
      using Suc.prems(6) by (auto simp: content_post_def Let_def http_codes)
    have B: "0 < ?B" using Suc.prems(2) by (simp add: data_ok_def)
    have R: "nat (hd_retrieve_len d') = ?R - ?B" using p(6,12) B by arith
    have "?R div ?B = Suc ((?R - ?B) div ?B)" using p(1) B by (simp add: le_div_geq)
    with Suc.prems(9) have q: "nat (hd_retrieve_len d') div nat (hd_response_buf_len d' - 1) < n" by (simp add: R p(11))
    have le: "hd_retrieve_len d' \<le> INT_MAX" using Suc.prems(8) p(6) B by arith
    obtain r2 bs where f: "fetch n client d' net' = Some (r2, bs)" "r2 \<noteq> HTTPCLIENT_RETRIEVE_MORE_DATA"
      "bs = take (length bs) (held [] d' @ net_bytes net')" "r2 = HTTPCLIENT_OK \<longrightarrow> length bs = ?R - ?B"
      "length bs \<le> ?R - ?B"
      using Suc.IH [OF p(8,7) Suc.prems(3,4) p(9,10,12) le q, of net', unfolded R] by blast
    have "bs = take (length bs) (remain d' @ net_bytes net')"
    proof (cases "bs = []")
      case False
      then have h: "held [] d' = remain d'" using f(5) R by (auto simp: held_def)
      show ?thesis by (rule f(3) [unfolded h])
    qed simp
    then have "take (length bs) (drop ?B ?P) = bs" unfolding p(5) by (rule sym)
    then have tb: "take ?B ?P @ bs = take (?B + length bs) ?P" by (simp only: take_add)
    have "fetch (Suc n) client d net = Some (r2, take ?B ?P @ bs)"
      using r(1) True p(3,4) f(1) by simp
    moreover have l: "length (take ?B ?P @ bs) = ?B + length bs" using p(2) by simp
    moreover have "take ?B ?P @ bs = take (length (take ?B ?P @ bs)) ?P" unfolding l by (rule tb)
    ultimately show ?thesis using f(2,4,5) p(1) by (metis add_le_cancel_left le_add_diff_inverse)
  qed
qed simp

section \<open>Chunks\<close>

lemma recv_nothing:
  assumes "nt_rx net = []" "httpclient_recv client room 0 mx net = Some r"
  shows "r = (HTTPCLIENT_OK, [], net)"
  using assms
  by (auto simp: httpclient_recv_def recv_loop.simps recv_once_def sock_recv_def size_t_def Let_def split: if_splits)

text \<open>At the end of the connection the search for a chunk header goes on for ever: \<open>recv\<close> gives
  no bytes and no error.\<close>

lemma chunk_header_spins:
  assumes "nt_rx net = []" "find_crlf dat = None"
  shows "chunk_header_loop client buf_len dat net = None"
proof -
  have "nt_rx net = [] \<longrightarrow> find_crlf dat \<noteq> None" if "chunk_header_loop client buf_len dat net = Some r" for r
  proof (rule chunk_header_loop.raw_induct [OF _ that])
    fix f client buf_len dat net r
    assume IH: "\<And>client buf_len dat net y. f client buf_len dat net = Some y \<Longrightarrow> nt_rx net = [] \<longrightarrow> find_crlf dat \<noteq> None"
      and step: "(if HTTPCLIENT_CHUNK_SIZE \<le> int (length dat) then None
        else case find_crlf dat of
             None \<Rightarrow> httpclient_recv client (HTTPCLIENT_CHUNK_SIZE - int (length dat)) 0
                 (min buf_len HTTPCLIENT_CHUNK_SIZE - int (length dat) - 1) net \<bind>
               (\<lambda>r. if recv_failed (fst r) (fst (snd r)) then Some (Inl (fst r), dat @ fst (snd r), snd (snd r))
                    else f client buf_len (dat @ fst (snd r)) (snd (snd r)))
           | Some p \<Rightarrow> Some (Inr p, dat, net)) = Some r"
    show "nt_rx net = [] \<longrightarrow> find_crlf dat \<noteq> None"
    proof (intro impI notI)
      assume n: "nt_rx net = []" "find_crlf dat = None"
      with step obtain x where x:
        "httpclient_recv client (HTTPCLIENT_CHUNK_SIZE - int (length dat)) 0 (min buf_len HTTPCLIENT_CHUNK_SIZE - int (length dat) - 1) net = Some x"
        "(if recv_failed (fst x) (fst (snd x)) then Some (Inl (fst x), dat @ fst (snd x), snd (snd x))
          else f client buf_len (dat @ fst (snd x)) (snd (snd x))) = Some r"
        by (auto split: if_splits dest!: bind_eq_SomeD)
      from recv_nothing [OF n(1) x(1)] x(2) have "f client buf_len dat net = Some r"
        by (simp add: recv_failed_def http_codes)
      from IH [OF this] n show False by simp
    qed
  qed
  from this [of "the (chunk_header_loop client buf_len dat net)"] assms show ?thesis
    by (cases "chunk_header_loop client buf_len dat net") simp_all
qed

lemma retrieve_at_chunk_start:
  assumes "hd_is_chunked d" "hd_retrieve_len d \<le> 0" "nt_rx net = []" "find_crlf dat = None"
  shows "httpclient_retrieve_content client dat d net = None"
proof -
  have "take_remain dat (d\<lparr>hd_is_more := True\<rparr>) = Some (dat, d\<lparr>hd_is_more := True\<rparr>)"
    using assms(2) by (auto simp: take_remain_def split: option.split)
  then show ?thesis using assms
    by (simp add: httpclient_retrieve_content_def retrieve_loop.simps next_piece_def chunk_header_spins)
qed

lemma recv_at_chunk_start:
  assumes "0 \<le> hc_socket client" "hd_is_more d" "hd_is_chunked d" "hd_retrieve_len d \<le> 0" "nt_rx net = []"
  shows "httpclient_recv_response client d net = None"
proof (cases "put_body d 0 []")
  case (Some d')
  then have "hd_is_chunked d'" "hd_retrieve_len d' \<le> 0"
    using assms by (auto simp: put_body_def dest!: bind_eq_SomeD)
  from retrieve_at_chunk_start [OF this assms(5), of "[]" client] Some assms(1,2) show ?thesis
    by (simp add: httpclient_recv_response_def find_crlf_def crlf_def)
qed (use assms in \<open>simp add: httpclient_recv_response_def\<close>)

text \<open>A call that ends where its chunk ends.\<close>

lemma chunk_fills_buffer:
  assumes "hc_is_http client" "data_ok d" "hd_is_chunked d" "hd_retrieve_len d = hd_response_buf_len d - 1"
    "length dat < 2048" "dat \<noteq> [] \<Longrightarrow> remain d = []"
    "httpclient_retrieve_content client dat d net = Some (HTTPCLIENT_RETRIEVE_MORE_DATA, d', net')"
  shows "hd_retrieve_len d' = 0 \<and> hd_is_chunked d' \<and> hd_is_more d' \<and>
    take (nat (hd_response_buf_len d - 1)) (hd_response_buf d') =
      take (nat (hd_response_buf_len d - 1)) (held dat d @ net_bytes net) \<and>
    remain d' @ net_bytes net' = drop (nat (hd_response_buf_len d - 1)) (held dat d @ net_bytes net)"
proof -
  let ?d = "d\<lparr>hd_is_more := True\<rparr>"
  have ok: "data_ok ?d" "remain ?d = remain d" "held dat ?d = held dat d"
    using assms(2) by (simp_all add: data_ok_def remain_def held_def)
  have R: "0 < hd_retrieve_len d" "hd_retrieve_len d \<le> INT_MAX" using assms(2,4) by (simp_all add: data_ok_def)
  from take_remain_ok [OF ok(1) assms(5)] R assms(6) ok(2,3) obtain x where x:
    "take_remain dat ?d = Some (held dat d, ?d\<lparr>hd_ext := x\<rparr>)" "data_ok (?d\<lparr>hd_ext := x\<rparr>)"
    "remain (?d\<lparr>hd_ext := x\<rparr>) = []" "length (held dat d) < 2048" by auto
  let ?e = "?d\<lparr>hd_ext := x\<rparr>"
  obtain et n1 where t: "countdown_ms 5000 net = (et, n1)" by (cases "countdown_ms 5000 net")
  then have n1: "net_bytes n1 = net_bytes net" using net_bytes_countdown [of 5000 net] by simp
  have "0 < hd_response_buf_len ?e - 1" using R assms(4) by simp
  with body_loop_total [OF assms(1) x(2), of 0 "hd_retrieve_len d" "held dat d" et n1] R x(3,4)
  obtain ret dat' count' d2 n2 where b: "body_loop client et (held dat d) 0 (hd_retrieve_len d) ?e n1 = Some (ret, dat', count', d2, n2)"
    "body_post 0 (hd_retrieve_len d) ?e (held dat d @ net_bytes net) (ret, dat', count', d2, n2)"
    by (auto simp: n1)
  with assms(4) obtain c where c: "ret = Some c" by (cases ret) (auto simp: body_post_def)
  then have "httpclient_retrieve_content client dat d net = Some (c, d2, n2)"
    using assms(3) R x(1) t b(1)
    by (simp add: httpclient_retrieve_content_def retrieve_loop.simps next_piece_def size_t_def)
  with assms(7) have "c = HTTPCLIENT_RETRIEVE_MORE_DATA" "d2 = d'" "n2 = net'" by simp_all
  with b(2) c assms(3,4) show ?thesis by (simp add: body_post_def same_request_def Let_def)
qed

section \<open>The client keeps the objects it is given\<close>

definition ext_sized :: "http_data_ext \<Rightarrow> bool" where
  "ext_sized e \<longleftrightarrow> length (ex_if_range e) = 128 \<and> length (ex_location e) = 512 \<and> length (ex_remain_data_buf e) = 2048"

definition data_sized :: "nat \<Rightarrow> httpclient_data \<Rightarrow> bool" where
  "data_sized n d \<longleftrightarrow> length (hd_response_buf d) = n \<and> (\<exists>e. hd_ext d = Some e \<and> ext_sized e)"

lemma data_sized_updates [simp]:
  "data_sized n (d\<lparr>hd_is_more := b\<rparr>) = data_sized n d"
  "data_sized n (d\<lparr>hd_is_chunked := b\<rparr>) = data_sized n d"
  "data_sized n (d\<lparr>hd_retrieve_len := i\<rparr>) = data_sized n d"
  "data_sized n (d\<lparr>hd_response_content_len := i\<rparr>) = data_sized n d"
  "data_sized n (d\<lparr>hd_content_block_len := i\<rparr>) = data_sized n d"
  "data_sized n (d\<lparr>hd_header_buf := h\<rparr>) = data_sized n d"
  by (simp_all add: data_sized_def)

lemma put_body_sized: "put_body d off bs = Some d' \<Longrightarrow> data_sized n d \<Longrightarrow> data_sized n d'"
  by (auto simp: put_body_def data_sized_def dest!: bind_eq_SomeD dest: mem_write_length)

lemma keep_remain_sized: "keep_remain rest d = Some d' \<Longrightarrow> data_sized n d \<Longrightarrow> data_sized n d'"
  by (auto simp: keep_remain_def data_sized_def ext_sized_def dest!: bind_eq_SomeD split: if_splits) (auto dest!: mem_write_length)

lemma take_remain_sized: "take_remain dat d = Some (dat', d') \<Longrightarrow> data_sized n d \<Longrightarrow> data_sized n d'"
  by (auto simp: take_remain_def data_sized_def ext_sized_def dest!: bind_eq_SomeD split: if_splits)

lemma content_done_sized [simp]: "data_sized n (content_done count d) = data_sized n d"
  by (auto simp: content_done_def data_sized_def ext_sized_def)

lemma raw_loop_sized: "raw_loop client dat count d net = Some r \<Longrightarrow> data_sized n d \<longrightarrow> data_sized n (fst (snd r))"
  by (rule raw_loop.raw_induct [where P = "\<lambda>client dat count d net r. data_sized n d \<longrightarrow> data_sized n (fst (snd r))", rotated], assumption)
    (auto simp: Let_def dest!: bind_eq_SomeD dest: put_body_sized split: if_splits)

lemma body_loop_sized:
  "body_loop client et dat count readLen d net = Some r \<Longrightarrow> data_sized n d \<longrightarrow> data_sized n (fst (snd (snd (snd r))))"
  by (rule body_loop.raw_induct [where P = "\<lambda>client et dat count readLen d net r.
        data_sized n d \<longrightarrow> data_sized n (fst (snd (snd (snd r))))", rotated], assumption)
    (auto simp: Let_def dest!: bind_eq_SomeD split: if_splits,
     (fastforce dest: put_body_sized [where n = n] keep_remain_sized [where n = n])+)

lemma body_loop_sized':
  "body_loop client et dat count readLen d net = Some (a, b, c, d', e) \<Longrightarrow> data_sized n d \<Longrightarrow> data_sized n d'"
  using body_loop_sized [of client et dat count readLen d net "(a, b, c, d', e)" n] by simp

lemma next_piece_sized:
  "next_piece client dat d net = Some (x, dat', d', net') \<Longrightarrow> data_sized n d \<Longrightarrow> data_sized n d'"
  by (auto simp: next_piece_def chunk_start_def dest!: bind_eq_SomeD split: if_splits sum.splits)

lemma retrieve_loop_sized:
  "retrieve_loop client dat count d net = Some r \<Longrightarrow> data_sized n d \<longrightarrow> data_sized n (fst (snd r))"
  by (rule retrieve_loop.raw_induct [where P = "\<lambda>client dat count d net r.
        data_sized n d \<longrightarrow> data_sized n (fst (snd r))", rotated], assumption)
    (auto simp: Let_def dest!: bind_eq_SomeD split: if_splits sum.splits option.splits,
     (metis next_piece_sized body_loop_sized')+)

lemma retrieve_content_sized:
  "httpclient_retrieve_content client dat d net = Some (ret, d', net') \<Longrightarrow> data_sized n d \<Longrightarrow> data_sized n d'"
  using raw_loop_sized [where n = n] retrieve_loop_sized [where n = n]
  by (fastforce simp: httpclient_retrieve_content_def dest!: bind_eq_SomeD dest: take_remain_sized split: if_splits)


lemma store_value_length: "store_value room value n field = Some f \<Longrightarrow> length f = length field"
  by (auto simp: store_value_def dest!: bind_eq_SomeD dest: mem_write_length split: if_splits)

lemma scan_part_sized: "scan_part l (\<lambda>v e. upd v e) x = Some y \<Longrightarrow> (\<And>v e. ext_sized (upd v e) = ext_sized e) \<Longrightarrow>
    ext_sized (fst y) = ext_sized (fst x)"
  by (auto simp: scan_part_def dest!: bind_eq_SomeD split: option.splits)

lemma scan_content_range_sized:
  assumes "scan_content_range s e = Some e'"
  shows "ext_sized e' = ext_sized e"
proof -
  from assms obtain x1 x2 x3 where x:
    "scan_part (lit ''bytes'') (\<lambda>v e. e\<lparr>ex_range_beg := v\<rparr>) (e, Some s) = Some x1"
    "scan_part (lit ''-'') (\<lambda>v e. e\<lparr>ex_range_end := v\<rparr>) x1 = Some x2"
    "scan_part (lit ''/'') (\<lambda>v e. e\<lparr>ex_range_len := v\<rparr>) x2 = Some x3" "e' = fst x3"
    unfolding scan_content_range_def by (auto dest!: bind_eq_SomeD)
  have "ext_sized (fst x1) = ext_sized e" using scan_part_sized [OF x(1)] by (simp add: ext_sized_def)
  moreover have "ext_sized (fst x2) = ext_sized (fst x1)" using scan_part_sized [OF x(2)] by (simp add: ext_sized_def)
  moreover have "ext_sized (fst x3) = ext_sized (fst x2)" using scan_part_sized [OF x(3)] by (simp add: ext_sized_def)
  ultimately show ?thesis using x(4) by simp
qed

lemma with_ext_sized:
  "with_ext f d = Some d' \<Longrightarrow> (\<And>e e'. f e = Some e' \<Longrightarrow> ext_sized e \<Longrightarrow> ext_sized e') \<Longrightarrow> data_sized n d \<Longrightarrow> data_sized n d'"
  by (auto simp: with_ext_def data_sized_def dest!: bind_eq_SomeD)

lemma note_sized:
  "note_content_length value d = Some d' \<Longrightarrow> data_sized n d \<Longrightarrow> data_sized n d'"
  "data_sized n (note_transfer_encoding value m d) = data_sized n d"
  by (auto simp: note_content_length_def note_transfer_encoding_def Let_def dest!: bind_eq_SomeD)

lemma store_field_sized:
  "store_value room v m (ex_if_range e) = Some t \<Longrightarrow> ext_sized (e\<lparr>ex_if_range := t\<rparr>) = ext_sized e"
  "store_value room v m (ex_location e) = Some t \<Longrightarrow> ext_sized (e\<lparr>ex_location := t\<rparr>) = ext_sized e"
  by (auto simp: ext_sized_def dest!: store_value_length)

lemma if_chain_cases:
  "(if a then x1 else if b then x2 else if c then x3 else if d then x4 else if e then x5 else x6) = y \<Longrightarrow>
    x1 = y \<or> x2 = y \<or> x3 = y \<or> x4 = y \<or> x5 = y \<or> x6 = y"
  by (simp split: if_splits)

lemma header_field_sized:
  assumes "header_field s c p d = Some d'" "data_sized n d"
  shows "data_sized n d'"
proof -
  have r: "ext_sized (e\<lparr>ex_is_range := b\<rparr>) = ext_sized e" for e b by (simp add: ext_sized_def)
  from if_chain_cases [OF assms(1) [unfolded header_field_def Let_def]] consider
      "note_content_length (drop (c + 2) s) d = Some d'"
    | "Some (note_transfer_encoding (drop (c + 2) s) (int p - int c - 2) d) = Some d'"
    | "with_ext (\<lambda>e. if strncasecmp_eq s (lit ''Content-Range'') c
         then scan_content_range (drop (c + 2) s) (e\<lparr>ex_is_range := True\<rparr>) else Some (e\<lparr>ex_is_range := True\<rparr>)) d = Some d'"
    | "with_ext (\<lambda>e. do { t \<leftarrow> store_value HTTPCLIENT_IF_RANGE_SIZE (drop (c + 2) s) (int p - int c - 2) (ex_if_range e);
                      Some (e\<lparr>ex_if_range := t\<rparr>) }) d = Some d'"
    | "with_ext (\<lambda>e. do { t \<leftarrow> store_value HTTPCLIENT_LOCATION_SIZE (drop (c + 2) s) (int p - int c - 2) (ex_location e);
                      Some (e\<lparr>ex_location := t\<rparr>) }) d = Some d'"
    | "Some d = Some d'"
    by blast
  then show ?thesis
  proof cases
    case 3
    show ?thesis by (rule with_ext_sized [OF 3 _ assms(2)])
        (auto simp: r scan_content_range_sized simp del: lit_simps split: if_splits)
  next
    case 4
    show ?thesis by (rule with_ext_sized [OF 4 _ assms(2)]) (auto simp: store_field_sized dest!: bind_eq_SomeD)
  next
    case 5
    show ?thesis by (rule with_ext_sized [OF 5 _ assms(2)]) (auto simp: store_field_sized dest!: bind_eq_SomeD)
  qed (use assms(2) note_sized in auto)
qed

lemma copy_header_sized: "copy_header l pos d = Some (pos', d') \<Longrightarrow> data_sized n d \<Longrightarrow> data_sized n d'"
  by (auto simp: copy_header_def dest!: bind_eq_SomeD split: option.splits if_splits)

lemma header_loop_sized:
  "header_loop client dat pos d net = Some r \<Longrightarrow> data_sized n d \<longrightarrow> data_sized n (fst (snd r))"
  by (rule header_loop.raw_induct [where P = "\<lambda>client dat pos d net r.
        data_sized n d \<longrightarrow> data_sized n (fst (snd r))", rotated], assumption)
    (auto dest!: bind_eq_SomeD split: if_splits option.splits,
     (metis retrieve_content_sized copy_header_sized header_field_sized)+)

lemma recv_response_sized:
  assumes "httpclient_recv_response client d net = Some (ret, client', d', net')" "data_sized n d"
  shows "data_sized n d'"
proof -
  have reset: "data_sized n (d2\<lparr>hd_is_chunked := False\<rparr>)" if "response_reset d = Some d2" for d2
    using that assms(2) by (auto simp: response_reset_def data_sized_def ext_sized_def dest!: bind_eq_SomeD)
  have parse: "data_sized n d'" if p: "httpclient_response_parse client dat d net2 = Some (ret, client', d', net')" for dat net2
  proof -
    from p obtain d2 where d2: "response_reset d = Some d2" by (auto simp: httpclient_response_parse_def dest!: bind_eq_SomeD)
    have "d' = d2 \<or> (\<exists>c dat2 r2. header_loop c dat2 0 (d2\<lparr>hd_is_chunked := False\<rparr>) net2 = Some (r2, d', net'))"
      using p d2 by (auto simp: httpclient_response_parse_def Let_def dest!: bind_eq_SomeD split: option.splits)
    moreover have "data_sized n d2" using reset [OF d2] by simp
    ultimately show ?thesis using reset [OF d2] header_loop_sized [where n = n] by fastforce
  qed
  from assms show ?thesis
    by (fastforce simp: httpclient_recv_response_def dest!: bind_eq_SomeD dest: put_body_sized retrieve_content_sized parse
        split: if_splits)
qed

end
