(* ===== verification/Http_Download.thy ===== *)
theory Http_Download
  imports Http_Response Com_Fsm Common_Buffer
begin

text \<open>
  The download task of utils/http_download_process.c: a machine that requests a URL through the HTTP
  client, in ranges that fit the shared buffer, and pushes what it receives. The record
  \<open>http_download_proc\<close> follows the C structure. The heap objects it owns are fields of it:
  \<open>hp_linked\<close> says that the pointers in \<open>client_data\<close> refer to the present
  \<open>recv_buf\<close> and \<open>client_data_ext\<close>, so a use of the client data without it is a use of
  freed memory. The shared buffer, the allocation count and the network are the rest of the
  state. A URL is the object that holds it, with its NUL where there is one.
\<close>

definition HTTP_DOWNLOAD_MAX_ERR_CONN_COUNT :: u16 where "HTTP_DOWNLOAD_MAX_ERR_CONN_COUNT = 5"
definition HTTP_DOWNLOAD_MAX_ERR_RECV_COUNT :: u16 where "HTTP_DOWNLOAD_MAX_ERR_RECV_COUNT = 15"
definition HTTP_DOWNLOAD_RECV_BUF_SIZE :: int where "HTTP_DOWNLOAD_RECV_BUF_SIZE = 2049"
definition HTTP_DOWNLOAD_MONITOR_INTERVAL :: u32 where "HTTP_DOWNLOAD_MONITOR_INTERVAL = 2000"
definition HTTP_DOWNLOAD_WAIT_TIME :: u32 where "HTTP_DOWNLOAD_WAIT_TIME = 30000"

definition HTTP_DOWNLOAD_STA_IDLE :: u32 where "HTTP_DOWNLOAD_STA_IDLE = 0"
definition HTTP_DOWNLOAD_STA_PAUSE :: u32 where "HTTP_DOWNLOAD_STA_PAUSE = 1"
definition HTTP_DOWNLOAD_STA_CONN :: u32 where "HTTP_DOWNLOAD_STA_CONN = 2"
definition HTTP_DOWNLOAD_STA_RECV :: u32 where "HTTP_DOWNLOAD_STA_RECV = 3"
definition HTTP_DOWNLOAD_STA_PUSH_DATA :: u32 where "HTTP_DOWNLOAD_STA_PUSH_DATA = 4"
definition HTTP_DOWNLOAD_STA_WAIT_FREE :: u32 where "HTTP_DOWNLOAD_STA_WAIT_FREE = 5"
definition HTTP_DOWNLOAD_STA_WAIT_RANGE :: u32 where "HTTP_DOWNLOAD_STA_WAIT_RANGE = 6"

lemmas http_states = HTTP_DOWNLOAD_STA_IDLE_def HTTP_DOWNLOAD_STA_PAUSE_def HTTP_DOWNLOAD_STA_CONN_def
  HTTP_DOWNLOAD_STA_RECV_def HTTP_DOWNLOAD_STA_PUSH_DATA_def HTTP_DOWNLOAD_STA_WAIT_FREE_def
  HTTP_DOWNLOAD_STA_WAIT_RANGE_def

definition HTTP_DOWNLOAD_EVENT_START :: u32 where "HTTP_DOWNLOAD_EVENT_START = 1"
definition HTTP_DOWNLOAD_EVENT_STOP :: u32 where "HTTP_DOWNLOAD_EVENT_STOP = 2"
definition HTTP_DOWNLOAD_EVENT_PAUSE :: u32 where "HTTP_DOWNLOAD_EVENT_PAUSE = 4"
definition HTTP_DOWNLOAD_EVENT_RESUME :: u32 where "HTTP_DOWNLOAD_EVENT_RESUME = 8"

lemmas http_events = HTTP_DOWNLOAD_EVENT_START_def HTTP_DOWNLOAD_EVENT_STOP_def
  HTTP_DOWNLOAD_EVENT_PAUSE_def HTTP_DOWNLOAD_EVENT_RESUME_def

datatype http_download_proc_return =
    HTTP_DOWNLOAD_PROC_SUCCESS | HTTP_DOWNLOAD_PROC_ALL_END | HTTP_DOWNLOAD_PROC_RANGE_END
  | HTTP_DOWNLOAD_PROC_REDIRECT | HTTP_DOWNLOAD_PROC_ERR_PARAM | HTTP_DOWNLOAD_PROC_ERR_MALLOC
  | HTTP_DOWNLOAD_PROC_ERR_CONN | HTTP_DOWNLOAD_PROC_ERR_TRY_CONN | HTTP_DOWNLOAD_PROC_ERR_SEND
  | HTTP_DOWNLOAD_PROC_ERR_RECV | HTTP_DOWNLOAD_PROC_ERR_RECV_SKIP | HTTP_DOWNLOAD_PROC_ERR_RESPONSE
  | HTTP_DOWNLOAD_PROC_ERR_BUF_TOO_SMALL | HTTP_DOWNLOAD_PROC_ERR_TRY_RECV | HTTP_DOWNLOAD_PROC_ERR_TIMEOUT
  | HTTP_DOWNLOAD_PROC_ERR_DOWNLOAD_FAILED | HTTP_DOWNLOAD_PROC_ERR_DOWNLOAD_PAUSE

record http_download_proc =
  hp_handle :: u32
  hp_url :: "u8 list option"
  hp_buffer :: bool
  hp_client :: httpclient
  hp_data :: httpclient_data
  hp_linked :: bool
  hp_ext :: "http_data_ext option"
  hp_opened :: bool
  hp_err_conn :: u16
  hp_err_recv :: u16
  hp_recv_buf :: "u8 list option"
  hp_recv_len :: int
  hp_read_pos :: int
  hp_pre_pos :: int
  hp_cur_pos :: int
  hp_range_enable :: bool
  hp_range_forecast :: bool
  hp_range_end :: int
  hp_close_range :: bool
  hp_redirect :: bool
  hp_is_chunked :: bool
  hp_length_received :: bool
  hp_total_length :: int
  hp_http_ret :: int
  hp_last_error :: http_download_proc_return
  hp_monitor_tick :: u32
  hp_monitor_pos :: int

text \<open>The task's data, the count of allocations, the shared buffer and the network.\<close>

type_synonym http_state = "http_download_proc \<times> nat \<times> common_buffer \<times> net"

type_synonym http_step = "(http_download_proc_return \<times> http_state) option"

text \<open>The string in an object: undefined when the NUL is missing.\<close>

definition object_string :: "u8 list \<Rightarrow> u8 list option" where
  "object_string m = (if 0 \<in> set m then Some (c_string m) else None)"

section \<open>Connection\<close>

text \<open>The loop moves everything from the sixth byte on one place to the front, to the NUL or to
  index 2047.\<close>

definition http_download_proc_url_preprocess :: "u8 list \<Rightarrow> u8 list option" where
  "http_download_proc_url_preprocess url = do {
     s \<leftarrow> object_string url;
     if strncasecmp_eq s (lit ''https'') 5
     then (let n = min (length s) 2047 in Some (take 4 url @ drop 5 (take (n + 1) url) @ drop n url))
     else Some url }"

definition http_download_proc_open_client :: "allocator \<Rightarrow> http_state \<Rightarrow> http_step" where
  "http_download_proc_open_client mal s = (case s of (hp, k, cb, net) \<Rightarrow>
     if hp_opened hp then Some (HTTP_DOWNLOAD_PROC_SUCCESS, s)
     else do {
       obj \<leftarrow> hp_url hp;
       url \<leftarrow> http_download_proc_url_preprocess obj;
       str \<leftarrow> object_string url;
       (k, ret, client, net) \<leftarrow> httpclient_connect mal k httpclient_zero str net;
       let hp = hp\<lparr>hp_url := Some url, hp_client := client\<rparr>;
       Some (if ret \<noteq> HTTPCLIENT_OK
         then (if HTTP_DOWNLOAD_MAX_ERR_CONN_COUNT \<le> hp_err_conn hp + 1
                then HTTP_DOWNLOAD_PROC_ERR_TRY_CONN else HTTP_DOWNLOAD_PROC_ERR_CONN,
               hp\<lparr>hp_err_conn := hp_err_conn hp + 1\<rparr>, k, cb, net)
         else (HTTP_DOWNLOAD_PROC_SUCCESS, hp\<lparr>hp_opened := True, hp_err_conn := 0\<rparr>, k, cb, net)) })"

definition http_download_proc_close_client :: "http_state \<Rightarrow> http_state" where
  "http_download_proc_close_client s = (case s of (hp, k, cb, net) \<Rightarrow>
     if hp_opened hp
     then (let c = httpclient_close (hp_client hp) net
           in (hp\<lparr>hp_client := fst c, hp_opened := False\<rparr>, k, cb, snd c))
     else s)"

section \<open>Start and stop\<close>

definition http_data_ext_zero :: http_data_ext where
  "http_data_ext_zero = \<lparr>ex_is_range = False, ex_if_range = replicate 128 0, ex_range_beg = 0, ex_range_end = 0,
     ex_range_len = 0, ex_location = replicate 512 0, ex_remain_data_buf = replicate 2048 0, ex_remain_data_len = 0\<rparr>"

text \<open>The sizes of the two objects are 2049 and 2708 bytes. A new object is not what the client data
  points to.\<close>

definition http_download_proc_start :: "allocator \<Rightarrow> http_state \<Rightarrow> http_download_proc_return \<times> http_state" where
  "http_download_proc_start mal s = (case s of (hp, k, cb, net) \<Rightarrow>
     let hp = hp\<lparr>hp_linked := False, hp_recv_buf := mal k 2049\<rparr> in
     if mal k 2049 = None then (HTTP_DOWNLOAD_PROC_ERR_MALLOC, hp, k + 1, cb, net)
     else if mal (k + 1) 2708 = None
     then (HTTP_DOWNLOAD_PROC_ERR_MALLOC, hp\<lparr>hp_ext := None\<rparr>, k + 2, cb, net)
     else (let t = http_current_time_ms net;
               hp = (if hp_pre_pos hp \<le> 0 then hp\<lparr>hp_total_length := -1, hp_length_received := False\<rparr> else hp)
           in (HTTP_DOWNLOAD_PROC_SUCCESS,
               hp\<lparr>hp_recv_buf := Some (replicate 2049 0), hp_ext := Some http_data_ext_zero,
                  hp_err_conn := 0, hp_err_recv := 0, hp_redirect := False, hp_is_chunked := False,
                  hp_opened := False, hp_http_ret := 0, hp_monitor_tick := fst t, hp_monitor_pos := 0,
                  hp_range_forecast := hp_range_enable hp, hp_close_range := False\<rparr>, k + 2, cb, snd t)))"

definition http_download_proc_stop :: "http_state \<Rightarrow> http_state" where
  "http_download_proc_stop s = (case http_download_proc_close_client s of (hp, k, cb, net) \<Rightarrow>
     (hp\<lparr>hp_ext := None, hp_recv_buf := None, hp_linked := False\<rparr>, k, cb, net))"

section \<open>Request\<close>

definition range_count :: "http_download_proc \<Rightarrow> common_buffer \<Rightarrow> int option" where
  "range_count hp cb =
     (if hp_length_received hp then do {
        free \<leftarrow> common_buffer_get_free_count cb;
        left \<leftarrow> c_int (hp_total_length hp - hp_pre_pos hp);
        Some (if left < free then left else free) }
      else if hp_range_forecast hp then common_buffer_get_free_count cb
      else Some 1024)"

definition range_validator :: "http_data_ext \<Rightarrow> u8 list option" where
  "range_validator e =
     (if ex_is_range e \<and> 0 < length (c_string (ex_if_range e)) then Some (c_string (ex_if_range e)) else None)"

text \<open>The client data is cleared and its pointers are set.\<close>

definition link_client_data :: "http_download_proc \<Rightarrow> http_download_proc option" where
  "link_client_data hp = do {
     e \<leftarrow> hp_ext hp;
     Some (hp\<lparr>hp_data := httpclient_data_zero\<lparr>hd_response_buf_len := HTTP_DOWNLOAD_RECV_BUF_SIZE\<rparr>,
       hp_ext := Some (e\<lparr>ex_remain_data_buf := replicate 2048 0, ex_remain_data_len := 0\<rparr>),
       hp_linked := True, hp_cur_pos := 0\<rparr>) }"

definition send_range_request :: "allocator \<Rightarrow> u8 list \<Rightarrow> http_state \<Rightarrow> http_step" where
  "send_range_request mal url s = (case s of (hp, k, cb, net) \<Rightarrow> do {
     e \<leftarrow> hp_ext hp;
     n \<leftarrow> range_count hp cb;
     range_end \<leftarrow> c_int (hp_pre_pos hp + n);
     last_byte \<leftarrow> c_int (range_end - 1);
     (k, ret, net) \<leftarrow> httpclient_send_request_with_range mal k (hp_client hp) url HTTPCLIENT_GET
       (hp_data hp) (hp_pre_pos hp) last_byte (range_validator e) net;
     Some (if ret < 0 then HTTP_DOWNLOAD_PROC_ERR_SEND else HTTP_DOWNLOAD_PROC_SUCCESS,
       hp\<lparr>hp_range_end := range_end, hp_http_ret := ret\<rparr>, k, cb, net) })"

definition send_plain_request :: "allocator \<Rightarrow> u8 list \<Rightarrow> http_state \<Rightarrow> http_step" where
  "send_plain_request mal url s = (case s of (hp, k, cb, net) \<Rightarrow> do {
     (k, ret, net) \<leftarrow> httpclient_send_request mal k (hp_client hp) url HTTPCLIENT_GET (hp_data hp) net;
     Some (if ret < 0 then HTTP_DOWNLOAD_PROC_ERR_SEND else HTTP_DOWNLOAD_PROC_SUCCESS,
       hp\<lparr>hp_http_ret := ret\<rparr>, k, cb, net) })"

definition http_download_proc_conn :: "allocator \<Rightarrow> http_state \<Rightarrow> http_step" where
  "http_download_proc_conn mal s =
     (if hp_url (fst s) = None \<or> \<not> hp_buffer (fst s) then Some (HTTP_DOWNLOAD_PROC_ERR_PARAM, s)
      else do {
        (ret, s) \<leftarrow> http_download_proc_open_client mal s;
        if ret \<noteq> HTTP_DOWNLOAD_PROC_SUCCESS then Some (ret, s)
        else do {
          hp \<leftarrow> link_client_data (fst s);
          obj \<leftarrow> hp_url hp;
          url \<leftarrow> object_string obj;
          if hp_range_enable hp then send_range_request mal url (hp, snd s)
          else send_plain_request mal url (hp, snd s) } })"

section \<open>Response\<close>

text \<open>The client data with what it points to, and back.\<close>

definition linked_data :: "http_download_proc \<Rightarrow> httpclient_data option" where
  "linked_data hp = do {
     b \<leftarrow> hp_recv_buf hp;
     e \<leftarrow> hp_ext hp;
     if hp_linked hp then Some ((hp_data hp)\<lparr>hd_response_buf := b, hd_ext := Some e\<rparr>) else None }"

definition store_data :: "httpclient_data \<Rightarrow> http_download_proc \<Rightarrow> http_download_proc" where
  "store_data d hp = hp\<lparr>hp_data := d\<lparr>hd_response_buf := [], hd_ext := None\<rparr>,
     hp_recv_buf := Some (hd_response_buf d), hp_ext := hd_ext d\<rparr>"

definition recv_failure :: "http_download_proc \<Rightarrow> http_download_proc_return \<times> http_download_proc" where
  "recv_failure hp =
     (let hp = (if hp_http_ret hp \<noteq> HTTPCLIENT_ERROR_CONN then hp\<lparr>hp_err_recv := hp_err_recv hp + 1\<rparr> else hp)
      in (if HTTP_DOWNLOAD_MAX_ERR_RECV_COUNT \<le> hp_err_recv hp then HTTP_DOWNLOAD_PROC_ERR_TRY_RECV
          else HTTP_DOWNLOAD_PROC_ERR_RECV, hp))"

text \<open>The new URL has no NUL but what the memory happened to hold.\<close>

definition recv_redirect ::
  "allocator \<Rightarrow> nat \<Rightarrow> http_download_proc \<Rightarrow>
     (http_download_proc_return option \<times> nat \<times> http_download_proc) option" where
  "recv_redirect mal k hp =
     (if hp_redirect hp then Some (None, k, hp)
      else do {
        e \<leftarrow> hp_ext hp;
        location \<leftarrow> object_string (ex_location e);
        if location = [] then Some (None, k, hp)
        else (case mal k (length location + 1) of
            None \<Rightarrow> Some (Some HTTP_DOWNLOAD_PROC_ERR_MALLOC, k + 1, hp\<lparr>hp_url := None\<rparr>)
          | Some m \<Rightarrow> Some (Some HTTP_DOWNLOAD_PROC_REDIRECT, k + 1,
              hp\<lparr>hp_url := Some (location @ drop (length location) m), hp_redirect := True\<rparr>)) })"

definition recv_empty :: "http_download_proc \<Rightarrow> http_download_proc_return \<times> http_download_proc" where
  "recv_empty hp =
     (let hp = hp\<lparr>hp_close_range := True, hp_err_recv := hp_err_recv hp + 1\<rparr>
      in (if HTTP_DOWNLOAD_MAX_ERR_RECV_COUNT \<le> hp_err_recv hp then HTTP_DOWNLOAD_PROC_ERR_RESPONSE
          else HTTP_DOWNLOAD_PROC_ERR_RECV, hp))"

text \<open>Whether the server answers in ranges: \<open>True\<close> when the request is to be repeated.\<close>

definition recv_range :: "http_download_proc \<Rightarrow> http_data_ext \<Rightarrow> bool \<times> http_download_proc" where
  "recv_range hp e =
     (if \<not> hp_range_enable hp then (False, hp\<lparr>hp_ext := Some (e\<lparr>ex_is_range := False\<rparr>)\<rparr>)
      else if hp_range_forecast hp \<and> \<not> ex_is_range e then (True, hp\<lparr>hp_range_forecast := False\<rparr>)
      else (False, hp))"

definition recv_length :: "http_download_proc \<Rightarrow> http_data_ext \<Rightarrow> http_download_proc" where
  "recv_length hp e =
     (let n = hd_response_content_len (hp_data hp) in
      if hd_is_chunked (hp_data hp) then hp\<lparr>hp_is_chunked := True, hp_total_length := n\<rparr>
      else if \<not> hp_length_received hp
      then hp\<lparr>hp_total_length := (if ex_is_range e \<and> 0 < ex_range_len e then ex_range_len e else n),
              hp_length_received := True\<rparr>
      else hp)"

text \<open>The block that was received, and how much of it lies before the position that is asked for.\<close>

definition recv_position :: "http_download_proc \<Rightarrow> http_data_ext \<Rightarrow> http_download_proc option" where
  "recv_position hp e = do {
     n \<leftarrow> (if hp_http_ret hp = HTTPCLIENT_RETRIEVE_MORE_DATA then Some (HTTP_DOWNLOAD_RECV_BUF_SIZE - 1)
          else c_mod (hd_response_content_len (hp_data hp)) (HTTP_DOWNLOAD_RECV_BUF_SIZE - 1));
     if ex_is_range e
     then Some (hp\<lparr>hp_recv_len := n, hp_read_pos := 0, hp_cur_pos := max (hp_cur_pos hp) (hp_pre_pos hp)\<rparr>)
     else do {
       c \<leftarrow> c_int (hp_pre_pos hp - hp_cur_pos hp);
       let c = min c n;
       cur \<leftarrow> c_int (hp_cur_pos hp + c);
       Some (hp\<lparr>hp_recv_len := n, hp_read_pos := c, hp_cur_pos := cur\<rparr>) } }"

definition recv_content :: "http_download_proc \<Rightarrow> (http_download_proc_return \<times> http_download_proc) option" where
  "recv_content hp =
     (if hd_response_content_len (hp_data hp) \<le> 0 then Some (recv_empty hp)
      else do {
        e \<leftarrow> hp_ext hp;
        let r = recv_range hp e;
        if fst r then Some (HTTP_DOWNLOAD_PROC_ERR_RECV, snd r)
        else do {
          e \<leftarrow> hp_ext (snd r);
          hp \<leftarrow> recv_position (recv_length (snd r) e) e;
          Some (if hp_recv_len hp \<le> hp_read_pos hp then HTTP_DOWNLOAD_PROC_ERR_RECV_SKIP
                else HTTP_DOWNLOAD_PROC_SUCCESS, hp) } })"

definition http_download_proc_recv :: "allocator \<Rightarrow> http_state \<Rightarrow> http_step" where
  "http_download_proc_recv mal s = (case s of (hp, k, cb, net) \<Rightarrow> do {
     d \<leftarrow> linked_data hp;
     (ret, client, d, net) \<leftarrow> httpclient_recv_response (hp_client hp) d net;
     let hp = store_data d (hp\<lparr>hp_client := client, hp_http_ret := ret\<rparr>);
     if ret < 0 then (let r = recv_failure hp in Some (fst r, snd r, k, cb, net))
     else do {
       (early, k, hp) \<leftarrow> recv_redirect mal k hp;
       (case early of
          Some e \<Rightarrow> Some (e, hp, k, cb, net)
        | None \<Rightarrow> do { (r, hp) \<leftarrow> recv_content hp; Some (r, hp, k, cb, net) }) } })"

section \<open>Pushing\<close>

text \<open>The monitor only reads the clock.\<close>

definition monitor :: "http_download_proc \<Rightarrow> net \<Rightarrow> http_download_proc \<times> net" where
  "monitor hp net =
     (let t = http_current_time_ms net in
      if HTTP_DOWNLOAD_MONITOR_INTERVAL \<le> fst t - hp_monitor_tick hp
      then (let t2 = http_current_time_ms (snd t); t3 = http_current_time_ms (snd t2)
            in (hp\<lparr>hp_monitor_pos := hp_pre_pos hp, hp_monitor_tick := fst t3\<rparr>, snd t3))
      else (hp, snd t))"

definition push_verdict :: "http_download_proc \<Rightarrow> bool \<Rightarrow> http_download_proc_return" where
  "push_verdict hp is_range =
     (if \<not> is_range \<and> hp_http_ret hp \<noteq> HTTPCLIENT_RETRIEVE_MORE_DATA then HTTP_DOWNLOAD_PROC_ALL_END
      else if \<not> hp_is_chunked hp \<and> hp_total_length hp \<le> hp_pre_pos hp then HTTP_DOWNLOAD_PROC_ALL_END
      else if is_range \<and> hp_range_end hp \<le> hp_pre_pos hp then HTTP_DOWNLOAD_PROC_RANGE_END
      else HTTP_DOWNLOAD_PROC_SUCCESS)"

definition http_download_proc_push_data :: "allocator \<Rightarrow> http_state \<Rightarrow> http_step" where
  "http_download_proc_push_data mal s = (case s of (hp, k, cb, net) \<Rightarrow> do {
     len \<leftarrow> c_int (hp_recv_len hp - hp_read_pos hp);
     if \<not> hp_buffer hp then None
     else do {
       free \<leftarrow> common_buffer_get_free_count cb;
       if free < len then Some (HTTP_DOWNLOAD_PROC_ERR_BUF_TOO_SMALL, s)
       else do {
         m \<leftarrow> hp_recv_buf hp;
         bytes \<leftarrow> mem_read m (hp_read_pos hp) len;
         (_, k, cb) \<leftarrow> common_buffer_push mal k cb bytes (u32_of_int len);
         pre \<leftarrow> c_int (hp_pre_pos hp + len);
         cur \<leftarrow> c_int (hp_cur_pos hp + len);
         let mn = monitor (hp\<lparr>hp_pre_pos := pre, hp_cur_pos := cur, hp_read_pos := hp_read_pos hp + len\<rparr>) net;
         e \<leftarrow> hp_ext hp;
         Some (push_verdict (fst mn) (ex_is_range e), fst mn, k, cb, snd mn) } } })"

definition http_download_wait_free :: "http_state \<Rightarrow> http_download_proc_return option" where
  "http_download_wait_free s = (case s of (hp, k, cb, net) \<Rightarrow> do {
     len \<leftarrow> c_int (hp_recv_len hp - hp_read_pos hp);
     if \<not> hp_buffer hp then None
     else do {
       free \<leftarrow> common_buffer_get_free_count cb;
       Some (if free < len then HTTP_DOWNLOAD_PROC_ERR_BUF_TOO_SMALL else HTTP_DOWNLOAD_PROC_SUCCESS) } })"

definition http_download_wait_range :: "http_state \<Rightarrow> http_download_proc_return option" where
  "http_download_wait_range s = (case s of (hp, k, cb, net) \<Rightarrow>
     if \<not> hp_buffer hp then None
     else do {
       free \<leftarrow> common_buffer_get_free_count cb;
       count \<leftarrow> common_buffer_get_count cb;
       Some (if free \<le> count then HTTP_DOWNLOAD_PROC_ERR_BUF_TOO_SMALL else HTTP_DOWNLOAD_PROC_SUCCESS) })"

section \<open>The actions\<close>

type_synonym http_action_result = "(u32 \<times> http_state) option"

definition set_last_error :: "http_download_proc_return \<Rightarrow> http_state \<Rightarrow> http_state" where
  "set_last_error e s = ((fst s)\<lparr>hp_last_error := e\<rparr>, snd s)"

definition http_download_proc_conn_action :: "allocator \<Rightarrow> http_state \<Rightarrow> http_action_result" where
  "http_download_proc_conn_action mal s = do {
     (e, s) \<leftarrow> http_download_proc_conn mal s;
     let s = set_last_error e s;
     Some (if e = HTTP_DOWNLOAD_PROC_SUCCESS then (HTTP_DOWNLOAD_STA_RECV, s)
       else if e = HTTP_DOWNLOAD_PROC_ERR_TRY_CONN \<or> e = HTTP_DOWNLOAD_PROC_ERR_PARAM
       then (HTTP_DOWNLOAD_STA_IDLE, http_download_proc_stop s)
       else (COM_FSM_HOLD_STATE, http_download_proc_close_client s)) }"

definition http_download_proc_push_action :: "allocator \<Rightarrow> http_state \<Rightarrow> http_action_result" where
  "http_download_proc_push_action mal s = do {
     (e, s) \<leftarrow> http_download_proc_push_data mal s;
     let s = set_last_error e s;
     Some (if e = HTTP_DOWNLOAD_PROC_SUCCESS then (HTTP_DOWNLOAD_STA_RECV, s)
       else if e = HTTP_DOWNLOAD_PROC_ERR_BUF_TOO_SMALL then (HTTP_DOWNLOAD_STA_WAIT_FREE, s)
       else if e = HTTP_DOWNLOAD_PROC_RANGE_END
       then (HTTP_DOWNLOAD_STA_WAIT_RANGE,
             if hp_close_range (fst s) then http_download_proc_close_client s else s)
       else (HTTP_DOWNLOAD_STA_IDLE, http_download_proc_stop s)) }"

definition http_download_proc_start_action :: "allocator \<Rightarrow> http_state \<Rightarrow> http_action_result" where
  "http_download_proc_start_action mal s =
     (let r = http_download_proc_start mal s; s = set_last_error (fst r) (snd r) in
      if fst r = HTTP_DOWNLOAD_PROC_SUCCESS then http_download_proc_conn_action mal s
      else Some (COM_FSM_HOLD_STATE, http_download_proc_stop s))"

definition http_download_proc_stop_action :: "http_state \<Rightarrow> http_action_result" where
  "http_download_proc_stop_action s =
     Some (HTTP_DOWNLOAD_STA_IDLE, http_download_proc_stop (set_last_error HTTP_DOWNLOAD_PROC_SUCCESS s))"

definition http_download_proc_pause_action :: "http_state \<Rightarrow> http_action_result" where
  "http_download_proc_pause_action s = Some (HTTP_DOWNLOAD_STA_PAUSE, http_download_proc_close_client s)"

definition http_download_proc_recv_poll :: "allocator \<Rightarrow> http_state \<Rightarrow> http_action_result" where
  "http_download_proc_recv_poll mal s = do {
     (e, s) \<leftarrow> http_download_proc_recv mal s;
     let s = set_last_error e s;
     if e = HTTP_DOWNLOAD_PROC_SUCCESS then http_download_proc_push_action mal s
     else if e = HTTP_DOWNLOAD_PROC_ERR_RECV_SKIP then Some (COM_FSM_HOLD_STATE, s)
     else if e = HTTP_DOWNLOAD_PROC_ERR_RECV \<or> e = HTTP_DOWNLOAD_PROC_REDIRECT
     then http_download_proc_conn_action mal (http_download_proc_close_client s)
     else Some (HTTP_DOWNLOAD_STA_IDLE, http_download_proc_stop s) }"

definition http_download_proc_wait_free_poll :: "allocator \<Rightarrow> http_state \<Rightarrow> http_action_result" where
  "http_download_proc_wait_free_poll mal s = do {
     e \<leftarrow> http_download_wait_free s;
     let s = set_last_error e s;
     if e = HTTP_DOWNLOAD_PROC_SUCCESS then http_download_proc_push_action mal s
     else Some (COM_FSM_HOLD_STATE, s) }"

definition http_download_proc_wait_range_poll :: "allocator \<Rightarrow> http_state \<Rightarrow> http_action_result" where
  "http_download_proc_wait_range_poll mal s = do {
     e \<leftarrow> http_download_wait_range s;
     let s = set_last_error e s;
     if e = HTTP_DOWNLOAD_PROC_SUCCESS then http_download_proc_conn_action mal s
     else Some (COM_FSM_HOLD_STATE, s) }"

datatype http_action = Http_Start | Http_Stop | Http_Pause | Http_Conn | Http_Recv_Poll
  | Http_Wait_Free_Poll | Http_Wait_Range_Poll

definition http_run :: "allocator \<Rightarrow> http_action \<Rightarrow> http_state \<Rightarrow> http_action_result" where
  "http_run mal a s = (case a of
      Http_Start \<Rightarrow> http_download_proc_start_action mal s
    | Http_Stop \<Rightarrow> http_download_proc_stop_action s
    | Http_Pause \<Rightarrow> http_download_proc_pause_action s
    | Http_Conn \<Rightarrow> http_download_proc_conn_action mal s
    | Http_Recv_Poll \<Rightarrow> http_download_proc_recv_poll mal s
    | Http_Wait_Free_Poll \<Rightarrow> http_download_proc_wait_free_poll mal s
    | Http_Wait_Range_Poll \<Rightarrow> http_download_proc_wait_range_poll mal s)"

definition http_exec :: "allocator \<Rightarrow> (http_action, http_state) fsm_exec" where
  "http_exec mal a s = do { (st, u) \<leftarrow> http_run mal a (snd s); Some (st, fst s, u) }"

definition http_lookup :: "http_action com_fsm_lookup list" where
  "http_lookup = [
     \<lparr>lk_event = HTTP_DOWNLOAD_EVENT_START, lk_state = HTTP_DOWNLOAD_STA_IDLE, lk_action = Http_Start, lk_timeout = 0\<rparr>,
     \<lparr>lk_event = HTTP_DOWNLOAD_EVENT_STOP, lk_state = HTTP_DOWNLOAD_STA_PAUSE, lk_action = Http_Stop, lk_timeout = 0\<rparr>,
     \<lparr>lk_event = HTTP_DOWNLOAD_EVENT_STOP, lk_state = HTTP_DOWNLOAD_STA_CONN, lk_action = Http_Stop, lk_timeout = 0\<rparr>,
     \<lparr>lk_event = HTTP_DOWNLOAD_EVENT_STOP, lk_state = HTTP_DOWNLOAD_STA_RECV, lk_action = Http_Stop, lk_timeout = 0\<rparr>,
     \<lparr>lk_event = HTTP_DOWNLOAD_EVENT_STOP, lk_state = HTTP_DOWNLOAD_STA_WAIT_FREE, lk_action = Http_Stop, lk_timeout = 0\<rparr>,
     \<lparr>lk_event = HTTP_DOWNLOAD_EVENT_STOP, lk_state = HTTP_DOWNLOAD_STA_WAIT_RANGE, lk_action = Http_Stop, lk_timeout = 0\<rparr>,
     \<lparr>lk_event = HTTP_DOWNLOAD_EVENT_PAUSE, lk_state = HTTP_DOWNLOAD_STA_CONN, lk_action = Http_Pause, lk_timeout = 0\<rparr>,
     \<lparr>lk_event = HTTP_DOWNLOAD_EVENT_PAUSE, lk_state = HTTP_DOWNLOAD_STA_RECV, lk_action = Http_Pause, lk_timeout = 0\<rparr>,
     \<lparr>lk_event = HTTP_DOWNLOAD_EVENT_PAUSE, lk_state = HTTP_DOWNLOAD_STA_WAIT_FREE, lk_action = Http_Pause, lk_timeout = 0\<rparr>,
     \<lparr>lk_event = HTTP_DOWNLOAD_EVENT_PAUSE, lk_state = HTTP_DOWNLOAD_STA_WAIT_RANGE, lk_action = Http_Pause, lk_timeout = 0\<rparr>,
     \<lparr>lk_event = HTTP_DOWNLOAD_EVENT_RESUME, lk_state = HTTP_DOWNLOAD_STA_PAUSE, lk_action = Http_Conn, lk_timeout = 0\<rparr>,
     \<lparr>lk_event = COM_FSM_EVENT_NONE, lk_state = HTTP_DOWNLOAD_STA_CONN, lk_action = Http_Conn, lk_timeout = 500\<rparr>,
     \<lparr>lk_event = COM_FSM_EVENT_NONE, lk_state = HTTP_DOWNLOAD_STA_RECV, lk_action = Http_Recv_Poll, lk_timeout = 0\<rparr>,
     \<lparr>lk_event = COM_FSM_EVENT_NONE, lk_state = HTTP_DOWNLOAD_STA_WAIT_FREE, lk_action = Http_Wait_Free_Poll, lk_timeout = 100\<rparr>,
     \<lparr>lk_event = COM_FSM_EVENT_NONE, lk_state = HTTP_DOWNLOAD_STA_WAIT_RANGE, lk_action = Http_Wait_Range_Poll, lk_timeout = 100\<rparr>]"

section \<open>The interface\<close>

definition http_download_proc_zero :: http_download_proc where
  "http_download_proc_zero = \<lparr>hp_handle = 0, hp_url = None, hp_buffer = False, hp_client = httpclient_zero,
     hp_data = httpclient_data_zero, hp_linked = False, hp_ext = None, hp_opened = False, hp_err_conn = 0,
     hp_err_recv = 0, hp_recv_buf = None, hp_recv_len = 0, hp_read_pos = 0, hp_pre_pos = 0, hp_cur_pos = 0,
     hp_range_enable = False, hp_range_forecast = False, hp_range_end = 0, hp_close_range = False,
     hp_redirect = False, hp_is_chunked = False, hp_length_received = False, hp_total_length = 0,
     hp_http_ret = 0, hp_last_error = HTTP_DOWNLOAD_PROC_SUCCESS, hp_monitor_tick = 0, hp_monitor_pos = 0\<rparr>"

definition http_download_init :: "allocator \<Rightarrow> nat \<Rightarrow> nat \<times> http_action com_fsm option \<times> http_download_proc" where
  "http_download_init mal k =
     (let (k', f) = com_fsm_create_inner mal k http_lookup None None
      in (k', f, http_download_proc_zero\<lparr>hp_range_enable := True\<rparr>))"

type_synonym http_sys = "http_action com_fsm \<times> http_state"

type_synonym http_serve = "http_sys \<Rightarrow> http_sys option"

definition http_download_deinit :: "http_sys \<Rightarrow> http_sys option" where
  "http_download_deinit s = com_fsm_delete s"

text \<open>The caller's side of stop and start, as far as it writes the task's data.\<close>

definition note_stop :: "http_download_proc \<Rightarrow> http_download_proc" where
  "note_stop hp = hp\<lparr>hp_url := None, hp_buffer := False\<rparr>"

definition note_start :: "u8 list \<Rightarrow> bool \<Rightarrow> int \<Rightarrow> u32 \<Rightarrow> http_download_proc \<Rightarrow> http_download_proc" where
  "note_start url range_enable seek_pos handle hp =
     hp\<lparr>hp_url := Some (url @ [0]), hp_buffer := True, hp_last_error := HTTP_DOWNLOAD_PROC_SUCCESS,
        hp_range_enable := range_enable, hp_handle := handle, hp_pre_pos := seek_pos\<rparr>"

definition on_proc :: "(http_download_proc \<Rightarrow> http_download_proc) \<Rightarrow> http_sys \<Rightarrow> http_sys" where
  "on_proc g s = (fst s, g (fst (snd s)), snd (snd s))"

definition http_download_stop :: "http_serve \<Rightarrow> http_sys \<Rightarrow> http_sys option" where
  "http_download_stop serve s = do {
     (f, u) \<leftarrow> com_fsm_set_event serve s HTTP_DOWNLOAD_EVENT_STOP HTTP_DOWNLOAD_WAIT_TIME;
     f \<leftarrow> com_fsm_clear_event f COM_FSM_EVENT_ALL;
     Some (on_proc note_stop (f, u)) }"

text \<open>\<open>last_handle\<close> is the global counter of handles. The URL's memory is the next allocation.\<close>

definition http_download_start_inner ::
  "allocator \<Rightarrow> http_serve \<Rightarrow> http_serve \<Rightarrow> u8 list option \<Rightarrow> bool \<Rightarrow> bool \<Rightarrow> int \<Rightarrow> u32 \<Rightarrow> http_sys \<Rightarrow>
     (http_download_proc_return \<times> u32 \<times> http_sys) option" where
  "http_download_start_inner mal serve serve' url buffer range_enable seek_pos last_handle s =
     (case url of
        None \<Rightarrow> Some (HTTP_DOWNLOAD_PROC_ERR_PARAM, last_handle, s)
      | Some str \<Rightarrow>
        if \<not> buffer then Some (HTTP_DOWNLOAD_PROC_ERR_PARAM, last_handle, s)
        else do {
          (f, hp, k, w) \<leftarrow> http_download_stop serve s;
          if mal k (length str + 1) = None
          then Some (HTTP_DOWNLOAD_PROC_ERR_MALLOC, last_handle, f, hp, k + 1, w)
          else do {
            s \<leftarrow> com_fsm_set_event serve'
              (f, note_start str range_enable seek_pos (last_handle + 1) hp, k + 1, w)
              HTTP_DOWNLOAD_EVENT_START HTTP_DOWNLOAD_WAIT_TIME;
            Some (HTTP_DOWNLOAD_PROC_SUCCESS, last_handle + 1, s) } })"

definition http_download_start ::
  "allocator \<Rightarrow> http_serve \<Rightarrow> http_serve \<Rightarrow> u8 list option \<Rightarrow> bool \<Rightarrow> bool \<Rightarrow> u32 \<Rightarrow> http_sys \<Rightarrow>
     (http_download_proc_return \<times> u32 \<times> http_sys) option" where
  "http_download_start mal serve serve' url buffer range_enable last_handle s =
     http_download_start_inner mal serve serve' url buffer range_enable 0 last_handle s"

definition http_download_start_seek ::
  "allocator \<Rightarrow> http_serve \<Rightarrow> http_serve \<Rightarrow> u8 list option \<Rightarrow> bool \<Rightarrow> bool \<Rightarrow> int \<Rightarrow> u32 \<Rightarrow> http_sys \<Rightarrow>
     (http_download_proc_return \<times> u32 \<times> http_sys) option" where
  "http_download_start_seek mal serve serve' url buffer range_enable seek_pos last_handle s =
     http_download_start_inner mal serve serve' url buffer range_enable seek_pos last_handle s"

definition http_download_pause :: "http_sys \<Rightarrow> http_sys option" where
  "http_download_pause s = com_fsm_set_event Some s HTTP_DOWNLOAD_EVENT_PAUSE 0"

definition http_download_resume :: "http_sys \<Rightarrow> http_sys option" where
  "http_download_resume s = com_fsm_set_event Some s HTTP_DOWNLOAD_EVENT_RESUME 0"

text \<open>One round of the wait for data: what the caller reads of the other threads' state in it. When
  it finds the machine paused it waits until it no longer is, \<open>paused\<close> ticks.\<close>

record wait_round =
  wr_count :: "int option"
  wr_tick :: u32
  wr_state :: u32
  wr_state2 :: u32
  wr_error :: http_download_proc_return
  wr_paused :: u32

definition ended_well :: "http_download_proc_return \<Rightarrow> bool" where
  "ended_well e \<longleftrightarrow> e = HTTP_DOWNLOAD_PROC_SUCCESS \<or> e = HTTP_DOWNLOAD_PROC_ALL_END"

text \<open>\<open>None\<close> when the rounds end, that is, the caller still waits.\<close>

fun wait_buffer_loop :: "u32 \<Rightarrow> u32 \<Rightarrow> u32 \<Rightarrow> wait_round list \<Rightarrow> http_download_proc_return option" where
  "wait_buffer_loop n timeout beg [] = None"
| "wait_buffer_loop n timeout beg (r # rs) =
     (if (case wr_count r of None \<Rightarrow> False | Some c \<Rightarrow> n \<le> u32_of_int c) then Some HTTP_DOWNLOAD_PROC_SUCCESS
      else if timeout < wr_tick r - beg then Some HTTP_DOWNLOAD_PROC_ERR_TIMEOUT
      else if wr_state r = HTTP_DOWNLOAD_STA_IDLE
      then Some (if ended_well (wr_error r) then HTTP_DOWNLOAD_PROC_SUCCESS
                 else HTTP_DOWNLOAD_PROC_ERR_DOWNLOAD_FAILED)
      else wait_buffer_loop n timeout
        (if wr_state2 r = HTTP_DOWNLOAD_STA_PAUSE then beg + wr_paused r else beg) rs)"

definition http_download_wait_buffer ::
  "u32 \<Rightarrow> u32 \<Rightarrow> u32 \<Rightarrow> wait_round list \<Rightarrow> http_download_proc_return option" where
  "http_download_wait_buffer n timeout now rounds = wait_buffer_loop n timeout now rounds"

definition http_download_is_finish :: "u32 \<Rightarrow> http_download_proc \<Rightarrow> bool" where
  "http_download_is_finish st hp \<longleftrightarrow> st = HTTP_DOWNLOAD_STA_IDLE \<and> ended_well (hp_last_error hp)"

definition http_download_is_stopped :: "u32 \<Rightarrow> bool" where
  "http_download_is_stopped st \<longleftrightarrow> st = HTTP_DOWNLOAD_STA_IDLE"

definition http_download_get_last_error :: "http_download_proc \<Rightarrow> http_download_proc_return" where
  "http_download_get_last_error hp = hp_last_error hp"

definition http_download_get_total_length :: "http_download_proc \<Rightarrow> int" where
  "http_download_get_total_length hp = hp_total_length hp"

section \<open>What the task owns\<close>

definition http_owned :: "http_download_proc \<Rightarrow> bool" where
  "http_owned hp \<longleftrightarrow> (\<exists>b e. hp_recv_buf hp = Some b \<and> length b = 2049 \<and> hp_ext hp = Some e \<and> ext_sized e)"

definition http_mem :: "http_download_proc \<Rightarrow> bool" where
  "http_mem hp \<longleftrightarrow> http_owned hp \<and> hp_linked hp"

text \<open>The states that occur, the objects and the connection.\<close>

definition http_inv :: "u32 \<Rightarrow> http_state \<Rightarrow> bool" where
  "http_inv st s \<longleftrightarrow>
     st \<in> {HTTP_DOWNLOAD_STA_IDLE, HTTP_DOWNLOAD_STA_PAUSE, HTTP_DOWNLOAD_STA_RECV, HTTP_DOWNLOAD_STA_WAIT_FREE,
           HTTP_DOWNLOAD_STA_WAIT_RANGE} \<and>
     (if st = HTTP_DOWNLOAD_STA_IDLE then \<not> hp_opened (fst s) else http_mem (fst s))"

lemma close_client_keeps [simp]:
  "http_owned (fst (http_download_proc_close_client s)) = http_owned (fst s)"
  "hp_linked (fst (http_download_proc_close_client s)) = hp_linked (fst s)"
  "\<not> hp_opened (fst (http_download_proc_close_client s))"
  by (auto simp: http_download_proc_close_client_def http_owned_def Let_def split: prod.splits)

lemma stop_frees [simp]:
  "\<not> hp_opened (fst (http_download_proc_stop s))" "hp_recv_buf (fst (http_download_proc_stop s)) = None"
  "hp_ext (fst (http_download_proc_stop s)) = None"
  using close_client_keeps(3) [of s] by (auto simp: http_download_proc_stop_def simp del: close_client_keeps split: prod.splits)

lemma open_client_keeps:
  "http_download_proc_open_client mal s = Some (e, s') \<Longrightarrow> hp_recv_buf (fst s') = hp_recv_buf (fst s) \<and>
    hp_ext (fst s') = hp_ext (fst s) \<and> hp_linked (fst s') = hp_linked (fst s)"
  by (auto simp: http_download_proc_open_client_def Let_def dest!: bind_eq_SomeD split: prod.splits if_splits)

lemma link_owned: "link_client_data hp = Some hp' \<Longrightarrow> http_owned hp \<Longrightarrow> http_mem hp'"
  by (auto simp: link_client_data_def http_owned_def http_mem_def ext_sized_def dest!: bind_eq_SomeD)

lemma send_keeps:
  "send_range_request mal url s = Some (e, s') \<Longrightarrow> http_mem (fst s') = http_mem (fst s)"
  "send_plain_request mal url s = Some (e, s') \<Longrightarrow> http_mem (fst s') = http_mem (fst s)"
  by (auto simp: send_range_request_def send_plain_request_def http_mem_def http_owned_def Let_def dest!: bind_eq_SomeD
      split: prod.splits)

lemma conn_keeps:
  assumes "http_download_proc_conn mal s = Some (e, s')" "http_owned (fst s)"
  shows "http_owned (fst s') \<and> (hp_linked (fst s) \<longrightarrow> http_mem (fst s')) \<and>
    (e = HTTP_DOWNLOAD_PROC_SUCCESS \<longrightarrow> http_mem (fst s'))"
proof (cases "hp_url (fst s) = None \<or> \<not> hp_buffer (fst s)")
  case True
  with assms show ?thesis by (auto simp: http_download_proc_conn_def http_mem_def)
next
  case False
  with assms(1) obtain e1 s1 where o: "http_download_proc_open_client mal s = Some (e1, s1)"
    "(if e1 \<noteq> HTTP_DOWNLOAD_PROC_SUCCESS then Some (e1, s1)
      else do { hp \<leftarrow> link_client_data (fst s1); obj \<leftarrow> hp_url hp; url \<leftarrow> object_string obj;
                if hp_range_enable hp then send_range_request mal url (hp, snd s1)
                else send_plain_request mal url (hp, snd s1) }) = Some (e, s')"
    by (auto simp: http_download_proc_conn_def dest!: bind_eq_SomeD)
  from open_client_keeps [OF o(1)] assms(2) have k: "http_owned (fst s1)" "hp_linked (fst s1) = hp_linked (fst s)"
    by (auto simp: http_owned_def)
  show ?thesis
  proof (cases "e1 = HTTP_DOWNLOAD_PROC_SUCCESS")
    case True
    with o(2) obtain hp url where hp: "link_client_data (fst s1) = Some hp"
      "(if hp_range_enable hp then send_range_request mal url (hp, snd s1)
        else send_plain_request mal url (hp, snd s1)) = Some (e, s')"
      by (auto dest!: bind_eq_SomeD simp del: split_paired_Ex split_paired_All)
    from hp(2) have "http_mem (fst s') = http_mem hp" by (auto split: if_splits dest: send_keeps)
    with link_owned [OF hp(1) k(1)] show ?thesis by (simp add: http_mem_def)
  qed (use o(2) k in \<open>simp add: http_mem_def\<close>)
qed

lemma recv_keeps:
  assumes "http_download_proc_recv mal s = Some (e, s')" "http_mem (fst s)"
  shows "http_mem (fst s')"
proof -
  obtain hp k cb net where s: "s = (hp, k, cb, net)" by (cases s) auto
  with assms obtain d ret client d' net' where d: "linked_data hp = Some d"
    "httpclient_recv_response (hp_client hp) d net = Some (ret, client, d', net')"
    by (auto simp: http_download_proc_recv_def dest!: bind_eq_SomeD)
  have "data_sized 2049 d" using d(1) assms(2) s
    by (auto simp: linked_data_def data_sized_def http_mem_def http_owned_def dest!: bind_eq_SomeD split: if_splits)
  from recv_response_sized [OF d(2) this] have sd: "data_sized 2049 d'" .
  let ?hp = "store_data d' (hp\<lparr>hp_client := client, hp_http_ret := ret\<rparr>)"
  have m: "http_mem ?hp" using sd assms(2) s
    by (auto simp: store_data_def http_mem_def http_owned_def data_sized_def)
  have f: "http_mem (snd (recv_failure ?hp))"
    using m by (simp add: recv_failure_def http_mem_def http_owned_def Let_def)
  have r: "http_mem hp'" if "recv_redirect mal k ?hp = Some (x, k', hp')" for x k' hp'
    using that m by (auto simp: recv_redirect_def http_mem_def http_owned_def dest!: bind_eq_SomeD split: if_splits option.splits)
  have c: "http_mem hp2" if "recv_content hp1 = Some (x, hp2)" "http_mem hp1" for x hp1 hp2
    using that
    by (auto simp: recv_content_def recv_empty_def recv_range_def recv_length_def recv_position_def http_mem_def http_owned_def
        ext_sized_def Let_def dest!: bind_eq_SomeD split: if_splits)
  from assms(1) s d f show ?thesis
    by (auto simp: http_download_proc_recv_def Let_def dest!: bind_eq_SomeD split: if_splits option.splits) (metis r c)+
qed

lemma push_keeps: "http_download_proc_push_data mal s = Some (e, s') \<Longrightarrow> http_mem (fst s') = http_mem (fst s)"
  by (auto simp: http_download_proc_push_data_def monitor_def http_mem_def http_owned_def Let_def dest!: bind_eq_SomeD
      split: prod.splits if_splits)


lemma conn_action_inv:
  assumes "http_download_proc_conn_action mal s = Some (st, s')" "http_owned (fst s)"
    "st0 \<in> {HTTP_DOWNLOAD_STA_IDLE, HTTP_DOWNLOAD_STA_PAUSE, HTTP_DOWNLOAD_STA_RECV, HTTP_DOWNLOAD_STA_WAIT_FREE,
           HTTP_DOWNLOAD_STA_WAIT_RANGE}" "st0 = HTTP_DOWNLOAD_STA_IDLE \<or> hp_linked (fst s)"
  shows "http_inv (if st = COM_FSM_HOLD_STATE then st0 else st) s'"
proof -
  from assms(1) obtain e s1 where c: "http_download_proc_conn mal s = Some (e, s1)"
    "(st, s') = (if e = HTTP_DOWNLOAD_PROC_SUCCESS then (HTTP_DOWNLOAD_STA_RECV, set_last_error e s1)
       else if e = HTTP_DOWNLOAD_PROC_ERR_TRY_CONN \<or> e = HTTP_DOWNLOAD_PROC_ERR_PARAM
       then (HTTP_DOWNLOAD_STA_IDLE, http_download_proc_stop (set_last_error e s1))
       else (COM_FSM_HOLD_STATE, http_download_proc_close_client (set_last_error e s1)))"
    by (auto simp: http_download_proc_conn_action_def Let_def dest!: bind_eq_SomeD)
  note k = conn_keeps [OF c(1) assms(2)]
  have m: "http_owned (fst (set_last_error e s1)) = http_owned (fst s1)" "hp_linked (fst (set_last_error e s1)) = hp_linked (fst s1)"
    "http_mem (fst (set_last_error e s1)) = http_mem (fst s1)"
    by (simp_all add: set_last_error_def http_owned_def http_mem_def)
  consider "e = HTTP_DOWNLOAD_PROC_SUCCESS" | "e = HTTP_DOWNLOAD_PROC_ERR_TRY_CONN \<or> e = HTTP_DOWNLOAD_PROC_ERR_PARAM"
    | "e \<noteq> HTTP_DOWNLOAD_PROC_SUCCESS" "\<not> (e = HTTP_DOWNLOAD_PROC_ERR_TRY_CONN \<or> e = HTTP_DOWNLOAD_PROC_ERR_PARAM)" by blast
  then show ?thesis
  proof cases
    case 1
    with c(2) k m show ?thesis by (simp add: http_inv_def http_states fsm_consts)
  next
    case 2
    with c(2) show ?thesis by (auto simp: http_inv_def http_states fsm_consts)
  next
    case 3
    with c(2) have s': "s' = http_download_proc_close_client (set_last_error e s1)" "st = COM_FSM_HOLD_STATE" by simp_all
    have "hp_linked (fst s) \<Longrightarrow> http_mem (fst s')" using k m s'(1) by (simp add: http_mem_def close_client_keeps)
    with assms(3,4) s' show ?thesis by (auto simp: http_inv_def http_states)
  qed
qed

lemma push_action_inv:
  assumes "http_download_proc_push_action mal s = Some (st, s')" "http_mem (fst s)"
  shows "st \<noteq> COM_FSM_HOLD_STATE \<and> http_inv st s'"
proof -
  from assms(1) obtain e s1 where c: "http_download_proc_push_data mal s = Some (e, s1)"
    "(st, s') = (let s = set_last_error e s1 in
       if e = HTTP_DOWNLOAD_PROC_SUCCESS then (HTTP_DOWNLOAD_STA_RECV, s)
       else if e = HTTP_DOWNLOAD_PROC_ERR_BUF_TOO_SMALL then (HTTP_DOWNLOAD_STA_WAIT_FREE, s)
       else if e = HTTP_DOWNLOAD_PROC_RANGE_END
       then (HTTP_DOWNLOAD_STA_WAIT_RANGE, if hp_close_range (fst s) then http_download_proc_close_client s else s)
       else (HTTP_DOWNLOAD_STA_IDLE, http_download_proc_stop s))"
    by (auto simp: http_download_proc_push_action_def Let_def dest!: bind_eq_SomeD)
  have m: "http_mem (fst (set_last_error e s1))"
    using push_keeps [OF c(1)] assms(2) by (simp add: set_last_error_def http_owned_def http_mem_def)
  then have "http_mem (fst (http_download_proc_close_client (set_last_error e s1)))"
    by (simp add: http_mem_def close_client_keeps)
  with c(2) m show ?thesis
    by (auto simp: http_inv_def http_states fsm_consts Let_def split: if_splits)
qed

lemma if_chain_4:
  "(if a then x1 else if b then x2 else if c then x3 else x4) = y \<Longrightarrow> x1 = y \<or> x2 = y \<or> x3 = y \<or> x4 = y"
  by (simp split: if_splits)

lemma recv_poll_inv:
  assumes "http_download_proc_recv_poll mal s = Some (st, s')" "http_mem (fst s)"
  shows "http_inv (if st = COM_FSM_HOLD_STATE then HTTP_DOWNLOAD_STA_RECV else st) s'"
proof -
  from assms(1) obtain e s1 where c: "http_download_proc_recv mal s = Some (e, s1)"
    "(let s = set_last_error e s1 in
       if e = HTTP_DOWNLOAD_PROC_SUCCESS then http_download_proc_push_action mal s
       else if e = HTTP_DOWNLOAD_PROC_ERR_RECV_SKIP then Some (COM_FSM_HOLD_STATE, s)
       else if e = HTTP_DOWNLOAD_PROC_ERR_RECV \<or> e = HTTP_DOWNLOAD_PROC_REDIRECT
       then http_download_proc_conn_action mal (http_download_proc_close_client s)
       else Some (HTTP_DOWNLOAD_STA_IDLE, http_download_proc_stop s)) = Some (st, s')"
    by (auto simp: http_download_proc_recv_poll_def dest!: bind_eq_SomeD)
  let ?s = "set_last_error e s1"
  have m: "http_mem (fst ?s)"
    using recv_keeps [OF c(1) assms(2)] by (simp add: set_last_error_def http_owned_def http_mem_def)
  then have cl: "http_owned (fst (http_download_proc_close_client ?s))" "hp_linked (fst (http_download_proc_close_client ?s))"
    by (simp_all add: http_mem_def close_client_keeps)
  consider "http_download_proc_push_action mal ?s = Some (st, s')"
    | "Some (COM_FSM_HOLD_STATE, ?s) = Some (st, s')"
    | "http_download_proc_conn_action mal (http_download_proc_close_client ?s) = Some (st, s')"
    | "Some (HTTP_DOWNLOAD_STA_IDLE, http_download_proc_stop ?s) = Some (st, s')"
    using if_chain_4 [OF c(2) [unfolded Let_def]] by blast
  then show ?thesis
  proof cases
    case 1
    from push_action_inv [OF 1 m] show ?thesis by auto
  next
    case 3
    from conn_action_inv [OF 3 cl(1), of HTTP_DOWNLOAD_STA_RECV] cl(2) show ?thesis by (simp add: http_states)
  qed (use m in \<open>auto simp: http_inv_def http_states fsm_consts\<close>)
qed

lemma start_owned:
  "http_download_proc_start mal s = (HTTP_DOWNLOAD_PROC_SUCCESS, s') \<Longrightarrow> http_owned (fst s')"
  by (auto simp: http_download_proc_start_def http_owned_def ext_sized_def http_data_ext_zero_def Let_def
      split: prod.splits if_splits)

lemma start_action_inv:
  assumes "http_download_proc_start_action mal s = Some (st, s')"
  shows "http_inv (if st = COM_FSM_HOLD_STATE then HTTP_DOWNLOAD_STA_IDLE else st) s'"
proof -
  obtain e s1 where e: "http_download_proc_start mal s = (e, s1)" by (cases "http_download_proc_start mal s")
  show ?thesis
  proof (cases "e = HTTP_DOWNLOAD_PROC_SUCCESS")
    case True
    with e start_owned have o: "http_owned (fst (set_last_error e s1))"
      by (auto simp: set_last_error_def http_owned_def)
    from assms e True have "http_download_proc_conn_action mal (set_last_error e s1) = Some (st, s')"
      by (simp add: http_download_proc_start_action_def)
    from conn_action_inv [OF this o, of HTTP_DOWNLOAD_STA_IDLE] show ?thesis by (simp add: http_states)
  next
    case False
    with assms e show ?thesis
      by (auto simp: http_download_proc_start_action_def http_inv_def http_states)
  qed
qed

lemma http_step_inv:
  assumes "http_inv st0 s" "(ev, st0, a) \<in> set (map row_key http_lookup)" "http_run mal a s = Some (st, s')"
  shows "http_inv (if st = COM_FSM_HOLD_STATE then st0 else st) s'"
proof -
  have mem: "http_mem (fst s)" if "st0 \<noteq> HTTP_DOWNLOAD_STA_IDLE" using assms(1) that by (simp add: http_inv_def)
  from assms(2) consider "a = Http_Start" "st0 = HTTP_DOWNLOAD_STA_IDLE" | "a = Http_Stop"
    | "a = Http_Pause" "st0 \<noteq> HTTP_DOWNLOAD_STA_IDLE" | "a = Http_Conn" "st0 \<noteq> HTTP_DOWNLOAD_STA_IDLE"
    | "a = Http_Recv_Poll" "st0 = HTTP_DOWNLOAD_STA_RECV" | "a = Http_Wait_Free_Poll" "st0 = HTTP_DOWNLOAD_STA_WAIT_FREE"
    | "a = Http_Wait_Range_Poll" "st0 = HTTP_DOWNLOAD_STA_WAIT_RANGE"
    by (auto simp: http_lookup_def row_key_def http_states)
  then show ?thesis
  proof cases
    case 1
    from 1 assms(3) have "http_download_proc_start_action mal s = Some (st, s')" by (simp add: http_run_def)
    from start_action_inv [OF this] show ?thesis unfolding 1(2) .
  next
    case 2
    with assms(3) show ?thesis
      by (auto simp: http_run_def http_download_proc_stop_action_def http_inv_def http_states fsm_consts)
  next
    case 3
    with assms(3) mem show ?thesis
      by (auto simp: http_run_def http_download_proc_pause_action_def http_inv_def http_mem_def http_states fsm_consts)
  next
    case 4
    from 4 assms(3) have "http_download_proc_conn_action mal s = Some (st, s')" by (simp add: http_run_def)
    moreover have "http_owned (fst s)" "hp_linked (fst s)" using mem 4 by (simp_all add: http_mem_def)
    ultimately show ?thesis using assms(1) by (intro conn_action_inv) (auto simp: http_inv_def)
  next
    case 5
    from 5 assms(3) have "http_download_proc_recv_poll mal s = Some (st, s')" by (simp add: http_run_def)
    moreover have "http_mem (fst s)" using mem 5 by (simp add: http_states)
    ultimately show ?thesis unfolding 5(2) by (rule recv_poll_inv)
  next
    case 6
    with mem have m: "http_mem (fst (set_last_error e s))" for e
      by (simp add: http_states set_last_error_def http_mem_def http_owned_def)
    from 6 assms(3) obtain e where "(if e = HTTP_DOWNLOAD_PROC_SUCCESS
        then http_download_proc_push_action mal (set_last_error e s)
        else Some (COM_FSM_HOLD_STATE, set_last_error e s)) = Some (st, s')"
      by (auto simp: http_run_def http_download_proc_wait_free_poll_def Let_def dest!: bind_eq_SomeD)
    with push_action_inv [OF _ m, of mal e st s'] m [of e] 6 show ?thesis
      by (auto simp: http_inv_def http_states fsm_consts split: if_splits)
  next
    case 7
    with mem have m: "http_mem (fst (set_last_error e s))" for e
      by (simp add: http_states set_last_error_def http_mem_def http_owned_def)
    from 7 assms(3) obtain e where e: "(if e = HTTP_DOWNLOAD_PROC_SUCCESS
        then http_download_proc_conn_action mal (set_last_error e s)
        else Some (COM_FSM_HOLD_STATE, set_last_error e s)) = Some (st, s')"
      by (auto simp: http_run_def http_download_proc_wait_range_poll_def Let_def dest!: bind_eq_SomeD)
    show ?thesis
    proof (cases "e = HTTP_DOWNLOAD_PROC_SUCCESS")
      case True
      with e m [of e] assms(1) show ?thesis
        by (intro conn_action_inv [of mal "set_last_error e s"]) (auto simp: http_inv_def http_mem_def)
    next
      case False
      with e have "st = COM_FSM_HOLD_STATE" "s' = set_last_error e s" by simp_all
      with m [of e] 7 show ?thesis by (simp add: http_inv_def http_states)
    qed
  qed
qed

text \<open>What the callers of the interface write while the task runs leaves the objects alone.\<close>

definition http_api :: "http_state \<Rightarrow> http_state \<Rightarrow> bool" where
  "http_api s s' \<longleftrightarrow> hp_recv_buf (fst s') = hp_recv_buf (fst s) \<and> hp_ext (fst s') = hp_ext (fst s) \<and>
     hp_linked (fst s') = hp_linked (fst s) \<and> hp_opened (fst s') = hp_opened (fst s)"

lemma interface_api:
  "http_api (hp, w) (note_stop hp, w)"
  "http_api (hp, w) (note_start url re seek handle hp, w)"
  by (simp_all add: http_api_def note_stop_def note_start_def)

interpretation http: fsm_safe "http_exec mal" "map row_key http_lookup" http_api http_inv
proof unfold_locales
  fix f f' and u u' :: http_state and ev a st
  assume "http_inv (cur_state f) u" "(ev, cur_state f, a) \<in> set (map row_key http_lookup)"
    "http_exec mal a (f, u) = Some (st, f', u')"
  moreover from this(3) have "f' = f" "http_run mal a u = Some (st, u')"
    by (auto simp: http_exec_def dest!: bind_eq_SomeD)
  ultimately show "same_machine f f' \<and> http_inv (if st = COM_FSM_HOLD_STATE then cur_state f else st) u'"
    using http_step_inv by simp
next
  fix st and u u' :: http_state
  assume "http_inv st u" "http_api u u'"
  then show "http_inv st u'" by (auto simp: http_inv_def http_api_def http_mem_def http_owned_def)
qed

section \<open>A failed connection\<close>

text \<open>After a start whose connection fails the machine stays idle, with its objects; the idle state has
  no row but that of the start event, so nothing tries again and a stop does not free them.\<close>

lemma start_not_retried:
  assumes "http_download_proc_start mal s = (HTTP_DOWNLOAD_PROC_SUCCESS, s1)"
    "http_download_proc_conn mal (set_last_error HTTP_DOWNLOAD_PROC_SUCCESS s1) = Some (e, s2)"
    "e \<noteq> HTTP_DOWNLOAD_PROC_SUCCESS" "e \<noteq> HTTP_DOWNLOAD_PROC_ERR_TRY_CONN" "e \<noteq> HTTP_DOWNLOAD_PROC_ERR_PARAM"
  shows "\<exists>s'. http_download_proc_start_action mal s = Some (COM_FSM_HOLD_STATE, s') \<and> http_owned (fst s') \<and>
    hp_last_error (fst s') = e"
proof -
  have "http_owned (fst (set_last_error HTTP_DOWNLOAD_PROC_SUCCESS s1))"
    using start_owned [OF assms(1)] by (simp add: set_last_error_def http_owned_def)
  from conn_keeps [OF assms(2) this] have "http_owned (fst (set_last_error e s2))"
    by (simp add: set_last_error_def http_owned_def)
  then have "http_owned (fst (http_download_proc_close_client (set_last_error e s2)))" by (simp add: close_client_keeps)
  moreover have "hp_last_error (fst (http_download_proc_close_client (set_last_error e s2))) = e"
    by (auto simp: http_download_proc_close_client_def set_last_error_def Let_def split: prod.splits)
  ultimately show ?thesis using assms
    by (simp add: http_download_proc_start_action_def http_download_proc_conn_action_def Let_def)
qed

lemma idle_rows:
  "com_fsm_get_lookup http_lookup HTTP_DOWNLOAD_STA_IDLE events =
     (if events AND HTTP_DOWNLOAD_EVENT_START = HTTP_DOWNLOAD_EVENT_START then Some 0 else None)"
  by (auto simp: http_lookup_def lookup_match_def http_states http_events fsm_consts)

section \<open>Delivery to the shared buffer\<close>

text \<open>The part of the received block that is still to be pushed.\<close>

definition pending :: "http_download_proc \<Rightarrow> u8 list" where
  "pending hp = (case hp_recv_buf hp of None \<Rightarrow> []
     | Some m \<Rightarrow> take (nat (hp_recv_len hp - hp_read_pos hp)) (drop (nat (hp_read_pos hp)) m))"

definition block_ok :: "http_download_proc \<Rightarrow> bool" where
  "block_ok hp \<longleftrightarrow> http_owned hp \<and> hp_buffer hp \<and> 0 \<le> hp_read_pos hp \<and> hp_read_pos hp \<le> hp_recv_len hp \<and>
     hp_recv_len hp \<le> 2049 \<and> 0 \<le> hp_pre_pos hp \<and> hp_pre_pos hp < 2147000000 \<and> 0 \<le> hp_cur_pos hp \<and> hp_cur_pos hp < 2147000000"

lemma monitor_keeps [simp]:
  "hp_pre_pos (fst (monitor hp net)) = hp_pre_pos hp" "hp_read_pos (fst (monitor hp net)) = hp_read_pos hp"
  "hp_recv_len (fst (monitor hp net)) = hp_recv_len hp" "hp_ext (fst (monitor hp net)) = hp_ext hp"
  "hp_cur_pos (fst (monitor hp net)) = hp_cur_pos hp" "hp_buffer (fst (monitor hp net)) = hp_buffer hp"
  "hp_recv_buf (fst (monitor hp net)) = hp_recv_buf hp" "hp_http_ret (fst (monitor hp net)) = hp_http_ret hp"
  "hp_total_length (fst (monitor hp net)) = hp_total_length hp"
  "hp_is_chunked (fst (monitor hp net)) = hp_is_chunked hp" "hp_range_end (fst (monitor hp net)) = hp_range_end hp"
  by (simp_all add: monitor_def Let_def)

lemma push_data_delivers:
  assumes "allocator_ok mal" "common_wf cb" "block_ok hp"
  shows "\<exists>r hp' k' cb' net' n e. http_download_proc_push_data mal (hp, k, cb, net) = Some (r, hp', k', cb', net') \<and>
    common_wf cb' \<and> common_cap cb' = common_cap cb \<and> hp_ext hp = Some e \<and>
    common_contents cb' = common_contents cb @ take n (pending hp) \<and>
    (if common_cap cb < length (common_contents cb) + length (pending hp)
     then r = HTTP_DOWNLOAD_PROC_ERR_BUF_TOO_SMALL \<and> hp' = hp \<and> cb' = cb \<and> n = 0
     else (n = length (pending hp) \<or> (\<exists>i m. mal i m = None)) \<and> pending hp' = [] \<and>
       hp_pre_pos hp' = hp_pre_pos hp + int (length (pending hp)) \<and> r = push_verdict hp' (ex_is_range e))"
proof -
  from assms(3) obtain m e where m: "hp_recv_buf hp = Some m" "length m = 2049" "hp_ext hp = Some e"
    by (auto simp: block_ok_def http_owned_def)
  let ?len = "hp_recv_len hp - hp_read_pos hp"
  have len: "0 \<le> ?len" "?len \<le> 2049" "hp_read_pos hp + ?len \<le> 2049" using assms(3) by (auto simp: block_ok_def)
  have p: "pending hp = take (nat ?len) (drop (nat (hp_read_pos hp)) m)" using m by (simp add: pending_def)
  have lp: "int (length (pending hp)) = ?len" using assms(3) m len by (simp add: p block_ok_def min_def) arith
  have sz: "unat (u32_of_int ?len) = length (pending hp)"
  proof -
    have "uint (u32_of_int ?len) = ?len" using len by (intro uint_u32_of_int) auto
    with lp show ?thesis by (simp flip: nat_uint_eq)
  qed
  have rd: "mem_read m (hp_read_pos hp) ?len = Some (pending hp)"
    using assms(3) len m by (simp add: p mem_read_ok block_ok_def)
  have ci: "c_int ?len = Some ?len" "c_int (hp_pre_pos hp + ?len) = Some (hp_pre_pos hp + ?len)"
    "c_int (hp_cur_pos hp + ?len) = Some (hp_cur_pos hp + ?len)"
    using assms(3) len by (auto simp: block_ok_def c_arith)
  have fr: "(int (common_cap cb) - int (length (common_contents cb)) < ?len) =
    (common_cap cb < length (common_contents cb) + length (pending hp))" using lp by linarith
  note free = common_get_free_count [OF assms(2)]
  have buf: "hp_buffer hp" using assms(3) by (simp add: block_ok_def)
  show ?thesis
  proof (cases "common_cap cb < length (common_contents cb) + length (pending hp)")
    case True
    then have "http_download_proc_push_data mal (hp, k, cb, net) = Some (HTTP_DOWNLOAD_PROC_ERR_BUF_TOO_SMALL, hp, k, cb, net)"
      using free fr ci buf by (simp add: http_download_proc_push_data_def)
    with True assms(2) m show ?thesis by (intro exI [of _ 0] exI) auto
  next
    case False
    from common_push [OF assms(1,2), of "u32_of_int ?len" "pending hp" k] False
    obtain ret k' cb' n where c: "common_buffer_push mal k cb (pending hp) (u32_of_int ?len) = Some (ret, k', cb')"
      "common_wf cb'" "common_cap cb' = common_cap cb" "common_contents cb' = common_contents cb @ take n (pending hp)"
      "n = length (pending hp) \<or> (\<exists>i m. mal i m = None)" unfolding sz by (auto split: if_splits) metis
    let ?mn = "monitor (hp\<lparr>hp_pre_pos := hp_pre_pos hp + ?len, hp_cur_pos := hp_cur_pos hp + ?len,
      hp_read_pos := hp_read_pos hp + ?len\<rparr>) net"
    have "http_download_proc_push_data mal (hp, k, cb, net) =
        Some (push_verdict (fst ?mn) (ex_is_range e), fst ?mn, k', cb', snd ?mn)"
      using False free fr ci buf m rd c(1) by (simp add: http_download_proc_push_data_def Let_def)
    moreover have "pending (fst ?mn) = []" by (simp add: pending_def split: option.split)
    ultimately show ?thesis using False c m lp by (intro exI [of _ n] exI) auto
  qed
qed


lemma push_data_room:
  assumes "allocator_ok mal" "common_wf cb" "block_ok hp" "length (common_contents cb) + length (pending hp) \<le> common_cap cb"
  shows "\<exists>r hp' k' cb' net' n. http_download_proc_push_data mal (hp, k, cb, net) = Some (r, hp', k', cb', net') \<and>
    common_wf cb' \<and> common_contents cb' = common_contents cb @ take n (pending hp) \<and>
    (n = length (pending hp) \<or> (\<exists>i m. mal i m = None)) \<and> hp_pre_pos hp' = hp_pre_pos hp + int (length (pending hp))"
proof -
  have "\<not> common_cap cb < length (common_contents cb) + length (pending hp)" using assms(4) by simp
  with push_data_delivers [OF assms(1-3), of k net] show ?thesis by (simp only: if_False) blast
qed

lemma stop_keeps_buffer [simp]:
  "fst (snd (snd (http_download_proc_close_client s))) = fst (snd (snd s))"
  "hp_pre_pos (fst (http_download_proc_close_client s)) = hp_pre_pos (fst s)"
  "fst (snd (snd (http_download_proc_stop s))) = fst (snd (snd s))"
  "hp_pre_pos (fst (http_download_proc_stop s)) = hp_pre_pos (fst s)"
  by (auto simp: http_download_proc_stop_def http_download_proc_close_client_def Let_def split: prod.splits)

lemma push_action_keeps:
  assumes "http_download_proc_push_data mal s = Some (v, hp', k', cb', net')"
  shows "\<exists>st s'. http_download_proc_push_action mal s = Some (st, s') \<and> fst (snd (snd s')) = cb' \<and>
    hp_pre_pos (fst s') = hp_pre_pos hp'"
  using assms by (auto simp: http_download_proc_push_action_def set_last_error_def Let_def simp del: split_paired_Ex)

text \<open>One poll in the middle of a content of known length: the next 2048 bytes of the content go to the
  shared buffer, behind what waits there. The response was read before; \<open>e\<close> is what its header
  said.\<close>

lemma recv_poll_delivers:
  assumes "allocator_ok mal" "common_wf cb" "linked_data hp = Some d" "hp_buffer hp" "data_ok d" "data_sized 2049 d"
    "hd_is_more d" "hd_response_buf_len d = 2049" "0 \<le> hc_socket (hp_client hp)" "hc_is_http (hp_client hp)"
    "\<not> hd_is_chunked d" "0 < hd_response_content_len d" "0 \<le> hd_retrieve_len d" "hd_retrieve_len d \<le> INT_MAX"
    "httpclient_recv_response (hp_client hp) d net = Some (HTTPCLIENT_RETRIEVE_MORE_DATA, client, d', net')"
    "hp_redirect hp" "hp_length_received hp" "hd_ext d' = Some e" "hp_range_enable hp \<longrightarrow> ex_is_range e"
    "hp_cur_pos hp = hp_pre_pos hp" "0 \<le> hp_pre_pos hp" "hp_pre_pos hp < 2147000000"
    "length (common_contents cb) + 2048 \<le> common_cap cb"
  shows "\<exists>st hp' k' cb' net'' n. http_download_proc_recv_poll mal (hp, k, cb, net) = Some (st, hp', k', cb', net'') \<and>
    common_wf cb' \<and> (n = 2048 \<or> (\<exists>i m. mal i m = None)) \<and>
    common_contents cb' = common_contents cb @ take n (take 2048 (held [] d @ net_bytes net)) \<and>
    hp_pre_pos hp' = hp_pre_pos hp + 2048"
proof -
  from recv_response_more [OF assms(7,5,9,10,11) _ assms(13,14), of net] assms(12,15)
  have cp: "content_post d (held [] d @ net_bytes net) (HTTPCLIENT_RETRIEVE_MORE_DATA, d', net')" by auto
  then have b: "take 2048 (hd_response_buf d') = take 2048 (held [] d @ net_bytes net)"
    "\<not> hd_is_chunked d'" "hd_response_content_len d' = hd_response_content_len d"
    using assms(8) by (auto simp: content_post_def Let_def http_codes)
  have sz: "data_sized 2049 d'" by (rule recv_response_sized [OF assms(15,6)])
  let ?g = "store_data d' (hp\<lparr>hp_client := client, hp_http_ret := HTTPCLIENT_RETRIEVE_MORE_DATA\<rparr>)"
  let ?e = "if hp_range_enable hp then e else e\<lparr>ex_is_range := False\<rparr>"
  let ?h = "?g\<lparr>hp_ext := Some ?e, hp_recv_len := 2048, hp_read_pos := 0\<rparr>"
  have c: "recv_content ?g = Some (HTTP_DOWNLOAD_PROC_SUCCESS, ?h)"
    using assms b by (auto simp: recv_content_def recv_range_def recv_length_def recv_position_def store_data_def
        HTTP_DOWNLOAD_RECV_BUF_SIZE_def c_arith)
  have r: "http_download_proc_recv mal (hp, k, cb, net) = Some (HTTP_DOWNLOAD_PROC_SUCCESS, ?h, k, cb, net')"
  proof -
    have "recv_redirect mal k ?g = Some (None, k, ?g)" using assms(16) by (simp add: recv_redirect_def store_data_def)
    moreover have "\<not> HTTPCLIENT_RETRIEVE_MORE_DATA < 0" by (simp add: http_codes)
    ultimately show ?thesis using assms(3,15) c unfolding http_download_proc_recv_def by (simp add: Let_def)
  qed
  let ?hs = "?h\<lparr>hp_last_error := HTTP_DOWNLOAD_PROC_SUCCESS\<rparr>"
  have bo: "block_ok ?hs" using sz assms by (auto simp: block_ok_def http_owned_def store_data_def data_sized_def ext_sized_def)
  have pe: "pending ?hs = take 2048 (held [] d @ net_bytes net)" by (simp add: pending_def store_data_def b(1))
  have lp: "length (pending ?hs) = 2048" using sz assms(8) cp
    by (auto simp: pending_def store_data_def data_sized_def)
  have room: "length (common_contents cb) + length (pending ?hs) \<le> common_cap cb" using assms(23) lp by simp
  obtain v hp' k' cb' n2 n where p: "http_download_proc_push_data mal (?hs, k, cb, net') = Some (v, hp', k', cb', n2)"
    "common_wf cb'" "common_contents cb' = common_contents cb @ take n (pending ?hs)"
    "n = length (pending ?hs) \<or> (\<exists>i m. mal i m = None)" "hp_pre_pos hp' = hp_pre_pos ?hs + int (length (pending ?hs))"
    using push_data_room [OF assms(1,2) bo room, of k net'] by (elim exE conjE) (rule that)
  obtain st s' where a: "http_download_proc_push_action mal (?hs, k, cb, net') = Some (st, s')"
    "fst (snd (snd s')) = cb'" "hp_pre_pos (fst s') = hp_pre_pos hp'"
    using push_action_keeps [OF p(1)] by (elim exE conjE) (rule that)
  have poll: "http_download_proc_recv_poll mal (hp, k, cb, net) = Some (st, s')"
    using r a(1) by (simp add: http_download_proc_recv_poll_def set_last_error_def)
  obtain hp2 k2 cb2 n3 where s': "s' = (hp2, k2, cb2, n3)" by (cases s')
  with a have a': "cb2 = cb'" "hp_pre_pos hp2 = hp_pre_pos hp'" by simp_all
  have "hp_pre_pos hp2 = hp_pre_pos hp + 2048" using a'(2) p(5) lp by (simp add: store_data_def)
  moreover have "common_wf cb2" "n = 2048 \<or> (\<exists>i m. mal i m = None)"
    "common_contents cb2 = common_contents cb @ take n (take 2048 (held [] d @ net_bytes net))"
    using p(2,4) p(3) [unfolded pe] lp a'(1) by simp_all
  ultimately show ?thesis using poll [unfolded s'] by blast
qed

end
