(* ===== verification/Os_Layer.thy ===== *)
theory Os_Layer
  imports C_String Common_Event
begin

text \<open>
  The operating system layer of os/typedefs.c: the tick count, the mutex behind the semaphore names
  and the file functions over stdio. The two readings of the clock, the memory of the allocator and
  the contents of files are parameters. The log lines of utils/log_print.c and the report of the
  process's memory are texts that the definitions give. The lemmas show that ticks measure time, that a
  wait of the mutex has the deadline of an event wait, and that a file is read as a cursor over its
  contents.
\<close>

section \<open>Ticks\<close>

text \<open>The static \<open>init_time\<close> and one reading of the clock: \<open>tv_sec\<close> and
  \<open>tv_usec\<close> are of type \<open>long\<close>.\<close>

definition xTaskGetTickCount :: "u32 \<Rightarrow> int \<Rightarrow> int \<Rightarrow> u32 \<times> u32" where
  "xTaskGetTickCount init_time tv_sec tv_usec =
     (let cur_time = u32_of_int (tv_sec * 1000 + tv_usec div 1000);
          init_time = (if init_time = 0 then cur_time else init_time)
      in (cur_time - init_time, init_time))"

lemma tick_difference:
  assumes "xTaskGetTickCount i s us = (t, i')" "xTaskGetTickCount i' s' us' = (t', i'')"
    "i' \<noteq> 0" "0 \<le> us" "us < 1000000" "0 \<le> us'" "us' < 1000000"
  shows "t' - t = u32_of_int ((s' * 1000 + us' div 1000) - (s * 1000 + us div 1000))"
  using assms by (auto simp: xTaskGetTickCount_def Let_def u32_of_int_def split: if_splits)

text \<open>The first reading is zero.\<close>

lemma tick_first: "fst (xTaskGetTickCount 0 s us) = 0"
  by (simp add: xTaskGetTickCount_def Let_def)

section \<open>The mutex\<close>

definition pdTRUE :: int where "pdTRUE = 1"
definition pdFALSE :: int where "pdFALSE = 0"

text \<open>A mutex is whether it is held. The size of \<open>pthread_mutex_t\<close> is 40 bytes.\<close>

definition xSemaphoreCreateMutex :: "allocator \<Rightarrow> nat \<Rightarrow> bool option" where
  "xSemaphoreCreateMutex mal k = map_option (\<lambda>_. False) (mal k 40)"

text \<open>\<open>released\<close> is whether the holder gives the mutex back before the deadline, or at all
  when there is none: \<open>None\<close> when the caller never gets it.\<close>

definition xSemaphoreTake :: "bool \<Rightarrow> u32 \<Rightarrow> bool \<Rightarrow> (int \<times> bool) option" where
  "xSemaphoreTake held timeout released =
     (if timeout = 0xFFFFFFFF
      then (if held \<and> \<not> released then None else Some (pdTRUE, True))
      else if held \<and> \<not> released then Some (pdFALSE, held) else Some (pdTRUE, True))"

definition semaphore_deadline :: "int \<Rightarrow> int \<Rightarrow> u32 \<Rightarrow> int \<times> int" where
  "semaphore_deadline tv_sec tv_usec timeout =
     (let sec = tv_sec + uint (timeout div 1000);
          usec = tv_usec + uint ((timeout mod 1000) * 1000);
          sec = sec + usec div 1000000;
          usec = usec mod 1000000
      in (sec, usec * 1000))"

definition xSemaphoreGive :: "bool \<Rightarrow> int \<times> bool" where
  "xSemaphoreGive held = (pdTRUE, False)"

lemma semaphore_deadline_event: "semaphore_deadline = event_deadline"
  by (intro ext) (simp add: semaphore_deadline_def event_deadline_def Let_def)

section \<open>Files\<close>

text \<open>An open file: its bytes and the position. The file system gives the contents of a path;
  writing to a new file starts empty. A handle of \<open>None\<close> is the NULL pointer, which no stdio
  function takes.\<close>

record c_file =
  fl_data :: "u8 list"
  fl_pos :: int

type_synonym file_system = "u8 list \<Rightarrow> u8 list option"

definition FA_OPEN_EXISTING :: u32 where "FA_OPEN_EXISTING = 0x01"
definition FA_WRITE :: u32 where "FA_WRITE = 0x02"
definition FA_READ :: u32 where "FA_READ = 0x04"

definition f_open :: "file_system \<Rightarrow> c_file option \<Rightarrow> u8 list \<Rightarrow> u32 \<Rightarrow> int \<times> c_file option" where
  "f_open fs file path mode =
     (case (if FA_READ AND mode \<noteq> 0 then fs path else Some []) of
        None \<Rightarrow> (-1, file)
      | Some d \<Rightarrow> (0, Some \<lparr>fl_data = d, fl_pos = 0\<rparr>))"

definition f_close :: "c_file option \<Rightarrow> int \<times> c_file option" where
  "f_close file = (if file = None then (-1, None) else (0, None))"

text \<open>\<open>fread\<close> never gives a negative count for the sizes an \<open>int\<close> can have.\<close>

definition f_read :: "c_file option \<Rightarrow> int \<Rightarrow> (int \<times> u8 list \<times> c_file option) option" where
  "f_read file n = do {
     f \<leftarrow> file;
     if n < 0 then None
     else (let bytes = take (nat n) (drop (nat (fl_pos f)) (fl_data f))
           in Some (0, bytes, Some (f\<lparr>fl_pos := fl_pos f + int (length bytes)\<rparr>))) }"

text \<open>A write past the end fills the gap with zeros.\<close>

definition f_write :: "c_file option \<Rightarrow> u8 list \<Rightarrow> (int \<times> int \<times> c_file option) option" where
  "f_write file bytes = do {
     f \<leftarrow> file;
     let p = nat (fl_pos f);
     let d = fl_data f @ replicate (p - length (fl_data f)) 0;
     Some (0, int (length bytes),
       Some (f\<lparr>fl_data := take p d @ bytes @ drop (p + length bytes) d,
               fl_pos := fl_pos f + int (length bytes)\<rparr>)) }"

definition f_lseek :: "c_file option \<Rightarrow> int \<Rightarrow> (int \<times> c_file option) option" where
  "f_lseek file offset = do {
     f \<leftarrow> file;
     Some (if offset < 0 then (-1, Some f) else (0, Some (f\<lparr>fl_pos := offset\<rparr>))) }"

definition f_size :: "c_file option \<Rightarrow> (int \<times> c_file option) option" where
  "f_size file = do {
     f \<leftarrow> file;
     Some (int_of_u32 (u32_of_int (int (length (fl_data f)))), Some f) }"

lemma f_read_write:
  assumes "0 \<le> fl_pos f" "f_write (Some f) bytes = Some (r, n, Some g)"
  shows "f_read (Some (g\<lparr>fl_pos := fl_pos f\<rparr>)) n = Some (0, bytes, Some g)"
proof -
  let ?p = "nat (fl_pos f)"
  let ?d = "fl_data f @ replicate (?p - length (fl_data f)) 0"
  have "length (take ?p ?d) = ?p" by simp
  then have "drop ?p (take ?p ?d @ bytes @ x) = bytes @ x" for x by (metis append_eq_conv_conj)
  moreover have g: "fl_data g = take ?p ?d @ bytes @ drop (?p + length bytes) ?d" "n = int (length bytes)"
    "fl_pos g = fl_pos f + int (length bytes)"
    using assms(2) by (auto simp: f_write_def Let_def)
  ultimately have "take (nat n) (drop ?p (fl_data g)) = bytes" by simp
  then show ?thesis using g(2,3) by (cases g) (simp add: f_read_def Let_def del: length_take)
qed

section \<open>Device identity\<close>

definition device_mac_addr :: "u8 list" where "device_mac_addr = [0x70, 0x4F, 0x08, 0x00, 0x00, 0xB0]"

definition hex_digit :: "nat \<Rightarrow> u8" where
  "hex_digit d = (if d < 10 then 48 + of_nat d else 55 + of_nat d)"

definition show_hex :: "u8 \<Rightarrow> u8 list" where
  "show_hex b = [hex_digit (unat b div 16), hex_digit (unat b mod 16)]"

fun mac_text :: "u8 list \<Rightarrow> u8 list" where
  "mac_text [] = []"
| "mac_text [b] = show_hex b"
| "mac_text (b # bs) = show_hex b @ lit '':'' @ mac_text bs"

text \<open>The caller's array (or NULL) and its size: the result is the number of bytes copied.\<close>

definition get_STA_MACAddr :: "u8 list option \<Rightarrow> u8 \<Rightarrow> (int \<times> u8 list option) option" where
  "get_STA_MACAddr addr sz =
     (case addr of
        None \<Rightarrow> Some (-1, None)
      | Some m \<Rightarrow> if sz = 0 then Some (-1, Some m)
          else do {
            let n = min (unat sz) 18;
            m \<leftarrow> mem_write m 0 (take n (mac_text device_mac_addr @ [0]));
            Some (int n, Some m) })"

definition wifi_config_get_mac_address :: "u8 list \<Rightarrow> (int \<times> u8 list) option" where
  "wifi_config_get_mac_address addr = do { m \<leftarrow> mem_write addr 0 device_mac_addr; Some (0, m) }"

definition system_config_deviceid_num :: u8 where "system_config_deviceid_num = 4"

section \<open>Threads\<close>

text \<open>\<open>created\<close> is what \<open>pthread_create\<close> does: its result and the thread's name, which the caller gets
  when it gives a place for it.\<close>

definition xTaskCreate :: "int \<times> 't \<Rightarrow> bool \<Rightarrow> int \<times> 't option" where
  "xTaskCreate created wants_handle =
     (if fst created \<noteq> 0 then 0 else 1, if wants_handle then Some (snd created) else None)"

section \<open>Log lines\<close>

datatype print_level = PRINT_LEVEL_DEBUG | PRINT_LEVEL_INFO | PRINT_LEVEL_WARNING | PRINT_LEVEL_ERROR

fun level_rank :: "print_level \<Rightarrow> nat" where
  "level_rank PRINT_LEVEL_DEBUG = 0"
| "level_rank PRINT_LEVEL_INFO = 1"
| "level_rank PRINT_LEVEL_WARNING = 2"
| "level_rank PRINT_LEVEL_ERROR = 3"

fun level_name :: "print_level \<Rightarrow> string" where
  "level_name PRINT_LEVEL_DEBUG = ''debug''"
| "level_name PRINT_LEVEL_INFO = ''info''"
| "level_name PRINT_LEVEL_WARNING = ''warn''"
| "level_name PRINT_LEVEL_ERROR = ''error''"

text \<open>\<open>message\<close> is what the format gives; it goes through an array of 5 KB whose end is not checked. The result
  is what is printed.\<close>

definition log_print :: "print_level \<Rightarrow> u8 list \<Rightarrow> print_level \<Rightarrow> u8 list \<Rightarrow> int \<Rightarrow> u32 \<Rightarrow> u8 list \<Rightarrow> u8 list option" where
  "log_print module_level module_name level func line tick message =
     (if level_rank level < level_rank module_level then Some []
      else if 5 * 1024 \<le> length message then None
      else Some (lit ''[T:'' @ show_nat (unat tick) @ lit '' M:'' @ module_name @ lit '' F:'' @ func @ lit '' L:'' @ show_int line @
        lit '' C:'' @ lit (level_name level) @ lit ''] '' @ message @ [10]))"

section \<open>The memory of the process\<close>

text \<open>\<open>strtok\<close>: the next token of a string and what is left behind the delimiter that ends it.\<close>

definition value_split :: "u8 set" where
  "value_split = {58, 32, 13}"

definition c_strtok :: "u8 list \<Rightarrow> (u8 list \<times> u8 list) option" where
  "c_strtok str = (case dropWhile (\<lambda>c. c \<in> value_split) str of
      [] \<Rightarrow> None
    | c # cs \<Rightarrow> Some (c # takeWhile (\<lambda>c. c \<notin> value_split) cs, drop 1 (dropWhile (\<lambda>c. c \<notin> value_split) cs)))"

lemma c_strtok_shorter: "c_strtok str = Some (p, rest) \<Longrightarrow> length rest < length str"
proof -
  assume "c_strtok str = Some (p, rest)"
  then obtain c cs where d: "dropWhile (\<lambda>c. c \<in> value_split) str = c # cs" "rest = drop 1 (dropWhile (\<lambda>c. c \<notin> value_split) cs)"
    by (auto simp: c_strtok_def split: list.splits)
  have "length rest \<le> length cs" using length_dropWhile_le [of "\<lambda>c. c \<notin> value_split" cs] by (simp add: d(2))
  moreover have "Suc (length cs) \<le> length str" using length_dropWhile_le [of "\<lambda>c. c \<in> value_split" str] by (simp add: d(1))
  ultimately show ?thesis by simp
qed

text \<open>The loop of find_value: the third token, the empty string when there is none.\<close>

function value_loop :: "nat \<Rightarrow> u8 list \<Rightarrow> u8 list" where
  "value_loop count str = (case c_strtok str of
      None \<Rightarrow> []
    | Some (p, rest) \<Rightarrow>
        if hd p \<notin> value_split then (if Suc count = 3 then p else value_loop (Suc count) rest) else value_loop count rest)"
  by pat_completeness auto
termination by (relation "measure (\<lambda>(count, str). length str)") (auto dest: c_strtok_shorter)

declare value_loop.simps [simp del]

definition find_value :: "u8 list \<Rightarrow> u8 list" where
  "find_value str = value_loop 0 str"

text \<open>What \<open>strtok\<close> leaves of the string it cuts: everything up to the end of the first token.\<close>

definition strtok_cut :: "u8 list \<Rightarrow> u8 list" where
  "strtok_cut str = takeWhile (\<lambda>c. c \<in> value_split) str @
     takeWhile (\<lambda>c. c \<notin> value_split) (dropWhile (\<lambda>c. c \<in> value_split) str)"

text \<open>\<open>fgets\<close> with room for \<open>n\<close> characters and the terminator: the line (empty at the end of the file, where
  the caller's array keeps what it had), the rest, and whether the end was met.\<close>

fun fgets :: "nat \<Rightarrow> u8 list \<Rightarrow> u8 list \<times> u8 list \<times> bool" where
  "fgets 0 inp = ([], inp, False)"
| "fgets (Suc n) [] = ([], [], True)"
| "fgets (Suc n) (c # inp) = (if c = 10 then ([c], inp, False)
     else (let (line, rest, eof) = fgets n inp in (c # line, rest, eof)))"

lemma fgets_split: "fgets n inp = (line, rest, eof) \<Longrightarrow> inp = line @ rest \<and> length line \<le> n \<and> (eof \<longrightarrow> rest = []) \<and>
    (0 < n \<longrightarrow> line = [] \<longrightarrow> eof)"
proof (induction n inp arbitrary: line rest eof rule: fgets.induct)
  case (3 n c inp)
  show ?case
  proof (cases "c = 10")
    case False
    obtain l r e where f: "fgets n inp = (l, r, e)" by (metis prod_cases3)
    from 3(1) [OF False f] 3(2) False f show ?thesis by auto
  qed (use 3(2) in auto)
qed auto

text \<open>The lines that mention the size are logged with their value: the result is what is logged. \<open>str\<close> is the
  array between the rounds.\<close>

function status_loop :: "u8 list \<Rightarrow> u8 list \<Rightarrow> u8 list list" where
  "status_loop inp str =
     (let (line, rest, eof) = fgets 511 inp;
          str = (if line = [] then str else line);
          found = (c_strstr str (lit ''VmSize'') \<noteq> None);
          logged = (if found then [find_value str] else []);
          str = (if found then strtok_cut str else str)
      in if eof then logged else logged @ status_loop rest str)"
  by pat_completeness auto
termination
proof (relation "measure (\<lambda>(inp, str). length inp)", goal_cases)
  case (2 inp str x line y rest eof str' found logged str'')
  then have f: "fgets 511 inp = (line, rest, eof)" by simp
  from fgets_split [OF f] 2 show ?case by auto
qed simp

declare status_loop.simps [simp del]

definition cat_memory :: "u8 list option \<Rightarrow> u8 list \<Rightarrow> u8 list list" where
  "cat_memory status str = (case status of None \<Rightarrow> [] | Some inp \<Rightarrow> status_loop inp str)"

text \<open>The value of a field is the third token: the field's name, the tabulator, the value.\<close>

lemma strtok_token:
  assumes "set ds \<subseteq> value_split" "p \<noteq> []" "set p \<inter> value_split = {}" "d \<in> value_split"
  shows "c_strtok (ds @ p @ d # rest) = Some (p, rest)"
proof -
  obtain c cs where p: "p = c # cs" using assms(2) by (cases p) auto
  have "dropWhile (\<lambda>c. c \<in> value_split) (ds @ p @ d # rest) = p @ d # rest"
    using assms(1,3) by (subst dropWhile_append2) (auto simp: p)
  moreover have "takeWhile (\<lambda>c. c \<notin> value_split) (cs @ d # rest) = cs" "dropWhile (\<lambda>c. c \<notin> value_split) (cs @ d # rest) = d # rest"
    using assms(3,4) by (auto simp: p takeWhile_tail dropWhile_append3)
  ultimately show ?thesis by (simp add: c_strtok_def p)
qed

lemma find_value_third:
  assumes "\<forall>t \<in> {a, b, c}. t \<noteq> [] \<and> set t \<inter> value_split = {}" "d \<in> value_split" "e \<in> value_split" "g \<in> value_split"
    "set ds \<subseteq> value_split" "set es \<subseteq> value_split"
  shows "find_value (a @ d # ds @ b @ e # es @ c @ g # rest) = c"
proof -
  have h: "hd t \<notin> value_split" if "t \<in> {a, b, c}" for t using assms(1) that by (cases t) auto
  have t: "c_strtok (a @ d # ds @ b @ e # es @ c @ g # rest) = Some (a, ds @ b @ e # es @ c @ g # rest)"
    "c_strtok (ds @ b @ e # es @ c @ g # rest) = Some (b, es @ c @ g # rest)" "c_strtok (es @ c @ g # rest) = Some (c, rest)"
    using strtok_token [of "[]" a d] strtok_token [of ds b e] strtok_token [of es c g] assms by auto
  show ?thesis unfolding find_value_def
    by (subst value_loop.simps, simp add: t(1) h, subst value_loop.simps, simp add: t(2) h, subst value_loop.simps, simp add: t(3) h)
qed

end
