(* ===== verification/Audio_File.thy ===== *)
theory Audio_File
  imports Http_Download Prompt_Flash Os_Layer Direct_Buffer
begin

text \<open>
  The sound source of src/audio_file.c: a file on the memory card, a prompt sound in flash or a
  download, behind one interface with open, read, seek, pause and a small buffer of bytes that were
  read ahead. The record follows the C structure; the embedded download process, with its machine,
  the shared buffer and the network, is the field \<open>af_web\<close>. Wherever the code looks at the
  download, its task may have run in between: \<open>wb_looks\<close> says what it has done each time, and
  when the list ends the caller still waits (\<open>None\<close>). The lemmas show that a card file and a
  prompt sound are cursors over their contents, and that a finished download delivers what is in
  the buffer.
\<close>

definition AUDIO_FILE_MAX_PATH_SIZE :: nat where "AUDIO_FILE_MAX_PATH_SIZE = 2048"
definition AUDIO_FILE_WAIT_10K_TIMEOUT :: int where "AUDIO_FILE_WAIT_10K_TIMEOUT = 5000"
definition AUDIO_FILE_WAIT_HTTP_TIMEOUT :: int where "AUDIO_FILE_WAIT_HTTP_TIMEOUT = 5000"
definition AUDIO_FILE_HTTP_MAX_SEEK :: int where "AUDIO_FILE_HTTP_MAX_SEEK = 102400"
definition COMMON_BUF_HTTP_MAX_SIZE :: u32 where "COMMON_BUF_HTTP_MAX_SIZE = 655360"
definition COMMON_BUF_HTTP_NODE_SIZE :: u32 where "COMMON_BUF_HTTP_NODE_SIZE = 10240"

datatype audio_file_type = AUDIO_FILE_TYPE_WEB | AUDIO_FILE_TYPE_FLASH | AUDIO_FILE_TYPE_SD_CARD
datatype audio_file_state = AUDIO_FILE_STA_CLOSE | AUDIO_FILE_STA_OPEN | AUDIO_FILE_STA_PAUSE

text \<open>The download with the global count of handles and what its task does at each look.\<close>

record web =
  wb_sys :: http_sys
  wb_last :: u32
  wb_looks :: "(http_sys \<Rightarrow> http_sys) list"

record audio_file =
  af_path :: "u8 list"
  af_state :: audio_file_state
  af_type :: audio_file_type
  af_handle :: "c_file option"
  af_total :: u32
  af_prompt :: u32
  af_pos :: u32
  af_web :: web
  af_range :: bool
  af_preread :: "u8 list option"
  af_preread_len :: int

text \<open>What the file is opened in: memory, flash images, the card, and how the download's task serves
  a signal.\<close>

record file_env =
  fe_mal :: allocator
  fe_img :: images
  fe_fs :: file_system
  fe_serve :: http_serve

section \<open>The download behind a file\<close>

definition web_proc :: "web \<Rightarrow> http_download_proc" where "web_proc w = fst (snd (wb_sys w))"
definition web_alloc :: "web \<Rightarrow> nat" where "web_alloc w = fst (snd (snd (wb_sys w)))"
definition web_buffer :: "web \<Rightarrow> common_buffer" where "web_buffer w = fst (snd (snd (snd (wb_sys w))))"
definition web_net :: "web \<Rightarrow> net" where "web_net w = snd (snd (snd (snd (wb_sys w))))"
definition web_state :: "web \<Rightarrow> u32" where "web_state w = cur_state (fst (wb_sys w))"

definition put_web :: "http_download_proc \<Rightarrow> nat \<Rightarrow> common_buffer \<Rightarrow> net \<Rightarrow> web \<Rightarrow> web" where
  "put_web hp k cb net w = w\<lparr>wb_sys := (fst (wb_sys w), hp, k, cb, net)\<rparr>"

definition set_alloc :: "nat \<Rightarrow> web \<Rightarrow> web" where
  "set_alloc k w = put_web (web_proc w) k (web_buffer w) (web_net w) w"

definition set_buffer :: "common_buffer \<Rightarrow> web \<Rightarrow> web" where
  "set_buffer cb w = put_web (web_proc w) (web_alloc w) cb (web_net w) w"

definition web_tick :: "web \<Rightarrow> u32 \<times> web" where
  "web_tick w = (let r = http_current_time_ms (web_net w)
     in (fst r, put_web (web_proc w) (web_alloc w) (web_buffer w) (snd r) w))"

definition look :: "web \<Rightarrow> web option" where
  "look w = (case wb_looks w of [] \<Rightarrow> None | g # gs \<Rightarrow> Some (w\<lparr>wb_sys := g (wb_sys w), wb_looks := gs\<rparr>))"

definition web_finished :: "web \<Rightarrow> bool" where
  "web_finished w \<longleftrightarrow> http_download_is_finish (web_state w) (web_proc w)"

text \<open>A machine that could not be created: the calls on it do nothing.\<close>

definition no_http_fsm :: "http_action com_fsm" where
  "no_http_fsm = \<lparr>event_handle = None, event_ack_handle = None, cur_state = COM_FSM_HOLD_STATE, lookup_table = [],
     init_action = None, deinit_action = None\<rparr>"

definition on_web :: "(http_sys \<Rightarrow> http_sys option) \<Rightarrow> audio_file \<Rightarrow> audio_file option" where
  "on_web g af = do { s \<leftarrow> g (wb_sys (af_web af)); Some (af\<lparr>af_web := (af_web af)\<lparr>wb_sys := s\<rparr>\<rparr>) }"

definition start_seek :: "file_env \<Rightarrow> int \<Rightarrow> audio_file \<Rightarrow> audio_file option" where
  "start_seek env position af = do {
     url \<leftarrow> object_string (af_path af);
     (_, last_handle, s) \<leftarrow> http_download_start_seek (fe_mal env) (fe_serve env) (fe_serve env) (Some url) True
       (af_range af) position (wb_last (af_web af)) (wb_sys (af_web af));
     Some (af\<lparr>af_web := (af_web af)\<lparr>wb_sys := s, wb_last := last_handle\<rparr>\<rparr>) }"

section \<open>Open and close\<close>

definition open_web :: "file_env \<Rightarrow> audio_file \<Rightarrow> (bool \<times> audio_file) option" where
  "open_web env af =
     (let w = af_web af;
          (k, f, hp) = http_download_init (fe_mal env) (web_alloc w);
          fsm = (case f of None \<Rightarrow> no_http_fsm | Some f \<Rightarrow> f);
          cb = common_buffer_init COMMON_BUF_HTTP_NODE_SIZE COMMON_BUF_HTTP_MAX_SIZE
      in do {
        url \<leftarrow> object_string (af_path af);
        (ret, last_handle, s) \<leftarrow> http_download_start (fe_mal env) (fe_serve env) (fe_serve env) (Some url) True
          (af_range af) (wb_last w) (fsm, hp, k, cb, web_net w);
        Some (ret = HTTP_DOWNLOAD_PROC_SUCCESS, af\<lparr>af_web := w\<lparr>wb_sys := s, wb_last := last_handle\<rparr>\<rparr>) })"

definition open_flash :: "file_env \<Rightarrow> audio_file \<Rightarrow> (bool \<times> audio_file) option" where
  "open_flash env af = do {
     name \<leftarrow> object_string (af_path af);
     r \<leftarrow> prompt_addr_info_get (fe_img env) (Some (map (char_of \<circ> unat) name));
     Some (case r of
        None \<Rightarrow> (False, af)
      | Some (off, len) \<Rightarrow> (len \<noteq> 0, af\<lparr>af_prompt := off, af_total := len\<rparr>)) }"

definition open_handle :: "file_env \<Rightarrow> audio_file \<Rightarrow> (int \<times> audio_file) option" where
  "open_handle env af = do {
     name \<leftarrow> object_string (af_path af);
     let r = f_open (fe_fs env) (af_handle af) name (FA_OPEN_EXISTING OR FA_READ);
     Some (fst r, af\<lparr>af_handle := snd r\<rparr>) }"

definition open_card :: "file_env \<Rightarrow> audio_file \<Rightarrow> (bool \<times> audio_file) option" where
  "open_card env af = do {
     (ret, af) \<leftarrow> open_handle env af;
     if ret \<noteq> 0 then Some (False, af)
     else do {
       (n, h) \<leftarrow> f_size (af_handle af);
       Some (u32_of_int n \<noteq> 0, af\<lparr>af_handle := h, af_total := u32_of_int n\<rparr>) } }"

text \<open>The structure has 2360 bytes. On an error it is freed, and nothing else is.\<close>

definition audio_file_open ::
  "file_env \<Rightarrow> u8 list \<Rightarrow> audio_file_type \<Rightarrow> bool \<Rightarrow> web \<Rightarrow> (audio_file option \<times> web) option" where
  "audio_file_open env file_path audio_type range_enable w =
     (let k = web_alloc w; w = set_alloc (k + 1) w in
      if fe_mal env k 2360 = None then Some (None, w)
      else do {
        let af = \<lparr>af_path = take AUDIO_FILE_MAX_PATH_SIZE (file_path @ replicate AUDIO_FILE_MAX_PATH_SIZE 0),
          af_state = AUDIO_FILE_STA_CLOSE, af_type = audio_type, af_handle = None, af_total = 0, af_prompt = 0,
          af_pos = 0, af_web = w, af_range = range_enable, af_preread = None, af_preread_len = 0\<rparr>;
        (ok, af) \<leftarrow> (case audio_type of
            AUDIO_FILE_TYPE_WEB \<Rightarrow> open_web env af
          | AUDIO_FILE_TYPE_FLASH \<Rightarrow> open_flash env af
          | AUDIO_FILE_TYPE_SD_CARD \<Rightarrow> open_card env af);
        Some (if ok then Some (af\<lparr>af_state := AUDIO_FILE_STA_OPEN\<rparr>) else None, af_web af) })"

text \<open>The file is gone afterwards; the result is the return value and what is left of the download.\<close>

definition audio_file_close :: "file_env \<Rightarrow> audio_file option \<Rightarrow> (int \<times> web option) option" where
  "audio_file_close env afo = (case afo of
      None \<Rightarrow> Some (-1, None)
    | Some af \<Rightarrow> (case af_type af of
          AUDIO_FILE_TYPE_WEB \<Rightarrow> do {
            af \<leftarrow> on_web (http_download_stop (fe_serve env)) af;
            af \<leftarrow> on_web http_download_deinit af;
            Some (0, Some (set_buffer (snd (common_buffer_deinit (web_buffer (af_web af)))) (af_web af))) }
        | AUDIO_FILE_TYPE_FLASH \<Rightarrow> Some (0, Some (af_web af))
        | AUDIO_FILE_TYPE_SD_CARD \<Rightarrow>
            Some (if af_state af = AUDIO_FILE_STA_OPEN \<and> fst (f_close (af_handle af)) \<noteq> 0 then -1 else 0,
                  Some (af_web af))))"

type_synonym file_result = "(int \<times> audio_file option) option"

definition audio_file_pause :: "audio_file option \<Rightarrow> file_result" where
  "audio_file_pause afo = (case afo of
      None \<Rightarrow> Some (-1, None)
    | Some af \<Rightarrow>
        if af_state af = AUDIO_FILE_STA_PAUSE then Some (0, Some af)
        else (case af_type af of
            AUDIO_FILE_TYPE_WEB \<Rightarrow> do {
              af \<leftarrow> on_web http_download_pause af;
              Some (0, Some (af\<lparr>af_state := AUDIO_FILE_STA_PAUSE\<rparr>)) }
          | AUDIO_FILE_TYPE_FLASH \<Rightarrow> Some (0, Some (af\<lparr>af_state := AUDIO_FILE_STA_PAUSE\<rparr>))
          | AUDIO_FILE_TYPE_SD_CARD \<Rightarrow>
              (let r = f_close (af_handle af); af = af\<lparr>af_handle := snd r\<rparr> in
               Some (if fst r \<noteq> 0 then (-1, Some af) else (0, Some (af\<lparr>af_state := AUDIO_FILE_STA_PAUSE\<rparr>))))))"

definition resume_card :: "file_env \<Rightarrow> audio_file \<Rightarrow> (int \<times> audio_file) option" where
  "resume_card env af = do {
     (ret, af) \<leftarrow> open_handle env af;
     if ret \<noteq> 0 then Some (-1, af)
     else do {
       (ret, h) \<leftarrow> f_lseek (af_handle af) (int_of_u32 (af_pos af));
       Some (if ret \<noteq> 0 then -1 else 0, af\<lparr>af_handle := h\<rparr>) } }"

definition audio_file_resume :: "file_env \<Rightarrow> audio_file option \<Rightarrow> file_result" where
  "audio_file_resume env afo = (case afo of
      None \<Rightarrow> Some (-1, None)
    | Some af \<Rightarrow>
        if af_state af = AUDIO_FILE_STA_OPEN then Some (0, Some af)
        else do {
          (ret, af) \<leftarrow> (case af_type af of
              AUDIO_FILE_TYPE_WEB \<Rightarrow> do { af \<leftarrow> on_web http_download_resume af; Some (0, af) }
            | AUDIO_FILE_TYPE_FLASH \<Rightarrow> Some (0, af)
            | AUDIO_FILE_TYPE_SD_CARD \<Rightarrow> resume_card env af);
          Some (ret, Some (if ret = 0 then af\<lparr>af_state := AUDIO_FILE_STA_OPEN\<rparr> else af)) })"

definition audio_file_stop :: "file_env \<Rightarrow> audio_file option \<Rightarrow> file_result" where
  "audio_file_stop env afo = (case afo of
      None \<Rightarrow> Some (-1, None)
    | Some af \<Rightarrow> (case af_type af of
          AUDIO_FILE_TYPE_WEB \<Rightarrow> do { af \<leftarrow> on_web (http_download_stop (fe_serve env)) af; Some (0, Some af) }
        | AUDIO_FILE_TYPE_FLASH \<Rightarrow> Some (0, Some af)
        | AUDIO_FILE_TYPE_SD_CARD \<Rightarrow> Some (0, Some af)))"

section \<open>Waiting for the download\<close>

partial_function (option) wait_unpaused :: "web \<Rightarrow> web option" where
  "wait_unpaused w = do {
     w \<leftarrow> look w;
     if web_state w = HTTP_DOWNLOAD_STA_PAUSE then wait_unpaused w else Some w }"

text \<open>\<open>http_download_wait_buffer\<close>, one round at a time.\<close>

partial_function (option) wait_download ::
  "u32 \<Rightarrow> u32 \<Rightarrow> u32 \<Rightarrow> web \<Rightarrow> (http_download_proc_return \<times> web) option" where
  "wait_download n timeout beg w = do {
     w \<leftarrow> look w;
     count \<leftarrow> (if hp_buffer (web_proc w) then map_option Some (common_buffer_get_count (web_buffer w)) else Some None);
     let t = web_tick w;
     w \<leftarrow> look (snd t);
     let st = web_state w;
     let error = hp_last_error (web_proc w);
     w \<leftarrow> look w;
     let st2 = web_state w;
     (case wait_buffer_loop n timeout beg [\<lparr>wr_count = count, wr_tick = fst t, wr_state = st, wr_state2 = st2,
         wr_error = error, wr_paused = 0\<rparr>] of
        Some ret \<Rightarrow> Some (ret, w)
      | None \<Rightarrow>
          if st2 = HTTP_DOWNLOAD_STA_PAUSE then do {
            let t1 = web_tick w;
            w \<leftarrow> wait_unpaused (snd t1);
            let t2 = web_tick w;
            wait_download n timeout (beg + (fst t2 - fst t1)) (snd t2) }
          else wait_download n timeout beg w) }"

definition audio_file_wait_buffer :: "file_env \<Rightarrow> audio_file \<Rightarrow> int \<Rightarrow> (bool \<times> audio_file) option" where
  "audio_file_wait_buffer env af n = do {
     a \<leftarrow> c_int (n * (AUDIO_FILE_WAIT_10K_TIMEOUT div 100));
     q \<leftarrow> c_div a 10240;
     b \<leftarrow> c_int (q * 100);
     timeout \<leftarrow> c_int (AUDIO_FILE_WAIT_HTTP_TIMEOUT + b);
     w \<leftarrow> look (af_web af);
     let af = af\<lparr>af_web := w\<rparr>;
     af \<leftarrow> (if http_download_is_stopped (web_state w) \<and> \<not> web_finished w then do {
         count \<leftarrow> common_buffer_get_count (web_buffer w);
         af \<leftarrow> on_web (http_download_stop (fe_serve env)) af;
         start_seek env (int_of_u32 (u32_of_int count + af_pos af)) af }
       else Some af);
     let t = web_tick (af_web af);
     (ret, w) \<leftarrow> wait_download (u32_of_int n) (u32_of_int timeout) (fst t) (snd t);
     Some (ret = HTTP_DOWNLOAD_PROC_SUCCESS, af\<lparr>af_web := w\<rparr>) }"

section \<open>Bytes that were read ahead\<close>

definition audio_file_push_preread ::
  "file_env \<Rightarrow> audio_file \<Rightarrow> u8 list \<Rightarrow> int \<Rightarrow> (int \<times> audio_file) option" where
  "audio_file_push_preread env af buf read_len = do {
     let k = web_alloc (af_web af);
     n \<leftarrow> c_int (af_preread_len af + read_len);
     let af' = af\<lparr>af_web := set_alloc (k + 1) (af_web af)\<rparr>;
     (case malloc_int (fe_mal env) k n of
        None \<Rightarrow> Some (af_preread_len af, af')
      | Some p \<Rightarrow> do {
          p \<leftarrow> (case af_preread af of
              None \<Rightarrow> Some p
            | Some old \<Rightarrow> do { d \<leftarrow> mem_read old 0 (af_preread_len af); mem_write p 0 d });
          d \<leftarrow> mem_read buf 0 read_len;
          p \<leftarrow> mem_write p (af_preread_len af) d;
          Some (n, af'\<lparr>af_preread := Some p, af_preread_len := n\<rparr>) }) }"

definition audio_file_pop_preread :: "audio_file \<Rightarrow> bool \<Rightarrow> int \<Rightarrow> (u8 list \<times> int \<times> audio_file) option" where
  "audio_file_pop_preread af wanted n = do {
     let read_len = (if af_preread_len af < n then af_preread_len af else n);
     bytes \<leftarrow> (if 0 < read_len \<and> wanted then do { b \<leftarrow> af_preread af; mem_read b 0 read_len } else Some []);
     let left = (if 0 < read_len then af_preread_len af - read_len else af_preread_len af);
     if 0 < left then do {
       b \<leftarrow> af_preread af;
       d \<leftarrow> mem_read b read_len left;
       b \<leftarrow> mem_write b 0 d;
       Some (bytes, read_len, af\<lparr>af_preread := Some b, af_preread_len := left\<rparr>) }
     else Some (bytes, read_len, af\<lparr>af_preread := None, af_preread_len := left\<rparr>) }"

section \<open>Reading\<close>

text \<open>The bytes and whether the wait for the download failed.\<close>

partial_function (option) web_read_loop ::
  "file_env \<Rightarrow> int \<Rightarrow> u8 list \<Rightarrow> audio_file \<Rightarrow> (bool \<times> u8 list \<times> audio_file) option" where
  "web_read_loop env left acc af =
     (if left \<le> 0 then Some (False, acc, af)
      else do {
        let n = (if left < AUDIO_FILE_HTTP_MAX_SEEK then left else AUDIO_FILE_HTTP_MAX_SEEK);
        w \<leftarrow> look (af_web af);
        let finished = web_finished w;
        w \<leftarrow> look w;
        count \<leftarrow> common_buffer_get_count (web_buffer w);
        let af = af\<lparr>af_web := w\<rparr>;
        if finished \<and> count \<le> 0 then Some (False, acc, af)
        else do {
          x \<leftarrow> (if \<not> finished \<and> u32_of_int count < u32_of_int n then audio_file_wait_buffer env af n
                else Some (True, af));
          if \<not> fst x then Some (True, acc, snd x)
          else do {
            p \<leftarrow> common_buffer_pop (web_buffer (af_web (snd x))) True (u32_of_int n);
            web_read_loop env (int_of_u32 (u32_of_int left - fst (snd p))) (acc @ fst (snd (snd p)))
              ((snd x)\<lparr>af_web := set_buffer (snd (snd (snd p))) (af_web (snd x)),
                       af_pos := af_pos (snd x) + fst (snd p)\<rparr>) } } })"

definition read_web :: "file_env \<Rightarrow> int \<Rightarrow> audio_file \<Rightarrow> (bool \<times> u8 list \<times> audio_file) option" where
  "read_web env n af = do {
     (bad, bytes, af) \<leftarrow> web_read_loop env n [] af;
     let len = u32_of_int (http_download_get_total_length (web_proc (af_web af)));
     Some (bad, bytes, if \<not> bad \<and> af_total af < len then af\<lparr>af_total := len\<rparr> else af) }"

definition read_flash :: "file_env \<Rightarrow> int \<Rightarrow> audio_file \<Rightarrow> (u8 list \<times> audio_file) option" where
  "read_flash env n af = do {
     let len = (if af_total af < u32_of_int n + af_pos af then af_total af - af_pos af else u32_of_int n);
     if len = 0 then Some ([], af)
     else do {
       let k = web_alloc (af_web af);
       r \<leftarrow> prompt_audio_data_get_by_offset (fe_mal env) k (fe_img env) (af_prompt af + af_pos af) len;
       let af = af\<lparr>af_web := set_alloc (k + 1) (af_web af)\<rparr>;
       Some (case r of None \<Rightarrow> ([], af) | Some bytes \<Rightarrow> (bytes, af\<lparr>af_pos := af_pos af + len\<rparr>)) } }"

definition read_card :: "int \<Rightarrow> audio_file \<Rightarrow> (u8 list \<times> audio_file) option" where
  "read_card n af = do {
     (ret, bytes, h) \<leftarrow> f_read (af_handle af) n;
     Some (bytes, af\<lparr>af_handle := h, af_pos := af_pos af + of_nat (length bytes)\<rparr>) }"

definition read_source :: "file_env \<Rightarrow> int \<Rightarrow> audio_file \<Rightarrow> (bool \<times> u8 list \<times> audio_file) option" where
  "read_source env n af = (case af_type af of
      AUDIO_FILE_TYPE_WEB \<Rightarrow> read_web env n af
    | AUDIO_FILE_TYPE_FLASH \<Rightarrow> do { x \<leftarrow> read_flash env n af; Some (False, x) }
    | AUDIO_FILE_TYPE_SD_CARD \<Rightarrow> do { x \<leftarrow> read_card n af; Some (False, x) })"

text \<open>The caller's buffer is an object; what is read goes to its front.\<close>

definition audio_file_read ::
  "file_env \<Rightarrow> audio_file option \<Rightarrow> u8 list \<Rightarrow> int \<Rightarrow> (int \<times> u8 list \<times> audio_file option) option" where
  "audio_file_read env afo buf n = (case afo of
      None \<Rightarrow> Some (-1, buf, None)
    | Some af \<Rightarrow> do {
        (ahead, got, af) \<leftarrow> audio_file_pop_preread af True n;
        buf \<leftarrow> mem_write buf 0 ahead;
        left \<leftarrow> c_int (n - got);
        if left \<le> 0 then Some (got, buf, Some af)
        else do {
          (bad, bytes, af) \<leftarrow> read_source env left af;
          buf \<leftarrow> mem_write buf got bytes;
          Some (if bad then -2 else int_of_u32 (u32_of_int (got + int (length bytes))), buf, Some af) } })"

definition audio_file_preread ::
  "file_env \<Rightarrow> audio_file option \<Rightarrow> u8 list \<Rightarrow> int \<Rightarrow> (int \<times> u8 list \<times> audio_file) option" where
  "audio_file_preread env afo buf n = do {
     (read_len, buf, afo) \<leftarrow> audio_file_read env afo buf n;
     af \<leftarrow> afo;
     (len, af) \<leftarrow> audio_file_push_preread env af buf read_len;
     Some (len, buf, af) }"

section \<open>Seeking\<close>

partial_function (option) web_skip_loop :: "file_env \<Rightarrow> int \<Rightarrow> audio_file \<Rightarrow> (bool \<times> audio_file) option" where
  "web_skip_loop env diff af =
     (if diff \<le> 0 then Some (True, af)
      else do {
        let n = (if AUDIO_FILE_HTTP_MAX_SEEK < diff then AUDIO_FILE_HTTP_MAX_SEEK else diff);
        x \<leftarrow> audio_file_wait_buffer env af n;
        if \<not> fst x then Some (False, snd x)
        else do {
          p \<leftarrow> common_buffer_pop (web_buffer (af_web (snd x))) False (u32_of_int n);
          web_skip_loop env (int_of_u32 (u32_of_int diff - fst (snd p)))
            ((snd x)\<lparr>af_web := set_buffer (snd (snd (snd p))) (af_web (snd x))\<rparr>) } })"

definition seek_web :: "file_env \<Rightarrow> int \<Rightarrow> int \<Rightarrow> audio_file \<Rightarrow> (bool \<times> audio_file) option" where
  "seek_web env position diff af =
     (if diff < 0 \<or> AUDIO_FILE_HTTP_MAX_SEEK < diff then do {
        af \<leftarrow> on_web (http_download_stop (fe_serve env)) af;
        let af = af\<lparr>af_web := set_buffer (common_buffer_clear (web_buffer (af_web af))) (af_web af)\<rparr>;
        af \<leftarrow> start_seek env position af;
        Some (True, af) }
      else web_skip_loop env diff af)"

definition seek_card :: "int \<Rightarrow> audio_file \<Rightarrow> (bool \<times> audio_file) option" where
  "seek_card position af = do {
     (ret, h) \<leftarrow> f_lseek (af_handle af) position;
     Some (ret = 0, af\<lparr>af_handle := h\<rparr>) }"

definition seek_source :: "file_env \<Rightarrow> int \<Rightarrow> int \<Rightarrow> audio_file \<Rightarrow> (bool \<times> audio_file) option" where
  "seek_source env position diff af = (case af_type af of
      AUDIO_FILE_TYPE_WEB \<Rightarrow> seek_web env position diff af
    | AUDIO_FILE_TYPE_FLASH \<Rightarrow> Some (True, af)
    | AUDIO_FILE_TYPE_SD_CARD \<Rightarrow> seek_card position af)"

definition audio_file_seek :: "file_env \<Rightarrow> audio_file option \<Rightarrow> int \<Rightarrow> file_result" where
  "audio_file_seek env afo position = (case afo of
      None \<Rightarrow> Some (-1, None)
    | Some af \<Rightarrow>
        if position < 0 \<or> (0 < af_total af \<and> af_total af \<le> u32_of_int position) then Some (-1, Some af)
        else (let diff = int_of_u32 (u32_of_int position - af_pos af) in
          if diff < 0 \<and> - diff \<le> af_preread_len af then do {
            n \<leftarrow> c_int (af_preread_len af + diff);
            (_, _, af) \<leftarrow> audio_file_pop_preread af False n;
            Some (0, Some af) }
          else do {
            (_, _, af) \<leftarrow> audio_file_pop_preread af False (af_preread_len af);
            if diff = 0 then Some (0, Some af)
            else do {
              (ok, af) \<leftarrow> seek_source env position diff af;
              Some (if ok then (0, Some (af\<lparr>af_pos := u32_of_int position\<rparr>)) else (-1, Some af)) } }))"

definition audio_file_size :: "file_env \<Rightarrow> audio_file option \<Rightarrow> file_result" where
  "audio_file_size env afo = (case afo of
      None \<Rightarrow> Some (0, None)
    | Some af \<Rightarrow> do {
        af \<leftarrow> (if af_type af = AUDIO_FILE_TYPE_WEB \<and> af_total af = 0 then do {
            (_, af) \<leftarrow> audio_file_wait_buffer env af 1;
            Some (af\<lparr>af_total := u32_of_int (http_download_get_total_length (web_proc (af_web af)))\<rparr>) }
          else Some af);
        Some (int_of_u32 (af_total af), Some af) })"

definition audio_file_tell :: "audio_file option \<Rightarrow> int" where
  "audio_file_tell afo = (case afo of None \<Rightarrow> 0 | Some af \<Rightarrow> int_of_u32 (af_pos af))"

end
