(* ===== verification/File_Cursor.thy ===== *)
theory File_Cursor
  imports Audio_File
begin

text \<open>
  What a sound source promises. A file on the card and a prompt sound satisfy one contract, the locale
  \<open>file_source\<close>: from it follows that any sequence of reads, seeks and pauses, with bytes
  read ahead or not, sees a cursor over the contents. A finished download is a stream: reads deliver
  what was read ahead and then what is in the buffer, and a seek beyond its end does not return.
\<close>


section \<open>A source with bytes read ahead\<close>

definition ahead :: "audio_file \<Rightarrow> u8 list" where
  "ahead af = (case af_preread af of None \<Rightarrow> [] | Some b \<Rightarrow> take (nat (af_preread_len af)) b)"

definition ahead_ok :: "audio_file \<Rightarrow> bool" where
  "ahead_ok af \<longleftrightarrow> 0 \<le> af_preread_len af \<and>
     (case af_preread af of None \<Rightarrow> af_preread_len af = 0 | Some b \<Rightarrow> af_preread_len af \<le> int (length b))"

lemma length_ahead: "ahead_ok af \<Longrightarrow> int (length (ahead af)) = af_preread_len af"
  by (auto simp: ahead_ok_def ahead_def split: option.splits)

lemma ahead_pos [simp]: "ahead (af\<lparr>af_pos := p\<rparr>) = ahead af" "ahead_ok (af\<lparr>af_pos := p\<rparr>) = ahead_ok af"
  by (cases "af_preread af"; simp add: ahead_def ahead_ok_def)+

lemma pop_preread_spec:
  assumes "ahead_ok af" "0 \<le> n"
  shows "\<exists>b l. audio_file_pop_preread af wanted n = Some (if wanted then take (nat n) (ahead af) else [],
      int (min (nat n) (length (ahead af))), af\<lparr>af_preread := b, af_preread_len := l\<rparr>) \<and>
    ahead (af\<lparr>af_preread := b, af_preread_len := l\<rparr>) = drop (nat n) (ahead af) \<and>
    ahead_ok (af\<lparr>af_preread := b, af_preread_len := l\<rparr>)"
proof -
  note la = length_ahead [OF assms(1)]
  have m: "(if af_preread_len af < n then af_preread_len af else n) = int (min (nat n) (length (ahead af)))"
    using la assms(2) by (auto simp: min_def)
  show ?thesis
  proof (cases "af_preread af")
    case None
    with assms have z: "af_preread_len af = 0" by (simp add: ahead_ok_def)
    then show ?thesis using None assms
      by (intro exI [of _ None] exI [of _ 0]) (simp add: audio_file_pop_preread_def ahead_def ahead_ok_def Let_def)
  next
    case (Some b)
    with assms have b: "0 \<le> af_preread_len af" "af_preread_len af \<le> int (length b)" by (simp_all add: ahead_ok_def)
    have a: "ahead af = take (nat (af_preread_len af)) b" using Some by (simp add: ahead_def)
    show ?thesis
    proof (cases "n < af_preread_len af")
      case True
      let ?l = "af_preread_len af - n" and ?d = "take (nat (af_preread_len af - n)) (drop (nat n) b)"
      have d: "mem_read b n ?l = Some ?d" "length ?d = nat ?l" using True assms(2) b by (auto simp: mem_read_ok)
      then have w: "mem_write b 0 ?d = Some (?d @ drop (nat ?l) b)" using b assms(2) by (simp add: mem_write_ok)
      have r: "0 < n \<Longrightarrow> mem_read b 0 n = Some (take (nat n) b)" using True b by (simp add: mem_read_ok)
      have t: "take (nat n) (ahead af) = take (nat n) b" using True by (simp add: a min_def)
      have dr: "drop (nat n) (ahead af) = ?d" using True assms(2) by (simp add: a drop_take nat_diff_distrib)
      have "audio_file_pop_preread af wanted n = Some (if wanted then take (nat n) (ahead af) else [],
          int (min (nat n) (length (ahead af))), af\<lparr>af_preread := Some (?d @ drop (nat ?l) b), af_preread_len := ?l\<rparr>)"
        using True Some d(1) w r t m assms(2) by (cases "n = 0") (auto simp: audio_file_pop_preread_def Let_def)
      then show ?thesis using d(2) dr True b
        by (intro exI [of _ "Some (?d @ drop (nat ?l) b)"] exI [of _ ?l]) (simp add: ahead_def ahead_ok_def)
    next
      case False
      have r: "mem_read b 0 (af_preread_len af) = Some (ahead af)" using b by (simp add: a mem_read_ok)
      have "audio_file_pop_preread af wanted n = Some (if wanted then take (nat n) (ahead af) else [],
          int (min (nat n) (length (ahead af))), af\<lparr>af_preread := None, af_preread_len := 0\<rparr>)"
        using False Some r la assms(2) b by (auto simp: audio_file_pop_preread_def Let_def a)
      then show ?thesis using False la
        by (intro exI [of _ None] exI [of _ 0]) (simp add: ahead_def ahead_ok_def)
    qed
  qed
qed


text \<open>What a caller does with an open source, and the cursor over the contents it should see. A pause is
  followed by the resume. Each operation has a return value and the bytes it delivers.\<close>

datatype file_op = Read_Op int | Seek_Op int | Pause_Op

definition file_step :: "file_env \<Rightarrow> file_op \<Rightarrow> audio_file \<Rightarrow> ((int \<times> u8 list) \<times> audio_file) option" where
  "file_step env op af = (case op of
      Read_Op n \<Rightarrow> do {
        (ret, buf, afo) \<leftarrow> audio_file_read env (Some af) (replicate (nat n) 0) n;
        af \<leftarrow> afo;
        Some ((ret, take (nat ret) buf), af) }
    | Seek_Op q \<Rightarrow> do { (ret, afo) \<leftarrow> audio_file_seek env (Some af) q; af \<leftarrow> afo; Some ((ret, []), af) }
    | Pause_Op \<Rightarrow> do {
        (_, afo) \<leftarrow> audio_file_pause (Some af);
        (ret, afo) \<leftarrow> audio_file_resume env afo;
        af \<leftarrow> afo;
        Some ((ret, []), af) })"

fun file_run :: "file_env \<Rightarrow> file_op list \<Rightarrow> audio_file \<Rightarrow> ((int \<times> u8 list) list \<times> audio_file) option" where
  "file_run env [] af = Some ([], af)"
| "file_run env (op # ops) af = do {
     (r, af) \<leftarrow> file_step env op af;
     (rs, af) \<leftarrow> file_run env ops af;
     Some (r # rs, af) }"

fun cursor_step :: "u8 list \<Rightarrow> file_op \<Rightarrow> nat \<Rightarrow> (int \<times> u8 list) \<times> nat" where
  "cursor_step c (Read_Op n) p = (let m = min (nat n) (length c - p) in ((int m, take m (drop p c)), p + m))"
| "cursor_step c (Seek_Op q) p = (if 0 \<le> q \<and> q < int (length c) then ((0, []), nat q) else ((-1, []), p))"
| "cursor_step c Pause_Op p = ((0, []), p)"

fun cursor_run :: "u8 list \<Rightarrow> file_op list \<Rightarrow> nat \<Rightarrow> (int \<times> u8 list) list \<times> nat" where
  "cursor_run c [] p = ([], p)"
| "cursor_run c (op # ops) p =
     (let (r, p) = cursor_step c op p; (rs, p) = cursor_run c ops p in (r # rs, p))"

text \<open>Arguments of type \<open>int\<close>, a read of no negative size.\<close>

fun op_fits :: "file_op \<Rightarrow> bool" where
  "op_fits (Read_Op n) = (0 \<le> n \<and> n < 2147483648)"
| "op_fits (Seek_Op q) = (- 2147483648 \<le> q \<and> q < 2147483648)"
| "op_fits Pause_Op = True"

text \<open>What the operations promise: the contract of a source of known contents. \<open>valid\<close> is the
  state of an open source, without the bytes read ahead.\<close>

definition same_ahead :: "audio_file \<Rightarrow> audio_file \<Rightarrow> bool" where
  "same_ahead af af' \<longleftrightarrow> af_preread af' = af_preread af \<and> af_preread_len af' = af_preread_len af"

lemma same_ahead_D: "same_ahead af af' \<Longrightarrow> ahead af' = ahead af \<and> ahead_ok af' = ahead_ok af"
  by (auto simp: same_ahead_def ahead_def ahead_ok_def split: option.splits)

lemma take_window_drop:
  assumes "a = take (length a) (drop (p - length a) c)" "n \<le> length a" "length a \<le> p"
  shows "drop n a = take (length a - n) (drop (p - (length a - n)) c)"
proof -
  define k where "k = length a"
  have e: "p - k + n = p - (k - n)" using assms(2,3) by (simp add: k_def)
  have "drop n a = drop n (take k (drop (p - k) c))" using assms(1) by (simp add: k_def)
  also have "\<dots> = take (k - n) (drop (p - k + n) c)" by (simp add: drop_take add.commute)
  finally show ?thesis unfolding e unfolding k_def .
qed

locale file_source =
  fixes env :: file_env
    and content :: "audio_file \<Rightarrow> u8 list"
    and valid :: "audio_file \<Rightarrow> bool"
  assumes bounds: "valid af \<Longrightarrow> unat (af_pos af) \<le> length (content af) \<and> length (content af) < 2147483648 \<and>
      content af \<noteq> [] \<and> unat (af_total af) = length (content af)"
    and read_law: "valid af \<Longrightarrow> 0 < n \<Longrightarrow> n < 2147483648 \<Longrightarrow>
      \<exists>af'. read_source env n af = Some (False, take (nat n) (drop (unat (af_pos af)) (content af)), af') \<and>
        valid af' \<and> same_ahead af af' \<and> content af' = content af \<and>
        unat (af_pos af') = min (unat (af_pos af) + nat n) (length (content af))"
    and seek_law: "valid af \<Longrightarrow> 0 \<le> p \<Longrightarrow> p < int (length (content af)) \<Longrightarrow>
      \<exists>af'. seek_source env p diff af = Some (True, af') \<and> valid (af'\<lparr>af_pos := u32_of_int p\<rparr>) \<and>
        same_ahead af af' \<and> content (af'\<lparr>af_pos := u32_of_int p\<rparr>) = content af"
    and pause_law: "valid af \<Longrightarrow> \<exists>af1 af2. audio_file_pause (Some af) = Some (0, Some af1) \<and>
        audio_file_resume env (Some af1) = Some (0, Some af2) \<and> valid af2 \<and> same_ahead af af2 \<and>
        content af2 = content af \<and> af_pos af2 = af_pos af"
    and ahead_law: "valid (af\<lparr>af_preread := b, af_preread_len := l\<rparr>) = valid af"
      "content (af\<lparr>af_preread := b, af_preread_len := l\<rparr>) = content af"
      "valid (af\<lparr>af_web := w\<rparr>) = valid af" "content (af\<lparr>af_web := w\<rparr>) = content af"
begin

definition file_ok :: "audio_file \<Rightarrow> bool" where
  "file_ok af \<longleftrightarrow> valid af \<and> ahead_ok af \<and> length (ahead af) \<le> unat (af_pos af) \<and>
     ahead af = take (length (ahead af)) (drop (unat (af_pos af) - length (ahead af)) (content af))"

text \<open>The place the next byte comes from.\<close>

definition place :: "audio_file \<Rightarrow> nat" where
  "place af = unat (af_pos af) - length (ahead af)"

lemma rest: "file_ok af \<Longrightarrow> drop (place af) (content af) = ahead af @ drop (unat (af_pos af)) (content af)"
proof -
  assume "file_ok af"
  then have a: "ahead af = take (length (ahead af)) (drop (place af) (content af))"
    "unat (af_pos af) = place af + length (ahead af)" by (auto simp: file_ok_def place_def)
  have "drop (place af) (content af) =
    take (length (ahead af)) (drop (place af) (content af)) @ drop (unat (af_pos af)) (content af)"
    unfolding a(2) by (metis append_take_drop_id drop_drop add.commute)
  with a(1) show ?thesis by simp
qed

lemma drop_ahead:
  assumes "file_ok af" "k \<le> length (ahead af)" "ahead f = drop k (ahead af)" "ahead_ok f" "valid f"
    "content f = content af" "af_pos f = af_pos af"
  shows "file_ok f \<and> place f = place af + k"
proof -
  have v: "length (ahead af) \<le> unat (af_pos af)"
    "ahead af = take (length (ahead af)) (drop (unat (af_pos af) - length (ahead af)) (content af))"
    using assms(1) by (simp_all add: file_ok_def)
  have l: "length (ahead f) = length (ahead af) - k" using assms(3) by simp
  have "ahead f = take (length (ahead f)) (drop (unat (af_pos f) - length (ahead f)) (content f))"
    unfolding l assms(6,7) unfolding assms(3) by (rule take_window_drop [OF v(2) assms(2) v(1)])
  then have "file_ok f" using assms(4,5,7) v(1) l by (simp add: file_ok_def)
  then show ?thesis using l v(1) assms(2,7) by (simp add: place_def)
qed

lemma read_spec:
  assumes "file_ok af" "0 \<le> n" "n < 2147483648" "n \<le> int (length buf)"
  defines "m \<equiv> min (nat n) (length (content af) - place af)"
  shows "\<exists>af'. audio_file_read env (Some af) buf n =
      Some (int m, take m (drop (place af) (content af)) @ drop m buf, Some af') \<and>
    file_ok af' \<and> content af' = content af \<and> place af' = place af + m \<and> ahead af' = drop (nat n) (ahead af)"
proof -
  let ?a = "ahead af" and ?p = "unat (af_pos af)" and ?c = "content af"
  have v: "valid af" "ahead_ok af" "length ?a \<le> ?p" "?a = take (length ?a) (drop (?p - length ?a) ?c)"
    using assms(1) by (simp_all add: file_ok_def)
  note b = bounds [OF v(1)]
  have pl: "?p = place af + length ?a" using v(3) by (simp add: place_def)
  obtain bb ll where pop: "audio_file_pop_preread af True n = Some (take (nat n) ?a, int (min (nat n) (length ?a)),
      af\<lparr>af_preread := bb, af_preread_len := ll\<rparr>)"
    "ahead (af\<lparr>af_preread := bb, af_preread_len := ll\<rparr>) = drop (nat n) ?a" "ahead_ok (af\<lparr>af_preread := bb, af_preread_len := ll\<rparr>)"
    using pop_preread_spec [OF v(2) assms(2), of True] by auto
  let ?f = "af\<lparr>af_preread := bb, af_preread_len := ll\<rparr>"
  have vf: "valid ?f" "content ?f = ?c" using v(1) by (simp_all add: ahead_law)
  have w: "mem_write buf 0 (take (nat n) ?a) = Some (take (nat n) ?a @ drop (min (length ?a) (nat n)) buf)"
    using assms(2,4) by (simp add: mem_write_ok)
  have lc: "length ?c - place af = length ?a + (length ?c - ?p)" using pl b by simp
  show ?thesis
  proof (cases "nat n \<le> length ?a")
    case True
    then have m: "m = nat n" using lc by (simp add: m_def)
    have "audio_file_read env (Some af) buf n = Some (n, take (nat n) ?a @ drop (nat n) buf, Some ?f)"
      using pop(1) w True assms(2,3) by (simp add: audio_file_read_def c_arith min_absorb1 min_absorb2)
    moreover have "take m (drop (place af) ?c) = take (nat n) ?a" using True m by (simp add: rest [OF assms(1)])
    moreover have "file_ok ?f \<and> place ?f = place af + m"
      using drop_ahead [OF assms(1) True pop(2,3) vf] m by simp
    ultimately show ?thesis using m vf assms(2) pop(2) by (intro exI [of _ ?f]) simp
  next
    case False
    let ?l = "n - int (length ?a)"
    have l: "0 < ?l" "?l < 2147483648" "nat ?l = nat n - length ?a" using False assms(2,3) by auto
    from read_law [OF vf(1) l(1,2)] vf(2) obtain g where g:
      "read_source env ?l ?f = Some (False, take (nat ?l) (drop ?p ?c), g)" "valid g" "same_ahead ?f g"
      "content g = ?c" "unat (af_pos g) = min (?p + nat ?l) (length ?c)" by auto
    have an: "ahead g = []" "ahead_ok g" using same_ahead_D [OF g(3)] pop(2,3) False by simp_all
    have m: "m = length ?a + min (nat ?l) (length ?c - ?p)" using False unfolding m_def lc l(3) by linarith
    let ?bs = "take (nat ?l) (drop ?p ?c)"
    have lb: "length ?bs = m - length ?a" "length ?a + length ?bs = m" using m by simp_all
    have mn: "m \<le> nat n" by (simp add: m_def)
    have tk: "take (nat n) ?a = ?a" "min (length ?a) (nat n) = length ?a" "min (nat n) (length ?a) = length ?a" using False by simp_all
    have w2: "mem_write (?a @ drop (length ?a) buf) (int (length ?a)) ?bs = Some (?a @ ?bs @ drop m buf)"
    proof -
      have "m \<le> length buf" "length ?a \<le> length buf" using mn assms(4) lb by linarith+
      then have "mem_write (?a @ drop (length ?a) buf) (int (length ?a)) ?bs =
          Some (take (length ?a) (?a @ drop (length ?a) buf) @ ?bs @ drop (length ?a + length ?bs) (?a @ drop (length ?a) buf))"
        using lb by (subst mem_write_ok) (simp_all del: length_take)
      with lb(2) show ?thesis by (simp del: length_take)
    qed
    have "int_of_u32 (u32_of_int (int (length ?a) + int (length ?bs))) = int m"
    proof -
      have "int m < 2147483648" using mn assms(2,3) by linarith
      then have "int_of_u32 (u32_of_int (int m)) = int m" by (simp add: c_arith)
      with lb(2) show ?thesis by (metis of_nat_add)
    qed
    with pop(1) w w2 g(1) l assms(2,3) False have "audio_file_read env (Some af) buf n = Some (int m, ?a @ ?bs @ drop m buf, Some g)"
      unfolding audio_file_read_def by (simp add: tk c_arith del: length_take)
    moreover have "take m (drop (place af) ?c) = ?a @ ?bs" using m by (simp add: rest [OF assms(1)] min_def)
    moreover have "file_ok g" using an g(2) by (simp add: file_ok_def)
    moreover have "place g = place af + m" 
    proof -
      have "place g = min (?p + nat ?l) (length ?c)" using an(1) g(5) by (simp add: place_def)
      with m pl conjunct1 [OF b] show ?thesis by linarith
    qed
    ultimately show ?thesis using g(4) an(1) False by (intro exI [of _ g]) simp
  qed
qed

lemma file_bounds:
  "file_ok af \<Longrightarrow> unat (af_pos af) \<le> length (content af) \<and> length (content af) < 2147483648 \<and>
     content af \<noteq> [] \<and> unat (af_total af) = length (content af) \<and> place af \<le> length (content af)"
  using bounds [of af] by (auto simp: file_ok_def place_def)

lemma seek_out_of_range:
  assumes "file_ok af" "- 2147483648 \<le> q" "q < 2147483648" "q < 0 \<or> int (length (content af)) \<le> q"
  shows "audio_file_seek env (Some af) q = Some (-1, Some af)"
proof (cases "q < 0")
  case False
  have "0 < af_total af" using file_bounds [OF assms(1)] by (auto simp: word_less_nat_alt)
  moreover have "af_total af \<le> u32_of_int q"
    using False assms(3,4) file_bounds [OF assms(1)] by (simp add: word_le_nat_alt c_arith flip: nat_uint_eq)
  ultimately show ?thesis using False by (simp add: audio_file_seek_def)
qed (simp add: audio_file_seek_def)

lemma seek_spec:
  assumes "file_ok af" "0 \<le> q" "q < int (length (content af))"
  shows "\<exists>af'. audio_file_seek env (Some af) q = Some (0, Some af') \<and> file_ok af' \<and>
    content af' = content af \<and> place af' = nat q"
proof -
  note b = file_bounds [OF assms(1)]
  let ?a = "ahead af" and ?p = "unat (af_pos af)"
  have v: "valid af" "ahead_ok af" "length ?a \<le> ?p" "?a = take (length ?a) (drop (?p - length ?a) (content af))"
    using assms(1) by (simp_all add: file_ok_def)
  note la = length_ahead [OF v(2)]
  have q: "q < 2147483648" using assms(3) b by linarith
  have in_range: "\<not> (q < 0 \<or> (0 < af_total af \<and> af_total af \<le> u32_of_int q))"
    using assms(2,3) q b by (simp add: word_le_nat_alt c_arith flip: nat_uint_eq) linarith
  have d: "int_of_u32 (u32_of_int q - af_pos af) = q - int ?p"
  proof -
    have "u32_of_int q - af_pos af = word_of_int (q - int ?p)" by (simp add: u32_of_int_def)
    moreover have "- 2147483648 \<le> q - int ?p" "q - int ?p < 2147483648" using q assms(2) b by linarith+
    ultimately show ?thesis by (simp add: int_of_u32_def sint_sbintrunc' signed_take_bit_int_eq_self del: of_int_diff)
  qed
  show ?thesis
  proof (cases "q - int ?p < 0 \<and> - (q - int ?p) \<le> af_preread_len af")
    case True
    let ?n = "af_preread_len af + (q - int ?p)"
    have n: "0 \<le> ?n" "nat ?n = length ?a - (?p - nat q)" "?p - nat q \<le> length ?a" "nat q \<le> ?p"
      "?n \<le> 2147483647" using True la b v(3) assms(2) by linarith+
    from pop_preread_spec [OF v(2) n(1), of False] obtain bb ll where pop:
      "audio_file_pop_preread af False ?n = Some ([], int (min (nat ?n) (length ?a)), af\<lparr>af_preread := bb, af_preread_len := ll\<rparr>)"
      "ahead (af\<lparr>af_preread := bb, af_preread_len := ll\<rparr>) = drop (nat ?n) ?a" "ahead_ok (af\<lparr>af_preread := bb, af_preread_len := ll\<rparr>)"
      by auto
    let ?f = "af\<lparr>af_preread := bb, af_preread_len := ll\<rparr>"
    have "audio_file_seek env (Some af) q = Some (0, Some ?f)"
      unfolding audio_file_seek_def using in_range True pop(1) n(1,5) by (simp add: Let_def d c_arith)
    moreover have "nat ?n \<le> length ?a" using n(2) by simp
    then have "file_ok ?f \<and> place ?f = place af + nat ?n"
      by (rule drop_ahead [OF assms(1) _ pop(2,3)]) (simp_all add: ahead_law v(1))
    moreover have "place af + nat ?n = nat q" using n(2-4) v(3) by (simp add: place_def)
    ultimately show ?thesis by (intro exI [of _ ?f]) (simp add: ahead_law)
  next
    case False
    have n: "0 \<le> af_preread_len af" using v(2) by (simp add: ahead_ok_def)
    from pop_preread_spec [OF v(2) n, of False] la obtain bb ll where pop:
      "audio_file_pop_preread af False (af_preread_len af) = Some ([], af_preread_len af, af\<lparr>af_preread := bb, af_preread_len := ll\<rparr>)"
      "ahead (af\<lparr>af_preread := bb, af_preread_len := ll\<rparr>) = []" "ahead_ok (af\<lparr>af_preread := bb, af_preread_len := ll\<rparr>)"
      by auto
    let ?f = "af\<lparr>af_preread := bb, af_preread_len := ll\<rparr>"
    have vf: "valid ?f" "content ?f = content af" using v(1) by (simp_all add: ahead_law)
    show ?thesis
    proof (cases "q = int ?p")
      case True
      then have "audio_file_seek env (Some af) q = Some (0, Some ?f)"
        unfolding audio_file_seek_def using in_range False pop(1) by (simp add: Let_def d int_of_u32_def)
      moreover have "file_ok ?f" using vf(1) pop(2,3) by (simp add: file_ok_def)
      moreover have "place ?f = nat q" using True pop(2) by (simp add: place_def)
      ultimately show ?thesis using vf(2) by blast
    next
      case far: False
      from seek_law [OF vf(1) assms(2), of "q - int ?p"] assms(3) vf(2) obtain g where g:
        "seek_source env q (q - int ?p) ?f = Some (True, g)" "valid (g\<lparr>af_pos := u32_of_int q\<rparr>)" "same_ahead ?f g"
        "content (g\<lparr>af_pos := u32_of_int q\<rparr>) = content af" by auto
      have an: "ahead (g\<lparr>af_pos := u32_of_int q\<rparr>) = []" "ahead_ok (g\<lparr>af_pos := u32_of_int q\<rparr>)"
        using same_ahead_D [OF g(3)] pop(2,3) by simp_all
      have "audio_file_seek env (Some af) q = Some (0, Some (g\<lparr>af_pos := u32_of_int q\<rparr>))"
        unfolding audio_file_seek_def using in_range False far pop(1) g(1) by (auto simp: Let_def d)
      moreover have "file_ok (g\<lparr>af_pos := u32_of_int q\<rparr>)" using an g(2) by (simp add: file_ok_def)
      moreover have "place (g\<lparr>af_pos := u32_of_int q\<rparr>) = nat q"
        using an assms(2) q by (simp add: place_def c_arith flip: nat_uint_eq)
      ultimately show ?thesis using g(4) by blast
    qed
  qed
qed

lemma pause_resume_spec:
  assumes "file_ok af"
  shows "\<exists>af1 af2. audio_file_pause (Some af) = Some (0, Some af1) \<and>
    audio_file_resume env (Some af1) = Some (0, Some af2) \<and> file_ok af2 \<and> content af2 = content af \<and> place af2 = place af"
proof -
  from assms have "valid af" by (simp add: file_ok_def)
  from pause_law [OF this] obtain af1 af2 where p: "audio_file_pause (Some af) = Some (0, Some af1)"
    "audio_file_resume env (Some af1) = Some (0, Some af2)" "valid af2" "same_ahead af af2"
    "content af2 = content af" "af_pos af2 = af_pos af" by auto
  note same_ahead_D [OF p(4)]
  with p assms show ?thesis by (intro exI [of _ af1] exI [of _ af2]) (simp add: file_ok_def place_def)
qed

lemma preread_spec:
  assumes "file_ok af" "int (length (ahead af)) \<le> n" "n < 2147483648" "n \<le> int (length buf)"
    "allocator_ok (fe_mal env)" "\<And>k i. fe_mal env k i \<noteq> None"
  defines "m \<equiv> min (nat n) (length (content af) - place af)"
  shows "\<exists>af'. audio_file_preread env (Some af) buf n =
      Some (int m, take m (drop (place af) (content af)) @ drop m buf, af') \<and>
    file_ok af' \<and> content af' = content af \<and> place af' = place af"
proof -
  have n: "0 \<le> n" using assms(2) by linarith
  let ?b = "take m (drop (place af) (content af))"
  from read_spec [OF assms(1) n assms(3,4)] assms(2) obtain f where f:
    "audio_file_read env (Some af) buf n = Some (int m, ?b @ drop m buf, Some f)"
    "file_ok f" "content f = content af" "place f = place af + m" "ahead f = []"
    unfolding m_def by auto
  have lb: "length ?b = m" by (simp add: m_def)
  have mn: "int m \<le> n" using n by (simp add: m_def)
  have z: "af_preread_len f = 0" using length_ahead [of f] f(2,5) by (simp add: file_ok_def)
  let ?k = "web_alloc (af_web f)"
  obtain p where p: "fe_mal env ?k m = Some p" "length p = m"
    using assms(5,6) by (metis allocator_okD not_None_eq)
  let ?g = "f\<lparr>af_web := set_alloc (?k + 1) (af_web f), af_preread := Some ?b, af_preread_len := int m\<rparr>"
  have r: "mem_read (?b @ drop m buf) 0 (int m) = Some ?b" using mn assms(4) lb by (simp add: mem_read_ok)
  have w: "mem_write p 0 ?b = Some ?b" using p(2) lb by (simp add: mem_write_ok del: length_take)
  have old: "(case af_preread f of None \<Rightarrow> Some p
      | Some old \<Rightarrow> do { d \<leftarrow> mem_read old 0 (af_preread_len f); mem_write p 0 d }) = Some p"
    by (cases "af_preread f") (simp_all add: z mem_read_ok mem_write_ok)
  have "audio_file_push_preread env f (?b @ drop m buf) (int m) = Some (int m, ?g)"
    unfolding audio_file_push_preread_def using mn assms(3) old
    by (simp add: z c_arith malloc_int_def p(1) r w)
  then have "audio_file_preread env (Some af) buf n = Some (int m, ?b @ drop m buf, ?g)"
    unfolding audio_file_preread_def f(1) by simp
  moreover have a: "ahead ?g = ?b" "ahead_ok ?g" using lb by (simp_all add: ahead_def ahead_ok_def)
  have pos: "unat (af_pos f) = place af + m" using f(4,5) by (simp add: place_def)
  have v: "valid f" "length (content af) < 2147483648" using f(2) file_bounds [OF assms(1)] by (simp_all add: file_ok_def)
  then have "valid ?g" "content ?g = content af" using ahead_law f(3) by simp_all
  moreover from this have "file_ok ?g" using a pos lb by (simp add: file_ok_def del: length_take)
  moreover have "place ?g = place af" using a(1) pos lb by (simp add: place_def)
  ultimately show ?thesis by blast
qed

lemma step_cursor:
  assumes "file_ok af" "op_fits op"
  shows "\<exists>af'. file_step env op af = Some (fst (cursor_step (content af) op (place af)), af') \<and> file_ok af' \<and>
    content af' = content af \<and> place af' = snd (cursor_step (content af) op (place af))"
proof (cases op)
  case (Read_Op n)
  with assms have n: "0 \<le> n" "n < 2147483648" by simp_all
  let ?m = "min (nat n) (length (content af) - place af)" and ?buf = "replicate (nat n) (0 :: u8)"
  from read_spec [OF assms(1) n, of ?buf] n obtain f where f: "audio_file_read env (Some af) ?buf n =
      Some (int ?m, take ?m (drop (place af) (content af)) @ drop ?m ?buf, Some f)"
    "file_ok f" "content f = content af" "place f = place af + ?m" by auto
  then show ?thesis using Read_Op by (intro exI [of _ f]) (simp add: file_step_def Let_def)
next
  case (Seek_Op q)
  show ?thesis
  proof (cases "0 \<le> q \<and> q < int (length (content af))")
    case True
    with seek_spec [OF assms(1), of q] show ?thesis using Seek_Op by (auto simp: file_step_def)
  next
    case False
    with seek_out_of_range [OF assms(1), of q] show ?thesis using Seek_Op assms by (auto simp: file_step_def)
  qed
next
  case Pause_Op
  with pause_resume_spec [OF assms(1)] show ?thesis by (auto simp: file_step_def)
qed

lemma run_cursor:
  assumes "file_ok af" "list_all op_fits ops"
  shows "\<exists>af'. file_run env ops af = Some (fst (cursor_run (content af) ops (place af)), af') \<and> file_ok af' \<and>
    content af' = content af \<and> place af' = snd (cursor_run (content af) ops (place af))"
  using assms
proof (induction ops arbitrary: af)
  case (Cons op ops)
  from step_cursor [of af op] Cons.prems obtain f where f:
    "file_step env op af = Some (fst (cursor_step (content af) op (place af)), f)" "file_ok f"
    "content f = content af" "place f = snd (cursor_step (content af) op (place af))" by auto
  from Cons.IH [OF f(2)] Cons.prems f show ?case by (auto simp: case_prod_beta Let_def)
qed simp

text \<open>A session: some bytes are read ahead, then any operations follow.\<close>

lemma session:
  assumes "file_ok af" "ahead af = []" "place af = 0" "0 \<le> n" "n < 2147483648" "n \<le> int (length buf)"
    "allocator_ok (fe_mal env)" "\<And>k i. fe_mal env k i \<noteq> None" "list_all op_fits ops"
  shows "\<exists>m buf' af1 af2. audio_file_preread env (Some af) buf n = Some (m, buf', af1) \<and>
    m = min n (int (length (content af))) \<and> take (nat m) buf' = take (nat m) (content af) \<and>
    file_run env ops af1 = Some (fst (cursor_run (content af) ops 0), af2)"
proof -
  let ?m = "min (nat n) (length (content af))"
  from preread_spec [OF assms(1) _ assms(5-8)] assms(2-4) obtain f where f:
    "audio_file_preread env (Some af) buf n = Some (int ?m, take ?m (content af) @ drop ?m buf, f)"
    "file_ok f" "content f = content af" "place f = 0" by auto
  from run_cursor [OF f(2) assms(9)] f(3,4) obtain g where
    "file_run env ops f = Some (fst (cursor_run (content af) ops 0), g)" by auto
  moreover have "take (nat (int ?m)) (take ?m (content af) @ drop ?m buf) = take (nat (int ?m)) (content af)" by simp
  moreover have "int ?m = min n (int (length (content af)))" using assms(4) by simp
  ultimately show ?thesis using f(1) by blast
qed

end

section \<open>The card\<close>

definition card_content :: "audio_file \<Rightarrow> u8 list" where
  "card_content af = (case af_handle af of None \<Rightarrow> [] | Some h \<Rightarrow> fl_data h)"

definition card_valid :: "file_env \<Rightarrow> audio_file \<Rightarrow> bool" where
  "card_valid env af \<longleftrightarrow> af_type af = AUDIO_FILE_TYPE_SD_CARD \<and> af_state af = AUDIO_FILE_STA_OPEN \<and>
     Option.bind (object_string (af_path af)) (fe_fs env) = Some (card_content af) \<and>
     af_handle af = Some \<lparr>fl_data = card_content af, fl_pos = int (unat (af_pos af))\<rparr> \<and>
     card_content af \<noteq> [] \<and> length (card_content af) < 2147483648 \<and>
     unat (af_total af) = length (card_content af) \<and> unat (af_pos af) \<le> length (card_content af)"

lemma fa_read [simp]: "FA_READ \<noteq> 0"
  by (simp add: FA_READ_def)

lemma card_pos: "card_valid env af \<Longrightarrow> int_of_u32 (af_pos af) = int (unat (af_pos af))"
proof -
  assume "card_valid env af"
  then have "int (unat (af_pos af)) < 2147483648" by (simp only: card_valid_def) linarith
  then show ?thesis by (simp add: int_of_u32_small)
qed

lemma card_pause:
  assumes "card_valid env af"
  shows "\<exists>af1 af2. audio_file_pause (Some af) = Some (0, Some af1) \<and>
    audio_file_resume env (Some af1) = Some (0, Some af2) \<and> card_valid env af2 \<and> same_ahead af af2 \<and>
    card_content af2 = card_content af \<and> af_pos af2 = af_pos af"
proof -
  obtain name where name: "object_string (af_path af) = Some name" "fe_fs env name = Some (card_content af)"
    using assms by (auto simp: card_valid_def dest: bind_eq_SomeD)
  let ?g = "af\<lparr>af_handle := None, af_state := AUDIO_FILE_STA_PAUSE\<rparr>"
  have "audio_file_pause (Some af) = Some (0, Some ?g)"
    using assms by (simp add: card_valid_def audio_file_pause_def f_close_def)
  moreover have "audio_file_resume env (Some ?g) = Some (0, Some af)"
  proof -
    let ?o = "?g\<lparr>af_handle := Some \<lparr>fl_data = card_content af, fl_pos = 0\<rparr>\<rparr>"
    have "open_handle env ?g = Some (0, ?o)"
      using name by (simp add: open_handle_def f_open_def)
    then have "resume_card env ?g = Some (0, ?g\<lparr>af_handle := af_handle af\<rparr>)"
      using assms card_pos [OF assms] by (simp add: resume_card_def f_lseek_def card_valid_def)
    moreover have "?g\<lparr>af_handle := af_handle af, af_state := AUDIO_FILE_STA_OPEN\<rparr> = af"
      using assms by (simp add: card_valid_def)
    ultimately show ?thesis using assms by (simp add: audio_file_resume_def card_valid_def)
  qed
  ultimately show ?thesis using assms by (intro exI [of _ ?g] exI [of _ af]) (simp add: same_ahead_def)
qed

lemma card_read:
  assumes "card_valid env af" "0 < n" "n < 2147483648"
  shows "\<exists>af'. read_source env n af = Some (False, take (nat n) (drop (unat (af_pos af)) (card_content af)), af') \<and>
    card_valid env af' \<and> same_ahead af af' \<and> card_content af' = card_content af \<and>
    unat (af_pos af') = min (unat (af_pos af) + nat n) (length (card_content af))"
proof -
  let ?c = "card_content af" and ?p = "unat (af_pos af)"
  let ?bs = "take (nat n) (drop ?p ?c)"
  have v: "af_type af = AUDIO_FILE_TYPE_SD_CARD" "af_handle af = Some \<lparr>fl_data = ?c, fl_pos = int ?p\<rparr>"
    "length ?c < 2147483648" "?p \<le> length ?c" using assms(1) by (simp_all add: card_valid_def)
  let ?g = "af\<lparr>af_handle := Some \<lparr>fl_data = ?c, fl_pos = int ?p + int (length ?bs)\<rparr>, af_pos := af_pos af + of_nat (length ?bs)\<rparr>"
  have r: "read_source env n af = Some (False, ?bs, ?g)"
    using v(1,2) assms(2) by (simp add: read_source_def read_card_def f_read_def)
  have l: "?p + length ?bs \<le> length ?c" using v(4) by simp
  then have pos: "unat (af_pos ?g) = ?p + length ?bs"
    using v(3) unat_of_nat_u32 [of "length ?bs"] by (simp add: unat_word_ariths del: length_take)
  then have "card_valid env ?g" using assms(1) l by (simp add: card_valid_def card_content_def del: length_take)
  moreover have "?p + length ?bs = min (?p + nat n) (length ?c)" using v(4) by simp
  ultimately show ?thesis using r pos by (intro exI [of _ ?g]) (simp add: same_ahead_def card_content_def del: length_take)
qed

lemma card_seek:
  assumes "card_valid env af" "0 \<le> p" "p < int (length (card_content af))"
  shows "\<exists>af'. seek_source env p diff af = Some (True, af') \<and> card_valid env (af'\<lparr>af_pos := u32_of_int p\<rparr>) \<and>
    same_ahead af af' \<and> card_content (af'\<lparr>af_pos := u32_of_int p\<rparr>) = card_content af"
proof -
  have v: "af_type af = AUDIO_FILE_TYPE_SD_CARD" "length (card_content af) < 2147483648"
    "af_handle af = Some \<lparr>fl_data = card_content af, fl_pos = int (unat (af_pos af))\<rparr>"
    using assms(1) by (simp_all add: card_valid_def)
  let ?g = "af\<lparr>af_handle := Some \<lparr>fl_data = card_content af, fl_pos = p\<rparr>\<rparr>"
  have "unat (u32_of_int p) = nat p" using assms(2,3) v(2) by (simp add: c_arith flip: nat_uint_eq)
  then have "card_valid env (?g\<lparr>af_pos := u32_of_int p\<rparr>)" using assms
    by (simp add: card_valid_def card_content_def)
  moreover have "seek_source env p diff af = Some (True, ?g)"
    using v(1,3) assms(2) by (simp add: seek_source_def seek_card_def f_lseek_def)
  ultimately show ?thesis using assms by (intro exI [of _ ?g]) (simp add: same_ahead_def card_content_def)
qed

interpretation card: file_source env card_content "card_valid env" for env
proof
  show "card_valid env af \<Longrightarrow> unat (af_pos af) \<le> length (card_content af) \<and>
      length (card_content af) < 2147483648 \<and> card_content af \<noteq> [] \<and> unat (af_total af) = length (card_content af)" for af
    by (simp add: card_valid_def)
qed (use card_read card_seek card_pause in \<open>simp_all add: card_valid_def card_content_def\<close>)

text \<open>Opening establishes the contract at the start of the file.\<close>

lemma card_open:
  assumes "object_string (take AUDIO_FILE_MAX_PATH_SIZE (path @ replicate AUDIO_FILE_MAX_PATH_SIZE 0)) = Some name"
    "fe_fs env name = Some c" "c \<noteq> []" "length c < 2147483648" "fe_mal env (web_alloc w) 2360 \<noteq> None"
  shows "\<exists>af w'. audio_file_open env path AUDIO_FILE_TYPE_SD_CARD rng w = Some (Some af, w') \<and>
    card.file_ok env af \<and> card_content af = c \<and> card.place af = 0 \<and> ahead af = []"
proof -
  have u: "int_of_u32 (u32_of_int (int (length c))) = int (length c)" "unat (u32_of_int (int (length c))) = length c"
    using assms(4) by (simp_all add: c_arith flip: nat_uint_eq)
  then have nz: "u32_of_int (int (length c)) \<noteq> 0" using assms(3) by (metis length_0_conv unat_0)
  show ?thesis using assms u nz
    by (auto simp: audio_file_open_def open_card_def open_handle_def f_open_def f_size_def Let_def
        card.file_ok_def card_valid_def card_content_def card.place_def ahead_def ahead_ok_def)
qed

section \<open>A prompt sound\<close>

text \<open>The number of the image and the offset in it.\<close>

definition flash_slot :: "audio_file \<Rightarrow> nat \<times> u32" where
  "flash_slot af = (flash_image (af_prompt af), 0x0FFFFFFF AND af_prompt af)"

definition flash_content :: "file_env \<Rightarrow> audio_file \<Rightarrow> u8 list" where
  "flash_content env af =
     take (unat (af_total af)) (drop (unat (snd (flash_slot af))) (fe_img env (fst (flash_slot af))))"

definition flash_valid :: "file_env \<Rightarrow> audio_file \<Rightarrow> bool" where
  "flash_valid env af \<longleftrightarrow> af_type af = AUDIO_FILE_TYPE_FLASH \<and> af_state af = AUDIO_FILE_STA_OPEN \<and>
     fst (flash_slot af) < 4 \<and> af_prompt af = image_base (fst (flash_slot af)) + snd (flash_slot af) \<and>
     unat (snd (flash_slot af)) + unat (af_total af) \<le> length (fe_img env (fst (flash_slot af))) \<and>
     unat (snd (flash_slot af)) + unat (af_total af) \<le> 268435456 \<and> af_total af \<noteq> 0 \<and>
     af_pos af \<le> af_total af \<and> (\<forall>k n. fe_mal env k n \<noteq> None)"

lemma flash_length: "flash_valid env af \<Longrightarrow> length (flash_content env af) = unat (af_total af)"
  by (auto simp: flash_valid_def flash_content_def)

lemma flash_bytes:
  assumes "flash_valid env af" "unat (af_pos af) + n \<le> unat (af_total af)" "0 < n"
  shows "prompt_audio_data_get_by_offset (fe_mal env) k (fe_img env) (af_prompt af + af_pos af) (of_nat n) =
    Some (Some (take n (drop (unat (af_pos af)) (flash_content env af))))"
proof -
  let ?d = "fst (flash_slot af)" and ?o = "snd (flash_slot af)" and ?p = "unat (af_pos af)"
  have v: "?d < 4" "af_prompt af = image_base ?d + ?o" "unat ?o + unat (af_total af) \<le> length (fe_img env ?d)"
    "unat ?o + unat (af_total af) \<le> 268435456" "fe_mal env k n \<noteq> None"
    using assms(1) by (simp_all add: flash_valid_def)
  have x: "unat (?o + af_pos af) = unat ?o + ?p"
    by (rule unat_add_lem [THEN iffD1]) (use v(4) assms(2) in simp)
  have ux: "uint (?o + af_pos af) = int (unat ?o + ?p)" using x by (metis uint_nat)
  have n: "unat (of_nat n :: u32) = n" "uint (of_nat n :: u32) = int n"
    using assms(2) v(4) by (intro unat_of_nat_u32 uint_of_nat_u32; linarith)+
  have "int n < 2147483648" using assms(2) v(4) by linarith
  then have i: "int_of_u32 (of_nat n) = int n" using n(2) by (simp add: int_of_u32_small)
  have "flash_read (fe_img env) (image_base ?d + (?o + af_pos af)) (int n) =
      Some (0, take (nat (int n)) (drop (unat (?o + af_pos af)) (fe_img env ?d)))"
  proof (rule flash_read_image [OF v(1)])
    show "uint (?o + af_pos af) < 268435456" unfolding ux using v(4) assms(2,3) by linarith
    show "uint (?o + af_pos af) + int n \<le> int (length (fe_img env ?d))"
      unfolding ux using v(3) assms(2) by linarith
  qed simp
  moreover have "take (nat (int n)) (drop (unat (?o + af_pos af)) (fe_img env ?d)) =
      take n (drop ?p (flash_content env af))"
    unfolding x flash_content_def using assms(2) by (simp add: drop_take min_def add.commute)
  ultimately have "flash_read (fe_img env) (af_prompt af + af_pos af) (int n) =
      Some (0, take n (drop ?p (flash_content env af)))"
    by (simp only: v(2) add.assoc)
  moreover have "length (take n (drop ?p (flash_content env af))) = n"
    using assms(2) by (simp add: flash_length [OF assms(1)])
  ultimately show ?thesis using v(5)
    by (auto simp: prompt_audio_data_get_by_offset_def pv_port_calloc_def ROM_BASE_def i n(1) mem_write_ok
        simp del: length_take)
qed

lemma flash_read_source:
  assumes "flash_valid env af" "0 < n" "n < 2147483648"
  shows "\<exists>af'. read_source env n af = Some (False, take (nat n) (drop (unat (af_pos af)) (flash_content env af)), af') \<and>
    flash_valid env af' \<and> same_ahead af af' \<and> flash_content env af' = flash_content env af \<and>
    unat (af_pos af') = min (unat (af_pos af) + nat n) (length (flash_content env af))"
proof -
  let ?p = "unat (af_pos af)" and ?t = "unat (af_total af)" and ?c = "flash_content env af"
  define m where "m = min (nat n) (?t - ?p)"
  have v: "af_type af = AUDIO_FILE_TYPE_FLASH" "?p \<le> ?t" "?t \<le> 268435456"
    using assms(1) by (simp_all add: flash_valid_def word_le_nat_alt)
  have un: "unat (u32_of_int n) = nat n" using assms(2,3) by (simp add: c_arith flip: nat_uint_eq)
  have len: "(if af_total af < u32_of_int n + af_pos af then af_total af - af_pos af else u32_of_int n) = of_nat m"
  proof -
    have "unat (u32_of_int n + af_pos af) = nat n + ?p"
      by (subst unat_add_lem [THEN iffD1]) (use un v(2,3) assms(3) in simp_all)
    moreover have "of_nat (?t - ?p) = af_total af - af_pos af" using v(2) by (simp add: of_nat_diff)
    moreover have "of_nat (nat n) = u32_of_int n" unfolding un [symmetric] by simp
    ultimately show ?thesis by (auto simp: word_less_nat_alt m_def min_def)
  qed
  have t: "take m (drop ?p ?c) = take (nat n) (drop ?p ?c)"
    using flash_length [OF assms(1)] by (simp add: m_def min_def)
  have lm: "m < 4294967296" using v(3) by (simp add: m_def)
  show ?thesis
  proof (cases "m = 0")
    case True
    then have "?p = ?t" using assms(2) v(2) by (simp add: m_def min_def split: if_splits)
    moreover have "read_source env n af = Some (False, [], af)"
      using True len v(1) by (simp add: read_source_def read_flash_def Let_def)
    ultimately show ?thesis using assms(1) flash_length [OF assms(1)]
      by (intro exI [of _ af]) (simp add: same_ahead_def)
  next
    case False
    then have nz: "(of_nat m :: u32) \<noteq> 0" using unat_of_nat_u32 [OF lm] by (metis unat_0)
    let ?g = "af\<lparr>af_web := set_alloc (web_alloc (af_web af) + 1) (af_web af), af_pos := af_pos af + of_nat m\<rparr>"
    have mt: "?p + m \<le> ?t" using v(2) by (simp add: m_def)
    have "read_source env n af = Some (False, take m (drop ?p ?c), ?g)"
      using flash_bytes [OF assms(1) mt] False v(1) nz
      by (simp add: read_source_def read_flash_def len del: length_take)
    moreover have pos: "unat (af_pos af + of_nat m) = ?p + m"
      by (subst unat_add_lem [THEN iffD1]) (use unat_of_nat_u32 [OF lm] mt v(3) in simp_all)
    then have "flash_valid env ?g" using assms(1) mt
      by (simp add: flash_valid_def flash_slot_def word_le_nat_alt)
    moreover have "?p + m = min (?p + nat n) (length ?c)"
      using v(2) flash_length [OF assms(1)] unfolding m_def by linarith
    ultimately show ?thesis using pos unfolding t
      by (intro exI [of _ ?g]) (simp add: same_ahead_def flash_content_def flash_slot_def)
  qed
qed

interpretation flash: file_source env "flash_content env" "flash_valid env" for env
proof
  fix af
  assume v: "flash_valid env af"
  note l = flash_length [OF v]
  show "unat (af_pos af) \<le> length (flash_content env af) \<and> length (flash_content env af) < 2147483648 \<and>
      flash_content env af \<noteq> [] \<and> unat (af_total af) = length (flash_content env af)"
    using v l by (auto simp: flash_valid_def word_le_nat_alt unat_gt_0 simp flip: length_greater_0_conv)
  show "\<exists>af1 af2. audio_file_pause (Some af) = Some (0, Some af1) \<and>
      audio_file_resume env (Some af1) = Some (0, Some af2) \<and> flash_valid env af2 \<and> same_ahead af af2 \<and>
      flash_content env af2 = flash_content env af \<and> af_pos af2 = af_pos af"
    using v by (simp add: flash_valid_def audio_file_pause_def audio_file_resume_def same_ahead_def
        flash_content_def flash_slot_def)
next
  fix af p diff
  assume v: "flash_valid env af" and p: "0 \<le> p" "p < int (length (flash_content env af))"
  have "p < 4294967296" using p flash_length [OF v] v by (simp only: flash_valid_def) linarith
  then have "unat (u32_of_int p) = nat p" using p(1) by (simp add: c_arith flip: nat_uint_eq)
  moreover have "nat p \<le> unat (af_total af)" using p unfolding flash_length [OF v] by linarith
  ultimately have "u32_of_int p \<le> af_total af" by (simp add: word_le_nat_alt)
  with v show "\<exists>af'. seek_source env p diff af = Some (True, af') \<and> flash_valid env (af'\<lparr>af_pos := u32_of_int p\<rparr>) \<and>
      same_ahead af af' \<and> flash_content env (af'\<lparr>af_pos := u32_of_int p\<rparr>) = flash_content env af"
    by (simp add: seek_source_def flash_valid_def same_ahead_def flash_content_def flash_slot_def)
qed (use flash_read_source in \<open>simp_all add: flash_valid_def flash_content_def flash_slot_def\<close>)

lemma flash_open:
  assumes "object_string (take AUDIO_FILE_MAX_PATH_SIZE (path @ replicate AUDIO_FILE_MAX_PATH_SIZE 0)) = Some name"
    "map (char_of \<circ> unat) name = fst (data_info ! d) ! k" "d < 4" "k < length (fst (data_info ! d))"
    "image_entry (fe_img env d) k off sound" "sound \<noteq> []" "unat off + length sound \<le> 268435456"
    "\<And>k n. fe_mal env k n \<noteq> None"
  shows "\<exists>af w'. audio_file_open env path AUDIO_FILE_TYPE_FLASH rng w = Some (Some af, w') \<and>
    flash.file_ok env af \<and> flash_content env af = sound \<and> flash.place af = 0 \<and> ahead af = []"
proof -
  have e: "uint off < 268435456" "unat off + length sound \<le> length (fe_img env d)" "length sound < 4294967296"
    "take (length sound) (drop (unat off) (fe_img env d)) = sound"
    using assms(5) by (simp_all add: image_entry_def)
  note fi = flash_image_base [OF assms(3) e(1)]
  have u: "unat (of_nat (length sound) :: u32) = length sound" using e(3) by (rule unat_of_nat_u32)
  then have nz: "of_nat (length sound) \<noteq> (0 :: u32)" using assms(6) by (metis length_0_conv unat_0)
  have pi: "prompt_addr_info_get (fe_img env) (Some (map (char_of \<circ> unat) name)) =
      Some (Some (image_base d + off, of_nat (length sound)))"
    unfolding assms(2) using prompt_info [where img = "fe_img env", OF assms(3-5)] .
  obtain m where m: "fe_mal env (web_alloc w) 2360 = Some m" using assms(8) by blast
  show ?thesis using assms e u nz pi fi m
    by (simp add: audio_file_open_def open_flash_def Let_def flash.file_ok_def flash_valid_def flash_content_def
        flash_slot_def flash.place_def ahead_def ahead_ok_def)
qed

section \<open>A session\<close>

text \<open>The path as the structure keeps it, and what a path holds: a file of the card, or the sound of
  that name in flash.\<close>

definition kept_path :: "u8 list \<Rightarrow> u8 list option" where
  "kept_path path = object_string (take AUDIO_FILE_MAX_PATH_SIZE (path @ replicate AUDIO_FILE_MAX_PATH_SIZE 0))"

definition prompt_at :: "images \<Rightarrow> string \<Rightarrow> nat \<Rightarrow> nat \<Rightarrow> u32 \<Rightarrow> u8 list \<Rightarrow> bool" where
  "prompt_at img name d k off sound \<longleftrightarrow> d < 4 \<and> k < length (fst (data_info ! d)) \<and> name = fst (data_info ! d) ! k \<and>
     image_entry (img d) k off sound \<and> unat off + length sound \<le> 268435456"

definition source_holds :: "file_env \<Rightarrow> u8 list \<Rightarrow> audio_file_type \<Rightarrow> u8 list \<Rightarrow> bool" where
  "source_holds env path ty c \<longleftrightarrow> c \<noteq> [] \<and> (\<exists>name. kept_path path = Some name \<and> (case ty of
      AUDIO_FILE_TYPE_SD_CARD \<Rightarrow> fe_fs env name = Some c \<and> length c < 2147483648
    | AUDIO_FILE_TYPE_FLASH \<Rightarrow> \<exists>d k off. prompt_at (fe_img env) (map (char_of \<circ> unat) name) d k off c
    | AUDIO_FILE_TYPE_WEB \<Rightarrow> False))"

text \<open>Such a path opens, at the first byte and with nothing read ahead.\<close>

lemma source_open:
  assumes "source_holds env path ty c" "\<And>k i. fe_mal env k i \<noteq> None"
  obtains (card) af w' where "ty = AUDIO_FILE_TYPE_SD_CARD" "audio_file_open env path ty rng w = Some (Some af, w')"
      "card.file_ok env af" "card_content af = c" "card.place af = 0" "ahead af = []"
    | (flash) af w' where "ty = AUDIO_FILE_TYPE_FLASH" "audio_file_open env path ty rng w = Some (Some af, w')"
      "flash.file_ok env af" "flash_content env af = c" "flash.place af = 0" "ahead af = []"
proof -
  from assms(1) obtain name where name: "kept_path path = Some name" "c \<noteq> []" by (auto simp: source_holds_def)
  show thesis
  proof (cases ty)
    case AUDIO_FILE_TYPE_WEB
    with assms(1) show thesis by (simp add: source_holds_def)
  next
    case AUDIO_FILE_TYPE_SD_CARD
    with assms(1) name have c: "fe_fs env name = Some c" "length c < 2147483648" by (auto simp: source_holds_def)
    from card_open [OF name(1) [unfolded kept_path_def] c(1) name(2) c(2) assms(2)] AUDIO_FILE_TYPE_SD_CARD card
    show thesis by blast
  next
    case AUDIO_FILE_TYPE_FLASH
    with assms(1) name obtain d k off where c: "prompt_at (fe_img env) (map (char_of \<circ> unat) name) d k off c"
      by (auto simp: source_holds_def)
    have p: "map (char_of \<circ> unat) name = fst (data_info ! d) ! k" "d < 4" "k < length (fst (data_info ! d))"
      "image_entry (fe_img env d) k off c" "unat off + length c \<le> 268435456"
      using c by (simp_all add: prompt_at_def)
    from flash_open [OF name(1) [unfolded kept_path_def] p(1-4) name(2) p(5) assms(2)] AUDIO_FILE_TYPE_FLASH flash
    show thesis by blast
  qed
qed

lemma source_session:
  assumes "source_holds env path ty c" "allocator_ok (fe_mal env)" "\<And>k i. fe_mal env k i \<noteq> None"
    "0 \<le> n" "n < 2147483648" "n \<le> int (length buf)" "list_all op_fits ops"
  shows "\<exists>af w' m buf' af1 af2. audio_file_open env path ty rng w = Some (Some af, w') \<and>
    audio_file_preread env (Some af) buf n = Some (m, buf', af1) \<and>
    m = min n (int (length c)) \<and> take (nat m) buf' = take (nat m) c \<and>
    file_run env ops af1 = Some (fst (cursor_run c ops 0), af2)"
proof (rule source_open [OF assms(1,3), of rng w])
  fix af w'
  assume o: "audio_file_open env path ty rng w = Some (Some af, w')" "card.file_ok env af" "card_content af = c"
    "card.place af = 0" "ahead af = []"
  from card.session [OF o(2,5,4) assms(4-6,2,3,7)] show ?thesis using o(1) unfolding o(3) by blast
next
  fix af w'
  assume o: "audio_file_open env path ty rng w = Some (Some af, w')" "flash.file_ok env af" "flash_content env af = c"
    "flash.place af = 0" "ahead af = []"
  from flash.session [OF o(2,5,4) assms(4-6,2,3,7)] show ?thesis using o(1) unfolding o(3) by blast
qed

section \<open>A finished download\<close>

text \<open>The task is idle: whoever looks finds what was there before. \<open>web_ready\<close> asks for
  enough looks for a read of \<open>n\<close> bytes, which takes two for each 100 KB and two at the end.\<close>

definition web_done :: "audio_file \<Rightarrow> bool" where
  "web_done af \<longleftrightarrow> af_type af = AUDIO_FILE_TYPE_WEB \<and> web_finished (af_web af) \<and> common_wf (web_buffer (af_web af)) \<and>
     (\<forall>g \<in> set (wb_looks (af_web af)). g = id) \<and> ahead_ok af"

definition web_rest :: "audio_file \<Rightarrow> u8 list" where
  "web_rest af = common_contents (web_buffer (af_web af))"

definition read_looks :: "int \<Rightarrow> nat" where
  "read_looks n = (if n \<le> 0 then 0 else 2 * (nat n div 102400 + 2))"

lemma look_done:
  assumes "web_done af" "wb_looks (af_web af) \<noteq> []"
  shows "look (af_web af) = Some ((af_web af)\<lparr>wb_looks := tl (wb_looks (af_web af))\<rparr>)"
  using assms by (cases "wb_looks (af_web af)") (auto simp: look_def web_done_def)

lemma web_parts [simp]:
  "web_buffer (w\<lparr>wb_looks := gs\<rparr>) = web_buffer w" "web_finished (w\<lparr>wb_looks := gs\<rparr>) = web_finished w"
  "web_proc (w\<lparr>wb_looks := gs\<rparr>) = web_proc w" "web_net (w\<lparr>wb_looks := gs\<rparr>) = web_net w"
  "web_state (w\<lparr>wb_looks := gs\<rparr>) = web_state w" "web_alloc (w\<lparr>wb_looks := gs\<rparr>) = web_alloc w"
  "web_buffer (set_buffer cb w) = cb" "web_finished (set_buffer cb w) = web_finished w"
  "wb_looks (set_buffer cb w) = wb_looks w" "web_proc (set_buffer cb w) = web_proc w"
  "web_net (set_buffer cb w) = web_net w" "web_state (set_buffer cb w) = web_state w"
  by (simp_all add: web_buffer_def web_finished_def web_proc_def web_net_def web_state_def web_alloc_def
      set_buffer_def put_web_def)

text \<open>The state after a read: the same file with another download record and position.\<close>

definition web_moved :: "audio_file \<Rightarrow> nat \<Rightarrow> nat \<Rightarrow> audio_file \<Rightarrow> bool" where
  "web_moved af k m af' \<longleftrightarrow> web_done af' \<and> web_rest af' = drop k (web_rest af) \<and>
     (\<exists>w. af' = af\<lparr>af_web := w, af_pos := af_pos af + of_nat (min k (length (web_rest af)))\<rparr> \<and>
       web_proc w = web_proc (af_web af) \<and> length (wb_looks (af_web af)) \<le> length (wb_looks w) + m)"

lemma two_looks:
  assumes "web_done af" "2 \<le> length (wb_looks (af_web af))"
  obtains gs where "look (af_web af) = Some ((af_web af)\<lparr>wb_looks := tl (wb_looks (af_web af))\<rparr>)"
    "look ((af_web af)\<lparr>wb_looks := tl (wb_looks (af_web af))\<rparr>) = Some ((af_web af)\<lparr>wb_looks := gs\<rparr>)"
    "web_done (af\<lparr>af_web := (af_web af)\<lparr>wb_looks := gs\<rparr>\<rparr>)" "length (wb_looks (af_web af)) = length gs + 2"
proof -
  from assms(2) obtain g1 g2 gs where gs: "wb_looks (af_web af) = g1 # g2 # gs"
    by (cases "wb_looks (af_web af)" rule: remdups_adj.cases) auto
  with assms(1) have g: "g1 = id" "g2 = id" "\<forall>g \<in> set gs. g = id" by (simp_all add: web_done_def)
  show ?thesis
    using assms(1) gs g by (intro that [of gs]) (auto simp: look_def web_done_def ahead_ok_def split: option.splits)
qed

lemma web_read_empty:
  assumes "web_done af" "web_rest af = []" "0 < left" "2 \<le> length (wb_looks (af_web af))"
  shows "\<exists>af'. web_read_loop env left acc af = Some (False, acc, af') \<and> web_moved af k 2 af'"
proof -
  have fin: "web_finished (af_web af)" and wf: "common_wf (web_buffer (af_web af))"
    using assms(1) by (simp_all add: web_done_def)
  note count = common_get_count [OF wf]
  obtain gs where gs: "look (af_web af) = Some ((af_web af)\<lparr>wb_looks := tl (wb_looks (af_web af))\<rparr>)"
    "look ((af_web af)\<lparr>wb_looks := tl (wb_looks (af_web af))\<rparr>) = Some ((af_web af)\<lparr>wb_looks := gs\<rparr>)"
    "web_done (af\<lparr>af_web := (af_web af)\<lparr>wb_looks := gs\<rparr>\<rparr>)" "length (wb_looks (af_web af)) = length gs + 2"
    using two_looks [OF assms(1,4)] by blast
  have "web_read_loop env left acc af = Some (False, acc, af\<lparr>af_web := (af_web af)\<lparr>wb_looks := gs\<rparr>\<rparr>)"
    using assms(2,3) gs(1,2) count fin by (subst web_read_loop.simps) (simp add: web_rest_def Let_def)
  then show ?thesis using assms(2,3) gs(3,4) by (auto simp: web_moved_def web_rest_def)
qed

lemma web_read_finished:
  assumes "web_done af" "left < 2147483648" "read_looks left \<le> length (wb_looks (af_web af))"
  shows "\<exists>af'. web_read_loop env left acc af = Some (False, acc @ take (nat left) (web_rest af), af') \<and>
    web_moved af (nat left) (read_looks left) af'"
  using assms
proof (induction "nat left" arbitrary: left acc af rule: less_induct)
  case less
  let ?w = "af_web af" and ?c = "web_rest af"
  consider "left \<le> 0" | "0 < left" "?c = []" | "0 < left" "?c \<noteq> []" by linarith
  then show ?case
  proof cases
    case 1
    then show ?thesis using less.prems
      by (intro exI [of _ af]) (auto simp: web_read_loop.simps web_moved_def intro!: exI [of _ ?w])
  next
    case 2
    then have r: "2 \<le> read_looks left" by (simp add: read_looks_def)
    with less.prems(3) web_read_empty [OF less.prems(1) 2(2,1)] obtain g where
      "web_read_loop env left acc af = Some (False, acc, g)" "web_moved af (nat left) 2 g" by (meson order_trans)
    with 2 r show ?thesis by (auto simp: web_moved_def)
  next
    case 3
    let ?n = "if left < AUDIO_FILE_HTTP_MAX_SEEK then left else AUDIO_FILE_HTTP_MAX_SEEK"
    have n: "0 < ?n" "?n \<le> left" "?n \<le> 102400" using 3(1) by (auto simp: AUDIO_FILE_HTTP_MAX_SEEK_def)
    have fin: "web_finished ?w" and wf: "common_wf (web_buffer ?w)" using less.prems(1) by (simp_all add: web_done_def)
    note count = common_get_count [OF wf]
    have "2 \<le> length (wb_looks ?w)" using less.prems(3) 3(1) by (simp add: read_looks_def)
    then obtain gs where gs: "look ?w = Some (?w\<lparr>wb_looks := tl (wb_looks ?w)\<rparr>)"
      "look (?w\<lparr>wb_looks := tl (wb_looks ?w)\<rparr>) = Some (?w\<lparr>wb_looks := gs\<rparr>)"
      "web_done (af\<lparr>af_web := ?w\<lparr>wb_looks := gs\<rparr>\<rparr>)" "length (wb_looks ?w) = length gs + 2"
      using two_looks [OF less.prems(1)] by blast
    define k where "k = min (nat ?n) (length ?c)"
    have un: "unat (u32_of_int ?n) = nat ?n" using n(1,3) by (simp add: c_arith flip: nat_uint_eq)
    from common_pop [OF wf, where req = "u32_of_int ?n" and wanted = True] obtain ret cb where p:
      "common_buffer_pop (web_buffer ?w) True (u32_of_int ?n) = Some (ret, of_nat k, take k ?c, cb)"
      "common_wf cb" "common_contents cb = drop k ?c"
      unfolding un k_def web_rest_def by auto
    have k: "0 < k" "int k \<le> ?n" "k \<le> length ?c" using 3(2) n(1) by (auto simp: k_def)
    let ?f = "af\<lparr>af_web := set_buffer cb (?w\<lparr>wb_looks := gs\<rparr>), af_pos := af_pos af + of_nat k\<rparr>"
    have li: "int_of_u32 (u32_of_int left - of_nat k) = left - int k"
    proof -
      have "u32_of_int left - of_nat k = u32_of_int (left - int k)" by (simp add: u32_of_int_def)
      moreover have "0 \<le> left - int k" "left - int k < 2147483648" using k(2) n(2) less.prems(2) by linarith+
      ultimately show ?thesis by (simp add: c_arith)
    qed
    have step: "web_read_loop env left acc af = web_read_loop env (left - int k) (acc @ take k ?c) ?f"
      using 3 gs(1,2) count fin p(1) li
      by (subst web_read_loop.simps) (simp add: web_rest_def Let_def split del: if_split)
    have d: "web_done ?f" "web_rest ?f = drop k ?c" "wb_looks (af_web ?f) = gs" "af_pos ?f = af_pos af + of_nat k"
      "web_proc (af_web ?f) = web_proc ?w"
      using gs(3) p(2,3) by (auto simp: web_done_def web_rest_def ahead_ok_def split: option.splits)
    have "\<exists>g m. web_read_loop env (left - int k) (acc @ take k ?c) ?f =
        Some (False, (acc @ take k ?c) @ take (nat (left - int k)) (drop k ?c), g) \<and>
      web_moved ?f (nat (left - int k)) m g \<and> m + 2 \<le> read_looks left"
    proof (cases "k = length ?c \<and> int k < left")
      case True
      then have l: "0 < left - int k" "2 \<le> length (wb_looks (af_web ?f))" "2 + 2 \<le> read_looks left"
        using less.prems(3) gs(4) 3(1) d(3) by (auto simp: read_looks_def)
      have "web_rest ?f = []" using d(2) True by simp
      from web_read_empty [OF d(1) this l(1,2)] obtain g where
        "web_read_loop env (left - int k) (acc @ take k ?c) ?f = Some (False, acc @ take k ?c, g)"
        "web_moved ?f (nat (left - int k)) 2 g" by blast
      with True l(3) show ?thesis by (intro exI [of _ g] exI [of _ 2]) simp
    next
      case False
      then have f: "int k = left \<or> k = 102400"
        using k n by (auto simp: k_def AUDIO_FILE_HTTP_MAX_SEEK_def min_def split: if_splits)
      then have r: "read_looks (left - int k) + 2 \<le> read_looks left"
        using 3(1) k(2) n(2) by (auto simp: read_looks_def nat_diff_distrib le_div_geq)
      then have "read_looks (left - int k) \<le> length (wb_looks (af_web ?f))" 
        using less.prems(3) gs(4) unfolding d(3) by linarith
      moreover have "nat (left - int k) < nat left" "left - int k < 2147483648" using k(1) 3(1) less.prems(2) by linarith+
      ultimately show ?thesis using less.hyps [of "left - int k" ?f "acc @ take k ?c"] d(1) r unfolding d(2) by blast
    qed
    then obtain g m where g: "web_read_loop env left acc af = Some (False, (acc @ take k ?c) @ take (nat (left - int k)) (drop k ?c), g)"
      "web_moved ?f (nat (left - int k)) m g" "m + 2 \<le> read_looks left"
      unfolding step by blast
    have kl: "k + (nat left - k) = nat left" "k + min (nat left - k) (length ?c - k) = min (nat left) (length ?c)"
      "nat (left - int k) = nat left - k"
      using k(2,3) n(2) by auto
    have "take k ?c @ take (nat (left - int k)) (drop k ?c) = take (nat left) ?c"
      unfolding kl(3) by (metis kl(1) take_add)
    moreover have "web_moved af (nat left) (read_looks left) g"
    proof -
      from g(2) obtain w where w: "web_done g" "web_rest g = drop (nat left - k) (drop k ?c)"
        "g = ?f\<lparr>af_web := w, af_pos := af_pos ?f + of_nat (min (nat left - k) (length ?c - k))\<rparr>"
        "web_proc w = web_proc ?w" "length gs \<le> length (wb_looks w) + m"
        unfolding web_moved_def d(2,3,5) kl(3) length_drop by blast
      have "af_pos ?f + of_nat (min (nat left - k) (length ?c - k)) = af_pos af + of_nat (min (nat left) (length ?c))"
        unfolding d(4) kl(2) [symmetric] by simp
      then have "g = af\<lparr>af_web := w, af_pos := af_pos af + of_nat (min (nat left) (length ?c))\<rparr>"
        using w(3) by simp
      moreover have "web_rest g = drop (nat left) ?c" using w(2) kl(1) by (simp add: add.commute)
      moreover have "length (wb_looks ?w) \<le> length (wb_looks w) + read_looks left" using w(5) g(3) gs(4) by linarith
      ultimately show ?thesis using w(1,4) unfolding web_moved_def by blast
    qed
    ultimately show ?thesis using g(1) by (intro exI [of _ g]) simp
  qed
qed

definition web_stream :: "audio_file \<Rightarrow> u8 list" where
  "web_stream af = ahead af @ web_rest af"

lemma read_done:
  assumes "web_done af" "0 \<le> n" "n < 2147483648" "n \<le> int (length buf)"
    "read_looks n \<le> length (wb_looks (af_web af))"
  defines "m \<equiv> min (nat n) (length (web_stream af))"
  shows "\<exists>af'. audio_file_read env (Some af) buf n = Some (int m, take m (web_stream af) @ drop m buf, Some af') \<and>
    web_done af' \<and> web_stream af' = drop m (web_stream af) \<and>
    length (wb_looks (af_web af)) \<le> length (wb_looks (af_web af')) + read_looks n"
proof -
  let ?a = "ahead af" and ?c = "web_rest af"
  have ok: "ahead_ok af" "af_type af = AUDIO_FILE_TYPE_WEB" using assms(1) by (simp_all add: web_done_def)
  from pop_preread_spec [OF ok(1) assms(2), of True] obtain b l where pop:
    "audio_file_pop_preread af True n = Some (take (nat n) ?a, int (min (nat n) (length ?a)), af\<lparr>af_preread := b, af_preread_len := l\<rparr>)"
    "ahead (af\<lparr>af_preread := b, af_preread_len := l\<rparr>) = drop (nat n) ?a" "ahead_ok (af\<lparr>af_preread := b, af_preread_len := l\<rparr>)"
    by auto
  let ?f = "af\<lparr>af_preread := b, af_preread_len := l\<rparr>"
  have d: "web_done ?f" "web_rest ?f = ?c" using assms(1) pop(3) by (simp_all add: web_done_def web_rest_def)
  have w: "mem_write buf 0 (take (nat n) ?a) = Some (take (nat n) ?a @ drop (min (length ?a) (nat n)) buf)"
    using assms(2,4) by (simp add: mem_write_ok)
  show ?thesis
  proof (cases "nat n \<le> length ?a")
    case True
    then have m: "m = nat n" by (simp add: m_def web_stream_def)
    have "audio_file_read env (Some af) buf n = Some (int m, take m (web_stream af) @ drop m buf, Some ?f)"
      using pop(1) w True assms(2,3) m by (simp add: audio_file_read_def c_arith min_absorb1 min_absorb2 web_stream_def)
    then show ?thesis using d pop(2) True m by (intro exI [of _ ?f]) (simp add: web_stream_def)
  next
    case False
    let ?l = "n - int (length ?a)"
    have l: "0 < ?l" "?l < 2147483648" "nat ?l = nat n - length ?a" using False assms(2,3) by auto
    have rl: "read_looks ?l \<le> read_looks n" using l by (auto simp: read_looks_def intro: div_le_mono)
    have "read_looks ?l \<le> length (wb_looks (af_web ?f))" using rl assms(5) by simp
    from web_read_finished [OF d(1) l(2) this, of env "[]"] obtain g where g:
      "web_read_loop env ?l [] ?f = Some (False, take (nat ?l) ?c, g)" "web_moved ?f (nat ?l) (read_looks ?l) g"
      unfolding d(2) by auto
    from g(2) obtain v where v: "web_done g" "web_rest g = drop (nat ?l) ?c"
      "g = ?f\<lparr>af_web := v, af_pos := af_pos ?f + of_nat (min (nat ?l) (length ?c))\<rparr>"
      "length (wb_looks (af_web af)) \<le> length (wb_looks v) + read_looks ?l"
      unfolding web_moved_def d(2) by auto
    let ?t = "u32_of_int (http_download_get_total_length (web_proc (af_web g)))"
    obtain h where h: "read_source env ?l ?f = Some (False, take (nat ?l) ?c, h)"
      "h = g\<lparr>af_total := if af_total g < ?t then ?t else af_total g\<rparr>"
      using g(1) ok(2) by (cases "af_total g < ?t") (simp_all add: read_source_def read_web_def Let_def)
    have an: "ahead g = []" using pop(2) False unfolding v(3) by (simp add: ahead_def split: option.splits)
    have hg: "web_done h" "ahead h = []" "web_rest h = drop (nat ?l) ?c" "af_web h = v"
      using h(2) v(1-3) an by (auto simp: web_done_def ahead_ok_def ahead_def web_rest_def split: option.splits)
    let ?bs = "take (nat ?l) ?c"
    have m: "m = length ?a + length ?bs" using False l(3) by (auto simp: m_def web_stream_def)
    have mn: "int m \<le> n" using assms(2) by (simp add: m_def)
    have w2: "mem_write (?a @ drop (length ?a) buf) (int (length ?a)) ?bs = Some (?a @ ?bs @ drop m buf)"
      using mn m assms(4) by (subst mem_write_ok) (simp_all add: add.commute del: length_take)
    have im: "int_of_u32 (u32_of_int (int (length ?a) + int (length ?bs))) = int m"
    proof -
      have "int m < 2147483648" using mn assms(3) by linarith
      then have "int_of_u32 (u32_of_int (int m)) = int m" by (simp add: c_arith)
      then show ?thesis unfolding m by simp
    qed
    have tk: "take (nat n) ?a = ?a" "min (length ?a) (nat n) = length ?a" "min (nat n) (length ?a) = length ?a" using False by simp_all
    have "audio_file_read env (Some af) buf n = Some (int m, ?a @ ?bs @ drop m buf, Some h)"
      using pop(1) w w2 h(1) im l assms(2,3) False unfolding audio_file_read_def
      by (simp add: tk c_arith del: length_take)
    moreover have "take m (web_stream af) = ?a @ ?bs" using m by (simp add: web_stream_def min_def)
    moreover have "web_stream h = drop m (web_stream af)" using hg(2,3) m by (simp add: web_stream_def min_def)
    ultimately show ?thesis using hg(1,4) v(4) rl by (intro exI [of _ h]) simp
  qed
qed

text \<open>Any series of reads delivers the stream in order.\<close>

lemma read_run_done:
  assumes "web_done af" "list_all (\<lambda>n. 0 \<le> n \<and> n < 2147483648) ns"
    "sum_list (map read_looks ns) \<le> length (wb_looks (af_web af))" "web_stream af = drop p c"
  shows "\<exists>af'. file_run env (map Read_Op ns) af = Some (fst (cursor_run c (map Read_Op ns) p), af') \<and> web_done af' \<and>
    web_stream af' = drop (snd (cursor_run c (map Read_Op ns) p)) c"
  using assms
proof (induction ns arbitrary: af p)
  case (Cons n ns)
  let ?m = "min (nat n) (length c - p)" and ?buf = "replicate (nat n) (0 :: u8)"
  have n: "0 \<le> n" "n < 2147483648" and lk: "read_looks n \<le> length (wb_looks (af_web af))" using Cons.prems by simp_all
  from read_done [OF Cons.prems(1) n _ lk, of ?buf env] Cons.prems(4) n(1) obtain f where f:
    "audio_file_read env (Some af) ?buf n = Some (int ?m, take ?m (drop p c) @ drop ?m ?buf, Some f)"
    "web_done f" "web_stream f = drop (p + ?m) c"
    "length (wb_looks (af_web af)) \<le> length (wb_looks (af_web f)) + read_looks n"
    by (auto simp: add.commute)
  have step: "file_step env (Read_Op n) af = Some (fst (cursor_step c (Read_Op n) p), f)"
    using f(1) by (simp add: file_step_def Let_def)
  have "sum_list (map read_looks ns) \<le> length (wb_looks (af_web f))" using f(4) Cons.prems(3) by simp
  with Cons.IH [OF f(2) _ _ f(3)] Cons.prems(2) step show ?case
    by (auto simp: case_prod_beta Let_def)
qed simp


text \<open>A seek forward beyond the last byte of a download whose length never became known: every wait
  succeeds, because the download is finished, and no byte is skipped.\<close>

definition slow_clock :: "web \<Rightarrow> bool" where
  "slow_clock w \<longleftrightarrow> (\<forall>i. unat (nt_clock (web_net w) (Suc i) - nt_clock (web_net w) i) \<le> 5000)"

lemma web_done_looks:
  "web_done af \<Longrightarrow> set gs \<subseteq> set (wb_looks (af_web af)) \<Longrightarrow> web_done (af\<lparr>af_web := (af_web af)\<lparr>wb_looks := gs\<rparr>\<rparr>)"
  by (auto simp: web_done_def ahead_ok_def split: option.splits)

lemma web_tick_looks:
  "web_tick (w\<lparr>wb_looks := gs\<rparr>) = (fst (web_tick w), (snd (web_tick w))\<lparr>wb_looks := gs\<rparr>)"
  by (simp add: web_tick_def Let_def web_net_def put_web_def web_proc_def web_alloc_def web_buffer_def)

lemma web_tick_parts [simp]:
  "fst (web_tick w) = nt_clock (web_net w) (nt_reads (web_net w))"
  "web_buffer (snd (web_tick w)) = web_buffer w" "web_finished (snd (web_tick w)) = web_finished w"
  "web_proc (snd (web_tick w)) = web_proc w" "web_state (snd (web_tick w)) = web_state w"
  "wb_looks (snd (web_tick w)) = wb_looks w" "nt_clock (web_net (snd (web_tick w))) = nt_clock (web_net w)"
  "nt_reads (web_net (snd (web_tick w))) = Suc (nt_reads (web_net w))"
  by (simp_all add: web_tick_def Let_def http_current_time_ms_def web_net_def put_web_def web_proc_def web_alloc_def
      web_buffer_def web_finished_def web_state_def)

lemma wait_download_done:
  assumes "web_finished w" "common_wf (web_buffer w)" "common_contents (web_buffer w) = []" "0 < n"
    "fst (web_tick w) - beg \<le> timeout" "wb_looks w = id # id # id # gs"
  shows "wait_download n timeout beg w = Some (HTTP_DOWNLOAD_PROC_SUCCESS, (snd (web_tick w))\<lparr>wb_looks := gs\<rparr>)"
proof -
  note c = common_get_count [OF assms(2)]
  have st: "web_state w = HTTP_DOWNLOAD_STA_IDLE" "ended_well (hp_last_error (web_proc w))"
    using assms(1) by (simp_all add: web_finished_def http_download_is_finish_def)
  show ?thesis using assms c st
    by (subst wait_download.simps) (auto simp: look_def Let_def web_tick_looks c u32_of_int_def not_less)
qed

lemma wait_download_short:
  assumes "common_wf (web_buffer w)" "\<forall>g \<in> set (wb_looks w). g = id" "length (wb_looks w) < 3"
  shows "wait_download n timeout beg w = None"
proof -
  note c = common_get_count [OF assms(1)]
  consider "wb_looks w = []" | "wb_looks w = [id]" | "wb_looks w = [id, id]"
    using assms(2,3) by (cases "wb_looks w"; cases "tl (wb_looks w)"; cases "tl (tl (wb_looks w))") auto
  then show ?thesis
    by cases (subst wait_download.simps; simp add: look_def Let_def web_tick_looks c split: Option.bind_split)+
qed

lemma wait_done:
  assumes "web_done af" "web_rest af = []" "0 < n" "n \<le> 102400" "slow_clock (af_web af)"
    "audio_file_wait_buffer env af n = Some r"
  shows "\<exists>w. r = (True, af\<lparr>af_web := w\<rparr>) \<and> web_done (af\<lparr>af_web := w\<rparr>) \<and> web_rest (af\<lparr>af_web := w\<rparr>) = [] \<and>
    slow_clock w \<and> length (wb_looks w) < length (wb_looks (af_web af))"
proof -
  let ?w = "af_web af"
  have d: "web_finished ?w" "common_wf (web_buffer ?w)" "\<forall>g \<in> set (wb_looks ?w). g = id"
    "common_contents (web_buffer ?w) = []"
    using assms(1,2) by (simp_all add: web_done_def web_rest_def)
  have q: "0 \<le> n * 50 div 10240" "n * 50 div 10240 \<le> 500" using assms(3,4) by auto
  define timeout where "timeout = 5000 + n * 50 div 10240 * 100"
  have t: "5000 \<le> timeout" "timeout \<le> 55000" using q by (simp_all add: timeout_def)
  obtain g gs where gs: "wb_looks ?w = g # gs" using assms(6) by (cases "wb_looks ?w")
      (auto simp: audio_file_wait_buffer_def look_def split: Option.bind_splits)
  with d(3) have id: "g = id" "\<forall>g \<in> set gs. g = id" by simp_all
  let ?w1 = "?w\<lparr>wb_looks := gs\<rparr>" and ?t = "nt_clock (web_net ?w) (nt_reads (web_net ?w))"
  have l: "look ?w = Some ?w1" using gs id(1) by (simp add: look_def)
  let ?v = "(snd (web_tick ?w))\<lparr>wb_looks := gs\<rparr>"
  have wait: "audio_file_wait_buffer env af n = do { (ret, w) \<leftarrow> wait_download (u32_of_int n) (u32_of_int timeout) ?t ?v;
      Some (ret = HTTP_DOWNLOAD_PROC_SUCCESS, af\<lparr>af_web := w\<rparr>) }"
    using assms(3,4) q l d(1) unfolding audio_file_wait_buffer_def
    by (simp add: c_arith AUDIO_FILE_WAIT_10K_TIMEOUT_def AUDIO_FILE_WAIT_HTTP_TIMEOUT_def Let_def web_tick_looks timeout_def)
  show ?thesis
  proof (cases "length gs < 3")
    case True
    with wait_download_short [of ?v] d(2) id(2) wait assms(6) show ?thesis by simp
  next
    case False
    then obtain g1 g2 g3 gs' where g3: "gs = g1 # g2 # g3 # gs'"
      by (cases gs; cases "tl gs"; cases "tl (tl gs)") auto
    with id(2) have ids: "gs = id # id # id # gs'" and sub: "\<forall>g \<in> set gs'. g = id" by simp_all
    have n: "0 < u32_of_int n" using assms(3,4) by (simp add: word_less_def c_arith)
    have "unat (nt_clock (web_net ?w) (Suc (nt_reads (web_net ?w))) - ?t) \<le> 5000"
      using assms(5) by (simp add: slow_clock_def)
    moreover have "unat (u32_of_int timeout) = nat timeout" using t by (simp add: c_arith flip: nat_uint_eq)
    ultimately have "fst (web_tick ?v) - ?t \<le> u32_of_int timeout" using t(1) by (simp add: word_le_nat_alt)
    from wait_download_done [OF _ _ _ n this, of gs'] d ids
    have w: "wait_download (u32_of_int n) (u32_of_int timeout) ?t ?v =
        Some (HTTP_DOWNLOAD_PROC_SUCCESS, (snd (web_tick ?v))\<lparr>wb_looks := gs'\<rparr>)" by simp
    then show ?thesis using wait assms(1,2,5,6) gs ids sub
      by (auto simp: web_done_def web_rest_def slow_clock_def ahead_ok_def split: option.splits)
  qed
qed

lemma skip_never_ends:
  assumes "web_done af" "web_rest af = []" "0 < diff" "diff \<le> 102400" "slow_clock (af_web af)"
  shows "web_skip_loop env diff af = None"
  using assms
proof (induction "length (wb_looks (af_web af))" arbitrary: af rule: less_induct)
  case less
  have n: "(if AUDIO_FILE_HTTP_MAX_SEEK < diff then AUDIO_FILE_HTTP_MAX_SEEK else diff) = diff"
    using less.prems(4) by (simp add: AUDIO_FILE_HTTP_MAX_SEEK_def)
  show ?case
  proof (cases "audio_file_wait_buffer env af diff")
    case None
    then show ?thesis using less.prems(3) n by (subst web_skip_loop.simps) (simp add: Let_def)
  next
    case (Some r)
    from wait_done [OF less.prems(1-5) Some] obtain w where w: "r = (True, af\<lparr>af_web := w\<rparr>)"
      "web_done (af\<lparr>af_web := w\<rparr>)" "web_rest (af\<lparr>af_web := w\<rparr>) = []" "slow_clock w"
      "length (wb_looks w) < length (wb_looks (af_web af))" by blast
    have wf: "common_wf (web_buffer w)" using w(2) by (simp add: web_done_def)
    from common_pop [OF wf, where req = "u32_of_int diff" and wanted = False] w(3) obtain ret cb where p:
      "common_buffer_pop (web_buffer w) False (u32_of_int diff) = Some (ret, 0, [], cb)" "common_wf cb" "common_contents cb = []"
      by (auto simp: web_rest_def)
    let ?f = "af\<lparr>af_web := set_buffer cb w\<rparr>"
    have "int_of_u32 (u32_of_int diff) = diff" using less.prems(3,4) by (simp add: c_arith)
    then have "web_skip_loop env diff af = web_skip_loop env diff ?f"
      using less.prems(3) n Some w(1) p(1) by (subst web_skip_loop.simps) (simp add: Let_def)
    also have "\<dots> = None"
      by (rule less.hyps) (use w p(2,3) less.prems in
        \<open>auto simp: web_done_def web_rest_def slow_clock_def ahead_ok_def split: option.splits\<close>)
    finally show ?thesis .
  qed
qed

lemma u32_diff_small:
  assumes "0 \<le> int_of_u32 w" "int_of_u32 w \<le> q" "q < 2147483648"
  shows "int_of_u32 (u32_of_int q - w) = q - int_of_u32 w"
proof -
  have "u32_of_int q - w = u32_of_int (q - int_of_u32 w)" by (simp add: u32_of_int_def int_of_u32_def)
  moreover have "int_of_u32 (u32_of_int (q - int_of_u32 w)) = q - int_of_u32 w"
    using assms by (simp add: c_arith)
  ultimately show ?thesis by simp
qed

lemma seek_past_end:
  assumes "web_done af" "web_rest af = []" "slow_clock (af_web af)" "0 \<le> int_of_u32 (af_pos af)"
    "int_of_u32 (af_pos af) < q" "q \<le> int_of_u32 (af_pos af) + 102400" "q < 2147483648"
    "af_total af = 0 \<or> u32_of_int q < af_total af"
  shows "audio_file_seek env (Some af) q = None"
proof -
  have d: "int_of_u32 (u32_of_int q - af_pos af) = q - int_of_u32 (af_pos af)"
    by (rule u32_diff_small) (use assms(4,5,7) in linarith)+
  let ?d = "q - int_of_u32 (af_pos af)"
  have ok: "ahead_ok af" "0 \<le> af_preread_len af" "af_type af = AUDIO_FILE_TYPE_WEB"
    using assms(1) by (simp_all add: web_done_def ahead_ok_def)
  from pop_preread_spec [OF ok(1,2), of False] obtain b l j where pop:
    "audio_file_pop_preread af False (af_preread_len af) = Some ([], j, af\<lparr>af_preread := b, af_preread_len := l\<rparr>)"
    "ahead_ok (af\<lparr>af_preread := b, af_preread_len := l\<rparr>)" by auto
  let ?f = "af\<lparr>af_preread := b, af_preread_len := l\<rparr>"
  have f: "web_done ?f" "web_rest ?f = []" "slow_clock (af_web ?f)"
    using assms(1-3) pop(2) by (simp_all add: web_done_def web_rest_def)
  have "web_skip_loop env ?d ?f = None" by (rule skip_never_ends [OF f(1,2) _ _ f(3)]) (use assms(5,6) in linarith)+
  then have s: "seek_source env q ?d ?f = None"
    using ok(3) assms(5,6) by (simp add: seek_source_def seek_web_def AUDIO_FILE_HTTP_MAX_SEEK_def)
  have "\<not> (q < 0 \<or> 0 < af_total af \<and> af_total af \<le> u32_of_int q)" "\<not> (?d < 0 \<and> - ?d \<le> af_preread_len af)" "?d \<noteq> 0"
    using assms(4,5,8) by auto
  then show ?thesis unfolding audio_file_seek_def by (simp only: option.case Let_def d if_False pop(1) bind.bind_lunit prod.case s bind.bind_lzero refl)
qed

end
