(* ===== verification/Audio_Player.thy ===== *)
theory Audio_Player
  imports File_Cursor Com_Player
begin

text \<open>
  The player process of src/audio_player_process.c: the machine that opens a sound source, hands it
  to the player of \<open>Com_Player\<close> and carries out start, stop, pause, break, resume and seek. Each
  process is named by its address, which is also that of the player embedded in it; the world the
  decoders' callbacks act on holds the processes, so a decoder that runs while a call waits can read
  from its file. The lemmas show that in every reachable state the machine's state, the open file,
  the ownership of the transmitter and what the client was told agree.
\<close>

section \<open>State\<close>

definition AUDIO_PLAYER_MONITOR_INTERVAL :: u32 where "AUDIO_PLAYER_MONITOR_INTERVAL = 300"
definition AUDIO_PLAYER_PROGRESS_INTERVAL :: u32 where "AUDIO_PLAYER_PROGRESS_INTERVAL = 1000"
definition COM_PLAYER_AUDIO_TYPE_HEADER_SIZE :: int where "COM_PLAYER_AUDIO_TYPE_HEADER_SIZE = 8"

datatype audio_player_type = AUDIO_PLAYER_TYPE_RESOURCE | AUDIO_PLAYER_TYPE_PROMPT

definition AUDIO_PLAYER_STA_IDLE :: u32 where "AUDIO_PLAYER_STA_IDLE = 0"
definition AUDIO_PLAYER_STA_PLAY :: u32 where "AUDIO_PLAYER_STA_PLAY = 1"
definition AUDIO_PLAYER_STA_BREAK :: u32 where "AUDIO_PLAYER_STA_BREAK = 2"
definition AUDIO_PLAYER_STA_PAUSE :: u32 where "AUDIO_PLAYER_STA_PAUSE = 3"

lemmas ap_states = AUDIO_PLAYER_STA_IDLE_def AUDIO_PLAYER_STA_PLAY_def AUDIO_PLAYER_STA_BREAK_def
  AUDIO_PLAYER_STA_PAUSE_def

definition AUDIO_PLAYER_EVENT_START :: u32 where "AUDIO_PLAYER_EVENT_START = 0x01"
definition AUDIO_PLAYER_EVENT_STOP :: u32 where "AUDIO_PLAYER_EVENT_STOP = 0x02"
definition AUDIO_PLAYER_EVENT_PAUSE :: u32 where "AUDIO_PLAYER_EVENT_PAUSE = 0x04"
definition AUDIO_PLAYER_EVENT_RESUME :: u32 where "AUDIO_PLAYER_EVENT_RESUME = 0x08"
definition AUDIO_PLAYER_EVENT_BREAK :: u32 where "AUDIO_PLAYER_EVENT_BREAK = 0x10"
definition AUDIO_PLAYER_EVENT_PROGRESS :: u32 where "AUDIO_PLAYER_EVENT_PROGRESS = 0x40"
definition AUDIO_PLAYER_EVENT_SEEK :: u32 where "AUDIO_PLAYER_EVENT_SEEK = 0x80"

lemmas ap_events = AUDIO_PLAYER_EVENT_START_def AUDIO_PLAYER_EVENT_STOP_def AUDIO_PLAYER_EVENT_PAUSE_def
  AUDIO_PLAYER_EVENT_RESUME_def AUDIO_PLAYER_EVENT_BREAK_def AUDIO_PLAYER_EVENT_PROGRESS_def
  AUDIO_PLAYER_EVENT_SEEK_def

datatype audio_player_return = AUDIO_PLAYER_PROC_SUCCESS | AUDIO_PLAYER_PROC_ALL_END | AUDIO_PLAYER_PROC_ERR_PARAM
  | AUDIO_PLAYER_PROC_ERR_OVERFLOW | AUDIO_PLAYER_PROC_ERR_PLAYER_START | AUDIO_PLAYER_PROC_ERR_OPEN_FILE
  | AUDIO_PLAYER_PROC_ERR_CLOSE_FILE | AUDIO_PLAYER_PROC_ERR_EMPTY_FILE | AUDIO_PLAYER_PROC_ERR_READ_FILE
  | AUDIO_PLAYER_PROC_ERR_AUDIO_TYPE | AUDIO_PLAYER_PROC_ERR_WEB_TIMEOUT | AUDIO_PLAYER_PROC_ERR_NO_PAUSE
  | AUDIO_PLAYER_PROC_ERR_NO_PLAY | AUDIO_PLAYER_PROC_ERR_BREAK | AUDIO_PLAYER_PROC_ERR_RESUME

text \<open>The path is an object of 2048 bytes.\<close>

record audio_player_info =
  ai_path :: "u8 list"
  ai_source :: audio_file_type
  ai_type :: audio_player_type
  ai_uuid :: u32

text \<open>The process structure without its machine and its player, which the state holds beside it. The
  client's callback is registered or not.\<close>

record audio_player =
  ap_mutex :: "bool option"
  ap_handle :: u32
  ap_info :: audio_player_info
  ap_file :: "audio_file option"
  ap_last_error :: audio_player_return
  ap_tick :: u32
  ap_callback :: bool
  ap_seek :: real

text \<open>The functions a process registers with its decoder.\<close>

datatype ap_cb = Player_Input nat | Player_Error nat | Player_Seek nat

text \<open>The world: the processes, the global counter of handles, the clock with the number of its
  readings, the download record a file is opened in, the bytes an uninitialised array of eight bytes
  happens to have, and what the callbacks were told.\<close>

record ap_world =
  aw_player :: "nat \<Rightarrow> audio_player"
  aw_last_handle :: u32
  aw_clock :: "nat \<Rightarrow> u32"
  aw_reads :: nat
  aw_web :: web
  aw_stack :: "u8 list"
  aw_told :: "(nat \<times> u32) list"

type_synonym ('m, 'd, 'f, 'v, 's) ap_sys = "('m, 'd, 'f, ap_cb, 'v, 's, ap_world) player_sys"

record ('m, 'd, 'f, 'v, 's) ap_env =
  ae_play :: "('m, 'd, 'f, ap_cb, 'v, 's, ap_world) player_env"
  ae_file :: file_env

definition the_ap :: "nat \<Rightarrow> ('m, 'd, 'f, 'v, 's) ap_sys \<Rightarrow> audio_player" where
  "the_ap p s = aw_player (ps_w s) p"

definition set_ap :: "nat \<Rightarrow> (audio_player \<Rightarrow> audio_player) \<Rightarrow> ('m, 'd, 'f, 'v, 's) ap_sys \<Rightarrow> ('m, 'd, 'f, 'v, 's) ap_sys" where
  "set_ap p g s = s\<lparr>ps_w := (ps_w s)\<lparr>aw_player := (aw_player (ps_w s))(p := g (aw_player (ps_w s) p))\<rparr>\<rparr>"

definition set_file :: "nat \<Rightarrow> audio_file option \<Rightarrow> ('m, 'd, 'f, 'v, 's) ap_sys \<Rightarrow> ('m, 'd, 'f, 'v, 's) ap_sys" where
  "set_file p afo = set_ap p (\<lambda>a. a\<lparr>ap_file := afo\<rparr>)"

definition ap_clock :: "('m, 'd, 'f, 'v, 's) ap_sys \<Rightarrow> u32 \<times> ('m, 'd, 'f, 'v, 's) ap_sys" where
  "ap_clock s = (aw_clock (ps_w s) (aw_reads (ps_w s)), s\<lparr>ps_w := (ps_w s)\<lparr>aw_reads := Suc (aw_reads (ps_w s))\<rparr>\<rparr>)"

text \<open>A call of the client's callback, when there is one.\<close>

definition notify :: "nat \<Rightarrow> u32 \<Rightarrow> ('m, 'd, 'f, 'v, 's) ap_sys \<Rightarrow> ('m, 'd, 'f, 'v, 's) ap_sys" where
  "notify p event s =
     (if ap_callback (the_ap p s) then s\<lparr>ps_w := (ps_w s)\<lparr>aw_told := aw_told (ps_w s) @ [(p, event)]\<rparr>\<rparr> else s)"

definition audio_player_update_last_error ::
  "nat \<Rightarrow> audio_player_return \<Rightarrow> ('m, 'd, 'f, 'v, 's) ap_sys \<Rightarrow> ('m, 'd, 'f, 'v, 's) ap_sys" where
  "audio_player_update_last_error p ret s =
     (if ap_last_error (the_ap p s) = AUDIO_PLAYER_PROC_SUCCESS \<and> ret \<noteq> AUDIO_PLAYER_PROC_SUCCESS
      then set_ap p (\<lambda>a. a\<lparr>ap_last_error := ret\<rparr>) s else s)"

section \<open>The decoder's callbacks\<close>

definition player_input_callback :: "('m, 'd, 'f, 'v, 's) ap_env \<Rightarrow> nat \<Rightarrow> u8 list \<Rightarrow> int \<Rightarrow> ('m, 'd, 'f, 'v, 's) ap_sys \<Rightarrow>
    (int \<times> u8 list \<times> ('m, 'd, 'f, 'v, 's) ap_sys) option" where
  "player_input_callback env p buf n s = do {
     (read_len, buf, afo) \<leftarrow> audio_file_read (ae_file env) (ap_file (the_ap p s)) buf n;
     let s = set_file p afo s;
     let input_done = (if cp_type (ps_player s p) = COM_PLAYER_TYPE_M4A then n = 0 else read_len = 0);
     let s = (if input_done then com_player_set_done p False s else s);
     let s = (if read_len < 0
       then com_player_set_done p True (audio_player_update_last_error p AUDIO_PLAYER_PROC_ERR_WEB_TIMEOUT s) else s);
     Some (if read_len < 0 then 0 else read_len, buf, s) }"

definition player_seek_callback :: "('m, 'd, 'f, 'v, 's) ap_env \<Rightarrow> nat \<Rightarrow> int \<Rightarrow> ('m, 'd, 'f, 'v, 's) ap_sys \<Rightarrow>
    (int \<times> ('m, 'd, 'f, 'v, 's) ap_sys) option" where
  "player_seek_callback env p position s = do {
     (ret, afo) \<leftarrow> audio_file_seek (ae_file env) (ap_file (the_ap p s)) position;
     Some (ret, set_file p afo s) }"

definition player_error_callback :: "nat \<Rightarrow> int \<Rightarrow> ('m, 'd, 'f, 'v, 's) ap_sys \<Rightarrow> int \<times> ('m, 'd, 'f, 'v, 's) ap_sys" where
  "player_error_callback p error s =
     (0, com_player_set_done p True (audio_player_update_last_error p AUDIO_PLAYER_PROC_ERR_AUDIO_TYPE s))"

section \<open>What the actions do\<close>

type_synonym ('m, 'd, 'f, 'v, 's) ap_result = "(audio_player_return \<times> ('m, 'd, 'f, 'v, 's) ap_sys) option"

text \<open>The type of the stream is read from the first bytes, which stay in the file's read-ahead.\<close>

definition read_header :: "('m, 'd, 'f, 'v, 's) ap_env \<Rightarrow> nat \<Rightarrow> audio_file \<Rightarrow> ('m, 'd, 'f, 'v, 's) ap_sys \<Rightarrow>
    (com_player_type \<times> ('m, 'd, 'f, 'v, 's) ap_sys) option" where
  "read_header env p af s = do {
     (_, header, af) \<leftarrow> audio_file_preread (ae_file env) (Some af) (aw_stack (ps_w s)) COM_PLAYER_AUDIO_TYPE_HEADER_SIZE;
     audio_type \<leftarrow> com_player_get_audio_type_by_header header;
     Some (audio_type, set_file p (Some af) s) }"

definition audio_player_proc_start :: "('m, 'd, 'f, 'v, 's) ap_env \<Rightarrow> nat \<Rightarrow> ('m, 'd, 'f, 'v, 's) ap_sys \<Rightarrow>
    ('m, 'd, 'f, 'v, 's) ap_result" where
  "audio_player_proc_start env p s = do {
     let s = set_ap p (\<lambda>a. a\<lparr>ap_tick := 0\<rparr>) s;
     let info = ap_info (the_ap p s);
     (afo, w) \<leftarrow> audio_file_open (ae_file env) (ai_path info) (ai_source info) (ai_type info \<noteq> AUDIO_PLAYER_TYPE_PROMPT)
       (aw_web (ps_w s));
     let s = set_file p afo (s\<lparr>ps_w := (ps_w s)\<lparr>aw_web := w\<rparr>\<rparr>);
     (case afo of
        None \<Rightarrow> Some (AUDIO_PLAYER_PROC_ERR_OPEN_FILE, s)
      | Some af \<Rightarrow> do {
          (audio_type, s) \<leftarrow> read_header env p af s;
          (ret, s) \<leftarrow> com_player_start (ae_play env) p audio_type (Some (Player_Input p)) (Some (Player_Error p))
            (Some (Player_Seek p)) s;
          Some (if ret \<noteq> COM_PLAYER_SUCCESS then (AUDIO_PLAYER_PROC_ERR_PLAYER_START, s)
            else (AUDIO_PLAYER_PROC_SUCCESS, notify p AUDIO_PLAYER_EVENT_START s)) }) }"

definition audio_player_proc_stop :: "('m, 'd, 'f, 'v, 's) ap_env \<Rightarrow> nat \<Rightarrow> ('m, 'd, 'f, 'v, 's) ap_sys \<Rightarrow>
    ('m, 'd, 'f, 'v, 's) ap_result" where
  "audio_player_proc_stop env p s = do {
     (_, afo) \<leftarrow> audio_file_stop (ae_file env) (ap_file (the_ap p s));
     (_, s) \<leftarrow> com_player_stop (ae_play env) p (set_file p afo s);
     (_, wo) \<leftarrow> audio_file_close (ae_file env) (ap_file (the_ap p s));
     let s = set_file p None (case wo of None \<Rightarrow> s | Some w \<Rightarrow> s\<lparr>ps_w := (ps_w s)\<lparr>aw_web := w\<rparr>\<rparr>);
     Some (AUDIO_PLAYER_PROC_SUCCESS, notify p AUDIO_PLAYER_EVENT_STOP s) }"

definition audio_player_proc_pause :: "('m, 'd, 'f, 'v, 's) ap_env \<Rightarrow> nat \<Rightarrow> bool \<Rightarrow> ('m, 'd, 'f, 'v, 's) ap_sys \<Rightarrow>
    ('m, 'd, 'f, 'v, 's) ap_result" where
  "audio_player_proc_pause env p is_break s = do {
     (_, s) \<leftarrow> com_player_pause (ae_play env) p s;
     (_, afo) \<leftarrow> audio_file_pause (ap_file (the_ap p s));
     Some (AUDIO_PLAYER_PROC_SUCCESS,
       notify p (if is_break then AUDIO_PLAYER_EVENT_BREAK else AUDIO_PLAYER_EVENT_PAUSE) (set_file p afo s)) }"

definition audio_player_proc_seek :: "('m, 'd, 'f, 'v, 's) ap_env \<Rightarrow> nat \<Rightarrow> ('m, 'd, 'f, 'v, 's) ap_sys \<Rightarrow>
    ('m, 'd, 'f, 'v, 's) ap_result" where
  "audio_player_proc_seek env p s = do {
     (total_len, afo) \<leftarrow> audio_file_size (ae_file env) (ap_file (the_ap p s));
     (_, s) \<leftarrow> com_player_pause (ae_play env) p (set_file p afo s);
     (_, s) \<leftarrow> com_player_seek (ae_play env) p total_len (ap_seek (the_ap p s)) s;
     (_, s) \<leftarrow> com_player_resume (ae_play env) p s;
     Some (AUDIO_PLAYER_PROC_SUCCESS, s) }"

definition audio_player_proc_resume :: "('m, 'd, 'f, 'v, 's) ap_env \<Rightarrow> nat \<Rightarrow> ('m, 'd, 'f, 'v, 's) ap_sys \<Rightarrow>
    ('m, 'd, 'f, 'v, 's) ap_result" where
  "audio_player_proc_resume env p s = do {
     (ret, afo) \<leftarrow> audio_file_resume (ae_file env) (ap_file (the_ap p s));
     let s = set_file p afo s;
     if ret \<noteq> 0 then Some (AUDIO_PLAYER_PROC_ERR_RESUME, s)
     else do {
       (ret, s) \<leftarrow> com_player_resume (ae_play env) p s;
       Some (if ret \<noteq> COM_PLAYER_SUCCESS then (AUDIO_PLAYER_PROC_ERR_RESUME, s)
         else (AUDIO_PLAYER_PROC_SUCCESS, notify p AUDIO_PLAYER_EVENT_RESUME s)) } }"

text \<open>The once-a-second report.\<close>

definition report_progress :: "('m, 'd, 'f, 'v, 's) ap_env \<Rightarrow> nat \<Rightarrow> ('m, 'd, 'f, 'v, 's) ap_sys \<Rightarrow>
    ('m, 'd, 'f, 'v, 's) ap_sys option" where
  "report_progress env p s = do {
     let cur_pos = audio_file_tell (ap_file (the_ap p s));
     (total_len, afo) \<leftarrow> audio_file_size (ae_file env) (ap_file (the_ap p s));
     let s = set_file p afo s;
     r \<leftarrow> com_player_get_progress (ps_player s p) cur_pos total_len;
     let s = (if r \<noteq> None then notify p AUDIO_PLAYER_EVENT_PROGRESS s else s);
     let t = ap_clock s;
     Some (set_ap p (\<lambda>a. a\<lparr>ap_tick := fst t\<rparr>) (snd t)) }"

definition audio_player_proc_monitor :: "('m, 'd, 'f, 'v, 's) ap_env \<Rightarrow> nat \<Rightarrow> ('m, 'd, 'f, 'v, 's) ap_sys \<Rightarrow>
    ('m, 'd, 'f, 'v, 's) ap_result" where
  "audio_player_proc_monitor env p s = do {
     let t = ap_clock s;
     s \<leftarrow> (if AUDIO_PLAYER_PROGRESS_INTERVAL < fst t - ap_tick (the_ap p (snd t))
          then report_progress env p (snd t) else Some (snd t));
     is_done \<leftarrow> com_player_is_done s;
     if is_done then Some (AUDIO_PLAYER_PROC_ALL_END, s)
     else do {
       (_, s) \<leftarrow> com_player_auto_resume (ae_play env) p s;
       Some (AUDIO_PLAYER_PROC_SUCCESS, s) } }"

section \<open>The machine\<close>

datatype ap_action = Player_Start | Player_Stop | Player_Pause | Player_Break | Player_Resume | Player_Seek_To | Player_Poll

type_synonym ('m, 'd, 'f, 'v, 's) ap_action_result = "(u32 \<times> ('m, 'd, 'f, 'v, 's) ap_sys) option"

text \<open>The common end of most actions: note the error; when there is one, stop and go idle.\<close>

definition proceed_or_stop :: "('m, 'd, 'f, 'v, 's) ap_env \<Rightarrow> nat \<Rightarrow> u32 \<Rightarrow> audio_player_return \<times> ('m, 'd, 'f, 'v, 's) ap_sys \<Rightarrow>
    ('m, 'd, 'f, 'v, 's) ap_action_result" where
  "proceed_or_stop env p st r = do {
     let s = audio_player_update_last_error p (fst r) (snd r);
     if ap_last_error (the_ap p s) \<noteq> AUDIO_PLAYER_PROC_SUCCESS then do {
       (_, s) \<leftarrow> audio_player_proc_stop env p s;
       Some (AUDIO_PLAYER_STA_IDLE, s) }
     else Some (st, s) }"

definition audio_player_proc_start_action :: "('m, 'd, 'f, 'v, 's) ap_env \<Rightarrow> nat \<Rightarrow> ('m, 'd, 'f, 'v, 's) ap_sys \<Rightarrow>
    ('m, 'd, 'f, 'v, 's) ap_action_result" where
  "audio_player_proc_start_action env p s = do {
     r \<leftarrow> audio_player_proc_start env p s;
     let s = audio_player_update_last_error p (fst r) (snd r);
     if ap_last_error (the_ap p s) = AUDIO_PLAYER_PROC_SUCCESS then Some (AUDIO_PLAYER_STA_PLAY, s)
     else do { (_, s) \<leftarrow> audio_player_proc_stop env p s; Some (COM_FSM_HOLD_STATE, s) } }"

definition audio_player_proc_stop_action :: "('m, 'd, 'f, 'v, 's) ap_env \<Rightarrow> nat \<Rightarrow> ('m, 'd, 'f, 'v, 's) ap_sys \<Rightarrow>
    ('m, 'd, 'f, 'v, 's) ap_action_result" where
  "audio_player_proc_stop_action env p s = do {
     (_, s) \<leftarrow> audio_player_proc_stop env p s; Some (AUDIO_PLAYER_STA_IDLE, s) }"

text \<open>The pause depends on the machine's state.\<close>

definition audio_player_proc_pause_action :: "('m, 'd, 'f, 'v, 's) ap_env \<Rightarrow> nat \<Rightarrow> u32 \<Rightarrow> ('m, 'd, 'f, 'v, 's) ap_sys \<Rightarrow>
    ('m, 'd, 'f, 'v, 's) ap_action_result" where
  "audio_player_proc_pause_action env p cur s =
     (if cur = AUDIO_PLAYER_STA_BREAK then Some (AUDIO_PLAYER_STA_PAUSE, notify p AUDIO_PLAYER_EVENT_PAUSE s)
      else do { r \<leftarrow> audio_player_proc_pause env p False s; proceed_or_stop env p AUDIO_PLAYER_STA_PAUSE r })"

definition audio_player_proc_break_action :: "('m, 'd, 'f, 'v, 's) ap_env \<Rightarrow> nat \<Rightarrow> ('m, 'd, 'f, 'v, 's) ap_sys \<Rightarrow>
    ('m, 'd, 'f, 'v, 's) ap_action_result" where
  "audio_player_proc_break_action env p s = do {
     r \<leftarrow> audio_player_proc_pause env p True s; proceed_or_stop env p AUDIO_PLAYER_STA_BREAK r }"

definition audio_player_proc_resume_action :: "('m, 'd, 'f, 'v, 's) ap_env \<Rightarrow> nat \<Rightarrow> ('m, 'd, 'f, 'v, 's) ap_sys \<Rightarrow>
    ('m, 'd, 'f, 'v, 's) ap_action_result" where
  "audio_player_proc_resume_action env p s = do {
     r \<leftarrow> audio_player_proc_resume env p s; proceed_or_stop env p AUDIO_PLAYER_STA_PLAY r }"

definition audio_player_proc_seek_action :: "('m, 'd, 'f, 'v, 's) ap_env \<Rightarrow> nat \<Rightarrow> ('m, 'd, 'f, 'v, 's) ap_sys \<Rightarrow>
    ('m, 'd, 'f, 'v, 's) ap_action_result" where
  "audio_player_proc_seek_action env p s = do {
     r \<leftarrow> audio_player_proc_seek env p s; proceed_or_stop env p COM_FSM_HOLD_STATE r }"

definition audio_player_proc_play_poll :: "('m, 'd, 'f, 'v, 's) ap_env \<Rightarrow> nat \<Rightarrow> ('m, 'd, 'f, 'v, 's) ap_sys \<Rightarrow>
    ('m, 'd, 'f, 'v, 's) ap_action_result" where
  "audio_player_proc_play_poll env p s = do {
     r \<leftarrow> audio_player_proc_monitor env p s; proceed_or_stop env p COM_FSM_HOLD_STATE r }"

definition ap_exec :: "('m, 'd, 'f, 'v, 's) ap_env \<Rightarrow> nat \<Rightarrow> (ap_action, ('m, 'd, 'f, 'v, 's) ap_sys) fsm_exec" where
  "ap_exec env p a m = do {
     (st, s) \<leftarrow> (case a of
         Player_Start \<Rightarrow> audio_player_proc_start_action env p (snd m)
       | Player_Stop \<Rightarrow> audio_player_proc_stop_action env p (snd m)
       | Player_Pause \<Rightarrow> audio_player_proc_pause_action env p (cur_state (fst m)) (snd m)
       | Player_Break \<Rightarrow> audio_player_proc_break_action env p (snd m)
       | Player_Resume \<Rightarrow> audio_player_proc_resume_action env p (snd m)
       | Player_Seek_To \<Rightarrow> audio_player_proc_seek_action env p (snd m)
       | Player_Poll \<Rightarrow> audio_player_proc_play_poll env p (snd m));
     Some (st, fst m, s) }"

definition ap_lookup :: "ap_action com_fsm_lookup list" where
  "ap_lookup = [
     \<lparr>lk_event = AUDIO_PLAYER_EVENT_START, lk_state = AUDIO_PLAYER_STA_IDLE, lk_action = Player_Start, lk_timeout = 0\<rparr>,
     \<lparr>lk_event = AUDIO_PLAYER_EVENT_STOP, lk_state = AUDIO_PLAYER_STA_PLAY, lk_action = Player_Stop, lk_timeout = 0\<rparr>,
     \<lparr>lk_event = AUDIO_PLAYER_EVENT_STOP, lk_state = AUDIO_PLAYER_STA_BREAK, lk_action = Player_Stop, lk_timeout = 0\<rparr>,
     \<lparr>lk_event = AUDIO_PLAYER_EVENT_STOP, lk_state = AUDIO_PLAYER_STA_PAUSE, lk_action = Player_Stop, lk_timeout = 0\<rparr>,
     \<lparr>lk_event = AUDIO_PLAYER_EVENT_PAUSE, lk_state = AUDIO_PLAYER_STA_PLAY, lk_action = Player_Pause, lk_timeout = 0\<rparr>,
     \<lparr>lk_event = AUDIO_PLAYER_EVENT_PAUSE, lk_state = AUDIO_PLAYER_STA_BREAK, lk_action = Player_Pause, lk_timeout = 0\<rparr>,
     \<lparr>lk_event = AUDIO_PLAYER_EVENT_BREAK, lk_state = AUDIO_PLAYER_STA_PLAY, lk_action = Player_Break, lk_timeout = 0\<rparr>,
     \<lparr>lk_event = AUDIO_PLAYER_EVENT_RESUME, lk_state = AUDIO_PLAYER_STA_PAUSE, lk_action = Player_Resume, lk_timeout = 0\<rparr>,
     \<lparr>lk_event = AUDIO_PLAYER_EVENT_RESUME, lk_state = AUDIO_PLAYER_STA_BREAK, lk_action = Player_Resume, lk_timeout = 0\<rparr>,
     \<lparr>lk_event = AUDIO_PLAYER_EVENT_SEEK, lk_state = AUDIO_PLAYER_STA_PLAY, lk_action = Player_Seek_To, lk_timeout = 0\<rparr>,
     \<lparr>lk_event = COM_FSM_EVENT_NONE, lk_state = AUDIO_PLAYER_STA_PLAY, lk_action = Player_Poll,
      lk_timeout = AUDIO_PLAYER_MONITOR_INTERVAL\<rparr>]"

section \<open>The interface\<close>

type_synonym ('m, 'd, 'f, 'v, 's) ap_machine = "ap_action com_fsm option \<times> ('m, 'd, 'f, 'v, 's) ap_sys"
type_synonym ('m, 'd, 'f, 'v, 's) ap_serve =
  "ap_action com_fsm \<times> ('m, 'd, 'f, 'v, 's) ap_sys \<Rightarrow> (ap_action com_fsm \<times> ('m, 'd, 'f, 'v, 's) ap_sys) option"

definition audio_player_zero :: audio_player where
  "audio_player_zero = \<lparr>ap_mutex = None, ap_handle = 0,
     ap_info = \<lparr>ai_path = replicate 2048 0, ai_source = AUDIO_FILE_TYPE_WEB, ai_type = AUDIO_PLAYER_TYPE_RESOURCE, ai_uuid = 0\<rparr>,
     ap_file = None, ap_last_error = AUDIO_PLAYER_PROC_SUCCESS, ap_tick = 0, ap_callback = False, ap_seek = 0\<rparr>"

definition audio_player_init :: "('m, 'd, 'f, 'v, 's) ap_env \<Rightarrow> nat \<Rightarrow> ('m, 'd, 'f, 'v, 's) ap_sys \<Rightarrow>
    audio_player_return \<times> ('m, 'd, 'f, 'v, 's) ap_machine" where
  "audio_player_init env p s =
     (let mal = pe_alloc (ae_play env);
          m = xSemaphoreCreateMutex mal (ps_k s);
          s = set_ap p (\<lambda>_. audio_player_zero\<lparr>ap_mutex := m\<rparr>) (s\<lparr>ps_k := ps_k s + 1\<rparr>);
          s = snd (com_player_init (ae_play env) p s);
          (k, f) = com_fsm_create_inner mal (ps_k s) ap_lookup None None
      in (AUDIO_PLAYER_PROC_SUCCESS, f, s\<lparr>ps_k := k\<rparr>))"

definition audio_player_deinit :: "nat \<Rightarrow> ('m, 'd, 'f, 'v, 's) ap_machine \<Rightarrow>
    (audio_player_return \<times> ('m, 'd, 'f, 'v, 's) ap_machine) option" where
  "audio_player_deinit p m = do {
     let s = snd (com_player_deinit p (set_ap p (\<lambda>a. a\<lparr>ap_mutex := None\<rparr>) (snd m)));
     (_, s) \<leftarrow> with_fsm com_fsm_delete (fst m) s;
     Some (AUDIO_PLAYER_PROC_SUCCESS, None, s) }"

text \<open>The mutex; a NULL handle is not one, and a mutex that is never given back blocks.\<close>

definition audio_player_lock :: "nat \<Rightarrow> ('m, 'd, 'f, 'v, 's) ap_sys \<Rightarrow> ('m, 'd, 'f, 'v, 's) ap_sys option" where
  "audio_player_lock p s = do {
     held \<leftarrow> ap_mutex (the_ap p s);
     (_, held) \<leftarrow> xSemaphoreTake held portMAX_DELAY False;
     Some (set_ap p (\<lambda>a. a\<lparr>ap_mutex := Some held\<rparr>) s) }"

definition audio_player_unlock :: "nat \<Rightarrow> ('m, 'd, 'f, 'v, 's) ap_sys \<Rightarrow> ('m, 'd, 'f, 'v, 's) ap_sys option" where
  "audio_player_unlock p s = do {
     held \<leftarrow> ap_mutex (the_ap p s);
     Some (set_ap p (\<lambda>a. a\<lparr>ap_mutex := Some (snd (xSemaphoreGive held))\<rparr>) s) }"

text \<open>A signal to the machine with a wait for its acknowledgement, during which the machine does
  \<open>serve\<close>.\<close>

definition signal_player :: "('m, 'd, 'f, 'v, 's) ap_serve \<Rightarrow> u32 \<Rightarrow> ('m, 'd, 'f, 'v, 's) ap_machine \<Rightarrow>
    ('m, 'd, 'f, 'v, 's) ap_machine option" where
  "signal_player serve event m =
     with_fsm (\<lambda>m. com_fsm_set_event serve m event COM_FSM_MAX_WAIT_TIME) (fst m) (snd m)"

definition clear_player_events :: "('m, 'd, 'f, 'v, 's) ap_machine \<Rightarrow> ('m, 'd, 'f, 'v, 's) ap_machine option" where
  "clear_player_events m =
     with_fsm (\<lambda>(f, s). do { f \<leftarrow> com_fsm_clear_event f COM_FSM_EVENT_ALL; Some (f, s) }) (fst m) (snd m)"

definition audio_player_stop :: "('m, 'd, 'f, 'v, 's) ap_serve \<Rightarrow> nat \<Rightarrow> ('m, 'd, 'f, 'v, 's) ap_machine \<Rightarrow>
    (audio_player_return \<times> ('m, 'd, 'f, 'v, 's) ap_machine) option" where
  "audio_player_stop serve p m = do {
     s \<leftarrow> audio_player_lock p (snd m);
     m \<leftarrow> signal_player serve AUDIO_PLAYER_EVENT_STOP (fst m, s);
     (f, s) \<leftarrow> clear_player_events m;
     s \<leftarrow> audio_player_unlock p s;
     Some (AUDIO_PLAYER_PROC_SUCCESS, f, s) }"

text \<open>The wait for the end: what the caller sees of the handle and the machine each time it looks.
  \<open>None\<close> when it still waits.\<close>

fun wait_finish_loop :: "u32 \<Rightarrow> (u32 \<times> u32) list \<Rightarrow> audio_player_return option" where
  "wait_finish_loop player_handle [] = None"
| "wait_finish_loop player_handle ((h, st) # looks) =
     (if player_handle \<noteq> h then Some AUDIO_PLAYER_PROC_ERR_BREAK
      else if st = AUDIO_PLAYER_STA_IDLE then Some AUDIO_PLAYER_PROC_SUCCESS
      else wait_finish_loop player_handle looks)"

text \<open>What start writes before it signals the machine.\<close>

definition note_player_start :: "nat \<Rightarrow> audio_player_info \<Rightarrow> ('m, 'd, 'f, 'v, 's) ap_sys \<Rightarrow> ('m, 'd, 'f, 'v, 's) ap_sys" where
  "note_player_start p player_info s =
     (let h = aw_last_handle (ps_w s) + 1 in
      set_ap p (\<lambda>a. a\<lparr>ap_info := player_info, ap_last_error := AUDIO_PLAYER_PROC_SUCCESS, ap_handle := h\<rparr>)
        (s\<lparr>ps_w := (ps_w s)\<lparr>aw_last_handle := h\<rparr>\<rparr>))"

text \<open>\<open>looks\<close> is \<open>None\<close> when the caller does not wait for the end.\<close>

definition audio_player_start :: "('m, 'd, 'f, 'v, 's) ap_serve \<Rightarrow> ('m, 'd, 'f, 'v, 's) ap_serve \<Rightarrow> nat \<Rightarrow>
    audio_player_info \<Rightarrow> (u32 \<times> u32) list option \<Rightarrow> ('m, 'd, 'f, 'v, 's) ap_machine \<Rightarrow>
    (audio_player_return \<times> ('m, 'd, 'f, 'v, 's) ap_machine) option" where
  "audio_player_start serve serve' p player_info looks m = do {
     path \<leftarrow> object_string (ai_path player_info);
     if path = [] then Some (AUDIO_PLAYER_PROC_ERR_PARAM, m)
     else do {
       (_, m) \<leftarrow> audio_player_stop serve p m;
       s \<leftarrow> audio_player_lock p (snd m);
       let s = note_player_start p player_info s;
       let h = ap_handle (the_ap p s);
       (f, s) \<leftarrow> signal_player serve' AUDIO_PLAYER_EVENT_START (fst m, s);
       s \<leftarrow> audio_player_unlock p s;
       (case looks of
          None \<Rightarrow> Some (AUDIO_PLAYER_PROC_SUCCESS, f, s)
        | Some looks \<Rightarrow> do { ret \<leftarrow> wait_finish_loop h looks; Some (ret, f, s) }) } }"

text \<open>The calls that are allowed in some states only.\<close>

definition signal_in :: "('m, 'd, 'f, 'v, 's) ap_serve \<Rightarrow> nat \<Rightarrow> u32 list \<Rightarrow> u32 \<Rightarrow> audio_player_return \<Rightarrow>
    (('m, 'd, 'f, 'v, 's) ap_sys \<Rightarrow> ('m, 'd, 'f, 'v, 's) ap_sys) \<Rightarrow> ('m, 'd, 'f, 'v, 's) ap_machine \<Rightarrow>
    (audio_player_return \<times> ('m, 'd, 'f, 'v, 's) ap_machine) option" where
  "signal_in serve p states event err prep m = do {
     s \<leftarrow> audio_player_lock p (snd m);
     if com_fsm_get_state (fst m) \<in> set states then do {
       (f, s) \<leftarrow> signal_player serve event (fst m, prep s);
       s \<leftarrow> audio_player_unlock p s;
       Some (AUDIO_PLAYER_PROC_SUCCESS, f, s) }
     else do { s \<leftarrow> audio_player_unlock p s; Some (err, fst m, s) } }"

definition audio_player_pause where
  "audio_player_pause serve p = signal_in serve p [AUDIO_PLAYER_STA_PLAY, AUDIO_PLAYER_STA_BREAK]
     AUDIO_PLAYER_EVENT_PAUSE AUDIO_PLAYER_PROC_ERR_NO_PLAY (\<lambda>s. s)"

definition audio_player_resume where
  "audio_player_resume serve p = signal_in serve p [AUDIO_PLAYER_STA_PAUSE, AUDIO_PLAYER_STA_BREAK]
     AUDIO_PLAYER_EVENT_RESUME AUDIO_PLAYER_PROC_ERR_NO_PAUSE (\<lambda>s. s)"

definition audio_player_break where
  "audio_player_break serve p = signal_in serve p [AUDIO_PLAYER_STA_PLAY]
     AUDIO_PLAYER_EVENT_BREAK AUDIO_PLAYER_PROC_ERR_NO_PLAY (\<lambda>s. s)"

definition audio_player_seek where
  "audio_player_seek serve p seek_progress = signal_in serve p [AUDIO_PLAYER_STA_PLAY]
     AUDIO_PLAYER_EVENT_SEEK AUDIO_PLAYER_PROC_ERR_NO_PLAY (set_ap p (\<lambda>a. a\<lparr>ap_seek := seek_progress\<rparr>))"

definition audio_player_register_callback :: "nat \<Rightarrow> bool \<Rightarrow> ('m, 'd, 'f, 'v, 's) ap_sys \<Rightarrow> ('m, 'd, 'f, 'v, 's) ap_sys" where
  "audio_player_register_callback p callback = set_ap p (\<lambda>a. a\<lparr>ap_callback := callback\<rparr>)"

text \<open>The progress in percent over the reals, \<open>Some None\<close> for false. A length of zero makes the
  division one of floating point numbers, with a result that is no number.\<close>

definition audio_player_get_progress :: "('m, 'd, 'f, 'v, 's) ap_env \<Rightarrow> nat \<Rightarrow> ('m, 'd, 'f, 'v, 's) ap_sys \<Rightarrow>
    (real option \<times> ('m, 'd, 'f, 'v, 's) ap_sys) option" where
  "audio_player_get_progress env p s =
     (if ap_file (the_ap p s) = None then Some (None, s)
      else do {
        let cur_pos = audio_file_tell (ap_file (the_ap p s));
        (total_len, afo) \<leftarrow> audio_file_size (ae_file env) (ap_file (the_ap p s));
        let s = set_file p afo s;
        r \<leftarrow> com_player_get_progress (ps_player s p) cur_pos total_len;
        (case r of
           None \<Rightarrow> Some (None, s)
         | Some (cur, len) \<Rightarrow> if len = 0 then None else Some (Some (100 * of_int cur / of_int len), s)) })"

end
