(* ===== verification/Player_View.thy ===== *)
theory Player_View
  imports Audio_Player
begin

text \<open>
  What the operations of the players and of the processes do to one process: to the part of it that is
  observed (its file, what its client was told) and to the ownership of the transmitter. For its own
  operations the lemmas state the change (\<open>start_view\<close>, \<open>proc_start_spec\<close> and their like); everything
  another process does is the same for it (\<open>same_for\<close>, \<open>other_action\<close>).
\<close>

section \<open>What the player leaves alone\<close>

text \<open>What is observed of a process: whether it has a file, whether its client is told, and of what.\<close>

definition ap_view :: "nat \<Rightarrow> ap_world \<Rightarrow> bool \<times> bool \<times> u32 list" where
  "ap_view p w = (ap_file (aw_player w p) = None, ap_callback (aw_player w p),
     map snd (filter (\<lambda>e. fst e = p) (aw_told w)))"

text \<open>The tasks that run meanwhile open and close no file and report nothing: they read and seek.\<close>

definition keeps_view :: "('m, 'd, 'f, ap_cb, 'v, 's, ap_world) player_env \<Rightarrow> nat \<Rightarrow> bool" where
  "keeps_view env p \<longleftrightarrow>
     (\<forall>m m'. pe_tx env m = Some m' \<longrightarrow> ap_view p (snd (snd m')) = ap_view p (snd (snd m))) \<and>
     (\<forall>m m'. pe_mp3 env m = Some m' \<longrightarrow> ap_view p (snd (snd (snd m'))) = ap_view p (snd (snd (snd m)))) \<and>
     (\<forall>m m'. pe_aac env m = Some m' \<longrightarrow> ap_view p (snd (snd (snd m'))) = ap_view p (snd (snd (snd m)))) \<and>
     (\<forall>s s'. pe_threads env s = Some s' \<longrightarrow> ap_view p (ps_w s') = ap_view p (ps_w s))"

lemma set_event_view:
  assumes "com_fsm_set_event serve m ev t = Some m'" "\<And>m m'. serve m = Some m' \<Longrightarrow> V (snd m') = V (snd m)"
  shows "V (snd m') = V (snd m)"
  using assms(1)
  by (auto simp: com_fsm_set_event_def Let_def dest!: bind_eq_SomeD assms(2) split: option.splits if_splits)

lemma set_event_now: "com_fsm_set_event Some m ev 0 = Some m' \<Longrightarrow> snd m' = snd m"
  by (auto simp: com_fsm_set_event_def split: option.splits)

lemma set_player_w [simp]: "ps_w (set_player q g s) = ps_w s"
  "ps_w (com_player_set_event q ev s) = ps_w s" "ps_w (com_player_clear_event q ev s) = ps_w s"
  by (simp_all add: com_player_set_event_def com_player_clear_event_def)

lemma on_tx_view:
  assumes "on_tx call s = Some s'" "\<And>m m'. call m = Some m' \<Longrightarrow> V (snd (snd m')) = V (snd (snd m))"
  shows "V (ps_w s') = V (ps_w s)"
  using assms(1) by (auto simp: on_tx_def with_fsm_def dest!: bind_eq_SomeD assms(2) split: option.splits)

lemma on_mp3_view:
  assumes "on_mp3 call q s = Some s'" "\<And>m m'. call m = Some m' \<Longrightarrow> V (snd (snd (snd m'))) = V (snd (snd (snd m)))"
  shows "V (ps_w s') = V (ps_w s)"
  using assms(1) by (auto simp: on_mp3_def with_fsm_def dest!: bind_eq_SomeD assms(2) split: option.splits)

lemma on_aac_view:
  assumes "on_aac call q s = Some s'" "\<And>m m'. call m = Some m' \<Longrightarrow> V (snd (snd (snd m'))) = V (snd (snd (snd m)))"
  shows "V (ps_w s') = V (ps_w s)"
  using assms(1) by (auto simp: on_aac_def with_fsm_def dest!: bind_eq_SomeD assms(2) split: option.splits)

lemma on_decoder_view:
  assumes "on_decoder c1 c2 q s = Some s'" "\<And>m m'. c1 m = Some m' \<Longrightarrow> V (snd (snd (snd m'))) = V (snd (snd (snd m)))"
    "\<And>m m'. c2 m = Some m' \<Longrightarrow> V (snd (snd (snd m'))) = V (snd (snd (snd m)))"
  shows "V (ps_w s') = V (ps_w s)"
  using assms(1) on_mp3_view [where V = V, OF _ assms(2)] on_aac_view [where V = V, OF _ assms(3)]
  by (auto simp: on_decoder_def split: if_splits)

lemma tx_calls_view:
  assumes "keeps_view env p"
  shows "pcm_trans_start_tx (pe_tx env) m r ch = Some m' \<Longrightarrow> ap_view p (snd (snd m')) = ap_view p (snd (snd m))"
    "pcm_trans_stop_tx (pe_tx env) m = Some m' \<Longrightarrow> ap_view p (snd (snd m')) = ap_view p (snd (snd m))"
    "pcm_trans_resume_tx (pe_tx env) m = Some m' \<Longrightarrow> ap_view p (snd (snd m')) = ap_view p (snd (snd m))"
proof -
  have k: "pe_tx env m = Some m' \<Longrightarrow> ap_view p (snd (snd m')) = ap_view p (snd (snd m))" for m m'
    using assms unfolding keeps_view_def by blast
  note v = set_event_view [where V = "\<lambda>u. ap_view p (snd u)", OF _ k]
  show "pcm_trans_start_tx (pe_tx env) m r ch = Some m' \<Longrightarrow> ap_view p (snd (snd m')) = ap_view p (snd (snd m))"
    unfolding pcm_trans_start_tx_def by (drule v) simp_all
  show "pcm_trans_stop_tx (pe_tx env) m = Some m' \<Longrightarrow> ap_view p (snd (snd m')) = ap_view p (snd (snd m))"
    unfolding pcm_trans_stop_tx_def by (auto dest!: bind_eq_SomeD v)
  show "pcm_trans_resume_tx (pe_tx env) m = Some m' \<Longrightarrow> ap_view p (snd (snd m')) = ap_view p (snd (snd m))"
    unfolding pcm_trans_resume_tx_def by (drule v) simp_all
qed

lemma decoder_calls_view:
  assumes "keeps_view env p"
  shows "mp3_decoder_stop (pe_mp3 env) m = Some m' \<Longrightarrow> ap_view p (snd (snd (snd m'))) = ap_view p (snd (snd (snd m)))"
    "mp3_decoder_pause (pe_mp3 env) m False = Some m' \<Longrightarrow> ap_view p (snd (snd (snd m'))) = ap_view p (snd (snd (snd m)))"
    "mp3_decoder_seek (pe_mp3 env) m x = Some m' \<Longrightarrow> ap_view p (snd (snd (snd m'))) = ap_view p (snd (snd (snd m)))"
    "aac_decoder_stop (pe_aac env) n = Some n' \<Longrightarrow> ap_view p (snd (snd (snd n'))) = ap_view p (snd (snd (snd n)))"
    "aac_decoder_pause (pe_aac env) n False = Some n' \<Longrightarrow> ap_view p (snd (snd (snd n'))) = ap_view p (snd (snd (snd n)))"
    "aac_decoder_seek (pe_aac env) n x = Some n' \<Longrightarrow> ap_view p (snd (snd (snd n'))) = ap_view p (snd (snd (snd n)))"
proof -
  have k: "pe_mp3 env m = Some m' \<Longrightarrow> ap_view p (snd (snd (snd m'))) = ap_view p (snd (snd (snd m)))" for m m'
    using assms unfolding keeps_view_def by blast
  have l: "pe_aac env m = Some m' \<Longrightarrow> ap_view p (snd (snd (snd m'))) = ap_view p (snd (snd (snd m)))" for m m'
    using assms unfolding keeps_view_def by blast
  note v = set_event_view [where V = "\<lambda>u. ap_view p (snd (snd u))", OF _ k]
  note u = set_event_view [where V = "\<lambda>u. ap_view p (snd (snd u))", OF _ l]
  show "mp3_decoder_stop (pe_mp3 env) m = Some m' \<Longrightarrow> ap_view p (snd (snd (snd m'))) = ap_view p (snd (snd (snd m)))"
    unfolding mp3_decoder_stop_def by (rule v)
  show "mp3_decoder_pause (pe_mp3 env) m False = Some m' \<Longrightarrow> ap_view p (snd (snd (snd m'))) = ap_view p (snd (snd (snd m)))"
    unfolding mp3_decoder_pause_def if_False by (rule v)
  show "mp3_decoder_seek (pe_mp3 env) m x = Some m' \<Longrightarrow> ap_view p (snd (snd (snd m'))) = ap_view p (snd (snd (snd m)))"
    unfolding mp3_decoder_seek_def by (drule v) simp_all
  show "aac_decoder_stop (pe_aac env) n = Some n' \<Longrightarrow> ap_view p (snd (snd (snd n'))) = ap_view p (snd (snd (snd n)))"
    unfolding aac_decoder_stop_def by (rule u)
  show "aac_decoder_pause (pe_aac env) n False = Some n' \<Longrightarrow> ap_view p (snd (snd (snd n'))) = ap_view p (snd (snd (snd n)))"
    unfolding aac_decoder_pause_def if_False by (rule u)
  show "aac_decoder_seek (pe_aac env) n x = Some n' \<Longrightarrow> ap_view p (snd (snd (snd n'))) = ap_view p (snd (snd (snd n)))"
    unfolding aac_decoder_seek_def by (drule u) simp_all
qed

lemma decoder_now_view:
  "mp3_decoder_start m = Some m' \<Longrightarrow> snd (snd (snd m')) = snd (snd (snd m))"
  "mp3_decoder_deinit m = Some m' \<Longrightarrow> snd (snd (snd m')) = snd (snd (snd m))"
  "aac_decoder_start n b = Some n' \<Longrightarrow> snd (snd (snd n')) = snd (snd (snd n))"
  "aac_decoder_deinit n = Some n' \<Longrightarrow> snd (snd (snd n')) = snd (snd (snd n))"
  by (auto simp: mp3_decoder_start_def mp3_decoder_deinit_def aac_decoder_start_def aac_decoder_deinit_def
      com_fsm_delete_def dest!: set_event_now)

text \<open>The transmitter of a player after each operation, and the view.\<close>

lemma take_transmitter_view:
  assumes "take_transmitter env q s = Some s'" "keeps_view env p"
  shows "ap_view p (ps_w s') = ap_view p (ps_w s)"
  using assms(1) by (auto simp: take_transmitter_def Let_def
      dest!: on_tx_view [where V = "ap_view p", OF _ tx_calls_view(1) [OF assms(2)]])

lemma drop_transmitter_view:
  assumes "drop_transmitter env q s = Some s'" "keeps_view env p" "keeps_owner env"
  shows "ap_view p (ps_w s') = ap_view p (ps_w s) \<and> ps_holder s' = (if ps_holder s = Some q then None else ps_holder s)"
  using assms(1) drop_transmitter_owner [OF assms(1,3)] by (auto simp: drop_transmitter_def Let_def split: if_splits
      dest!: bind_eq_SomeD on_tx_view [where V = "ap_view p", OF _ tx_calls_view(2) [OF assms(2)]])

lemma pause_view:
  assumes "com_player_pause env q s = Some (r, s')" "keeps_view env p" "keeps_owner env"
  shows "ap_view p (ps_w s') = ap_view p (ps_w s) \<and> ps_holder s' = (if ps_holder s = Some q then None else ps_holder s)"
proof -
  from assms(1) obtain s1 where c: "drop_transmitter env q (set_player q (\<lambda>c. c\<lparr>cp_enable := False\<rparr>) s) = Some s1"
    "on_decoder (\<lambda>m. mp3_decoder_pause (pe_mp3 env) m False) (\<lambda>m. aac_decoder_pause (pe_aac env) m False) q s1 = Some s'"
    by (auto simp: com_player_pause_def Let_def dest!: bind_eq_SomeD)
  show ?thesis
    using drop_transmitter_view [OF c(1) assms(2,3)] on_decoder_frame [OF c(2)]
      on_decoder_view [where V = "ap_view p", OF c(2) decoder_calls_view(2,5) [OF assms(2)]] by simp
qed

lemma stop_view:
  assumes "com_player_stop env q s = Some (r, s')" "keeps_view env p" "keeps_owner env"
  shows "ap_view p (ps_w s') = ap_view p (ps_w s) \<and> ps_holder s' = (if ps_holder s = Some q then None else ps_holder s)"
proof -
  from assms(1) obtain s1 s2 s3 where c: "drop_transmitter env q (set_player q (\<lambda>c. c\<lparr>cp_enable := False\<rparr>) s) = Some s1"
    "on_decoder (mp3_decoder_stop (pe_mp3 env)) (aac_decoder_stop (pe_aac env)) q s1 = Some s2"
    "on_decoder mp3_decoder_deinit aac_decoder_deinit q (set_player q unregister s2) = Some s3"
    "ps_holder s' = ps_holder s3" "ps_w s' = ps_w s3"
    by (auto simp: com_player_stop_def Let_def dest!: bind_eq_SomeD)
  have "ap_view p (ps_w s3) = ap_view p (ps_w s2)"
    using on_decoder_view [where V = "ap_view p", OF c(3)] by (simp add: decoder_now_view)
  then show ?thesis
    using drop_transmitter_view [OF c(1) assms(2,3)] on_decoder_frame [OF c(2)] on_decoder_frame [OF c(3)] c(4,5)
      on_decoder_view [where V = "ap_view p", OF c(2) decoder_calls_view(1,4) [OF assms(2)]] by simp
qed

lemma resume_view:
  assumes "com_player_resume env q s = Some (r, s')" "keeps_view env p" "keeps_owner env"
  shows "ap_view p (ps_w s') = ap_view p (ps_w s) \<and>
    (if ps_holder s = None then r = COM_PLAYER_SUCCESS \<and> ps_holder s' = Some q
     else r \<noteq> COM_PLAYER_SUCCESS \<and> s' = s)"
  using assms(1) by (auto simp: com_player_resume_def dest!: bind_eq_SomeD take_transmitter_view [OF _ assms(2)])

lemma seek_view:
  assumes "com_player_seek env q len x s = Some (r, s')" "keeps_view env p"
  shows "ap_view p (ps_w s') = ap_view p (ps_w s) \<and> ps_holder s' = ps_holder s"
  using assms(1) by (auto simp: com_player_seek_def Let_def split: if_splits com_player_type.splits
      dest!: bind_eq_SomeD dest: on_mp3_frame on_aac_frame
        on_mp3_view [where V = "ap_view p", OF _ decoder_calls_view(3) [OF assms(2)]]
        on_aac_view [where V = "ap_view p", OF _ decoder_calls_view(6) [OF assms(2)]])

lemma auto_resume_view:
  assumes "com_player_auto_resume env q s = Some (r, s')" "keeps_view env p" "keeps_owner env"
  shows "ap_view p (ps_w s') = ap_view p (ps_w s) \<and> ps_holder s' = ps_holder s"
proof -
  from assms(1) have "s' = s \<or> on_tx (pcm_trans_resume_tx (pe_tx env)) s = Some s'"
    by (auto simp: com_player_auto_resume_def Let_def bind_eq_Some_conv split: if_splits)
  then show ?thesis
    using on_tx_view [where V = "ap_view p" and s = s and s' = s', OF _ tx_calls_view(3) [OF assms(2)]]
      resume_tx_owner [of env s s', OF _ assms(3)] by blast
qed

lemma start_decoder_view:
  "start_mp3 env q i e k s = Some s' \<Longrightarrow> ps_w s' = ps_w s"
  "start_aac env q i e k s = Some s' \<Longrightarrow> ps_w s' = ps_w s"
  by (auto simp: start_mp3_def start_aac_def Let_def split: prod.splits
      dest!: on_mp3_view [where V = "\<lambda>w. w", OF _ decoder_now_view(1)]
        on_aac_view [where V = "\<lambda>w. w", OF _ decoder_now_view(3)])

lemma wait_event_w: "com_player_wait_event q ev t s = Some (r, s') \<Longrightarrow> ps_w s' = ps_w s"
  by (auto simp: com_player_wait_event_def dest!: bind_eq_SomeD split: option.splits)

text \<open>Start succeeds with the transmitter or leaves the owner as it was.\<close>

lemma start_view:
  fixes s :: "('m, 'd, 'f, 'v, 's) ap_sys"
  assumes "com_player_start env q t i e k s = Some (r, s')" "keeps_view env p" "keeps_owner env"
  shows "ap_view p (ps_w s') = ap_view p (ps_w s) \<and>
    (if r = COM_PLAYER_SUCCESS then ps_holder s = None \<and> ps_holder s' = Some q else ps_holder s' = ps_holder s)"
proof (cases "ps_holder s = None")
  case True
  let ?s = "set_player q (start_flags t) s"
  show ?thesis
  proof (cases "samplerate_convert_alloc (pe_alloc env) (ps_k s) (pe_convert_size env) (pe_zero env)
      :: ('v, 's) samplerate_convert option")
    case None
    with True assms(1) show ?thesis by (auto simp: com_player_start_def Let_def)
  next
    case (Some cv)
    let ?s1 = "set_player q (\<lambda>c. c\<lparr>cp_converter := Some cv\<rparr>) (?s\<lparr>ps_k := Suc (ps_k s)\<rparr>)"
    from True Some assms(1) obtain s2 s3 ev s4 where
      c: "(if t = COM_PLAYER_TYPE_MP3 then start_mp3 env q i e k ?s1 else start_aac env q i e k ?s1) = Some s2"
        "pe_threads env s2 = Some s3"
        "com_player_wait_event q (COM_PLAYER_EVENT_DECODER OR COM_PLAYER_EVENT_EXIT) COM_PLAYER_START_TIMEOUT s3 = Some (ev, s4)"
        "start_outcome env q ev s4 = Some (r, s')"
      by (auto simp: com_player_start_def Let_def dest!: bind_eq_SomeD)
    have "ps_holder s2 = ps_holder s \<and> ps_w s2 = ps_w s"
      using c(1) by (auto split: if_splits dest: start_decoder_frame start_decoder_view)
    moreover have "ps_holder s3 = ps_holder s2" using c(2) assms(3) unfolding keeps_owner_def by blast
    moreover have "ap_view p (ps_w s3) = ap_view p (ps_w s2)" using c(2) assms(2) unfolding keeps_view_def by blast
    moreover note wait_event_frame [OF c(3)] wait_event_w [OF c(3)]
    ultimately have f: "ps_holder s4 = None" "ap_view p (ps_w s4) = ap_view p (ps_w s)" using True by simp_all
    show ?thesis
    proof (cases "COM_PLAYER_EVENT_DECODER AND ev = 0")
      case True
      with c(4) f \<open>ps_holder s = None\<close> show ?thesis by (auto simp: start_outcome_def split: if_splits)
    next
      case False
      with c(4) obtain s5 where "take_transmitter env q s4 = Some s5" "r = COM_PLAYER_SUCCESS"
        "s' = (set_player q (\<lambda>c. c\<lparr>cp_wait_decoder := False\<rparr>) s5)\<lparr>ps_holder := Some q\<rparr>"
        by (auto simp: start_outcome_def dest!: bind_eq_SomeD)
      with take_transmitter_view [OF this(1) assms(2)] f \<open>ps_holder s = None\<close> show ?thesis by simp
    qed
  qed
next
  case False
  with assms(1) show ?thesis by (auto simp: com_player_start_def Let_def)
qed

section \<open>One process\<close>

lemma set_ap_frame [simp]:
  "ps_holder (set_ap q g s) = ps_holder s" "ps_player (set_ap q g s) = ps_player s" "ps_tx (set_ap q g s) = ps_tx s"
  "the_ap q (set_ap q g s) = g (the_ap q s)"
  by (simp_all add: set_ap_def the_ap_def)

lemma set_ap_view:
  assumes "\<And>a. ap_file (g a) = ap_file a \<and> ap_callback (g a) = ap_callback a"
  shows "ap_view p (ps_w (set_ap q g s)) = ap_view p (ps_w s)"
  using assms by (simp add: ap_view_def set_ap_def)

lemma set_file_frame [simp]:
  "ps_holder (set_file q afo s) = ps_holder s" "ps_player (set_file q afo s) = ps_player s" "ps_tx (set_file q afo s) = ps_tx s"
  "ap_view q (ps_w (set_file q afo s)) = (afo = None, snd (ap_view q (ps_w s)))"
  "ap_file (the_ap q (set_file q afo s)) = afo"
  by (simp_all add: set_file_def) (simp add: ap_view_def set_ap_def)

lemma notify_frame [simp]:
  "ps_holder (notify q ev s) = ps_holder s" "ps_player (notify q ev s) = ps_player s" "ps_tx (notify q ev s) = ps_tx s"
  "the_ap q' (notify q ev s) = the_ap q' s"
  by (simp_all add: notify_def the_ap_def)

definition told_more :: "u32 list \<Rightarrow> bool \<times> bool \<times> u32 list \<Rightarrow> bool \<times> bool \<times> u32 list" where
  "told_more evs v = (fst v, fst (snd v), snd (snd v) @ (if fst (snd v) then evs else []))"

lemma notify_view [simp]: "ap_view q (ps_w (notify q ev s)) = told_more [ev] (ap_view q (ps_w s))"
  by (simp add: notify_def ap_view_def the_ap_def told_more_def)

lemma update_error_frame [simp]:
  "ps_holder (audio_player_update_last_error q r s) = ps_holder s"
  "ap_view p (ps_w (audio_player_update_last_error q r s)) = ap_view p (ps_w s)"
  by (simp_all add: audio_player_update_last_error_def set_ap_view)

text \<open>The file operations keep an open file open.\<close>

lemma file_ops_keep:
  "audio_file_read e afo buf n = Some (r, buf', afo') \<Longrightarrow> (afo' = None) = (afo = None)"
  "audio_file_seek e afo q = Some (r, afo') \<Longrightarrow> (afo' = None) = (afo = None)"
  "audio_file_stop e afo = Some (r, afo') \<Longrightarrow> (afo' = None) = (afo = None)"
  "audio_file_pause afo = Some (r, afo') \<Longrightarrow> (afo' = None) = (afo = None)"
  "audio_file_resume e afo = Some (r, afo') \<Longrightarrow> (afo' = None) = (afo = None)"
  "audio_file_size e afo = Some (r, afo') \<Longrightarrow> (afo' = None) = (afo = None)"
  by (auto simp: audio_file_read_def audio_file_seek_def audio_file_stop_def audio_file_pause_def audio_file_resume_def
      audio_file_size_def Let_def dest!: bind_eq_SomeD split: option.splits if_splits audio_file_type.splits prod.splits)

lemma world_view [simp]: "ap_view p (w\<lparr>aw_web := x\<rparr>) = ap_view p w" "ap_view p (w\<lparr>aw_reads := n\<rparr>) = ap_view p w"
  by (simp_all add: ap_view_def)

lemma file_none: "(ap_file (the_ap q s) = None) = fst (ap_view q (ps_w s))"
  by (simp add: ap_view_def the_ap_def)

text \<open>The environment of a process.\<close>

definition ap_env_ok :: "('m, 'd, 'f, 'v, 's) ap_env \<Rightarrow> nat \<Rightarrow> bool" where
  "ap_env_ok env p \<longleftrightarrow> keeps_view (ae_play env) p \<and> keeps_owner (ae_play env)"

lemma ap_env_D: "ap_env_ok env p \<Longrightarrow> keeps_view (ae_play env) p" "ap_env_ok env p \<Longrightarrow> keeps_owner (ae_play env)"
  by (simp_all add: ap_env_ok_def)

lemma proc_stop_spec:
  assumes "audio_player_proc_stop env p s = Some (r, s')" "ap_env_ok env p"
  shows "ap_view p (ps_w s') = told_more [AUDIO_PLAYER_EVENT_STOP] (True, snd (ap_view p (ps_w s))) \<and> ps_holder s' \<noteq> Some p \<and>
    (ps_holder s \<noteq> Some p \<longrightarrow> ps_holder s' = ps_holder s)"
proof -
  from assms(1) obtain x afo y s1 z wo where c: "audio_file_stop (ae_file env) (ap_file (the_ap p s)) = Some (x, afo)"
    "com_player_stop (ae_play env) p (set_file p afo s) = Some (y, s1)"
    "s' = notify p AUDIO_PLAYER_EVENT_STOP (set_file p None (case wo of None \<Rightarrow> s1 | Some w \<Rightarrow> s1\<lparr>ps_w := (ps_w s1)\<lparr>aw_web := w\<rparr>\<rparr>))"
    by (auto simp: audio_player_proc_stop_def Let_def bind_eq_Some_conv)
  from stop_view [OF c(2) ap_env_D [OF assms(2)]] show ?thesis
    unfolding c(3) by (auto split: option.splits if_splits)
qed

lemma proc_pause_spec:
  assumes "audio_player_proc_pause env p b s = Some (r, s')" "ap_env_ok env p"
  shows "r = AUDIO_PLAYER_PROC_SUCCESS \<and> ps_holder s' \<noteq> Some p \<and>
    ap_view p (ps_w s') = told_more [if b then AUDIO_PLAYER_EVENT_BREAK else AUDIO_PLAYER_EVENT_PAUSE] (ap_view p (ps_w s))"
proof -
  from assms(1) obtain x s1 y afo where c: "com_player_pause (ae_play env) p s = Some (x, s1)"
    "audio_file_pause (ap_file (the_ap p s1)) = Some (y, afo)" "r = AUDIO_PLAYER_PROC_SUCCESS"
    "s' = notify p (if b then AUDIO_PLAYER_EVENT_BREAK else AUDIO_PLAYER_EVENT_PAUSE) (set_file p afo s1)"
    by (auto simp: audio_player_proc_pause_def bind_eq_Some_conv)
  from pause_view [OF c(1) ap_env_D [OF assms(2)]] file_ops_keep(4) [OF c(2)] show ?thesis
    unfolding c(3,4) by (auto simp: file_none split: if_splits)
qed

lemma proc_resume_spec:
  assumes "audio_player_proc_resume env p s = Some (r, s')" "ap_env_ok env p"
  shows "if r = AUDIO_PLAYER_PROC_SUCCESS
    then ps_holder s' = Some p \<and> ap_view p (ps_w s') = told_more [AUDIO_PLAYER_EVENT_RESUME] (ap_view p (ps_w s))
    else ps_holder s' = ps_holder s \<and> ap_view p (ps_w s') = ap_view p (ps_w s)"
proof -
  from assms(1) obtain x afo where c: "audio_file_resume (ae_file env) (ap_file (the_ap p s)) = Some (x, afo)"
    by (auto simp: audio_player_proc_resume_def bind_eq_Some_conv)
  have v: "ap_view p (ps_w (set_file p afo s)) = ap_view p (ps_w s)"
    using file_ops_keep(5) [OF c] by (simp add: file_none)
  show ?thesis
  proof (cases "x = 0")
    case False
    with assms(1) c v show ?thesis by (auto simp: audio_player_proc_resume_def)
  next
    case True
    with assms(1) c obtain y s1 where d: "com_player_resume (ae_play env) p (set_file p afo s) = Some (y, s1)"
      "(r, s') = (if y \<noteq> COM_PLAYER_SUCCESS then (AUDIO_PLAYER_PROC_ERR_RESUME, s1)
         else (AUDIO_PLAYER_PROC_SUCCESS, notify p AUDIO_PLAYER_EVENT_RESUME s1))"
      by (auto simp: audio_player_proc_resume_def bind_eq_Some_conv)
    from resume_view [OF d(1) ap_env_D [OF assms(2)]] d(2) v show ?thesis
      by (auto split: if_splits)
  qed
qed

lemma proc_seek_spec:
  assumes "audio_player_proc_seek env p s = Some (r, s')" "ap_env_ok env p" "ps_holder s = Some p"
  shows "r = AUDIO_PLAYER_PROC_SUCCESS \<and> ps_holder s' = Some p \<and> ap_view p (ps_w s') = ap_view p (ps_w s)"
proof -
  from assms(1) obtain n afo x s1 y s2 z where c: "audio_file_size (ae_file env) (ap_file (the_ap p s)) = Some (n, afo)"
    "com_player_pause (ae_play env) p (set_file p afo s) = Some (x, s1)"
    "com_player_seek (ae_play env) p n (ap_seek (the_ap p s1)) s1 = Some (y, s2)"
    "com_player_resume (ae_play env) p s2 = Some (z, s')" "r = AUDIO_PLAYER_PROC_SUCCESS"
    by (auto simp: audio_player_proc_seek_def bind_eq_Some_conv)
  note k = ap_env_D [OF assms(2)]
  show ?thesis
    using pause_view [OF c(2) k] seek_view [OF c(3) k(1)] resume_view [OF c(4) k] file_ops_keep(6) [OF c(1)] assms(3) c(5)
    by (simp add: file_none)
qed

lemma proc_monitor_spec:
  assumes "audio_player_proc_monitor env p s = Some (r, s')" "ap_env_ok env p"
  shows "ps_holder s' = ps_holder s \<and> (ap_view p (ps_w s') = ap_view p (ps_w s) \<or>
    ap_view p (ps_w s') = told_more [AUDIO_PLAYER_EVENT_PROGRESS] (ap_view p (ps_w s)))"
proof -
  let ?t = "snd (ap_clock s)"
  from assms(1) obtain s1 where s1: "s1 = ?t \<or> report_progress env p ?t = Some s1"
    "s' = s1 \<or> (\<exists>b. com_player_auto_resume (ae_play env) p s1 = Some (b, s'))"
    by (auto simp: audio_player_proc_monitor_def Let_def bind_eq_Some_conv split: if_splits)
  have t: "ps_holder ?t = ps_holder s" "ap_view p (ps_w ?t) = ap_view p (ps_w s)" by (simp_all add: ap_clock_def)
  note k = ap_env_D [OF assms(2)]
  have v1: "ps_holder s1 = ps_holder s \<and> (ap_view p (ps_w s1) = ap_view p (ps_w s) \<or>
    ap_view p (ps_w s1) = told_more [AUDIO_PLAYER_EVENT_PROGRESS] (ap_view p (ps_w s)))"
  proof (cases "s1 = ?t")
    case False
    with s1(1) obtain n afo c where c: "audio_file_size (ae_file env) (ap_file (the_ap p ?t)) = Some (n, afo)"
      "s1 = set_ap p (\<lambda>a. a\<lparr>ap_tick := fst (ap_clock c)\<rparr>) (snd (ap_clock c))"
      "c = set_file p afo ?t \<or> c = notify p AUDIO_PLAYER_EVENT_PROGRESS (set_file p afo ?t)"
      by (auto simp: report_progress_def Let_def bind_eq_Some_conv split: if_splits)
    have "ap_view p (ps_w (set_file p afo ?t)) = ap_view p (ps_w s)"
      using file_ops_keep(6) [OF c(1)] t(2) by (simp add: file_none)
    with c(2,3) t(1) show ?thesis by (auto simp: set_ap_view ap_clock_def)
  qed (use t in simp)
  then show ?thesis using s1(2) auto_resume_view [OF _ k] by fastforce
qed

lemma proc_start_spec:
  assumes "audio_player_proc_start env p s = Some (r, s')" "ap_env_ok env p"
  shows "if r = AUDIO_PLAYER_PROC_SUCCESS
    then ps_holder s = None \<and> ps_holder s' = Some p \<and> ap_view p (ps_w s') = told_more [AUDIO_PLAYER_EVENT_START] (False, snd (ap_view p (ps_w s)))
    else ps_holder s' = ps_holder s \<and> snd (ap_view p (ps_w s')) = snd (ap_view p (ps_w s))"
proof -
  let ?s = "set_ap p (\<lambda>a. a\<lparr>ap_tick := 0\<rparr>) s"
  have v: "ap_view p (ps_w ?s) = ap_view p (ps_w s)" by (simp add: set_ap_view)
  from assms(1) obtain afo w where o: "audio_file_open (ae_file env) (ai_path (ap_info (the_ap p ?s))) (ai_source (ap_info (the_ap p ?s)))
      (ai_type (ap_info (the_ap p ?s)) \<noteq> AUDIO_PLAYER_TYPE_PROMPT) (aw_web (ps_w ?s)) = Some (afo, w)"
    by (auto simp: audio_player_proc_start_def Let_def bind_eq_Some_conv)
  let ?t = "set_file p afo (?s\<lparr>ps_w := (ps_w ?s)\<lparr>aw_web := w\<rparr>\<rparr>)"
  show ?thesis
  proof (cases afo)
    case None
    with assms(1) o v show ?thesis by (auto simp: audio_player_proc_start_def Let_def)
  next
    case (Some af)
    with assms(1) o obtain ty u ret s1 where c: "read_header env p af ?t = Some (ty, u)"
      "com_player_start (ae_play env) p ty (Some (Player_Input p)) (Some (Player_Error p)) (Some (Player_Seek p)) u = Some (ret, s1)"
      "(r, s') = (if ret \<noteq> COM_PLAYER_SUCCESS then (AUDIO_PLAYER_PROC_ERR_PLAYER_START, s1)
         else (AUDIO_PLAYER_PROC_SUCCESS, notify p AUDIO_PLAYER_EVENT_START s1))"
      by (auto simp: audio_player_proc_start_def Let_def bind_eq_Some_conv)
    have u: "ps_holder u = ps_holder s" "ap_view p (ps_w u) = (False, snd (ap_view p (ps_w s)))"
      using c(1) v by (auto simp: read_header_def bind_eq_Some_conv)
    from start_view [OF c(2) ap_env_D [OF assms(2)]] c(3) u show ?thesis
      by (auto split: if_splits)
  qed
qed

lemma proceed_or_stop_spec:
  assumes "proceed_or_stop env p st (r, s) = Some (st', s')" "ap_env_ok env p"
  shows "st' = st \<and> r = AUDIO_PLAYER_PROC_SUCCESS \<and> ps_holder s' = ps_holder s \<and> ap_view p (ps_w s') = ap_view p (ps_w s) \<or>
    st' = AUDIO_PLAYER_STA_IDLE \<and> ps_holder s' \<noteq> Some p \<and>
      ap_view p (ps_w s') = told_more [AUDIO_PLAYER_EVENT_STOP] (True, snd (ap_view p (ps_w s)))"
proof -
  let ?s = "audio_player_update_last_error p r s"
  show ?thesis
  proof (cases "ap_last_error (the_ap p ?s) = AUDIO_PLAYER_PROC_SUCCESS")
    case True
    then have "r = AUDIO_PLAYER_PROC_SUCCESS"
      by (auto simp: audio_player_update_last_error_def split: if_splits)
    with True assms(1) show ?thesis by (auto simp: proceed_or_stop_def)
  next
    case False
    with assms(1) obtain x where "audio_player_proc_stop env p ?s = Some (x, s')" "st' = AUDIO_PLAYER_STA_IDLE"
      by (auto simp: proceed_or_stop_def bind_eq_Some_conv)
    with proc_stop_spec [OF this(1) assms(2)] show ?thesis by simp
  qed
qed

section \<open>What concerns another process\<close>

definition same_for :: "nat \<Rightarrow> ('m, 'd, 'f, 'v, 's) ap_sys \<Rightarrow> ('m, 'd, 'f, 'v, 's) ap_sys \<Rightarrow> bool" where
  "same_for p s s' \<longleftrightarrow> ap_view p (ps_w s') = ap_view p (ps_w s) \<and> (ps_holder s' = Some p \<longleftrightarrow> ps_holder s = Some p)"

lemma same_for_refl [simp]: "same_for p s s"
  by (simp add: same_for_def)

lemma same_for_trans [trans]: "same_for p s s' \<Longrightarrow> same_for p s' s'' \<Longrightarrow> same_for p s s''"
  by (simp add: same_for_def)

lemma same_for_com:
  fixes s :: "('m, 'd, 'f, 'v, 's) ap_sys"
  assumes "q \<noteq> p" "keeps_view env p" "keeps_owner env"
  shows "com_player_start env q t i e k s = Some (r, s') \<Longrightarrow> same_for p s s'"
    "com_player_stop env q s = Some (r, s') \<Longrightarrow> same_for p s s'"
    "com_player_pause env q s = Some (r, s') \<Longrightarrow> same_for p s s'"
    "com_player_resume env q s = Some (r, s') \<Longrightarrow> same_for p s s'"
proof -
  show "com_player_start env q t i e k s = Some (r, s') \<Longrightarrow> same_for p s s'"
    using start_view [OF _ assms(2,3), of q t i e k s r s'] assms(1) by (auto simp: same_for_def split: if_splits)
  show "com_player_stop env q s = Some (r, s') \<Longrightarrow> same_for p s s'"
    using stop_view [OF _ assms(2,3), of q s r s'] assms(1) by (auto simp: same_for_def split: if_splits)
  show "com_player_pause env q s = Some (r, s') \<Longrightarrow> same_for p s s'"
    using pause_view [OF _ assms(2,3), of q s r s'] assms(1) by (auto simp: same_for_def split: if_splits)
  show "com_player_resume env q s = Some (r, s') \<Longrightarrow> same_for p s s'"
    using resume_view [OF _ assms(2,3), of q s r s'] assms(1) by (auto simp: same_for_def split: if_splits)
qed

text \<open>These concern no process, not even their own.\<close>

lemma same_for_any:
  fixes s :: "('m, 'd, 'f, 'v, 's) ap_sys"
  assumes "keeps_view env p" "keeps_owner env"
  shows "com_player_seek env q len x s = Some (r, s') \<Longrightarrow> same_for p s s'"
    "com_player_auto_resume env q s = Some (b, s') \<Longrightarrow> same_for p s s'"
    "decoder_output_callback env q info buf n s = Some (m, s') \<Longrightarrow> same_for p s s'"
    "pcm_trans_data_request_callback env q buf n s = Some (m, buf', s') \<Longrightarrow> same_for p s s'"
    "same_for p s (com_player_set_done q err s)"
proof -
  show "com_player_seek env q len x s = Some (r, s') \<Longrightarrow> same_for p s s'"
    using seek_view [OF _ assms(1), of q len x s r s'] by (simp add: same_for_def)
  show "com_player_auto_resume env q s = Some (b, s') \<Longrightarrow> same_for p s s'"
    using auto_resume_view [OF _ assms, of q s b s'] by (simp add: same_for_def)
  show "same_for p s (com_player_set_done q err s)"
    by (simp add: same_for_def com_player_set_done_def Let_def)
  {
    assume "decoder_output_callback env q info buf n s = Some (m, s')"
    then obtain g s2 where c: "output_notify env q info (set_player q g s) = Some s2" "s' = set_player q (note_bit_rate info) s2"
      by (auto simp: decoder_output_callback_def Let_def bind_eq_Some_conv)
    from c(1) have "ps_holder s2 = ps_holder s \<and> ps_w s2 = ps_w s \<or> on_tx (pcm_trans_resume_tx (pe_tx env)) (set_player q g s) = Some s2"
      by (auto simp: output_notify_def split: if_splits)
    then show "same_for p s s'"
      using c(2) on_tx_view [where V = "ap_view p" and s = "set_player q g s" and s' = s2, OF _ tx_calls_view(3) [OF assms(1)]]
        resume_tx_owner [of env "set_player q g s" s2, OF _ assms(2)] by (auto simp: same_for_def)
  }
  {
    assume "pcm_trans_data_request_callback env q buf n s = Some (m, buf', s')"
    then consider "s' = s\<lparr>ps_tx := (fst (ps_tx s), pcm_trans_set_tx_no_data (snd (ps_tx s)))\<rparr>"
      | g where "s' = set_player q g s"
      | g where "on_decoder (\<lambda>m. mp3_decoder_resume (pe_mp3 env) m True) (\<lambda>m. aac_decoder_resume (pe_aac env) m True) q (set_player q g s) = Some s'"
      by (auto simp: pcm_trans_data_request_callback_def Let_def dest!: bind_eq_SomeD split: if_splits)
    then show "same_for p s s'"
    proof cases
      case (3 g)
      have "ap_view p (ps_w s') = ap_view p (ps_w (set_player q g s))"
        by (rule on_decoder_view [where V = "ap_view p", OF 3])
          (auto simp: mp3_decoder_resume_def aac_decoder_resume_def com_fsm_set_event_from_isr_def)
      with on_decoder_frame [OF 3] show ?thesis by (simp add: same_for_def)
    qed (simp_all add: same_for_def)
  }
qed

lemma same_for_step:
  fixes s :: "('m, 'd, 'f, 'v, 's) ap_sys"
  assumes "player_step env q s s'" "q \<noteq> p" "keeps_view env p" "keeps_owner env"
  shows "same_for p s s'"
  using assms(1)
proof cases
  case (init r)
  then show ?thesis by (auto simp: com_player_init_def Let_def same_for_def split: prod.splits)
next
  case (deinit r)
  then show ?thesis by (auto simp: com_player_deinit_def same_for_def)
next
  case (start t i e k r)
  then show ?thesis by (rule same_for_com(1) [OF assms(2-4)])
next
  case (stop r)
  then show ?thesis by (rule same_for_com(2) [OF assms(2-4)])
next
  case (pause r)
  then show ?thesis by (rule same_for_com(3) [OF assms(2-4)])
next
  case (resume r)
  then show ?thesis by (rule same_for_com(4) [OF assms(2-4)])
next
  case (seek len x r)
  then show ?thesis by (rule same_for_any(1) [OF assms(3,4)])
next
  case (set_done err)
  show ?thesis unfolding set_done by (rule same_for_any(5) [OF assms(3,4)])
next
  case (auto_resume r)
  then show ?thesis by (rule same_for_any(2) [OF assms(3,4)])
next
  case (decoded info buf n m)
  then show ?thesis by (rule same_for_any(3) [OF assms(3,4)])
next
  case (requested buf n m buf')
  then show ?thesis by (rule same_for_any(4) [OF assms(3,4)])
qed

text \<open>Changes of a process, and of another one.\<close>

lemma same_for_data:
  "same_for p s (set_ap q (\<lambda>a. a\<lparr>ap_seek := x\<rparr>) s)" "same_for p s (set_ap q (\<lambda>a. a\<lparr>ap_mutex := m\<rparr>) s)"
  "same_for p s (set_ap q (\<lambda>a. a\<lparr>ap_tick := t\<rparr>) s)" "same_for p s (note_player_start q info s)"
  "same_for p s (audio_player_update_last_error q e s)" "same_for p s (snd (ap_clock s))"
  "same_for p s (s\<lparr>ps_w := (ps_w s)\<lparr>aw_web := w\<rparr>\<rparr>)"
  by (simp add: same_for_def set_ap_view, simp add: same_for_def set_ap_view, simp add: same_for_def set_ap_view,
      simp add: same_for_def note_player_start_def Let_def ap_view_def set_ap_def,
      simp add: same_for_def, simp add: same_for_def ap_clock_def, simp add: same_for_def)

lemma same_for_file: "q \<noteq> p \<or> (afo = None) = (ap_file (the_ap p s) = None) \<Longrightarrow> same_for p s (set_file q afo s)"
  by (auto simp: same_for_def set_file_def set_ap_def ap_view_def the_ap_def)

lemma same_for_notify: "q \<noteq> p \<Longrightarrow> same_for p s (notify q ev s)"
  by (auto simp: same_for_def notify_def ap_view_def)

lemma same_for_other:
  fixes s :: "('m, 'd, 'f, 'v, 's) ap_sys"
  assumes "q \<noteq> p"
  shows "same_for p s (set_file q afo s)" "same_for p s (notify q ev s)"
    "same_for p s (set_file q afo (case wo of None \<Rightarrow> s | Some w \<Rightarrow> s\<lparr>ps_w := (ps_w s)\<lparr>aw_web := w\<rparr>\<rparr>))"
  using assms by (auto simp: same_for_file same_for_notify intro: same_for_trans [OF same_for_data(7) same_for_file] split: option.splits)

text \<open>The actions of another process.\<close>

lemma other_stop:
  assumes "audio_player_proc_stop env q s = Some (r, s')" "q \<noteq> p" "ap_env_ok env p"
  shows "same_for p s s'"
proof -
  from assms(1) obtain afo y s1 wo where c: "com_player_stop (ae_play env) q (set_file q afo s) = Some (y, s1)"
    "s' = notify q AUDIO_PLAYER_EVENT_STOP (set_file q None (case wo of None \<Rightarrow> s1 | Some w \<Rightarrow> s1\<lparr>ps_w := (ps_w s1)\<lparr>aw_web := w\<rparr>\<rparr>))"
    by (auto simp: audio_player_proc_stop_def Let_def bind_eq_Some_conv)
  note same_for_other(1) [OF assms(2)]
  also note same_for_com(2) [OF assms(2) ap_env_D [OF assms(3)] c(1)]
  also note same_for_other(3) [OF assms(2)]
  also note same_for_other(2) [OF assms(2)]
  finally show ?thesis unfolding c(2) .
qed

lemma other_pause:
  assumes "audio_player_proc_pause env q b s = Some (r, s')" "q \<noteq> p" "ap_env_ok env p"
  shows "same_for p s s'"
proof -
  from assms(1) obtain x s1 afo where c: "com_player_pause (ae_play env) q s = Some (x, s1)"
    "s' = notify q (if b then AUDIO_PLAYER_EVENT_BREAK else AUDIO_PLAYER_EVENT_PAUSE) (set_file q afo s1)"
    by (auto simp: audio_player_proc_pause_def bind_eq_Some_conv)
  note same_for_com(3) [OF assms(2) ap_env_D [OF assms(3)] c(1)]
  also note same_for_other(1) [OF assms(2)]
  also note same_for_other(2) [OF assms(2)]
  finally show ?thesis unfolding c(2) .
qed

lemma other_resume:
  assumes "audio_player_proc_resume env q s = Some (r, s')" "q \<noteq> p" "ap_env_ok env p"
  shows "same_for p s s'"
proof -
  from assms(1) obtain afo where "s' = set_file q afo s \<or>
    (\<exists>y s1. com_player_resume (ae_play env) q (set_file q afo s) = Some (y, s1) \<and> (s' = s1 \<or> s' = notify q AUDIO_PLAYER_EVENT_RESUME s1))"
    by (auto simp: audio_player_proc_resume_def Let_def bind_eq_Some_conv split: if_splits)
  then show ?thesis
    using same_for_other(1,2) [OF assms(2)] same_for_com(4) [OF assms(2) ap_env_D [OF assms(3)]] same_for_trans by metis
qed

lemma other_seek:
  assumes "audio_player_proc_seek env q s = Some (r, s')" "q \<noteq> p" "ap_env_ok env p"
  shows "same_for p s s'"
proof -
  from assms(1) obtain n afo x s1 y s2 z where c: "com_player_pause (ae_play env) q (set_file q afo s) = Some (x, s1)"
    "com_player_seek (ae_play env) q n (ap_seek (the_ap q s1)) s1 = Some (y, s2)"
    "com_player_resume (ae_play env) q s2 = Some (z, s')"
    by (auto simp: audio_player_proc_seek_def bind_eq_Some_conv)
  note k = ap_env_D [OF assms(3)]
  note same_for_other(1) [OF assms(2)]
  also note same_for_com(3) [OF assms(2) k c(1)]
  also note same_for_any(1) [OF k c(2)]
  also note same_for_com(4) [OF assms(2) k c(3)]
  finally show ?thesis .
qed

lemma other_monitor:
  assumes "audio_player_proc_monitor env q s = Some (r, s')" "q \<noteq> p" "ap_env_ok env p"
  shows "same_for p s s'"
proof -
  let ?t = "snd (ap_clock s)"
  from assms(1) obtain s1 where s1: "s1 = ?t \<or> report_progress env q ?t = Some s1"
    "s' = s1 \<or> (\<exists>b. com_player_auto_resume (ae_play env) q s1 = Some (b, s'))"
    by (auto simp: audio_player_proc_monitor_def Let_def bind_eq_Some_conv split: if_splits)
  have "same_for p ?t s1"
  proof (cases "s1 = ?t")
    case False
    with s1(1) obtain afo c where c: "s1 = set_ap q (\<lambda>a. a\<lparr>ap_tick := fst (ap_clock c)\<rparr>) (snd (ap_clock c))"
      "c = set_file q afo ?t \<or> c = notify q AUDIO_PLAYER_EVENT_PROGRESS (set_file q afo ?t)"
      by (auto simp: report_progress_def Let_def bind_eq_Some_conv split: if_splits)
    have "same_for p ?t c" using c(2) same_for_other(1,2) [OF assms(2)] same_for_trans by metis
    also note same_for_data(6)
    also note same_for_data(3)
    finally show ?thesis unfolding c(1) .
  qed simp
  with same_for_data(6) have "same_for p s s1" by (rule same_for_trans)
  with s1(2) same_for_any(2) [OF ap_env_D [OF assms(3)]] same_for_trans show ?thesis by metis
qed

lemma other_start:
  assumes "audio_player_proc_start env q s = Some (r, s')" "q \<noteq> p" "ap_env_ok env p"
  shows "same_for p s s'"
proof -
  let ?s = "set_ap q (\<lambda>a. a\<lparr>ap_tick := 0\<rparr>) s"
  from assms(1) obtain afo w where o: "audio_file_open (ae_file env) (ai_path (ap_info (the_ap q ?s))) (ai_source (ap_info (the_ap q ?s)))
      (ai_type (ap_info (the_ap q ?s)) \<noteq> AUDIO_PLAYER_TYPE_PROMPT) (aw_web (ps_w ?s)) = Some (afo, w)"
    by (auto simp: audio_player_proc_start_def Let_def bind_eq_Some_conv)
  let ?t = "set_file q afo (?s\<lparr>ps_w := (ps_w ?s)\<lparr>aw_web := w\<rparr>\<rparr>)"
  have t: "same_for p s ?t" by (rule same_for_trans [OF same_for_data(3) same_for_trans [OF same_for_data(7) same_for_other(1) [OF assms(2)]]])
  show ?thesis
  proof (cases afo)
    case None
    with assms(1) o t show ?thesis by (auto simp: audio_player_proc_start_def Let_def)
  next
    case (Some af)
    with assms(1) o obtain ty u ret s1 where c: "read_header env q af ?t = Some (ty, u)"
      "com_player_start (ae_play env) q ty (Some (Player_Input q)) (Some (Player_Error q)) (Some (Player_Seek q)) u = Some (ret, s1)"
      "(r, s') = (if ret \<noteq> COM_PLAYER_SUCCESS then (AUDIO_PLAYER_PROC_ERR_PLAYER_START, s1)
         else (AUDIO_PLAYER_PROC_SUCCESS, notify q AUDIO_PLAYER_EVENT_START s1))"
      by (auto simp: audio_player_proc_start_def Let_def bind_eq_Some_conv)
    from c(1) obtain af' where u: "u = set_file q (Some af') ?t" by (auto simp: read_header_def bind_eq_Some_conv)
    have d: "s' = s1 \<or> s' = notify q AUDIO_PLAYER_EVENT_START s1" using c(3) by (simp split: if_splits)
    note t
    also note same_for_other(1) [OF assms(2)]
    also note same_for_com(1) [OF assms(2) ap_env_D [OF assms(3)] c(2) [unfolded u]]
    finally show ?thesis using d same_for_other(2) [OF assms(2)] same_for_trans by metis
  qed
qed

lemma other_proceed:
  assumes "proceed_or_stop env q st r = Some (st', s')" "q \<noteq> p" "ap_env_ok env p" "same_for p s (snd r)"
  shows "same_for p s s'"
proof -
  let ?s = "audio_player_update_last_error q (fst r) (snd r)"
  have "s' = ?s \<or> (\<exists>x. audio_player_proc_stop env q ?s = Some (x, s'))"
    using assms(1) by (auto simp: proceed_or_stop_def Let_def bind_eq_Some_conv split: if_splits)
  with other_stop [OF _ assms(2,3)] same_for_data(5) assms(4) same_for_trans show ?thesis by metis
qed

lemma other_start_action:
  assumes "audio_player_proc_start_action env q s = Some (st, s')" "q \<noteq> p" "ap_env_ok env p"
  shows "same_for p s s'"
proof -
  from assms(1) obtain r s1 where "audio_player_proc_start env q s = Some (r, s1)"
    "s' = audio_player_update_last_error q r s1 \<or>
      (\<exists>x. audio_player_proc_stop env q (audio_player_update_last_error q r s1) = Some (x, s'))"
    by (auto simp: audio_player_proc_start_action_def Let_def bind_eq_Some_conv split: if_splits)
  with other_start [OF _ assms(2,3)] other_stop [OF _ assms(2,3)] same_for_data(5) same_for_trans show ?thesis by metis
qed

lemma other_action:
  assumes "ap_exec env q a (f, s) = Some (st, f', s')" "q \<noteq> p" "ap_env_ok env p"
  shows "same_for p s s'"
proof (cases a)
  case Player_Start
  with assms(1) have "audio_player_proc_start_action env q s = Some (st, s')" by (auto simp: ap_exec_def bind_eq_Some_conv)
  from other_start_action [OF this assms(2,3)] show ?thesis .
next
  case Player_Stop
  with assms(1) obtain x where "audio_player_proc_stop env q s = Some (x, s')"
    by (auto simp: ap_exec_def audio_player_proc_stop_action_def bind_eq_Some_conv)
  from other_stop [OF this assms(2,3)] show ?thesis .
next
  case Player_Pause
  with assms(1) have "s' = notify q AUDIO_PLAYER_EVENT_PAUSE s \<or> (\<exists>r. audio_player_proc_pause env q False s = Some r \<and>
      proceed_or_stop env q AUDIO_PLAYER_STA_PAUSE r = Some (st, s'))"
    by (auto simp: ap_exec_def audio_player_proc_pause_action_def bind_eq_Some_conv split: if_splits)
  then show ?thesis
    using same_for_other(2) [OF assms(2)] other_pause [OF _ assms(2,3)] other_proceed [OF _ assms(2,3)] by (metis prod.collapse)
next
  case Player_Break
  with assms(1) obtain r where "audio_player_proc_pause env q True s = Some r"
    "proceed_or_stop env q AUDIO_PLAYER_STA_BREAK r = Some (st, s')"
    by (auto simp: ap_exec_def audio_player_proc_break_action_def bind_eq_Some_conv)
  then show ?thesis using other_pause [OF _ assms(2,3)] other_proceed [OF _ assms(2,3)] by (metis prod.collapse)
next
  case Player_Resume
  with assms(1) obtain r where "audio_player_proc_resume env q s = Some r"
    "proceed_or_stop env q AUDIO_PLAYER_STA_PLAY r = Some (st, s')"
    by (auto simp: ap_exec_def audio_player_proc_resume_action_def bind_eq_Some_conv)
  then show ?thesis using other_resume [OF _ assms(2,3)] other_proceed [OF _ assms(2,3)] by (metis prod.collapse)
next
  case Player_Seek_To
  with assms(1) obtain r where "audio_player_proc_seek env q s = Some r"
    "proceed_or_stop env q COM_FSM_HOLD_STATE r = Some (st, s')"
    by (auto simp: ap_exec_def audio_player_proc_seek_action_def bind_eq_Some_conv)
  then show ?thesis using other_seek [OF _ assms(2,3)] other_proceed [OF _ assms(2,3)] by (metis prod.collapse)
next
  case Player_Poll
  with assms(1) obtain r where "audio_player_proc_monitor env q s = Some r"
    "proceed_or_stop env q COM_FSM_HOLD_STATE r = Some (st, s')"
    by (auto simp: ap_exec_def audio_player_proc_play_poll_def bind_eq_Some_conv)
  then show ?thesis using other_monitor [OF _ assms(2,3)] other_proceed [OF _ assms(2,3)] by (metis prod.collapse)
qed

end
