(* ===== verification/Player_Consistent.thy ===== *)
theory Player_Consistent
  imports Player_View
begin

text \<open>
  The invariant of the player process, as an interpretation of the machine's contract: its state, the
  open file, the ownership of the transmitter and what the client was told agree in every state that
  the machine's rounds and all other threads reach; and what the client's calls do on top of it.
\<close>

section \<open>The invariant\<close>

text \<open>The state a client that follows the reports believes the machine to be in.\<close>

definition told_next :: "u32 \<Rightarrow> u32 \<Rightarrow> u32" where
  "told_next st ev =
     (if ev = AUDIO_PLAYER_EVENT_START \<or> ev = AUDIO_PLAYER_EVENT_RESUME then AUDIO_PLAYER_STA_PLAY
      else if ev = AUDIO_PLAYER_EVENT_STOP then AUDIO_PLAYER_STA_IDLE
      else if ev = AUDIO_PLAYER_EVENT_PAUSE then AUDIO_PLAYER_STA_PAUSE
      else if ev = AUDIO_PLAYER_EVENT_BREAK then AUDIO_PLAYER_STA_BREAK
      else st)"

definition told_state :: "u32 list \<Rightarrow> u32" where
  "told_state = foldl told_next AUDIO_PLAYER_STA_IDLE"

lemma told_state_Nil [simp]: "told_state [] = AUDIO_PLAYER_STA_IDLE"
  by (simp add: told_state_def)

lemma told_state_snoc [simp]:
  "told_state (evs @ [AUDIO_PLAYER_EVENT_START]) = AUDIO_PLAYER_STA_PLAY"
  "told_state (evs @ [AUDIO_PLAYER_EVENT_RESUME]) = AUDIO_PLAYER_STA_PLAY"
  "told_state (evs @ [AUDIO_PLAYER_EVENT_STOP]) = AUDIO_PLAYER_STA_IDLE"
  "told_state (evs @ [AUDIO_PLAYER_EVENT_PAUSE]) = AUDIO_PLAYER_STA_PAUSE"
  "told_state (evs @ [AUDIO_PLAYER_EVENT_BREAK]) = AUDIO_PLAYER_STA_BREAK"
  "told_state (evs @ [AUDIO_PLAYER_EVENT_PROGRESS]) = told_state evs"
  by (simp_all add: told_state_def told_next_def ap_events)

definition ap_good :: "nat \<Rightarrow> u32 \<Rightarrow> bool \<times> bool \<times> u32 list \<Rightarrow> bool \<Rightarrow> bool" where
  "ap_good p st v own \<longleftrightarrow>
     st \<in> {AUDIO_PLAYER_STA_IDLE, AUDIO_PLAYER_STA_PLAY, AUDIO_PLAYER_STA_BREAK, AUDIO_PLAYER_STA_PAUSE} \<and>
     (fst v \<longleftrightarrow> st = AUDIO_PLAYER_STA_IDLE) \<and> (own \<longleftrightarrow> st = AUDIO_PLAYER_STA_PLAY) \<and>
     (fst (snd v) \<longrightarrow> told_state (snd (snd v)) = st)"

definition ap_inv :: "('m, 'd, 'f, 'v, 's) ap_env \<Rightarrow> nat \<Rightarrow> u32 \<Rightarrow> ('m, 'd, 'f, 'v, 's) ap_sys \<Rightarrow> bool" where
  "ap_inv env p st s \<longleftrightarrow> ap_env_ok env p \<and> ap_good p st (ap_view p (ps_w s)) (ps_holder s = Some p)"

lemma ap_inv_same: "ap_inv env p st s \<Longrightarrow> same_for p s s' \<Longrightarrow> ap_inv env p st s'"
  by (simp add: ap_inv_def same_for_def)

lemma ap_state_order:
  "AUDIO_PLAYER_STA_IDLE \<noteq> AUDIO_PLAYER_STA_PLAY" "AUDIO_PLAYER_STA_BREAK \<noteq> AUDIO_PLAYER_STA_PLAY"
  "AUDIO_PLAYER_STA_PAUSE \<noteq> AUDIO_PLAYER_STA_PLAY" "AUDIO_PLAYER_STA_BREAK \<noteq> AUDIO_PLAYER_STA_IDLE"
  "AUDIO_PLAYER_STA_PAUSE \<noteq> AUDIO_PLAYER_STA_IDLE" "AUDIO_PLAYER_STA_PLAY \<noteq> AUDIO_PLAYER_STA_IDLE"
  "AUDIO_PLAYER_STA_PAUSE \<noteq> AUDIO_PLAYER_STA_BREAK" "AUDIO_PLAYER_STA_PLAY \<noteq> COM_FSM_HOLD_STATE"
  "AUDIO_PLAYER_STA_IDLE \<noteq> COM_FSM_HOLD_STATE" "AUDIO_PLAYER_STA_BREAK \<noteq> COM_FSM_HOLD_STATE"
  "AUDIO_PLAYER_STA_PAUSE \<noteq> COM_FSM_HOLD_STATE"
  by (simp_all add: ap_states COM_FSM_HOLD_STATE_def)

lemmas ap_state_neq = ap_state_order ap_state_order [symmetric]

text \<open>The ways an action can end.\<close>

lemma good_stopped: "ap_good p AUDIO_PLAYER_STA_IDLE (told_more [AUDIO_PLAYER_EVENT_STOP] (True, v)) False"
  by (auto simp: ap_good_def told_more_def ap_state_neq)

lemma good_told:
  assumes "ap_good p st0 v b" "st0 \<noteq> AUDIO_PLAYER_STA_IDLE"
  shows "ap_good p AUDIO_PLAYER_STA_PAUSE (told_more [AUDIO_PLAYER_EVENT_PAUSE] v) False"
    "ap_good p AUDIO_PLAYER_STA_BREAK (told_more [AUDIO_PLAYER_EVENT_BREAK] v) False"
    "ap_good p AUDIO_PLAYER_STA_PLAY (told_more [AUDIO_PLAYER_EVENT_RESUME] v) True"
    "ap_good p st0 (told_more [AUDIO_PLAYER_EVENT_PROGRESS] v) b"
  using assms by (auto simp: ap_good_def told_more_def ap_state_neq)

lemma good_started: "ap_good p AUDIO_PLAYER_STA_PLAY (told_more [AUDIO_PLAYER_EVENT_START] (False, v)) True"
  by (auto simp: ap_good_def told_more_def ap_state_neq)

lemma ap_inv_proceed:
  assumes "proceed_or_stop env p st r = Some (st', s')" "ap_env_ok env p" "cur \<noteq> COM_FSM_HOLD_STATE"
    "fst r = AUDIO_PLAYER_PROC_SUCCESS \<Longrightarrow> ap_inv env p (if st = COM_FSM_HOLD_STATE then cur else st) (snd r)"
  shows "ap_inv env p (if st' = COM_FSM_HOLD_STATE then cur else st') s'"
  using proceed_or_stop_spec [of env p st "fst r" "snd r" st' s'] assms good_stopped [of p "snd (ap_view p (ps_w (snd r)))"]
  by (auto simp: ap_inv_def ap_state_neq split: if_splits)

lemma ap_step:
  assumes "ap_inv env p cur s" "(ev, cur, a) \<in> set (map row_key ap_lookup)" "ap_exec env p a (f, s) = Some (st, f', s')"
    "cur_state f = cur"
  shows "ap_inv env p (if st = COM_FSM_HOLD_STATE then cur else st) s'"
proof -
  have e: "ap_env_ok env p" and g: "ap_good p cur (ap_view p (ps_w s)) (ps_holder s = Some p)"
    using assms(1) by (simp_all add: ap_inv_def)
  have cur: "cur \<noteq> COM_FSM_HOLD_STATE" using g by (auto simp: ap_good_def ap_state_neq)
  from assms(2) consider
      "a = Player_Start" "cur = AUDIO_PLAYER_STA_IDLE" | "a = Player_Stop"
    | "a = Player_Pause" "cur = AUDIO_PLAYER_STA_PLAY" | "a = Player_Pause" "cur = AUDIO_PLAYER_STA_BREAK"
    | "a = Player_Break" "cur = AUDIO_PLAYER_STA_PLAY" | "a = Player_Resume" "cur \<noteq> AUDIO_PLAYER_STA_IDLE"
    | "a = Player_Seek_To" "cur = AUDIO_PLAYER_STA_PLAY" | "a = Player_Poll" "cur = AUDIO_PLAYER_STA_PLAY"
    by (auto simp: ap_lookup_def row_key_def ap_state_neq)
  then show ?thesis
  proof cases
    case 1
    from assms(3) 1 obtain r s1 where c: "audio_player_proc_start env p s = Some (r, s1)"
      "(st = AUDIO_PLAYER_STA_PLAY \<and> s' = audio_player_update_last_error p r s1 \<and> r = AUDIO_PLAYER_PROC_SUCCESS) \<or>
       st = COM_FSM_HOLD_STATE \<and> (\<exists>x. audio_player_proc_stop env p (audio_player_update_last_error p r s1) = Some (x, s'))"
      by (auto simp: ap_exec_def audio_player_proc_start_action_def Let_def bind_eq_Some_conv audio_player_update_last_error_def
          split: if_splits)
    from c(2) show ?thesis
    proof
      assume d: "st = AUDIO_PLAYER_STA_PLAY \<and> s' = audio_player_update_last_error p r s1 \<and> r = AUDIO_PLAYER_PROC_SUCCESS"
      with proc_start_spec [OF c(1) e] e good_started [of p "snd (ap_view p (ps_w s))"] show ?thesis
        by (simp add: ap_inv_def ap_state_neq)
    next
      assume d: "st = COM_FSM_HOLD_STATE \<and> (\<exists>x. audio_player_proc_stop env p (audio_player_update_last_error p r s1) = Some (x, s'))"
      then obtain x where x: "audio_player_proc_stop env p (audio_player_update_last_error p r s1) = Some (x, s')" by blast
      from proc_stop_spec [OF x e] d e 1 good_stopped [of p "snd (ap_view p (ps_w s1))"] show ?thesis
        by (simp add: ap_inv_def)
    qed
  next
    case 2
    with assms(3) obtain x where "audio_player_proc_stop env p s = Some (x, s')" "st = AUDIO_PLAYER_STA_IDLE"
      by (auto simp: ap_exec_def audio_player_proc_stop_action_def bind_eq_Some_conv)
    with proc_stop_spec [OF this(1) e] e good_stopped [of p "snd (ap_view p (ps_w s))"] show ?thesis
      by (simp add: ap_inv_def ap_state_neq)
  next
    case 3
    with assms(3,4) obtain r where c: "audio_player_proc_pause env p False s = Some r"
      "proceed_or_stop env p AUDIO_PLAYER_STA_PAUSE r = Some (st, s')"
      by (auto simp: ap_exec_def audio_player_proc_pause_action_def bind_eq_Some_conv ap_state_neq)
    show ?thesis
    proof (rule ap_inv_proceed [OF c(2) e cur])
      show "ap_inv env p (if AUDIO_PLAYER_STA_PAUSE = COM_FSM_HOLD_STATE then cur else AUDIO_PLAYER_STA_PAUSE) (snd r)"
        using proc_pause_spec [of env p False s "fst r" "snd r"] c(1) e good_told(1) [OF g] 3
        by (simp add: ap_inv_def ap_state_neq)
    qed
  next
    case 4
    with assms(3,4) have "st = AUDIO_PLAYER_STA_PAUSE" "s' = notify p AUDIO_PLAYER_EVENT_PAUSE s"
      by (auto simp: ap_exec_def audio_player_proc_pause_action_def)
    moreover have "ps_holder s \<noteq> Some p" using g 4 by (simp add: ap_good_def ap_state_neq)
    ultimately show ?thesis using e good_told(1) [OF g] 4 by (simp add: ap_inv_def ap_state_neq)
  next
    case 5
    with assms(3) obtain r where c: "audio_player_proc_pause env p True s = Some r"
      "proceed_or_stop env p AUDIO_PLAYER_STA_BREAK r = Some (st, s')"
      by (auto simp: ap_exec_def audio_player_proc_break_action_def bind_eq_Some_conv)
    show ?thesis
    proof (rule ap_inv_proceed [OF c(2) e cur])
      show "ap_inv env p (if AUDIO_PLAYER_STA_BREAK = COM_FSM_HOLD_STATE then cur else AUDIO_PLAYER_STA_BREAK) (snd r)"
        using proc_pause_spec [of env p True s "fst r" "snd r"] c(1) e good_told(2) [OF g] 5
        by (simp add: ap_inv_def ap_state_neq)
    qed
  next
    case 6
    with assms(3) obtain r where c: "audio_player_proc_resume env p s = Some r"
      "proceed_or_stop env p AUDIO_PLAYER_STA_PLAY r = Some (st, s')"
      by (auto simp: ap_exec_def audio_player_proc_resume_action_def bind_eq_Some_conv)
    show ?thesis
    proof (rule ap_inv_proceed [OF c(2) e cur])
      assume "fst r = AUDIO_PLAYER_PROC_SUCCESS"
      then show "ap_inv env p (if AUDIO_PLAYER_STA_PLAY = COM_FSM_HOLD_STATE then cur else AUDIO_PLAYER_STA_PLAY) (snd r)"
        using proc_resume_spec [of env p s "fst r" "snd r"] c(1) e good_told(3) [OF g] 6
        by (cases r) (simp add: ap_inv_def ap_state_neq)
    qed
  next
    case 7
    with assms(3) obtain r where c: "audio_player_proc_seek env p s = Some r"
      "proceed_or_stop env p COM_FSM_HOLD_STATE r = Some (st, s')"
      by (auto simp: ap_exec_def audio_player_proc_seek_action_def bind_eq_Some_conv)
    have h: "ps_holder s = Some p" using g 7 by (simp add: ap_good_def)
    show ?thesis
    proof (rule ap_inv_proceed [OF c(2) e cur])
      show "ap_inv env p (if COM_FSM_HOLD_STATE = COM_FSM_HOLD_STATE then cur else COM_FSM_HOLD_STATE) (snd r)"
        using proc_seek_spec [of env p s "fst r" "snd r"] c(1) e g h by (simp add: ap_inv_def)
    qed
  next
    case 8
    with assms(3) obtain r where c: "audio_player_proc_monitor env p s = Some r"
      "proceed_or_stop env p COM_FSM_HOLD_STATE r = Some (st, s')"
      by (auto simp: ap_exec_def audio_player_proc_play_poll_def bind_eq_Some_conv)
    show ?thesis
    proof (rule ap_inv_proceed [OF c(2) e cur])
      show "ap_inv env p (if COM_FSM_HOLD_STATE = COM_FSM_HOLD_STATE then cur else COM_FSM_HOLD_STATE) (snd r)"
        using proc_monitor_spec [of env p s "fst r" "snd r"] c(1) e g good_told(4) [OF g] 8
        by (auto simp: ap_inv_def ap_state_neq)
    qed
  qed
qed

section \<open>What other threads may do\<close>

text \<open>The interface of the process: the data its calls write, the callbacks of its decoder (and those of
  any other process), the operations of the transmitter and of the decoders' outputs, and everything
  that other processes do, their machines' actions included.\<close>

inductive ap_api :: "('m, 'd, 'f, 'v, 's) ap_env \<Rightarrow> nat \<Rightarrow> ('m, 'd, 'f, 'v, 's) ap_sys \<Rightarrow> ('m, 'd, 'f, 'v, 's) ap_sys \<Rightarrow> bool"
  for env p where
  started: "ap_api env p s (note_player_start q info s)"
| seek_to: "ap_api env p s (set_ap q (\<lambda>a. a\<lparr>ap_seek := x\<rparr>) s)"
| lock: "audio_player_lock q s = Some s' \<Longrightarrow> ap_api env p s s'"
| unlock: "audio_player_unlock q s = Some s' \<Longrightarrow> ap_api env p s s'"
| progress: "audio_player_get_progress env q s = Some (r, s') \<Longrightarrow> ap_api env p s s'"
| input: "player_input_callback env q buf n s = Some (m, buf', s') \<Longrightarrow> ap_api env p s s'"
| sought: "player_seek_callback env q pos s = Some (ret, s') \<Longrightarrow> ap_api env p s s'"
| failed: "player_error_callback q e s = (ret, s') \<Longrightarrow> ap_api env p s s'"
| decoded: "decoder_output_callback (ae_play env) q i buf n s = Some (m, s') \<Longrightarrow> ap_api env p s s'"
| requested: "pcm_trans_data_request_callback (ae_play env) q buf n s = Some (m, buf', s') \<Longrightarrow> ap_api env p s s'"
| other_player: "player_step (ae_play env) q s s' \<Longrightarrow> q \<noteq> p \<Longrightarrow> ap_api env p s s'"
| other_machine: "ap_exec env q a (f, s) = Some (st, f', s') \<Longrightarrow> q \<noteq> p \<Longrightarrow> ap_api env p s s'"
| other_init: "audio_player_init env q s = (r, m, s') \<Longrightarrow> q \<noteq> p \<Longrightarrow> ap_api env p s s'"
| other_deinit: "audio_player_deinit q (m, s) = Some (r, m', s') \<Longrightarrow> q \<noteq> p \<Longrightarrow> ap_api env p s s'"
| other_callback: "q \<noteq> p \<Longrightarrow> ap_api env p s (audio_player_register_callback q b s)"

lemma file_kept: "(afo = None) = (ap_file (the_ap q s) = None) \<Longrightarrow> same_for p s (set_file q afo s)"
  by (cases "q = p") (simp_all add: same_for_file)

lemma callbacks_same:
  fixes s :: "('m, 'd, 'f, 'v, 's) ap_sys"
  assumes "ap_env_ok env p"
  shows "player_input_callback env q buf n s = Some (m, buf', s') \<Longrightarrow> same_for p s s'"
    "player_seek_callback env q pos s = Some (ret, s') \<Longrightarrow> same_for p s s'"
    "player_error_callback q e s = (ret', s') \<Longrightarrow> same_for p s s'"
    "audio_player_get_progress env q s = Some (r, s') \<Longrightarrow> same_for p s s'"
proof -
  note d = same_for_any(5) [OF ap_env_D [OF assms]]
  have e: "same_for p s (com_player_set_done q True (audio_player_update_last_error q er s))" for er and s :: "('m, 'd, 'f, 'v, 's) ap_sys"
    by (rule same_for_trans [OF same_for_data(5) d])
  show "same_for p s s'" if "player_input_callback env q buf n s = Some (m, buf', s')"
  proof -
    from that obtain l b afo where c: "audio_file_read (ae_file env) (ap_file (the_ap q s)) buf n = Some (l, b, afo)"
      by (auto simp: player_input_callback_def bind_eq_Some_conv)
    let ?f = "set_file q afo s"
    have f: "same_for p s ?f" by (rule file_kept [OF file_ops_keep(1) [OF c]])
    let ?g = "if (if cp_type (ps_player ?f q) = COM_PLAYER_TYPE_M4A then n = 0 else l = 0) then com_player_set_done q False ?f else ?f"
    have g: "same_for p s ?g" using f same_for_trans [OF f d] by simp
    have "s' = (if l < 0 then com_player_set_done q True
        (audio_player_update_last_error q AUDIO_PLAYER_PROC_ERR_WEB_TIMEOUT ?g) else ?g)"
      using that c by (simp add: player_input_callback_def Let_def)
    then show ?thesis using g same_for_trans [OF g e] by (simp split: if_splits)
  qed
  show "player_seek_callback env q pos s = Some (ret, s') \<Longrightarrow> same_for p s s'"
    by (auto simp: player_seek_callback_def bind_eq_Some_conv intro: file_kept dest: file_ops_keep(2))
  show "player_error_callback q e s = (ret', s') \<Longrightarrow> same_for p s s'"
    using e by (auto simp: player_error_callback_def)
  show "same_for p s s'" if p: "audio_player_get_progress env q s = Some (r, s')"
  proof (cases "ap_file (the_ap q s) = None")
    case False
    with p obtain l afo x where c: "audio_file_size (ae_file env) (ap_file (the_ap q s)) = Some (l, afo)"
      "(case x of None \<Rightarrow> Some (None, set_file q afo s)
        | Some (cur, len) \<Rightarrow> if len = 0 then None else Some (Some (100 * of_int cur / of_int len), set_file q afo s)) = Some (r, s')"
      by (auto simp: audio_player_get_progress_def Let_def bind_eq_Some_conv simp del: split_paired_Ex split_paired_All)
    from c(2) have "s' = set_file q afo s" by (auto split: option.splits if_splits)
    with file_kept [OF file_ops_keep(6) [OF c(1)]] show ?thesis by simp
  qed (use p in \<open>simp add: audio_player_get_progress_def\<close>)
qed

lemma other_setup:
  fixes s :: "('m, 'd, 'f, 'v, 's) ap_sys"
  assumes "q \<noteq> p"
  shows "audio_player_init env q s = (r, m, s') \<Longrightarrow> same_for p s s'"
    "audio_player_deinit q (m1, s) = Some (r, m', s') \<Longrightarrow> same_for p s s'"
    "same_for p s (audio_player_register_callback q b s)"
proof -
  show "same_for p s (audio_player_register_callback q b s)"
    using assms by (auto simp: audio_player_register_callback_def same_for_def ap_view_def set_ap_def)
  show "same_for p s s'" if "audio_player_init env q s = (r, m, s')"
    using that assms
    by (auto simp: audio_player_init_def com_player_init_def Let_def same_for_def ap_view_def set_ap_def split: prod.splits)
  show "same_for p s s'" if "audio_player_deinit q (m1, s) = Some (r, m', s')"
    using that assms
    by (auto simp: audio_player_deinit_def com_player_deinit_def Let_def same_for_def ap_view_def set_ap_def with_fsm_def
        com_fsm_delete_def bind_eq_Some_conv dest!: set_event_now split: option.splits)
qed

lemma ap_api_same:
  assumes "ap_api env p s s'" "ap_env_ok env p"
  shows "same_for p s s'"
  using assms(1)
proof cases
  case (lock q)
  then show ?thesis by (auto simp: audio_player_lock_def bind_eq_Some_conv intro: same_for_data)
next
  case (unlock q)
  then show ?thesis by (auto simp: audio_player_unlock_def bind_eq_Some_conv intro: same_for_data)
next
  case (decoded q i buf n m)
  then show ?thesis by (rule same_for_any(3) [OF ap_env_D [OF assms(2)]])
next
  case (requested q buf n m buf')
  then show ?thesis by (rule same_for_any(4) [OF ap_env_D [OF assms(2)]])
next
  case (other_player q)
  then show ?thesis by (intro same_for_step [OF _ _ ap_env_D [OF assms(2)]])
next
  case (other_machine q a f st f')
  then show ?thesis by (intro other_action [OF _ _ assms(2)])
next
  case (other_init q r m)
  then show ?thesis by (intro other_setup(1))
next
  case (other_deinit q m r m')
  then show ?thesis by (intro other_setup(2))
qed (auto intro: same_for_data callbacks_same [OF assms(2)] other_setup)

lemma ap_exec_machine: "ap_exec env p a (f, s) = Some (st, f', s') \<Longrightarrow> f' = f"
  by (auto simp: ap_exec_def bind_eq_Some_conv)

interpretation player: fsm_safe "ap_exec env p" "map row_key ap_lookup" "ap_api env p" "ap_inv env p" for env p
proof unfold_locales
  fix f f' and u u' :: "('a, 'b, 'c, 'd, 'e) ap_sys" and ev a st
  assume a: "ap_inv env p (cur_state f) u" "(ev, cur_state f, a) \<in> set (map row_key ap_lookup)"
    "ap_exec env p a (f, u) = Some (st, f', u')"
  from ap_step [OF a refl] ap_exec_machine [OF a(3)] show "same_machine f f' \<and> ap_inv env p (if st = COM_FSM_HOLD_STATE then cur_state f else st) u'"
    by simp
next
  fix st and u u' :: "('a, 'b, 'c, 'd, 'e) ap_sys"
  assume "ap_inv env p st u" "ap_api env p u u'"
  then show "ap_inv env p st u'" using ap_inv_same ap_api_same unfolding ap_inv_def by (metis ap_api_same ap_inv_def ap_inv_same)
qed

section \<open>The client's calls\<close>

text \<open>A call, what it needs of the machine's state, and how it is refused. While a call waits for its
  acknowledgement the machine runs, among all other threads.\<close>

datatype player_call = Call_Start audio_player_info "(u32 \<times> u32) list option" | Call_Stop | Call_Pause | Call_Resume
  | Call_Break | Call_Seek real

fun make_call where
  "make_call serve serve' p (Call_Start info looks) m = audio_player_start serve serve' p info looks m"
| "make_call serve serve' p Call_Stop m = audio_player_stop serve p m"
| "make_call serve serve' p Call_Pause m = audio_player_pause serve p m"
| "make_call serve serve' p Call_Resume m = audio_player_resume serve p m"
| "make_call serve serve' p Call_Break m = audio_player_break serve p m"
| "make_call serve serve' p (Call_Seek x) m = audio_player_seek serve p x m"

fun call_refused :: "player_call \<Rightarrow> u32 \<Rightarrow> audio_player_return option" where
  "call_refused Call_Pause st = (if st = AUDIO_PLAYER_STA_PLAY \<or> st = AUDIO_PLAYER_STA_BREAK then None else Some AUDIO_PLAYER_PROC_ERR_NO_PLAY)"
| "call_refused Call_Resume st = (if st = AUDIO_PLAYER_STA_PAUSE \<or> st = AUDIO_PLAYER_STA_BREAK then None else Some AUDIO_PLAYER_PROC_ERR_NO_PAUSE)"
| "call_refused Call_Break st = (if st = AUDIO_PLAYER_STA_PLAY then None else Some AUDIO_PLAYER_PROC_ERR_NO_PLAY)"
| "call_refused (Call_Seek x) st = (if st = AUDIO_PLAYER_STA_PLAY then None else Some AUDIO_PLAYER_PROC_ERR_NO_PLAY)"
| "call_refused (Call_Start info looks) st = (if object_string (ai_path info) = Some [] then Some AUDIO_PLAYER_PROC_ERR_PARAM else None)"
| "call_refused Call_Stop st = None"

definition serves :: "('m, 'd, 'f, 'v, 's) ap_env \<Rightarrow> nat \<Rightarrow> ('m, 'd, 'f, 'v, 's) ap_serve \<Rightarrow> bool" where
  "serves env p serve \<longleftrightarrow> (\<forall>m m'. serve m = Some m' \<longrightarrow> fsm_reach (ap_exec env p) (ap_api env p) m m')"

lemma serves_inv: "serves env p serve \<Longrightarrow> serve m = Some m' \<Longrightarrow> player.fsm_inv env p m \<Longrightarrow> player.fsm_inv env p m'"
  unfolding serves_def by (blast intro: player.reach_inv)

lemma machine_api:
  "player.fsm_inv env p (f, s) \<Longrightarrow> ap_api env p s s' \<Longrightarrow> player.fsm_inv env p (f, s')"
  by (rule player.step_inv [OF fsm_step.api])

lemma signal_inv:
  assumes "signal_player serve ev (Some f, s) = Some m'" "player.fsm_inv env p (f, s)" "serves env p serve"
  obtains f' s' where "m' = (Some f', s')" "player.fsm_inv env p (f', s')"
proof -
  from assms(1) obtain f' s' where m: "com_fsm_set_event serve (f, s) ev COM_FSM_MAX_WAIT_TIME = Some (f', s')" "m' = (Some f', s')"
    by (auto simp: signal_player_def with_fsm_def bind_eq_Some_conv)
  have "player.fsm_inv env p (f', s')"
    by (rule player.set_event_inv [OF m(1) assms(2)]) (rule serves_inv [OF assms(3)])
  with m(2) that show ?thesis by blast
qed

lemma clear_inv:
  assumes "clear_player_events (Some f, s) = Some m'" "player.fsm_inv env p (f, s)"
  obtains f' where "m' = (Some f', s)" "player.fsm_inv env p (f', s)"
proof -
  from assms(1) obtain f' where m: "com_fsm_clear_event f COM_FSM_EVENT_ALL = Some f'" "m' = (Some f', s)"
    by (auto simp: clear_player_events_def with_fsm_def bind_eq_Some_conv)
  from player.step_inv [OF fsm_step.clear [OF m(1)] assms(2)] m(2) that show ?thesis by blast
qed

lemma unlock_free: "audio_player_unlock p s = Some s' \<Longrightarrow> ap_mutex (the_ap p s') = Some False"
  by (auto simp: audio_player_unlock_def bind_eq_Some_conv xSemaphoreGive_def)

text \<open>What a call leaves: the invariant, and the mutex given back.\<close>

definition call_ends :: "('m, 'd, 'f, 'v, 's) ap_env \<Rightarrow> nat \<Rightarrow> ('m, 'd, 'f, 'v, 's) ap_machine \<Rightarrow> bool" where
  "call_ends env p m \<longleftrightarrow> (\<exists>f s. m = (Some f, s) \<and> player.fsm_inv env p (f, s) \<and> ap_mutex (the_ap p s) = Some False)"

lemma unlock_ends:
  "player.fsm_inv env p (f, s) \<Longrightarrow> audio_player_unlock p s = Some s' \<Longrightarrow> call_ends env p (Some f, s')"
  by (auto simp: call_ends_def unlock_free intro: machine_api ap_api.unlock)

lemma stop_ends:
  assumes "audio_player_stop serve p (Some f, s) = Some (r, m')" "player.fsm_inv env p (f, s)" "serves env p serve"
  shows "call_ends env p m' \<and> r = AUDIO_PLAYER_PROC_SUCCESS"
proof -
  from assms(1) obtain s1 m1 f2 s2 s3 where c: "audio_player_lock p s = Some s1"
    "signal_player serve AUDIO_PLAYER_EVENT_STOP (Some f, s1) = Some m1" "clear_player_events m1 = Some (f2, s2)"
    "audio_player_unlock p s2 = Some s3" "r = AUDIO_PLAYER_PROC_SUCCESS" "m' = (f2, s3)"
    by (auto simp: audio_player_stop_def bind_eq_Some_conv)
  from signal_inv [OF c(2) machine_api [OF assms(2) ap_api.lock [OF c(1)]] assms(3)]
  obtain f1 u1 where m1: "m1 = (Some f1, u1)" "player.fsm_inv env p (f1, u1)" .
  from clear_inv [OF c(3) [unfolded m1(1)] m1(2)] obtain f' where f': "f2 = Some f'" "s2 = u1" "player.fsm_inv env p (f', u1)" by blast
  from unlock_ends [OF f'(3) c(4) [unfolded f'(2)]] c(5,6) f'(1) show ?thesis by simp
qed

lemma signal_in_ends:
  assumes "signal_in serve p states ev err prep (Some f, s) = Some (r, m')" "player.fsm_inv env p (f, s)" "serves env p serve"
    "\<And>s. ap_api env p s (prep s) \<or> prep s = s"
  shows "call_ends env p m' \<and> (if cur_state f \<in> set states then r = AUDIO_PLAYER_PROC_SUCCESS
    else r = err \<and> fst m' = Some f)"
proof -
  from assms(1) obtain s1 where s1: "audio_player_lock p s = Some s1" by (auto simp: signal_in_def bind_eq_Some_conv)
  note i = machine_api [OF assms(2) ap_api.lock [OF s1]]
  show ?thesis
  proof (cases "cur_state f \<in> set states")
    case True
    with assms(1) s1 obtain f2 s2 s3 where c: "signal_player serve ev (Some f, prep s1) = Some (f2, s2)"
      "audio_player_unlock p s2 = Some s3" "r = AUDIO_PLAYER_PROC_SUCCESS" "m' = (f2, s3)"
      by (auto simp: signal_in_def com_fsm_get_state_def bind_eq_Some_conv)
    have "player.fsm_inv env p (f, prep s1)" using assms(4) [of s1] i machine_api [OF i] by auto
    from signal_inv [OF c(1) this assms(3)] obtain f' where "f2 = Some f'" "player.fsm_inv env p (f', s2)" by blast
    with unlock_ends [OF this(2) c(2)] c True show ?thesis by simp
  next
    case False
    with assms(1) s1 obtain s3 where c: "audio_player_unlock p s1 = Some s3" "r = err" "m' = (Some f, s3)"
      by (auto simp: signal_in_def com_fsm_get_state_def bind_eq_Some_conv)
    with unlock_ends [OF i c(1)] False show ?thesis by simp
  qed
qed

lemma start_ends:
  assumes "audio_player_start serve serve' p info looks (Some f, s) = Some (r, m')" "player.fsm_inv env p (f, s)"
    "serves env p serve" "serves env p serve'" "object_string (ai_path info) \<noteq> Some []"
  shows "call_ends env p m'"
proof -
  from assms(1,5) obtain r1 m1 where c: "audio_player_stop serve p (Some f, s) = Some (r1, m1)"
    by (auto simp: audio_player_start_def bind_eq_Some_conv split: if_splits)
  from stop_ends [OF c assms(2,3)] obtain f1 s1 where m1: "m1 = (Some f1, s1)" "player.fsm_inv env p (f1, s1)"
    by (auto simp: call_ends_def)
  from assms(1,5) c m1(1) obtain s2 f3 s3 s4 where d: "audio_player_lock p s1 = Some s2"
    "signal_player serve' AUDIO_PLAYER_EVENT_START (Some f1, note_player_start p info s2) = Some (f3, s3)"
    "audio_player_unlock p s3 = Some s4" "m' = (f3, s4)"
    by (auto simp: audio_player_start_def Let_def bind_eq_Some_conv split: if_splits option.splits)
  note i = machine_api [OF machine_api [OF m1(2) ap_api.lock [OF d(1)]] ap_api.started]
  from signal_inv [OF d(2) i assms(4)] obtain f' where "f3 = Some f'" "player.fsm_inv env p (f', s3)" by blast
  with unlock_ends [OF this(2) d(3)] d(4) show ?thesis by simp
qed

lemma call_safe:
  assumes "make_call serve serve' p c (Some f, s) = Some (r, m')" "player.fsm_inv env p (f, s)"
    "serves env p serve" "serves env p serve'"
  shows "case call_refused c (cur_state f) of
      Some e \<Rightarrow> r = e \<and> fst m' = Some f \<and> (\<exists>s'. m' = (Some f, s') \<and> player.fsm_inv env p (f, s'))
    | None \<Rightarrow> call_ends env p m'"
proof (cases c)
  case (Call_Start info looks)
  show ?thesis
  proof (cases "object_string (ai_path info) = Some []")
    case True
    with Call_Start assms(1,2) show ?thesis by (auto simp: audio_player_start_def)
  next
    case False
    with Call_Start assms start_ends [of serve serve' p info looks f s r m' env] show ?thesis by simp
  qed
next
  case Call_Stop
  with assms stop_ends [of serve p f s r m' env] show ?thesis by simp
next
  case Call_Pause
  with assms signal_in_ends [of serve p _ _ _ "\<lambda>s. s" f s r m' env] show ?thesis
    by (fastforce simp: audio_player_pause_def call_ends_def)
next
  case Call_Resume
  with assms signal_in_ends [of serve p _ _ _ "\<lambda>s. s" f s r m' env] show ?thesis
    by (fastforce simp: audio_player_resume_def call_ends_def)
next
  case Call_Break
  with assms signal_in_ends [of serve p _ _ _ "\<lambda>s. s" f s r m' env] show ?thesis
    by (fastforce simp: audio_player_break_def call_ends_def)
next
  case (Call_Seek x)
  with assms signal_in_ends [of serve p _ _ _ "set_ap p (\<lambda>a. a\<lparr>ap_seek := x\<rparr>)" f s r m' env, OF _ _ _ disjI1 [OF ap_api.seek_to]]
  show ?thesis by (fastforce simp: audio_player_seek_def call_ends_def)
qed

section \<open>The invariant in plain terms\<close>

definition told_to :: "nat \<Rightarrow> ('m, 'd, 'f, 'v, 's) ap_sys \<Rightarrow> u32 list" where
  "told_to p s = map snd (filter (\<lambda>e. fst e = p) (aw_told (ps_w s)))"

definition agrees :: "nat \<Rightarrow> u32 \<Rightarrow> ('m, 'd, 'f, 'v, 's) ap_sys \<Rightarrow> bool" where
  "agrees p st s \<longleftrightarrow> st \<in> {AUDIO_PLAYER_STA_IDLE, AUDIO_PLAYER_STA_PLAY, AUDIO_PLAYER_STA_BREAK, AUDIO_PLAYER_STA_PAUSE} \<and>
     (ap_file (the_ap p s) = None \<longleftrightarrow> st = AUDIO_PLAYER_STA_IDLE) \<and> (ps_holder s = Some p \<longleftrightarrow> st = AUDIO_PLAYER_STA_PLAY) \<and>
     (ap_callback (the_ap p s) \<longrightarrow> told_state (told_to p s) = st)"

lemma agrees_inv: "ap_inv env p st s \<longleftrightarrow> ap_env_ok env p \<and> agrees p st s"
  by (simp add: ap_inv_def ap_good_def agrees_def ap_view_def told_to_def the_ap_def)

text \<open>A machine of this process in a state that agrees; the one that was just created is one.\<close>

definition process_ok :: "nat \<Rightarrow> ap_action com_fsm \<Rightarrow> ('m, 'd, 'f, 'v, 's) ap_sys \<Rightarrow> bool" where
  "process_ok p f s \<longleftrightarrow> fsm_ready f \<and> map row_key (lookup_table f) = map row_key ap_lookup \<and> agrees p (cur_state f) s"

lemma process_inv: "player.fsm_inv env p (f, s) \<longleftrightarrow> process_ok p f s \<and> ap_env_ok env p"
  by (auto simp: player.fsm_inv_def process_ok_def agrees_inv)

lemma idle_process:
  assumes "fsm_ready f" "map row_key (lookup_table f) = map row_key ap_lookup" "cur_state f = AUDIO_PLAYER_STA_IDLE"
    "ap_file (the_ap p s) = None" "ps_holder s \<noteq> Some p" "told_to p s = []"
  shows "process_ok p f s"
  using assms by (simp add: process_ok_def agrees_def ap_state_neq)

end
