(* ===== verification/Player_Input.thy ===== *)
theory Player_Input
  imports Audio_Player
begin

text \<open>
  How a process feeds its decoder: the input callback over the open file. A series of input callbacks
  gives the decoder what the same series of reads gives, and tells it the end of the input exactly
  when the code's test says so; together with the opening and the look at the header this describes
  what a decoder gets of a sound, whatever kind of file holds it.
\<close>

text \<open>A decoder that asks for blocks of the sizes \<open>ns\<close>, and what it got.\<close>

fun input_run :: "('m, 'd, 'f, 'v, 's) ap_env \<Rightarrow> nat \<Rightarrow> int list \<Rightarrow> ('m, 'd, 'f, 'v, 's) ap_sys \<Rightarrow>
    ((int \<times> u8 list) list \<times> ('m, 'd, 'f, 'v, 's) ap_sys) option" where
  "input_run env p [] s = Some ([], s)"
| "input_run env p (n # ns) s = do {
     (ret, buf, s) \<leftarrow> player_input_callback env p (replicate (nat n) 0) n s;
     (rs, s) \<leftarrow> input_run env p ns s;
     Some ((ret, take (nat ret) buf) # rs, s) }"

text \<open>Whether the decoder was told that there is no more input.\<close>

definition input_ended :: "nat \<Rightarrow> ('m, 'd, 'f, 'v, 's) ap_sys \<Rightarrow> bool" where
  "input_ended p s = (let c = ps_player s p in
     if cp_type c = COM_PLAYER_TYPE_MP3 then md_input_done (snd (cp_mp3 c)) else ad_input_done (snd (cp_aac c)))"

text \<open>The test of the code for the end: a read that gave nothing, except for M4A, where only the size
  asked for is looked at.\<close>

definition end_noted :: "com_player_type \<Rightarrow> int \<Rightarrow> int \<times> u8 list \<Rightarrow> bool" where
  "end_noted ty n r = (if ty = COM_PLAYER_TYPE_M4A then n = 0 else fst r = 0)"

lemma set_done_w [simp]: "ps_w (com_player_set_done p e s) = ps_w s"
  by (simp add: com_player_set_done_def com_player_set_event_def Let_def set_player_def)

lemma set_done_ended [simp]: "input_ended p (com_player_set_done p e s)"
  by (simp add: com_player_set_done_def com_player_set_event_def Let_def input_ended_def set_player_def
      decoder_data_def mp3_data_def aac_data_def mp3_decoder_set_input_done_def aac_decoder_set_input_done_def split: prod.splits)

lemma set_done_type [simp]: "cp_type (ps_player (com_player_set_done p e s) p) = cp_type (ps_player s p)"
  by (simp add: com_player_set_done_def com_player_set_event_def Let_def set_player_def
      decoder_data_def mp3_data_def aac_data_def split: prod.splits)

lemma set_file_parts: "ps_player (set_file p afo s) = ps_player s" "ap_file (the_ap p (set_file p afo s)) = afo"
  by (simp_all add: set_file_def set_ap_def the_ap_def)

lemma input_callback_step:
  assumes "ap_file (the_ap p s) = Some af" "audio_file_read (ae_file env) (Some af) buf n = Some (m, buf', Some af')" "0 \<le> m"
  shows "\<exists>s'. player_input_callback env p buf n s = Some (m, buf', s') \<and> ap_file (the_ap p s') = Some af' \<and>
    cp_type (ps_player s' p) = cp_type (ps_player s p) \<and>
    (input_ended p s' \<longleftrightarrow> input_ended p s \<or> end_noted (cp_type (ps_player s p)) n (m, take (nat m) buf'))"
proof -
  let ?f = "set_file p (Some af') s"
  let ?s = "if end_noted (cp_type (ps_player s p)) n (m, take (nat m) buf') then com_player_set_done p False ?f else ?f"
  have "player_input_callback env p buf n s = Some (m, buf', ?s)"
    using assms by (simp add: player_input_callback_def Let_def end_noted_def set_file_parts)
  moreover have "ap_file (the_ap p ?s) = Some af'" by (simp add: the_ap_def set_file_parts [unfolded the_ap_def])
  moreover have "cp_type (ps_player ?s p) = cp_type (ps_player s p)" by (simp add: set_file_parts)
  moreover have "input_ended p ?f = input_ended p s" by (simp add: input_ended_def set_file_parts)
  ultimately show ?thesis by (intro exI [where x = ?s]) simp
qed

lemma input_run_reads:
  assumes "file_run (ae_file env) (map Read_Op ns) af = Some (rs, af')" "ap_file (the_ap p s) = Some af"
    "\<forall>r \<in> set rs. 0 \<le> fst r"
  shows "\<exists>s'. input_run env p ns s = Some (rs, s') \<and> ap_file (the_ap p s') = Some af' \<and>
    (input_ended p s' \<longleftrightarrow> input_ended p s \<or> (\<exists>(n, r) \<in> set (zip ns rs). end_noted (cp_type (ps_player s p)) n r))"
  using assms
proof (induction ns arbitrary: af rs s)
  case (Cons n ns)
  from Cons.prems(1) obtain m buf af1 rs1 where r:
    "audio_file_read (ae_file env) (Some af) (replicate (nat n) 0) n = Some (m, buf, Some af1)"
    "file_run (ae_file env) (map Read_Op ns) af1 = Some (rs1, af')" "rs = (m, take (nat m) buf) # rs1"
    by (auto simp: file_step_def bind_eq_Some_conv)
  from r(3) Cons.prems(3) have "0 \<le> m" by simp
  from input_callback_step [OF Cons.prems(2) r(1) this] obtain s1 where s1:
    "player_input_callback env p (replicate (nat n) 0) n s = Some (m, buf, s1)" "ap_file (the_ap p s1) = Some af1"
    "cp_type (ps_player s1 p) = cp_type (ps_player s p)"
    "input_ended p s1 \<longleftrightarrow> input_ended p s \<or> end_noted (cp_type (ps_player s p)) n (m, take (nat m) buf)" by blast
  from Cons.IH [OF r(2) s1(2)] Cons.prems(3) r(3) obtain s2 where s2: "input_run env p ns s1 = Some (rs1, s2)"
    "ap_file (the_ap p s2) = Some af'"
    "input_ended p s2 \<longleftrightarrow> input_ended p s1 \<or> (\<exists>(n, r) \<in> set (zip ns rs1). end_noted (cp_type (ps_player s1 p)) n r)" by auto
  show ?case using s1 s2 r(3) by auto
qed simp

text \<open>The results of a cursor.\<close>

lemma cursor_results: "list_all (\<lambda>n. 0 \<le> n) ns \<Longrightarrow> r \<in> set (fst (cursor_run c (map Read_Op ns) q)) \<Longrightarrow> 0 \<le> fst r"
  by (induction ns arbitrary: q) (auto simp: Let_def case_prod_beta)

lemma header_prefix: "8 \<le> length buf \<Longrightarrow> com_player_get_audio_type_by_header (take 8 buf) = com_player_get_audio_type_by_header buf"
  by (simp add: com_player_get_audio_type_by_header_def drop_take min_def)

text \<open>The sound as it reaches the decoder: the type by its first eight bytes, then the bytes from the
  first one on.\<close>

lemma sound_to_decoder:
  assumes "source_holds (ae_file env) path ty c" "allocator_ok (fe_mal (ae_file env))" "\<And>k i. fe_mal (ae_file env) k i \<noteq> None"
    "8 \<le> length c" "length (aw_stack (ps_w s)) = 8" "list_all (\<lambda>n. 0 \<le> n \<and> n < 2147483648) ns"
  shows "\<exists>af w' audio_type s1 s2. audio_file_open (ae_file env) path ty rng w = Some (Some af, w') \<and>
    read_header env p af s = Some (audio_type, s1) \<and>
    com_player_get_audio_type_by_header c = Some audio_type \<and>
    input_run env p ns (set_player p (start_flags audio_type) s1) = Some (fst (cursor_run c (map Read_Op ns) 0), s2) \<and>
    (input_ended p s2 \<longleftrightarrow> input_ended p (set_player p (start_flags audio_type) s1) \<or>
      (\<exists>(n, r) \<in> set (zip ns (fst (cursor_run c (map Read_Op ns) 0))). end_noted audio_type n r))"
proof -
  have ops: "list_all op_fits (map Read_Op ns)" "list_all (\<lambda>n. 0 \<le> n) ns"
    using assms(6) by (simp_all add: list_all_iff)
  from source_session [OF assms(1-3) _ _ _ ops(1), of 8 "aw_stack (ps_w s)" rng w] assms(4,5)
  obtain af w' buf af1 af2 where f: "audio_file_open (ae_file env) path ty rng w = Some (Some af, w')"
    "audio_file_preread (ae_file env) (Some af) (aw_stack (ps_w s)) 8 = Some (8, buf, af1)" "take 8 buf = take 8 c"
    "file_run (ae_file env) (map Read_Op ns) af1 = Some (fst (cursor_run c (map Read_Op ns) 0), af2)"
    by (auto simp: min_def)
  have l: "8 \<le> length buf" using arg_cong [OF f(3), of length] assms(4) by simp
  have t: "com_player_get_audio_type_by_header buf = com_player_get_audio_type_by_header c"
    using header_prefix [OF l] header_prefix [OF assms(4)] f(3) by simp
  obtain ty' where ty': "com_player_get_audio_type_by_header c = Some ty'"
    using assms(4) by (auto simp: com_player_get_audio_type_by_header_def)
  let ?s1 = "set_file p (Some af1) s"
  let ?s = "set_player p (start_flags ty') ?s1"
  have h: "read_header env p af s = Some (ty', ?s1)"
    using f(2) t ty' by (simp add: read_header_def COM_PLAYER_AUDIO_TYPE_HEADER_SIZE_def)
  have "ap_file (the_ap p ?s) = Some af1" by (simp add: the_ap_def set_player_def set_file_parts [unfolded the_ap_def])
  from input_run_reads [OF f(4) this] cursor_results [OF ops(2)]
  obtain s2 where "input_run env p ns ?s = Some (fst (cursor_run c (map Read_Op ns) 0), s2)"
    "input_ended p s2 \<longleftrightarrow> input_ended p ?s \<or>
      (\<exists>(n, r) \<in> set (zip ns (fst (cursor_run c (map Read_Op ns) 0))). end_noted (cp_type (ps_player ?s p)) n r)" by blast
  moreover have "cp_type (ps_player ?s p) = ty'" by (simp add: set_player_def start_flags_def)
  ultimately show ?thesis using f(1) h ty' by (intro exI [where x = af] exI [where x = w'] exI [where x = ty'] exI [where x = ?s1] exI [where x = s2]) simp
qed

end
