(* ===== verification/Players.thy ===== *)
theory Players
  imports Player_Consistent
begin

text \<open>
  Several player processes side by side, as the application has one for music and one for prompts: each
  machine runs its rounds and its client makes calls, in any order. The invariant of one process is an
  interface for the others: what a process does is, for every other one, a step that its own
  interpretation of the machine's contract allows for. So all of them stay consistent, and no two
  play at the same time.
\<close>

text \<open>What the client and the decoders of one process do beside its machine.\<close>

inductive own_api :: "('m, 'd, 'f, 'v, 's) ap_env \<Rightarrow> nat \<Rightarrow> ('m, 'd, 'f, 'v, 's) ap_sys \<Rightarrow> ('m, 'd, 'f, 'v, 's) ap_sys \<Rightarrow> bool"
  for env p where
  started: "own_api env p s (note_player_start p info s)"
| seek_to: "own_api env p s (set_ap p (\<lambda>a. a\<lparr>ap_seek := x\<rparr>) s)"
| lock: "audio_player_lock p s = Some s' \<Longrightarrow> own_api env p s s'"
| unlock: "audio_player_unlock p s = Some s' \<Longrightarrow> own_api env p s s'"
| progress: "audio_player_get_progress env p s = Some (r, s') \<Longrightarrow> own_api env p s s'"
| input: "player_input_callback env p buf n s = Some (m, buf', s') \<Longrightarrow> own_api env p s s'"
| sought: "player_seek_callback env p pos s = Some (ret, s') \<Longrightarrow> own_api env p s s'"
| failed: "player_error_callback p e s = (ret, s') \<Longrightarrow> own_api env p s s'"
| decoded: "decoder_output_callback (ae_play env) p i buf n s = Some (m, s') \<Longrightarrow> own_api env p s s'"
| requested: "pcm_trans_data_request_callback (ae_play env) p buf n s = Some (m, buf', s') \<Longrightarrow> own_api env p s s'"

lemma own_api_any: "own_api env p s s' \<Longrightarrow> ap_api env q s s'"
  by (induction rule: own_api.induct) (auto intro: ap_api.intros)

lemma own_step_api:
  assumes "fsm_step (ap_exec env p) (own_api env p) m m'"
  shows "fsm_step (ap_exec env p) (ap_api env p) m m'"
  using assms
proof cases
  case (api u u' f)
  then show ?thesis by (auto intro: fsm_step.api own_api_any)
qed (auto intro: fsm_step.intros)

text \<open>A round carries out at most one action.\<close>

lemma round_action:
  assumes "com_fsm_iteration (ap_exec env p) ws (f, s) = Some (True, f', s')"
  shows "s' = s \<or> (\<exists>a g st g'. ap_exec env p a (g, s) = Some (st, g', s'))"
  using assms
  by (auto simp: com_fsm_iteration_def com_fsm_dispatch_def com_fsm_ack_def Let_def bind_eq_Some_conv
      split: if_splits option.splits)

lemma step_for_other:
  assumes "fsm_step (ap_exec env p) (own_api env p) (f, s) (f', s')" "q \<noteq> p"
  shows "s' = s \<or> ap_api env q s s'"
  using assms(1)
proof cases
  case (round ws)
  from round_action [OF round] assms(2) show ?thesis by (auto intro: ap_api.other_machine)
next
  case (signal event)
  then show ?thesis by (auto dest: same_machine_set_event)
next
  case api
  then show ?thesis by (auto intro: own_api_any)
qed auto

section \<open>The processes together\<close>

type_synonym ('m, 'd, 'f, 'v, 's) players = "(nat \<Rightarrow> ap_action com_fsm) \<times> ('m, 'd, 'f, 'v, 's) ap_sys"

inductive players_step :: "('m, 'd, 'f, 'v, 's) ap_env \<Rightarrow> nat set \<Rightarrow> ('m, 'd, 'f, 'v, 's) players \<Rightarrow> ('m, 'd, 'f, 'v, 's) players \<Rightarrow> bool"
  for env ps where
  move: "p \<in> ps \<Longrightarrow> fsm_step (ap_exec env p) (own_api env p) (fs p, s) (f', s') \<Longrightarrow> players_step env ps (fs, s) (fs(p := f'), s')"

inductive_cases players_stepE: "players_step env ps (fs, s) (fs', s')"

inductive players_reach :: "('m, 'd, 'f, 'v, 's) ap_env \<Rightarrow> nat set \<Rightarrow> ('m, 'd, 'f, 'v, 's) players \<Rightarrow> ('m, 'd, 'f, 'v, 's) players \<Rightarrow> bool"
  for env ps u where
  start: "players_reach env ps u u"
| step: "players_reach env ps u v \<Longrightarrow> players_step env ps v w \<Longrightarrow> players_reach env ps u w"

definition players_ok :: "nat set \<Rightarrow> ('m, 'd, 'f, 'v, 's) players \<Rightarrow> bool" where
  "players_ok ps u \<longleftrightarrow> (\<forall>p \<in> ps. process_ok p (fst u p) (snd u))"

lemma players_step_ok:
  assumes "players_step env ps u v" "players_ok ps u" "\<forall>p \<in> ps. ap_env_ok env p"
  shows "players_ok ps v"
proof -
  obtain fs s fs' s' where uv: "u = (fs, s)" "v = (fs', s')" by fastforce
  from assms(1) [unfolded uv] obtain p f' where st: "p \<in> ps" "fsm_step (ap_exec env p) (own_api env p) (fs p, s) (f', s')" "fs' = fs(p := f')"
    by (elim players_stepE) blast
  have inv: "player.fsm_inv env q (fs q, s)" if "q \<in> ps" for q
    using assms(2,3) that by (simp add: process_inv players_ok_def uv)
  have "process_ok q (fs' q) s'" if q: "q \<in> ps" for q
  proof (cases "q = p")
    case True
    from player.step_inv [OF own_step_api [OF st(2)] inv [OF st(1)]] show ?thesis using True st(3) by (simp add: process_inv)
  next
    case False
    from step_for_other [OF st(2) False] inv [OF q] have "player.fsm_inv env q (fs q, s')" by (auto intro: machine_api)
    then show ?thesis using False st(3) by (simp add: process_inv)
  qed
  then show ?thesis by (simp add: players_ok_def uv)
qed

lemma players_reach_ok:
  assumes "players_reach env ps u v" "players_ok ps u" "\<forall>p \<in> ps. ap_env_ok env p"
  shows "players_ok ps v"
  using assms by induction (auto intro: players_step_ok)

text \<open>Who plays owns the transmitter, and it has one owner.\<close>

lemma players_exclude:
  assumes "players_ok ps u" "p \<in> ps" "q \<in> ps" "cur_state (fst u p) = AUDIO_PLAYER_STA_PLAY" "cur_state (fst u q) = AUDIO_PLAYER_STA_PLAY"
  shows "p = q"
proof -
  have "ps_holder (snd u) = Some p" "ps_holder (snd u) = Some q"
    using assms unfolding players_ok_def process_ok_def agrees_def by blast+
  then show ?thesis by simp
qed

section \<open>A start while another process plays\<close>

lemma start_while_other:
  assumes "audio_player_proc_start_action env p s = Some (st, s')" "ps_holder s = Some q" "q \<noteq> p" "ap_env_ok env p"
  shows "st = COM_FSM_HOLD_STATE \<and> ps_holder s' = Some q \<and> ap_file (the_ap p s') = None \<and>
    told_to p s' = told_to p s @ (if ap_callback (the_ap p s) then [AUDIO_PLAYER_EVENT_STOP] else [])"
proof -
  from assms(1) obtain r s1 where c: "audio_player_proc_start env p s = Some (r, s1)"
    by (auto simp: audio_player_proc_start_action_def bind_eq_Some_conv)
  let ?s = "audio_player_update_last_error p r s1"
  from proc_start_spec [OF c assms(4)] assms(2) have r: "r \<noteq> AUDIO_PLAYER_PROC_SUCCESS" "ps_holder s1 = Some q"
    "snd (ap_view p (ps_w s1)) = snd (ap_view p (ps_w s))" by (auto split: if_splits)
  have "ap_last_error (the_ap p ?s) \<noteq> AUDIO_PLAYER_PROC_SUCCESS"
    using r(1) by (auto simp: audio_player_update_last_error_def)
  with assms(1) c obtain x where x: "audio_player_proc_stop env p ?s = Some (x, s')" "st = COM_FSM_HOLD_STATE"
    by (auto simp: audio_player_proc_start_action_def bind_eq_Some_conv)
  from proc_stop_spec [OF x(1) assms(4)] r(2,3) assms(3) have v: "ps_holder s' = Some q"
    "ap_view p (ps_w s') = told_more [AUDIO_PLAYER_EVENT_STOP] (True, snd (ap_view p (ps_w s)))" by simp_all
  from v(2) x(2) v(1) show ?thesis
    by (simp add: ap_view_def told_more_def told_to_def the_ap_def)
qed

section \<open>A call is a path\<close>

text \<open>While a call waits, everything else goes on: \<open>serve\<close> is what happens to the called machine and the
  shared state, and the other machines get from \<open>fs\<close> to \<open>fs'\<close> meanwhile.\<close>

definition meanwhile :: "('m, 'd, 'f, 'v, 's) ap_env \<Rightarrow> nat set \<Rightarrow> nat \<Rightarrow> (nat \<Rightarrow> ap_action com_fsm) \<Rightarrow> ('m, 'd, 'f, 'v, 's) ap_serve \<Rightarrow>
    (nat \<Rightarrow> ap_action com_fsm) \<Rightarrow> bool" where
  "meanwhile env ps p fs serve fs' \<longleftrightarrow>
     (\<forall>f u f' u'. serve (f, u) = Some (f', u') \<longrightarrow> players_reach env ps (fs(p := f), u) (fs'(p := f'), u'))"

lemma players_trans: "players_reach env ps v w \<Longrightarrow> players_reach env ps u v \<Longrightarrow> players_reach env ps u w"
  by (induction rule: players_reach.induct) (auto intro: players_reach.step)

lemma players_move:
  "p \<in> ps \<Longrightarrow> fsm_step (ap_exec env p) (own_api env p) (f, s) (f', s') \<Longrightarrow>
    players_reach env ps (fs(p := f), s) (fs(p := f'), s')"
  using players_step.move [of p ps env "fs(p := f)" s f' s'] by (auto intro: players_reach.step [OF players_reach.start])

lemma players_api: "p \<in> ps \<Longrightarrow> own_api env p s s' \<Longrightarrow> players_reach env ps (fs(p := f), s) (fs(p := f), s')"
  by (intro players_move fsm_step.api)

lemma signal_path:
  assumes "signal_player serve ev (Some f, s) = Some m'" "meanwhile env ps p fs serve fs'" "p \<in> ps" "fsm_ready f"
  shows "\<exists>f' s'. m' = (Some f', s') \<and> players_reach env ps (fs(p := f), s) (fs'(p := f'), s')"
proof -
  from assms(4) obtain e where e: "event_handle f = Some e" by (auto simp: fsm_ready_def)
  let ?f = "f\<lparr>event_handle := Some (common_set_event e ev)\<rparr>"
  from assms(1) e obtain f1 u1 ack ack' where c: "serve (?f, s) = Some (f1, u1)" "event_ack_handle f1 = Some ack"
    "m' = (Some (f1\<lparr>event_ack_handle := Some ack'\<rparr>), u1)"
    by (auto simp: signal_player_def with_fsm_def com_fsm_set_event_def COM_FSM_MAX_WAIT_TIME_def Let_def bind_eq_Some_conv)
  have "players_reach env ps (fs(p := f), s) (fs(p := ?f), s)"
    using e by (intro players_move [OF assms(3)] fsm_step.signal [of _ ev]) (simp add: com_fsm_set_event_def)
  moreover have "players_reach env ps (fs(p := ?f), s) (fs'(p := f1), u1)" using assms(2) c(1) by (simp add: meanwhile_def)
  moreover have "players_reach env ps (fs'(p := f1), u1) (fs'(p := f1\<lparr>event_ack_handle := Some ack'\<rparr>), u1)"
    by (intro players_move [OF assms(3)] fsm_step.acknowledged [OF c(2)])
  ultimately show ?thesis using c(3) players_trans by blast
qed

lemma clear_path:
  assumes "clear_player_events (Some f, s) = Some m'" "p \<in> ps"
  shows "\<exists>f'. m' = (Some f', s) \<and> players_reach env ps (fs(p := f), s) (fs(p := f'), s)"
  using assms(1)
  by (auto simp: clear_player_events_def with_fsm_def bind_eq_Some_conv intro!: players_move [OF assms(2)] fsm_step.clear)

lemma stop_path:
  assumes "audio_player_stop serve p (Some f, s) = Some (r, m')" "meanwhile env ps p fs serve fs'" "p \<in> ps" "fsm_ready f"
  shows "\<exists>f' s'. m' = (Some f', s') \<and> players_reach env ps (fs(p := f), s) (fs'(p := f'), s') \<and> ap_mutex (the_ap p s') = Some False"
proof -
  from assms(1) obtain s1 m1 f2 s2 s3 where c: "audio_player_lock p s = Some s1"
    "signal_player serve AUDIO_PLAYER_EVENT_STOP (Some f, s1) = Some m1" "clear_player_events m1 = Some (f2, s2)"
    "audio_player_unlock p s2 = Some s3" "m' = (f2, s3)"
    by (auto simp: audio_player_stop_def bind_eq_Some_conv)
  from signal_path [OF c(2) assms(2-4)] obtain f1 u1 where m1: "m1 = (Some f1, u1)"
    "players_reach env ps (fs(p := f), s1) (fs'(p := f1), u1)" by blast
  from clear_path [OF c(3) [unfolded m1(1)] assms(3)] obtain f' where f': "f2 = Some f'" "s2 = u1"
    "players_reach env ps (fs'(p := f1), u1) (fs'(p := f'), u1)" by blast
  have "players_reach env ps (fs(p := f), s) (fs(p := f), s1)" "players_reach env ps (fs'(p := f'), u1) (fs'(p := f'), s3)"
    using c(1,4) f'(2) by (auto intro: players_api [OF assms(3)] own_api.intros)
  with m1(2) f'(3) have "players_reach env ps (fs(p := f), s) (fs'(p := f'), s3)" by (blast intro: players_trans)
  then show ?thesis using c(5) f'(1) unlock_free [OF c(4)] by blast
qed

lemma start_path:
  assumes "audio_player_start serve serve' p info looks (Some (fs p), s) = Some (r, m')" "object_string (ai_path info) \<noteq> Some []"
    "meanwhile env ps p fs serve fs1" "meanwhile env ps p fs1 serve' fs2" "p \<in> ps" "players_ok ps (fs, s)" "\<forall>p \<in> ps. ap_env_ok env p"
  shows "\<exists>f' s'. m' = (Some f', s') \<and> players_reach env ps (fs, s) (fs2(p := f'), s') \<and> ap_mutex (the_ap p s') = Some False"
proof -
  from assms(1,2) obtain r1 m1 where c: "audio_player_stop serve p (Some (fs p), s) = Some (r1, m1)"
    by (auto simp: audio_player_start_def bind_eq_Some_conv split: if_splits)
  have "fsm_ready (fs p)" using assms(5,6) by (simp add: players_ok_def process_ok_def)
  from stop_path [OF c assms(3,5) this] obtain f1 s1 where m1: "m1 = (Some f1, s1)"
    "players_reach env ps (fs, s) (fs1(p := f1), s1)" by auto
  from assms(1,2) c m1(1) obtain s2 f3 s3 s4 where d: "audio_player_lock p s1 = Some s2"
    "signal_player serve' AUDIO_PLAYER_EVENT_START (Some f1, note_player_start p info s2) = Some (f3, s3)"
    "audio_player_unlock p s3 = Some s4" "m' = (f3, s4)"
    by (auto simp: audio_player_start_def Let_def bind_eq_Some_conv split: if_splits option.splits)
  have "fsm_ready f1" using players_reach_ok [OF m1(2) assms(6,7)] assms(5) by (auto simp: players_ok_def process_ok_def)
  from signal_path [OF d(2) assms(4,5) this] obtain f' where f': "f3 = Some f'"
    "players_reach env ps (fs1(p := f1), note_player_start p info s2) (fs2(p := f'), s3)" by auto
  have "players_reach env ps (fs1(p := f1), s1) (fs1(p := f1), s2)"
    "players_reach env ps (fs1(p := f1), s2) (fs1(p := f1), note_player_start p info s2)"
    "players_reach env ps (fs2(p := f'), s3) (fs2(p := f'), s4)"
    using d(1,3) by (auto intro: players_api [OF assms(5)] own_api.intros)
  with m1(2) f'(2) have "players_reach env ps (fs, s) (fs2(p := f'), s4)" by (blast intro: players_trans)
  then show ?thesis using d(4) f'(1) unlock_free [OF d(3)] by blast
qed

end
