(* ===== verification/Message_Queue.thy ===== *)
theory Message_Queue
  imports Os_Layer
begin

text \<open>
  The message queues of src/common_queue.c over the System V queues of the operating system, and the
  queue of audio messages of src/audio_message_queue.c on top of them (the branches that are
  compiled). The system's queues are modelled as POSIX and the Linux manual describe them: messages
  with a type and a text, kept by key and identifier up to a number of bytes. The lemmas show that a
  queue is a bounded first-in first-out list of objects, when the objects have eight bytes more than
  the item size that was stated, and what happens when they do not.
\<close>

section \<open>The system's queues\<close>

text \<open>A message: its type, a \<open>long\<close>, and its text.\<close>

type_synonym message = "u64 \<times> u8 list"

record sysv =
  sv_id :: "u32 \<Rightarrow> nat option"
  sv_queue :: "nat \<Rightarrow> message list option"
  sv_next :: nat
  sv_queues :: nat
  sv_msgmax :: nat
  sv_qbytes :: nat

definition msgget :: "u32 \<Rightarrow> sysv \<Rightarrow> nat option \<times> sysv" where
  "msgget key s =
     (case (if key = 0 then None else sv_id s key) of
        Some i \<Rightarrow> (Some i, s)
      | None \<Rightarrow>
          if sv_queues s \<le> sv_next s then (None, s)
          else (Some (sv_next s), s\<lparr>sv_id := (if key = 0 then sv_id s else (sv_id s)(key := Some (sv_next s))),
            sv_queue := (sv_queue s)(sv_next s := Some []), sv_next := Suc (sv_next s)\<rparr>))"

definition msgctl_rmid :: "nat \<Rightarrow> sysv \<Rightarrow> sysv" where
  "msgctl_rmid i s = s\<lparr>sv_queue := (sv_queue s)(i := None), sv_id := (\<lambda>key. if sv_id s key = Some i then None else sv_id s key)\<rparr>"

definition mq_room :: "sysv \<Rightarrow> message list \<Rightarrow> nat \<Rightarrow> bool" where
  "mq_room s q n \<longleftrightarrow> n + sum_list (map (length \<circ> snd) q) \<le> sv_qbytes s \<and> length q + 1 \<le> sv_qbytes s"

text \<open>A wait: what the other processes make of the queues until the call can go on, or that it never
  can.\<close>

type_synonym sysv_wait = "sysv \<Rightarrow> sysv option"

text \<open>The call reads the type and \<open>msgsz\<close> bytes of text from the caller's object: \<open>None\<close> when it
  is shorter.\<close>

definition msgsnd :: "sysv_wait \<Rightarrow> nat \<Rightarrow> u8 list \<Rightarrow> int \<Rightarrow> bool \<Rightarrow> sysv \<Rightarrow> (int \<times> sysv) option" where
  "msgsnd later i obj msgsz nowait s =
     (if msgsz < 0 \<or> int (sv_msgmax s) < msgsz then Some (-1, s)
      else do {
        hd \<leftarrow> mem_read obj 0 8;
        txt \<leftarrow> mem_read obj 8 msgsz;
        (case sv_queue s i of
           None \<Rightarrow> Some (-1, s)
         | Some q \<Rightarrow>
             if sint (le_word hd :: u64) < 1 then Some (-1, s)
             else if mq_room s q (nat msgsz)
             then Some (0, s\<lparr>sv_queue := (sv_queue s)(i := Some (q @ [(le_word hd, txt)]))\<rparr>)
             else if nowait then Some (-1, s)
             else do {
               s \<leftarrow> later s;
               (case sv_queue s i of
                  None \<Rightarrow> Some (-1, s)
                | Some q \<Rightarrow> if mq_room s q (nat msgsz)
                    then Some (0, s\<lparr>sv_queue := (sv_queue s)(i := Some (q @ [(le_word hd, txt)]))\<rparr>)
                    else None) }) })"

text \<open>The first message of any type; its type and its text are written to the caller's object.\<close>

definition take_message :: "nat \<Rightarrow> message list \<Rightarrow> u8 list \<Rightarrow> int \<Rightarrow> sysv \<Rightarrow> (int \<times> u8 list \<times> sysv) option" where
  "take_message i q obj msgsz s =
     (let (ty, txt) = hd q in
      if msgsz < int (length txt) then Some (-1, obj, s)
      else do {
        obj \<leftarrow> mem_write obj 0 (le_bytes 8 ty);
        obj \<leftarrow> mem_write obj 8 txt;
        Some (int (length txt), obj, s\<lparr>sv_queue := (sv_queue s)(i := Some (tl q))\<rparr>) })"

definition msgrcv :: "sysv_wait \<Rightarrow> nat \<Rightarrow> u8 list \<Rightarrow> int \<Rightarrow> bool \<Rightarrow> sysv \<Rightarrow> (int \<times> u8 list \<times> sysv) option" where
  "msgrcv later i obj msgsz nowait s =
     (if msgsz < 0 then Some (-1, obj, s)
      else case sv_queue s i of
        None \<Rightarrow> Some (-1, obj, s)
      | Some q \<Rightarrow>
          if q \<noteq> [] then take_message i q obj msgsz s
          else if nowait then Some (-1, obj, s)
          else do {
            s \<leftarrow> later s;
            (case sv_queue s i of
               None \<Rightarrow> Some (-1, obj, s)
             | Some q \<Rightarrow> if q \<noteq> [] then take_message i q obj msgsz s else None) })"

section \<open>The queue of the code\<close>

record common_queue =
  msg_id :: nat
  item_size :: int

text \<open>The key is the address of the new structure, cut to an \<open>int\<close>; \<open>addr\<close> is what
  \<open>malloc\<close> gives.\<close>

definition common_create_queue :: "u64 option \<Rightarrow> int \<Rightarrow> sysv \<Rightarrow> common_queue option \<times> sysv" where
  "common_create_queue addr n s =
     (case addr of
        None \<Rightarrow> (None, s)
      | Some a \<Rightarrow> (case msgget (ucast a) s of
            (None, s) \<Rightarrow> (None, s)
          | (Some i, s) \<Rightarrow> (Some \<lparr>msg_id = i, item_size = n\<rparr>, s)))"

definition common_delete_queue :: "common_queue option \<Rightarrow> sysv \<Rightarrow> sysv" where
  "common_delete_queue cq s = (case cq of None \<Rightarrow> s | Some c \<Rightarrow> msgctl_rmid (msg_id c) s)"

definition common_send_queue :: "sysv_wait \<Rightarrow> common_queue option \<Rightarrow> u8 list \<Rightarrow> u32 \<Rightarrow> sysv \<Rightarrow> (int \<times> sysv) option" where
  "common_send_queue later cq data timeout s = do {
     c \<leftarrow> cq;
     (ret, s) \<leftarrow> msgsnd later (msg_id c) data (item_size c) (\<not> 0 < timeout) s;
     Some (if ret \<noteq> 0 then pdFALSE else pdTRUE, s) }"

definition common_recv_queue :: "sysv_wait \<Rightarrow> common_queue option \<Rightarrow> u8 list \<Rightarrow> u32 \<Rightarrow> sysv \<Rightarrow>
    (int \<times> u8 list \<times> sysv) option" where
  "common_recv_queue later cq data timeout s = do {
     c \<leftarrow> cq;
     (ret, data, s) \<leftarrow> msgrcv later (msg_id c) data (item_size c) (\<not> 0 < timeout) s;
     Some (if ret = -1 then pdFALSE else pdTRUE, data, s) }"

section \<open>Audio messages\<close>

record audio_msg_item =
  am_event :: u32
  am_data :: u64

definition AUDIO_MSG_ITEM_SIZE :: int where "AUDIO_MSG_ITEM_SIZE = 16"

text \<open>An item in memory: the event, four bytes of padding, the pointer.\<close>

definition item_bytes :: "u8 list \<Rightarrow> audio_msg_item \<Rightarrow> u8 list" where
  "item_bytes padding m = le_bytes 4 (am_event m) @ padding @ le_bytes 8 (am_data m)"

definition audio_msg_queue_init :: "u64 option \<Rightarrow> u32 \<Rightarrow> sysv \<Rightarrow> int \<times> common_queue option \<times> sysv" where
  "audio_msg_queue_init addr len s =
     (let (handle, s) = common_create_queue addr AUDIO_MSG_ITEM_SIZE s in (0, handle, s))"

definition audio_msg_queue_deinit :: "common_queue option \<Rightarrow> sysv \<Rightarrow> int \<times> sysv" where
  "audio_msg_queue_deinit handle s = (0, common_delete_queue handle s)"

text \<open>\<open>p_msg\<close> is the object the pointer leads to: 16 bytes for an item.\<close>

definition audio_msg_queue_send :: "sysv_wait \<Rightarrow> common_queue option \<Rightarrow> u8 list \<Rightarrow> u32 \<Rightarrow> sysv \<Rightarrow> (int \<times> sysv) option" where
  "audio_msg_queue_send later handle p_msg timeout s = do {
     (ret, s) \<leftarrow> common_send_queue later handle p_msg timeout s;
     Some (if ret \<noteq> pdTRUE then -1 else 0, s) }"

definition audio_msg_queue_recv :: "sysv_wait \<Rightarrow> common_queue option \<Rightarrow> u8 list \<Rightarrow> u32 \<Rightarrow> sysv \<Rightarrow>
    (int \<times> u8 list \<times> sysv) option" where
  "audio_msg_queue_recv later handle p_msg timeout s = do {
     (ret, p_msg, s) \<leftarrow> common_recv_queue later handle p_msg timeout s;
     Some (if ret \<noteq> pdTRUE then -1 else 0, p_msg, s) }"

section \<open>A bounded list of objects\<close>

lemma le_bytes_word:
  assumes "length bs = n" "8 * n \<le> LENGTH('a)"
  shows "le_bytes n (le_word bs :: 'a::len word) = bs"
proof (rule nth_equalityI)
  fix i
  assume "i < length (le_bytes n (le_word bs :: 'a word))"
  then have i: "i < n" by simp
  show "le_bytes n (le_word bs :: 'a word) ! i = bs ! i"
  proof (rule bit_word_eqI)
    fix j
    assume "j < LENGTH(8)"
    then have j: "j < 8" by simp
    have "8 * i + j < 8 * n" using i j by linarith
    then have "8 * i + j < LENGTH('a)" using assms(2) by simp
    moreover have "(8 * i + j) div 8 = i" "(8 * i + j) mod 8 = j" using j by simp_all
    ultimately show "bit (le_bytes n (le_word bs :: 'a word) ! i) j \<longleftrightarrow> bit (bs ! i) j"
      using i j assms(1) by (simp add: le_bytes_def bit_simps bit_le_word)
  qed
qed (simp add: assms(1))

text \<open>The object of a message with an item size of \<open>n\<close>: a positive type in the first eight
  bytes.\<close>

definition message_ok :: "nat \<Rightarrow> u8 list \<Rightarrow> bool" where
  "message_ok n d \<longleftrightarrow> length d = 8 + n \<and> 0 < sint (le_word (take 8 d) :: u64)"

definition msg_of :: "u8 list \<Rightarrow> message" where
  "msg_of d = (le_word (take 8 d), drop 8 d)"

lemma msg_of_back: "message_ok n d \<Longrightarrow> le_bytes 8 (fst (msg_of d)) @ snd (msg_of d) = d"
  by (simp add: msg_of_def message_ok_def le_bytes_word)

datatype mq_op = Mq_Send "u8 list" | Mq_Recv

text \<open>Calls that do not wait, and the list they amount to.\<close>

definition mq_step :: "common_queue \<Rightarrow> mq_op \<Rightarrow> sysv \<Rightarrow> ((int \<times> u8 list) \<times> sysv) option" where
  "mq_step c op s = (case op of
      Mq_Send d \<Rightarrow> do { (r, s) \<leftarrow> common_send_queue Some (Some c) d 0 s; Some ((r, []), s) }
    | Mq_Recv \<Rightarrow> do {
        (r, d, s) \<leftarrow> common_recv_queue Some (Some c) (replicate (nat (8 + item_size c)) 0) 0 s;
        Some ((r, if r = pdTRUE then d else []), s) })"

fun mq_run :: "common_queue \<Rightarrow> mq_op list \<Rightarrow> sysv \<Rightarrow> ((int \<times> u8 list) list \<times> sysv) option" where
  "mq_run c [] s = Some ([], s)"
| "mq_run c (op # ops) s = do {
     (r, s) \<leftarrow> mq_step c op s;
     (rs, s) \<leftarrow> mq_run c ops s;
     Some (r # rs, s) }"

fun mq_fifo_step :: "nat \<Rightarrow> mq_op \<Rightarrow> u8 list list \<Rightarrow> (int \<times> u8 list) \<times> u8 list list" where
  "mq_fifo_step cap (Mq_Send d) q = (if length q < cap then ((pdTRUE, []), q @ [d]) else ((pdFALSE, []), q))"
| "mq_fifo_step cap Mq_Recv [] = ((pdFALSE, []), [])"
| "mq_fifo_step cap Mq_Recv (d # q) = ((pdTRUE, d), q)"

fun mq_fifo_run :: "nat \<Rightarrow> mq_op list \<Rightarrow> u8 list list \<Rightarrow> (int \<times> u8 list) list" where
  "mq_fifo_run cap [] q = []"
| "mq_fifo_run cap (op # ops) q = fst (mq_fifo_step cap op q) # mq_fifo_run cap ops (snd (mq_fifo_step cap op q))"

definition mq_holds :: "common_queue \<Rightarrow> u8 list list \<Rightarrow> sysv \<Rightarrow> bool" where
  "mq_holds c q s \<longleftrightarrow> sv_queue s (msg_id c) = Some (map msg_of q) \<and> list_all (message_ok (nat (item_size c))) q \<and>
     0 < item_size c \<and> item_size c \<le> int (sv_msgmax s)"

lemma mq_bytes: "list_all (message_ok n) q \<Longrightarrow> sum_list (map (length \<circ> snd) (map msg_of q)) = n * length q"
  by (induction q) (auto simp: msg_of_def message_ok_def)

lemma mq_room_cap:
  assumes "list_all (message_ok n) q" "0 < n"
  shows "mq_room s (map msg_of q) n \<longleftrightarrow> length q < sv_qbytes s div n"
proof -
  have "length q < sv_qbytes s div n \<longleftrightarrow> n + n * length q \<le> sv_qbytes s"
    using assms(2) by (simp add: less_eq_div_iff_mult_less_eq Suc_le_eq [symmetric] mult.commute)
  moreover have "n + n * length q \<le> sv_qbytes s \<Longrightarrow> Suc (length q) \<le> sv_qbytes s"
    using assms(2) by (metis One_nat_def Suc_leI mult_Suc_right mult_le_mono1 nat_mult_1 order_trans)
  ultimately show ?thesis using mq_bytes [OF assms(1)] by (auto simp: mq_room_def)
qed

lemma mq_send_step:
  assumes "mq_holds c q s" "message_ok (nat (item_size c)) d"
  defines "cap \<equiv> sv_qbytes s div nat (item_size c)"
  shows "\<exists>s'. mq_step c (Mq_Send d) s = Some (fst (mq_fifo_step cap (Mq_Send d) q), s') \<and>
    mq_holds c (snd (mq_fifo_step cap (Mq_Send d) q)) s' \<and> sv_qbytes s' = sv_qbytes s"
proof -
  let ?n = "nat (item_size c)" and ?s = "s\<lparr>sv_queue := (sv_queue s)(msg_id c := Some (map msg_of q @ [msg_of d]))\<rparr>"
  have n: "int ?n = item_size c" "0 < ?n" "item_size c \<le> int (sv_msgmax s)" using assms(1) by (auto simp: mq_holds_def)
  have q: "sv_queue s (msg_id c) = Some (map msg_of q)" "list_all (message_ok ?n) q" using assms(1) by (simp_all add: mq_holds_def)
  have d: "length d = 8 + ?n" "0 < sint (le_word (take 8 d) :: u64)" using assms(2) by (simp_all add: message_ok_def)
  have "mem_read d 8 (int ?n) = Some (drop 8 d)" using d(1) by (simp only: mem_read_def) simp
  with d(1) have m: "mem_read d 0 8 = Some (take 8 d)" "mem_read d 8 (item_size c) = Some (drop 8 d)"
    unfolding n(1) by (simp_all add: mem_read_def)
  have r: "mq_room s (map msg_of q) ?n \<longleftrightarrow> length q < cap" using mq_room_cap [OF q(2) n(2)] by (simp add: cap_def)
  have "msgsnd Some (msg_id c) d (item_size c) True s = (if length q < cap then Some (0, ?s) else Some (-1, s))"
    using n q m d(2) r by (simp add: msgsnd_def msg_of_def)
  moreover have "mq_holds c (q @ [d]) ?s" using assms(1,2) by (simp add: mq_holds_def)
  ultimately show ?thesis
    using assms(1) by (auto simp: mq_step_def common_send_queue_def pdTRUE_def pdFALSE_def)
qed

lemma mq_recv_step:
  assumes "mq_holds c q s"
  shows "\<exists>s'. mq_step c Mq_Recv s = Some (fst (mq_fifo_step cap Mq_Recv q), s') \<and>
    mq_holds c (snd (mq_fifo_step cap Mq_Recv q)) s' \<and> sv_qbytes s' = sv_qbytes s"
proof (cases q)
  case Nil
  with assms show ?thesis
    by (auto simp: mq_step_def common_recv_queue_def msgrcv_def mq_holds_def pdTRUE_def pdFALSE_def)
next
  case (Cons d q')
  let ?n = "nat (item_size c)" and ?s = "s\<lparr>sv_queue := (sv_queue s)(msg_id c := Some (map msg_of q'))\<rparr>"
  let ?z = "replicate (nat (8 + item_size c)) (0 :: u8)"
  have n: "int ?n = item_size c" "0 < item_size c" using assms by (auto simp: mq_holds_def)
  have q: "sv_queue s (msg_id c) = Some (msg_of d # map msg_of q')" "message_ok ?n d"
    using assms by (simp_all add: mq_holds_def Cons)
  have l: "length (snd (msg_of d)) = ?n" "length ?z = 8 + ?n" using q(2) n by (simp_all add: msg_of_def message_ok_def nat_add_distrib)
  let ?z1 = "le_bytes 8 (fst (msg_of d)) @ drop 8 ?z"
  have z1: "mem_write ?z 0 (le_bytes 8 (fst (msg_of d))) = Some ?z1" "length ?z1 = 8 + ?n"
    using l(2) by (simp_all only: mem_write_def) simp_all
  have "mem_write ?z1 8 (snd (msg_of d)) = Some (le_bytes 8 (fst (msg_of d)) @ snd (msg_of d))"
    using z1(2) l(1) by (simp only: mem_write_def) simp
  then have w: "mem_write ?z1 8 (snd (msg_of d)) = Some d" using msg_of_back [OF q(2)] by simp
  have "take_message (msg_id c) (msg_of d # map msg_of q') ?z (item_size c) s = Some (item_size c, d, ?s)"
    using l(1) n z1(1) w by (simp add: take_message_def case_prod_beta)
  then have "msgrcv Some (msg_id c) ?z (item_size c) True s = Some (item_size c, d, ?s)"
    using n q(1) by (simp add: msgrcv_def)
  moreover have "mq_holds c q' ?s" using assms by (simp add: mq_holds_def Cons)
  ultimately show ?thesis
    using n by (simp add: mq_step_def common_recv_queue_def Cons pdTRUE_def)
qed

fun send_ok :: "nat \<Rightarrow> mq_op \<Rightarrow> bool" where
  "send_ok n (Mq_Send d) = message_ok n d"
| "send_ok n Mq_Recv = True"

lemma mq_run_fifo:
  assumes "mq_holds c q s" "list_all (send_ok (nat (item_size c))) ops"
  shows "\<exists>s'. mq_run c ops s = Some (mq_fifo_run (sv_qbytes s div nat (item_size c)) ops q, s')"
  using assms
proof (induction ops arbitrary: q s)
  case (Cons op ops)
  let ?cap = "sv_qbytes s div nat (item_size c)"
  have "\<exists>s'. mq_step c op s = Some (fst (mq_fifo_step ?cap op q), s') \<and>
    mq_holds c (snd (mq_fifo_step ?cap op q)) s' \<and> sv_qbytes s' = sv_qbytes s"
    using Cons.prems mq_send_step [OF Cons.prems(1)] mq_recv_step [OF Cons.prems(1), of ?cap] by (cases op) simp_all
  then obtain s' where s': "mq_step c op s = Some (fst (mq_fifo_step ?cap op q), s')"
    "mq_holds c (snd (mq_fifo_step ?cap op q)) s'" "sv_qbytes s' = sv_qbytes s" by blast
  from Cons.IH [OF s'(2)] Cons.prems(2) s'(1,3) show ?case by auto
qed simp

text \<open>A new queue is empty.\<close>

lemma created_queue:
  assumes "common_create_queue (Some a) n s = (Some c, s')" "0 < n" "n \<le> int (sv_msgmax s)"
    "ucast a = (0 :: u32) \<or> sv_id s (ucast a) = None"
  shows "mq_holds c [] s' \<and> item_size c = n \<and> sv_qbytes s' = sv_qbytes s"
  using assms by (auto simp: common_create_queue_def msgget_def mq_holds_def split: if_splits option.splits)

section \<open>What goes wrong\<close>

text \<open>An item of exactly the size that was stated is read beyond its end, and the room for one is
  written beyond its end when a message arrives.\<close>

lemma item_overread:
  assumes "length (item_bytes padding m) = 16" "item_size c = AUDIO_MSG_ITEM_SIZE" "16 \<le> sv_msgmax s"
  shows "audio_msg_queue_send later (Some c) (item_bytes padding m) timeout s = None"
  using assms by (simp add: audio_msg_queue_send_def common_send_queue_def msgsnd_def AUDIO_MSG_ITEM_SIZE_def mem_read_def)

lemma item_overwritten:
  assumes "length obj = 16" "item_size c = AUDIO_MSG_ITEM_SIZE" "sv_queue s (msg_id c) = Some ((ty, txt) # q)" "length txt = 16"
  shows "audio_msg_queue_recv later (Some c) obj timeout s = None"
  using assms by (simp add: audio_msg_queue_recv_def common_recv_queue_def msgrcv_def take_message_def AUDIO_MSG_ITEM_SIZE_def
      mem_write_def)

text \<open>Two structures whose addresses agree in the lower half share one queue.\<close>

lemma keys_collide:
  assumes "common_create_queue (Some a) n s = (Some c, s1)" "common_create_queue (Some b) m s1 = (Some d, s2)"
    "ucast a = (ucast b :: u32)" "ucast a \<noteq> (0 :: u32)"
  shows "msg_id d = msg_id c \<and> s2 = s1"
  using assms by (auto simp: common_create_queue_def msgget_def split: if_splits option.splits)

end
