(* ===== verification/Pcm_Preprocess.thy ===== *)
theory Pcm_Preprocess
  imports Prelude
begin

text \<open>
  The recording side, src/pcm_preprocess.c, in the build for the device with echo cancellation, wake-up
  and voice detection, and its short form in the build for Linux. The two libraries are parameters:
  their states, and what the wake-up engine reports while it is fed. The lemmas show that recorded
  bytes reach the echo canceller in frames of its size, in order and completely, that without
  playback the left channel is passed on, and that a frame left half full survives a pause.
\<close>

section \<open>State\<close>

text \<open>What the wake-up engine calls back with while it runs: \<open>Wake\<close> (whether the word was heard), or the
  status of the voice detection.\<close>

datatype wake_event = Wake bool | Voice int

record ('a, 'k) preproc_env =
  pv_alloc :: allocator
  aec_new :: "'a option"
  aec_mic_num :: "'a \<Rightarrow> int"
  aec_frame_size :: "'a \<Rightarrow> int"
  aec_mem_size :: "'a \<Rightarrow> int"
  aec_reset :: "'a \<Rightarrow> 'a"
  aec_feed :: "'a \<Rightarrow> u8 list \<Rightarrow> 'a"
  aec_pop :: "'a \<Rightarrow> int \<Rightarrow> 'a \<times> u8 list"
  wakeup_new :: "'k option"
  wakeup_start :: "'k \<Rightarrow> 'k"
  wakeup_feed :: "'k \<Rightarrow> u8 list \<Rightarrow> 'k \<times> wake_event list"

text \<open>\<open>aec_feed_buffer\<close> is the work buffer under another type: there is one object. The callbacks
  are set or NULL.\<close>

record ('a, 'k) pcm_preproc =
  hAec :: "'a option"
  sBlockSZ :: int
  sMicNum :: int
  lFrameSZ :: int
  aec_work_buffer :: "u8 list option"
  aec_work_size :: int
  aec_out_buffer :: "u8 list option"
  aec_out_size :: int
  aec_feed_size :: int
  aec_feed_length :: int
  hWakeup :: "'k option"
  wakeup_callback :: bool
  vad_callback :: bool
  wakeup_enable :: bool
  vad_status :: int
  output_callback :: bool

text \<open>What the owner was told: recorded bytes, a wake-up word, the begin and end of speech.\<close>

datatype preproc_told = Told_Output "u8 list" | Told_Wakeup bool | Told_Voice bool

text \<open>The owner's log, and the frames that went to the canceller; the second is kept for the statements
  only.\<close>

record preproc_log =
  lg_told :: "preproc_told list"
  lg_frames :: "u8 list list"

type_synonym ('a, 'k) preproc_sys = "('a, 'k) pcm_preproc \<times> preproc_log"

definition tell :: "preproc_told \<Rightarrow> ('a, 'k) preproc_sys \<Rightarrow> ('a, 'k) preproc_sys" where
  "tell x s = (fst s, (snd s)\<lparr>lg_told := lg_told (snd s) @ [x]\<rparr>)"

section \<open>Callbacks of the wake-up engine\<close>

definition wakeup_event_callback :: "bool \<Rightarrow> ('a, 'k) preproc_sys \<Rightarrow> ('a, 'k) preproc_sys" where
  "wakeup_event_callback woken s = (if wakeup_callback (fst s) then tell (Told_Wakeup woken) s else s)"

definition vad_event_callback :: "int \<Rightarrow> ('a, 'k) preproc_sys \<Rightarrow> ('a, 'k) preproc_sys" where
  "vad_event_callback status s =
     (if vad_status (fst s) \<noteq> status then
        let s = ((fst s)\<lparr>vad_status := status\<rparr>, snd s)
        in if vad_callback (fst s) then tell (Told_Voice (status \<noteq> 0)) s else s
      else s)"

definition wake_events :: "wake_event list \<Rightarrow> ('a, 'k) preproc_sys \<Rightarrow> ('a, 'k) preproc_sys" where
  "wake_events evs s = fold (\<lambda>e. case e of Wake w \<Rightarrow> wakeup_event_callback w | Voice v \<Rightarrow> vad_event_callback v) evs s"

section \<open>Enabling\<close>

definition pcm_preproc_wakeup_disable :: "('a, 'k) pcm_preproc \<Rightarrow> ('a, 'k) pcm_preproc" where
  "pcm_preproc_wakeup_disable p =
     (if \<not> wakeup_enable p then p else p\<lparr>wakeup_enable := False, hWakeup := None\<rparr>)"

text \<open>\<open>None\<close> when the canceller is missing.\<close>

definition pcm_preproc_wakeup_enable :: "('a, 'k) preproc_env \<Rightarrow> ('a, 'k) pcm_preproc \<Rightarrow> (int \<times> ('a, 'k) pcm_preproc) option" where
  "pcm_preproc_wakeup_enable env p =
     (if wakeup_enable p then Some (0, p)
      else do {
        h \<leftarrow> hAec p;
        let p = p\<lparr>aec_feed_length := 0, hAec := Some (aec_reset env h), hWakeup := wakeup_new env\<rparr>;
        (case hWakeup p of
           None \<Rightarrow> Some (-1, p)
         | Some w \<Rightarrow> Some (0, p\<lparr>hWakeup := Some (wakeup_start env w), vad_status := 0, wakeup_enable := True\<rparr>)) })"

section \<open>Creating\<close>

definition preproc_zero :: "('a, 'k) pcm_preproc" where
  "preproc_zero = \<lparr>hAec = None, sBlockSZ = 0, sMicNum = 0, lFrameSZ = 0, aec_work_buffer = None, aec_work_size = 0,
     aec_out_buffer = None, aec_out_size = 0, aec_feed_size = 0, aec_feed_length = 0, hWakeup = None,
     wakeup_callback = False, vad_callback = False, wakeup_enable = False, vad_status = 0, output_callback = False\<rparr>"

definition pcm_preproc_destroy :: "('a, 'k) pcm_preproc option \<Rightarrow> ('a, 'k) pcm_preproc option" where
  "pcm_preproc_destroy po = None"

text \<open>The memory is asked for in the order of the code; 128 stands for the size of the structure.\<close>

definition pcm_preproc_create :: "('a, 'k) preproc_env \<Rightarrow> nat \<Rightarrow> bool \<Rightarrow> ('a, 'k) pcm_preproc option" where
  "pcm_preproc_create env k callback =
     (if pv_alloc env k 128 = None then pcm_preproc_destroy None
      else
        let p = preproc_zero\<lparr>output_callback := callback\<rparr>
        in case aec_new env of
          None \<Rightarrow> pcm_preproc_destroy (Some p)
        | Some h \<Rightarrow>
            let p = p\<lparr>hAec := Some h, sBlockSZ := aec_mem_size env h, sMicNum := aec_mic_num env h, lFrameSZ := aec_frame_size env h\<rparr>;
                p = p\<lparr>aec_work_size := lFrameSZ p * 2 * 2, aec_out_size := lFrameSZ p * 2 * sMicNum p\<rparr>;
                p = p\<lparr>aec_feed_size := aec_work_size p, aec_feed_length := 0,
                  aec_work_buffer := pv_alloc env (k + 1) (nat (aec_work_size p))\<rparr>
            in if aec_work_buffer p = None then pcm_preproc_destroy (Some p)
            else
              let p = p\<lparr>aec_out_buffer := pv_alloc env (k + 2) (nat (aec_out_size p))\<rparr>
              in if aec_out_buffer p = None then pcm_preproc_destroy (Some p) else Some p)"

section \<open>Feeding\<close>

definition pcm_preproc_output :: "('a, 'k) preproc_env \<Rightarrow> u8 list \<Rightarrow> ('a, 'k) preproc_sys \<Rightarrow> ('a, 'k) preproc_sys option" where
  "pcm_preproc_output env bytes s = do {
     s \<leftarrow> (if wakeup_enable (fst s) then do {
            w \<leftarrow> hWakeup (fst s);
            let r = wakeup_feed env w bytes;
            Some (wake_events (snd r) ((fst s)\<lparr>hWakeup := Some (fst r)\<rparr>, snd s)) }
          else Some s);
     Some (if output_callback (fst s) then tell (Told_Output bytes) s else s) }"

text \<open>The copy of one microphone's samples into every \<open>sMicNum\<close>-th place of the output.\<close>

definition spread_samples :: "int \<Rightarrow> int \<Rightarrow> nat \<Rightarrow> u8 list \<Rightarrow> u8 list \<Rightarrow> u8 list option" where
  "spread_samples mics i frames work out =
     each [0..<frames] (\<lambda>j out. do {
       b \<leftarrow> mem_read work (2 * int j) 2;
       mem_write out (2 * (mics * int j + i)) b }) out"

text \<open>The result of the canceller for one microphone: it writes the samples to the start of the work
  buffer.\<close>

definition pop_mic :: "('a, 'k) preproc_env \<Rightarrow> int \<Rightarrow> ('a, 'k) pcm_preproc \<Rightarrow> ('a, 'k) pcm_preproc option" where
  "pop_mic env i p = do {
     h \<leftarrow> hAec p;
     work \<leftarrow> aec_work_buffer p;
     out \<leftarrow> aec_out_buffer p;
     let r = aec_pop env h i;
     work \<leftarrow> mem_write work 0 (snd r);
     out \<leftarrow> spread_samples (sMicNum p) i (nat (lFrameSZ p)) work out;
     Some (p\<lparr>hAec := Some (fst r), aec_work_buffer := Some work, aec_out_buffer := Some out\<rparr>) }"

text \<open>A full frame.\<close>

definition handle_frame :: "('a, 'k) preproc_env \<Rightarrow> ('a, 'k) preproc_sys \<Rightarrow> ('a, 'k) preproc_sys option" where
  "handle_frame env s = do {
     h \<leftarrow> hAec (fst s);
     work \<leftarrow> aec_work_buffer (fst s);
     frame \<leftarrow> mem_read work 0 (aec_feed_size (fst s));
     let p = (fst s)\<lparr>hAec := Some (aec_feed env h frame)\<rparr>;
     p \<leftarrow> each [0..<nat (sMicNum p)] (\<lambda>i. pop_mic env (int i)) p;
     out \<leftarrow> aec_out_buffer p;
     bytes \<leftarrow> mem_read out 0 (aec_out_size p);
     s \<leftarrow> pcm_preproc_output env bytes (p, (snd s)\<lparr>lg_frames := lg_frames (snd s) @ [frame]\<rparr>);
     Some ((fst s)\<lparr>aec_feed_length := 0\<rparr>, snd s) }"

text \<open>The loop over the recorded bytes.\<close>

partial_function (option) aec_loop ::
  "('a, 'k) preproc_env \<Rightarrow> u8 list \<Rightarrow> int \<Rightarrow> int \<Rightarrow> ('a, 'k) preproc_sys \<Rightarrow> ('a, 'k) preproc_sys option" where
  "aec_loop env buf n pos s =
     (if n \<le> pos then Some s
      else do {
        let p = fst s;
        let tmp = min (n - pos) (aec_feed_size p - aec_feed_length p);
        work \<leftarrow> aec_work_buffer p;
        b \<leftarrow> mem_read buf pos tmp;
        work \<leftarrow> mem_write work (aec_feed_length p) b;
        let s = (p\<lparr>aec_work_buffer := Some work, aec_feed_length := aec_feed_length p + tmp\<rparr>, snd s);
        s \<leftarrow> (if aec_feed_size (fst s) \<le> aec_feed_length (fst s) then handle_frame env s else Some s);
        aec_loop env buf n (pos + tmp) s })"

text \<open>The left channel of interleaved 16-bit samples, moved together in place.\<close>

definition left_channel :: "int \<Rightarrow> u8 list \<Rightarrow> u8 list option" where
  "left_channel n buf =
     each [0..<nat (n div 2)] (\<lambda>i buf. do {
       b0 \<leftarrow> mem_read buf (int i * 4) 1;
       buf \<leftarrow> mem_write buf (int i * 2) b0;
       b1 \<leftarrow> mem_read buf (int i * 4 + 1) 1;
       mem_write buf (int i * 2 + 1) b1 }) buf"

text \<open>\<open>tx_idle\<close> is whether the transmitter plays nothing, \<open>fst u\<close> the static variable of the
  function.\<close>

definition pcm_preproc_feed :: "('a, 'k) preproc_env \<Rightarrow> bool \<Rightarrow> u8 list \<Rightarrow> int \<Rightarrow> bool \<times> ('a, 'k) preproc_sys \<Rightarrow>
    (int \<times> u8 list \<times> bool \<times> ('a, 'k) preproc_sys) option" where
  "pcm_preproc_feed env tx_idle buf n u = do {
     let aec_handler = (\<not> tx_idle);
     s \<leftarrow> (if fst u \<noteq> aec_handler
       then map_option (\<lambda>h. ((fst (snd u))\<lparr>hAec := Some (aec_reset env h)\<rparr>, snd (snd u))) (hAec (fst (snd u)))
       else Some (snd u));
     if aec_handler then do {
       s \<leftarrow> aec_loop env buf n 0 s;
       Some (n, buf, aec_handler, s) }
     else do {
       let n = n div 2;
       buf \<leftarrow> left_channel n buf;
       bytes \<leftarrow> mem_read buf 0 n;
       s \<leftarrow> pcm_preproc_output env bytes s;
       Some (n, buf, aec_handler, s) } }"

text \<open>The build for Linux has no canceller and passes everything on.\<close>

definition pcm_preproc_feed_linux :: "u8 list \<Rightarrow> int \<Rightarrow> ('a, 'k) preproc_sys \<Rightarrow> (int \<times> ('a, 'k) preproc_sys) option" where
  "pcm_preproc_feed_linux buf n s = do {
     bytes \<leftarrow> mem_read buf 0 n;
     Some (n, if output_callback (fst s) then tell (Told_Output bytes) s else s) }"

section \<open>Frames\<close>

text \<open>The canceller keeps to its frame size; the structure is as \<open>create\<close> made it.\<close>

definition preproc_env_ok :: "('a, 'k) preproc_env \<Rightarrow> int \<Rightarrow> bool" where
  "preproc_env_ok env fr \<longleftrightarrow> (\<forall>h i. int (length (snd (aec_pop env h i))) = 2 * fr)"

definition preproc_core :: "('a, 'k) pcm_preproc \<Rightarrow> bool" where
  "preproc_core p \<longleftrightarrow> hAec p \<noteq> None \<and> 0 < lFrameSZ p \<and> 0 \<le> sMicNum p \<and>
     (\<exists>w out. aec_work_buffer p = Some w \<and> aec_out_buffer p = Some out \<and>
       int (length w) = 4 * lFrameSZ p \<and> int (length out) = 2 * lFrameSZ p * sMicNum p) \<and>
     aec_feed_size p = 4 * lFrameSZ p \<and> aec_out_size p = 2 * lFrameSZ p * sMicNum p \<and>
     (wakeup_enable p \<longrightarrow> hWakeup p \<noteq> None)"

definition preproc_wf :: "('a, 'k) pcm_preproc \<Rightarrow> bool" where
  "preproc_wf p \<longleftrightarrow> preproc_core p \<and> 0 \<le> aec_feed_length p \<and> aec_feed_length p < aec_feed_size p"

text \<open>What stays the same while feeding.\<close>

definition same_setup :: "('a, 'k) pcm_preproc \<Rightarrow> ('a, 'k) pcm_preproc \<Rightarrow> bool" where
  "same_setup p q \<longleftrightarrow> lFrameSZ q = lFrameSZ p \<and> sMicNum q = sMicNum p \<and> output_callback q = output_callback p \<and>
     aec_feed_size q = aec_feed_size p"

definition kept_bytes :: "('a, 'k) pcm_preproc \<Rightarrow> u8 list" where
  "kept_bytes p = (case aec_work_buffer p of None \<Rightarrow> [] | Some w \<Rightarrow> take (nat (aec_feed_length p)) w)"

definition outputs :: "preproc_log \<Rightarrow> u8 list list" where
  "outputs l = List.map_filter (\<lambda>t. case t of Told_Output b \<Rightarrow> Some b | _ \<Rightarrow> None) (lg_told l)"

lemma same_setup_refl [simp]: "same_setup p p"
  by (simp add: same_setup_def)

lemma same_setup_trans: "same_setup p q \<Longrightarrow> same_setup q r \<Longrightarrow> same_setup p r"
  by (simp add: same_setup_def)

lemma outputs_snoc: "lg_told l' = lg_told l @ [t] \<Longrightarrow> outputs l' = outputs l @ (case t of Told_Output b \<Rightarrow> [b] | _ \<Rightarrow> [])"
  by (simp add: outputs_def List.map_filter_def split: preproc_told.split)

lemma wake_events_frame:
  "\<exists>v. fst (wake_events evs s) = (fst s)\<lparr>vad_status := v\<rparr> \<and> lg_frames (snd (wake_events evs s)) = lg_frames (snd s) \<and>
     outputs (snd (wake_events evs s)) = outputs (snd s)"
proof (induction evs arbitrary: s)
  case Nil
  then show ?case by (auto simp: wake_events_def intro: exI [where x = "vad_status (fst s)"])
next
  case (Cons e evs)
  let ?s = "case e of Wake w \<Rightarrow> wakeup_event_callback w s | Voice v \<Rightarrow> vad_event_callback v s"
  have u: "(fst s)\<lparr>vad_status := vad_status (fst s)\<rparr> = fst s" by simp
  have "\<exists>v. fst ?s = (fst s)\<lparr>vad_status := v\<rparr> \<and> lg_frames (snd ?s) = lg_frames (snd s) \<and> outputs (snd ?s) = outputs (snd s)"
  proof (cases e)
    case (Wake w)
    then show ?thesis
      by (auto simp: wakeup_event_callback_def tell_def outputs_def List.map_filter_def intro: exI [where x = "vad_status (fst s)"])
  next
    case (Voice v)
    then show ?thesis
      by (cases "vad_status (fst s) = v") (auto simp: vad_event_callback_def Let_def tell_def outputs_def List.map_filter_def
          intro: exI [where x = v])
  qed
  then obtain v where v: "fst ?s = (fst s)\<lparr>vad_status := v\<rparr>" "lg_frames (snd ?s) = lg_frames (snd s)" "outputs (snd ?s) = outputs (snd s)" by blast
  from Cons.IH [of ?s] obtain v' where "fst (wake_events evs ?s) = (fst ?s)\<lparr>vad_status := v'\<rparr>"
    "lg_frames (snd (wake_events evs ?s)) = lg_frames (snd ?s)" "outputs (snd (wake_events evs ?s)) = outputs (snd ?s)" by blast
  moreover have "wake_events (e # evs) s = wake_events evs ?s" by (cases e) (simp_all add: wake_events_def)
  ultimately show ?case using v by auto
qed

lemma output_spec:
  assumes "wakeup_enable (fst s) \<longrightarrow> hWakeup (fst s) \<noteq> None"
  shows "\<exists>s' v w. pcm_preproc_output env bytes s = Some s' \<and> fst s' = (fst s)\<lparr>hWakeup := w, vad_status := v\<rparr> \<and>
    (wakeup_enable (fst s) \<longrightarrow> w \<noteq> None) \<and> lg_frames (snd s') = lg_frames (snd s) \<and>
    outputs (snd s') = outputs (snd s) @ (if output_callback (fst s) then [bytes] else [])"
proof (cases "wakeup_enable (fst s)")
  case False
  let ?s = "if output_callback (fst s) then tell (Told_Output bytes) s else s"
  from False show ?thesis
    by (intro exI [where x = ?s] exI [where x = "vad_status (fst s)"] exI [where x = "hWakeup (fst s)"])
      (simp add: pcm_preproc_output_def tell_def outputs_snoc)
next
  case True
  with assms obtain w where w: "hWakeup (fst s) = Some w" by auto
  let ?r = "wakeup_feed env w bytes" and ?s = "((fst s)\<lparr>hWakeup := Some (fst (wakeup_feed env w bytes))\<rparr>, snd s)"
  from wake_events_frame [of "snd ?r" ?s] obtain v where "fst (wake_events (snd ?r) ?s) = (fst ?s)\<lparr>vad_status := v\<rparr>"
    "lg_frames (snd (wake_events (snd ?r) ?s)) = lg_frames (snd s)" "outputs (snd (wake_events (snd ?r) ?s)) = outputs (snd s)" by auto
  with True w show ?thesis
    by (auto simp: pcm_preproc_output_def Let_def tell_def outputs_snoc)
qed

text \<open>One microphone, and a frame.\<close>

lemma spread_defined:
  assumes "int (length work) = 4 * fr" "int (length out) = 2 * fr * mics" "0 \<le> i" "i < mics" "0 < fr"
  shows "\<exists>out'. spread_samples mics i (nat fr) work out = Some out' \<and> length out' = length out"
proof -
  have "\<exists>out'. spread_samples mics i (nat fr) work out = Some out' \<and> length out' = length out"
    unfolding spread_samples_def
  proof (rule each_upt [where P = "\<lambda>_ o'. length o' = length out"])
    fix j and o' :: "u8 list"
    assume j: "j < nat fr" and o': "length o' = length out"
    have jf: "int j < fr" using j by linarith
    have "mics * int j + i + 1 \<le> mics * (int j + 1)" using assms(4) by (simp add: distrib_left)
    also have "\<dots> \<le> mics * fr" by (rule mult_left_mono) (use j assms(3,4) in linarith)+
    finally have b: "2 * (mics * int j + i) + 2 \<le> int (length out)" using assms(2) by (simp add: mult.commute mult.left_commute)
    have p: "0 \<le> mics * int j" using assms(3,4) by simp
    obtain b where r: "mem_read work (2 * int j) 2 = Some b"
      using jf assms(1) by (simp add: mem_read_def)
    from mem_read_length [OF r] have l: "length b = 2" by simp
    obtain o'' where w: "mem_write o' (2 * (mics * int j + i)) b = Some o''"
      using b p l o' assms(3) by (simp add: mem_write_def)
    with r mem_write_length [OF w] o' show "\<exists>s'. (mem_read work (2 * int j) 2 \<bind> (\<lambda>b. mem_write o' (2 * (mics * int j + i)) b)) = Some s' \<and> length s' = length out"
      by simp
  qed simp
  then show ?thesis .
qed

lemma pop_mic_defined:
  assumes "preproc_env_ok env (lFrameSZ p)" "preproc_core p" "0 \<le> i" "i < sMicNum p"
  shows "\<exists>p' h w out. pop_mic env i p = Some p' \<and> p' = p\<lparr>hAec := Some h, aec_work_buffer := Some w, aec_out_buffer := Some out\<rparr> \<and>
    preproc_core p'"
proof -
  obtain h w out where p: "hAec p = Some h" "aec_work_buffer p = Some w" "aec_out_buffer p = Some out"
    "int (length w) = 4 * lFrameSZ p" "int (length out) = 2 * lFrameSZ p * sMicNum p" "0 < lFrameSZ p"
    using assms(2) by (auto simp: preproc_core_def)
  let ?r = "aec_pop env h i"
  have "int (length (snd ?r)) = 2 * lFrameSZ p" using assms(1) by (simp add: preproc_env_ok_def)
  then obtain w' where w': "mem_write w 0 (snd ?r) = Some w'" using p(4,6) by (simp add: mem_write_def)
  then have l: "int (length w') = 4 * lFrameSZ p" using p(4) mem_write_length [OF w'] by simp
  obtain out' where out': "spread_samples (sMicNum p) i (nat (lFrameSZ p)) w' out = Some out'" "length out' = length out"
    using spread_defined [OF l p(5) assms(3,4) p(6)] by blast
  let ?p = "p\<lparr>hAec := Some (fst ?r), aec_work_buffer := Some w', aec_out_buffer := Some out'\<rparr>"
  have "pop_mic env i p = Some ?p" using p(1-3) w' out'(1) by (simp add: pop_mic_def Let_def)
  moreover have "preproc_core ?p" using assms(2) p l out'(2) by (auto simp: preproc_core_def)
  ultimately show ?thesis by blast
qed

lemma mics_defined:
  assumes "preproc_env_ok env (lFrameSZ p)" "preproc_core p"
  shows "\<exists>p'. each [0..<nat (sMicNum p)] (\<lambda>i. pop_mic env (int i)) p = Some p' \<and> preproc_core p' \<and> same_setup p p' \<and>
    aec_feed_length p' = aec_feed_length p"
proof (rule each_upt [where P = "\<lambda>_ q. preproc_core q \<and> same_setup p q \<and> aec_feed_length q = aec_feed_length p"])
  fix i q
  assume i: "i < nat (sMicNum p)" and q: "preproc_core q \<and> same_setup p q \<and> aec_feed_length q = aec_feed_length p"
  then have "preproc_env_ok env (lFrameSZ q)" "int i < sMicNum q" using assms(1) by (auto simp: same_setup_def)
  from pop_mic_defined [OF this(1) _ _ this(2)] q show "\<exists>s'. pop_mic env (int i) q = Some s' \<and>
      preproc_core s' \<and> same_setup p s' \<and> aec_feed_length s' = aec_feed_length p"
    by (auto simp: same_setup_def)
qed (use assms(2) in simp)

text \<open>The work buffer is full: \<open>preproc_wf\<close> with the count at the limit.\<close>

lemma frame_handled:
  assumes "preproc_env_ok env (lFrameSZ p)" "preproc_core p" "aec_work_buffer p = Some w"
  shows "\<exists>p' l'. handle_frame env (p, l) = Some (p', l') \<and> preproc_wf p' \<and> same_setup p p' \<and> aec_feed_length p' = 0 \<and>
    lg_frames l' = lg_frames l @ [w] \<and> length (outputs l') = length (outputs l) + (if output_callback p then 1 else 0)"
proof -
  from assms(2,3) obtain h where h: "hAec p = Some h" "int (length w) = aec_feed_size p" by (auto simp: preproc_core_def)
  then have fr: "mem_read w 0 (aec_feed_size p) = Some w" by (simp add: mem_read_def nat_eq_iff2)
  let ?p = "p\<lparr>hAec := Some (aec_feed env h w)\<rparr>" and ?l = "l\<lparr>lg_frames := lg_frames l @ [w]\<rparr>"
  have "preproc_core ?p" "preproc_env_ok env (lFrameSZ ?p)" using assms(1,2) by (simp_all add: preproc_core_def)
  from mics_defined [OF this(2,1)] obtain q where q: "each [0..<nat (sMicNum ?p)] (\<lambda>i. pop_mic env (int i)) ?p = Some q"
    "preproc_core q" "same_setup ?p q" by blast
  then obtain out where out: "aec_out_buffer q = Some out" "int (length out) = aec_out_size q" by (auto simp: preproc_core_def)
  then have rd: "mem_read out 0 (aec_out_size q) = Some out" by (simp add: mem_read_def nat_eq_iff2)
  have "wakeup_enable q \<longrightarrow> hWakeup q \<noteq> None" using q(2) by (simp add: preproc_core_def)
  with output_spec [of "(q, ?l)" env out, unfolded fst_conv snd_conv] obtain s' v k where o: "pcm_preproc_output env out (q, ?l) = Some s'"
    "fst s' = q\<lparr>hWakeup := k, vad_status := v\<rparr>" "wakeup_enable q \<longrightarrow> k \<noteq> None" "lg_frames (snd s') = lg_frames ?l"
    "outputs (snd s') = outputs ?l @ (if output_callback q then [out] else [])" by blast
  have "handle_frame env (p, l) = Some ((fst s')\<lparr>aec_feed_length := 0\<rparr>, snd s')"
    using h(1) fr q(1) out(1) rd o(1) assms(3) by (simp add: handle_frame_def Let_def)
  moreover have "preproc_wf ((fst s')\<lparr>aec_feed_length := 0\<rparr>)"
    using q(2) o(2,3) by (auto simp: preproc_wf_def preproc_core_def)
  moreover have "outputs ?l = outputs l" by (simp add: outputs_def)
  ultimately show ?thesis using o q(3) by (auto simp: same_setup_def)
qed

text \<open>The loop: whatever was kept and what comes is cut into frames, and the rest is kept.\<close>

lemma aec_loop_frames:
  assumes "preproc_env_ok env (lFrameSZ (fst s))" "preproc_wf (fst s)" "0 \<le> pos" "pos \<le> n" "n \<le> int (length buf)"
  shows "\<exists>s' fs. aec_loop env buf n pos s = Some s' \<and> preproc_wf (fst s') \<and> same_setup (fst s) (fst s') \<and>
    lg_frames (snd s') = lg_frames (snd s) @ fs \<and> list_all (\<lambda>f. int (length f) = aec_feed_size (fst s)) fs \<and>
    concat fs @ kept_bytes (fst s') = kept_bytes (fst s) @ drop (nat pos) (take (nat n) buf) \<and>
    length (outputs (snd s')) = length (outputs (snd s)) + (if output_callback (fst s) then length fs else 0)"
  using assms
proof (induction "nat (n - pos)" arbitrary: pos s rule: less_induct)
  case less
  obtain p l where s: "s = (p, l)" by fastforce
  show ?case
  proof (cases "n \<le> pos")
    case True
    with less.prems show ?thesis
      by (intro exI [where x = s] exI [where x = "[]"]) (simp add: aec_loop.simps)
  next
    case False
    obtain w where w: "aec_work_buffer p = Some w" "int (length w) = aec_feed_size p" and core: "preproc_core p"
      and len: "0 \<le> aec_feed_length p" "aec_feed_length p < aec_feed_size p"
      using less.prems(2) by (auto simp: s preproc_wf_def preproc_core_def)
    define tmp where "tmp = min (n - pos) (aec_feed_size p - aec_feed_length p)"
    have tmp: "0 < tmp" "pos + tmp \<le> n" "aec_feed_length p + tmp \<le> aec_feed_size p"
      using False len by (auto simp: tmp_def)
    define b where "b = take (nat tmp) (drop (nat pos) buf)"
    have rb: "mem_read buf pos tmp = Some b" using less.prems(3,5) tmp by (simp add: b_def mem_read_def)
    from mem_read_length [OF rb] have lb: "int (length b) = tmp" .
    define w' where "w' = take (nat (aec_feed_length p)) w @ b @ drop (nat (aec_feed_length p) + length b) w"
    have ww: "mem_write w (aec_feed_length p) b = Some w'" using len tmp(3) lb w(2) by (simp add: mem_write_def w'_def)
    have lw: "int (length w') = aec_feed_size p" using mem_write_length [OF ww] w(2) by simp
    let ?p = "p\<lparr>aec_work_buffer := Some w', aec_feed_length := aec_feed_length p + tmp\<rparr>"
    have core': "preproc_core ?p" using core lw w by (auto simp: preproc_core_def)
    have pend: "take (nat (aec_feed_length p + tmp)) w' = kept_bytes p @ b"
      using len lb tmp(1) w by (simp add: w'_def kept_bytes_def nat_add_distrib)
    have cut: "drop (nat pos) (take (nat n) buf) = b @ drop (nat (pos + tmp)) (take (nat n) buf)"
    proof -
      have "drop (nat pos) (take (nat n) buf) = take (nat tmp) (drop (nat pos) (take (nat n) buf)) @
          drop (nat tmp) (drop (nat pos) (take (nat n) buf))" by (rule append_take_drop_id [symmetric])
      moreover have "take (nat tmp) (drop (nat pos) (take (nat n) buf)) = b"
        using tmp less.prems(3) by (simp add: b_def drop_take min_def nat_le_eq_zle flip: nat_diff_distrib)
      moreover have "nat tmp + nat pos = nat (pos + tmp)" using tmp(1) less.prems(3) by simp
      ultimately show ?thesis by simp
    qed
    obtain s1 gs where s1: "(if aec_feed_size ?p \<le> aec_feed_length ?p then handle_frame env (?p, l) else Some (?p, l)) = Some s1"
      "preproc_wf (fst s1)" "same_setup p (fst s1)" "lg_frames (snd s1) = lg_frames l @ gs"
      "list_all (\<lambda>f. int (length f) = aec_feed_size p) gs" "concat gs @ kept_bytes (fst s1) = kept_bytes p @ b"
      "length (outputs (snd s1)) = length (outputs l) + (if output_callback p then length gs else 0)"
    proof (cases "aec_feed_size p \<le> aec_feed_length p + tmp")
      case True
      have "preproc_env_ok env (lFrameSZ ?p)" using less.prems(1) by (simp add: s)
      from frame_handled [OF this core', of w' l] obtain q k where q: "handle_frame env (?p, l) = Some (q, k)" "preproc_wf q"
        "same_setup ?p q" "aec_feed_length q = 0" "lg_frames k = lg_frames l @ [w']"
        "length (outputs k) = length (outputs l) + (if output_callback p then 1 else 0)" by auto
      have "kept_bytes q = []" using q(4) by (simp add: kept_bytes_def split: option.split)
      moreover have "w' = kept_bytes p @ b" using pend True tmp(3) lw by simp
      ultimately show ?thesis using that [of "(q, k)" "[w']"] q True lw by (simp add: same_setup_def)
    next
      case False
      then have "preproc_wf ?p" using core' len tmp(1) by (simp add: preproc_wf_def)
      moreover have "kept_bytes ?p = kept_bytes p @ b" using pend by (simp add: kept_bytes_def)
      ultimately show ?thesis using that [of "(?p, l)" "[]"] False by (simp add: same_setup_def)
    qed
    have "nat (n - (pos + tmp)) < nat (n - pos)" using tmp(1) False by simp
    from less.hyps [OF this, of s1] s1(2,3) less.prems tmp obtain s' fs where s': "aec_loop env buf n (pos + tmp) s1 = Some s'"
      "preproc_wf (fst s')" "same_setup (fst s1) (fst s')" "lg_frames (snd s') = lg_frames (snd s1) @ fs"
      "list_all (\<lambda>f. int (length f) = aec_feed_size (fst s1)) fs"
      "concat fs @ kept_bytes (fst s') = kept_bytes (fst s1) @ drop (nat (pos + tmp)) (take (nat n) buf)"
      "length (outputs (snd s')) = length (outputs (snd s1)) + (if output_callback (fst s1) then length fs else 0)"
      by (auto simp: s same_setup_def)
    have "aec_loop env buf n pos s = Some s'"
      using False w(1) rb ww s1(1) s'(1)
      by (cases "aec_feed_size p \<le> aec_feed_length p + tmp") (simp_all add: s aec_loop.simps [of env buf n pos] Let_def flip: tmp_def)
    moreover have "concat (gs @ fs) @ kept_bytes (fst s') = kept_bytes p @ drop (nat pos) (take (nat n) buf)"
      using s1(6) s'(6) cut by (metis append.assoc concat_append)
    ultimately show ?thesis
      using s1 s' by (intro exI [where x = s'] exI [where x = "gs @ fs"]) (auto simp: s same_setup_def)
  qed
qed

text \<open>Without playback: the left channel.\<close>

lemma left_channel_spec:
  assumes "0 \<le> n" "2 * n \<le> int (length buf)"
  shows "\<exists>buf'. left_channel n buf = Some buf' \<and> length buf' = length buf \<and>
    (\<forall>j < nat (n div 2). buf' ! (2 * j) = buf ! (4 * j) \<and> buf' ! (2 * j + 1) = buf ! (4 * j + 1))"
proof -
  define P where "P = (\<lambda>i b. length b = length buf \<and> (\<forall>j < i. b ! (2 * j) = buf ! (4 * j) \<and> b ! (2 * j + 1) = buf ! (4 * j + 1)) \<and>
    (\<forall>x. 2 * i \<le> x \<longrightarrow> b ! x = buf ! (x :: nat)))"
  have "\<exists>buf'. left_channel n buf = Some buf' \<and> P (nat (n div 2)) buf'"
    unfolding left_channel_def
  proof (rule each_upt [where P = P])
    fix i and b :: "u8 list"
    assume i: "i < nat (n div 2)" and b: "P i b"
    then have l: "length b = length buf" and o': "\<And>j. j < i \<Longrightarrow> b ! (2 * j) = buf ! (4 * j) \<and> b ! (2 * j + 1) = buf ! (4 * j + 1)"
      and r: "\<And>x. 2 * i \<le> x \<Longrightarrow> b ! x = buf ! x" by (simp_all add: P_def)
    have fit: "4 * i + 1 < length b" using i assms l by linarith
    let ?b1 = "b[2 * i := b ! (4 * i)]"
    let ?b2 = "?b1[2 * i + 1 := ?b1 ! (4 * i + 1)]"
    have rd: "mem_read c (int x) 1 = Some [c ! x]" if "x < length c" for c :: "u8 list" and x
      using that by (simp add: mem_read_def flip: Cons_nth_drop_Suc)
    have wr: "mem_write c (int x) [v] = Some (c[x := v])" if "x < length c" for c :: "u8 list" and x v
      using that by (simp add: mem_write_def upd_conv_take_nth_drop)
    have e: "int i * 4 = int (4 * i)" "int i * 2 = int (2 * i)" "int i * 4 + 1 = int (4 * i + 1)" "int i * 2 + 1 = int (2 * i + 1)" by simp_all
    have r1: "mem_read b (int (4 * i)) 1 = Some [b ! (4 * i)]" by (rule rd) (use fit in simp)
    have w1: "mem_write b (int (2 * i)) [b ! (4 * i)] = Some ?b1" by (rule wr) (use fit in simp)
    have r2: "mem_read ?b1 (int (4 * i + 1)) 1 = Some [?b1 ! (4 * i + 1)]" by (rule rd) (use fit in simp)
    have w2: "mem_write ?b1 (int (2 * i + 1)) [?b1 ! (4 * i + 1)] = Some ?b2" by (rule wr) (use fit in simp)
    have "(mem_read b (int i * 4) 1 \<bind> (\<lambda>b0. mem_write b (int i * 2) b0 \<bind> (\<lambda>buf. mem_read buf (int i * 4 + 1) 1 \<bind>
        (\<lambda>b1. mem_write buf (int i * 2 + 1) b1)))) = Some ?b2"
      unfolding e(3,4) unfolding e(1,2) by (simp only: r1 w1 r2 w2 Option.bind.bind_lunit)
    moreover have "P (Suc i) ?b2"
      using l fit o' r by (auto simp: P_def less_Suc_eq nth_list_update)
    ultimately show "\<exists>s'. (mem_read b (int i * 4) 1 \<bind> (\<lambda>b0. mem_write b (int i * 2) b0 \<bind> (\<lambda>buf. mem_read buf (int i * 4 + 1) 1 \<bind>
        (\<lambda>b1. mem_write buf (int i * 2 + 1) b1)))) = Some s' \<and> P (Suc i) s'" by blast
  qed (simp add: P_def)
  then show ?thesis by (auto simp: P_def)
qed

text \<open>Calls of feed one after the other, each with whether the transmitter is idle.\<close>

fun feed_run :: "('a, 'k) preproc_env \<Rightarrow> (bool \<times> u8 list) list \<Rightarrow> bool \<times> ('a, 'k) preproc_sys \<Rightarrow> (bool \<times> ('a, 'k) preproc_sys) option" where
  "feed_run env [] u = Some u"
| "feed_run env ((tx_idle, buf) # bs) u = do {
     (n, buf, u) \<leftarrow> pcm_preproc_feed env tx_idle buf (int (length buf)) u;
     feed_run env bs u }"

lemma feed_step:
  assumes "preproc_env_ok env (lFrameSZ p)" "preproc_wf p"
  shows "\<exists>n buf' was' p' l' fs. pcm_preproc_feed env tx_idle buf (int (length buf)) (was, p, l) = Some (n, buf', was', p', l') \<and>
    preproc_wf p' \<and> same_setup p p' \<and> lg_frames l' = lg_frames l @ fs \<and>
    list_all (\<lambda>f. int (length f) = aec_feed_size p) fs \<and>
    concat fs @ kept_bytes p' = kept_bytes p @ (if tx_idle then [] else buf) \<and>
    length (outputs l') = length (outputs l) + (if output_callback p then if tx_idle then 1 else length fs else 0)"
proof -
  let ?r = "if was \<noteq> (\<not> tx_idle) then map_option (\<lambda>h. p\<lparr>hAec := Some (aec_reset env h)\<rparr>) (hAec p) else Some p"
  obtain q where q: "?r = Some q" "preproc_wf q" "same_setup p q" "kept_bytes q = kept_bytes p"
  proof (cases "was \<noteq> (\<not> tx_idle)")
    case True
    from assms(2) obtain h where h: "hAec p = Some h" by (auto simp: preproc_wf_def preproc_core_def)
    show ?thesis
    proof (rule that)
      show "?r = Some (p\<lparr>hAec := Some (aec_reset env h)\<rparr>)" using True h by simp
    qed (use assms(2) in \<open>simp_all add: preproc_wf_def preproc_core_def same_setup_def kept_bytes_def split: option.split\<close>)
  qed (use assms(2) that in simp)
  have u: "(if was \<noteq> (\<not> tx_idle) then map_option (\<lambda>h. (p\<lparr>hAec := Some (aec_reset env h)\<rparr>, l)) (hAec p) else Some (p, l)) = Some (q, l)"
    using q(1) by (auto split: if_splits)
  show ?thesis
  proof (cases tx_idle)
    case False
    have "preproc_env_ok env (lFrameSZ (fst (q, l)))" using assms(1) q(3) by (simp add: same_setup_def)
    from aec_loop_frames [OF this, of 0 "int (length buf)" buf] q obtain s' fs where s': "aec_loop env buf (int (length buf)) 0 (q, l) = Some s'"
      "preproc_wf (fst s')" "same_setup q (fst s')" "lg_frames (snd s') = lg_frames l @ fs"
      "list_all (\<lambda>f. int (length f) = aec_feed_size q) fs" "concat fs @ kept_bytes (fst s') = kept_bytes q @ buf"
      "length (outputs (snd s')) = length (outputs l) + (if output_callback q then length fs else 0)" by auto
    have "pcm_preproc_feed env tx_idle buf (int (length buf)) (was, p, l) = Some (int (length buf), buf, True, fst s', snd s')"
      unfolding pcm_preproc_feed_def Let_def fst_conv snd_conv u using False s'(1) by simp
    with s' q(3,4) False show ?thesis
      by (intro exI [where x = "int (length buf)"] exI [where x = buf] exI [where x = True] exI [where x = "fst s'"]
          exI [where x = "snd s'"] exI [where x = fs]) (auto simp: same_setup_def)
  next
    case True
    let ?n = "int (length buf) div 2"
    have m: "2 * ?n \<le> int (length buf)" by linarith
    obtain b where b: "left_channel ?n buf = Some b" "length b = length buf" using left_channel_spec [of ?n buf, OF _ m] by auto
    obtain bs where bs: "mem_read b 0 ?n = Some bs" using b(2) m by (simp add: mem_read_def)
    have "wakeup_enable q \<longrightarrow> hWakeup q \<noteq> None" using q(2) by (simp add: preproc_wf_def preproc_core_def)
    with output_spec [of "(q, l)" env bs, unfolded fst_conv snd_conv] obtain s' v k where o: "pcm_preproc_output env bs (q, l) = Some s'"
      "fst s' = q\<lparr>hWakeup := k, vad_status := v\<rparr>" "wakeup_enable q \<longrightarrow> k \<noteq> None" "lg_frames (snd s') = lg_frames l"
      "outputs (snd s') = outputs l @ (if output_callback q then [bs] else [])" by blast
    have "pcm_preproc_feed env tx_idle buf (int (length buf)) (was, p, l) = Some (?n, b, False, fst s', snd s')"
      unfolding pcm_preproc_feed_def Let_def fst_conv snd_conv u using True b(1) bs o(1) by simp
    moreover have "preproc_wf (fst s')" "same_setup q (fst s')" "kept_bytes (fst s') = kept_bytes q"
      using q(2) o(2,3) by (auto simp: preproc_wf_def preproc_core_def same_setup_def kept_bytes_def)
    ultimately show ?thesis using o(4,5) q(3,4) True
      by (intro exI [where x = ?n] exI [where x = b] exI [where x = False] exI [where x = "fst s'"]
          exI [where x = "snd s'"] exI [where x = "[]"]) (auto simp: same_setup_def)
  qed
qed

lemma feed_frames:
  assumes "preproc_env_ok env (lFrameSZ p)" "preproc_wf p"
  shows "\<exists>was' p' l' fs. feed_run env bs (was, p, l) = Some (was', p', l') \<and> preproc_wf p' \<and> same_setup p p' \<and>
    lg_frames l' = lg_frames l @ fs \<and> list_all (\<lambda>f. int (length f) = aec_feed_size p) fs \<and>
    concat fs @ kept_bytes p' = kept_bytes p @ concat (map snd (filter (\<lambda>b. \<not> fst b) bs)) \<and>
    int (length (kept_bytes p')) < aec_feed_size p"
  using assms
proof (induction bs arbitrary: was p l)
  case Nil
  then show ?case
    by (intro exI [where x = was] exI [where x = p] exI [where x = l] exI [where x = "[]"])
      (auto simp: kept_bytes_def preproc_wf_def split: option.split)
next
  case (Cons x bs)
  obtain tx_idle buf where x: "x = (tx_idle, buf)" by fastforce
  from feed_step [OF Cons.prems, of tx_idle buf was l] obtain n buf' last1 p1 l1 fs where s:
    "pcm_preproc_feed env tx_idle buf (int (length buf)) (was, p, l) = Some (n, buf', last1, p1, l1)"
    "preproc_wf p1" "same_setup p p1" "lg_frames l1 = lg_frames l @ fs"
    "list_all (\<lambda>f. int (length f) = aec_feed_size p) fs" "concat fs @ kept_bytes p1 = kept_bytes p @ (if tx_idle then [] else buf)" by blast
  have "preproc_env_ok env (lFrameSZ p1)" using Cons.prems(1) s(3) by (simp add: same_setup_def)
  from Cons.IH [OF this s(2), of last1 l1] obtain was' p' l' gs where t: "feed_run env bs (last1, p1, l1) = Some (was', p', l')"
    "preproc_wf p'" "same_setup p1 p'" "lg_frames l' = lg_frames l1 @ gs" "list_all (\<lambda>f. int (length f) = aec_feed_size p1) gs"
    "concat gs @ kept_bytes p' = kept_bytes p1 @ concat (map snd (filter (\<lambda>b. \<not> fst b) bs))" "int (length (kept_bytes p')) < aec_feed_size p1" by blast
  have "concat (fs @ gs) @ kept_bytes p' = kept_bytes p @ concat (map snd (filter (\<lambda>b. \<not> fst b) (x # bs)))"
    using s(6) t(6) by (cases tx_idle) (simp_all add: x)
  moreover have "aec_feed_size p1 = aec_feed_size p" using s(3) by (simp add: same_setup_def)
  ultimately show ?case using s(1,4,5) t same_setup_trans [OF s(3) t(3)]
    by (intro exI [where x = was'] exI [where x = p'] exI [where x = l'] exI [where x = "fs @ gs"]) (simp add: x)
qed

text \<open>A new structure.\<close>

lemma create_wf:
  assumes "pcm_preproc_create env k callback = Some p" "allocator_ok (pv_alloc env)" "0 < lFrameSZ p" "0 \<le> sMicNum p"
  shows "preproc_wf p \<and> kept_bytes p = [] \<and> output_callback p = callback"
proof -
  have n: "int (nat (4 * x)) = 4 * x" "nat (2 * x * y) = nat (2 * x * y)" if "0 < x" for x y :: int using that by simp_all
  from assms(1) obtain h w out where p: "aec_new env = Some h" "pv_alloc env (k + 1) (nat (lFrameSZ p * 2 * 2)) = Some w"
    "pv_alloc env (k + 2) (nat (lFrameSZ p * 2 * sMicNum p)) = Some out" "hAec p = Some h" "aec_work_buffer p = Some w"
    "aec_out_buffer p = Some out" "aec_feed_size p = lFrameSZ p * 2 * 2" "aec_out_size p = lFrameSZ p * 2 * sMicNum p"
    "aec_feed_length p = 0" "wakeup_enable p = False" "output_callback p = callback"
    by (auto simp: pcm_preproc_create_def Let_def preproc_zero_def pcm_preproc_destroy_def split: option.splits if_splits)
  have "length w = nat (lFrameSZ p * 2 * 2)" "length out = nat (lFrameSZ p * 2 * sMicNum p)"
    using allocator_okD [OF assms(2)] p(2,3) by blast+
  moreover have "0 \<le> lFrameSZ p * 2 * sMicNum p" using assms(3,4) by simp
  ultimately have "int (length w) = 4 * lFrameSZ p" "int (length out) = 2 * lFrameSZ p * sMicNum p"
    using assms(3) by (simp_all add: mult.commute mult.left_commute)
  with p assms(3,4) show ?thesis by (simp add: preproc_wf_def preproc_core_def kept_bytes_def mult.commute mult.left_commute)
qed

end
