(* ===== verification/Audio_Test.thy ===== *)
theory Audio_Test
  imports Players
begin

text \<open>
  The program itself, app/main.c with app/audio_test.c: two player processes, one for music and one
  for prompts, a list of sounds started a second apart, and a wait until both machines are idle.
  The main thread's steps are interleaved with everything else that runs. The lemmas show that every
  call it makes is a path of the processes' step relation, so the run keeps their invariants, that
  the end of the run finds the prompt player idle, and that a run to the end exists.
\<close>

section \<open>The sounds\<close>

definition AUDIO_PLAYER_MAX_PATH_SIZE :: nat where "AUDIO_PLAYER_MAX_PATH_SIZE = 2048"

text \<open>An initialised array of characters has zeros behind the string.\<close>

definition path_object :: "string \<Rightarrow> u8 list" where
  "path_object str = lit str @ replicate (AUDIO_PLAYER_MAX_PATH_SIZE - length str) 0"

definition test_info :: "string \<Rightarrow> audio_file_type \<Rightarrow> audio_player_type \<Rightarrow> audio_player_info" where
  "test_info path source type =
     \<lparr>ai_path = path_object path, ai_source = source, ai_type = type, ai_uuid = 0\<rparr>"

definition resource_player_info :: "audio_player_info list" where
  "resource_player_info = [
     test_info ''http://0.0.0.0:8000/test1.mp3'' AUDIO_FILE_TYPE_WEB AUDIO_PLAYER_TYPE_RESOURCE,
     test_info ''http://127.0.0.1:8000/test2.m4a'' AUDIO_FILE_TYPE_WEB AUDIO_PLAYER_TYPE_RESOURCE,
     test_info ''../test3.aac'' AUDIO_FILE_TYPE_SD_CARD AUDIO_PLAYER_TYPE_RESOURCE,
     test_info ''../test3.aac'' AUDIO_FILE_TYPE_SD_CARD AUDIO_PLAYER_TYPE_PROMPT,
     test_info ''StartUp.mp3'' AUDIO_FILE_TYPE_FLASH AUDIO_PLAYER_TYPE_PROMPT,
     test_info ''http://readbook.koo6.cn/soundU/64495cn.mp3?sign=d0f1c33058afb4fb1fef81ae198f13b4&t=5bf226bd''
       AUDIO_FILE_TYPE_WEB AUDIO_PLAYER_TYPE_RESOURCE]"

text \<open>The two static processes, by address.\<close>

definition resource_player :: nat where "resource_player = 1"
definition prompt_player :: nat where "prompt_player = 2"
definition test_players :: "nat set" where "test_players = {resource_player, prompt_player}"

definition player_for :: "audio_player_info \<Rightarrow> nat" where
  "player_for info = (if ai_type info = AUDIO_PLAYER_TYPE_PROMPT then prompt_player else resource_player)"

section \<open>The run\<close>

definition audio_player_test_init :: "('m, 'd, 'f, 'v, 's) ap_env \<Rightarrow> ('m, 'd, 'f, 'v, 's) ap_sys \<Rightarrow>
    ap_action com_fsm option \<times> ap_action com_fsm option \<times> ('m, 'd, 'f, 'v, 's) ap_sys" where
  "audio_player_test_init env s =
     (let (k, tx, rx) = pcm_trans_init (pe_alloc (ae_play env)) (ps_k s);
          (_, resource, s) = audio_player_init env resource_player (s\<lparr>ps_tx := tx, ps_k := k\<rparr>);
          (_, prompt, s) = audio_player_init env prompt_player s
      in (resource, prompt, s))"

text \<open>Where the main thread is: before the start of the n-th sound, at the head of the wait loop, between
  its two looks, behind it.\<close>

datatype test_pc = Starting nat | Waiting | Looked | Ended

text \<open>One step of the program: the main thread goes on, or, between its statements and during its waits,
  anything else happens. A start waits twice, for the stop before it and for itself.\<close>

inductive test_step :: "('m, 'd, 'f, 'v, 's) ap_env \<Rightarrow> test_pc \<times> ('m, 'd, 'f, 'v, 's) players \<Rightarrow>
    test_pc \<times> ('m, 'd, 'f, 'v, 's) players \<Rightarrow> bool" for env where
  start: "i < length resource_player_info \<Longrightarrow> p = player_for (resource_player_info ! i) \<Longrightarrow>
    audio_player_start serve serve' p (resource_player_info ! i) None (Some (fs p), s) = Some (r, Some f', s') \<Longrightarrow>
    meanwhile env test_players p fs serve fs1 \<Longrightarrow> meanwhile env test_players p fs1 serve' fs2 \<Longrightarrow>
    test_step env (Starting i, fs, s) (Starting (Suc i), fs2(p := f'), s')"
| started: "test_step env (Starting (length resource_player_info), u) (Waiting, u)"
| resource_idle: "com_fsm_get_state (Some (fs resource_player)) = AUDIO_PLAYER_STA_IDLE \<Longrightarrow>
    test_step env (Waiting, fs, s) (Looked, fs, s)"
| prompt_idle: "com_fsm_get_state (Some (fs prompt_player)) = AUDIO_PLAYER_STA_IDLE \<Longrightarrow>
    test_step env (Looked, fs, s) (Ended, fs, s)"
| prompt_busy: "com_fsm_get_state (Some (fs prompt_player)) \<noteq> AUDIO_PLAYER_STA_IDLE \<Longrightarrow>
    test_step env (Looked, fs, s) (Waiting, fs, s)"
| others: "pc \<noteq> Ended \<Longrightarrow> players_step env test_players u v \<Longrightarrow> test_step env (pc, u) (pc, v)"

inductive test_reach :: "('m, 'd, 'f, 'v, 's) ap_env \<Rightarrow> test_pc \<times> ('m, 'd, 'f, 'v, 's) players \<Rightarrow>
    test_pc \<times> ('m, 'd, 'f, 'v, 's) players \<Rightarrow> bool" for env u where
  start: "test_reach env u u"
| step: "test_reach env u v \<Longrightarrow> test_step env v w \<Longrightarrow> test_reach env u w"

text \<open>What is left after the loop.\<close>

definition audio_player_test_end :: "(ap_world \<Rightarrow> ap_world) \<Rightarrow> pcm_action com_fsm option \<times> nat pcm_trans \<Rightarrow>
    ('m, 'd, 'f, 'v, 's) players \<Rightarrow> ('m, 'd, 'f, 'v, 's) ap_sys option" where
  "audio_player_test_end snd_config_free rx u = do {
     (_, _, s) \<leftarrow> audio_player_deinit resource_player (Some (fst u resource_player), snd u);
     (_, _, s) \<leftarrow> audio_player_deinit prompt_player (Some (fst u prompt_player), s);
     (tx, _, w) \<leftarrow> pcm_trans_deinit snd_config_free (ps_tx s) rx (ps_w s);
     Some (s\<lparr>ps_tx := tx, ps_w := w\<rparr>) }"

section \<open>The program's run is safe\<close>

lemma test_paths: "i < length resource_player_info \<Longrightarrow>
    player_for (resource_player_info ! i) \<in> test_players \<and>
    (\<exists>c cs. object_string (ai_path (resource_player_info ! i)) = Some (c # cs))"
proof -
  have l: "length resource_player_info = 6" by (simp add: resource_player_info_def)
  assume "i < length resource_player_info"
  then consider "i = 0" | "i = 1" | "i = 2" | "i = 3" | "i = 4" | "i = 5" unfolding l by linarith
  then show ?thesis
    by cases (simp_all add: resource_player_info_def test_info_def path_object_def AUDIO_PLAYER_MAX_PATH_SIZE_def
        object_string_def c_string_def player_for_def test_players_def)
qed

lemma test_step_ok:
  assumes "test_step env (pc, fs, s) (pc', fs', s')" "players_ok test_players (fs, s)" "\<forall>p \<in> test_players. ap_env_ok env p"
  shows "players_ok test_players (fs', s')"
  using assms(1)
proof cases
  case start
  note t = test_paths [OF start(4), folded start(5)]
  from start_path [OF start(6) _ start(7,8) _ assms(2,3)] t [THEN conjunct1] t [THEN conjunct2]
  show ?thesis using players_reach_ok [OF _ assms(2,3)] start(3) by auto
next
  case others
  then show ?thesis using players_step_ok assms(2,3) by blast
qed (use assms(2) in auto)

lemma test_reach_ok:
  assumes "test_reach env u v" "players_ok test_players (snd u)" "\<forall>p \<in> test_players. ap_env_ok env p" "fst u \<noteq> Ended"
  shows "players_ok test_players (snd v) \<and> (fst v = Ended \<longrightarrow> cur_state (fst (snd v) prompt_player) = AUDIO_PLAYER_STA_IDLE)"
  using assms
proof induction
  case (step v w)
  then have v: "players_ok test_players (snd v)" by simp
  obtain pc fs s pc' fs' s' where vw: "v = (pc, fs, s)" "w = (pc', fs', s')" by (metis prod_cases3)
  have "players_ok test_players (snd w)" using test_step_ok step.hyps(2) v step.prems(2) by (simp add: vw)
  moreover have "pc' = Ended \<longrightarrow> cur_state (fs' prompt_player) = AUDIO_PLAYER_STA_IDLE"
    using step.hyps(2) unfolding vw by cases (auto simp: com_fsm_get_state_def)
  ultimately show ?case by (simp add: vw)
qed simp

text \<open>The processes as they are created: idle, with their event groups and a free mutex.\<close>

definition test_fresh :: "('m, 'd, 'f, 'v, 's) players \<Rightarrow> bool" where
  "test_fresh u \<longleftrightarrow> (\<forall>p \<in> test_players. fsm_ready (fst u p) \<and> cur_state (fst u p) = AUDIO_PLAYER_STA_IDLE \<and>
     ap_mutex (the_ap p (snd u)) = Some False)"

lemma test_init:
  assumes "\<And>k n. pe_alloc (ae_play env) k n \<noteq> None" "ps_holder s = None" "aw_told (ps_w s) = []"
  shows "\<exists>f f' s'. audio_player_test_init env s = (Some f, Some f', s') \<and>
    players_ok test_players ((\<lambda>_. f)(prompt_player := f'), s') \<and>
    test_fresh ((\<lambda>_. f)(prompt_player := f'), s')"
proof -
  have ne: "prompt_player \<noteq> resource_player" by (simp add: prompt_player_def resource_player_def)
  define f where "f = \<lparr>event_handle = Some 0, event_ack_handle = Some 0, cur_state = 0, lookup_table = ap_lookup,
    init_action = None, deinit_action = None\<rparr>"
  have create: "\<exists>k'. com_fsm_create_inner (pe_alloc (ae_play env)) k ap_lookup None None = (k', Some f)" for k
    using assms(1) by (auto simp: com_fsm_create_inner_def common_create_event_def f_def)
  obtain k rx and tx :: "pcm_action com_fsm option \<times> nat pcm_trans" where
    t: "pcm_trans_init (pe_alloc (ae_play env)) (ps_k s) = (k, tx, rx)" by (metis prod_cases3)
  have i: "\<exists>s'. audio_player_init env p u = (AUDIO_PLAYER_PROC_SUCCESS, Some f, s') \<and> ps_holder s' = ps_holder u \<and>
      aw_told (ps_w s') = aw_told (ps_w u) \<and> ap_file (the_ap p s') = None \<and> ap_mutex (the_ap p s') = Some False \<and>
      (\<forall>q. q \<noteq> p \<longrightarrow> the_ap q s' = the_ap q u)" for p and u :: "('a, 'b, 'c, 'd, 'e) ap_sys"
  proof -
    let ?s = "snd (com_player_init (ae_play env) p (set_ap p (\<lambda>_. audio_player_zero\<lparr>ap_mutex :=
        xSemaphoreCreateMutex (pe_alloc (ae_play env)) (ps_k u)\<rparr>) (u\<lparr>ps_k := ps_k u + 1\<rparr>)))"
    from create [of "ps_k ?s"] obtain k' where
      c: "com_fsm_create_inner (pe_alloc (ae_play env)) (ps_k ?s) ap_lookup None None = (k', Some f)" by blast
    then have "audio_player_init env p u = (AUDIO_PLAYER_PROC_SUCCESS, Some f, ?s\<lparr>ps_k := k'\<rparr>)"
      by (simp add: audio_player_init_def Let_def)
    moreover have "xSemaphoreCreateMutex (pe_alloc (ae_play env)) (ps_k u) = Some False"
      using assms(1) by (simp add: xSemaphoreCreateMutex_def)
    ultimately show ?thesis
      by (auto simp: com_player_init_def Let_def set_player_def set_ap_def the_ap_def audio_player_zero_def split: prod.splits)
  qed
  from i [of resource_player "s\<lparr>ps_tx := tx, ps_k := k\<rparr>"] obtain s1 where s1:
    "audio_player_init env resource_player (s\<lparr>ps_tx := tx, ps_k := k\<rparr>) = (AUDIO_PLAYER_PROC_SUCCESS, Some f, s1)"
    "ps_holder s1 = None" "aw_told (ps_w s1) = []" "ap_file (the_ap resource_player s1) = None"
    "ap_mutex (the_ap resource_player s1) = Some False" using assms(2,3) by auto
  from i [of prompt_player s1] obtain s2 where s2:
    "audio_player_init env prompt_player s1 = (AUDIO_PLAYER_PROC_SUCCESS, Some f, s2)"
    "ps_holder s2 = None" "aw_told (ps_w s2) = []" "ap_file (the_ap prompt_player s2) = None"
    "ap_mutex (the_ap prompt_player s2) = Some False" "the_ap resource_player s2 = the_ap resource_player s1"
    using s1(2,3) ne by auto
  have "process_ok p f s2" if "p \<in> test_players" for p
    using that s1(4) s2(2-4,6) by (intro idle_process) (auto simp: test_players_def told_to_def f_def fsm_ready_def AUDIO_PLAYER_STA_IDLE_def)
  then have "players_ok test_players ((\<lambda>_. f)(prompt_player := f), s2)" by (simp add: players_ok_def)
  moreover have "audio_player_test_init env s = (Some f, Some f, s2)"
    using t s1(1) s2(1) by (simp add: audio_player_test_init_def)
  moreover have "test_fresh ((\<lambda>_. f)(prompt_player := f), s2)"
    using s1(5) s2(5,6) by (auto simp: test_fresh_def test_players_def f_def fsm_ready_def AUDIO_PLAYER_STA_IDLE_def)
  ultimately show ?thesis by blast
qed

text \<open>Taking it down is always possible.\<close>

lemma deinit_defined: "\<exists>r. com_fsm_delete (f, u) = Some r"
  by (simp add: com_fsm_delete_def com_fsm_set_event_def split: option.splits)

lemma test_end_defined: "\<exists>s'. audio_player_test_end snd_config_free rx u = Some s'"
proof -
  have d: "\<exists>s'. audio_player_deinit p (Some f, s) = Some (AUDIO_PLAYER_PROC_SUCCESS, None, s')"
    for p f and s :: "('a, 'b, 'c, 'd, 'e) ap_sys"
    using deinit_defined [of f "snd (com_player_deinit p (set_ap p (\<lambda>a. a\<lparr>ap_mutex := None\<rparr>) s))"]
    by (auto simp: audio_player_deinit_def with_fsm_def Let_def)
  obtain s1 where s1: "audio_player_deinit resource_player (Some (fst u resource_player), snd u) = Some (AUDIO_PLAYER_PROC_SUCCESS, None, s1)"
    using d by blast
  obtain s2 where s2: "audio_player_deinit prompt_player (Some (fst u prompt_player), s1) = Some (AUDIO_PLAYER_PROC_SUCCESS, None, s2)"
    using d by blast
  have "\<exists>r. pcm_trans_deinit snd_config_free (ps_tx s2) rx (ps_w s2) = Some r"
    using deinit_defined [of "the (fst (ps_tx s2))" "ps_w s2"] deinit_defined [of "the (fst rx)" "ps_w s2"]
    by (cases "fst (ps_tx s2)"; cases "fst rx") (auto simp: pcm_trans_deinit_def)
  then obtain tx' rx' w' where "pcm_trans_deinit snd_config_free (ps_tx s2) rx (ps_w s2) = Some (tx', rx', w')"
    by (metis prod_cases3)
  then show ?thesis using s1 s2 by (simp add: audio_player_test_end_def)
qed

section \<open>A run that ends\<close>

text \<open>When the machines never get to a round, every wait for them times out and the program still goes
  through all its starts and ends.\<close>

lemma slow_wait: "\<exists>r. common_wait_event ev bits t [Wakeup [] True] = Some r"
  by (simp add: common_wait_event_def Let_def)

lemma slow_signal:
  assumes "fsm_ready f"
  shows "\<exists>f'. signal_player Some ev (Some f, s) = Some (Some f', s) \<and> same_machine f f'"
proof -
  from assms obtain e ack where f: "event_handle f = Some e" "event_ack_handle f = Some ack" by (auto simp: fsm_ready_def)
  obtain r where "common_wait_event ack ev COM_FSM_MAX_WAIT_TIME [Wakeup [] True] = Some r" using slow_wait by blast
  with f show ?thesis
    by (cases r) (simp add: signal_player_def with_fsm_def com_fsm_set_event_def Let_def COM_FSM_MAX_WAIT_TIME_def same_machine_def)
qed

lemma slow_clear:
  assumes "fsm_ready f"
  shows "\<exists>f'. clear_player_events (Some f, s) = Some (Some f', s) \<and> same_machine f f'"
  using assms by (auto simp: clear_player_events_def with_fsm_def com_fsm_clear_event_def fsm_ready_def same_machine_def)

definition with_mutex :: "nat \<Rightarrow> bool \<Rightarrow> ('m, 'd, 'f, 'v, 's) ap_sys \<Rightarrow> ('m, 'd, 'f, 'v, 's) ap_sys" where
  "with_mutex p b = set_ap p (\<lambda>a. a\<lparr>ap_mutex := Some b\<rparr>)"

lemma mutex_simps [simp]:
  "ap_mutex (the_ap q (with_mutex p b s)) = (if q = p then Some b else ap_mutex (the_ap q s))"
  "ap_mutex (the_ap q (note_player_start p info s)) = ap_mutex (the_ap q s)"
  by (simp_all add: with_mutex_def note_player_start_def Let_def the_ap_def set_ap_def)

lemma mutex_calls:
  "ap_mutex (the_ap p s) = Some False \<Longrightarrow> audio_player_lock p s = Some (with_mutex p True s)"
  "ap_mutex (the_ap p s) = Some True \<Longrightarrow> audio_player_unlock p s = Some (with_mutex p False s)"
  by (simp_all add: audio_player_lock_def audio_player_unlock_def xSemaphoreTake_def xSemaphoreGive_def portMAX_DELAY_def with_mutex_def)

lemma slow_start:
  assumes "fsm_ready f" "ap_mutex (the_ap p s) = Some False" "object_string (ai_path info) = Some (c # cs)"
  shows "\<exists>f' s'. audio_player_start Some Some p info None (Some f, s) = Some (AUDIO_PLAYER_PROC_SUCCESS, Some f', s') \<and>
    same_machine f f' \<and> (\<forall>q. ap_mutex (the_ap q s') = ap_mutex (the_ap q s))"
proof -
  let ?l = "with_mutex p True s"
  from slow_signal [OF assms(1), of AUDIO_PLAYER_EVENT_STOP ?l] obtain f1 where
    f1: "signal_player Some AUDIO_PLAYER_EVENT_STOP (Some f, ?l) = Some (Some f1, ?l)" "same_machine f f1" by blast
  from slow_clear [of f1 ?l] same_machine_ready [OF f1(2)] assms(1) obtain f2 where
    f2: "clear_player_events (Some f1, ?l) = Some (Some f2, ?l)" "same_machine f1 f2" by blast
  have stop: "audio_player_stop Some p (Some f, s) = Some (AUDIO_PLAYER_PROC_SUCCESS, Some f2, with_mutex p False ?l)"
    using assms(2) f1(1) f2(1) by (simp add: audio_player_stop_def mutex_calls)
  let ?m = "note_player_start p info (with_mutex p True (with_mutex p False ?l))"
  have "fsm_ready f2" using same_machine_ready f1(2) f2(2) assms(1) by blast
  from slow_signal [OF this, of AUDIO_PLAYER_EVENT_START ?m] obtain f3 where
    f3: "signal_player Some AUDIO_PLAYER_EVENT_START (Some f2, ?m) = Some (Some f3, ?m)" "same_machine f2 f3" by blast
  have "audio_player_start Some Some p info None (Some f, s) = Some (AUDIO_PLAYER_PROC_SUCCESS, Some f3, with_mutex p False ?m)"
    using assms(3) stop f3(1) by (simp add: audio_player_start_def Let_def mutex_calls)
  moreover have "same_machine f f3" by (rule same_machine_trans [OF same_machine_trans [OF f1(2) f2(2)] f3(2)])
  moreover have "ap_mutex (the_ap q (with_mutex p False ?m)) = ap_mutex (the_ap q s)" for q using assms(2) by simp
  ultimately show ?thesis by blast
qed

lemma nothing_meanwhile: "meanwhile env ps p fs Some fs"
  by (auto simp: meanwhile_def intro: players_reach.start)

lemma slow_starts:
  assumes "test_fresh u" "n \<le> length resource_player_info"
  shows "\<exists>v. test_reach env (Starting 0, u) (Starting n, v) \<and> test_fresh v"
  using assms(2)
proof (induction n)
  case 0
  then show ?case using assms(1) by (blast intro: test_reach.start)
next
  case (Suc n)
  then obtain fs s where v: "test_reach env (Starting 0, u) (Starting n, fs, s)" "test_fresh (fs, s)" by fastforce
  let ?p = "player_for (resource_player_info ! n)"
  from test_paths [of n] Suc.prems obtain c cs where p: "?p \<in> test_players"
    "object_string (ai_path (resource_player_info ! n)) = Some (c # cs)" by auto
  with v(2) have "fsm_ready (fs ?p)" "ap_mutex (the_ap ?p s) = Some False" by (auto simp: test_fresh_def)
  from slow_start [OF this p(2)] obtain f' s' where
    r: "audio_player_start Some Some ?p (resource_player_info ! n) None (Some (fs ?p), s) = Some (AUDIO_PLAYER_PROC_SUCCESS, Some f', s')"
    "same_machine (fs ?p) f'" "\<forall>q. ap_mutex (the_ap q s') = ap_mutex (the_ap q s)" by blast
  have "test_step env (Starting n, fs, s) (Starting (Suc n), fs(?p := f'), s')"
    using Suc.prems by (intro test_step.start [where fs = fs, OF _ refl r(1) nothing_meanwhile nothing_meanwhile]) simp
  moreover have "test_fresh (fs(?p := f'), s')"
    using v(2) r(2,3) same_machine_ready [OF r(2)] by (auto simp: test_fresh_def same_machine_def)
  ultimately show ?case using v(1) by (blast intro: test_reach.step)
qed

lemma slow_run:
  assumes "test_fresh u"
  shows "\<exists>v. test_reach env (Starting 0, u) (Ended, v)"
proof -
  from slow_starts [OF assms order_refl] obtain fs s where
    v: "test_reach env (Starting 0, u) (Starting (length resource_player_info), fs, s)" "test_fresh (fs, s)" by fastforce
  have i: "com_fsm_get_state (Some (fs p)) = AUDIO_PLAYER_STA_IDLE" if "p \<in> test_players" for p
    using v(2) that by (simp add: test_fresh_def com_fsm_get_state_def)
  have "test_reach env (Starting 0, u) (Waiting, fs, s)" by (rule test_reach.step [OF v(1) test_step.started])
  then have "test_reach env (Starting 0, u) (Looked, fs, s)"
    by (rule test_reach.step) (rule test_step.resource_idle, simp add: i test_players_def)
  then have "test_reach env (Starting 0, u) (Ended, fs, s)"
    by (rule test_reach.step) (rule test_step.prompt_idle, simp add: i test_players_def)
  then show ?thesis by blast
qed

end
