(* ===== verification/Download_Test.thy ===== *)
theory Download_Test
  imports File_Cursor
begin

text \<open>
  The download test of app/audio_test.c, a client of the download task and of the shared buffer: it
  copies what arrives to a file until the task has stopped. What the task does between two looks is
  an arrival, bytes that it pushes and perhaps its stop. The lemmas show that the copy ends and is
  complete when the last bytes arrive before the stop, and what it loses when they come with it.
\<close>

section \<open>The test\<close>

text \<open>The loop that looks for the last slash: where the name of the file starts.\<close>

fun base_start :: "u8 list \<Rightarrow> nat \<Rightarrow> nat" where
  "base_start s 0 = 0"
| "base_start s (Suc n) = (if s ! n = 47 then Suc n else base_start s n)"

text \<open>Other threads run before every look at what is shared. The file is \<open>None\<close> when it could not be
  opened.\<close>

partial_function (option) download_copy :: "u8 list \<Rightarrow> web \<Rightarrow> c_file option \<Rightarrow> (web \<times> c_file option) option" where
  "download_copy buf w out = do {
     w \<leftarrow> look w;
     n \<leftarrow> common_buffer_get_count (web_buffer w);
     if 0 < u32_of_int n then do {
       w \<leftarrow> look w;
       r \<leftarrow> common_buffer_pop (web_buffer w) True 512;
       let buf = fst (snd (snd r)) @ drop (length (fst (snd (snd r)))) buf;
       q \<leftarrow> f_write out (take (unat (fst (snd r))) buf);
       download_copy buf (set_buffer (snd (snd (snd r))) w) (snd (snd q)) }
     else do {
       w \<leftarrow> look w;
       if http_download_is_stopped (web_state w) then Some (w, out) else download_copy buf w out } }"

text \<open>\<open>buf\<close> is the array of 512 bytes on the stack, \<open>w\<close> has the memory and the network; the file that is
  left on the disk comes with it.\<close>

definition http_download_test :: "file_env \<Rightarrow> (u8 list \<Rightarrow> c_file option) \<Rightarrow> u8 list \<Rightarrow> web \<Rightarrow> (web \<times> c_file) option" where
  "http_download_test env fopen_wb buf w = do {
     let file_name = lit ''http://127.0.0.1:8000/test1.mp3'';
     let path = lit ''/home/jim/test/player/project/audio_player/'' @ drop (base_start file_name (length file_name)) file_name;
     buf \<leftarrow> mem_write buf 0 (path @ [0]);
     let cb = common_buffer_init COMMON_BUF_HTTP_NODE_SIZE COMMON_BUF_HTTP_MAX_SIZE;
     let (k, f, hp) = http_download_init (fe_mal env) (web_alloc w);
     let fsm = (case f of None \<Rightarrow> no_http_fsm | Some f \<Rightarrow> f);
     (_, last, s) \<leftarrow> http_download_start_seek (fe_mal env) (fe_serve env) (fe_serve env) (Some file_name) True True 0
       (wb_last w) (fsm, hp, k, cb, web_net w);
     (w, out) \<leftarrow> download_copy buf (w\<lparr>wb_sys := s, wb_last := last\<rparr>) (fopen_wb path);
     s \<leftarrow> http_download_stop (fe_serve env) (wb_sys w);
     s \<leftarrow> http_download_deinit s;
     let w = w\<lparr>wb_sys := s\<rparr>;
     out \<leftarrow> out;
     Some (set_buffer (snd (common_buffer_deinit (web_buffer w))) w, out) }"

section \<open>Arrivals\<close>

text \<open>What the task does between two looks: it pushes bytes, and stops or goes on.\<close>

definition arrive :: "u8 list \<times> bool \<Rightarrow> http_sys \<Rightarrow> http_sys" where
  "arrive a s = (case s of (f, hp, k, cb, net) \<Rightarrow>
     (if snd a then f\<lparr>cur_state := HTTP_DOWNLOAD_STA_IDLE\<rparr> else f, hp, k,
      (case common_push_bytes cb (fst a) of None \<Rightarrow> cb | Some r \<Rightarrow> snd r), net))"

definition arrived :: "(u8 list \<times> bool) list \<Rightarrow> u8 list" where
  "arrived as = concat (map fst as)"

lemma arrived_simps [simp]: "arrived [] = []" "arrived (a # as) = fst a @ arrived as" "arrived (replicate n ([], b)) = []"
  "arrived (as @ bs) = arrived as @ arrived bs"
  by (simp_all add: arrived_def)

lemma look_arrive:
  assumes "wb_looks w = map arrive (a # as)" "common_wf (web_buffer w)"
    "length (common_contents (web_buffer w)) + length (fst a) \<le> common_cap (web_buffer w)"
  shows "\<exists>w'. look w = Some w' \<and> wb_looks w' = map arrive as \<and> common_wf (web_buffer w') \<and>
    common_contents (web_buffer w') = common_contents (web_buffer w) @ fst a \<and> common_cap (web_buffer w') = common_cap (web_buffer w) \<and>
    web_state w' = (if snd a then HTTP_DOWNLOAD_STA_IDLE else web_state w)"
proof -
  have "common_cap (web_buffer w) < 1073741824" using assms(2) by (auto simp: common_wf_def common_cap_def)
  with assms(3) have l: "length (fst a) < 2147483648" by linarith
  from common_push_bytes [OF assms(2) l] assms(3) obtain cb where
    "common_push_bytes (web_buffer w) (fst a) = Some (length (fst a), cb)" "common_wf cb"
    "common_contents cb = common_contents (web_buffer w) @ fst a" "common_cap cb = common_cap (web_buffer w)" by auto
  then show ?thesis using assms(1)
    by (auto simp: look_def arrive_def web_buffer_def web_state_def split: prod.splits)
qed

lemma count_positive:
  assumes "common_wf cb"
  shows "common_buffer_get_count cb = Some (int (length (common_contents cb)))"
    "0 < u32_of_int (int (length (common_contents cb))) \<longleftrightarrow> common_contents cb \<noteq> []"
proof -
  have "length (common_contents cb) < 1073741824"
    using common_length [OF assms] assms by (auto simp: common_wf_def common_cap_def)
  then have "unat (u32_of_int (int (length (common_contents cb)))) = length (common_contents cb)"
    by (simp add: c_arith flip: nat_uint_eq)
  then show "0 < u32_of_int (int (length (common_contents cb))) \<longleftrightarrow> common_contents cb \<noteq> []"
    by (simp add: word_less_nat_alt)
qed (rule common_get_count [OF assms])

text \<open>A write at the end of the file appends.\<close>

lemma write_appends:
  assumes "fl_pos f = int (length (fl_data f))"
  shows "\<exists>g. f_write (Some f) bs = Some (0, int (length bs), Some g) \<and> fl_data g = fl_data f @ bs \<and> fl_pos g = int (length (fl_data g))"
  using assms by (simp add: f_write_def Let_def)

section \<open>One round of the copy\<close>

lemma copy_round:
  assumes "wb_looks w = map arrive (a # b # as)" "common_wf (web_buffer w)" "length buf = 512"
    "length (common_contents (web_buffer w)) + length (fst a) + length (fst b) \<le> common_cap (web_buffer w)"
    "fl_pos f = int (length (fl_data f))"
  defines "c \<equiv> common_contents (web_buffer w) @ fst a"
  shows "\<exists>w' f' buf'. wb_looks w' = map arrive as \<and> common_wf (web_buffer w') \<and> common_cap (web_buffer w') = common_cap (web_buffer w) \<and>
    web_state w' = (if snd a \<or> snd b then HTTP_DOWNLOAD_STA_IDLE else web_state w) \<and> length buf' = 512 \<and>
    fl_pos f' = int (length (fl_data f')) \<and>
    (if c = [] then f' = f \<and> common_contents (web_buffer w') = fst b \<and>
       download_copy buf w (Some f) = (if web_state w' = HTTP_DOWNLOAD_STA_IDLE then Some (w', Some f') else download_copy buf' w' (Some f'))
     else fl_data f' = fl_data f @ take 512 (c @ fst b) \<and> common_contents (web_buffer w') = drop 512 (c @ fst b) \<and>
       download_copy buf w (Some f) = download_copy buf' w' (Some f'))"
proof -
  from look_arrive [OF assms(1,2)] assms(4) obtain w1 where w1: "look w = Some w1" "wb_looks w1 = map arrive (b # as)"
    "common_wf (web_buffer w1)" "common_contents (web_buffer w1) = c" "common_cap (web_buffer w1) = common_cap (web_buffer w)"
    "web_state w1 = (if snd a then HTTP_DOWNLOAD_STA_IDLE else web_state w)" unfolding c_def by auto
  from look_arrive [OF w1(2,3)] w1(4,5) assms(4) obtain w2 where w2: "look w1 = Some w2" "wb_looks w2 = map arrive as"
    "common_wf (web_buffer w2)" "common_contents (web_buffer w2) = c @ fst b" "common_cap (web_buffer w2) = common_cap (web_buffer w)"
    "web_state w2 = (if snd b then HTTP_DOWNLOAD_STA_IDLE else web_state w1)" unfolding c_def by auto
  note n = count_positive [OF w1(3), unfolded w1(4)]
  show ?thesis
  proof (cases "c = []")
    case True
    then have "download_copy buf w (Some f) = (if web_state w2 = HTTP_DOWNLOAD_STA_IDLE then Some (w2, Some f) else download_copy buf w2 (Some f))"
      using w1(1) w2(1) n by (subst download_copy.simps) (simp add: http_download_is_stopped_def)
    with True w1 w2 assms(3,5) show ?thesis by (intro exI [of _ w2] exI [of _ f] exI [of _ buf]) simp
  next
    case False
    define d where "d = c @ fst b"
    let ?n = "min 512 (length d)"
    from common_pop [OF w2(3), of True 512] w2(4) obtain ret cb where
      p: "common_buffer_pop (web_buffer w2) True 512 = Some (ret, of_nat ?n, take ?n d, cb)" "common_wf cb"
      "common_contents cb = drop ?n d" "common_cap cb = common_cap (web_buffer w2)" by (auto simp: d_def)
    have u: "unat (of_nat ?n :: u32) = ?n" by (intro unat_of_nat_u32) simp
    have m: "take ?n d = take 512 d" "drop ?n d = drop 512 d" by (simp_all add: min_def)
    let ?buf = "take ?n d @ drop (length (take ?n d)) buf"
    have "length (take ?n d) = ?n" by simp
    then have "take ?n (take ?n d @ r) = take ?n d" for r by (metis append_eq_conv_conj)
    then have t: "take ?n (take ?n d @ r) = take 512 d" for r by (simp only: m)
    from write_appends [OF assms(5), of "take 512 d"] obtain g where
      g: "f_write (Some f) (take 512 d) = Some (0, int (length (take 512 d)), Some g)" "fl_data g = fl_data f @ take 512 d"
      "fl_pos g = int (length (fl_data g))" by blast
    let ?w = "set_buffer cb w2"
    have "download_copy buf w (Some f) = download_copy ?buf ?w (Some g)"
      using w1(1) w2(1) n False p(1) g(1) by (subst download_copy.simps) (simp add: u t Let_def del: take_append take_take)
    moreover have "wb_looks ?w = wb_looks w2" "web_buffer ?w = cb" "web_state ?w = web_state w2"
      by (simp_all add: set_buffer_def put_web_def web_buffer_def web_state_def)
    moreover have "length ?buf = 512" using assms(3) by simp
    moreover have "common_contents cb = drop 512 d" using p(3) unfolding m(2) .
    ultimately show ?thesis using False w1(6) w2(2,5,6) p(2,4) g(2,3) unfolding d_def [symmetric]
      by (intro exI [of _ ?w] exI [of _ g] exI [of _ ?buf]) auto
  qed
qed

section \<open>The copy is complete, or not\<close>

text \<open>When the task stops after its last bytes, and not with them, the copy ends with everything in the file;
  a look for each byte and a few more are enough.\<close>

definition arrivals_then_stop :: "(u8 list \<times> bool) list \<Rightarrow> nat \<Rightarrow> web \<Rightarrow> bool" where
  "arrivals_then_stop sc n w \<longleftrightarrow> wb_looks w = map arrive (sc @ replicate n ([], True)) \<and> common_wf (web_buffer w) \<and>
     (\<forall>a \<in> set sc. \<not> snd a) \<and> (sc \<noteq> [] \<longrightarrow> web_state w \<noteq> HTTP_DOWNLOAD_STA_IDLE) \<and>
     length (common_contents (web_buffer w) @ arrived sc) \<le> common_cap (web_buffer w) \<and>
     2 * length (common_contents (web_buffer w) @ arrived sc) + 3 \<le> n"

text \<open>The arrivals a round looks at.\<close>

lemma next_arrivals:
  assumes "3 \<le> n"
  obtains a b sc' n' where "sc @ replicate n ([], True) = a # b # sc' @ replicate n' ([], True)"
    "(sc = a # b # sc' \<and> n' = n) \<or> (sc = [a] \<and> b = ([], True) \<and> sc' = [] \<and> n' = n - 1) \<or>
     (sc = [] \<and> a = ([], True) \<and> b = ([], True) \<and> sc' = [] \<and> n' = n - 2)"
proof -
  define k where "k = n - 3"
  have n: "n = Suc (Suc (Suc k))" using assms by (simp add: k_def)
  show thesis
  proof (cases sc)
    case Nil
    with that [of "([], True)" "([], True)" "[]" "n - 2"] n show thesis by simp
  next
    case (Cons a r)
    with that [of a "([], True)" "[]" "n - 1"] that [of a "hd r" "tl r" n] n show thesis by (cases r) simp_all
  qed
qed

lemma copy_complete:
  assumes "arrivals_then_stop sc n w" "length buf = 512" "fl_pos f = int (length (fl_data f))"
  shows "\<exists>w' f'. download_copy buf w (Some f) = Some (w', Some f') \<and>
    fl_data f' = fl_data f @ common_contents (web_buffer w) @ arrived sc \<and> common_contents (web_buffer w') = [] \<and>
    web_state w' = HTTP_DOWNLOAD_STA_IDLE"
  using assms
proof (induction "length sc + n" arbitrary: sc n w buf f rule: less_induct)
  case less
  let ?c = "common_contents (web_buffer w)"
  from less.prems(1) have w: "common_wf (web_buffer w)" "\<forall>a \<in> set sc. \<not> snd a"
    "length ?c + length (arrived sc) \<le> common_cap (web_buffer w)" "2 * (length ?c + length (arrived sc)) + 3 \<le> n"
    "sc \<noteq> [] \<longrightarrow> web_state w \<noteq> HTTP_DOWNLOAD_STA_IDLE" by (simp_all add: arrivals_then_stop_def)
  obtain a b sc' n' where s: "sc @ replicate n ([], True) = a # b # sc' @ replicate n' ([], True)"
    "(sc = a # b # sc' \<and> n' = n) \<or> (sc = [a] \<and> b = ([], True) \<and> sc' = [] \<and> n' = n - 1) \<or>
     (sc = [] \<and> a = ([], True) \<and> b = ([], True) \<and> sc' = [] \<and> n' = n - 2)"
    by (rule next_arrivals [of n sc]) (use w(4) in linarith)
  have ar: "arrived sc = fst a @ fst b @ arrived sc'" using s(2) by auto
  have l: "wb_looks w = map arrive (a # b # sc' @ replicate n' ([], True))"
    using less.prems(1) s(1) by (simp add: arrivals_then_stop_def)
  have fit: "length ?c + length (fst a) + length (fst b) \<le> common_cap (web_buffer w)" using w(3) ar by simp
  have dec: "length sc' + n' < length sc + n" using s(2) w(4) by auto
  from copy_round [OF l w(1) less.prems(2) fit less.prems(3)] obtain w' f' buf' where r:
    "wb_looks w' = map arrive (sc' @ replicate n' ([], True))" "common_wf (web_buffer w')"
    "common_cap (web_buffer w') = common_cap (web_buffer w)"
    "web_state w' = (if snd a \<or> snd b then HTTP_DOWNLOAD_STA_IDLE else web_state w)" "length buf' = 512"
    "fl_pos f' = int (length (fl_data f'))"
    "if ?c @ fst a = [] then f' = f \<and> common_contents (web_buffer w') = fst b \<and>
       download_copy buf w (Some f) = (if web_state w' = HTTP_DOWNLOAD_STA_IDLE then Some (w', Some f') else download_copy buf' w' (Some f'))
     else fl_data f' = fl_data f @ take 512 (?c @ fst a @ fst b) \<and> common_contents (web_buffer w') = drop 512 (?c @ fst a @ fst b) \<and>
       download_copy buf w (Some f) = download_copy buf' w' (Some f')" by auto
  have st: "sc' \<noteq> [] \<longrightarrow> web_state w' \<noteq> HTTP_DOWNLOAD_STA_IDLE" "\<forall>x \<in> set sc'. \<not> snd x" using r(4) s(2) w(2,5) by auto
  show ?case
  proof (cases "?c @ fst a = []")
    case True
    with r(7) have t: "f' = f" "common_contents (web_buffer w') = fst b"
      "download_copy buf w (Some f) = (if web_state w' = HTTP_DOWNLOAD_STA_IDLE then Some (w', Some f') else download_copy buf' w' (Some f'))"
      by simp_all
    show ?thesis
    proof (cases "web_state w' = HTTP_DOWNLOAD_STA_IDLE")
      case idle: True
      then have "fst b = []" "sc' = []" using s(2) st(1) r(4) w(2,5) by auto
      then show ?thesis using True t idle ar by simp
    next
      case False
      then have sc: "sc = a # b # sc'" "n' = n" using s(2) r(4) by auto
      have "arrivals_then_stop sc' n' w'"
        using r(1-3) st w(3,4) ar t(2) True sc(2) by (simp add: arrivals_then_stop_def)
      from less.hyps [OF dec this r(5,6)] t False True ar show ?thesis by simp
    qed
  next
    case False
    with r(7) have t: "fl_data f' = fl_data f @ take 512 (?c @ fst a @ fst b)" "common_contents (web_buffer w') = drop 512 (?c @ fst a @ fst b)"
      "download_copy buf w (Some f) = download_copy buf' w' (Some f')" by (simp_all split: if_splits)
    have sh: "0 < length d \<Longrightarrow> length (drop 512 d) + 1 \<le> length d" for d :: "u8 list" unfolding length_drop by linarith
    have less1: "length (drop 512 (?c @ fst a @ fst b)) + 1 \<le> length (?c @ fst a @ fst b)" by (rule sh) (use False in auto)
    let ?l = "length (common_contents (web_buffer w') @ arrived sc')" and ?m = "length (?c @ arrived sc)"
    have "?l + 1 \<le> ?m" using less1 unfolding t(2) ar length_append by linarith
    moreover have "?m \<le> common_cap (web_buffer w)" "2 * ?m + 3 \<le> n" "n \<le> n' + 2" using w(3,4) s(2) by auto
    ultimately have "?l \<le> common_cap (web_buffer w')" "2 * ?l + 3 \<le> n'" unfolding r(3) by linarith+
    then have "arrivals_then_stop sc' n' w'" using r(1,2) st unfolding arrivals_then_stop_def by blast
    from less.hyps [OF dec this r(5,6)] obtain w2 f2 where h: "download_copy buf' w' (Some f') = Some (w2, Some f2)"
      "fl_data f2 = fl_data f' @ common_contents (web_buffer w') @ arrived sc'" "common_contents (web_buffer w2) = []"
      "web_state w2 = HTTP_DOWNLOAD_STA_IDLE" by blast
    have "fl_data f2 = fl_data f @ (take 512 (?c @ fst a @ fst b) @ drop 512 (?c @ fst a @ fst b)) @ arrived sc'"
      by (simp only: h(2) t(1,2) append_assoc)
    then have "fl_data f2 = fl_data f @ ?c @ arrived sc" unfolding append_take_drop_id by (simp add: ar)
    with h t(3) show ?thesis by simp
  qed
qed

text \<open>Bytes that come between the last look at the count and the look at the state, with the stop, are lost.\<close>

lemma copy_loses:
  assumes "wb_looks w = map arrive [([], False), (bs, True)]" "common_wf (web_buffer w)" "common_contents (web_buffer w) = []"
    "length bs \<le> common_cap (web_buffer w)" "length buf = 512" "fl_pos f = int (length (fl_data f))"
  shows "\<exists>w'. download_copy buf w (Some f) = Some (w', Some f) \<and> common_contents (web_buffer w') = bs"
proof -
  have "length (common_contents (web_buffer w)) + length (fst ([] :: u8 list, False)) + length (fst (bs, True)) \<le> common_cap (web_buffer w)"
    using assms(3,4) by simp
  from copy_round [OF assms(1,2,5) this assms(6)] assms(3) show ?thesis by auto
qed

end
