(* ===== verification/Source_Test.thy ===== *)
theory Source_Test
  imports File_Cursor
begin

text \<open>
  The comparison of two sources in app/audio_test.c: it opens one sound twice, reads ahead in one of
  the two, reads both in step, jumps to random places at first, and stops at a difference or at the
  end. The locale \<open>two_sources\<close> joins two copies of the contract of a source; in it the comparison
  of equal contents ends and finds no difference.
\<close>

section \<open>The test\<close>

datatype verdict = Lengths_Differ int int | Bytes_Differ int int | Compared int int

text \<open>\<open>memcmp\<close> of the first bytes; a negative number of them would be huge.\<close>

definition bytes_differ :: "u8 list \<Rightarrow> u8 list \<Rightarrow> int \<Rightarrow> bool option" where
  "bytes_differ b b' n = do {
     x \<leftarrow> mem_read b 0 n; y \<leftarrow> mem_read b' 0 n; Some (x \<noteq> y) }"

text \<open>One of the first hundred jumps; \<open>rnd i\<close> is what \<open>rand\<close> gives in round \<open>i\<close>.\<close>

definition jump :: "file_env \<Rightarrow> u32 \<Rightarrow> audio_file option \<Rightarrow> audio_file option \<Rightarrow> (audio_file option \<times> audio_file option) option" where
  "jump env r web_file local_file = do {
     f \<leftarrow> local_file;
     q \<leftarrow> u32_mod r (af_total f);
     x \<leftarrow> audio_file_seek env web_file (int_of_u32 q);
     y \<leftarrow> audio_file_seek env local_file (int_of_u32 q);
     Some (snd x, snd y) }"

partial_function (option) compare_loop :: "file_env \<Rightarrow> (nat \<Rightarrow> u32) \<Rightarrow> nat \<Rightarrow> u8 list \<Rightarrow> u8 list \<Rightarrow> int \<Rightarrow> int \<Rightarrow>
    audio_file option \<Rightarrow> audio_file option \<Rightarrow> (verdict \<times> audio_file option \<times> audio_file option) option" where
  "compare_loop env rnd i b b' all1 all2 web_file local_file = do {
     x \<leftarrow> audio_file_read env web_file b 1024;
     y \<leftarrow> audio_file_read env local_file b' 1024;
     fs \<leftarrow> (if i < 100 then jump env (rnd i) (snd (snd x)) (snd (snd y)) else Some (snd (snd x), snd (snd y)));
     if fst x \<noteq> fst y then Some (Lengths_Differ (fst x) (fst y), fs)
     else do {
       d \<leftarrow> bytes_differ (fst (snd x)) (fst (snd y)) (if fst y < fst x then fst x else fst y);
       if d then Some (Bytes_Differ (fst x) (fst y), fs)
       else do {
         all1 \<leftarrow> c_int (all1 + fst x);
         all2 \<leftarrow> c_int (all2 + fst y);
         if fst y \<le> 0 then Some (Compared all1 all2, fs)
         else compare_loop env rnd (Suc i) (fst (snd x)) (fst (snd y)) all1 all2 (fst fs) (snd fs) } } }"

text \<open>The part behind the opening. The array read ahead into is static.\<close>

definition audio_file_compare :: "file_env \<Rightarrow> (nat \<Rightarrow> u32) \<Rightarrow> u8 list \<Rightarrow> u8 list \<Rightarrow> audio_file option \<Rightarrow> audio_file option \<Rightarrow>
    verdict option" where
  "audio_file_compare env rnd b b' web_file local_file = do {
     (_, web_file) \<leftarrow> audio_file_size env web_file;
     (_, local_file) \<leftarrow> audio_file_size env local_file;
     (_, _, web_file) \<leftarrow> audio_file_preread env web_file (replicate (5 * 1024 * 1024) 0) (5 * 1024 * 1024);
     (v, web_file, local_file) \<leftarrow> compare_loop env rnd 0 b b' 0 0 (Some web_file) local_file;
     _ \<leftarrow> audio_file_close env web_file;
     _ \<leftarrow> audio_file_close env local_file;
     Some v }"

text \<open>\<open>b\<close> and \<open>b'\<close> are the arrays of 1024 bytes on the stack.\<close>

definition audio_file_test :: "file_env \<Rightarrow> (nat \<Rightarrow> u32) \<Rightarrow> u8 list \<Rightarrow> u8 list \<Rightarrow> web \<Rightarrow> verdict option" where
  "audio_file_test env rnd b b' w = do {
     (web_file, w) \<leftarrow> audio_file_open env (lit ''http://127.0.0.1:8000/test2.m4a'' @ [0]) AUDIO_FILE_TYPE_WEB True w;
     (local_file, w) \<leftarrow> audio_file_open env (lit ''/home/jim/test/player/test2.m4a'' @ [0]) AUDIO_FILE_TYPE_SD_CARD False w;
     audio_file_compare env rnd b b' web_file local_file }"

section \<open>Two sources of one content\<close>

locale two_sources = L: file_source env content1 valid1 + R: file_source env content2 valid2
  for env content1 valid1 content2 valid2
begin

definition same_place :: "audio_file \<Rightarrow> audio_file \<Rightarrow> bool" where
  "same_place f g \<longleftrightarrow> L.file_ok f \<and> R.file_ok g \<and> content1 f = content2 g \<and> L.place f = R.place g"

lemma same_read:
  assumes "same_place f g" "length b = 1024" "length b' = 1024"
  defines "m \<equiv> min 1024 (length (content2 g) - R.place g)"
  shows "\<exists>f' g' c c'. audio_file_read env (Some f) b 1024 = Some (int m, c, Some f') \<and>
    audio_file_read env (Some g) b' 1024 = Some (int m, c', Some g') \<and> same_place f' g' \<and> content2 g' = content2 g \<and>
    R.place g' = R.place g + m \<and> length c = 1024 \<and> length c' = 1024 \<and> bytes_differ c c' (int m) = Some False"
proof -
  let ?d = "take m (drop (R.place g) (content2 g))"
  have s: "L.file_ok f" "R.file_ok g" "content1 f = content2 g" "L.place f = R.place g"
    using assms(1) by (simp_all add: same_place_def)
  from L.read_spec [OF s(1), of 1024 b] assms(2) s(3,4) obtain f' where f': "audio_file_read env (Some f) b 1024 = Some (int m, ?d @ drop m b, Some f')"
    "L.file_ok f'" "content1 f' = content2 g" "L.place f' = R.place g + m" by (auto simp: m_def)
  from R.read_spec [OF s(2), of 1024 b'] assms(3) obtain g' where g': "audio_file_read env (Some g) b' 1024 = Some (int m, ?d @ drop m b', Some g')"
    "R.file_ok g'" "content2 g' = content2 g" "R.place g' = R.place g + m" by (auto simp: m_def)
  have l: "length ?d = m" "m \<le> 1024" by (simp_all add: m_def)
  have "bytes_differ (?d @ drop m b) (?d @ drop m b') (int m) = Some False"
    using l assms(2,3) by (simp add: bytes_differ_def mem_read_ok del: length_take)
  moreover have "same_place f' g'" using f' g' by (simp add: same_place_def)
  ultimately show ?thesis using f'(1) g' l assms(2,3)
    by (intro exI [of _ f'] exI [of _ g'] exI [of _ "?d @ drop m b"] exI [of _ "?d @ drop m b'"]) (simp del: length_take)
qed

lemma same_jump:
  assumes "same_place f g"
  shows "\<exists>f' g'. jump env r (Some f) (Some g) = Some (Some f', Some g') \<and> same_place f' g' \<and> content2 g' = content2 g"
proof -
  have s: "L.file_ok f" "R.file_ok g" "content1 f = content2 g" using assms(1) by (simp_all add: same_place_def)
  have v: "valid2 g" using s(2) by (simp add: R.file_ok_def)
  note b = R.bounds [OF v]
  let ?q = "r mod af_total g"
  have nz: "af_total g \<noteq> 0" using b by (metis length_0_conv unat_0)
  have "unat ?q < length (content2 g)" using b nz by (metis unat_mod mod_less_divisor unat_gt_0 word_neq_0_conv)
  then have lt: "int (unat ?q) < int (length (content2 g))" by (simp only: of_nat_less_iff)
  have i: "int (unat ?q) = uint ?q" by simp
  with lt b have "uint ?q < 2147483648" by linarith
  from int_of_u32_small [OF this] have q: "int_of_u32 ?q = int (unat ?q)" "int (unat ?q) < int (length (content2 g))"
    using i lt by simp_all
  from L.seek_spec [OF s(1), of "int (unat ?q)"] q(2) s(3) obtain f' where
    f': "audio_file_seek env (Some f) (int (unat ?q)) = Some (0, Some f')" "L.file_ok f'" "content1 f' = content2 g" "L.place f' = unat ?q" by auto
  from R.seek_spec [OF s(2), of "int (unat ?q)"] q(2) obtain g' where
    g': "audio_file_seek env (Some g) (int (unat ?q)) = Some (0, Some g')" "R.file_ok g'" "content2 g' = content2 g" "R.place g' = unat ?q" by auto
  have "jump env r (Some f) (Some g) = Some (Some f', Some g')" using f'(1) g'(1) nz q(1) by (simp add: jump_def u32_mod_def)
  with f' g' show ?thesis by (simp add: same_place_def)
qed

lemma compare_round:
  assumes "same_place f g" "length b = 1024" "length b' = 1024" "0 \<le> n"
  defines "m \<equiv> min 1024 (length (content2 g) - R.place g)"
  assumes "n + int m < 2147483648"
  shows "\<exists>f' g' c c'. same_place f' g' \<and> content2 g' = content2 g \<and> length c = 1024 \<and> length c' = 1024 \<and>
    (100 \<le> i \<longrightarrow> R.place g' = R.place g + m) \<and>
    compare_loop env rnd i b b' n n (Some f) (Some g) =
      (if m = 0 then Some (Compared (n + int m) (n + int m), Some f', Some g')
       else compare_loop env rnd (Suc i) c c' (n + int m) (n + int m) (Some f') (Some g'))"
proof -
  from same_read [OF assms(1-3), folded m_def] obtain f1 g1 c c' where r: "audio_file_read env (Some f) b 1024 = Some (int m, c, Some f1)"
    "audio_file_read env (Some g) b' 1024 = Some (int m, c', Some g1)" "same_place f1 g1" "content2 g1 = content2 g"
    "R.place g1 = R.place g + m" "length c = 1024" "length c' = 1024" "bytes_differ c c' (int m) = Some False" by blast
  obtain f2 g2 where j: "(if i < 100 then jump env (rnd i) (Some f1) (Some g1) else Some (Some f1, Some g1)) = Some (Some f2, Some g2)"
    "same_place f2 g2" "content2 g2 = content2 g" "100 \<le> i \<longrightarrow> g2 = g1"
    using same_jump [OF r(3), of "rnd i"] r(3,4) by (cases "i < 100") auto
  have "c_int (n + int m) = Some (n + int m)" using assms(4,6) by (simp add: c_int_in_range)
  then have "compare_loop env rnd i b b' n n (Some f) (Some g) =
      (if m = 0 then Some (Compared (n + int m) (n + int m), Some f2, Some g2)
       else compare_loop env rnd (Suc i) c c' (n + int m) (n + int m) (Some f2) (Some g2))"
    using r(1,2,8) j(1) by (cases "i < 100"; subst compare_loop.simps; simp)
  then show ?thesis using j(2-4) r(5-7) by (intro exI [of _ f2] exI [of _ g2] exI [of _ c] exI [of _ c']) simp
qed

text \<open>The comparison ends: behind the first hundred rounds every round reads on. The totals stay in the range of
  an \<open>int\<close>.\<close>

lemma compare_tail:
  assumes "same_place f g" "length b = 1024" "length b' = 1024" "0 \<le> n" "100 \<le> i"
    "n + int (length (content2 g) - R.place g) < 2147483648"
  shows "\<exists>k f' g'. compare_loop env rnd i b b' n n (Some f) (Some g) = Some (Compared k k, Some f', Some g') \<and> same_place f' g'"
  using assms
proof (induction "length (content2 g) - R.place g" arbitrary: f g b b' n i rule: less_induct)
  case less
  let ?m = "min 1024 (length (content2 g) - R.place g)"
  have "n + int ?m < 2147483648" using less.prems(6) by linarith
  from compare_round [OF less.prems(1-4) this, of i rnd] less.prems(5) obtain f' g' c c' where
    r: "same_place f' g'" "content2 g' = content2 g" "length c = 1024" "length c' = 1024" "R.place g' = R.place g + ?m"
    "compare_loop env rnd i b b' n n (Some f) (Some g) = (if ?m = 0 then Some (Compared (n + int ?m) (n + int ?m), Some f', Some g')
       else compare_loop env rnd (Suc i) c c' (n + int ?m) (n + int ?m) (Some f') (Some g'))" by blast
  show ?case
  proof (cases "?m = 0")
    case False
    then have d: "length (content2 g') - R.place g' < length (content2 g) - R.place g" unfolding r(2,5) by linarith
    have "0 \<le> n + int ?m" "n + int ?m + int (length (content2 g') - R.place g') < 2147483648"
      using less.prems(4,6) unfolding r(2,5) by linarith+
    from less.hyps [OF d r(1,3,4) this(1) _ this(2), of "Suc i"] less.prems(5) r(6) False show ?thesis by simp
  qed (use r(1,6) in simp)
qed

lemma same_compare:
  assumes "same_place f g" "length b = 1024" "length b' = 1024" "0 \<le> n"
    "n + 1024 * int (100 - i) + int (length (content2 g)) < 2147483648"
  shows "\<exists>k f' g'. compare_loop env rnd i b b' n n (Some f) (Some g) = Some (Compared k k, Some f', Some g') \<and> same_place f' g'"
  using assms
proof (induction "100 - i" arbitrary: f g b b' n i)
  case 0
  then show ?case by (intro compare_tail) simp_all
next
  case (Suc d)
  let ?m = "min 1024 (length (content2 g) - R.place g)"
  have i: "d = 100 - Suc i" "int (100 - i) = int (100 - Suc i) + 1" using Suc.hyps(2) by simp_all
  then have "n + int ?m < 2147483648" using Suc.prems(5) by linarith
  from compare_round [OF Suc.prems(1-4) this, of i rnd] obtain f' g' c c' where
    r: "same_place f' g'" "content2 g' = content2 g" "length c = 1024" "length c' = 1024"
    "compare_loop env rnd i b b' n n (Some f) (Some g) = (if ?m = 0 then Some (Compared (n + int ?m) (n + int ?m), Some f', Some g')
       else compare_loop env rnd (Suc i) c c' (n + int ?m) (n + int ?m) (Some f') (Some g'))" by blast
  have "0 \<le> n + int ?m" "n + int ?m + 1024 * int (100 - Suc i) + int (length (content2 g')) < 2147483648"
    using Suc.prems(4,5) i(2) unfolding r(2) by linarith+
  from Suc.hyps(1) [OF i(1) r(1,3,4) this] r(1,5) show ?case by (cases "?m = 0") auto
qed

lemma compare_sources:
  assumes "L.file_ok f" "R.file_ok g" "content1 f = content2 g" "L.place f = 0" "R.place g = 0" "ahead f = []"
    "allocator_ok (fe_mal env)" "\<And>k i. fe_mal env k i \<noteq> None" "length b = 1024" "length b' = 1024"
    "length (content2 g) < 2147381248" "\<And>f. valid1 f \<Longrightarrow> af_type f \<noteq> AUDIO_FILE_TYPE_WEB" "\<And>f. valid2 f \<Longrightarrow> af_type f \<noteq> AUDIO_FILE_TYPE_WEB"
  shows "\<exists>k. audio_file_compare env rnd b b' (Some f) (Some g) = Some (Compared k k)"
proof -
  have size: "\<exists>k. audio_file_size env (Some h) = Some (k, Some h)" "\<exists>r. audio_file_close env (Some h) = Some r"
    if "af_type h \<noteq> AUDIO_FILE_TYPE_WEB" for h using that by (auto simp: audio_file_size_def audio_file_close_def split: audio_file_type.splits)
  have not_web: "L.file_ok h \<Longrightarrow> af_type h \<noteq> AUDIO_FILE_TYPE_WEB" "R.file_ok h \<Longrightarrow> af_type h \<noteq> AUDIO_FILE_TYPE_WEB" for h
    using assms(12,13) by (simp_all add: L.file_ok_def R.file_ok_def)
  define big :: "u8 list" where "big = replicate (5 * 1024 * 1024) 0"
  have "5 * 1024 * 1024 \<le> int (length big)" by (simp add: big_def)
  from L.preread_spec [OF assms(1) _ _ this assms(7,8)] assms(6) obtain m buf h where
    h: "audio_file_preread env (Some f) big (5 * 1024 * 1024) = Some (m, buf, h)" "L.file_ok h" "content1 h = content1 f" "L.place h = 0"
    using assms(4) by auto
  have "same_place h g" using h(2-4) assms(2,3,5) by (simp add: same_place_def)
  from same_compare [OF this assms(9,10), of 0 0 rnd] assms(11) obtain k f' g' where
    c: "compare_loop env rnd 0 b b' 0 0 (Some h) (Some g) = Some (Compared k k, Some f', Some g')" "same_place f' g'" by auto
  obtain x y where s: "audio_file_size env (Some f) = Some (x, Some f)" "audio_file_size env (Some g) = Some (y, Some g)"
    using size(1) not_web assms(1,2) by blast
  obtain x' y' where "audio_file_close env (Some f') = Some x'" "audio_file_close env (Some g') = Some y'"
    using size(2) not_web c(2) unfolding same_place_def by blast
  with s h(1) c(1) show ?thesis unfolding audio_file_compare_def big_def [symmetric] by simp
qed

end

text \<open>Each of the two may be a card file or a prompt sound.\<close>

interpretation card_card: two_sources env card_content "card_valid env" card_content "card_valid env" for env
  by unfold_locales

interpretation card_flash: two_sources env card_content "card_valid env" "flash_content env" "flash_valid env" for env
  by unfold_locales

interpretation flash_card: two_sources env "flash_content env" "flash_valid env" card_content "card_valid env" for env
  by unfold_locales

interpretation flash_flash: two_sources env "flash_content env" "flash_valid env" "flash_content env" "flash_valid env" for env
  by unfold_locales

lemma sources_compare:
  assumes "source_holds env path ty c" "source_holds env path' ty' c" "allocator_ok (fe_mal env)" "\<And>k i. fe_mal env k i \<noteq> None"
    "length b = 1024" "length b' = 1024" "length c < 2147381248"
  shows "\<exists>f w1 g w2 k. audio_file_open env path ty rng w = Some (Some f, w1) \<and> audio_file_open env path' ty' rng' w1 = Some (Some g, w2) \<and>
    audio_file_compare env rnd b b' (Some f) (Some g) = Some (Compared k k)"
proof -
  have t: "card_valid env h \<Longrightarrow> af_type h \<noteq> AUDIO_FILE_TYPE_WEB" "flash_valid env h \<Longrightarrow> af_type h \<noteq> AUDIO_FILE_TYPE_WEB" for h
    by (simp_all add: card_valid_def flash_valid_def)
  show ?thesis
  proof (rule source_open [OF assms(1,4), of rng w])
    fix f w1
    assume f: "audio_file_open env path ty rng w = Some (Some f, w1)" "card.file_ok env f" "card_content f = c" "card.place f = 0" "ahead f = []"
    show ?thesis
    proof (rule source_open [OF assms(2,4), of rng' w1])
      fix g w2
      assume g: "audio_file_open env path' ty' rng' w1 = Some (Some g, w2)" "card.file_ok env g" "card_content g = c" "card.place g = 0"
      from card_card.compare_sources [OF f(2) g(2) _ f(4) g(4) f(5) assms(3-6) _ t(1) t(1)] f(1,3) g(1,3) assms(7) show ?thesis by auto
    next
      fix g w2
      assume g: "audio_file_open env path' ty' rng' w1 = Some (Some g, w2)" "flash.file_ok env g" "flash_content env g = c" "flash.place g = 0"
      from card_flash.compare_sources [OF f(2) g(2) _ f(4) g(4) f(5) assms(3-6) _ t(1) t(2)] f(1,3) g(1,3) assms(7) show ?thesis by auto
    qed
  next
    fix f w1
    assume f: "audio_file_open env path ty rng w = Some (Some f, w1)" "flash.file_ok env f" "flash_content env f = c" "flash.place f = 0" "ahead f = []"
    show ?thesis
    proof (rule source_open [OF assms(2,4), of rng' w1])
      fix g w2
      assume g: "audio_file_open env path' ty' rng' w1 = Some (Some g, w2)" "card.file_ok env g" "card_content g = c" "card.place g = 0"
      from flash_card.compare_sources [OF f(2) g(2) _ f(4) g(4) f(5) assms(3-6) _ t(2) t(1)] f(1,3) g(1,3) assms(7) show ?thesis by auto
    next
      fix g w2
      assume g: "audio_file_open env path' ty' rng' w1 = Some (Some g, w2)" "flash.file_ok env g" "flash_content env g = c" "flash.place g = 0"
      from flash_flash.compare_sources [OF f(2) g(2) _ f(4) g(4) f(5) assms(3-6) _ t(2) t(2)] f(1,3) g(1,3) assms(7) show ?thesis by auto
    qed
  qed
qed

end
