(* ===== verification/Convert_Test.thy ===== *)
theory Convert_Test
  imports Samplerate_Convert Os_Layer
begin

text \<open>
  The conversion test of app/audio_test.c: a file of samples goes through the converter in blocks of
  512 bytes, and what the ring buffer then holds goes to another file. The lemmas show that every
  round is defined, leaves the ring buffer empty and keeps the block in its bounds, and that the
  test ends, because a full block always gives the converter something to take.
\<close>

section \<open>The test\<close>

text \<open>The ring buffer is emptied into the file through an array of 1024 bytes.\<close>

partial_function (option) drain :: "ring_buffer \<Rightarrow> u8 list \<Rightarrow> c_file option \<Rightarrow> (ring_buffer \<times> u8 list \<times> c_file option) option" where
  "drain rb write_buf out = do {
     r \<leftarrow> ring_buffer_pop rb True 1024;
     let write_buf = fst (snd r) @ drop (length (fst (snd r))) write_buf;
     q \<leftarrow> f_write out (take (unat (fst r)) write_buf);
     if 0 < fst r then drain (snd (snd r)) write_buf (snd (snd q)) else Some (snd (snd r), write_buf, snd (snd q)) }"

text \<open>What the loop changes: the block with its fill, the file read with its end-of-file mark, the converter
  with the ring buffer, the other array, the file written.\<close>

record ('f, 's) convert_test =
  ct_block :: "u8 list"
  ct_len :: int
  ct_reader :: "c_file option"
  ct_eof :: bool
  ct_sys :: "('f, 's) sr_sys"
  ct_write :: "u8 list"
  ct_out :: "c_file option"

text \<open>A read that gets less than it asks for has met the end of the file.\<close>

definition convert_test_pass :: "('f, 's, 'r) src_env \<Rightarrow> 'r \<Rightarrow> ('f, 's) convert_test \<Rightarrow> ('f, 's) convert_test option" where
  "convert_test_pass env ratio t = do {
     let want = 512 - ct_len t;
     (_, bytes, reader) \<leftarrow> f_read (ct_reader t) want;
     block \<leftarrow> mem_write (ct_block t) (ct_len t) bytes;
     let len = ct_len t + int (length bytes);
     (consumed, sys) \<leftarrow> samplerate_convert_process env ratio 2 block len (ct_sys t);
     let len = len - consumed;
     rest \<leftarrow> mem_read block consumed len;
     block \<leftarrow> mem_write block 0 rest;
     (rb, wb, out) \<leftarrow> drain (snd sys) (ct_write t) (ct_out t);
     Some (t\<lparr>ct_block := block, ct_len := len, ct_reader := reader, ct_eof := ct_eof t \<or> int (length bytes) < want,
       ct_sys := (fst sys, rb), ct_write := wb, ct_out := out\<rparr>) }"

partial_function (option) convert_test_loop :: "('f, 's, 'r) src_env \<Rightarrow> 'r \<Rightarrow> ('f, 's) convert_test \<Rightarrow> ('f, 's) convert_test option" where
  "convert_test_loop env ratio t =
     (if ct_eof t then Some t else do { t \<leftarrow> convert_test_pass env ratio t; convert_test_loop env ratio t })"

text \<open>\<open>ratio\<close> is 32000 / 44100; \<open>conv_size\<close> and \<open>zero\<close> are what the converter's allocation takes. A converter or a ring
  buffer that could not be allocated has no test.\<close>

definition samplerate_convert_test :: "allocator \<Rightarrow> nat \<Rightarrow> nat \<Rightarrow> 'f \<Rightarrow> ('f, 's, 'r) src_env \<Rightarrow> 'r \<Rightarrow> u8 list \<Rightarrow> u8 list \<Rightarrow>
    c_file option \<Rightarrow> c_file option \<Rightarrow> c_file option option" where
  "samplerate_convert_test mal k conv_size zero env ratio read_buf write_buf reader writer = do {
     let rb = snd (ring_buffer_init mal k 32000);
     sr \<leftarrow> samplerate_convert_alloc mal (k + 1) conv_size zero;
     t \<leftarrow> convert_test_loop env ratio \<lparr>ct_block = read_buf, ct_len = 0, ct_reader = reader, ct_eof = False, ct_sys = (sr, rb),
       ct_write = write_buf, ct_out = writer\<rparr>;
     Some (ct_out t) }"

section \<open>Draining\<close>

definition at_end :: "c_file \<Rightarrow> bool" where
  "at_end f \<longleftrightarrow> fl_pos f = int (length (fl_data f))"

lemma write_at_end:
  assumes "at_end f"
  shows "\<exists>g. f_write (Some f) bs = Some (0, int (length bs), Some g) \<and> fl_data g = fl_data f @ bs \<and> at_end g"
  using assms by (simp add: f_write_def Let_def at_end_def)

lemma drain_all:
  assumes "ring_wf rb" "length wb = 1024" "at_end f"
  shows "\<exists>rb' wb' f'. drain rb wb (Some f) = Some (rb', wb', Some f') \<and> ring_wf rb' \<and> ring_contents rb' = [] \<and>
    ring_cap rb' = ring_cap rb \<and> length wb' = 1024 \<and> at_end f' \<and> fl_data f' = fl_data f @ ring_contents rb"
  using assms
proof (induction "length (ring_contents rb)" arbitrary: rb wb f rule: less_induct)
  case less
  define d where "d = ring_contents rb"
  let ?n = "min 1024 (length d)"
  have n: "min (unat (1024 :: u32)) (ring_len rb) = ?n" using less.prems(1) by (simp add: d_def length_ring_contents)
  from ring_pop [OF less.prems(1), where req = 1024 and wanted = True, unfolded n] obtain rb' where
    p: "ring_buffer_pop rb True 1024 = Some (of_nat ?n, take ?n d, rb')" "ring_wf rb'" "ring_contents rb' = drop ?n d"
      "ring_cap rb' = ring_cap rb" by (auto simp: d_def)
  have u: "unat (of_nat ?n :: u32) = ?n" by (intro unat_of_nat_u32) simp
  then have z: "0 < (of_nat ?n :: u32) \<longleftrightarrow> d \<noteq> []" by (simp add: word_less_nat_alt)
  let ?wb = "take ?n d @ drop (length (take ?n d)) wb"
  have "length (take ?n d) = ?n" by simp
  then have t: "take ?n (take ?n d @ r) = take ?n d" for r by (metis append_eq_conv_conj)
  have l: "length ?wb = 1024" using less.prems(2) by simp
  from write_at_end [OF less.prems(3), of "take ?n d"] obtain g where
    g: "f_write (Some f) (take ?n d) = Some (0, int (length (take ?n d)), Some g)" "fl_data g = fl_data f @ take ?n d" "at_end g" by blast
  have r: "drain rb wb (Some f) = (if d \<noteq> [] then drain rb' ?wb (Some g) else Some (rb', ?wb, Some g))"
    using p(1) g(1) z by (subst drain.simps) (simp add: u t Let_def del: take_append take_take)
  show ?case
  proof (cases "d = []")
    case True
    with r p(2-4) l g(2,3) show ?thesis by (simp add: d_def)
  next
    case False
    then have "length (ring_contents rb') < length (ring_contents rb)" unfolding p(3) d_def [symmetric] by simp
    from less.hyps [OF this p(2) l g(3)] obtain rb2 wb2 f2 where "drain rb' ?wb (Some g) = Some (rb2, wb2, Some f2)" "ring_wf rb2"
      "ring_contents rb2 = []" "ring_cap rb2 = ring_cap rb'" "length wb2 = 1024" "at_end f2" "fl_data f2 = fl_data g @ drop ?n d"
      unfolding p(3) by blast
    with r False p(4) show ?thesis unfolding g(2) append_assoc append_take_drop_id d_def [symmetric] by auto
  qed
qed

section \<open>One pass and all of them\<close>

definition ct_ok :: "('s \<Rightarrow> bool) \<Rightarrow> ('f \<Rightarrow> bool) \<Rightarrow> ('f, 's) convert_test \<Rightarrow> bool" where
  "ct_ok ok good t \<longleftrightarrow> length (ct_block t) = 512 \<and> 0 \<le> ct_len t \<and> ct_len t \<le> 512 \<and> (\<exists>r. ct_reader t = Some r \<and> 0 \<le> fl_pos r) \<and>
     sr_ok ok good (fst (ct_sys t)) \<and> ring_wf (snd (ct_sys t)) \<and> ring_contents (snd (ct_sys t)) = [] \<and>
     8192 \<le> ring_cap (snd (ct_sys t)) \<and> length (ct_write t) = 1024 \<and>
     (\<exists>f. ct_out t = Some f \<and> at_end f)"

definition unread :: "('f, 's) convert_test \<Rightarrow> nat" where
  "unread t = length (drop (nat (fl_pos (the (ct_reader t)))) (fl_data (the (ct_reader t))))"

lemma write_total: "0 \<le> off \<Longrightarrow> off + int (length d) \<le> int (length m) \<Longrightarrow> \<exists>m'. mem_write m off d = Some m' \<and> length m' = length m"
  using mem_write_ok mem_write_length by blast

lemma read_total: "0 \<le> off \<Longrightarrow> 0 \<le> n \<Longrightarrow> off + n \<le> int (length m) \<Longrightarrow> \<exists>d. mem_read m off n = Some d \<and> int (length d) = n"
  using mem_read_ok mem_read_length by blast

context resampler
begin

text \<open>A round takes as many bytes as fit, drops from the front what was converted, and appends to the file
  what the conversion gave.\<close>

lemma test_pass_ok:
  assumes "ct_ok ok good t" "fine ratio"
  defines "n \<equiv> min (nat (512 - ct_len t)) (unread t)"
  shows "\<exists>t' c bs. convert_test_pass env ratio t = Some t' \<and> ct_ok ok good t' \<and> 0 \<le> c \<and> ct_len t' = ct_len t + int n - c \<and>
    unread t' = unread t - n \<and> ct_eof t' = (ct_eof t \<or> int n < 512 - ct_len t) \<and>
    fl_data (the (ct_out t')) = fl_data (the (ct_out t)) @ bs \<and>
    (\<exists>block s'. length block = 512 \<and> samplerate_convert_process env ratio 2 block (ct_len t + int n) (ct_sys t) = Some (c, s'))"
proof -
  from assms(1) obtain r f where t: "length (ct_block t) = 512" "0 \<le> ct_len t" "ct_len t \<le> 512" "ct_reader t = Some r" "0 \<le> fl_pos r"
    "sr_ok ok good (fst (ct_sys t))" "ring_wf (snd (ct_sys t))" "ring_contents (snd (ct_sys t)) = []" "length (ct_write t) = 1024"
    "ct_out t = Some f" "at_end f" "8192 \<le> ring_cap (snd (ct_sys t))" by (auto simp: ct_ok_def)
  let ?rest = "drop (nat (fl_pos r)) (fl_data r)"
  define bytes where "bytes = take (nat (512 - ct_len t)) ?rest"
  have n: "length bytes = n" by (simp add: bytes_def n_def unread_def t(4))
  let ?r = "r\<lparr>fl_pos := fl_pos r + int (length bytes)\<rparr>" and ?len = "ct_len t + int (length bytes)"
  have fr: "f_read (ct_reader t) (512 - ct_len t) = Some (0, bytes, Some ?r)"
    using t(3,4) by (simp add: f_read_def Let_def bytes_def)
  have nl: "?len \<le> 512" using n t(3) by (simp add: n_def)
  then obtain block where b: "mem_write (ct_block t) (ct_len t) bytes = Some block" "length block = 512"
    using write_total [of "ct_len t" bytes "ct_block t"] t(1,2) by auto
  from convert_process_ok [OF assms(2) _ _ _ t(6,7), of 2 ?len block] t(2) nl b(2) obtain c sr' rb' bs where
    c: "samplerate_convert_process env ratio 2 block ?len (ct_sys t) = Some (c, sr', rb')" "0 \<le> c" "c \<le> ?len" "sr_ok ok good sr'" "ring_wf rb'"
    "ring_contents rb' = bs" "ring_cap rb' = ring_cap (snd (ct_sys t))" using t(8) by auto
  obtain rest where rest: "mem_read block c (?len - c) = Some rest" "int (length rest) = ?len - c"
    using read_total [of c "?len - c" block] c(2,3) nl b(2) by auto
  then obtain block' where b': "mem_write block 0 rest = Some block'" "length block' = 512"
    using write_total [of 0 rest block] b(2) nl c(2) by auto
  from drain_all [OF c(5) t(9,11)] obtain rb2 wb2 f2 where d: "drain rb' (ct_write t) (Some f) = Some (rb2, wb2, Some f2)" "ring_wf rb2"
    "ring_contents rb2 = []" "length wb2 = 1024" "at_end f2" "fl_data f2 = fl_data f @ bs" "ring_cap rb2 = ring_cap rb'" unfolding c(6) by blast
  let ?t = "t\<lparr>ct_block := block', ct_len := ?len - c, ct_reader := Some ?r, ct_eof := ct_eof t \<or> int (length bytes) < 512 - ct_len t,
    ct_sys := (sr', rb2), ct_write := wb2, ct_out := Some f2\<rparr>"
  have "convert_test_pass env ratio t = Some ?t"
    unfolding convert_test_pass_def Let_def fr using b(1) c(1) rest(1) b'(1) d(1) t(10) by simp
  moreover have "ct_ok ok good ?t" using b'(2) c(2-4,7) nl t(5,12) d(2-5,7) by (auto simp: ct_ok_def)
  moreover have "unread ?t = unread t - n" using t(4,5) n by (simp add: unread_def nat_add_distrib)
  ultimately show ?thesis using c(1,2) b(2) d(6) t(10) n
    by (intro exI [of _ ?t] exI [of _ c] exI [of _ bs]) auto
qed

text \<open>A full block always gives the converter something to take, so the file gets shorter.\<close>

lemma convert_test_ends:
  assumes "ct_ok ok good t" "fine ratio" "src_new env \<noteq> None" "ct_len t < 512"
  shows "\<exists>t' bs. convert_test_loop env ratio t = Some t' \<and> ct_ok ok good t' \<and> fl_data (the (ct_out t')) = fl_data (the (ct_out t)) @ bs"
  using assms(1,4)
proof (induction "unread t" arbitrary: t rule: less_induct)
  case less
  show ?case
  proof (cases "ct_eof t")
    case True
    then show ?thesis using less.prems(1) by (subst convert_test_loop.simps) simp
  next
    case False
    let ?n = "min (nat (512 - ct_len t)) (unread t)"
    from test_pass_ok [OF less.prems(1) assms(2)] obtain t' c bs block s' where p: "convert_test_pass env ratio t = Some t'"
      "ct_ok ok good t'" "0 \<le> c" "ct_len t' = ct_len t + int ?n - c" "unread t' = unread t - ?n" "ct_eof t' = (ct_eof t \<or> int ?n < 512 - ct_len t)"
      "fl_data (the (ct_out t')) = fl_data (the (ct_out t)) @ bs" "length block = 512"
      "samplerate_convert_process env ratio 2 block (ct_len t + int ?n) (ct_sys t) = Some (c, s')" by blast
    have l: "convert_test_loop env ratio t = convert_test_loop env ratio t'"
      using False p(1) by (subst convert_test_loop.simps) simp
    show ?thesis
    proof (cases "ct_eof t'")
      case True
      then have "convert_test_loop env ratio t' = Some t'" by (subst convert_test_loop.simps) simp
      with l p(2,7) show ?thesis by auto
    next
      case more: False
      then have n: "int ?n = 512 - ct_len t" using p(6) less.prems(2) by (simp add: False)
      have "ct_len t + int ?n = 512" using n by simp
      moreover have "sr_ok ok good (fst (ct_sys t))" "ring_wf (snd (ct_sys t))" "ring_contents (snd (ct_sys t)) = []"
        "8192 \<le> ring_cap (snd (ct_sys t))" using less.prems(1) by (simp_all add: ct_ok_def)
      ultimately have "0 < c" using block_taken [of ratio "fst (ct_sys t)" "snd (ct_sys t)" 512 block c s'] assms(2,3) p(8,9) by simp
      then have "ct_len t' < 512" using p(4) n by linarith
      moreover have "unread t' < unread t" using p(5) n less.prems(2) by linarith
      ultimately obtain t2 bs2 where "convert_test_loop env ratio t' = Some t2" "ct_ok ok good t2"
        "fl_data (the (ct_out t2)) = fl_data (the (ct_out t')) @ bs2" using less.hyps p(2) by blast
      with l p(7) show ?thesis by auto
    qed
  qed
qed

text \<open>The whole test, with memory for its ring buffer, the converter and the library's state.\<close>

lemma convert_test_total:
  assumes "allocator_ok mal" "mal k 32001 \<noteq> None" "mal (k + 1) conv_size \<noteq> None" "src_new env \<noteq> None" "good zero" "fine ratio"
    "length read_buf = 512" "length write_buf = 1024" "0 \<le> fl_pos reader" "at_end writer"
  shows "\<exists>f bs. samplerate_convert_test mal k conv_size zero env ratio read_buf write_buf (Some reader) (Some writer) = Some (Some f) \<and>
    fl_data f = fl_data writer @ bs"
proof -
  let ?rb = "snd (ring_buffer_init mal k 32000)"
  from ring_init [OF assms(1), of 32000 k] assms(2) have rb: "ring_wf ?rb" "ring_contents ?rb = []" "ring_cap ?rb = 32000"
    by (auto split: option.splits)
  obtain sr where sr: "samplerate_convert_alloc mal (k + 1) conv_size zero = Some sr" "sr_ok ok good sr"
    using assms(3,5) by (auto simp: samplerate_convert_alloc_def sr_ok_def sr_wf_def)
  let ?t = "\<lparr>ct_block = read_buf, ct_len = 0, ct_reader = Some reader, ct_eof = False, ct_sys = (sr, ?rb), ct_write = write_buf, ct_out = Some writer\<rparr>"
  have "ct_ok ok good ?t" using rb sr(2) assms(7-10) by (simp add: ct_ok_def)
  from convert_test_ends [OF this assms(6,4)] obtain t' bs where
    "convert_test_loop env ratio ?t = Some t'" "ct_ok ok good t'" "fl_data (the (ct_out t')) = fl_data writer @ bs" by auto
  then show ?thesis using sr(1) by (auto simp: samplerate_convert_test_def Let_def ct_ok_def)
qed

end

end
