(* ===== verification/Com_Player_Test.thy ===== *)
theory Com_Player_Test
  imports Com_Player Os_Layer
begin

text \<open>
  The player without a process: com_player_test of app/audio_test.c plays a file of the card with
  callbacks of its own. The lemmas say what a decoder that calls them gets, and when it is told the
  end.
\<close>

text \<open>The file with its length and the position of the next byte, and the callbacks by name.\<close>

record player_test =
  pt_file :: "c_file option"
  pt_total :: u32
  pt_pos :: u32

datatype test_cb = Test_Input | Test_Error | Test_Seek

type_synonym ('m, 'd, 'f, 'v, 's) test_sys = "('m, 'd, 'f, test_cb, 'v, 's, player_test) player_sys"

text \<open>A read never fails with a negative count.\<close>

definition com_input_callback :: "nat \<Rightarrow> u8 list \<Rightarrow> int \<Rightarrow> ('m, 'd, 'f, 'v, 's) test_sys \<Rightarrow>
    (int \<times> u8 list \<times> ('m, 'd, 'f, 'v, 's) test_sys) option" where
  "com_input_callback p buf n s = do {
     (_, bytes, file) \<leftarrow> f_read (pt_file (ps_w s)) n;
     buf \<leftarrow> mem_write buf 0 bytes;
     let read_pos = pt_pos (ps_w s) + of_nat (length bytes);
     let s = s\<lparr>ps_w := (ps_w s)\<lparr>pt_file := file, pt_pos := read_pos\<rparr>\<rparr>;
     let input_done = (if cp_type (ps_player s p) = COM_PLAYER_TYPE_M4A then n = 0 else pt_total (ps_w s) \<le> read_pos);
     Some (int (length bytes), buf, if input_done then com_player_set_done p False s else s) }"

definition com_seek_callback :: "int \<Rightarrow> ('m, 'd, 'f, 'v, 's) test_sys \<Rightarrow> (int \<times> ('m, 'd, 'f, 'v, 's) test_sys) option" where
  "com_seek_callback position s = do {
     (ret, file) \<leftarrow> f_lseek (pt_file (ps_w s)) position;
     Some (ret, s\<lparr>ps_w := (ps_w s)\<lparr>pt_file := file, pt_pos := u32_of_int position\<rparr>\<rparr>) }"

definition com_error_callback :: "nat \<Rightarrow> int \<Rightarrow> ('m, 'd, 'f, 'v, 's) test_sys \<Rightarrow> int \<times> ('m, 'd, 'f, 'v, 's) test_sys" where
  "com_error_callback p error s = (0, com_player_set_done p True s)"

text \<open>The loop, with what all others do in each sleep. \<open>None\<close> when it still runs at their end.\<close>

fun player_test_loop :: "('m, 'd, 'f, test_cb, 'v, 's, player_test) player_env \<Rightarrow> nat \<Rightarrow>
    (('m, 'd, 'f, 'v, 's) test_sys \<Rightarrow> ('m, 'd, 'f, 'v, 's) test_sys) list \<Rightarrow> ('m, 'd, 'f, 'v, 's) test_sys \<Rightarrow>
    ('m, 'd, 'f, 'v, 's) test_sys option" where
  "player_test_loop env p [] s = None"
| "player_test_loop env p (g # gs) s = do {
     _ \<leftarrow> com_player_get_progress (ps_player s p) (int_of_u32 (pt_pos (ps_w s))) (int_of_u32 (pt_total (ps_w s)));
     is_done \<leftarrow> com_player_is_done s;
     if is_done then Some s
     else do {
       (_, s) \<leftarrow> com_player_auto_resume env p s;
       player_test_loop env p gs (g s) } }"

definition com_player_test :: "('m, 'd, 'f, test_cb, 'v, 's, player_test) player_env \<Rightarrow> file_system \<Rightarrow> nat \<Rightarrow>
    (('m, 'd, 'f, 'v, 's) test_sys \<Rightarrow> ('m, 'd, 'f, 'v, 's) test_sys) list \<Rightarrow> ('m, 'd, 'f, 'v, 's) test_sys \<Rightarrow>
    ('m, 'd, 'f, 'v, 's) test_sys option" where
  "com_player_test env fs p gs s = do {
     file \<leftarrow> snd (f_open fs None (map of_char ''/home/jim/test/player/test1.mp3'') FA_READ);
     let (k, tx, rx) = pcm_trans_init (pe_alloc env) (ps_k s);
     let s = s\<lparr>ps_tx := tx, ps_k := k,
       ps_w := \<lparr>pt_file = Some file, pt_total = u32_of_int (int (length (fl_data file))), pt_pos = 0\<rparr>\<rparr>;
     let s = snd (com_player_init env p s);
     (ret, s) \<leftarrow> com_player_start env p COM_PLAYER_TYPE_MP3 (Some Test_Input) (Some Test_Error) (Some Test_Seek) s;
     s \<leftarrow> (if ret \<noteq> COM_PLAYER_SUCCESS then Some s else player_test_loop env p gs s);
     (_, s) \<leftarrow> com_player_stop env p s;
     let s = snd (com_player_deinit p s);
     Some (s\<lparr>ps_w := (ps_w s)\<lparr>pt_file := snd (f_close (pt_file (ps_w s)))\<rparr>\<rparr>) }"

section \<open>What the decoder gets\<close>

text \<open>The test's data agree: the position is the file's, and the total its length.\<close>

definition pt_ok :: "player_test \<Rightarrow> u8 list \<Rightarrow> nat \<Rightarrow> bool" where
  "pt_ok t data pos \<longleftrightarrow> pt_file t = Some \<lparr>fl_data = data, fl_pos = int pos\<rparr> \<and> pt_total t = of_nat (length data) \<and>
     pt_pos t = of_nat pos \<and> pos \<le> length data \<and> length data < 2147483648"

text \<open>A callback delivers the next bytes; the end is told with the last ones, or, for M4A, when nothing is asked.\<close>

lemma input_callback:
  assumes "pt_ok (ps_w s) data pos" "0 \<le> n" "n \<le> int (length buf)"
  defines "m \<equiv> min (nat n) (length data - pos)"
  shows "\<exists>s'. com_input_callback p buf n s = Some (int m, take m (drop pos data) @ drop m buf, s') \<and> pt_ok (ps_w s') data (pos + m) \<and>
    ps_player s' p = ps_player (if (if cp_type (ps_player s p) = COM_PLAYER_TYPE_M4A then n = 0 else pos + m = length data)
      then com_player_set_done p False s else s) p"
proof -
  have a: "pt_file (ps_w s) = Some \<lparr>fl_data = data, fl_pos = int pos\<rparr>" "pt_total (ps_w s) = of_nat (length data)"
    "pt_pos (ps_w s) = of_nat pos" "pos \<le> length data" "length data < 2147483648" using assms(1) by (simp_all add: pt_ok_def)
  let ?b = "take m (drop pos data)" and ?f = "\<lparr>fl_data = data, fl_pos = int (pos + m)\<rparr>"
  have tk: "take (nat n) (drop pos data) = ?b" "length ?b = m" using assms(2) by (auto simp: m_def min_def)
  have r: "f_read (pt_file (ps_w s)) n = Some (0, ?b, Some ?f)" using assms(2) tk by (simp add: a(1) f_read_def Let_def del: length_take)
  have w: "mem_write buf 0 ?b = Some (?b @ drop m buf)" using assms(2,3) tk(2) by (simp add: mem_write_ok m_def)
  have pm: "pos + m \<le> length data" using a(4) by (simp add: m_def)
  have u: "unat (of_nat (length data) :: u32) = length data" "unat (of_nat (pos + m) :: u32) = pos + m"
    by (rule unat_of_nat_u32, use a(5) pm in linarith)+
  have le: "(of_nat (length data) :: u32) \<le> of_nat pos + of_nat m \<longleftrightarrow> pos + m = length data"
    using u pm by (auto simp: word_le_nat_alt)
  have d: "ps_w (com_player_set_done p e x) = ps_w x" for e and x :: "('a, 'b, 'c, 'd, 'e) test_sys"
    by (simp add: com_player_set_done_def com_player_set_event_def set_player_def Let_def)
  have q: "ps_player (com_player_set_done p e (x\<lparr>ps_w := y\<rparr>)) = ps_player (com_player_set_done p e x)" for e y and x :: "('a, 'b, 'c, 'd, 'e) test_sys"
    by (simp add: com_player_set_done_def com_player_set_event_def set_player_def Let_def)
  show ?thesis using a(2-5) pm
    by (simp add: com_input_callback_def r w tk(2) le d q Let_def pt_ok_def del: length_take)
qed

end
