(* ===== verification/Linear_Converter.thy ===== *)
theory Linear_Converter
  imports Prelude Complex_Main
begin

text \<open>
  The part of libsamplerate (libsamplerate-0.1.9/src/samplerate.c, src_linear.c, common.h) that the player's
  conversion runs: a linear interpolation between the frames of a stream that comes in pieces. The lemmas say
  where the output frames lie, that they are the interpolation there, how much is used and made, and what a
  single frame of input reads.
\<close>

section \<open>Numbers\<close>

text \<open>\<open>lrint\<close> rounds to the nearest integer, a half to the even one.\<close>

definition lrint :: "real \<Rightarrow> int" where
  "lrint x = (let n = \<lfloor>x\<rfloor>; d = x - of_int n in
     if d < 1 / 2 \<or> d = 1 / 2 \<and> even n then n else n + 1)"

definition fmod_one :: "real \<Rightarrow> real" where
  "fmod_one x = (let res = x - of_int (lrint x) in if res < 0 then res + 1 else res)"

definition SRC_MAX_RATIO :: real where "SRC_MAX_RATIO = 256"
definition SRC_MIN_RATIO_DIFF :: real where "SRC_MIN_RATIO_DIFF = 1 / 10 ^ 20"

definition is_bad_src_ratio :: "real \<Rightarrow> bool" where
  "is_bad_src_ratio ratio \<longleftrightarrow> ratio < 1 / SRC_MAX_RATIO \<or> 1 * SRC_MAX_RATIO < ratio"

text \<open>A value of type \<open>long\<close>.\<close>

definition c_long :: "int \<Rightarrow> int option" where
  "c_long x = (if - (2 ^ 63) \<le> x \<and> x < 2 ^ 63 then Some x else None)"

section \<open>The objects\<close>

datatype src_err = SRC_ERR_NO_ERROR | SRC_ERR_MALLOC_FAILED | SRC_ERR_BAD_STATE | SRC_ERR_BAD_DATA | SRC_ERR_BAD_DATA_PTR |
  SRC_ERR_NO_PRIVATE | SRC_ERR_BAD_SRC_RATIO | SRC_ERR_BAD_PROC_PTR | SRC_ERR_SHIFT_BITS | SRC_ERR_FILTER_LEN |
  SRC_ERR_BAD_CONVERTER | SRC_ERR_BAD_CHANNEL_COUNT | SRC_ERR_SINC_BAD_BUFFER_LEN | SRC_ERR_SIZE_INCOMPATIBILITY |
  SRC_ERR_BAD_PRIV_PTR | SRC_ERR_BAD_SINC_STATE | SRC_ERR_DATA_OVERLAP | SRC_ERR_BAD_CALLBACK | SRC_ERR_BAD_MODE |
  SRC_ERR_NULL_CALLBACK | SRC_ERR_NO_VARIABLE_RATIO | SRC_ERR_SINC_PREPARE_DATA_BAD_LEN | SRC_ERR_BAD_INTERNAL_STATE

datatype src_mode = SRC_MODE_PROCESS | SRC_MODE_CALLBACK

text \<open>The converter that the function pointers of a state belong to.\<close>

datatype src_converter = Linear

record linear_data =
  ld_channels :: int
  ld_reset :: bool
  ld_in_count :: int
  ld_in_used :: int
  ld_out_count :: int
  ld_out_gen :: int
  ld_last_value :: "real list"

record src_private =
  sp_last_ratio :: real
  sp_last_position :: real
  sp_error :: src_err
  sp_channels :: int
  sp_mode :: src_mode
  sp_private_data :: "linear_data option"
  sp_process :: "src_converter option"

text \<open>The arrays with their addresses, in floats; \<open>sd_front\<close> is what the memory in front of the input array holds, as far
  as it may be read.\<close>

record src_data =
  sd_in :: "real list option"
  sd_in_at :: int
  sd_front :: "real list"
  sd_out :: "real list option"
  sd_out_at :: int
  sd_input_frames :: int
  sd_output_frames :: int
  sd_input_frames_used :: int
  sd_output_frames_gen :: int
  sd_end_of_input :: bool
  sd_src_ratio :: real

section \<open>The linear converter\<close>

definition data_in :: "src_data \<Rightarrow> int \<Rightarrow> real option" where
  "data_in data i = do {
     a \<leftarrow> sd_in data;
     if 0 \<le> i then (if nat i < length a then Some (a ! nat i) else None)
     else if nat (- i) \<le> length (sd_front data) then Some (sd_front data ! (length (sd_front data) - nat (- i))) else None }"

text \<open>\<open>last_value [ch] = v\<close>, and \<open>data_out [out_gen] = v; out_gen ++\<close>.\<close>

definition put_last :: "nat \<Rightarrow> real \<Rightarrow> real list \<Rightarrow> real list option" where
  "put_last ch v l = (if ch < length l then Some (l[ch := v]) else None)"

definition put_out :: "real \<Rightarrow> linear_data \<times> real list \<Rightarrow> (linear_data \<times> real list) option" where
  "put_out v s = (let g = ld_out_gen (fst s) in
     if 0 \<le> g \<and> nat g < length (snd s) then Some ((fst s)\<lparr>ld_out_gen := g + 1\<rparr>, (snd s)[nat g := v]) else None)"

text \<open>The ratio at the current output frame: on the way from the last ratio to the requested one.\<close>

definition vary_ratio :: "src_private \<Rightarrow> src_data \<Rightarrow> linear_data \<Rightarrow> real \<Rightarrow> real" where
  "vary_ratio psrc data priv src_ratio =
     (if 0 < ld_out_count priv \<and> SRC_MIN_RATIO_DIFF < \<bar>sp_last_ratio psrc - sd_src_ratio data\<bar>
      then sp_last_ratio psrc + of_int (ld_out_gen priv) * (sd_src_ratio data - sp_last_ratio psrc) / of_int (ld_out_count priv)
      else src_ratio)"

text \<open>One frame, between two values of each channel.\<close>

definition put_frame :: "(nat \<Rightarrow> real option) \<Rightarrow> (nat \<Rightarrow> real option) \<Rightarrow> real \<Rightarrow> linear_data \<times> real list \<Rightarrow> (linear_data \<times> real list) option" where
  "put_frame from to input_index s = each [0..<nat (ld_channels (fst s))] (\<lambda>ch s. do {
     a \<leftarrow> from ch; b \<leftarrow> to ch; put_out (a + input_index * (b - a)) s }) s"

text \<open>The samples before the first sample in the input array: index, ratio, converter and output array go round.\<close>

partial_function (option) lead_loop :: "src_private \<Rightarrow> src_data \<Rightarrow> real \<Rightarrow> real \<Rightarrow> linear_data \<times> real list \<Rightarrow>
    (real \<times> real \<times> linear_data \<times> real list) option" where
  "lead_loop psrc data input_index src_ratio s =
     (if input_index < 1 \<and> ld_out_gen (fst s) < ld_out_count (fst s) \<and>
         of_int (ld_in_used (fst s)) + of_int (ld_channels (fst s)) * (1 + input_index) < of_int (ld_in_count (fst s))
      then do {
        let src_ratio = vary_ratio psrc data (fst s) src_ratio;
        s \<leftarrow> put_frame (\<lambda>ch. if ch < length (ld_last_value (fst s)) then Some (ld_last_value (fst s) ! ch) else None)
          (\<lambda>ch. data_in data (int ch)) input_index s;
        lead_loop psrc data (input_index + 1 / src_ratio) src_ratio s }
      else Some (input_index, src_ratio, s))"

text \<open>The whole part of the index goes to the position in the input array.\<close>

definition advance :: "real \<Rightarrow> linear_data \<Rightarrow> (real \<times> linear_data) option" where
  "advance input_index priv = do {
     let rem = fmod_one input_index;
     d \<leftarrow> c_long (ld_channels priv * lrint (input_index - rem));
     u \<leftarrow> c_long (ld_in_used priv + d);
     Some (rem, priv\<lparr>ld_in_used := u\<rparr>) }"

partial_function (option) main_loop :: "src_private \<Rightarrow> src_data \<Rightarrow> real \<Rightarrow> real \<Rightarrow> linear_data \<times> real list \<Rightarrow>
    (real \<times> real \<times> linear_data \<times> real list) option" where
  "main_loop psrc data input_index src_ratio s =
     (if ld_out_gen (fst s) < ld_out_count (fst s) \<and>
         of_int (ld_in_used (fst s)) + of_int (ld_channels (fst s)) * input_index < of_int (ld_in_count (fst s))
      then do {
        let src_ratio = vary_ratio psrc data (fst s) src_ratio;
        s \<leftarrow> put_frame (\<lambda>ch. data_in data (ld_in_used (fst s) - ld_channels (fst s) + int ch))
          (\<lambda>ch. data_in data (ld_in_used (fst s) + int ch)) input_index s;
        (input_index, priv) \<leftarrow> advance (input_index + 1 / src_ratio) (fst s);
        main_loop psrc data input_index src_ratio (priv, snd s) }
      else Some (input_index, src_ratio, s))"

text \<open>\<open>last_value\<close> becomes the frame that starts at an index of the input array.\<close>

definition keep_frame :: "src_data \<Rightarrow> int \<Rightarrow> linear_data \<Rightarrow> linear_data option" where
  "keep_frame data i priv = do {
     l \<leftarrow> each [0..<nat (ld_channels priv)] (\<lambda>ch l. do { v \<leftarrow> data_in data (i + int ch); put_last ch v l }) (ld_last_value priv);
     Some (priv\<lparr>ld_last_value := l\<rparr>) }"

definition linear_vari_process :: "src_private \<Rightarrow> src_data \<Rightarrow> (src_err \<times> src_private \<times> src_data) option" where
  "linear_vari_process psrc data =
     (if sd_input_frames data \<le> 0 then Some (SRC_ERR_NO_ERROR, psrc, data)
      else case sp_private_data psrc of
        None \<Rightarrow> Some (SRC_ERR_NO_PRIVATE, psrc, data)
      | Some priv \<Rightarrow> do {
          priv \<leftarrow> (if ld_reset priv then do { p \<leftarrow> keep_frame data 0 priv; Some (p\<lparr>ld_reset := False\<rparr>) } else Some priv);
          in_count \<leftarrow> c_long (sd_input_frames data * ld_channels priv);
          out_count \<leftarrow> c_long (sd_output_frames data * ld_channels priv);
          let priv = priv\<lparr>ld_in_count := in_count, ld_out_count := out_count, ld_in_used := 0, ld_out_gen := 0\<rparr>;
          if is_bad_src_ratio (sp_last_ratio psrc)
          then Some (SRC_ERR_BAD_INTERNAL_STATE, psrc\<lparr>sp_private_data := Some priv\<rparr>, data)
          else do {
            out \<leftarrow> sd_out data;
            (input_index, src_ratio, priv, out) \<leftarrow> lead_loop psrc data (sp_last_position psrc) (sp_last_ratio psrc) (priv, out);
            (input_index, priv) \<leftarrow> advance input_index priv;
            (input_index, src_ratio, priv, out) \<leftarrow> main_loop psrc data input_index src_ratio (priv, out);
            over \<leftarrow> c_div (ld_in_used priv - ld_in_count priv) (ld_channels priv);
            let (input_index, priv) = (if ld_in_count priv < ld_in_used priv
              then (input_index + of_int over, priv\<lparr>ld_in_used := ld_in_count priv\<rparr>) else (input_index, priv));
            priv \<leftarrow> (if 0 < ld_in_used priv then keep_frame data (ld_in_used priv - ld_channels priv) priv else Some priv);
            used \<leftarrow> c_div (ld_in_used priv) (ld_channels priv);
            gen \<leftarrow> c_div (ld_out_gen priv) (ld_channels priv);
            Some (SRC_ERR_NO_ERROR, psrc\<lparr>sp_last_position := input_index, sp_last_ratio := src_ratio, sp_private_data := Some priv\<rparr>,
              data\<lparr>sd_out := Some out, sd_input_frames_used := used, sd_output_frames_gen := gen\<rparr>) } })"

definition linear_reset :: "src_private \<Rightarrow> src_private" where
  "linear_reset psrc = (case sp_private_data psrc of
      None \<Rightarrow> psrc
    | Some priv \<Rightarrow> psrc\<lparr>sp_private_data := Some (priv\<lparr>ld_channels := sp_channels psrc, ld_reset := True,
        ld_last_value := replicate (nat (sp_channels psrc)) 0 @ drop (nat (sp_channels psrc)) (ld_last_value priv)\<rparr>)\<rparr>)"

definition SRC_LINEAR :: int where "SRC_LINEAR = 4"

text \<open>The array at the end of the structure has one element and the ones allocated with it.\<close>

definition linear_set_converter :: "allocator \<Rightarrow> nat \<Rightarrow> nat \<Rightarrow> src_private \<Rightarrow> int \<Rightarrow> src_err \<times> src_private" where
  "linear_set_converter mal k sz psrc src_enum =
     (if src_enum \<noteq> SRC_LINEAR then (SRC_ERR_BAD_CONVERTER, psrc)
      else if mal k (sz + nat (sp_channels psrc) * 4) = None then (SRC_ERR_MALLOC_FAILED, psrc\<lparr>sp_private_data := None\<rparr>)
      else (SRC_ERR_NO_ERROR, linear_reset (psrc\<lparr>sp_process := Some Linear, sp_private_data :=
        Some \<lparr>ld_channels = sp_channels psrc, ld_reset = False, ld_in_count = 0, ld_in_used = 0, ld_out_count = 0, ld_out_gen = 0,
          ld_last_value = replicate (1 + nat (sp_channels psrc)) 0\<rparr>\<rparr>)))"

section \<open>The common part\<close>

definition src_reset :: "src_private option \<Rightarrow> src_err \<times> src_private option" where
  "src_reset state = (case state of
      None \<Rightarrow> (SRC_ERR_BAD_STATE, None)
    | Some psrc \<Rightarrow> (SRC_ERR_NO_ERROR, Some ((if sp_process psrc = None then psrc else linear_reset psrc)
        \<lparr>sp_last_position := 0, sp_last_ratio := 0, sp_error := SRC_ERR_NO_ERROR\<rparr>)))"

text \<open>The other converters, sinc and zero order hold, turn down a request for the linear one, and all that they have set is
  set again. They are not modelled: a request for one of them has no result.\<close>

definition psrc_set_converter :: "allocator \<Rightarrow> nat \<Rightarrow> nat \<Rightarrow> src_private \<Rightarrow> int \<Rightarrow> (src_err \<times> src_private) option" where
  "psrc_set_converter mal k sz psrc converter_type =
     (if 0 \<le> converter_type \<and> converter_type < SRC_LINEAR then None
      else Some (let (err, p) = linear_set_converter mal k sz psrc converter_type
        in if err = SRC_ERR_NO_ERROR then (SRC_ERR_NO_ERROR, p) else (SRC_ERR_BAD_CONVERTER, p)))"

text \<open>\<open>sizes\<close> are those of the two structures; the result comes with the error.\<close>

definition lib_src_new :: "allocator \<Rightarrow> nat \<Rightarrow> nat \<times> nat \<Rightarrow> int \<Rightarrow> int \<Rightarrow> (src_err \<times> src_private option) option" where
  "lib_src_new mal k sizes converter_type channels =
     (if channels < 1 then Some (SRC_ERR_BAD_CHANNEL_COUNT, None)
      else if mal k (fst sizes) = None then Some (SRC_ERR_MALLOC_FAILED, None)
      else do {
        (err, psrc) \<leftarrow> psrc_set_converter mal (k + 1) (snd sizes) \<lparr>sp_last_ratio = 0, sp_last_position = 0, sp_error = SRC_ERR_NO_ERROR,
          sp_channels = channels, sp_mode = SRC_MODE_PROCESS, sp_private_data = None, sp_process = None\<rparr> converter_type;
        let (err, state) = (if err \<noteq> SRC_ERR_NO_ERROR then (SRC_ERR_BAD_CONVERTER, None) else (SRC_ERR_NO_ERROR, Some psrc));
        Some (err, snd (src_reset state)) })"

definition src_delete :: "src_private option \<Rightarrow> src_private option" where
  "src_delete state = None"

text \<open>For the linear converter the constant and the varying process are one function, so the comparison of the ratios that
  selects between them is left out.\<close>

definition lib_src_process :: "src_private option \<Rightarrow> src_data option \<Rightarrow>
    (src_err \<times> src_private option \<times> src_data option) option" where
  "lib_src_process state data = (case (state, data) of
      (None, _) \<Rightarrow> Some (SRC_ERR_BAD_STATE, state, data)
    | (Some psrc, _) \<Rightarrow>
        if sp_process psrc = None then Some (SRC_ERR_BAD_PROC_PTR, state, data)
        else if sp_mode psrc \<noteq> SRC_MODE_PROCESS then Some (SRC_ERR_BAD_MODE, state, data)
        else case data of None \<Rightarrow> Some (SRC_ERR_BAD_DATA, state, data) | Some d \<Rightarrow>
          if sd_in d = None \<or> sd_out d = None then Some (SRC_ERR_BAD_DATA_PTR, state, data)
          else if is_bad_src_ratio (sd_src_ratio d) then Some (SRC_ERR_BAD_SRC_RATIO, state, data)
          else
            let d = d\<lparr>sd_input_frames := max 0 (sd_input_frames d), sd_output_frames := max 0 (sd_output_frames d)\<rparr> in
            if (if sd_in_at d < sd_out_at d then sd_out_at d < sd_in_at d + sd_input_frames d * sp_channels psrc
                else sd_in_at d < sd_out_at d + sd_output_frames d * sp_channels psrc)
            then Some (SRC_ERR_DATA_OVERLAP, state, Some d)
            else do {
              let d = d\<lparr>sd_input_frames_used := 0, sd_output_frames_gen := 0\<rparr>;
              let psrc = (if sp_last_ratio psrc < 1 / SRC_MAX_RATIO then psrc\<lparr>sp_last_ratio := sd_src_ratio d\<rparr> else psrc);
              (err, psrc, d) \<leftarrow> linear_vari_process psrc d;
              Some (err, Some psrc, Some d) })"

definition src_set_ratio :: "src_private option \<Rightarrow> real \<Rightarrow> src_err \<times> src_private option" where
  "src_set_ratio state new_ratio = (case state of
      None \<Rightarrow> (SRC_ERR_BAD_STATE, None)
    | Some psrc \<Rightarrow> if sp_process psrc = None then (SRC_ERR_BAD_PROC_PTR, state)
        else if is_bad_src_ratio new_ratio then (SRC_ERR_BAD_SRC_RATIO, state)
        else (SRC_ERR_NO_ERROR, Some (psrc\<lparr>sp_last_ratio := new_ratio\<rparr>)))"

definition src_is_valid_ratio :: "real \<Rightarrow> bool" where
  "src_is_valid_ratio ratio \<longleftrightarrow> \<not> is_bad_src_ratio ratio"

definition src_error :: "src_private option \<Rightarrow> src_err" where
  "src_error state = (case state of None \<Rightarrow> SRC_ERR_NO_ERROR | Some psrc \<Rightarrow> sp_error psrc)"

text \<open>One buffer at once.\<close>

definition src_simple :: "allocator \<Rightarrow> nat \<Rightarrow> nat \<times> nat \<Rightarrow> src_data \<Rightarrow> int \<Rightarrow> int \<Rightarrow> (src_err \<times> src_data) option" where
  "src_simple mal k sizes data converter channels = do {
     (err, state) \<leftarrow> lib_src_new mal k sizes converter channels;
     if state = None then Some (err, data)
     else do {
       (err, state, d) \<leftarrow> lib_src_process state (Some (data\<lparr>sd_end_of_input := True\<rparr>));
       d \<leftarrow> d;
       Some (err, d) } }"

section \<open>Facts on numbers and frames\<close>

lemma fmod_one_frac: "fmod_one x = frac x"
proof -
  have f: "of_int \<lfloor>x\<rfloor> \<le> x" "x < of_int \<lfloor>x\<rfloor> + 1" by linarith+
  show ?thesis
  proof (cases "x - of_int \<lfloor>x\<rfloor> < 1 / 2 \<or> x - of_int \<lfloor>x\<rfloor> = 1 / 2 \<and> even \<lfloor>x\<rfloor>")
    case True
    then have "lrint x = \<lfloor>x\<rfloor>" by (auto simp: lrint_def Let_def)
    then show ?thesis by (simp add: fmod_one_def frac_def Let_def not_less)
  next
    case False
    then have "lrint x = \<lfloor>x\<rfloor> + 1" by (auto simp: lrint_def Let_def)
    then show ?thesis using f by (simp add: fmod_one_def frac_def Let_def)
  qed
qed

lemma lrint_of_int [simp]: "lrint (of_int n) = n"
  by (simp add: lrint_def)

lemma lrint_floor: "lrint (x - frac x) = \<lfloor>x\<rfloor>"
  by (simp add: frac_def)

lemma c_long_small: "0 \<le> x \<Longrightarrow> x \<le> 4611686018427387904 \<Longrightarrow> c_long x = Some x"
  by (simp add: c_long_def)

lemma put_out_ok: "ld_out_gen p = int g \<Longrightarrow> g < length out \<Longrightarrow>
    put_out v (p, out) = Some (p\<lparr>ld_out_gen := int (Suc g)\<rparr>, out[g := v])"
  by (simp add: put_out_def)

text \<open>A frame goes behind the ones that are there.\<close>

lemma put_frame_ok:
  assumes "ld_channels p = int c" "ld_out_gen p = int g" "g + c \<le> length out"
    "\<And>ch. ch < c \<Longrightarrow> from ch = Some (a ch) \<and> to ch = Some (b ch)"
  shows "\<exists>out'. put_frame from to x (p, out) = Some (p\<lparr>ld_out_gen := int (g + c)\<rparr>, out') \<and> length out' = length out \<and>
    (\<forall>i < length out. out' ! i = (if g \<le> i \<and> i < g + c then a (i - g) + x * (b (i - g) - a (i - g)) else out ! i))"
proof -
  let ?P = "\<lambda>k s. fst s = p\<lparr>ld_out_gen := int (g + k)\<rparr> \<and> length (snd s) = length out \<and>
    (\<forall>i < length out. snd s ! i = (if g \<le> i \<and> i < g + k then a (i - g) + x * (b (i - g) - a (i - g)) else out ! i))"
  have "\<exists>s'. each [0..<c] (\<lambda>ch s. do { a \<leftarrow> from ch; b \<leftarrow> to ch; put_out (a + x * (b - a)) s }) (p, out) = Some s' \<and> ?P c s'"
  proof (rule each_upt [where P = ?P])
    fix k s
    assume k: "k < c" "?P k s"
    obtain q o' where s: "s = (q, o')" by fastforce
    from k assms(3) have l: "g + k < length o'" "ld_out_gen q = int (g + k)" by (auto simp: s)
    have "put_out v s = Some (p\<lparr>ld_out_gen := int (g + Suc k)\<rparr>, o'[g + k := v])" for v
      using k(2) put_out_ok [OF l(2,1)] by (simp add: s)
    with k l assms(4) [OF k(1)]
    show "\<exists>s'. (do { a \<leftarrow> from k; b \<leftarrow> to k; put_out (a + x * (b - a)) s }) = Some s' \<and> ?P (Suc k) s'"
      by (auto simp: s nth_list_update less_Suc_eq)
  qed (use assms(2) in simp)
  then show ?thesis using assms(1) by (auto simp: put_frame_def)
qed

lemma keep_frame_ok:
  assumes "ld_channels p = int c" "c \<le> length (ld_last_value p)" "\<And>ch. ch < c \<Longrightarrow> data_in d (i + int ch) = Some (v ch)"
  shows "keep_frame d i p = Some (p\<lparr>ld_last_value := map v [0..<c] @ drop c (ld_last_value p)\<rparr>)"
proof -
  let ?l = "ld_last_value p"
  have "each [0..<k] (\<lambda>ch l. do { v \<leftarrow> data_in d (i + int ch); put_last ch v l }) ?l = Some (map v [0..<k] @ drop k ?l)" if "k \<le> c" for k
    using that
  proof (induction k)
    case (Suc k)
    then have "k < length ?l" using assms(2) by simp
    then have "(map v [0..<k] @ drop k ?l)[k := v k] = map v [0..<Suc k] @ drop (Suc k) ?l"
      by (simp add: list_update_append Cons_nth_drop_Suc [symmetric])
    with Suc assms(2) assms(3) [of k] show ?case by (simp add: each_append put_last_def)
  qed simp
  from this [of c] assms(1) show ?thesis by (simp add: keep_frame_def)
qed

section \<open>Where the output frames lie\<close>

text \<open>The stream at a place, channel by channel: place 0 is the frame kept from the last call, and the frames of the input follow.\<close>

definition signal :: "real list \<Rightarrow> real list \<Rightarrow> nat \<Rightarrow> real \<Rightarrow> nat \<Rightarrow> real" where
  "signal l inp c x ch = (let j = nat \<lfloor>x\<rfloor>; a = (if j = 0 then l ! ch else inp ! ((j - 1) * c + ch)) in
     a + frac x * (inp ! (j * c + ch) - a))"

definition sample_ratio :: "src_private \<Rightarrow> src_data \<Rightarrow> nat \<Rightarrow> real" where
  "sample_ratio psrc data k = (if SRC_MIN_RATIO_DIFF < \<bar>sp_last_ratio psrc - sd_src_ratio data\<bar>
     then sp_last_ratio psrc + real k * (sd_src_ratio data - sp_last_ratio psrc) / of_int (sd_output_frames data)
     else sp_last_ratio psrc)"

definition ratio_before :: "src_private \<Rightarrow> src_data \<Rightarrow> nat \<Rightarrow> real" where
  "ratio_before psrc data k = (if k = 0 then sp_last_ratio psrc else sample_ratio psrc data (k - 1))"

primrec sample_pos :: "src_private \<Rightarrow> src_data \<Rightarrow> nat \<Rightarrow> real" where
  "sample_pos psrc data 0 = sp_last_position psrc"
| "sample_pos psrc data (Suc k) = sample_pos psrc data k + 1 / sample_ratio psrc data k"

definition call_ok :: "src_private \<Rightarrow> src_data \<Rightarrow> nat \<Rightarrow> nat \<Rightarrow> nat \<Rightarrow> real list \<Rightarrow> bool" where
  "call_ok psrc data c n m inp \<longleftrightarrow> 0 < c \<and> c \<le> 1048576 \<and> sd_in data = Some inp \<and> n * c \<le> length inp \<and> n * c \<le> 2147483648 \<and>
     m * c \<le> 2147483648 \<and> sd_output_frames data = int m \<and> \<not> is_bad_src_ratio (sp_last_ratio psrc) \<and>
     \<not> is_bad_src_ratio (sd_src_ratio data) \<and> 0 \<le> sp_last_position psrc \<and> sp_last_position psrc \<le> 2147483648"

lemma good_ratio: "\<not> is_bad_src_ratio r \<longleftrightarrow> 1 / 256 \<le> r \<and> r \<le> 256"
  by (auto simp: is_bad_src_ratio_def SRC_MAX_RATIO_def)

lemma between:
  assumes "0 \<le> t" "t \<le> (1::real)" "lo \<le> a" "a \<le> hi" "lo \<le> b" "b \<le> hi"
  shows "lo \<le> a + t * (b - a)" "a + t * (b - a) \<le> hi"
proof -
  have e: "a + t * (b - a) = (1 - t) * a + t * b" by algebra
  have "(1 - t) * lo + t * lo \<le> (1 - t) * a + t * b" using assms by (intro add_mono mult_left_mono) auto
  then have "lo \<le> (1 - t) * a + t * b" by argo
  moreover have "(1 - t) * a + t * b \<le> (1 - t) * hi + t * hi" using assms by (intro add_mono mult_left_mono) auto
  then have "(1 - t) * a + t * b \<le> hi" by argo
  ultimately show "lo \<le> a + t * (b - a)" "a + t * (b - a) \<le> hi" unfolding e by simp_all
qed

lemma sample_ratio_good:
  assumes "call_ok psrc data c n m inp" "k \<le> m"
  shows "1 / 256 \<le> sample_ratio psrc data k" "sample_ratio psrc data k \<le> 256"
proof -
  let ?l = "sp_last_ratio psrc" and ?r = "sd_src_ratio data"
  have g: "1 / 256 \<le> ?l" "?l \<le> 256" "1 / 256 \<le> ?r" "?r \<le> 256" and m: "sd_output_frames data = int m"
    using assms(1) by (simp_all add: call_ok_def good_ratio)
  have t: "0 \<le> real k / real m" "real k / real m \<le> 1" using assms(2) by (auto simp: divide_le_eq_1)
  from between [OF t g] g show "1 / 256 \<le> sample_ratio psrc data k" "sample_ratio psrc data k \<le> 256"
    by (simp_all add: sample_ratio_def m)
qed

lemma sample_step:
  assumes "call_ok psrc data c n m inp" "k \<le> m"
  shows "sample_pos psrc data k < sample_pos psrc data (Suc k)" "sample_pos psrc data (Suc k) \<le> sample_pos psrc data k + 256"
proof -
  note g = sample_ratio_good [OF assms]
  then have "0 < sample_ratio psrc data k" by linarith
  then show "sample_pos psrc data k < sample_pos psrc data (Suc k)" by simp
  have "1 / sample_ratio psrc data k \<le> 1 / (1 / 256)" using g(1) by (intro divide_left_mono) simp_all
  then show "sample_pos psrc data (Suc k) \<le> sample_pos psrc data k + 256" by simp
qed

lemma sample_pos_nonneg:
  assumes "call_ok psrc data c n m inp" "k \<le> Suc m"
  shows "0 \<le> sample_pos psrc data k"
  using assms(2)
proof (induction k)
  case 0
  then show ?case using assms(1) by (simp add: call_ok_def)
next
  case (Suc k)
  then show ?case using sample_step(1) [OF assms(1), of k] by simp
qed

lemma sample_pos_mono:
  assumes "call_ok psrc data c n m inp" "j < k" "k \<le> Suc m"
  shows "sample_pos psrc data j < sample_pos psrc data k"
  using assms(2,3)
proof (induction k)
  case (Suc k)
  have "sample_pos psrc data k < sample_pos psrc data (Suc k)" by (rule sample_step [OF assms(1)]) (use Suc.prems in simp)
  with Suc show ?case by (cases "j = k") (auto simp del: sample_pos.simps)
qed simp

section \<open>The loops\<close>

text \<open>After \<open>k\<close> frames, with \<open>u\<close> frames of the input behind the place.\<close>

definition made :: "src_private \<Rightarrow> src_data \<Rightarrow> nat \<Rightarrow> real list \<Rightarrow> real list \<Rightarrow> linear_data \<Rightarrow> real list \<Rightarrow> nat \<Rightarrow> nat \<Rightarrow> linear_data \<times> real list \<Rightarrow> bool" where
  "made psrc data c l inp p0 out0 k u s \<longleftrightarrow> fst s = p0\<lparr>ld_in_used := int (u * c), ld_out_gen := int (k * c)\<rparr> \<and>
     length (snd s) = length out0 \<and>
     (\<forall>i < length out0. snd s ! i = (if i < k * c then signal l inp c (sample_pos psrc data (i div c)) (i mod c) else out0 ! i))"

definition counts :: "linear_data \<Rightarrow> nat \<Rightarrow> nat \<Rightarrow> nat \<Rightarrow> bool" where
  "counts p c n m \<longleftrightarrow> ld_channels p = int c \<and> ld_in_count p = int (n * c) \<and> ld_out_count p = int (m * c) \<and> c \<le> length (ld_last_value p)"

lemma vary_sample_ratio:
  assumes "call_ok psrc data c n m inp" "counts p c n m" "ld_out_gen p = int (k * c)" "k < m"
  shows "vary_ratio psrc data p (ratio_before psrc data k) = sample_ratio psrc data k"
proof -
  have "0 < c" "0 < m" "sd_output_frames data = int m" using assms(1,4) by (simp_all add: call_ok_def)
  with assms(2,3) show ?thesis
    by (auto simp: vary_ratio_def sample_ratio_def ratio_before_def counts_def)
qed

lemma made_frame:
  assumes "made psrc data c l inp p0 out0 k u (p, out)" "(Suc k) * c \<le> length out0" "ld_channels p0 = int c" "0 < c"
    "\<And>ch. ch < c \<Longrightarrow> from ch = Some (a ch) \<and> to ch = Some (b ch) \<and> signal l inp c (sample_pos psrc data k) ch = a ch + x * (b ch - a ch)"
  shows "\<exists>s'. put_frame from to x (p, out) = Some s' \<and> made psrc data c l inp p0 out0 (Suc k) u s'"
proof -
  from assms(1) have p: "p = p0\<lparr>ld_in_used := int (u * c), ld_out_gen := int (k * c)\<rparr>" "length out = length out0"
    "\<forall>i < length out0. out ! i = (if i < k * c then signal l inp c (sample_pos psrc data (i div c)) (i mod c) else out0 ! i)"
    by (simp_all add: made_def)
  have "k * c + c \<le> length out" using assms(2) p(2) by simp
  from put_frame_ok [of p c "k * c" out "from" a "to" b x, OF _ _ this] assms(3,5) p(1) obtain out' where
    o: "put_frame from to x (p, out) = Some (p\<lparr>ld_out_gen := int (k * c + c)\<rparr>, out')" "length out' = length out"
    "\<forall>i < length out. out' ! i = (if k * c \<le> i \<and> i < k * c + c then a (i - k * c) + x * (b (i - k * c) - a (i - k * c)) else out ! i)" by auto
  have "out' ! i = (if i < Suc k * c then signal l inp c (sample_pos psrc data (i div c)) (i mod c) else out0 ! i)"
    if i: "i < length out0" for i
  proof (cases "k * c \<le> i \<and> i < k * c + c")
    case True
    then obtain ch where "i = k * c + ch" "ch < c" by (metis add_less_cancel_left le_Suc_ex)
    then have "i div c = k" "i mod c = i - k * c" "i - k * c < c" using assms(4) by simp_all
    with True o(3) i p(2) assms(5) [of "i - k * c"] show ?thesis by (simp add: add.commute)
  next
    case False
    with o(3) p(2,3) i show ?thesis by auto
  qed
  with o(1,2) p(1,2) show ?thesis by (auto simp: made_def add.commute)
qed

lemma made_counts:
  "made psrc data c l inp p0 out0 k u s \<Longrightarrow> counts p0 c n m \<Longrightarrow> counts (fst s) c n m \<and> ld_out_gen (fst s) = int (k * c) \<and>
     ld_in_used (fst s) = int (u * c) \<and> ld_last_value (fst s) = ld_last_value p0"
  by (simp add: made_def counts_def)

lemma scaled_less: "0 < c \<Longrightarrow> real (u * c) + real c * x < real (n * c) \<longleftrightarrow> real u + x < real n"
proof -
  assume c: "0 < c"
  have "real (u * c) + real c * x = real c * (real u + x)" "real (n * c) = real c * real n" by (simp_all add: algebra_simps)
  with c show ?thesis by (simp only: mult_less_cancel_left_pos of_nat_0_less_iff)
qed

lemma data_in_at: "sd_in d = Some inp \<Longrightarrow> i < length inp \<Longrightarrow> data_in d (int i) = Some (inp ! i)"
  by (simp add: data_in_def)

lemma row_less: "u < n \<Longrightarrow> ch < c \<Longrightarrow> u * c + ch < n * (c::nat)"
proof -
  assume "u < n" "ch < c"
  then have "u * c + ch < Suc u * c" by simp
  also have "\<dots> \<le> n * c" using \<open>u < n\<close> by (intro mult_right_mono) simp_all
  finally show ?thesis .
qed

lemma lead_loop_ok:
  assumes "call_ok psrc data c n m inp" "counts p0 c n m" "m * c \<le> length out0" "2 \<le> n \<Longrightarrow> l = ld_last_value p0"
    "made psrc data c l inp p0 out0 k 0 s" "k \<le> m"
  shows "\<exists>k' s'. lead_loop psrc data (sample_pos psrc data k) (ratio_before psrc data k) s =
      Some (sample_pos psrc data k', ratio_before psrc data k', s') \<and> made psrc data c l inp p0 out0 k' 0 s' \<and> k \<le> k' \<and> k' \<le> m \<and>
    (k' = m \<or> 1 \<le> sample_pos psrc data k' \<or> real n \<le> 1 + sample_pos psrc data k') \<and> (\<forall>j. k \<le> j \<and> j < k' \<longrightarrow> sample_pos psrc data j < 1)"
  using assms(5,6)
proof (induction "m - k" arbitrary: k s rule: less_induct)
  case less
  let ?x = "sample_pos psrc data k"
  have c: "0 < c" and inp: "sd_in data = Some inp" "n * c \<le> length inp" using assms(1) by (simp_all add: call_ok_def)
  note mc = made_counts [OF less.prems(1) assms(2)]
  have x0: "0 \<le> ?x" using sample_pos_nonneg [OF assms(1), of k] less.prems(2) by simp
  have guard: "(?x < 1 \<and> ld_out_gen (fst s) < ld_out_count (fst s) \<and>
      of_int (ld_in_used (fst s)) + of_int (ld_channels (fst s)) * (1 + ?x) < (of_int (ld_in_count (fst s)) :: real)) \<longleftrightarrow>
      ?x < 1 \<and> k < m \<and> 1 + ?x < real n"
    using mc c scaled_less [OF c, of 0 "1 + ?x" n] by (simp add: counts_def flip: of_nat_mult)
  show ?case
  proof (cases "?x < 1 \<and> k < m \<and> 1 + ?x < real n")
    case False
    then have "lead_loop psrc data ?x (ratio_before psrc data k) s = Some (?x, ratio_before psrc data k, s)"
      by (subst lead_loop.simps) (simp only: guard if_False)
    with False less.prems show ?thesis by (intro exI [of _ k] exI [of _ s]) auto
  next
    case True
    then have n: "2 \<le> n" using x0 by linarith
    from assms(4) [OF n] have l: "l = ld_last_value p0" .
    let ?l = "ld_last_value (fst s)"
    have v: "vary_ratio psrc data (fst s) (ratio_before psrc data k) = sample_ratio psrc data k"
      using vary_sample_ratio [OF assms(1)] mc True by blast
    have m1: "Suc k * c \<le> length out0" using True assms(3) by (meson Suc_leI le_trans mult_le_mono1)
    have fx: "\<lfloor>?x\<rfloor> = 0" "frac ?x = ?x" using x0 True by (simp_all add: floor_eq_iff frac_eq)
    obtain p out where s: "s = (p, out)" by fastforce
    have "\<exists>s'. put_frame (\<lambda>ch. if ch < length ?l then Some (?l ! ch) else None) (\<lambda>ch. data_in data (int ch)) ?x (p, out) = Some s' \<and>
        made psrc data c l inp p0 out0 (Suc k) 0 s'"
    proof (rule made_frame [OF less.prems(1) [unfolded s] m1 _ c, where a = "\<lambda>ch. ?l ! ch" and b = "\<lambda>ch. inp ! ch"])
      show "ld_channels p0 = int c" using assms(2) by (simp add: counts_def)
      fix ch assume ch: "ch < c"
      have cl: "ch < length ?l" using mc ch by (auto simp: counts_def)
      have "0 * c + ch < n * c" using row_less [of 0 n ch c] ch n by simp
      then have "ch < length inp" using inp(2) by linarith
      then show "(if ch < length ?l then Some (?l ! ch) else None) = Some (?l ! ch) \<and> data_in data (int ch) = Some (inp ! ch) \<and>
        signal l inp c ?x ch = ?l ! ch + ?x * (inp ! ch - ?l ! ch)"
        using cl mc data_in_at [OF inp(1)] fx by (simp add: signal_def l Let_def)
    qed
    then obtain s1 where s1: "put_frame (\<lambda>ch. if ch < length ?l then Some (?l ! ch) else None) (\<lambda>ch. data_in data (int ch)) ?x s = Some s1"
      "made psrc data c l inp p0 out0 (Suc k) 0 s1" by (auto simp: s)
    have step: "lead_loop psrc data ?x (ratio_before psrc data k) s =
        lead_loop psrc data (sample_pos psrc data (Suc k)) (ratio_before psrc data (Suc k)) s1"
      by (subst lead_loop.simps, subst if_P [OF guard [THEN iffD2, OF True]], unfold v Let_def s1(1)) (simp add: ratio_before_def)
    have "m - Suc k < m - k" "Suc k \<le> m" using True by linarith+
    from less.hyps [OF this(1) s1(2) this(2)] obtain k' s' where r:
      "lead_loop psrc data (sample_pos psrc data (Suc k)) (ratio_before psrc data (Suc k)) s1 = Some (sample_pos psrc data k', ratio_before psrc data k', s')"
      "made psrc data c l inp p0 out0 k' 0 s'" "Suc k \<le> k'" "k' \<le> m"
      "k' = m \<or> 1 \<le> sample_pos psrc data k' \<or> real n \<le> 1 + sample_pos psrc data k'" "\<forall>j. Suc k \<le> j \<and> j < k' \<longrightarrow> sample_pos psrc data j < 1" by blast
    have "\<forall>j. k \<le> j \<and> j < k' \<longrightarrow> sample_pos psrc data j < 1" using r(6) True by (metis le_antisym not_less_eq_eq)
    with r(2-5) show ?thesis unfolding step r(1) by (intro exI [of _ k'] exI [of _ s']) simp
  qed
qed

lemma advance_ok:
  assumes "ld_channels p = int c" "ld_in_used p = int (u * c)" "0 \<le> x" "x \<le> 8589934592" "c \<le> 1048576" "u * c \<le> 9007199254740992"
  shows "advance x p = Some (frac x, p\<lparr>ld_in_used := int ((u + nat \<lfloor>x\<rfloor>) * c)\<rparr>)"
proof -
  have f: "0 \<le> \<lfloor>x\<rfloor>" "\<lfloor>x\<rfloor> \<le> 8589934592" using assms(3,4) by (simp_all add: floor_le_iff)
  then have "int c * \<lfloor>x\<rfloor> \<le> 1048576 * 8589934592" using assms(5) by (intro mult_mono) simp_all
  moreover have "0 \<le> int c * \<lfloor>x\<rfloor>" using f by simp
  moreover have "int (u * c) \<le> 9007199254740992" using assms(6) by linarith
  moreover have "int c * \<lfloor>x\<rfloor> \<le> 4611686018427387904" "int (u * c) + int c * \<lfloor>x\<rfloor> \<le> 4611686018427387904" using calculation by linarith+
  ultimately have "c_long (int c * \<lfloor>x\<rfloor>) = Some (int c * \<lfloor>x\<rfloor>)" "c_long (int (u * c) + int c * \<lfloor>x\<rfloor>) = Some (int (u * c) + int c * \<lfloor>x\<rfloor>)"
    by (simp_all only: c_long_small add_nonneg_nonneg of_nat_0_le_iff)
  moreover have "int (u * c) + int c * \<lfloor>x\<rfloor> = int ((u + nat \<lfloor>x\<rfloor>) * c)" using f by (simp add: algebra_simps)
  ultimately show ?thesis using assms(1,2) by (simp add: advance_def fmod_one_frac lrint_floor Let_def)
qed

text \<open>What the main loop reads as the frame in front of the input: with one frame of input, memory that is not the input's.\<close>

definition front_frame :: "src_data \<Rightarrow> nat \<Rightarrow> real list \<Rightarrow> bool" where
  "front_frame data c l \<longleftrightarrow> c \<le> length (sd_front data) \<and> l = drop (length (sd_front data) - c) (sd_front data)"

lemma made_used: "made psrc data c l inp p0 out0 k u (p, out) \<Longrightarrow>
    made psrc data c l inp p0 out0 k v (p\<lparr>ld_in_used := int (v * c)\<rparr>, out)"
  by (simp add: made_def)

lemma main_loop_ok:
  assumes "call_ok psrc data c n m inp" "counts p0 c n m" "m * c \<le> length out0"
    "made psrc data c l inp p0 out0 k u s" "k \<le> m" "real u + x = sample_pos psrc data k" "0 \<le> x" "x < 1"
    "k < m \<Longrightarrow> u = 0 \<Longrightarrow> n = 1 \<and> front_frame data c l" "u \<le> n + 8589934592"
  shows "\<exists>k' u' x' s'. main_loop psrc data x (ratio_before psrc data k) s = Some (x', ratio_before psrc data k', s') \<and>
    made psrc data c l inp p0 out0 k' u' s' \<and> k \<le> k' \<and> k' \<le> m \<and> real u' + x' = sample_pos psrc data k' \<and> 0 \<le> x' \<and> x' < 1 \<and>
    (k' = m \<or> real n \<le> sample_pos psrc data k') \<and> (\<forall>j. k \<le> j \<and> j < k' \<longrightarrow> sample_pos psrc data j < real n)"
  using assms(4-)
proof (induction "m - k" arbitrary: k u x s rule: less_induct)
  case less
  have c: "0 < c" "c \<le> 1048576" and inp: "sd_in data = Some inp" "n * c \<le> length inp" and nc: "n * c \<le> 2147483648"
    using assms(1) by (simp_all add: call_ok_def)
  note mc = made_counts [OF less.prems(1) assms(2)]
  have guard: "(ld_out_gen (fst s) < ld_out_count (fst s) \<and>
      of_int (ld_in_used (fst s)) + of_int (ld_channels (fst s)) * x < (of_int (ld_in_count (fst s)) :: real)) \<longleftrightarrow>
      k < m \<and> sample_pos psrc data k < real n"
    using mc c scaled_less [OF c(1), of u x n] less.prems(3) by (simp add: counts_def flip: of_nat_mult)
  show ?case
  proof (cases "k < m \<and> sample_pos psrc data k < real n")
    case False
    then have "main_loop psrc data x (ratio_before psrc data k) s = Some (x, ratio_before psrc data k, s)"
      by (subst main_loop.simps) (simp only: guard if_False)
    with False less.prems show ?thesis by (intro exI [of _ k] exI [of _ u] exI [of _ x] exI [of _ s]) auto
  next
    case True
    obtain p out where s: "s = (p, out)" by fastforce
    have v: "vary_ratio psrc data (fst s) (ratio_before psrc data k) = sample_ratio psrc data k"
      using vary_sample_ratio [OF assms(1)] mc True by blast
    have m1: "Suc k * c \<le> length out0" using True assms(3) by (meson Suc_leI le_trans mult_le_mono1)
    have un: "u < n" using True less.prems(3,4) by linarith
    have fx: "nat \<lfloor>sample_pos psrc data k\<rfloor> = u" "frac (sample_pos psrc data k) = x"
    proof -
      have "\<lfloor>sample_pos psrc data k\<rfloor> = int u" using less.prems(3-5) by (simp add: floor_eq_iff)
      then show "nat \<lfloor>sample_pos psrc data k\<rfloor> = u" "frac (sample_pos psrc data k) = x" using less.prems(3) by (simp_all add: frac_def)
    qed
    let ?from = "\<lambda>ch. data_in data (ld_in_used (fst s) - ld_channels (fst s) + int ch)" and ?to = "\<lambda>ch. data_in data (ld_in_used (fst s) + int ch)"
    let ?a = "\<lambda>ch. if u = 0 then l ! ch else inp ! ((u - 1) * c + ch)"
    have fin: "ld_in_used (fst s) = int (u * c)" "ld_channels (fst s) = int c" using mc by (simp_all add: counts_def)
    have "\<exists>s'. put_frame ?from ?to x (p, out) = Some s' \<and> made psrc data c l inp p0 out0 (Suc k) u s'"
    proof (rule made_frame [OF less.prems(1) [unfolded s] m1 _ c(1), where a = ?a and b = "\<lambda>ch. inp ! (u * c + ch)"])
      show "ld_channels p0 = int c" using assms(2) by (simp add: counts_def)
      fix ch assume ch: "ch < c"
      have "u * c + ch < length inp" using row_less [OF un ch] inp(2) by linarith
      then have t: "data_in data (int (u * c) + int ch) = Some (inp ! (u * c + ch))" using data_in_at [OF inp(1)] by (metis of_nat_add)
      have f: "data_in data (int (u * c) - int c + int ch) = Some (?a ch)"
      proof (cases u)
        case 0
        with less.prems(6) True have fr: "c \<le> length (sd_front data)" "l = drop (length (sd_front data) - c) (sd_front data)"
          by (simp_all add: front_frame_def)
        let ?lf = "length (sd_front data)"
        have "nat (int c - int ch) = c - ch" using ch by simp
        moreover have "?lf - (c - ch) = (?lf - c) + ch" using ch fr(1) by simp
        ultimately show ?thesis using 0 ch fr inp(1) by (simp add: data_in_def nth_drop)
      next
        case (Suc v)
        then have "int (u * c) - int c + int ch = int (v * c + ch)" "v * c + ch < length inp"
          using row_less [of v n ch c] un ch inp(2) by (simp_all add: algebra_simps)
        with Suc data_in_at [OF inp(1), of "v * c + ch"] show ?thesis by simp
      qed
      show "?from ch = Some (?a ch) \<and> ?to ch = Some (inp ! (u * c + ch)) \<and>
        signal l inp c (sample_pos psrc data k) ch = ?a ch + x * (inp ! (u * c + ch) - ?a ch)"
        using t f fx by (simp only: fin signal_def Let_def)
    qed
    then obtain p1 out1 where s1: "put_frame ?from ?to x s = Some (p1, out1)"
      "made psrc data c l inp p0 out0 (Suc k) u (p1, out1)" by (auto simp: s)
    let ?y = "x + 1 / sample_ratio psrc data k" and ?w = "u + nat \<lfloor>x + 1 / sample_ratio psrc data k\<rfloor>"
    have st: "sample_pos psrc data k < sample_pos psrc data (Suc k)" "sample_pos psrc data (Suc k) \<le> sample_pos psrc data k + 256"
      using sample_step [OF assms(1), of k] True by simp_all
    then have y: "0 \<le> ?y" "?y \<le> 257" using less.prems(3-5) by simp_all
    have "u * c \<le> n * c" using un by (intro mult_right_mono) simp_all
    with nc have uc: "u * c \<le> 9007199254740992" by linarith
    have "?y \<le> 8589934592" using y(2) by linarith
    from advance_ok [OF _ _ y(1) this c(2) uc] made_counts [OF s1(2) assms(2)]
    have ad: "advance ?y p1 = Some (frac ?y, p1\<lparr>ld_in_used := int (?w * c)\<rparr>)" by (simp add: counts_def)
    have fl: "real (nat \<lfloor>?y\<rfloor>) = of_int \<lfloor>?y\<rfloor>" using y(1) by simp
    have pos: "real ?w + frac ?y = sample_pos psrc data (Suc k)" using less.prems(3) fl by (simp add: frac_def)
    have step: "main_loop psrc data x (ratio_before psrc data k) s =
        main_loop psrc data (frac ?y) (ratio_before psrc data (Suc k)) (p1\<lparr>ld_in_used := int (?w * c)\<rparr>, out1)"
      by (subst main_loop.simps, subst if_P [OF guard [THEN iffD2, OF True]], unfold v Let_def s1(1))
        (simp add: ratio_before_def ad del: of_nat_mult of_nat_add)
    have lt: "m - Suc k < m - k" "Suc k \<le> m" using True by linarith+
    have z: "n = 1 \<and> front_frame data c l" if "?w = 0" using less.prems(6) that True by simp
    have wb: "?w \<le> n + 8589934592"
    proof -
      have "\<lfloor>?y\<rfloor> \<le> 257" using y(2) by (simp add: floor_le_iff)
      then show ?thesis using un by linarith
    qed
    from less.hyps [OF lt(1) made_used [OF s1(2)] lt(2) pos frac_ge_0 frac_lt_1 z wb]
    obtain k' u' x' s' where r: "main_loop psrc data (frac ?y) (ratio_before psrc data (Suc k)) (p1\<lparr>ld_in_used := int (?w * c)\<rparr>, out1) =
        Some (x', ratio_before psrc data k', s')"
      "made psrc data c l inp p0 out0 k' u' s'" "Suc k \<le> k'" "k' \<le> m" "real u' + x' = sample_pos psrc data k'" "0 \<le> x'" "x' < 1"
      "k' = m \<or> real n \<le> sample_pos psrc data k'" "\<forall>j. Suc k \<le> j \<and> j < k' \<longrightarrow> sample_pos psrc data j < real n" by blast
    have "\<forall>j. k \<le> j \<and> j < k' \<longrightarrow> sample_pos psrc data j < real n" using r(9) True by (metis le_antisym not_less_eq_eq)
    with r(2-8) show ?thesis unfolding step r(1)
      by (intro exI [of _ k'] exI [of _ u'] exI [of _ x'] exI [of _ s']) simp
  qed
qed

section \<open>A call\<close>

definition kept_frame :: "linear_data \<Rightarrow> nat \<Rightarrow> real list \<Rightarrow> real list" where
  "kept_frame p c inp = (if ld_reset p then map (\<lambda>ch. inp ! ch) [0..<c] @ drop c (ld_last_value p) else ld_last_value p)"

text \<open>The frame before the input, as the interpolation sees it.\<close>

definition frame_before :: "src_private \<Rightarrow> src_data \<Rightarrow> linear_data \<Rightarrow> nat \<Rightarrow> nat \<Rightarrow> real list \<Rightarrow> real list" where
  "frame_before psrc data p c n inp = (if n = 1 \<and> sp_last_position psrc < 1
     then drop (length (sd_front data) - c) (sd_front data) else kept_frame p c inp)"

definition linear_result :: "src_private \<Rightarrow> src_data \<Rightarrow> linear_data \<Rightarrow> nat \<Rightarrow> nat \<Rightarrow> nat \<Rightarrow> real list \<Rightarrow> real list \<Rightarrow>
    nat \<Rightarrow> nat \<Rightarrow> linear_data \<Rightarrow> real list \<Rightarrow> bool" where
  "linear_result psrc data p c n m inp out0 k u p' out \<longleftrightarrow>
     k \<le> m \<and> (\<forall>j < k. sample_pos psrc data j < real n) \<and> (k = m \<or> real n \<le> sample_pos psrc data k) \<and>
     u = min n (nat \<lfloor>sample_pos psrc data k\<rfloor>) \<and>
     ld_channels p' = int c \<and> \<not> ld_reset p' \<and> c \<le> length (ld_last_value p') \<and>
     (\<forall>ch < c. ld_last_value p' ! ch = (if u = 0 then kept_frame p c inp ! ch else inp ! ((u - 1) * c + ch))) \<and>
     length out = length out0 \<and>
     (\<forall>i < length out0. out ! i = (if i < k * c
        then signal (frame_before psrc data p c n inp) inp c (sample_pos psrc data (i div c)) (i mod c) else out0 ! i))"

lemma linear_call:
  assumes ok: "call_ok psrc data c n m inp" and p: "sp_private_data psrc = Some p" "ld_channels p = int c" "c \<le> length (ld_last_value p)"
    and n: "sd_input_frames data = int n" "0 < n" and out: "sd_out data = Some out0" "m * c \<le> length out0"
    and front: "0 < m \<Longrightarrow> n = 1 \<Longrightarrow> sp_last_position psrc < 1 \<Longrightarrow> c \<le> length (sd_front data)"
  shows "\<exists>k u p' out. linear_vari_process psrc data = Some (SRC_ERR_NO_ERROR,
      psrc\<lparr>sp_last_position := sample_pos psrc data k - real u, sp_last_ratio := ratio_before psrc data k, sp_private_data := Some p'\<rparr>,
      data\<lparr>sd_out := Some out, sd_input_frames_used := int u, sd_output_frames_gen := int k\<rparr>) \<and>
    linear_result psrc data p c n m inp out0 k u p' out"
proof -
  have c: "0 < c" "c \<le> 1048576" and inp: "sd_in data = Some inp" "n * c \<le> length inp" and b: "n * c \<le> 2147483648" "m * c \<le> 2147483648"
    and m: "sd_output_frames data = int m" and r: "\<not> is_bad_src_ratio (sp_last_ratio psrc)"
    and P: "0 \<le> sp_last_position psrc" "sp_last_position psrc \<le> 2147483648"
    using ok by (simp_all add: call_ok_def)
  let ?kept = "kept_frame p c inp" and ?l = "frame_before psrc data p c n inp"
  define q where "q = p\<lparr>ld_last_value := ?kept, ld_reset := False\<rparr>"
  define p0 where "p0 = q\<lparr>ld_in_count := int (n * c), ld_out_count := int (m * c), ld_in_used := 0, ld_out_gen := 0\<rparr>"
  have first: "(if ld_reset p then do { p \<leftarrow> keep_frame data 0 p; Some (p\<lparr>ld_reset := False\<rparr>) } else Some p) = Some q"
  proof (cases "ld_reset p")
    case True
    have "data_in data (0 + int ch) = Some (inp ! ch)" if "ch < c" for ch
      using data_in_at [OF inp(1), of ch] row_less [of 0 n ch c] that n(2) inp(2) by simp
    from keep_frame_ok [OF p(2,3) this] True show ?thesis by (simp add: q_def kept_frame_def)
  qed (simp add: q_def kept_frame_def)
  have kl: "c \<le> length ?kept" using p(3) by (simp add: kept_frame_def)
  have p0: "counts p0 c n m" using p(2) kl by (simp add: counts_def p0_def q_def)
  have lq: "ld_channels q = int c" using p(2) by (simp add: q_def)
  have cl: "c_long (int n * int c) = Some (int (n * c))" "c_long (int m * int c) = Some (int (m * c))"
    using b by (simp_all add: c_long_small flip: of_nat_mult)
  have made0: "made psrc data c ?l inp p0 out0 0 0 (p0, out0)" by (simp add: made_def p0_def)
  have "?l = ld_last_value p0" if "2 \<le> n" using that by (simp add: frame_before_def p0_def q_def)
  from lead_loop_ok [OF ok p0 out(2) this made0] obtain k1 p1 out1 where l1:
    "lead_loop psrc data (sp_last_position psrc) (sp_last_ratio psrc) (p0, out0) =
      Some (sample_pos psrc data k1, ratio_before psrc data k1, p1, out1)"
    "made psrc data c ?l inp p0 out0 k1 0 (p1, out1)" "k1 \<le> m"
    "k1 = m \<or> 1 \<le> sample_pos psrc data k1 \<or> real n \<le> 1 + sample_pos psrc data k1" "\<forall>j. j < k1 \<longrightarrow> sample_pos psrc data j < 1"
    by (auto simp: ratio_before_def)
  let ?x = "sample_pos psrc data k1"
  have x: "0 \<le> ?x" using sample_pos_nonneg [OF ok, of k1] l1(3) by simp
  have xb: "?x \<le> 8589934592"
  proof (cases k1)
    case (Suc j)
    then have "sample_pos psrc data j < 1" "?x \<le> sample_pos psrc data j + 256" using l1(3,5) sample_step(2) [OF ok, of j] by auto
    then show ?thesis by linarith
  qed (use P in simp)
  have x0: "sp_last_position psrc \<le> ?x"
    using sample_pos_mono [OF ok, of 0 k1] l1(3) by (cases "k1 = 0") auto
  from advance_ok [where p = p1 and c = c and u = 0, OF _ _ x xb c(2)] made_counts [OF l1(2) p0]
  have a1: "advance ?x p1 = Some (frac ?x, p1\<lparr>ld_in_used := int (nat \<lfloor>?x\<rfloor> * c)\<rparr>)" by (simp add: counts_def)
  have "n = 1 \<and> front_frame data c ?l" if "k1 < m" "nat \<lfloor>?x\<rfloor> = 0"
  proof -
    have lt: "?x < 1" using that(2) by linarith
    with l1(4) that(1) n(2) have "n = 1" by linarith
    with front that(1) lt x0 show ?thesis by (simp add: front_frame_def frame_before_def)
  qed
  moreover have "real (nat \<lfloor>?x\<rfloor>) + frac ?x = ?x" using x by (simp add: frac_def)
  moreover have "nat \<lfloor>?x\<rfloor> \<le> n + 8589934592" using xb by linarith
  ultimately obtain k u' x' p2 out2 where l2:
    "main_loop psrc data (frac ?x) (ratio_before psrc data k1) (p1\<lparr>ld_in_used := int (nat \<lfloor>?x\<rfloor> * c)\<rparr>, out1) =
      Some (x', ratio_before psrc data k, p2, out2)"
    "made psrc data c ?l inp p0 out0 k u' (p2, out2)" "k1 \<le> k" "k \<le> m" "real u' + x' = sample_pos psrc data k" "0 \<le> x'" "x' < 1"
    "k = m \<or> real n \<le> sample_pos psrc data k" "\<forall>j. k1 \<le> j \<and> j < k \<longrightarrow> sample_pos psrc data j < real n"
    using main_loop_ok [OF ok p0 out(2) made_used [OF l1(2)] l1(3) _ frac_ge_0 frac_lt_1] by (metis prod.collapse)
  have below: "\<forall>j < k. sample_pos psrc data j < real n"
    using l2(9) l1(5) n(2) by (metis One_nat_def Suc_leI leI le_numeral_extra(4) less_le_trans of_nat_1 of_nat_mono)
  have u': "nat \<lfloor>sample_pos psrc data k\<rfloor> = u'"
  proof -
    have "\<lfloor>sample_pos psrc data k\<rfloor> = int u'" using l2(5-7) by (simp add: floor_eq_iff)
    then show ?thesis by simp
  qed
  define u where "u = min n u'"
  let ?p3 = "p2\<lparr>ld_in_used := int (u * c)\<rparr>"
  have p2: "ld_channels p2 = int c" "ld_in_used p2 = int (u' * c)" "ld_in_count p2 = int (n * c)" "ld_out_gen p2 = int (k * c)"
    "ld_last_value p2 = ?kept" "\<not> ld_reset p2"
    using l2(2) p0 by (simp_all add: made_def counts_def p0_def q_def)
  have ov: "c_div (ld_in_used p2 - ld_in_count p2) (int c) = Some (int u' - int n)"
  proof -
    have "int (u' * c) - int (n * c) = int c * (int u' - int n)" by (simp add: algebra_simps)
    moreover have "(int c * d) sdiv int c = d" for d
      using c(1) by (simp add: signed_divide_int_def abs_mult sgn_mult sgn_mult_abs)
    ultimately show ?thesis using p2 c(1) by (simp add: c_div_def)
  qed
  have over: "(if ld_in_count p2 < ld_in_used p2 then (x' + of_int (int u' - int n), p2\<lparr>ld_in_used := ld_in_count p2\<rparr>) else (x', p2)) =
      (sample_pos psrc data k - real u, ?p3)"
  proof (cases "n < u'")
    case True
    then have "u = n" by (simp add: u_def)
    then show ?thesis using True p2 c(1) l2(5) by (simp flip: of_nat_mult)
  next
    case False
    then have "u = u'" by (simp add: u_def)
    then have "?p3 = p2" using p2(2) by simp
    moreover have "\<not> ld_in_count p2 < ld_in_used p2" using False p2 c(1) by (simp flip: of_nat_mult)
    ultimately show ?thesis using l2(5) \<open>u = u'\<close> by simp
  qed
  define p4 where "p4 = (if u = 0 then ?p3 else ?p3\<lparr>ld_last_value := map (\<lambda>ch. inp ! ((u - 1) * c + ch)) [0..<c] @ drop c ?kept\<rparr>)"
  have last: "(if 0 < ld_in_used ?p3 then keep_frame data (ld_in_used ?p3 - ld_channels ?p3) ?p3 else Some ?p3) = Some p4"
  proof (cases u)
    case 0
    then show ?thesis by (simp add: p4_def)
  next
    case (Suc v)
    have "data_in data (int (u * c) - int c + int ch) = Some (inp ! ((u - 1) * c + ch))" if "ch < c" for ch
    proof -
      have "v < n" using Suc by (simp add: u_def)
      then have "v * c + ch < length inp" using row_less [of v n ch c] that inp(2) by simp
      moreover have "int (u * c) - int c + int ch = int (v * c + ch)" by (simp add: Suc algebra_simps)
      ultimately have "data_in data (int (u * c) - int c + int ch) = Some (inp ! (v * c + ch))"
        using data_in_at [OF inp(1), of "v * c + ch"] by (simp only:)
      then show ?thesis unfolding Suc by simp
    qed
    moreover have "0 < int c + int v * int c" using c(1) by (simp add: add_pos_nonneg)
    ultimately show ?thesis using keep_frame_ok [of ?p3 c, where i = "int (u * c) - int c"] p2 kl Suc c(1) by (simp add: p4_def)
  qed
  have p4: "ld_channels p4 = int c" "ld_in_used p4 = int (u * c)" "ld_out_gen p4 = int (k * c)" using p2 by (simp_all add: p4_def)
  have dv: "c_div (int (u * c)) (int c) = Some (int u)" "c_div (int (k * c)) (int c) = Some (int k)" using c(1) by (simp_all add: c_div_nonneg)
  have "linear_vari_process psrc data = Some (SRC_ERR_NO_ERROR,
      psrc\<lparr>sp_last_position := sample_pos psrc data k - real u, sp_last_ratio := ratio_before psrc data k, sp_private_data := Some p4\<rparr>,
      data\<lparr>sd_out := Some out2, sd_input_frames_used := int u, sd_output_frames_gen := int k\<rparr>)"
    using n p(1) r out(1) ov over last
    by (simp add: linear_vari_process_def first lq m cl p0_def [symmetric] l1(1) a1 l2(1) p2(1) p4 dv Let_def del: of_nat_mult)
  moreover have "linear_result psrc data p c n m inp out0 k u p4 out2"
    using l2(2,4,8) below p4(1) p2(5,6) kl by (auto simp: linear_result_def u_def [symmetric] u' made_def p4_def nth_append)
  ultimately show ?thesis by blast
qed

section \<open>Pieces of a stream\<close>

text \<open>The interpolation of a whole stream of frames; place 0 has the first frame as well as place 1.\<close>

definition stream_at :: "real list \<Rightarrow> nat \<Rightarrow> real \<Rightarrow> nat \<Rightarrow> real" where
  "stream_at S c x ch = (let j = nat \<lfloor>x\<rfloor>; a = S ! ((j - 1) * c + ch); b = S ! (j * c + ch) in a + frac x * (b - a))"

text \<open>The converter has passed \<open>U\<close> frames of the stream \<open>S\<close>: the frame it keeps is the last of them, or it waits for the first.\<close>

definition on_stream :: "real list \<Rightarrow> nat \<Rightarrow> nat \<Rightarrow> linear_data \<Rightarrow> bool" where
  "on_stream S c U p \<longleftrightarrow> (if U = 0 then ld_reset p \<or> (\<forall>ch < c. ld_last_value p ! ch = S ! ch)
     else \<not> ld_reset p \<and> (\<forall>ch < c. ld_last_value p ! ch = S ! ((U - 1) * c + ch)))"

lemma signal_piece:
  assumes "0 < c" "on_stream S c U p" "c \<le> length (ld_last_value p)" "0 \<le> x" "x < real n" "\<forall>i < n * c. inp ! i = S ! (U * c + i)" "ch < c"
  shows "signal (kept_frame p c inp) inp c x ch = stream_at S c (real U + x) ch"
proof -
  let ?j = "nat \<lfloor>x\<rfloor>"
  have f: "\<lfloor>real U + x\<rfloor> = int U + \<lfloor>x\<rfloor>" "frac (real U + x) = frac x" by (simp_all add: frac_def)
  have J: "nat \<lfloor>real U + x\<rfloor> = U + ?j" using assms(4) by (simp add: f nat_add_distrib)
  have jn: "?j < n" using assms(4,5) by linarith
  have b: "inp ! (?j * c + ch) = S ! ((U + ?j) * c + ch)"
    using assms(6) row_less [OF jn assms(7)] by (simp add: algebra_simps)
  have a: "(if ?j = 0 then kept_frame p c inp ! ch else inp ! ((?j - 1) * c + ch)) =
      S ! ((U + ?j - 1) * c + ch)"
  proof (cases ?j)
    case 0
    have "inp ! ch = S ! (U * c + ch)" using assms(6) row_less [of 0 n ch c] jn assms(7) by simp
    then show ?thesis using 0 assms(2,3,7) by (auto simp: kept_frame_def on_stream_def nth_append split: if_splits)
  next
    case (Suc i)
    then have "inp ! (i * c + ch) = S ! (U * c + (i * c + ch))" using assms(6) row_less [of i n ch c] jn assms(7) by simp
    with Suc show ?thesis by (simp add: algebra_simps)
  qed
  show ?thesis unfolding signal_def stream_at_def Let_def J f(2) a b by simp
qed

text \<open>A call on the next frames makes the frames that the stream has at the next places, and passes what it used.\<close>

lemma linear_stream:
  assumes "linear_result psrc data p c n m inp out0 k u p' out" "on_stream S c U p" "c \<le> length (ld_last_value p)" "0 < c" "0 < n"
    "\<forall>i < n * c. inp ! i = S ! (U * c + i)" "n = 1 \<Longrightarrow> 1 \<le> sp_last_position psrc" "k * c \<le> length out0"
    "\<And>j. j < k \<Longrightarrow> 0 \<le> sample_pos psrc data j"
  shows "on_stream S c (U + u) p'" and "i < k * c \<Longrightarrow> out ! i = stream_at S c (real U + sample_pos psrc data (i div c)) (i mod c)"
proof -
  note r = assms(1) [unfolded linear_result_def]
  have fb: "frame_before psrc data p c n inp = kept_frame p c inp" using assms(7) by (auto simp: frame_before_def)
  show "out ! i = stream_at S c (real U + sample_pos psrc data (i div c)) (i mod c)" if i: "i < k * c"
  proof -
    have j: "i div c < k" using i by (simp add: less_mult_imp_div_less)
    then have "sample_pos psrc data (i div c) < real n" using r by blast
    moreover have "out ! i = signal (kept_frame p c inp) inp c (sample_pos psrc data (i div c)) (i mod c)"
      using r i assms(8) by (simp add: fb)
    ultimately show ?thesis using signal_piece [OF assms(4,2,3) assms(9) [OF j] _ assms(6), of "i mod c"] assms(4) by simp
  qed
  show "on_stream S c (U + u) p'"
  proof (cases u)
    case 0
    have "kept_frame p c inp ! ch = (if U = 0 then S ! ch else S ! ((U - 1) * c + ch))" if "ch < c" for ch
    proof -
      have "inp ! ch = S ! (U * c + ch)" using assms(5,6) row_less [of 0 n ch c] that by simp
      then show ?thesis using assms(2,3) that by (auto simp: kept_frame_def on_stream_def nth_append split: if_splits)
    qed
    then show ?thesis using r 0 assms(2,3) by (auto simp: on_stream_def kept_frame_def nth_append split: if_splits)
  next
    case (Suc v)
    then have "v < n" using r by linarith
    then have "inp ! (v * c + ch) = S ! (U * c + (v * c + ch))" if "ch < c" for ch using assms(6) row_less [of v n ch c] that by simp
    moreover have "\<forall>ch < c. ld_last_value p' ! ch = (if u = 0 then kept_frame p c inp ! ch else inp ! ((u - 1) * c + ch))" "\<not> ld_reset p'"
      using r by blast+
    moreover have "(U + u - 1) * c = U * c + v * c" by (simp add: Suc algebra_simps)
    ultimately show ?thesis by (simp add: on_stream_def Suc add.assoc)
  qed
qed

text \<open>At a steady ratio the places are equally far apart.\<close>

lemma steady_pos:
  assumes "sp_last_ratio psrc = sd_src_ratio data"
  shows "sample_pos psrc data k = sp_last_position psrc + real k / sd_src_ratio data" "ratio_before psrc data k = sd_src_ratio data"
proof -
  have s: "sample_ratio psrc data j = sd_src_ratio data" for j using assms by (simp add: sample_ratio_def SRC_MIN_RATIO_DIFF_def)
  show "sample_pos psrc data k = sp_last_position psrc + real k / sd_src_ratio data"
    by (induction k) (simp_all add: s add_divide_distrib)
  show "ratio_before psrc data k = sd_src_ratio data" using assms s by (simp add: ratio_before_def)
qed

section \<open>Bounds\<close>

text \<open>Between two frames the interpolation is between their values.\<close>

lemma signal_between:
  assumes "lo \<le> (if nat \<lfloor>x\<rfloor> = 0 then l ! ch else inp ! ((nat \<lfloor>x\<rfloor> - 1) * c + ch))" "(if nat \<lfloor>x\<rfloor> = 0 then l ! ch else inp ! ((nat \<lfloor>x\<rfloor> - 1) * c + ch)) \<le> hi"
    "lo \<le> inp ! (nat \<lfloor>x\<rfloor> * c + ch)" "inp ! (nat \<lfloor>x\<rfloor> * c + ch) \<le> hi"
  shows "lo \<le> signal l inp c x ch" "signal l inp c x ch \<le> hi"
  unfolding signal_def Let_def
  by (rule between [OF frac_ge_0 less_imp_le [OF frac_lt_1] assms])+

lemma linear_between:
  assumes "linear_result psrc data p c n m inp out0 k u p' out" "0 < c" "m * c \<le> length out0" "n * c \<le> length inp"
    "\<forall>v \<in> set (take (n * c) inp). lo \<le> v \<and> v \<le> hi" "\<forall>ch < c. lo \<le> ld_last_value p ! ch \<and> ld_last_value p ! ch \<le> hi" "c \<le> length (ld_last_value p)"
    "n = 1 \<Longrightarrow> sp_last_position psrc < 1 \<Longrightarrow> c \<le> length (sd_front data) \<and> (\<forall>v \<in> set (sd_front data). lo \<le> v \<and> v \<le> hi)"
    "\<And>j. j < k \<Longrightarrow> 0 \<le> sample_pos psrc data j"
  shows "\<forall>v \<in> set (take (k * c) out). lo \<le> v \<and> v \<le> hi"
proof -
  note r = assms(1) [unfolded linear_result_def]
  have inp: "lo \<le> inp ! i \<and> inp ! i \<le> hi" if "i < n * c" for i
    using assms(5) that assms(4) by (metis in_set_conv_nth length_take min.absorb2 nth_take)
  have kept: "lo \<le> kept_frame p c inp ! ch \<and> kept_frame p c inp ! ch \<le> hi" if "ch < c" "0 < n" for ch
    using inp [of ch] row_less [of 0 n ch c] that assms(6,7) by (auto simp: kept_frame_def nth_append)
  have before: "lo \<le> frame_before psrc data p c n inp ! ch \<and> frame_before psrc data p c n inp ! ch \<le> hi" if "ch < c" "0 < n" for ch
  proof (cases "n = 1 \<and> sp_last_position psrc < 1")
    case True
    with assms(8) that(1) have "length (sd_front data) - c + ch < length (sd_front data)" by auto
    with True assms(8) show ?thesis by (simp add: frame_before_def)
  next
    case False
    with kept [OF that] show ?thesis by (auto simp: frame_before_def)
  qed
  have "lo \<le> out ! i \<and> out ! i \<le> hi" if i: "i < k * c" for i
  proof -
    let ?x = "sample_pos psrc data (i div c)" and ?ch = "i mod c"
    have j: "i div c < k" using i by (simp add: less_mult_imp_div_less)
    have x: "0 \<le> ?x" "?x < real n" using assms(9) [OF j] r j by blast+
    then have jn: "nat \<lfloor>?x\<rfloor> < n" by linarith
    have ch: "?ch < c" using assms(2) by simp
    have "k * c \<le> length out0" using r assms(3) by (meson le_trans mult_le_mono1)
    then have o: "out ! i = signal (frame_before psrc data p c n inp) inp c ?x ?ch" using r i by simp
    have a: "lo \<le> (if nat \<lfloor>?x\<rfloor> = 0 then frame_before psrc data p c n inp ! ?ch else inp ! ((nat \<lfloor>?x\<rfloor> - 1) * c + ?ch)) \<and>
        (if nat \<lfloor>?x\<rfloor> = 0 then frame_before psrc data p c n inp ! ?ch else inp ! ((nat \<lfloor>?x\<rfloor> - 1) * c + ?ch)) \<le> hi"
      using before [OF ch] inp [OF row_less [of "nat \<lfloor>?x\<rfloor> - 1" n ?ch c]] jn ch by auto
    from signal_between [of lo ?x "frame_before psrc data p c n inp" ?ch inp c hi] a inp [OF row_less [OF jn ch]]
    show ?thesis unfolding o by blast
  qed
  then show ?thesis by (auto simp: in_set_conv_nth)
qed

text \<open>A single frame, with the place in front of it, reads in front of the input.\<close>

lemma single_frame:
  assumes "call_ok psrc data c 1 m inp" "sp_private_data psrc = Some p" "ld_channels p = int c" "c \<le> length (ld_last_value p)"
    "sd_input_frames data = 1" "sd_out data = Some out0" "0 < m" "sp_last_position psrc < 1" "length (sd_front data) < c"
  shows "linear_vari_process psrc data = None"
proof -
  have c: "0 < c" "c \<le> 1048576" and inp: "sd_in data = Some inp" "c \<le> length inp" and b: "c \<le> 2147483648" "m * c \<le> 2147483648"
    and m: "sd_output_frames data = int m" and r: "\<not> is_bad_src_ratio (sp_last_ratio psrc)"
    and P: "0 \<le> sp_last_position psrc" "sp_last_position psrc \<le> 2147483648"
    using assms(1) by (simp_all add: call_ok_def)
  let ?x = "sp_last_position psrc"
  obtain q where first: "(if ld_reset p then do { p \<leftarrow> keep_frame data 0 p; Some (p\<lparr>ld_reset := False\<rparr>) } else Some p) = Some q"
    and lq: "ld_channels q = int c"
  proof (cases "ld_reset p")
    case True
    have "data_in data (0 + int ch) = Some (inp ! ch)" if "ch < c" for ch
      using data_in_at [OF inp(1), of ch] that inp(2) by simp
    from keep_frame_ok [OF assms(3,4) this] True assms(3) show ?thesis by (intro that [of "p\<lparr>ld_last_value := _, ld_reset := False\<rparr>"]) simp_all
  qed (use assms(3) in \<open>auto intro: that\<close>)
  define p0 where "p0 = q\<lparr>ld_in_count := int c, ld_out_count := int (m * c), ld_in_used := 0, ld_out_gen := 0\<rparr>"
  have cl: "c_long (int c) = Some (int c)" "c_long (int m * int c) = Some (int (m * c))"
    using b by (simp_all add: c_long_small flip: of_nat_mult)
  have p0: "ld_channels p0 = int c" "ld_in_count p0 = int c" "ld_in_used p0 = int (0 * c)" "ld_out_gen p0 = 0" "ld_out_count p0 = int (m * c)"
    by (simp_all add: p0_def lq)
  have lead: "lead_loop psrc data ?x (sp_last_ratio psrc) (p0, out0) = Some (?x, sp_last_ratio psrc, p0, out0)"
  proof -
    have "real c * 1 \<le> real c * (1 + ?x)" using P by (intro mult_left_mono) simp_all
    then show ?thesis using p0 by (subst lead_loop.simps) simp
  qed
  have fr: "frac ?x = ?x" "nat \<lfloor>?x\<rfloor> = 0" using P assms(8) by (simp_all add: frac_eq floor_le_iff)
  have adv: "advance ?x p0 = Some (?x, p0)"
    using advance_ok [OF p0(1,3) P(1) _ c(2)] P(2) fr p0(3) by simp
  have g: "0 < int m * int c" "real c * ?x < real c" using assms(7,8) c(1) by simp_all
  have "data_in data (- int c) = None" using inp(1) c(1) assms(9) by (simp add: data_in_def)
  then have "put_frame (\<lambda>ch. data_in data (ld_in_used p0 - ld_channels p0 + int ch)) (\<lambda>ch. data_in data (ld_in_used p0 + int ch)) ?x (p0, out0) = None"
    using p0 c(1) by (simp add: put_frame_def upt_conv_Cons)
  then have "main_loop psrc data ?x (sp_last_ratio psrc) (p0, out0) = None"
    using p0 g by (subst main_loop.simps) (simp add: Let_def)
  then show ?thesis using assms(2,5,6) r
    by (simp add: linear_vari_process_def first lq m cl p0_def [symmetric] lead adv del: of_nat_mult)
qed

end
