(* ===== verification/Linear_Library.thy ===== *)
theory Linear_Library
  imports Samplerate_Convert Linear_Converter
begin

text \<open>
  The conversion with the library it is linked to: the calls that src/samplerate_convert.c makes of
  libsamplerate, over the model of the linear converter. The contract \<open>resampler\<close> holds for them, so what
  \<open>Samplerate_Convert\<close> shows of any library holds for this one; the memory in front of the input array, which
  a call with a single frame reads, is a parameter.
\<close>

section \<open>The calls\<close>

text \<open>\<open>src_data\<close> stays between the calls. In it the input array is followed by the output array; in front of it are
  the eight bytes of the ratio, here two floats.\<close>

definition fresh_data :: src_data where
  "fresh_data = \<lparr>sd_in = None, sd_in_at = 0, sd_front = [], sd_out = Some (replicate 2048 0), sd_out_at = 1024, sd_input_frames = 0,
     sd_output_frames = 0, sd_input_frames_used = 0, sd_output_frames_gen = 0, sd_end_of_input = False, sd_src_ratio = 0\<rparr>"

definition call_data :: "real list \<Rightarrow> src_data \<Rightarrow> real list \<Rightarrow> int \<Rightarrow> int \<Rightarrow> real \<Rightarrow> src_data" where
  "call_data front d inp n m r = d\<lparr>sd_in := Some inp, sd_front := front, sd_input_frames := n, sd_output_frames := m, sd_src_ratio := r\<rparr>"

text \<open>The conversion of a \<open>float\<close> to \<open>int16_t\<close> cuts off the fraction.\<close>

definition int16_of_real :: "real \<Rightarrow> int option" where
  "int16_of_real x = (let t = (if 0 \<le> x then \<lfloor>x\<rfloor> else \<lceil>x\<rceil>) in if - 32768 \<le> t \<and> t \<le> 32767 then Some t else None)"

text \<open>The last branch of the process call stands for a call without a result; the contract shows that there is none.\<close>

definition linear_env :: "allocator \<Rightarrow> nat \<Rightarrow> nat \<times> nat \<Rightarrow> real list \<Rightarrow> (real, src_private \<times> src_data, real) src_env" where
  "linear_env mal k sizes front = \<lparr>
     src_new = (case lib_src_new mal k sizes SRC_LINEAR dst_channels of Some (_, Some psrc) \<Rightarrow> Some (psrc, fresh_data) | _ \<Rightarrow> None),
     src_process = (\<lambda>st inp n m r. case lib_src_process (Some (fst st)) (Some (call_data front (snd st) inp n m r)) of
         Some (_, Some psrc, Some d) \<Rightarrow> ((psrc, d), sd_input_frames_used d, sd_output_frames_gen d,
           take (nat (dst_channels * sd_output_frames_gen d)) (the (sd_out d)))
       | _ \<Rightarrow> (st, 0, 0, [])),
     float_of_int = of_int,
     int16_of_float = int16_of_real\<rparr>"

section \<open>The contract\<close>

definition in16 :: "real \<Rightarrow> bool" where
  "in16 x \<longleftrightarrow> - 32768 \<le> x \<and> x \<le> 32767"

lemma int16_in16: "in16 x \<Longrightarrow> \<exists>v. int16_of_real x = Some v"
  by (auto simp: in16_def int16_of_real_def Let_def le_floor_iff floor_le_iff ceiling_le_iff le_ceiling_iff)

definition linear_ok :: "src_private \<times> src_data \<Rightarrow> bool" where
  "linear_ok st \<longleftrightarrow> (case st of (p, d) \<Rightarrow> sp_process p = Some Linear \<and> sp_mode p = SRC_MODE_PROCESS \<and> sp_channels p = 2 \<and>
     (\<exists>l. sp_private_data p = Some l \<and> ld_channels l = 2 \<and> 2 \<le> length (ld_last_value l) \<and> (\<forall>ch < 2. in16 (ld_last_value l ! ch))) \<and>
     0 \<le> sp_last_position p \<and> sp_last_position p \<le> 256 \<and> (sp_last_ratio p = 0 \<or> src_is_valid_ratio (sp_last_ratio p)) \<and>
     sd_in_at d = 0 \<and> sd_out_at d = 1024 \<and> (\<exists>out. sd_out d = Some out \<and> length out = 2048))"

lemma new_linear_ok: "lib_src_new mal k sizes SRC_LINEAR 2 = Some (e, Some psrc) \<Longrightarrow> linear_ok (psrc, fresh_data)"
  by (auto simp: lib_src_new_def psrc_set_converter_def linear_set_converter_def linear_reset_def src_reset_def SRC_LINEAR_def Let_def
      linear_ok_def fresh_data_def in16_def less_2_cases_iff nth_append split: if_splits option.splits)

lemma sample_pos_grows:
  assumes "call_ok psrc data c n m inp" "k \<le> m"
  shows "sp_last_position psrc + real k / 256 \<le> sample_pos psrc data k"
  using assms(2)
proof (induction k)
  case (Suc k)
  have "0 < sample_ratio psrc data k" "sample_ratio psrc data k \<le> 256" using sample_ratio_good [OF assms(1), of k] Suc.prems by auto
  then have "1 / 256 \<le> 1 / sample_ratio psrc data k" by (intro divide_left_mono) simp_all
  with Suc show ?case by (simp add: add_divide_distrib)
qed simp

text \<open>A call with data that are in order is one of the linear converter, with the ratio of the first call kept.\<close>

definition with_ratio :: "real \<Rightarrow> src_private \<Rightarrow> src_private" where
  "with_ratio r p = (if sp_last_ratio p < 1 / SRC_MAX_RATIO then p\<lparr>sp_last_ratio := r\<rparr> else p)"

lemma process_is_linear:
  assumes "linear_ok (p, d)" "src_is_valid_ratio r" "0 \<le> n" "n \<le> 512" "0 < m"
  shows "lib_src_process (Some p) (Some (call_data front d inp n m r)) = (do { (err, psrc, d) \<leftarrow>
      linear_vari_process (with_ratio r p) ((call_data front d inp n m r)\<lparr>sd_input_frames_used := 0, sd_output_frames_gen := 0\<rparr>);
      Some (err, Some psrc, Some d) })"
proof -
  from assms(1) obtain out0 where ok: "sp_process p = Some Linear" "sp_mode p = SRC_MODE_PROCESS" "sp_channels p = 2"
    "sd_in_at d = 0" "sd_out_at d = 1024" "sd_out d = Some out0" by (auto simp: linear_ok_def)
  have mx: "max 0 n = n" "max 0 m = m" using assms(3,5) by simp_all
  have eqd: "(call_data front d inp n m r)\<lparr>sd_input_frames := n, sd_output_frames := m\<rparr> = call_data front d inp n m r" by (simp add: call_data_def)
  have "sd_in (call_data front d inp n m r) = Some inp" "sd_out (call_data front d inp n m r) = Some out0" "sd_src_ratio (call_data front d inp n m r) = r"
    "sd_input_frames (call_data front d inp n m r) = n" "sd_output_frames (call_data front d inp n m r) = m"
    "sd_in_at (call_data front d inp n m r) = 0" "sd_out_at (call_data front d inp n m r) = 1024"
    using ok(4-6) by (simp_all add: call_data_def)
  then show ?thesis using ok(1-3) assms(2,4)
    by (simp add: lib_src_process_def Let_def mx eqd src_is_valid_ratio_def with_ratio_def)
qed

lemma process_call:
  assumes "linear_ok st" "src_is_valid_ratio r" "0 \<le> n" "n \<le> 512" "0 < m" "m \<le> 1024" "int (length inp) = 2 * n" "\<forall>x \<in> set inp. in16 x"
    "length front = 2" "\<forall>x \<in> set front. in16 x"
  shows "\<exists>psrc d. lib_src_process (Some (fst st)) (Some (call_data front (snd st) inp n m r)) = Some (SRC_ERR_NO_ERROR, Some psrc, Some d) \<and>
    linear_ok (psrc, d) \<and> 0 \<le> sd_input_frames_used d \<and> sd_input_frames_used d \<le> n \<and> 0 \<le> sd_output_frames_gen d \<and> sd_output_frames_gen d \<le> m \<and>
    int (length (take (nat (2 * sd_output_frames_gen d)) (the (sd_out d)))) = 2 * sd_output_frames_gen d \<and>
    (\<forall>x \<in> set (take (nat (2 * sd_output_frames_gen d)) (the (sd_out d))). in16 x) \<and>
    (0 < n \<longrightarrow> m = 1024 \<longrightarrow> 0 < sd_input_frames_used d)"
proof -
  obtain p d where st: "st = (p, d)" by fastforce
  from assms(1) obtain l out0 where ok: "sp_process p = Some Linear" "sp_mode p = SRC_MODE_PROCESS" "sp_channels p = 2"
    "sp_private_data p = Some l" "ld_channels l = 2" "2 \<le> length (ld_last_value l)" "\<forall>ch < 2. in16 (ld_last_value l ! ch)"
    "0 \<le> sp_last_position p" "sp_last_position p \<le> 256" "sp_last_ratio p = 0 \<or> src_is_valid_ratio (sp_last_ratio p)"
    "sd_in_at d = 0" "sd_out_at d = 1024" "sd_out d = Some out0" "length out0 = 2048" by (auto simp: linear_ok_def st)
  let ?d = "(call_data front d inp n m r)\<lparr>sd_input_frames_used := 0, sd_output_frames_gen := 0\<rparr>" and ?p = "with_ratio r p"
  have valid: "\<not> is_bad_src_ratio (sp_last_ratio ?p)" "\<not> is_bad_src_ratio r"
    using ok(10) assms(2) by (auto simp: with_ratio_def src_is_valid_ratio_def is_bad_src_ratio_def SRC_MAX_RATIO_def)
  have wr: "sp_process ?p = Some Linear" "sp_mode ?p = SRC_MODE_PROCESS" "sp_channels ?p = 2" using ok by (simp_all add: with_ratio_def)
  have proc: "lib_src_process (Some (fst st)) (Some (call_data front (snd st) inp n m r)) =
      (do { (err, psrc, d) \<leftarrow> linear_vari_process ?p ?d; Some (err, Some psrc, Some d) })"
    using process_is_linear [OF assms(1) [unfolded st] assms(2-5)] by (simp add: st)
  show ?thesis
  proof (cases "n = 0")
    case True
    have "linear_vari_process ?p ?d = Some (SRC_ERR_NO_ERROR, ?p, ?d)" using True by (simp add: linear_vari_process_def call_data_def)
    moreover have "linear_ok (?p, ?d)" using ok valid by (auto simp: linear_ok_def call_data_def src_is_valid_ratio_def with_ratio_def)
    ultimately show ?thesis using True assms(5) unfolding proc by (intro exI [of _ ?p] exI [of _ ?d]) simp
  next
    case False
    obtain nn mm where nm: "n = int nn" "m = int mm" using assms(3,5) by (metis nonneg_int_cases less_imp_le)
    have len: "length inp = nn * 2" using assms(7) nm by simp
    have pp: "sp_last_position ?p = sp_last_position p" "sp_private_data ?p = Some l" using ok(4) by (simp_all add: with_ratio_def)
    have call: "call_ok ?p ?d 2 nn mm inp"
      using assms(4,6) nm len valid pp(1) ok(8,9) by (simp add: call_ok_def call_data_def)
    have dd: "sd_input_frames ?d = int nn" "sd_out ?d = Some out0" "sd_front ?d = front" using nm ok(13) by (simp_all add: call_data_def)
    have "ld_channels l = int 2" "0 < nn" "mm * 2 \<le> length out0" using ok(5,14) False assms(6) nm by simp_all
    from linear_call [OF call pp(2) this(1) ok(6) dd(1) this(2) dd(2) this(3)] dd(3) assms(9) obtain k u l' out where
      c: "linear_vari_process ?p ?d = Some (SRC_ERR_NO_ERROR,
        ?p\<lparr>sp_last_position := sample_pos ?p ?d k - real u, sp_last_ratio := ratio_before ?p ?d k, sp_private_data := Some l'\<rparr>,
        ?d\<lparr>sd_out := Some out, sd_input_frames_used := int u, sd_output_frames_gen := int k\<rparr>)" (is "_ = Some (_, ?p', ?d')")
      "linear_result ?p ?d l 2 nn mm inp out0 k u l' out" by auto
    note res = c(2) [unfolded linear_result_def]
    let ?x = "sample_pos ?p ?d k"
    have km: "k \<le> mm" and um: "u = min nn (nat \<lfloor>?x\<rfloor>)" and lo: "length out = 2048" using res ok(14) by simp_all
    have pos: "0 \<le> sample_pos ?p ?d j" if "j \<le> k" for j using sample_pos_nonneg [OF call, of j] that km by simp
    have x0: "0 \<le> ?x" by (rule pos) simp
    have xb: "?x \<le> real nn + 256"
    proof (cases k)
      case 0
      then show ?thesis using ok(9) pp(1) by simp
    next
      case (Suc j)
      then have "sample_pos ?p ?d j < real nn" using res by blast
      with sample_step(2) [OF call, of j] Suc km show ?thesis by simp
    qed
    have newpos: "0 \<le> ?x - real u \<and> ?x - real u \<le> 256"
    proof (cases "nn \<le> nat \<lfloor>?x\<rfloor>")
      case True
      then have "u = nn" "real nn \<le> ?x" using um x0 by (simp_all add: le_nat_floor le_nat_iff le_floor_iff)
      then show ?thesis using xb by simp
    next
      case False
      then have "real u = of_int \<lfloor>?x\<rfloor>" using um x0 by simp
      moreover have "of_int \<lfloor>?x\<rfloor> \<le> ?x" "?x < of_int \<lfloor>?x\<rfloor> + 1" by linarith+
      ultimately show ?thesis by linarith
    qed
    have ratio: "src_is_valid_ratio (ratio_before ?p ?d k)"
      using sample_ratio_good [OF call, of "k - 1"] km valid(1) by (auto simp: ratio_before_def src_is_valid_ratio_def good_ratio)
    have inp16: "in16 (inp ! i)" if "i < nn * 2" for i using assms(8) that len by simp
    have last16: "in16 (ld_last_value l' ! ch)" if "ch < 2" for ch
    proof -
      have "ch < nn * 2" "u - 1 < nn" using that False nm um by auto
      then have "in16 (inp ! ch)" "in16 (inp ! ((u - 1) * 2 + ch))" using inp16 row_less [of "u - 1" nn ch 2] that by simp_all
      moreover have "ld_last_value l' ! ch = (if u = 0 then kept_frame l 2 inp ! ch else inp ! ((u - 1) * 2 + ch))" using res that by blast
      ultimately show ?thesis using ok(6,7) that by (auto simp: kept_frame_def nth_append)
    qed
    have out16: "\<forall>v \<in> set (take (k * 2) out). - 32768 \<le> v \<and> v \<le> 32767"
    proof (rule linear_between [OF c(2)])
      show "\<forall>v \<in> set (take (nn * 2) inp). - 32768 \<le> v \<and> v \<le> 32767" using assms(8) len by (simp add: in16_def)
      show "\<forall>ch < 2. - 32768 \<le> ld_last_value l ! ch \<and> ld_last_value l ! ch \<le> 32767" using ok(7) by (simp add: in16_def)
      show "2 \<le> length (sd_front ?d) \<and> (\<forall>v \<in> set (sd_front ?d). - 32768 \<le> v \<and> v \<le> 32767)" using assms(9,10) dd(3) by (simp add: in16_def)
    qed (use ok(6,14) len assms(6) nm pos in auto)
    have used: "0 < u" if "mm = 1024"
    proof -
      have "1 \<le> ?x"
      proof (cases "k = mm")
        case True
        have "sp_last_position ?p + real mm / 256 \<le> ?x" using sample_pos_grows [OF call, of k] True by simp
        then show ?thesis using that ok(8) pp(1) by simp
      next
        case k: False
        then have "real nn \<le> ?x" using res by blast
        then show ?thesis using False nm by linarith
      qed
      then have "1 \<le> nat \<lfloor>?x\<rfloor>" by (simp add: le_nat_iff le_floor_iff)
      then show ?thesis unfolding um using \<open>0 < nn\<close> by linarith
    qed
    have "linear_ok (?p', ?d')"
      using ok wr newpos ratio last16 res lo by (auto simp: linear_ok_def call_data_def)
    moreover have "u \<le> nn" using um by simp
    ultimately show ?thesis unfolding proc c(1)
      using km lo out16 used nm assms(6) by (intro exI [of _ ?p'] exI [of _ ?d']) (auto simp: in16_def mult.commute nat_mult_distrib)
  qed
qed

lemma linear_resampler:
  assumes "length front = 2" "\<forall>x \<in> set front. in16 x"
  shows "resampler (linear_env mal k sizes front) linear_ok in16 src_is_valid_ratio"
proof
  show "linear_ok st" if "src_new (linear_env mal k sizes front) = Some st" for st
    using that by (auto simp: linear_env_def dst_channels_def split: option.splits prod.splits intro: new_linear_ok)
  show "in16 (float_of_int (linear_env mal k sizes front) v)" if "- 32768 \<le> v" "v \<le> 32767" for v
    using that by (simp add: linear_env_def in16_def)
next
  fix st r n m inp st' used gen out
  assume a: "linear_ok st" "src_is_valid_ratio r" "0 \<le> n" "n \<le> 512" "0 < m" "m \<le> 1024" "int (length inp) = 2 * n" "\<forall>x \<in> set inp. in16 x"
    and s: "src_process (linear_env mal k sizes front) st inp n m r = (st', used, gen, out)"
  from process_call [OF a assms] obtain psrc d where
    "lib_src_process (Some (fst st)) (Some (call_data front (snd st) inp n m r)) = Some (SRC_ERR_NO_ERROR, Some psrc, Some d)"
    and p: "linear_ok (psrc, d)" "0 \<le> sd_input_frames_used d" "sd_input_frames_used d \<le> n" "0 \<le> sd_output_frames_gen d" "sd_output_frames_gen d \<le> m"
    "int (length (take (nat (2 * sd_output_frames_gen d)) (the (sd_out d)))) = 2 * sd_output_frames_gen d"
    "\<forall>x \<in> set (take (nat (2 * sd_output_frames_gen d)) (the (sd_out d))). in16 x" "0 < n \<longrightarrow> m = 1024 \<longrightarrow> 0 < sd_input_frames_used d" by blast
  with s have "st' = (psrc, d)" "used = sd_input_frames_used d" "gen = sd_output_frames_gen d"
    "out = take (nat (2 * sd_output_frames_gen d)) (the (sd_out d))" by (auto simp: linear_env_def dst_channels_def)
  with p int16_in16 show "linear_ok st' \<and> 0 \<le> used \<and> used \<le> n \<and> 0 \<le> gen \<and> gen \<le> m \<and> int (length out) = 2 * gen \<and>
    (\<forall>x \<in> set out. \<exists>v. int16_of_float (linear_env mal k sizes front) x = Some v) \<and> (0 < n \<longrightarrow> m = 1024 \<longrightarrow> 0 < used)"
    by (auto simp: linear_env_def)
qed

interpretation linear: resampler "linear_env (\<lambda>_ n. Some (replicate n 0)) 0 (0, 0) [0, 0]" linear_ok in16 src_is_valid_ratio
  by (rule linear_resampler) (simp_all add: in16_def)

section \<open>A frame that is made and dropped\<close>

text \<open>When the ring buffer has room for one frame and the next frame lies before the end of the current one, the library makes
  a frame and uses none: the loop stops there without a push, and the place has moved on.\<close>

lemma frame_dropped:
  assumes "length front = 2" "\<forall>x \<in> set front. in16 x" "sr_ok linear_ok in16 sr" "sr_state sr = Some (p, d)" "ring_wf rb"
    "4 \<le> ring_cap rb - ring_len rb" "ring_cap rb - ring_len rb < 8" "0 \<le> len" "len \<le> int (length buf)"
    "2 \<le> sr_input_frames sr + min (512 - sr_input_frames sr) (len div 4)" "src_is_valid_ratio r" "sp_last_ratio p = r" "sp_last_position p + 1 / r < 1"
  shows "\<exists>c sr' p' d'. samplerate_convert_process (linear_env mal k sizes front) r 2 buf len (sr, rb) = Some (c, sr', rb) \<and>
    sr_state sr' = Some (p', d') \<and> sd_output_frames_gen d' = 1 \<and> sd_input_frames_used d' = 0 \<and> sp_last_position p' = sp_last_position p + 1 / r"
proof -
  let ?env = "linear_env mal k sizes front"
  have two: "(2::int) = 1 \<or> (2::int) = 2" by simp
  have l: "(len - 0) div (2 * 2) = len div 4" by simp
  have m: "min 1024 (int (ring_cap rb - ring_len rb) div 4) = 1" using assms(6,7) by auto
  let ?fc = "min (512 - sr_input_frames sr) (len div 4)"
  let ?n = "sr_input_frames sr + ?fc"
  from resampler.convert_pass_call [OF linear_resampler [OF assms(1,2)] assms(3,5,4) two order_refl assms(8,9,6), where ratio = r, unfolded l m]
  obtain inp where inp: "length inp = 1024" "\<forall>x \<in> set inp. in16 x" "0 \<le> ?n" "?n \<le> 512"
    and pass: "\<And>st' used gen out. src_process ?env (p, d) (take (nat (?n * 2)) inp) ?n 1 r = (st', used, gen, out) \<Longrightarrow>
      convert_pass ?env r 2 buf len 0 (sr, rb) = convert_commit ?env len (0 + ?fc * (2 * 2))
        (sr\<lparr>sr_state := Some st', sr_input := inp, sr_input_frames := ?n - used\<rparr>, rb) used gen out" by metis
  let ?inp = "take (nat (?n * 2)) inp"
  let ?d = "(call_data front d ?inp ?n 1 r)\<lparr>sd_input_frames_used := 0, sd_output_frames_gen := 0\<rparr>"
  have ok: "linear_ok (p, d)" using assms(3,4) by (simp add: sr_ok_def)
  then obtain q out0 where q: "sp_private_data p = Some q" "ld_channels q = 2" "2 \<le> length (ld_last_value q)" "0 \<le> sp_last_position p"
    "sp_last_position p \<le> 256" "sd_out d = Some out0" "length out0 = 2048" by (auto simp: linear_ok_def)
  have r: "1 / 256 \<le> r" "r \<le> 256" using assms(11) by (simp_all add: src_is_valid_ratio_def good_ratio)
  have wr: "with_ratio r p = p" using assms(12) by (simp add: with_ratio_def)
  define n where "n = nat ?n"
  have n: "?n = int n" "2 \<le> n" "n \<le> 512" using assms(10) inp(3,4) by (simp_all add: n_def)
  have call: "call_ok p ?d 2 n 1 ?inp"
    using n(1,3) inp(1) q(4,5) assms(11,12) by (simp add: call_ok_def call_data_def src_is_valid_ratio_def)
  have dd: "sd_input_frames ?d = int n" "sd_out ?d = Some out0" using n(1) q(6) by (simp_all add: call_data_def)
  have "ld_channels q = int 2" "0 < n" "1 * 2 \<le> length out0" "2 \<le> length (sd_front ?d)" using q(2,7) n(2) assms(1) by (simp_all add: call_data_def)
  from linear_call [OF call q(1) this(1) q(3) dd(1) this(2) dd(2) this(3)] this(4) obtain j u q' out where
    c: "linear_vari_process p ?d = Some (SRC_ERR_NO_ERROR,
      p\<lparr>sp_last_position := sample_pos p ?d j - real u, sp_last_ratio := ratio_before p ?d j, sp_private_data := Some q'\<rparr>,
      ?d\<lparr>sd_out := Some out, sd_input_frames_used := int u, sd_output_frames_gen := int j\<rparr>)" (is "_ = Some (_, ?p', ?d')")
    "linear_result p ?d q 2 n 1 ?inp out0 j u q' out" by blast
  have steady: "sample_pos p ?d i = sp_last_position p + real i / r" for i
    using steady_pos(1) [of p ?d i] assms(12) by (simp add: call_data_def)
  have "0 < 1 / r" using r by simp
  then have "sp_last_position p < 1" using assms(13) by linarith
  then have j: "j = 1" using c(2) n(2) steady [of 0] by (cases j) (auto simp: linear_result_def)
  have fl: "\<lfloor>sp_last_position p + 1 / r\<rfloor> = 0" using assms(13) q(4) \<open>0 < 1 / r\<close> by (simp add: floor_eq_iff)
  then have u: "u = 0" using c(2) j steady [of 1] by (simp add: linear_result_def)
  have "lib_src_process (Some p) (Some (call_data front d ?inp ?n 1 r)) = Some (SRC_ERR_NO_ERROR, Some ?p', Some ?d')"
    using process_is_linear [OF ok assms(11) inp(3,4), of 1] c(1) by (simp add: wr)
  then have "src_process ?env (p, d) ?inp ?n 1 r = ((?p', ?d'), 0, 1, take 2 out)"
    using j u by (simp add: linear_env_def dst_channels_def)
  from pass [OF this] have "convert_pass ?env r 2 buf len 0 (sr, rb) = Some (False, ?fc * 4,
      sr\<lparr>sr_state := Some (?p', ?d'), sr_input := inp, sr_input_frames := ?n\<rparr>, rb)"
    by (simp add: convert_commit_def)
  then have "samplerate_convert_process ?env r 2 buf len (sr, rb) = Some (?fc * 4,
      sr\<lparr>sr_state := Some (?p', ?d'), sr_input := inp, sr_input_frames := ?n\<rparr>, rb)"
    using assms(4) by (simp add: samplerate_convert_process_def convert_loop.simps [of _ _ _ _ _ 0])
  then show ?thesis using j u steady [of 1] by (intro exI [of _ "?fc * 4"] exI) auto
qed

end
