(* ===== verification/Spec2Isabelle.thy ===== *)
theory Spec2Isabelle
  imports Prelude Byte_Fifo Ring_Buffer Direct_Buffer Common_Buffer Common_Event Com_Fsm Async_Task Audio_Queue
    Id3_Tag Pcm_Trans Mp3_Decoder Samplerate_Convert Prompt_Flash Aac_Decoder Com_Player
    C_String Http_Request Http_Response Http_Download Os_Layer Audio_File File_Cursor Audio_Player Player_View
    Player_Consistent Player_Input Players Message_Queue Pcm_Preprocess Audio_Test Download_Test Source_Test
    Convert_Test Com_Player_Test Linear_Converter Linear_Library
begin

text \<open>
  A verification development for the audio player: a program that plays MP3, AAC and M4A sound
  from the network, from a memory card or from prompt sounds in flash, through a decoder, a sample
  rate converter and ALSA.

  \<^bold>\<open>The program and its theories.\<close> At the bottom are the byte buffers of utils/:
  \<open>Ring_Buffer\<close> (ring_buffer.c, a circular array that keeps one byte free),
  \<open>Common_Buffer\<close> (common_buffer.c, a list of ring buffers with a common limit) and
  \<open>Direct_Buffer\<close> (direct_buffer.c, a linear array). \<open>Byte_Fifo\<close> states what they
  promise, a byte queue, as locales, and each buffer interprets them. \<open>Common_Event\<close> is the
  event group of src/common_event.c and \<open>Com_Fsm\<close> the table-driven machine of
  utils/common_fsm.c that runs a task for each component; its contract for clients is the locale
  \<open>fsm_safe\<close> with its extension \<open>fsm_client\<close>. \<open>Async_Task\<close> (utils/async_task.c),
  \<open>Pcm_Trans\<close> (src/pcm_trans.c), \<open>Mp3_Decoder\<close> (src/mp3_decoder.c) and
  \<open>Aac_Decoder\<close> (src/aac_decoder.c) are machines of that kind and interpret the contract.
  \<open>Samplerate_Convert\<close> (src/samplerate_convert.c) fills the player's ring buffer; what it needs of a library is the
  locale \<open>resampler\<close>, \<open>Linear_Converter\<close> is the linear converter of libsamplerate that it selects, and
  \<open>Linear_Library\<close> shows that the contract holds for it.
  \<open>Com_Player\<close> (src/common_player.c) joins decoder, converter, ring buffer and transmitter.
  \<open>Audio_Queue\<close> (src/audio_queue.c) is the play list, \<open>Id3_Tag\<close> (src/id3tag.c) reads tag
  sizes, \<open>Prompt_Flash\<close> (prompt/) finds prompt sounds. \<open>Http_Request\<close> and
  \<open>Http_Response\<close> are the two halves of utils/httpclient.c, over the string functions of
  \<open>C_String\<close>; \<open>Http_Download\<close> (utils/http_download_process.c) is the machine that fetches
  a URL with them into a common buffer. \<open>Os_Layer\<close> (os/typedefs.c, utils/log_print.c) has ticks, mutexes, threads,
  files, log lines and the memory report,
  \<open>Audio_File\<close> (src/audio_file.c) puts card, flash and download behind one interface, and
  \<open>File_Cursor\<close> states what a source promises as the locale \<open>file_source\<close>, interpreted for
  card files and prompt sounds. \<open>Audio_Player\<close> (src/audio_player_process.c) is the machine on top: it
  opens a source, hands it to the player and carries out start, stop, pause, break, resume and seek;
  \<open>Player_View\<close> says what each operation does to one process, \<open>Player_Consistent\<close> interprets the
  machine's contract with its invariant and follows the client's calls, \<open>Player_Input\<close> follows the bytes
  to the decoder; \<open>Players\<close> puts several such processes side by side, as the application has one for
  music and one for prompts. \<open>Message_Queue\<close> (src/common_queue.c, src/audio_message_queue.c) and
  \<open>Pcm_Preprocess\<close> (src/pcm_preprocess.c, the recording side) stand beside it. The application (app/) is
  a client of each layer: \<open>Audio_Test\<close> is the program that main runs, two players and a list of sounds,
  \<open>Download_Test\<close> copies a download to a file, \<open>Source_Test\<close> compares two sources of one sound (over the
  locale \<open>two_sources\<close>, two copies of \<open>file_source\<close>), \<open>Convert_Test\<close> sends a file through the converter, and
  \<open>Com_Player_Test\<close> plays a file without a process. \<open>Prelude\<close> has C's integers, memory access and
  allocation, and the lemmas the theories share.

  \<^bold>\<open>Conventions.\<close> A function with an undefined result for some input (an access outside an
  object, a NULL pointer, overflow of \<open>int\<close>, a failed assertion) returns an option, and
  \<open>None\<close> is that outcome; theorems that a result exists are therefore statements of memory
  safety. Unsigned integers are words, \<open>int\<close> is an integer with its range checked,
  \<open>double\<close> is a real number. The result of the n-th \<open>malloc\<close> is a parameter of type
  \<open>allocator\<close>, and functions that allocate count their calls. Loops whose end is not structural
  are \<open>partial_function\<close>s over options, so that not ending is \<open>None\<close> as well; the
  theorems show that they end. Libraries that are not part of the program (ALSA, libmad, FAAD with
  mp4ff) and the callbacks a component is given are fields of an environment record.
  What other threads do during a wait is an explicit argument (the wake-ups of a wait, the function
  \<open>serve\<close> of a signal), or the step relations \<open>fsm_step\<close> and \<open>player_step\<close>.

  \<^bold>\<open>What is shown.\<close> A player process is consistent: in every state that its machine and all other
  threads reach, its state, its open file, the ownership of the transmitter and what its client was
  told agree (C1); its calls keep that, refuse what the state does not allow and give the mutex
  back (C12); and the decoder gets the sound from its first byte on (C7). Processes side
  by side stay consistent and exclude each other (C2), a start while another one plays is refused
  (C13), the program that main runs keeps all that in every state of its run (C3), and one player at most owns the transmitter (C4). A file of the card or a prompt sound is a cursor over its
  contents (C6), a finished download a stream (C23), and two sources of one sound cannot be told apart (C24). A content of known length arrives
  complete and in order (C5), a range request is sent exactly (C19), the download task's objects
  are safe in every reachable state (C8), and what it receives goes to the shared buffer (C26), from where a client copies it completely (C25).
  The linked play list refines a list with a cursor (C9) and is freed completely (C36). The
  buffers deliver what they accepted, in order (C10, C11). The transmitter's handle and the
  decoders' memory are safe in every reachable state (C27, C16, C28), decoded frames become
  the right bytes (C32, C17), the converter ends within its bounds (C14) with
  the linear interpolation of the whole stream (C15), and samples flow from decoder
  to ring buffer to sound card in order (C34, C18). Recorded bytes reach the echo canceller in
  frames, without loss (C22), and message queues are bounded lists (C33). Machines run the first row
  that matches (C21), jobs run in order (C35), waits partition the pending
  events (C29). Prompt sounds are read exactly (C31), the client's URL parsing and base64 are right (C30, C38). Some
  theorems state what goes wrong: a read in front of the input when the converter gets a single
  frame (C20), an uninitialised read after an M4A seek (C37), a call that never returns when a chunk ends with the
  buffer (C39), a seek that does not return (C40),
  an end of input that is never told for M4A (C7). Further theorems without a number complete the
  picture of a component (jobs are queued or dropped, syncsafe sizes, overruns with more than two
  channels, seeks in MP3 files, types by extension, decoded tag sizes and the bounds of tag queries, writes past an
  MP3 buffer that could not grow, a frame that the conversion makes and drops, prompt names that match by prefix,
  the decoders' linear buffer as a byte queue, exact deadlines, a failed connection that is not retried, the end of a
  download that its copy can lose).

  \<^bold>\<open>Build.\<close> The model follows the Linux build: AAC enabled, two fixed channels (ES8388, STEREO), half
  sample rate from 44100 on.

  \<^bold>\<open>Not modelled.\<close> TLS is not part of the build; sockets and name resolution are a record of what each
  call will meet. The external wake-up pin of pcm_preprocess.c is enabled in no build, and the first
  halves of audio_message_queue.c are compiled out. Of the two versions of samplerate_convert_test the first is
  compiled out. What is printed is a result of the functions that compute it, or left out; ALSA, libmad, FAAD and mp4ff are
  parameters, and of libsamplerate only the linear converter is modelled, not the sinc filters, the zero order hold and the
  callback interface, which nothing here uses. Floating point numbers are reals: rounding is not modelled.
\<close>
section \<open>Buffers\<close>

definition demo_ring :: ring_buffer where
  "demo_ring = snd (ring_buffer_init zero_alloc 0 4)"

lemma demo_ring_wf: "ring_wf demo_ring" "ring_contents demo_ring = []" "ring_cap demo_ring = 4"
  using ring_init [OF zero_alloc_ok, of 4 0] by (simp_all add: demo_ring_def zero_alloc_def)

text \<open>C10: Ring buffer. Any script of pushes and pops on a well-formed ring buffer runs without
  undefined behaviour and delivers exactly the bytes it accepted, in order, after those that were
  queued before; a push accepts as much as there is room for.\<close>

theorem ring_delivers_in_order:
  assumes "ring_wf rb" "list_all op_small ops"
  shows "(\<exists>i out rb'. fifo_run ring_push_bytes ring_pop_bytes ops rb = Some (i, out, rb') \<and>
      ring_wf rb' \<and> ring_cap rb' = ring_cap rb \<and> ring_contents rb @ i = out @ ring_contents rb') \<and>
    (\<forall>bs. length bs < 2147483648 \<longrightarrow> (\<exists>rb'. ring_push_bytes rb bs =
      Some (min (length bs) (ring_cap rb - length (ring_contents rb)), rb')))"
  using ring.run_stream [OF assms] ring.push_greedy [OF assms(1)] by blast

theorem ring_delivers_in_order_witness:
  "\<exists>i out rb'. fifo_run ring_push_bytes ring_pop_bytes [Push [1, 2, 3], Pop 2, Push [4, 5, 6], Pop 9] demo_ring =
     Some (i, out, rb') \<and> i = out @ ring_contents rb'"
  using ring_delivers_in_order [OF demo_ring_wf(1), of "[Push [1, 2, 3], Pop 2, Push [4, 5, 6], Pop 9]"]
  by (auto simp: demo_ring_wf(2))

definition demo_common :: common_buffer where
  "demo_common = common_buffer_init 4 16"



definition demo_direct :: direct_buffer where
  "demo_direct = \<lparr>db_read = 0, db_write = 0, db_size = 4, db_buffer = Some [0, 0, 0, 0]\<rparr>"

lemma demo_direct_wf: "direct_wf demo_direct" "direct_contents demo_direct = []" "direct_cap demo_direct = 4"
  by (simp_all add: demo_direct_def direct_wf_def direct_contents_def direct_cap_def)

text \<open>Direct buffer. The linear buffer of the decoders is a byte queue too: scripts of pushes
  and pops are defined and deliver the accepted bytes in order.\<close>

theorem direct_delivers_in_order:
  assumes "direct_wf db" "list_all op_small ops"
  shows "\<exists>i out db'. fifo_run direct_push_bytes direct_pop_bytes ops db = Some (i, out, db') \<and>
    direct_wf db' \<and> direct_cap db' = direct_cap db \<and> direct_contents db @ i = out @ direct_contents db'"
  using direct.run_stream [OF assms] by blast

theorem direct_delivers_in_order_witness:
  "\<exists>i out db'. fifo_run direct_push_bytes direct_pop_bytes [Push [1, 2, 3], Pop 2] demo_direct =
     Some (i, out, db') \<and> i = out @ direct_contents db'"
  using direct_delivers_in_order [OF demo_direct_wf(1), of "[Push [1, 2, 3], Pop 2]"]
  by (auto simp: demo_direct_wf(2))

section \<open>State machines\<close>




text \<open>C35: Asynchronous tasks. On a live worker, as many rounds of its task as jobs are queued run
  exactly these jobs, in the order they were added, and leave the worker live with nothing queued,
  whatever the waits in between return.\<close>

theorem async_runs_all_jobs:
  assumes "async_live (f, q, w) js" "length wss = length js"
  shows "\<exists>f' q'. com_fsm_loop (async_task_exe_action call) wss (f, q, w) = Some (True, f', q', fold call js w) \<and>
    async_live (f', q', fold call js w) []"
  using async_drain [OF assms] .

theorem async_runs_all_jobs_witness:
  "\<exists>s f' q'. async_live s [\<lparr>user_data = 1, user_data2 = 2, callback = 3\<rparr>] \<and>
     com_fsm_loop (async_task_exe_action (\<lambda>x w. user_data x # w)) [[]] s = Some (True, f', q', [1])"
proof -
  let ?x = "\<lparr>user_data = 1, user_data2 = 2, callback = 3\<rparr>"
  obtain k f q where c: "async_task_create zero_alloc 0 = (k, Some (Some f, q))"
    by (simp add: async_task_create_def com_fsm_create_inner_def zero_alloc_def)
  then have "common_cap q = 655360"
    using common_init [of 10240 655360] by (auto simp: async_task_create_def split: if_splits prod.splits)
  moreover obtain k' f' q' where "async_task_add zero_alloc 0 (f, q, [] :: u64 list) ?x = Some (k', f', q', [])"
    "async_live (f', q', [] :: u64 list) ([] @ [?x]) \<or> q' = q \<and> common_cap q < 24 * length ([] :: async_execute list) + 24"
    by (rule async_add_live [OF async_create_live [OF c], where k = 0 and x = ?x and w = "[]"])
  ultimately have l: "async_live (f', q', [] :: u64 list) [?x]" by simp
  have "\<exists>f'' q''. com_fsm_loop (async_task_exe_action (\<lambda>x w. user_data x # w)) [[]] (f', q', []) = Some (True, f'', q'', [1])"
    using async_runs_all_jobs [OF l, of "[[]]" "\<lambda>x w. user_data x # w"] by auto
  with l show ?thesis by blast
qed

text \<open>Adding a task. On a live worker an added job is queued behind the others and its event is
  pending, so that the next round cannot miss it; only when the buffer has no room for it is it
  dropped, without notice.\<close>

theorem async_add_queues_or_drops:
  assumes "async_live (f, q, w) js"
  shows "\<exists>k' f' q'. async_task_add zero_alloc k (f, q, w) x = Some (k', f', q', w) \<and>
    (async_live (f', q', w) (js @ [x]) \<or> q' = q \<and> common_cap q < 24 * length js + 24)"
proof -
  obtain k' f' q' where "async_task_add zero_alloc k (f, q, w) x = Some (k', f', q', w)"
    "async_live (f', q', w) (js @ [x]) \<or> q' = q \<and> common_cap q < 24 * length js + 24"
    by (rule async_add_live [OF assms])
  then show ?thesis by blast
qed

theorem async_add_queues_or_drops_witness:
  "\<exists>f q k' f' q'. async_task_add zero_alloc 0 (f, q, ()) \<lparr>user_data = 1, user_data2 = 2, callback = 3\<rparr> =
     Some (k', f', q', ())"
proof -
  obtain k f q where c: "async_task_create zero_alloc 0 = (k, Some (Some f, q))"
    by (simp add: async_task_create_def com_fsm_create_inner_def zero_alloc_def)
  from async_add_queues_or_drops [OF async_create_live [OF c, of "()"]] show ?thesis by blast
qed

text \<open>C29: Event groups. A wait that returns has seen exactly the operations of the other threads up to
  some wake-up; it takes bits out of the group and changes no other bit: what it returns and what it
  leaves partition the bits pending at that moment, and what it returns is either nothing (a
  timeout) or all pending bits asked for.\<close>

theorem event_wait_partitions:
  assumes "common_wait_event ev bits timeout ws = Some (ret, ev')"
  shows "\<exists>k. k \<le> length ws \<and> ret OR ev' = pending_after k ws ev \<and> ret AND ev' = 0 \<and>
    (ret = 0 \<or> ret = pending_after k ws ev AND bits)"
  using common_wait_partition [OF assms] .

theorem event_wait_partitions_witness:
  "\<exists>ret ev'. common_wait_event 4 3 100 [Wakeup [Set_Bits 8] False, Wakeup [Set_Bits 1] False] = Some (ret, ev') \<and>
     ret AND ev' = 0"
proof -
  have "common_wait_event 4 3 100 [Wakeup [Set_Bits 8] False, Wakeup [Set_Bits 1] False] = Some (1, 12)"
    by (simp add: common_wait_event_def common_set_event_def)
  with event_wait_partitions [OF this] show ?thesis by auto
qed

text \<open>Deadlines. The absolute deadline of a timed wait is the time of day plus the timeout to the
  nanosecond, with a nanosecond part in range.\<close>

theorem deadline_exact:
  assumes "event_deadline s us timeout = (s', ns')" "0 \<le> us" "us < 1000000"
  shows "s' * 1000000000 + ns' = s * 1000000000 + us * 1000 + uint timeout * 1000000 \<and>
    0 \<le> ns' \<and> ns' < 1000000000"
  using event_deadline_exact [OF assms] .

theorem deadline_exact_witness:
  "event_deadline 5 999999 1001 = (7, 999000) \<and> (7::int) * 1000000000 + 999000 = 5 * 1000000000 + 999999 * 1000 + 1001 * 1000000"
proof -
  have "event_deadline 5 999999 1001 = (7, 999000)" by (simp add: event_deadline_def)
  with deadline_exact [OF this] show ?thesis by simp
qed

section \<open>Play list\<close>

text \<open>C9: Play list. Every script of pushes, pops and cursor moves on the linked list in the heap
  gives the answers of the same script on a list with a cursor: first in, first out, the cursor
  staying on its item while the list grows and shrinks, errors at the ends and for an empty list;
  no step follows a dangling pointer.\<close>

theorem playlist_refines_list:
  assumes "aq_exact s a" "run_script aq_spec xs a = Some (rs, a')"
  shows "\<exists>s'. run_script aq_exec xs s = Some (rs, s') \<and> aq_exact s' a'"
  using queue_script [OF assms] .

theorem playlist_refines_list_witness:
  "\<exists>s'. run_script aq_exec [Op_Push 100 1, Op_Push 200 2, Op_Next, Op_Next, Op_Pop, Op_Current, Op_Next, Op_Pop, Op_Pop]
     (audio_queue_init True, \<lparr>aq_nodes = \<lambda>_. None, aq_infos = {}\<rparr>) =
   Some ([(AUDIO_QUEUE_SUCCESS, None), (AUDIO_QUEUE_SUCCESS, None), (AUDIO_QUEUE_SUCCESS, Some 1),
     (AUDIO_QUEUE_SUCCESS, Some 2), (AUDIO_QUEUE_SUCCESS, Some 1), (AUDIO_QUEUE_SUCCESS, Some 2),
     (AUDIO_QUEUE_ERR_MOVE, None), (AUDIO_QUEUE_SUCCESS, Some 2), (AUDIO_QUEUE_ERR_EMPTY, None)], s')"
proof -
  have "aq_exact (audio_queue_init True, \<lparr>aq_nodes = \<lambda>_. None, aq_infos = {}\<rparr>) ([], None)"
    using queue_init by (simp add: aq_exact_def)
  from playlist_refines_list [OF this, of "[Op_Push 100 1, Op_Push 200 2, Op_Next, Op_Next, Op_Pop, Op_Current, Op_Next, Op_Pop, Op_Pop]"]
  show ?thesis by (force simp: moved_def abs_next_def abs_prev_def abs_pop_cursor_def)
qed

text \<open>C36: Clearing the play list. Clear ends, frees every node and every queued item exactly once and
  nothing else, and leaves an empty list.\<close>

theorem playlist_clear_frees_all:
  assumes "aq_rep (q, h) (xs, c)" "distinct (map snd xs)" "snd ` set xs \<subseteq> aq_infos h"
  shows "\<exists>q' h'. audio_queue_clear (q, h) = Some (AUDIO_QUEUE_SUCCESS, q', h') \<and>
    aq_rep (q', h') ([], None) \<and> aq_infos h' = aq_infos h - snd ` set xs \<and>
    aq_nodes h' = (\<lambda>a. if a \<in> fst ` set xs then None else aq_nodes h a)"
proof -
  obtain q' h' where "audio_queue_clear (q, h) = Some (AUDIO_QUEUE_SUCCESS, q', h')"
    "aq_rep (q', h') ([], None)" "aq_infos h' = aq_infos h - snd ` set xs"
    "aq_nodes h' = (\<lambda>a. if a \<in> fst ` set xs then None else aq_nodes h a)"
    by (rule queue_clear [OF assms])
  then show ?thesis by blast
qed

theorem playlist_clear_frees_all_witness:
  "\<exists>s q' h'. audio_queue_push (Some 100) (Some 1) (audio_queue_init True, \<lparr>aq_nodes = \<lambda>_. None, aq_infos = {1, 2}\<rparr>) =
     Some (AUDIO_QUEUE_SUCCESS, s) \<and> audio_queue_clear s = Some (AUDIO_QUEUE_SUCCESS, q', h') \<and> aq_infos h' = {2}"
proof -
  obtain q h where p: "audio_queue_push (Some 100) (Some 1) (audio_queue_init True, \<lparr>aq_nodes = \<lambda>_. None, aq_infos = {1, 2}\<rparr>) =
      Some (AUDIO_QUEUE_SUCCESS, q, h)" "aq_rep (q, h) ([] @ [(100, 1)], None)" "aq_infos h = {1, 2}"
    by (rule queue_push [OF queue_init [of "\<lparr>aq_nodes = \<lambda>_. None, aq_infos = {1, 2}\<rparr>"], of 100 1]) simp_all
  from playlist_clear_frees_all [OF p(2)] p(1,3) show ?thesis by fastforce
qed

section \<open>Tags and prompts\<close>

text \<open>Syncsafe sizes. Encoding a tag size in four bytes of seven bits and decoding it gives the
  size back.\<close>

theorem syncsafe_sizes_round_trip:
  assumes "n < 268435456"
  shows "\<exists>w. id3_parse_syncsafe (syncsafe n @ rest) 4 = Some (w, rest) \<and> unat w = n"
proof -
  have l: "length (syncsafe n) = 4" by (simp add: syncsafe_def)
  obtain w where "id3_parse_syncsafe (syncsafe n @ rest) 4 = Some (w, drop 4 (syncsafe n @ rest))"
    "unat w = syncsafe_value (take 4 (syncsafe n @ rest))"
    by (rule parse_syncsafe [of "syncsafe n @ rest"]) (simp_all add: l)
  with l syncsafe_roundtrip [OF assms] show ?thesis by simp
qed

theorem syncsafe_sizes_round_trip_witness:
  "\<exists>w. id3_parse_syncsafe (syncsafe 1000000 @ [7]) 4 = Some (w, [7]) \<and> unat w = 1000000"
  using syncsafe_sizes_round_trip [of 1000000 "[7]"] by simp

text \<open>Tag query. For every input the query returns without reading behind the given length, and
  its result is no tag, an ID3v1 tag of 128 bytes, the size of an ID3v2 tag in its range, or the
  negated size before a footer.\<close>

theorem tag_query_total:
  assumes "unat len \<le> length d"
  shows "\<exists>r. id3_tag_query d len = Some r \<and>
    (r = 0 \<or> r = 128 \<or> (10 \<le> r \<and> r < 268435476) \<or> (- 268435466 < r \<and> r \<le> - 10))"
  using id3_query_cases [OF assms] .

theorem tag_query_total_witness:
  "\<exists>r. id3_tag_query [0x49, 0x44, 0x33, 4, 0, 0, 0, 0, 2, 1] 10 = Some r \<and> - 268435466 < r"
  using tag_query_total [of 10 "[0x49, 0x44, 0x33, 4, 0, 0, 0, 0, 2, 1]"] by auto

text \<open>Tag size. For data that starts with a proper ID3v2 header, the query returns header plus
  the size the header states, and the footer's ten bytes when the header announces one.\<close>

theorem tag_query_size:
  assumes "10 \<le> unat len" "unat len \<le> length d" "take 3 d = [0x49, 0x44, 0x33]" "id3v2_bounds d"
    "take 4 (drop 6 d) = syncsafe n" "n < 268435456"
  shows "id3_tag_query d len = Some (int (10 + n + (if d ! 5 AND 0x10 \<noteq> 0 then 10 else 0)))"
  using id3_v2 [OF assms(1-4)] syncsafe_roundtrip [OF assms(6)] by (simp add: tag_of_def assms(5))

theorem tag_query_size_witness:
  "id3_tag_query [0x49, 0x44, 0x33, 4, 0, 0x10, 0, 0, 2, 1] 10 = Some 277"
  using tag_query_size [of 10 "[0x49, 0x44, 0x33, 4, 0, 0x10, 0, 0, 2, 1]" 257]
  by (simp add: id3v2_bounds_def syncsafe_def)

definition demo_image :: images where
  "demo_image d = le_bytes 4 (8 :: u32) @ le_bytes 4 (3 :: u32) @ [1, 2, 3]"

text \<open>C31: Prompt sounds. Reading a prompt by its name yields exactly the bytes of the sound that the
  directory of its flash image has under the position of that name, for every name of the four
  lists and every image that holds a sound there.\<close>

theorem prompt_reads_sound:
  assumes "d < 4" "k < length (fst (data_info ! d))" "image_entry (img d) k off sound"
    "mal i (length sound) \<noteq> None"
  shows "prompt_audio_data_get_by_name mal i img (Some (fst (data_info ! d) ! k)) = Some (Some sound)"
  using prompt_by_name [where img = img and mal = mal and i = i, OF assms] .

theorem prompt_reads_sound_witness:
  "prompt_audio_data_get_by_name zero_alloc 0 demo_image (Some (fst (data_info ! 2) ! 0)) = Some (Some [1, 2, 3])"
proof (rule prompt_reads_sound)
  show "0 < length (fst (data_info ! 2))" by (simp add: data_info_def prompt_file_name_3_def)
  show "image_entry (demo_image 2) 0 8 [1, 2, 3]"
    by (simp add: image_entry_def demo_image_def le_bytes_def upt_rec)
qed (simp_all add: zero_alloc_def)

text \<open>Prompt lookup. A lookup that finds an entry found one that begins with the name: the
  comparison stops at the name's length, so a name that is a prefix of an entry finds it.\<close>

theorem prompt_lookup_is_prefix_match:
  assumes "prompt_file_index_get (Some name) = Some (Some (i, k))"
  shows "i < 4 \<and> k < length (fst (data_info ! i)) \<and> strncmp_eq name (fst (data_info ! i) ! k) (length name)"
proof -
  from assms have "prompt_search name data_info 0 = Some (i, k)" by (simp add: prompt_file_index_get_def)
  from prompt_search_sound [OF this] show ?thesis by (simp add: data_info_def)
qed

theorem prompt_lookup_is_prefix_match_witness:
  "prompt_file_index_get (Some ''NwCfg'') = Some (Some (2, 5)) \<and> strncmp_eq ''NwCfg'' (fst (data_info ! 2) ! 5) 5"
proof -
  have "prompt_file_index_get (Some ''NwCfg'') = Some (Some (2, 5))" by code_simp
  with prompt_lookup_is_prefix_match [OF this] show ?thesis by (simp add: eval_nat_numeral)
qed


section \<open>Transmitter and decoders\<close>

definition demo_pcm :: "(unit, unit) pcm_env" where
  "demo_pcm = \<lparr>snd_open = \<lambda>_ w. (0, w), snd_params = \<lambda>_ _ _ w. (0, w), snd_writei = \<lambda>_ n w. (n, w),
     snd_readi = \<lambda>_ w. (0, [], w), snd_recover = \<lambda>e w. (0, w), snd_prepare = id, snd_drop = id, snd_close = id,
     pcm_call = \<lambda>_ q n w. Some (0, q, w), pcm_malloc = \<lambda>n w. (Some (replicate (nat n) 0), w)\<rparr>"

definition demo_tx :: "u32 \<Rightarrow> u32 \<Rightarrow> u32 \<Rightarrow> pcm_action com_fsm" where
  "demo_tx ev ack st = \<lparr>event_handle = Some ev, event_ack_handle = Some ack, cur_state = st, lookup_table = lookup_tx,
     init_action = None, deinit_action = None\<rparr>"

text \<open>C27: Sound card handle. In every state that the transmitter's task, the signals of other threads
  and its interface can reach from the idle state, the handle is open outside the idle state and not
  open in it; the PCM buffer is not freed while the machine runs, so the stop action, which frees
  the buffer and closes the handle, always has a defined result there.\<close>

theorem transmitter_handle_safe:
  assumes "fsm_reach (pcm_exec env) pcm_api (f, p, w) (f', p', w')" "fsm_ready f"
    "map row_key (lookup_table f) = map row_key lookup_tx" "cur_state f = PCM_TRANS_STA_IDLE"
    "pcm_handle p \<noteq> Open_Handle" "keeps_buffer env"
  shows "if cur_state f' = PCM_TRANS_STA_IDLE then pcm_handle p' \<noteq> Open_Handle
    else cur_state f' \<in> {PCM_TRANS_STA_TX_RUN, PCM_TRANS_STA_TX_PAUSE, PCM_TRANS_STA_TX_DONE} \<and>
      pcm_handle p' = Open_Handle \<and> pcm_buffer p' \<noteq> Freed \<and>
      (\<exists>s. pcm_trans_tx_stop_action env (p', w') = Some (PCM_TRANS_STA_IDLE, s))"
proof -
  have "tx.fsm_inv env (f, p, w)" using assms(2-5) by (simp add: tx.fsm_inv_def tx_inv_def)
  from tx.reach_inv [OF assms(1) this] have "tx_inv env (cur_state f') (p', w')" by (simp add: tx.fsm_inv_def)
  with tx_stop_defined [of env p' w'] assms(6) show ?thesis by (auto simp: tx_inv_def pcm_live_def)
qed

theorem transmitter_handle_safe_witness:
  "\<exists>f p. fsm_reach (pcm_exec demo_pcm) pcm_api (demo_tx 1 0 0, pcm_trans_zero, ()) (f, p, ()) \<and>
     cur_state f = PCM_TRANS_STA_TX_RUN \<and> pcm_handle p = Open_Handle \<and> pcm_buffer p \<noteq> Freed"
proof -
  let ?p = "(pcm_trans_zero :: unit pcm_trans)\<lparr>pcm_handle := Open_Handle, pcm_size := 16384, pcm_buffer := Live (replicate 16384 0)\<rparr>"
  have "com_fsm_iteration (pcm_exec demo_pcm) [] (demo_tx 1 0 0, pcm_trans_zero, ()) = Some (True, demo_tx 0 1 2, ?p, ())"
    by (simp add: com_fsm_iteration_def com_fsm_dispatch_def com_fsm_ack_def common_wait_now common_set_event_def
        demo_tx_def lookup_tx_def lookup_match_def fsm_consts pcm_events pcm_states pcm_exec_def pcm_run_def
        pcm_trans_tx_start_action_def need_open_def demo_pcm_def ptr_of_def I2S_DATA_REQUEST_SIZE_def)
  then have r: "fsm_reach (pcm_exec demo_pcm) pcm_api (demo_tx 1 0 0, pcm_trans_zero, ()) (demo_tx 0 1 2, ?p, ())"
    by (intro fsm_reach.step [OF fsm_reach.start] fsm_step.round)
  have "if cur_state (demo_tx 0 1 2) = PCM_TRANS_STA_IDLE then pcm_handle ?p \<noteq> Open_Handle
    else cur_state (demo_tx 0 1 2) \<in> {PCM_TRANS_STA_TX_RUN, PCM_TRANS_STA_TX_PAUSE, PCM_TRANS_STA_TX_DONE} \<and>
      pcm_handle ?p = Open_Handle \<and> pcm_buffer ?p \<noteq> Freed \<and>
      (\<exists>s. pcm_trans_tx_stop_action demo_pcm (?p, ()) = Some (PCM_TRANS_STA_IDLE, s))"
    by (rule transmitter_handle_safe [OF r])
      (simp_all add: demo_tx_def fsm_ready_def pcm_states pcm_trans_zero_def keeps_buffer_def demo_pcm_def)
  then have "cur_state (demo_tx 0 1 2) = PCM_TRANS_STA_TX_RUN \<and> pcm_handle ?p = Open_Handle \<and> pcm_buffer ?p \<noteq> Freed"
    by (simp add: demo_tx_def pcm_states)
  with r show ?thesis by blast
qed


definition demo_mad :: "unit mad" where
  "demo_mad = \<lparr>ms_buffer = False, ms_bufend = 0, ms_this = None, ms_next = None, ms_error = 0, fr_samplerate = 44100,
     fr_bitrate = 128000, fr_options = 0, pcm_channels = 2, pcm_length = 1, pcm_samples = \<lambda>_ _. 0, mad_priv = ()\<rparr>"






text \<open>C32: MP3 samples. Every sample becomes a 16-bit value; away from the top of the fixed-point range
  it is the nearest multiple of 2 ^ 13, clipped.\<close>

theorem mp3_samples_rounded:
  assumes "- 2147483648 \<le> x" "x < 2147479552"
  shows "scale x = max (- 32768) (min 32767 ((x + 4096) div 8192)) \<and> (\<forall>y. - 32768 \<le> scale y \<and> scale y \<le> 32767)"
  using scale_round [OF assms] scale_range by blast

theorem mp3_samples_rounded_witness: "scale 268435455 = 32767 \<and> scale (- 12288) = - 1"
  using mp3_samples_rounded [of 268435455] mp3_samples_rounded [of "- 12288"] by simp

text \<open>MP3 frames. A decoded frame goes into the cleared output buffer as interleaved 16-bit
  little-endian samples, all of it; when the buffer is too small (its enlargement failed unnoticed)
  the loop writes past it.\<close>

theorem mp3_frame_written:
  assumes "direct_wf db"
  shows "case push_frame m (direct_buffer_clear db) of
      Some db' \<Rightarrow> length (frame_pcm m) \<le> direct_cap db \<and> direct_contents db' = frame_pcm m
    | None \<Rightarrow> direct_cap db < length (frame_pcm m)"
proof -
  from direct_clear [of db] assms have c: "direct_wf (direct_buffer_clear db)" "direct_contents (direct_buffer_clear db) = []"
    "direct_cap (direct_buffer_clear db) = direct_cap db" by simp_all
  then have f: "filling (direct_cap db) (direct_buffer_clear db)" by (simp add: filling_def direct_buffer_clear_def)
  show ?thesis
  proof (cases "length (frame_pcm m) \<le> direct_cap db")
    case True
    from push_frame_pcm [OF f c(2) this] True show ?thesis by auto
  next
    case False
    then have "push_frame m (direct_buffer_clear db) = None" by (intro push_frame_overflow) (simp_all add: c)
    with False show ?thesis by simp
  qed
qed

theorem mp3_frame_written_witness:
  "case push_frame demo_mad (direct_buffer_clear demo_direct) of
      Some db' \<Rightarrow> length (frame_pcm demo_mad) \<le> direct_cap demo_direct \<and> direct_contents db' = frame_pcm demo_mad
    | None \<Rightarrow> direct_cap demo_direct < length (frame_pcm demo_mad)"
  by (rule mp3_frame_written [OF demo_direct_wf(1)])

text \<open>C28: AAC poll. With memory, callbacks that keep their contracts, an allocator that gives and
  frames of at most 16384 samples, a poll of a raw AAC stream always has a defined result: whatever
  the input bytes and the library's answers, no access leaves a buffer and no counter overflows.\<close>

theorem aac_raw_poll_defined:
  assumes "aac_plenty env" "ad_mem d = Some mem" "aac_wf mem" "\<not> ad_is_m4a d"
    "ad_output d = Some co" "ad_input d = Some ci" "0 \<le> am_output_total mem" "am_output_total mem \<le> 1000000000"
    "am_output mem = None \<or> am_output_size mem \<le> 32768"
  shows "\<exists>r. aac_decoder_run_poll env (d, k, w) = Some r"
  using aac_poll_raw [OF assms] .

definition demo_aac :: "(unit, unit, unit, unit) aac_env" where
  "demo_aac = \<lparr>NeAACDecOpen = (), NeAACDecInit = \<lambda>_ m. (0, 44100, 2, m), NeAACDecInit2 = \<lambda>_ m. (0, 44100, 2, m),
     NeAACDecAudioSpecificConfig = \<lambda>_. 0,
     NeAACDecDecode = \<lambda>_ m. (\<lparr>fi_bytesconsumed = 0, fi_error = 0, fi_samples = [1, 258]\<rparr>, m),
     mp4ff_open_read = \<lambda>_ _ w. Some (Some (), w), mp4ff_total_tracks = \<lambda>_. 1,
     mp4ff_get_decoder_config = \<lambda>_ _. Some [0], mp4ff_num_samples = \<lambda>_ _. 10, mp4ff_get_avg_bitrate = \<lambda>_ _. 128000,
     mp4ff_get_track_duration = \<lambda>_ _. 10, mp4ff_read_sample = \<lambda>_ _ f _ _ w. Some (Some [0], f, w),
     aac_input = \<lambda>_ n w. (if 0 < n then (1, [7], w) else (0, [], w)), aac_error = \<lambda>_ _ w. w, aac_seek = \<lambda>_ _ w. (0, w),
     aac_output = \<lambda>_ _ bs n w. (n div 2, w), aac_alloc = zero_alloc, aac_mem_size = 5000\<rparr>"

definition demo_aac_mem :: "(unit, unit) aac_mem" where
  "demo_aac_mem = \<lparr>am_dec = (), am_info = decoder_info_zero, am_infile = None, am_track = 0, am_num_samples = 10,
     am_sample_id = 0, am_input = replicate 4608 0, am_remain = 0, am_output = None, am_output_size = 0,
     am_output_total = 0, am_error = 0\<rparr>"

definition demo_aac_decoder :: "bool \<Rightarrow> (unit, unit, unit) aac_decoder" where
  "demo_aac_decoder m4a = \<lparr>ad_is_m4a = m4a, ad_input_done = False, ad_output_done = False, ad_mem = Some demo_aac_mem,
     ad_seek_position = 1, ad_initialized = True, ad_input = Some (), ad_error_cb = None, ad_seek = Some (),
     ad_output = Some ()\<rparr>"

lemma demo_aac_plenty: "aac_plenty demo_aac"
  by (auto simp: aac_plenty_def aac_sane_def demo_aac_def zero_alloc_def allocator_ok_def split: if_splits)

theorem aac_raw_poll_defined_witness: "\<exists>r. aac_decoder_run_poll demo_aac (demo_aac_decoder False, 0, ()) = Some r"
  by (rule aac_raw_poll_defined [OF demo_aac_plenty, of _ demo_aac_mem "()" "()"])
    (simp_all add: demo_aac_decoder_def demo_aac_mem_def aac_wf_def)

text \<open>C17: AAC frames. The copy loop stores a decoded frame as little-endian 16-bit samples, and the
  output handler offers queued bytes from the oldest on and keeps exactly those not taken.\<close>

theorem aac_frame_delivered:
  assumes "aac_sane env" "aac_wf mem" "ad_output d = Some cb" "am_output mem = Some buf"
    "- 2147483648 \<le> am_output_total mem" "am_output_total mem + am_output_size mem \<le> 2147483647"
    "am_output_size mem \<le> 2147483647" "length m = 2 * length vs"
  shows "aac_store_samples vs m = Some (concat (map (le_bytes 2) vs)) \<and>
    (\<exists>n mem' w'. let bs = take (nat (am_output_size mem)) buf in
       aac_output env cb (am_info mem) bs (int (length bs)) w = (int n, w') \<and>
       aac_decoder_output_handler env d mem w = Some (drop n bs = [], mem', w') \<and>
       am_output_total mem' = am_output_total mem + int n \<and>
       (case am_output mem' of None \<Rightarrow> [] | Some b \<Rightarrow> take (nat (am_output_size mem')) b) = drop n bs)"
proof -
  obtain n mem' w' where "aac_output env cb (am_info mem) (take (nat (am_output_size mem)) buf)
      (int (length (take (nat (am_output_size mem)) buf))) w = (int n, w')"
    "aac_decoder_output_handler env d mem w = Some (drop n (take (nat (am_output_size mem)) buf) = [], mem', w')"
    "am_output_total mem' = am_output_total mem + int n"
    "(case am_output mem' of None \<Rightarrow> [] | Some b \<Rightarrow> take (nat (am_output_size mem')) b) = drop n (take (nat (am_output_size mem)) buf)"
    by (rule aac_output_bytes [OF assms(1-7)])
  with store_samples [OF assms(8)] show ?thesis unfolding Let_def aac_pcm_def by blast
qed

theorem aac_frame_delivered_witness:
  "aac_store_samples [1, 258] [0, 0, 0, 0] = Some [1, 0, 2, 1] \<and>
   (\<exists>mem'. aac_decoder_output_handler demo_aac (demo_aac_decoder False)
       (demo_aac_mem\<lparr>am_output := Some [1, 0, 2, 1], am_output_size := 4\<rparr>) () = Some (False, mem', ()) \<and>
     am_output_total mem' = 2)"
proof -
  let ?mem = "demo_aac_mem\<lparr>am_output := Some [1, 0, 2, 1], am_output_size := 4\<rparr>"
  have "aac_wf ?mem" by (simp add: aac_wf_def demo_aac_mem_def)
  with aac_frame_delivered [of demo_aac ?mem "demo_aac_decoder False" "()" "[1, 0, 2, 1]" "[0, 0, 0, 0]" "[1, 258]" "()"]
    demo_aac_plenty show ?thesis
    by (auto simp: aac_plenty_def demo_aac_decoder_def demo_aac_mem_def demo_aac_def Let_def le_bytes_2)
qed

text \<open>C37: M4A seek. A seek position of 1 or more (the player passes percentages) puts an M4A track
  behind its last sample, and the next poll then reads a frame description that was never written.\<close>

theorem m4a_seek_past_end_undefined:
  assumes "ad_mem d = Some mem" "ad_seek d = Some cb" "ad_is_m4a d" "0 < am_num_samples mem"
    "am_num_samples mem \<le> 2147483647" "1 \<le> ad_seek_position d" "ad_seek_position d \<le> 100"
    "ad_initialized d" "\<not> ad_input_done d"
  shows "\<exists>d'. aac_decoder_seek_handler d = Some d' \<and> aac_decoder_run_poll env (d', k, w) = None"
proof -
  from aac_seek_past_end [OF assms(1-7)] obtain mem' where m: "aac_decoder_seek_handler d = Some (d\<lparr>ad_mem := Some mem'\<rparr>)"
    "am_num_samples mem' \<le> am_sample_id mem'" "am_output mem' = None" by blast
  have "aac_decoder_run_poll env (d\<lparr>ad_mem := Some mem'\<rparr>, k, w) = None"
    by (rule aac_m4a_end) (use assms m in simp_all)
  with m(1) show ?thesis by blast
qed

theorem m4a_seek_past_end_undefined_witness:
  "\<exists>d'. aac_decoder_seek_handler (demo_aac_decoder True) = Some d' \<and> aac_decoder_run_poll demo_aac (d', 0, ()) = None"
  by (rule m4a_seek_past_end_undefined [of _ demo_aac_mem "()"]) (simp_all add: demo_aac_decoder_def demo_aac_mem_def)

section \<open>Player\<close>

definition demo_src :: "(unit, unit, real) src_env" where
  "demo_src = \<lparr>src_new = Some (), src_process = \<lambda>_ _ n m _. ((), min n m, min n m, replicate (nat (2 * min n m)) ()),
     float_of_int = \<lambda>_. (), int16_of_float = \<lambda>_. Some 0\<rparr>"





text \<open>Too many channels. Input with three or more channels stores more floats a frame than the
  caller counted, and runs over the converter's float buffer when enough frames come.\<close>

theorem conversion_overflows:
  assumes "3 \<le> ch" "0 \<le> n" "0 \<le> room" "off \<le> length dst"
    "int (length dst) < int off + ch * min room (n div (2 * ch))"
  shows "samplerate_convert_input_stereo env src n dst off room ch = None"
  using input_overflow [OF assms] .

theorem conversion_overflows_witness:
  "samplerate_convert_input_stereo demo_src [] 4096 (replicate 1024 ()) 0 512 4 = None"
  by (rule conversion_overflows) simp_all











text \<open>MP3 seek. A percentage leads to the position behind the tag that is that part of the audio,
  rounded down and kept inside the file, for files up to the size at which the computation of the
  consumed bytes would leave the range of int.\<close>

theorem mp3_seek_lands_in_file:
  assumes "0 \<le> x" "x \<le> 100" "0 < len" "len \<le> 2147483647" "uint (di_tag_size info) \<le> len"
    "1024000 * len \<le> 2147483647 * uint (di_bit_rate info)"
  shows "\<exists>pos n. mp3_seek_target info len x = Some (min pos (len - 1), n) \<and>
    pos = uint (di_tag_size info) + \<lfloor>of_int (len - uint (di_tag_size info)) * x / 100\<rfloor> \<and> uint (di_tag_size info) \<le> pos"
  by (rule mp3_seek_target_spec [OF assms]) blast

theorem mp3_seek_lands_in_file_witness:
  "\<exists>n. mp3_seek_target \<lparr>di_tag_size = 1000, di_sample_rate = 44100, di_bit_rate = 128000, di_channels = 2\<rparr> 101000 50 =
     Some (51000, n)"
  using mp3_seek_lands_in_file [of 50 101000 "\<lparr>di_tag_size = 1000, di_sample_rate = 44100, di_bit_rate = 128000, di_channels = 2\<rparr>"]
  by simp

text \<open>Stream type. For a name with one dot the type is that of its extension, in lower or upper case,
  and MP3 for an unknown one.\<close>

theorem stream_type_by_extension:
  assumes "CHR ''.'' \<notin> set stem" "CHR ''.'' \<notin> set ext"
  shows "com_player_get_audio_type_by_name (stem @ ''.'' @ ext) =
    (if take 3 ext = ''aac'' \<or> take 3 ext = ''AAC'' then COM_PLAYER_TYPE_AAC
     else if take 3 ext = ''m4a'' \<or> take 3 ext = ''M4A'' then COM_PLAYER_TYPE_M4A
     else COM_PLAYER_TYPE_MP3)"
  using type_by_extension [OF assms] .

theorem stream_type_by_extension_witness: "com_player_get_audio_type_by_name ''test2.m4a'' = COM_PLAYER_TYPE_M4A"
  using stream_type_by_extension [of "''test2''" "''m4a''"] by (simp add: eval_nat_numeral)
section \<open>Network\<close>

text \<open>C38: Base64. For text of ASCII characters the client's encoder is that of RFC 4648: groups of three
  octets, four six-bit digits each, with padding; the output has four characters for every three begun.\<close>

theorem base64_is_rfc4648:
  assumes "\<forall>b \<in> set s. b < 128"
  shows "httpclient_base64enc s = b64_ref s \<and> length (httpclient_base64enc s) = (length s + 2) div 3 * 4"
  using base64enc_ref [OF assms] by (simp add: length_b64_ref)

theorem base64_is_rfc4648_witness: "httpclient_base64enc (lit ''user:pw'') = lit ''dXNlcjpwdw==''"
  using base64_is_rfc4648 [of "lit ''user:pw''"] by (simp add: lit_def b64_code_def)

text \<open>C30: URLs. Parsing what was put together from a scheme, a host, an optional port and a path gives the
  parts back, the port 0 standing for none.\<close>

theorem url_round_trip:
  assumes "scheme_ok scheme" "host_ok host" "path_ok path" "port < 65536"
  shows "httpclient_parse_url (scheme @ lit ''://'' @ host @ lit '':'' @ show_nat port @ path) 8 64 2048 =
      Some (Inr (scheme, host, int port, path)) \<and>
    httpclient_parse_url (scheme @ lit ''://'' @ host @ path) 8 64 2048 = Some (Inr (scheme, host, 0, path))"
  using parse_url_with_port [OF assms] parse_url_without_port [OF assms(1-3)] ..

theorem url_round_trip_witness:
  "httpclient_parse_url (lit ''http'' @ lit ''://'' @ lit ''a.b'' @ lit '':'' @ show_nat 8080 @ lit ''/x'') 8 64 2048 =
     Some (Inr (lit ''http'', lit ''a.b'', 8080, lit ''/x''))"
  using url_round_trip [of "lit ''http''" "lit ''a.b''" "lit ''/x''" 8080]
  by (simp add: wf_defs lit_def)

text \<open>C19: Range request. With a socket that accepts data, memory for three buffers and lines that fit,
  a request for a range of a URL puts exactly the request lines, the range line and the empty line
  on the network, and returns success.\<close>

theorem range_request_sent:
  assumes "accepts net" "scheme_ok scheme" "host_ok host" "path_ok path" "\<forall>i n. mal i n \<noteq> None" "0 \<le> hc_socket client"
    "hc_auth_user client = None" "hc_header client = None" "hd_post_buf data = None"
    "0 \<le> b" "b \<le> INT_MAX" "0 < e" "e \<le> INT_MAX"
    "length (request_lines (lit ''GET'') path host) < 2000"
  shows "\<exists>net'. httpclient_send_request_with_range mal k client (scheme @ lit ''://'' @ host @ path) HTTPCLIENT_GET data b e None net =
      Some (k + 3, HTTPCLIENT_OK, net') \<and>
    nt_sent net' = nt_sent net @ request_lines (lit ''GET'') path host @
      lit ''Range: bytes='' @ show_int b @ lit ''-'' @ show_int e @ crlf @ crlf"
  by (rule send_request_range [OF assms])

definition demo_net :: "rx list \<Rightarrow> net" where
  "demo_net rx = \<lparr>nt_rx = rx, nt_tx = [1, 2], nt_dns = [], nt_sent = [], nt_closed = [], nt_clock = \<lambda>_. 0, nt_reads = 0\<rparr>"

definition demo_client :: httpclient where
  "demo_client = httpclient_zero\<lparr>hc_socket := 5, hc_is_http := True\<rparr>"

theorem range_request_sent_witness:
  "\<exists>net'. httpclient_send_request_with_range zero_alloc 0 demo_client (lit ''http'' @ lit ''://'' @ lit ''a.b'' @ lit ''/x'')
      HTTPCLIENT_GET httpclient_data_zero 0 7 None (demo_net []) = Some (3, HTTPCLIENT_OK, net') \<and>
    take 7 (nt_sent net') = lit ''GET /x ''"
proof -
  have "\<exists>net'. httpclient_send_request_with_range zero_alloc 0 demo_client (lit ''http'' @ lit ''://'' @ lit ''a.b'' @ lit ''/x'')
      HTTPCLIENT_GET httpclient_data_zero 0 7 None (demo_net []) = Some (0 + 3, HTTPCLIENT_OK, net') \<and>
    nt_sent net' = nt_sent (demo_net []) @ request_lines (lit ''GET'') (lit ''/x'') (lit ''a.b'') @
      lit ''Range: bytes='' @ show_int 0 @ lit ''-'' @ show_int 7 @ crlf @ crlf"
    by (rule range_request_sent) (simp_all add: accepts_def demo_net_def wf_defs lit_def zero_alloc_def demo_client_def
        httpclient_zero_def httpclient_data_zero_def INT_MAX_def request_lines_def crlf_def)
  then show ?thesis by (auto simp: demo_net_def request_lines_def lit_def)
qed

text \<open>C5: Content. A caller that goes on calling while there is more to retrieve gets, for a content of
  known length, exactly the bytes that follow the header, kept ones first and in order, and all of
  them when the last call succeeds; one call per full buffer and one more are enough.\<close>

theorem content_fetched:
  assumes "hd_is_more d" "data_ok d" "0 \<le> hc_socket client" "hc_is_http client" "\<not> hd_is_chunked d"
    "hd_response_content_len d \<noteq> -1" "0 \<le> hd_retrieve_len d" "hd_retrieve_len d \<le> INT_MAX"
    "nat (hd_retrieve_len d) div nat (hd_response_buf_len d - 1) < n"
  shows "\<exists>ret bs. fetch n client d net = Some (ret, bs) \<and> ret \<noteq> HTTPCLIENT_RETRIEVE_MORE_DATA \<and>
    bs = take (length bs) (held [] d @ net_bytes net) \<and> length bs \<le> nat (hd_retrieve_len d) \<and>
    (ret = HTTPCLIENT_OK \<longrightarrow> length bs = nat (hd_retrieve_len d))"
  by (rule fetch_delivers [OF assms])

definition demo_data :: "bool \<Rightarrow> int \<Rightarrow> int \<Rightarrow> httpclient_data" where
  "demo_data chunked n len = httpclient_data_zero\<lparr>hd_is_more := True, hd_is_chunked := chunked, hd_retrieve_len := n,
     hd_response_content_len := n, hd_response_buf_len := len, hd_response_buf := replicate (nat len) 0,
     hd_ext := Some http_data_ext_zero\<rparr>"

lemma demo_data_ok: "1 < len \<Longrightarrow> len \<le> INT_MAX \<Longrightarrow> data_ok (demo_data chunked n len)"
  by (simp add: data_ok_def demo_data_def http_data_ext_zero_def)

theorem content_fetched_witness:
  "\<exists>ret bs. fetch 3 demo_client (demo_data False 5 3) (demo_net [Rx_Data 1 [2, 3], Rx_Data 4 [5, 6]]) = Some (ret, bs) \<and>
     bs = take (length bs) [1, 2, 3, 4, 5, 6] \<and> (ret = HTTPCLIENT_OK \<longrightarrow> bs = [1, 2, 3, 4, 5])"
proof -
  let ?d = "demo_data False 5 3" and ?net = "demo_net [Rx_Data 1 [2, 3], Rx_Data 4 [5, 6]]"
  have h: "held [] ?d @ net_bytes ?net = [1, 2, 3, 4, 5, 6]"
    by (simp add: held_def remain_def demo_data_def http_data_ext_zero_def net_bytes_def demo_net_def)
  have "\<exists>ret bs. fetch 3 demo_client ?d ?net = Some (ret, bs) \<and> ret \<noteq> HTTPCLIENT_RETRIEVE_MORE_DATA \<and>
    bs = take (length bs) (held [] ?d @ net_bytes ?net) \<and> length bs \<le> nat (hd_retrieve_len ?d) \<and>
    (ret = HTTPCLIENT_OK \<longrightarrow> length bs = nat (hd_retrieve_len ?d))"
    by (rule content_fetched [OF _ demo_data_ok]) (simp_all add: demo_data_def demo_client_def INT_MAX_def)
  then obtain ret bs where r: "fetch 3 demo_client ?d ?net = Some (ret, bs)" "bs = take (length bs) [1, 2, 3, 4, 5, 6]"
    "ret = HTTPCLIENT_OK \<longrightarrow> length bs = 5" unfolding h by (auto simp: demo_data_def)
  then have "ret = HTTPCLIENT_OK \<longrightarrow> bs = take 5 [1, 2, 3, 4, 5, 6]" by metis
  with r show ?thesis by auto
qed

text \<open>C39: A chunk at the end of the buffer. When a call fills the caller's buffer exactly where a chunk ends,
  the bytes behind the chunk are kept but not looked at again: if they were the last of the
  connection, with the end of the content among them, the next call never returns.\<close>

theorem chunk_at_buffer_end_hangs:
  assumes "hc_is_http client" "0 \<le> hc_socket client" "data_ok d" "hd_is_chunked d"
    "hd_retrieve_len d = hd_response_buf_len d - 1" "length dat < 2048" "dat \<noteq> [] \<Longrightarrow> remain d = []"
    "httpclient_retrieve_content client dat d net = Some (HTTPCLIENT_RETRIEVE_MORE_DATA, d', net')" "nt_rx net' = []"
  shows "remain d' @ net_bytes net' = drop (nat (hd_response_buf_len d - 1)) (held dat d @ net_bytes net) \<and>
    httpclient_recv_response client d' net' = None"
  using chunk_fills_buffer [OF assms(1,3-8)] recv_at_chunk_start [OF assms(2), of d' net'] assms(9) by simp

theorem chunk_at_buffer_end_hangs_witness:
  "\<exists>d' net'. httpclient_retrieve_content demo_client [65, 66, 13, 10, 48, 13, 10, 13, 10] (demo_data True 2 3) (demo_net []) =
     Some (HTTPCLIENT_RETRIEVE_MORE_DATA, d', net') \<and> remain d' = [13, 10, 48, 13, 10, 13, 10] \<and>
     httpclient_recv_response demo_client d' net' = None"
proof -
  let ?dat = "[65, 66, 13, 10, 48, 13, 10, 13, 10] :: u8 list" and ?d = "demo_data True 2 3"
  obtain d' net' where r: "httpclient_retrieve_content demo_client ?dat ?d (demo_net []) =
     Some (HTTPCLIENT_RETRIEVE_MORE_DATA, d', net')" "nt_rx net' = []"
    by (simp add: httpclient_retrieve_content_def retrieve_loop.simps next_piece_def body_loop.simps
        take_remain_def size_t_def countdown_ms_def expired_def demo_net_def demo_client_def demo_data_def
        http_data_ext_zero_def put_body_def keep_remain_def mem_write_def mem_read_def http_codes http_sizes
        http_current_time_ms_def c_arith Let_def)
  have "remain d' @ net_bytes net' = drop (nat (hd_response_buf_len ?d - 1)) (held ?dat ?d @ net_bytes (demo_net [])) \<and>
    httpclient_recv_response demo_client d' net' = None"
    by (rule chunk_at_buffer_end_hangs [OF _ _ demo_data_ok _ _ _ _ r])
      (simp_all add: demo_client_def demo_data_def remain_def http_data_ext_zero_def INT_MAX_def)
  with r show ?thesis by (simp add: held_def net_bytes_def demo_net_def demo_data_def)
qed

text \<open>C8: The download task's objects. Whatever the network, the server's answers, the allocator and the
  callers of the interface do, in every reachable state outside the idle one the task holds its receive buffer
  and the client's extension, of their sizes, and the client data points to them; in the idle
  state no connection is open. The machine never enters its connecting state.\<close>

theorem http_memory_invariant:
  assumes "fsm_reach (http_exec mal) http_api (f, s) (f', s')" "fsm_ready f"
    "map row_key (lookup_table f) = map row_key http_lookup" "cur_state f = HTTP_DOWNLOAD_STA_IDLE"
    "\<not> hp_opened (fst s)"
  shows "cur_state f' \<noteq> HTTP_DOWNLOAD_STA_CONN \<and>
    (if cur_state f' = HTTP_DOWNLOAD_STA_IDLE then \<not> hp_opened (fst s') else http_mem (fst s'))"
proof -
  have "http.fsm_inv (f, s)" using assms(2-5) by (simp add: http.fsm_inv_def http_inv_def)
  from http.reach_inv [OF assms(1) this] have "http_inv (cur_state f') s'" by (simp add: http.fsm_inv_def)
  then show ?thesis by (auto simp: http_inv_def http_states split: if_splits)
qed

definition demo_http_fsm :: "u32 \<Rightarrow> u32 \<Rightarrow> u32 \<Rightarrow> http_action com_fsm" where
  "demo_http_fsm ev ack st = \<lparr>event_handle = Some ev, event_ack_handle = Some ack, cur_state = st,
     lookup_table = http_lookup, init_action = None, deinit_action = None\<rparr>"

definition demo_http :: http_download_proc where
  "demo_http = note_start (lit ''http'' @ lit ''://'' @ lit ''a.b'' @ lit ''/x'') True 0 1 http_download_proc_zero"

definition demo_peer :: net where
  "demo_peer = (demo_net [])\<lparr>nt_dns := [Some [(5, True)]]\<rparr>"

lemma demo_http_start:
  "\<exists>s. http_download_proc_start_action zero_alloc (demo_http, 0, demo_common, demo_peer) = Some (HTTP_DOWNLOAD_STA_RECV, s)"
proof -
  obtain s1 where s1: "http_download_proc_start zero_alloc (demo_http, 0, demo_common, demo_peer) = (HTTP_DOWNLOAD_PROC_SUCCESS, s1)"
    "hp_opened (fst s1) = False" "hp_range_forecast (fst s1)" "hp_ext (fst s1) = Some http_data_ext_zero"
    "hp_url (fst s1) = hp_url demo_http" "hp_buffer (fst s1)" "hp_range_enable (fst s1)" "\<not> hp_length_received (fst s1)"
    "hp_pre_pos (fst s1) = 0" "fst (snd (snd s1)) = demo_common" "nt_dns (snd (snd (snd s1))) = [Some [(5, True)]]"
    "nt_tx (snd (snd (snd s1))) = [1, 2]"
    by (simp add: http_download_proc_start_def zero_alloc_def demo_http_def note_start_def http_download_proc_zero_def
        http_current_time_ms_def demo_peer_def demo_net_def Let_def)
  obtain hp k net where s1': "s1 = (hp, k, demo_common, net)" using s1(10) by (cases s1) auto
  let ?url = "lit ''http'' @ lit ''://'' @ lit ''a.b'' @ lit ''/x''"
  have url: "hp_url hp = Some (?url @ [0])" using s1(5) s1' by (simp add: demo_http_def note_start_def)
  have ok: "scheme_ok (lit ''http'')" "host_ok (lit ''a.b'')" "path_ok (lit ''/x'')" by (simp_all add: wf_defs lit_def)
  have str: "object_string (?url @ [0]) = Some ?url" by (simp add: object_string_def c_string_def lit_def)
  have pre: "http_download_proc_url_preprocess (?url @ [0]) = Some (?url @ [0])"
    using str by (simp add: http_download_proc_url_preprocess_def strncasecmp_eq_def lit_def lower_def)
  obtain c net2 where con: "httpclient_connect zero_alloc k httpclient_zero ?url net = Some (k + 1, HTTPCLIENT_OK, c, net2)"
    "hc_socket c = 5" "hc_auth_user c = None" "hc_header c = None" "nt_tx net2 = [1, 2]"
    using s1(11,12) s1' parse_url_without_port [OF ok]
    by (simp add: httpclient_connect_def connect_scheme_def httpclient_conn_def zero_alloc_def http_codes http_sizes
        httpclient_zero_def lit_def Let_def)
  have op: "http_download_proc_open_client zero_alloc (set_last_error HTTP_DOWNLOAD_PROC_SUCCESS s1) =
    Some (HTTP_DOWNLOAD_PROC_SUCCESS, hp\<lparr>hp_last_error := HTTP_DOWNLOAD_PROC_SUCCESS, hp_url := Some (?url @ [0]), hp_client := c,
      hp_opened := True, hp_err_conn := 0\<rparr>, k + 1, demo_common, net2)"
    using s1(2) s1' url pre str con(1) by (simp add: http_download_proc_open_client_def set_last_error_def)
  have free: "common_buffer_get_free_count demo_common = Some 16"
    by (simp add: common_buffer_get_free_count_def demo_common_def common_buffer_init_def c_arith int_of_u32_def)
  obtain net3 where send: "httpclient_send_request_with_range zero_alloc (k + 1) c ?url HTTPCLIENT_GET
      (httpclient_data_zero\<lparr>hd_response_buf_len := HTTP_DOWNLOAD_RECV_BUF_SIZE\<rparr>) 0 15 None net2 = Some (k + 1 + 3, HTTPCLIENT_OK, net3)"
    using send_request_range [OF _ ok, of net2 zero_alloc c "httpclient_data_zero\<lparr>hd_response_buf_len := HTTP_DOWNLOAD_RECV_BUF_SIZE\<rparr>" 0 15 "k + 1"]
      con(2-5) by (auto simp: accepts_def zero_alloc_def httpclient_data_zero_def INT_MAX_def request_lines_def crlf_def lit_def)
  have "\<exists>s2. http_download_proc_conn zero_alloc (set_last_error HTTP_DOWNLOAD_PROC_SUCCESS s1) = Some (HTTP_DOWNLOAD_PROC_SUCCESS, s2)"
    using op free send str s1(3,4,6-9) s1' url
    by (simp add: http_download_proc_conn_def set_last_error_def link_client_data_def send_range_request_def range_count_def
        range_validator_def http_data_ext_zero_def c_arith http_codes)
  then show ?thesis using s1(1)
    by (auto simp: http_download_proc_start_action_def http_download_proc_conn_action_def simp del: split_paired_Ex split_paired_All)
qed

theorem http_memory_invariant_witness:
  "\<exists>s'. fsm_reach (http_exec zero_alloc) http_api (demo_http_fsm 1 0 0, demo_http, 0, demo_common, demo_peer)
      (demo_http_fsm 0 1 3, s') \<and> http_mem (fst s')"
proof -
  let ?s = "(demo_http, 0, demo_common, demo_peer)"
  obtain s' where a: "http_download_proc_start_action zero_alloc ?s = Some (HTTP_DOWNLOAD_STA_RECV, s')"
    using demo_http_start by blast
  have "com_fsm_iteration (http_exec zero_alloc) [] (demo_http_fsm 1 0 0, ?s) = Some (True, demo_http_fsm 0 1 3, s')"
    using a by (simp add: com_fsm_iteration_def com_fsm_dispatch_def com_fsm_ack_def common_wait_now common_set_event_def
        demo_http_fsm_def http_lookup_def lookup_match_def fsm_consts http_states http_events http_exec_def http_run_def)
  then have r: "fsm_reach (http_exec zero_alloc) http_api (demo_http_fsm 1 0 0, ?s) (demo_http_fsm 0 1 3, s')"
    by (intro fsm_reach.step [OF fsm_reach.start] fsm_step.round)
  have "cur_state (demo_http_fsm 0 1 3) \<noteq> HTTP_DOWNLOAD_STA_CONN \<and>
    (if cur_state (demo_http_fsm 0 1 3) = HTTP_DOWNLOAD_STA_IDLE then \<not> hp_opened (fst s') else http_mem (fst s'))"
    by (rule http_memory_invariant [OF r]) (simp_all add: demo_http_fsm_def fsm_ready_def http_states demo_http_def
        note_start_def http_download_proc_zero_def)
  then have "http_mem (fst s')" by (simp add: demo_http_fsm_def http_states)
  with r show ?thesis by blast
qed

text \<open>C26: Pushing a received block. When it fits, the bytes of the block that have not been skipped go to
  the shared buffer behind what waits there, the download position advances by their number and
  the verdict follows from it; a prefix at least when memory runs out. When it does not fit,
  nothing changes and the machine is told to wait.\<close>

theorem received_block_pushed:
  assumes "allocator_ok mal" "common_wf cb" "block_ok hp"
  shows "\<exists>r hp' k' cb' net' n e. http_download_proc_push_data mal (hp, k, cb, net) = Some (r, hp', k', cb', net') \<and>
    common_wf cb' \<and> common_cap cb' = common_cap cb \<and> hp_ext hp = Some e \<and>
    common_contents cb' = common_contents cb @ take n (pending hp) \<and>
    (if common_cap cb < length (common_contents cb) + length (pending hp)
     then r = HTTP_DOWNLOAD_PROC_ERR_BUF_TOO_SMALL \<and> hp' = hp \<and> cb' = cb \<and> n = 0
     else (n = length (pending hp) \<or> (\<exists>i m. mal i m = None)) \<and> pending hp' = [] \<and>
       hp_pre_pos hp' = hp_pre_pos hp + int (length (pending hp)) \<and> r = push_verdict hp' (ex_is_range e))"
  by (rule push_data_delivers [OF assms])

definition demo_block :: http_download_proc where
  "demo_block = demo_http\<lparr>hp_recv_buf := Some ([1, 2, 3, 4] @ replicate 2045 0), hp_ext := Some http_data_ext_zero,
     hp_recv_len := 4, hp_read_pos := 1, hp_total_length := 4\<rparr>"

theorem received_block_pushed_witness:
  "\<exists>hp' k' cb' net'. http_download_proc_push_data zero_alloc (demo_block, 0, demo_common, demo_net []) =
     Some (HTTP_DOWNLOAD_PROC_ALL_END, hp', k', cb', net') \<and> common_contents cb' = [2, 3, 4]"
proof -
  have w: "common_wf demo_common" "common_contents demo_common = []" "common_cap demo_common = 16"
    using common_init [of 4 16] by (simp_all add: demo_common_def)
  have p: "pending demo_block = [2, 3, 4]" by (simp add: pending_def demo_block_def)
  have "block_ok demo_block"
    by (simp add: block_ok_def demo_block_def http_owned_def ext_sized_def http_data_ext_zero_def demo_http_def note_start_def
        http_download_proc_zero_def)
  from received_block_pushed [OF zero_alloc_ok w(1) this, of 0 "demo_net []"]
  obtain r hp' k' cb' net' where r: "http_download_proc_push_data zero_alloc (demo_block, 0, demo_common, demo_net []) =
      Some (r, hp', k', cb', net')" "common_contents cb' = [2, 3, 4]"
    by (auto simp: w p zero_alloc_def)
  then have "r = HTTP_DOWNLOAD_PROC_ALL_END"
    by (auto simp: w http_download_proc_push_data_def demo_block_def http_data_ext_zero_def push_verdict_def Let_def
        demo_http_def note_start_def http_download_proc_zero_def http_codes dest!: bind_eq_SomeD split: if_splits)
  with r show ?thesis by blast
qed

text \<open>A connection that fails at the start. The machine then holds its objects in the idle state with the
  error noted, and there the only event it acts on is another start: nothing tries again, and a
  stop frees nothing.\<close>

theorem failed_start_is_final:
  assumes "http_download_proc_start mal s = (HTTP_DOWNLOAD_PROC_SUCCESS, s1)"
    "http_download_proc_conn mal (set_last_error HTTP_DOWNLOAD_PROC_SUCCESS s1) = Some (e, s2)"
    "e \<noteq> HTTP_DOWNLOAD_PROC_SUCCESS" "e \<noteq> HTTP_DOWNLOAD_PROC_ERR_TRY_CONN" "e \<noteq> HTTP_DOWNLOAD_PROC_ERR_PARAM"
  shows "(\<exists>s'. http_download_proc_start_action mal s = Some (COM_FSM_HOLD_STATE, s') \<and> http_owned (fst s') \<and>
      hp_last_error (fst s') = e) \<and>
    (\<forall>events. com_fsm_get_lookup http_lookup HTTP_DOWNLOAD_STA_IDLE events =
      (if events AND HTTP_DOWNLOAD_EVENT_START = HTTP_DOWNLOAD_EVENT_START then Some 0 else None))"
  using start_not_retried [OF assms] idle_rows by blast

theorem failed_start_is_final_witness:
  "\<exists>s'. http_download_proc_start_action zero_alloc (demo_http, 0, demo_common, demo_net []) = Some (COM_FSM_HOLD_STATE, s') \<and>
     http_owned (fst s') \<and> hp_last_error (fst s') = HTTP_DOWNLOAD_PROC_ERR_CONN"
proof -
  obtain s1 where s1: "http_download_proc_start zero_alloc (demo_http, 0, demo_common, demo_net []) = (HTTP_DOWNLOAD_PROC_SUCCESS, s1)"
    "hp_opened (fst s1) = False" "hp_url (fst s1) = hp_url demo_http" "hp_buffer (fst s1)" "nt_dns (snd (snd (snd s1))) = []"
    "hp_err_conn (fst s1) = 0"
    by (simp add: http_download_proc_start_def zero_alloc_def demo_http_def note_start_def http_download_proc_zero_def
        http_current_time_ms_def demo_net_def Let_def)
  let ?url = "lit ''http'' @ lit ''://'' @ lit ''a.b'' @ lit ''/x''"
  have ok: "scheme_ok (lit ''http'')" "host_ok (lit ''a.b'')" "path_ok (lit ''/x'')" by (simp_all add: wf_defs lit_def)
  have str: "object_string (?url @ [0]) = Some ?url" by (simp add: object_string_def c_string_def lit_def)
  have pre: "http_download_proc_url_preprocess (?url @ [0]) = Some (?url @ [0])"
    using str by (simp add: http_download_proc_url_preprocess_def strncasecmp_eq_def lit_def lower_def)
  have "\<exists>c. httpclient_connect zero_alloc (fst (snd s1)) httpclient_zero ?url (snd (snd (snd s1))) =
      Some (fst (snd s1) + 1, HTTPCLIENT_UNRESOLVED_DNS, c, snd (snd (snd s1)))"
    using s1(5) parse_url_without_port [OF ok]
    by (simp add: httpclient_connect_def connect_scheme_def httpclient_conn_def zero_alloc_def http_sizes lit_def Let_def)
  moreover have "\<not> (5 :: u16) \<le> 1" by (simp add: word_le_nat_alt)
  ultimately have "\<exists>s2. http_download_proc_conn zero_alloc (set_last_error HTTP_DOWNLOAD_PROC_SUCCESS s1) =
      Some (HTTP_DOWNLOAD_PROC_ERR_CONN, s2)"
    using s1(2-6) pre str
    by (cases s1) (auto simp: http_download_proc_conn_def http_download_proc_open_client_def set_last_error_def demo_http_def
        note_start_def http_codes HTTP_DOWNLOAD_MAX_ERR_CONN_COUNT_def)
  then obtain s2 where s2: "http_download_proc_conn zero_alloc (set_last_error HTTP_DOWNLOAD_PROC_SUCCESS s1) =
      Some (HTTP_DOWNLOAD_PROC_ERR_CONN, s2)" by blast
  from failed_start_is_final [OF s1(1) s2] show ?thesis by simp
qed
section \<open>Sound sources\<close>

text \<open>C6: A file is a cursor. After opening a file of the card or a prompt sound of known contents and reading any
  number of bytes ahead, every sequence of reads, seeks (in range or not) and pauses with their resumes
  returns exactly what a cursor over the contents returns, starting at the first byte.\<close>

theorem file_is_cursor:
  assumes "source_holds env path ty c" "allocator_ok (fe_mal env)" "\<And>k i. fe_mal env k i \<noteq> None"
    "0 \<le> n" "n < 2147483648" "list_all op_fits ops"
  shows "\<exists>af w' m buf af1 af2. audio_file_open env path ty rng w = Some (Some af, w') \<and>
    audio_file_preread env (Some af) (replicate (nat n) 0) n = Some (m, buf, af1) \<and>
    m = min n (int (length c)) \<and> take (nat m) buf = take (nat m) c \<and>
    file_run env ops af1 = Some (fst (cursor_run c ops 0), af2)"
  using assms(4) by (intro source_session [OF assms(1-5) _ assms(6)]) simp

definition demo_web :: web where
  "demo_web = \<lparr>wb_sys = (no_http_fsm, http_download_proc_zero, 0, demo_common, demo_net []), wb_last = 0, wb_looks = []\<rparr>"

definition demo_card :: file_env where
  "demo_card = \<lparr>fe_mal = zero_alloc, fe_img = (\<lambda>_. []), fe_fs = [lit ''/a'' \<mapsto> [1, 2, 3, 4, 5]], fe_serve = Some\<rparr>"

theorem file_is_cursor_witness:
  "\<exists>af w' buf af1 af2. audio_file_open demo_card (lit ''/a'') AUDIO_FILE_TYPE_SD_CARD True demo_web = Some (Some af, w') \<and>
     audio_file_preread demo_card (Some af) (replicate 2 0) 2 = Some (2, buf, af1) \<and> take 2 buf = [1, 2] \<and>
     file_run demo_card [Read_Op 3, Pause_Op, Seek_Op 9, Seek_Op 1, Read_Op 9] af1 =
       Some ([(3, [1, 2, 3]), (0, []), (-1, []), (0, []), (4, [2, 3, 4, 5])], af2)"
proof -
  have "c_string (lit ''/a'' @ 0 # r) = lit ''/a''" for r by (simp add: c_string_def lit_def)
  moreover have "take AUDIO_FILE_MAX_PATH_SIZE (lit ''/a'' @ replicate AUDIO_FILE_MAX_PATH_SIZE 0) = lit ''/a'' @ 0 # replicate 2045 0"
    by (simp add: AUDIO_FILE_MAX_PATH_SIZE_def lit_def replicate_Suc [symmetric] del: replicate_Suc)
  ultimately have "kept_path (lit ''/a'') = Some (lit ''/a'')" by (simp add: kept_path_def object_string_def)
  then have "source_holds demo_card (lit ''/a'') AUDIO_FILE_TYPE_SD_CARD [1, 2, 3, 4, 5]"
    by (simp add: source_holds_def demo_card_def)
  from file_is_cursor [OF this, of 2 "[Read_Op 3, Pause_Op, Seek_Op 9, Seek_Op 1, Read_Op 9]" True demo_web] show ?thesis
    by (simp add: demo_card_def zero_alloc_def allocator_ok_def Let_def eval_nat_numeral)
qed

text \<open>C23: A finished download is a stream. Once the task is idle after a download that ended well, any series of
  reads delivers, in order, the bytes that were read ahead and then those in the shared buffer, all
  of them when the sizes allow, and then nothing.\<close>

theorem finished_download_streams:
  assumes "web_done af" "list_all (\<lambda>n. 0 \<le> n \<and> n < 2147483648) ns"
    "sum_list (map read_looks ns) \<le> length (wb_looks (af_web af))"
  shows "\<exists>af'. file_run env (map Read_Op ns) af = Some (fst (cursor_run (web_stream af) (map Read_Op ns) 0), af') \<and>
    web_stream af' = drop (snd (cursor_run (web_stream af) (map Read_Op ns) 0)) (web_stream af)"
  using read_run_done [OF assms, of 0 "web_stream af" env] by auto

definition demo_stream :: "nat \<Rightarrow> u8 list \<Rightarrow> common_buffer \<Rightarrow> audio_file" where
  "demo_stream looks bs cb = \<lparr>af_path = lit ''/a'' @ [0], af_state = AUDIO_FILE_STA_OPEN, af_type = AUDIO_FILE_TYPE_WEB,
     af_handle = None, af_total = 0, af_prompt = 0, af_pos = 0,
     af_web = \<lparr>wb_sys = (demo_http_fsm 0 0 0, demo_http, 0, cb, demo_net []), wb_last = 0, wb_looks = replicate looks id\<rparr>,
     af_range = True, af_preread = Some bs, af_preread_len = int (length bs)\<rparr>"

lemma demo_stream_done:
  "common_wf cb \<Longrightarrow> web_done (demo_stream k bs cb) \<and> web_stream (demo_stream k bs cb) = bs @ common_contents cb \<and>
     web_rest (demo_stream k bs cb) = common_contents cb \<and> slow_clock (af_web (demo_stream k bs cb))"
  by (simp add: demo_stream_def web_done_def web_stream_def web_rest_def ahead_def ahead_ok_def web_finished_def
      web_buffer_def web_state_def web_proc_def web_net_def http_download_is_finish_def demo_http_fsm_def demo_http_def
      note_start_def ended_well_def http_states slow_clock_def demo_net_def)

theorem finished_download_streams_witness:
  "\<exists>cb af'. file_run demo_card [Read_Op 2, Read_Op 5] (demo_stream 8 [9] cb) = Some ([(2, [9, 1]), (2, [2, 3])], af')"
proof -
  have w: "common_wf demo_common" "common_contents demo_common = []" "common_cap demo_common = 16"
    using common_init [of 4 16] by (simp_all add: demo_common_def)
  obtain cb where cb: "common_wf cb" "common_contents cb = [1, 2, 3]"
    using common_push_bytes [OF w(1), of "[1, 2, 3]"] w(2,3) by auto
  note d = demo_stream_done [OF cb(1), of 8 "[9]"]
  have "read_looks 2 + read_looks 5 \<le> length (wb_looks (af_web (demo_stream 8 [9] cb)))"
    by (simp add: read_looks_def demo_stream_def)
  with finished_download_streams [of "demo_stream 8 [9] cb" "[2, 5]" demo_card] d cb(2)
  have "\<exists>af'. file_run demo_card [Read_Op 2, Read_Op 5] (demo_stream 8 [9] cb) = Some ([(2, [9, 1]), (2, [2, 3])], af')"
    by (auto simp: Let_def eval_nat_numeral)
  then show ?thesis by blast
qed

text \<open>C40: A seek behind the end of a download of unknown length. When the download has ended well and its bytes
  were all read, a seek forward by at most 100 KB that the length known so far does not rule out never
  returns, as long as the clock does not jump between two readings.\<close>

theorem seek_past_end_hangs:
  assumes "web_done af" "web_rest af = []" "slow_clock (af_web af)" "0 \<le> int_of_u32 (af_pos af)"
    "int_of_u32 (af_pos af) < q" "q \<le> int_of_u32 (af_pos af) + 102400" "q < 2147483648"
    "af_total af = 0 \<or> u32_of_int q < af_total af"
  shows "audio_file_seek env (Some af) q = None"
  by (rule seek_past_end [OF assms])

theorem seek_past_end_hangs_witness:
  "audio_file_seek demo_card (Some (demo_stream 1000 [] demo_common)) 1 = None"
proof -
  have w: "common_wf demo_common" "common_contents demo_common = []"
    using common_init [of 4 16] by (simp_all add: demo_common_def)
  note d = demo_stream_done [OF w(1), of 1000 "[]"]
  show ?thesis
    by (rule seek_past_end_hangs) (use d w(2) in \<open>simp_all add: demo_stream_def int_of_u32_def\<close>)
qed
section \<open>The player process\<close>


definition demo_ap_env :: "(unit, unit, unit, unit, unit) ap_env" where
  "demo_ap_env = \<lparr>ae_play = \<lparr>pe_alloc = zero_alloc, pe_convert_size = 100, pe_zero = (), pe_src = demo_src, pe_tx = Some,
       pe_mp3 = Some, pe_aac = Some, pe_threads = (\<lambda>s. Some (com_player_set_event 1 COM_PLAYER_EVENT_DECODER s))\<rparr>,
     ae_file = \<lparr>fe_mal = zero_alloc, fe_img = (\<lambda>_. []), fe_fs = [lit ''/a'' \<mapsto> [1, 2, 3, 4, 5, 6, 7, 8, 9]], fe_serve = Some\<rparr>\<rparr>"

definition demo_ap :: "(unit, unit, unit, unit, unit) ap_sys" where
  "demo_ap = \<lparr>ps_player = \<lambda>_. com_player_zero\<lparr>cp_event := Some 0\<rparr>, ps_holder = None, ps_tx = (None, pcm_trans_zero), ps_k = 0,
     ps_w = \<lparr>aw_player = \<lambda>_. audio_player_zero\<lparr>ap_mutex := Some False, ap_callback := True, ap_info := \<lparr>ai_path = lit ''/a'' @ [0],
         ai_source = AUDIO_FILE_TYPE_SD_CARD, ai_type = AUDIO_PLAYER_TYPE_RESOURCE, ai_uuid = 0\<rparr>\<rparr>,
       aw_last_handle = 0, aw_clock = (\<lambda>_. 0), aw_reads = 0, aw_web = demo_web, aw_stack = replicate 8 0, aw_told = []\<rparr>\<rparr>"

definition demo_ap_fsm :: "u32 \<Rightarrow> u32 \<Rightarrow> u32 \<Rightarrow> ap_action com_fsm" where
  "demo_ap_fsm ev ack st = \<lparr>event_handle = Some ev, event_ack_handle = Some ack, cur_state = st, lookup_table = ap_lookup,
     init_action = None, deinit_action = None\<rparr>"

lemma demo_ap_env_ok: "ap_env_ok demo_ap_env p"
  by (simp add: ap_env_ok_def keeps_view_def keeps_owner_def demo_ap_env_def com_player_set_event_def set_player_def
      tx_callback_def)

lemma demo_ap_holds: "source_holds (ae_file demo_ap_env) (lit ''/a'' @ [0]) AUDIO_FILE_TYPE_SD_CARD [1, 2, 3, 4, 5, 6, 7, 8, 9]"
proof -
  have "c_string (lit ''/a'' @ 0 # r) = lit ''/a''" for r by (simp add: c_string_def lit_def)
  moreover have "take AUDIO_FILE_MAX_PATH_SIZE ((lit ''/a'' @ [0]) @ replicate AUDIO_FILE_MAX_PATH_SIZE 0) = lit ''/a'' @ 0 # replicate 2045 0"
    by (simp add: AUDIO_FILE_MAX_PATH_SIZE_def lit_def replicate_Suc [symmetric] del: replicate_Suc)
  ultimately have "kept_path (lit ''/a'' @ [0]) = Some (lit ''/a'')" by (simp add: kept_path_def object_string_def)
  then show ?thesis by (simp add: source_holds_def demo_ap_env_def)
qed













section \<open>Message queues and recording\<close>

text \<open>C33: Messages in order. On a queue that was just created, every series of sends and receives without waiting
  behaves as a bounded list of objects: each receive gives the oldest object, byte for byte, a send is
  refused only when the bytes of the system's queue are used up, a receive only when nothing is there.
  This holds for objects with eight bytes more than the item size, the first eight a positive number.\<close>

theorem messages_in_order:
  assumes "common_create_queue (Some a) n s = (Some c, s')" "0 < n" "n \<le> int (sv_msgmax s)"
    "ucast a = (0 :: u32) \<or> sv_id s (ucast a) = None" "list_all (send_ok (nat n)) ops"
  shows "\<exists>s''. mq_run c ops s' = Some (mq_fifo_run (sv_qbytes s div nat n) ops [], s'')"
proof -
  from created_queue [OF assms(1-4)] have q: "mq_holds c [] s'" "item_size c = n" "sv_qbytes s' = sv_qbytes s" by simp_all
  from mq_run_fifo [OF q(1), of ops] assms(5) q(2,3) show ?thesis by simp
qed

definition demo_sysv :: sysv where
  "demo_sysv = \<lparr>sv_id = Map.empty, sv_queue = Map.empty, sv_next = 0, sv_queues = 8, sv_msgmax = 8192, sv_qbytes = 5\<rparr>"

theorem messages_in_order_witness:
  "\<exists>c s s'. common_create_queue (Some 0x7F0012345678) 2 demo_sysv = (Some c, s) \<and>
     mq_run c [Mq_Send [1, 0, 0, 0, 0, 0, 0, 0, 8, 9], Mq_Send [2, 0, 0, 0, 0, 0, 0, 0, 6, 7], Mq_Send [3, 0, 0, 0, 0, 0, 0, 0, 4, 5],
       Mq_Recv, Mq_Recv, Mq_Recv] s =
     Some ([(1, []), (1, []), (0, []), (1, [1, 0, 0, 0, 0, 0, 0, 0, 8, 9]), (1, [2, 0, 0, 0, 0, 0, 0, 0, 6, 7]), (0, [])], s')"
proof -
  obtain c s where c: "common_create_queue (Some 0x7F0012345678) 2 demo_sysv = (Some c, s)"
    by (simp add: common_create_queue_def msgget_def demo_sysv_def)
  have "0 < sint (le_word [b, 0, 0, 0, 0, 0, 0, 0] :: u64)" if "b \<in> {1, 2, 3}" for b :: u8
    using that by (auto simp: le_word_def)
  then have "list_all (send_ok 2) [Mq_Send [1, 0, 0, 0, 0, 0, 0, 0, 8, 9], Mq_Send [2, 0, 0, 0, 0, 0, 0, 0, 6, 7],
      Mq_Send [3, 0, 0, 0, 0, 0, 0, 0, 4, 5], Mq_Recv, Mq_Recv, Mq_Recv]"
    by (simp add: message_ok_def)
  with messages_in_order [OF c, of "[Mq_Send [1, 0, 0, 0, 0, 0, 0, 0, 8, 9], Mq_Send [2, 0, 0, 0, 0, 0, 0, 0, 6, 7],
      Mq_Send [3, 0, 0, 0, 0, 0, 0, 0, 4, 5], Mq_Recv, Mq_Recv, Mq_Recv]"] c show ?thesis
    by (simp add: demo_sysv_def pdTRUE_def pdFALSE_def)
qed

text \<open>C22: Frames for the echo canceller. However the recording is cut into calls, and whenever playback begins and
  ends in between, the canceller gets what was recorded during playback in frames of its size, in
  order and without loss; what does not fill a frame is kept for the next, across a pause of the
  playback too. No call runs over a buffer or fails to end.\<close>

theorem recording_framed:
  assumes "pcm_preproc_create env k cb = Some p" "allocator_ok (pv_alloc env)" "0 < lFrameSZ p" "0 \<le> sMicNum p"
    "preproc_env_ok env (lFrameSZ p)"
  shows "\<exists>b p' l. feed_run env bs (False, p, \<lparr>lg_told = [], lg_frames = []\<rparr>) = Some (b, p', l) \<and>
    list_all (\<lambda>f. int (length f) = aec_feed_size p) (lg_frames l) \<and> int (length (kept_bytes p')) < aec_feed_size p \<and>
    concat (lg_frames l) @ kept_bytes p' = concat (map snd (filter (\<lambda>x. \<not> fst x) bs))"
proof -
  note w = create_wf [OF assms(1-4)]
  from feed_frames [OF assms(5), of bs False "\<lparr>lg_told = [], lg_frames = []\<rparr>"] w show ?thesis by fastforce
qed

definition demo_preproc :: "(unit, unit) preproc_env" where
  "demo_preproc = \<lparr>pv_alloc = zero_alloc, aec_new = Some (), aec_mic_num = (\<lambda>_. 1), aec_frame_size = (\<lambda>_. 1), aec_mem_size = (\<lambda>_. 4),
     aec_reset = id, aec_feed = (\<lambda>_ _. ()), aec_pop = (\<lambda>_ _. ((), [7, 7])), wakeup_new = None, wakeup_start = id,
     wakeup_feed = (\<lambda>_ _. ((), []))\<rparr>"

theorem recording_framed_witness:
  "\<exists>p b p' l. pcm_preproc_create demo_preproc 0 True = Some p \<and>
     feed_run demo_preproc [(False, [1, 2, 3]), (True, [9, 9, 9, 9]), (False, [4, 5, 6])] (False, p, \<lparr>lg_told = [], lg_frames = []\<rparr>) =
       Some (b, p', l) \<and> concat (lg_frames l) @ kept_bytes p' = [1, 2, 3, 4, 5, 6] \<and> length (kept_bytes p') < 4"
proof -
  obtain p where p: "pcm_preproc_create demo_preproc 0 True = Some p" "lFrameSZ p = 1" "sMicNum p = 1" "aec_feed_size p = 4"
    by (simp add: pcm_preproc_create_def demo_preproc_def zero_alloc_def Let_def)
  have "preproc_env_ok demo_preproc (lFrameSZ p)" using p(2) by (simp add: preproc_env_ok_def demo_preproc_def)
  from recording_framed [OF p(1) _ _ _ this, of "[(False, [1, 2, 3]), (True, [9, 9, 9, 9]), (False, [4, 5, 6])]"] p
  show ?thesis by (force simp: demo_preproc_def)
qed

section \<open>Several processes\<close>



text \<open>C13: A start while another process plays. It is refused, whatever the source and however far it came: the
  machine stays in its state, the transmitter stays with its owner, the file is closed again and the client is
  told a stop for a sound of which no start was told.\<close>

theorem start_refused_while_playing:
  assumes "ap_exec env p Player_Start (f, s) = Some (st, f', s')" "ps_holder s = Some q" "q \<noteq> p" "ap_env_ok env p"
  shows "st = COM_FSM_HOLD_STATE \<and> f' = f \<and> ps_holder s' = Some q \<and> ap_file (the_ap p s') = None \<and>
    told_to p s' = told_to p s @ (if ap_callback (the_ap p s) then [AUDIO_PLAYER_EVENT_STOP] else [])"
  using assms(1) start_while_other [OF _ assms(2-4)] by (auto simp: ap_exec_def bind_eq_Some_conv)

lemma stop_without_decoder:
  fixes s :: "('m, 'd, 'f, 'c, 'v, 's, 'w) player_sys"
  assumes "ps_holder s \<noteq> Some p" "fst (cp_mp3 (ps_player s p)) = None" "fst (cp_aac (ps_player s p)) = None"
  shows "\<exists>s'. com_player_stop env p s = Some (COM_PLAYER_SUCCESS, s') \<and> ps_w s' = ps_w s"
  using assms
  by (simp add: com_player_stop_def drop_transmitter_def on_decoder_def on_mp3_def on_aac_def with_fsm_def null_fsm_def
      mp3_decoder_stop_def aac_decoder_stop_def mp3_decoder_deinit_def aac_decoder_deinit_def com_fsm_delete_def
      com_fsm_set_event_def unregister_def forget_machine_def set_player_def com_player_clear_event_def Let_def split: option.splits)

lemma demo_busy:
  "\<exists>s'. ap_exec demo_ap_env 1 Player_Start (f, demo_ap\<lparr>ps_holder := Some 2\<rparr>) = Some (COM_FSM_HOLD_STATE, f, s')"
proof -
  let ?u = "demo_ap\<lparr>ps_holder := Some 2\<rparr>" and ?e = "ae_file demo_ap_env"
  let ?s0 = "set_ap 1 (\<lambda>a. a\<lparr>ap_tick := 0\<rparr>) ?u"
  let ?t = "\<lambda>af w. set_file 1 (Some af) (?s0\<lparr>ps_w := (ps_w ?s0)\<lparr>aw_web := w\<rparr>\<rparr>)"
  have m: "allocator_ok (fe_mal ?e)" "fe_mal ?e k i \<noteq> None" for k i
    by (simp_all add: demo_ap_env_def zero_alloc_def allocator_ok_def)
  have name: "object_string (take AUDIO_FILE_MAX_PATH_SIZE ((lit ''/a'' @ [0]) @ replicate AUDIO_FILE_MAX_PATH_SIZE 0)) = Some (lit ''/a'')"
    "fe_fs ?e (lit ''/a'') = Some [1, 2, 3, 4, 5, 6, 7, 8, 9]"
    using demo_ap_holds by (auto simp: source_holds_def kept_path_def demo_ap_env_def split: if_splits)
  obtain af w where o: "audio_file_open ?e (lit ''/a'' @ [0]) AUDIO_FILE_TYPE_SD_CARD True (aw_web (ps_w ?u)) = Some (Some af, w)"
    and af: "card.file_ok ?e af" "card_content af = [1, 2, 3, 4, 5, 6, 7, 8, 9]" "ahead af = []"
    using card_open [OF name _ _ m(2), of True "aw_web (ps_w ?u)"] by auto
  have "length (aw_stack (ps_w ?u)) = 8" by (simp add: demo_ap_def)
  then obtain l buf af' where h: "audio_file_preread ?e (Some af) (aw_stack (ps_w ?u)) 8 = Some (l, buf, af')"
    "card.file_ok ?e af'" "8 \<le> length buf"
    using card.preread_spec [OF af(1) _ _ _ m, of 8 "aw_stack (ps_w ?u)"] af(2,3) by (auto simp: card.place_def)
  obtain ty where ty: "com_player_get_audio_type_by_header buf = Some ty"
    using h(3) by (auto simp: com_player_get_audio_type_by_header_def)
  let ?s1 = "set_file 1 (Some af') (?t af w)"
  let ?s2 = "audio_player_update_last_error 1 AUDIO_PLAYER_PROC_ERR_PLAYER_START (set_player 1 (start_flags ty) ?s1)"
  have i: "ai_path (ap_info (the_ap 1 ?s0)) = lit ''/a'' @ [0]" "ai_source (ap_info (the_ap 1 ?s0)) = AUDIO_FILE_TYPE_SD_CARD"
    "(ai_type (ap_info (the_ap 1 ?s0)) \<noteq> AUDIO_PLAYER_TYPE_PROMPT) = True" "aw_web (ps_w ?s0) = aw_web (ps_w ?u)"
    "aw_stack (ps_w (?t af w)) = aw_stack (ps_w ?u)" "ps_holder ?s1 = Some 2"
    by (simp_all add: demo_ap_def the_ap_def set_ap_def set_file_def)
  have "read_header demo_ap_env 1 af (?t af w) = Some (ty, ?s1)"
    using h(1) ty i(5) by (simp add: read_header_def COM_PLAYER_AUDIO_TYPE_HEADER_SIZE_def)
  moreover have "com_player_start (ae_play demo_ap_env) 1 ty x y z ?s1 = Some (COM_PLAYER_ERR_PCM_TRANS, set_player 1 (start_flags ty) ?s1)" for x y z
    using i(6) by (simp add: com_player_start_def set_player_def Let_def)
  ultimately have "audio_player_proc_start demo_ap_env 1 ?u = Some (AUDIO_PLAYER_PROC_ERR_PLAYER_START, set_player 1 (start_flags ty) ?s1)"
    unfolding audio_player_proc_start_def Let_def i(1-4) o by simp
  moreover have "ap_last_error (the_ap 1 ?s2) \<noteq> AUDIO_PLAYER_PROC_SUCCESS"
    by (simp add: audio_player_update_last_error_def demo_ap_def the_ap_def set_ap_def set_file_def set_player_def audio_player_zero_def)
  moreover obtain r s' where "audio_player_proc_stop demo_ap_env 1 ?s2 = Some (r, s')"
  proof -
    have "card_valid ?e af'" using h(2) by (simp add: card.file_ok_def)
    then have t: "af_type af' = AUDIO_FILE_TYPE_SD_CARD" by (simp add: card_valid_def)
    have f: "ap_file (the_ap 1 ?s2) = Some af'" "ps_holder (set_file 1 (Some af') ?s2) \<noteq> Some 1"
      "fst (cp_mp3 (ps_player (set_file 1 (Some af') ?s2) 1)) = None" "fst (cp_aac (ps_player (set_file 1 (Some af') ?s2) 1)) = None"
      by (simp_all add: audio_player_update_last_error_def demo_ap_def the_ap_def set_ap_def set_file_def set_player_def
          start_flags_def com_player_zero_def)
    from stop_without_decoder [OF f(2-4)] obtain s3 where "com_player_stop (ae_play demo_ap_env) 1 (set_file 1 (Some af') ?s2) = Some (COM_PLAYER_SUCCESS, s3)"
      "ap_file (the_ap 1 s3) = Some af'" by (fastforce simp: the_ap_def set_file_parts [unfolded the_ap_def])
    with t f(1) show thesis by (intro that) (simp add: audio_player_proc_stop_def audio_file_stop_def audio_file_close_def Let_def)
  qed
  ultimately show ?thesis by (simp add: ap_exec_def audio_player_proc_start_action_def)
qed

theorem start_refused_while_playing_witness:
  "\<exists>s'. ap_exec demo_ap_env 1 Player_Start (demo_ap_fsm 1 0 AUDIO_PLAYER_STA_IDLE, demo_ap\<lparr>ps_holder := Some 2\<rparr>) =
       Some (COM_FSM_HOLD_STATE, demo_ap_fsm 1 0 AUDIO_PLAYER_STA_IDLE, s') \<and>
     ps_holder s' = Some 2 \<and> ap_file (the_ap 1 s') = None \<and> told_to 1 s' = [AUDIO_PLAYER_EVENT_STOP]"
proof -
  from demo_busy obtain s' where r: "ap_exec demo_ap_env 1 Player_Start (demo_ap_fsm 1 0 AUDIO_PLAYER_STA_IDLE, demo_ap\<lparr>ps_holder := Some 2\<rparr>) =
       Some (COM_FSM_HOLD_STATE, demo_ap_fsm 1 0 AUDIO_PLAYER_STA_IDLE, s')" by blast
  have "ps_holder (demo_ap\<lparr>ps_holder := Some 2\<rparr>) = Some 2" "told_to 1 (demo_ap\<lparr>ps_holder := Some 2\<rparr>) = []"
    "ap_callback (the_ap 1 (demo_ap\<lparr>ps_holder := Some 2\<rparr>))"
    by (simp_all add: demo_ap_def told_to_def the_ap_def)
  with start_refused_while_playing [OF r this(1) _ demo_ap_env_ok] r show ?thesis by simp
qed

section \<open>The program\<close>



section \<open>The other tests\<close>

text \<open>C25: The copied download. When what the task pushes fits into the shared buffer and the task stops after its last
  bytes, and not together with them, the test's copy ends, and the file has exactly the downloaded bytes, in order;
  two looks for each byte and three more are enough.\<close>

theorem download_copied:
  assumes "wb_looks w = map arrive (sc @ replicate n ([], True))" "\<forall>a \<in> set sc. \<not> snd a" "common_wf (web_buffer w)"
    "common_contents (web_buffer w) = []" "web_state w \<noteq> HTTP_DOWNLOAD_STA_IDLE"
    "length (arrived sc) \<le> common_cap (web_buffer w)" "2 * length (arrived sc) + 3 \<le> n" "length buf = 512"
  shows "\<exists>w' f. download_copy buf w (Some \<lparr>fl_data = [], fl_pos = 0\<rparr>) = Some (w', Some f) \<and> fl_data f = arrived sc \<and>
    common_contents (web_buffer w') = [] \<and> web_state w' = HTTP_DOWNLOAD_STA_IDLE"
proof -
  have "arrivals_then_stop sc n w" using assms(1-7) by (simp add: arrivals_then_stop_def)
  from copy_complete [OF this assms(8), of "\<lparr>fl_data = [], fl_pos = 0\<rparr>"] assms(4) show ?thesis by simp
qed

theorem download_copied_witness:
  "\<exists>w' f. download_copy (replicate 512 0)
       (demo_web\<lparr>wb_looks := map arrive ([([1, 2], False), ([], False), ([3], False)] @ replicate 9 ([], True))\<rparr>)
       (Some \<lparr>fl_data = [], fl_pos = 0\<rparr>) = Some (w', Some f) \<and> fl_data f = [1, 2, 3]"
proof -
  let ?sc = "[([1, 2], False), ([], False), ([3], False)] :: (u8 list \<times> bool) list"
  let ?w = "demo_web\<lparr>wb_looks := map arrive (?sc @ replicate 9 ([], True))\<rparr>"
  have b: "web_buffer ?w = demo_common" "web_state ?w \<noteq> HTTP_DOWNLOAD_STA_IDLE"
    by (simp_all add: demo_web_def web_buffer_def web_state_def no_http_fsm_def fsm_consts HTTP_DOWNLOAD_STA_IDLE_def)
  have c: "common_wf demo_common" "common_contents demo_common = []" "common_cap demo_common = 16"
    using common_init [of 4 16] by (simp_all add: demo_common_def)
  have l: "wb_looks ?w = map arrive (?sc @ replicate 9 ([], True))" by simp
  from download_copied [OF l, of "replicate 512 0"] b c show ?thesis by (auto simp: arrived_def)
qed

text \<open>The lost end. When the task pushes its last bytes and stops between the test's look at the count and its
  look at the state, these bytes stay in the buffer and the file does not get them.\<close>

theorem download_tail_lost:
  assumes "wb_looks w = map arrive [([], False), (bs, True)]" "common_wf (web_buffer w)" "common_contents (web_buffer w) = []"
    "length bs \<le> common_cap (web_buffer w)" "length buf = 512"
  shows "\<exists>w'. download_copy buf w (Some \<lparr>fl_data = [], fl_pos = 0\<rparr>) = Some (w', Some \<lparr>fl_data = [], fl_pos = 0\<rparr>) \<and>
    common_contents (web_buffer w') = bs"
  by (rule copy_loses [OF assms]) simp

theorem download_tail_lost_witness:
  "\<exists>w'. download_copy (replicate 512 0) (demo_web\<lparr>wb_looks := map arrive [([], False), ([7, 8], True)]\<rparr>)
       (Some \<lparr>fl_data = [], fl_pos = 0\<rparr>) = Some (w', Some \<lparr>fl_data = [], fl_pos = 0\<rparr>) \<and> common_contents (web_buffer w') = [7, 8]"
proof -
  have c: "common_wf demo_common" "common_contents demo_common = []" "common_cap demo_common = 16"
    using common_init [of 4 16] by (simp_all add: demo_common_def)
  show ?thesis by (rule download_tail_lost) (simp_all add: c demo_web_def web_buffer_def)
qed

text \<open>C24: Two sources of one sound. For a file of the card and a prompt sound, or two of either, that hold the same
  bytes, the comparison of the two, with reading ahead in one of them and a hundred random jumps, ends and finds
  no difference.\<close>

theorem sources_agree:
  assumes "source_holds env path ty c" "source_holds env path' ty' c" "allocator_ok (fe_mal env)" "\<And>k i. fe_mal env k i \<noteq> None"
    "length b = 1024" "length b' = 1024" "length c < 2147381248"
  shows "\<exists>f w1 g w2 k. audio_file_open env path ty rng w = Some (Some f, w1) \<and> audio_file_open env path' ty' rng' w1 = Some (Some g, w2) \<and>
    audio_file_compare env rnd b b' (Some f) (Some g) = Some (Compared k k)"
  by (rule sources_compare [OF assms])

theorem sources_agree_witness:
  "\<exists>f w1 g w2 k. audio_file_open (ae_file demo_ap_env) (lit ''/a'' @ [0]) AUDIO_FILE_TYPE_SD_CARD True demo_web = Some (Some f, w1) \<and>
     audio_file_open (ae_file demo_ap_env) (lit ''/a'' @ [0]) AUDIO_FILE_TYPE_SD_CARD False w1 = Some (Some g, w2) \<and>
     audio_file_compare (ae_file demo_ap_env) of_nat (replicate 1024 0) (replicate 1024 0) (Some f) (Some g) = Some (Compared k k)"
proof -
  have m: "allocator_ok (fe_mal (ae_file demo_ap_env))" "fe_mal (ae_file demo_ap_env) k i \<noteq> None" for k i
    by (simp_all add: demo_ap_env_def zero_alloc_def allocator_ok_def)
  show ?thesis by (rule sources_agree [OF demo_ap_holds demo_ap_holds m]) simp_all
qed

section \<open>The linear converter\<close>

text \<open>C15: The interpolated stream. Calls of the linear converter at one ratio, on the next pieces of a stream of at
  least two frames, make the frames that the linear interpolation of the whole stream has at places 1 / ratio apart:
  where a piece ends does not show. Each call fills its room or uses all its input, and the kept frame, the frames used and the
  place carry over to the next call.\<close>

theorem linear_follows_stream:
  assumes "call_ok psrc data c n m inp" "sp_private_data psrc = Some p" "ld_channels p = int c" "c \<le> length (ld_last_value p)"
    "sd_input_frames data = int n" "2 \<le> n" "sd_out data = Some out0" "m * c \<le> length out0" "sp_last_ratio psrc = sd_src_ratio data"
    "on_stream S c U p" "\<forall>i < n * c. inp ! i = S ! (U * c + i)"
  shows "\<exists>psrc' data' p' out k u. linear_vari_process psrc data = Some (SRC_ERR_NO_ERROR, psrc', data') \<and>
    sd_output_frames_gen data' = int k \<and> sd_input_frames_used data' = int u \<and> sd_out data' = Some out \<and>
    k \<le> m \<and> u \<le> n \<and> (k = m \<or> u = n) \<and>
    (\<forall>i < k * c. out ! i = stream_at S c (real U + sp_last_position psrc + real (i div c) / sd_src_ratio data) (i mod c)) \<and>
    sp_private_data psrc' = Some p' \<and> on_stream S c (U + u) p' \<and> sp_last_ratio psrc' = sd_src_ratio data \<and>
    0 \<le> sp_last_position psrc' \<and> real (U + u) + sp_last_position psrc' = real U + sp_last_position psrc + real k / sd_src_ratio data"
proof -
  from linear_call [OF assms(1-5) _ assms(7,8)] assms(6) obtain k u p' out where
    r: "linear_vari_process psrc data = Some (SRC_ERR_NO_ERROR,
      psrc\<lparr>sp_last_position := sample_pos psrc data k - real u, sp_last_ratio := ratio_before psrc data k, sp_private_data := Some p'\<rparr>,
      data\<lparr>sd_out := Some out, sd_input_frames_used := int u, sd_output_frames_gen := int k\<rparr>)"
    "linear_result psrc data p c n m inp out0 k u p' out" by auto
  note res = r(2) [unfolded linear_result_def]
  have c: "0 < c" using assms(1) by (simp add: call_ok_def)
  have km: "k \<le> m" using res by blast
  then have "k * c \<le> length out0" using assms(8) by (meson le_trans mult_le_mono1)
  moreover have "0 \<le> sample_pos psrc data j" if "j < k" for j using sample_pos_nonneg [OF assms(1), of j] that km by simp
  ultimately have s: "on_stream S c (U + u) p'"
    "i < k * c \<Longrightarrow> out ! i = stream_at S c (real U + sample_pos psrc data (i div c)) (i mod c)" for i
    using linear_stream [OF r(2) assms(10,4) c _ assms(11)] assms(6) by auto
  have "k = m \<or> u = n" using res by (auto simp: le_nat_floor min_def)
  moreover have "u \<le> n" using res by simp
  moreover have "0 \<le> sample_pos psrc data k - real u"
  proof -
    have "real u \<le> real (nat \<lfloor>sample_pos psrc data k\<rfloor>)" using res by simp
    also have "\<dots> \<le> sample_pos psrc data k" using sample_pos_nonneg [OF assms(1), of k] km by simp
    finally show ?thesis by simp
  qed
  ultimately show ?thesis using r(1) s km steady_pos [OF assms(9)] by (auto simp: add.assoc)
qed

theorem linear_follows_stream_witness:
  "\<exists>psrc' data' out. linear_vari_process
       \<lparr>sp_last_ratio = 2, sp_last_position = 0, sp_error = SRC_ERR_NO_ERROR, sp_channels = 1, sp_mode = SRC_MODE_PROCESS,
         sp_private_data = Some \<lparr>ld_channels = 1, ld_reset = True, ld_in_count = 0, ld_in_used = 0, ld_out_count = 0, ld_out_gen = 0,
           ld_last_value = [0, 0]\<rparr>, sp_process = Some Linear\<rparr>
       (call_data [] (fresh_data\<lparr>sd_out := Some [0, 0, 0, 0, 0, 0, 0, 0]\<rparr>) [10, 20, 40] 3 4 2) =
     Some (SRC_ERR_NO_ERROR, psrc', data') \<and> sd_out data' = Some out \<and> sd_output_frames_gen data' = 4 \<and> out ! 3 = 15"
proof -
  let ?q = "\<lparr>ld_channels = 1, ld_reset = True, ld_in_count = 0, ld_in_used = 0, ld_out_count = 0, ld_out_gen = 0, ld_last_value = [0, 0]\<rparr>"
  let ?p = "\<lparr>sp_last_ratio = 2, sp_last_position = 0, sp_error = SRC_ERR_NO_ERROR, sp_channels = 1, sp_mode = SRC_MODE_PROCESS,
    sp_private_data = Some ?q, sp_process = Some Linear\<rparr>"
  let ?d = "call_data [] (fresh_data\<lparr>sd_out := Some [0, 0, 0, 0, 0, 0, 0, 0]\<rparr>) [10, 20, 40] 3 4 2"
  have ok: "call_ok ?p ?d 1 3 4 [10, 20, 40]" by (simp add: call_ok_def call_data_def fresh_data_def good_ratio)
  have q: "sp_private_data ?p = Some ?q" "ld_channels ?q = int 1" "1 \<le> length (ld_last_value ?q)" "sd_input_frames ?d = int 3" "2 \<le> (3 :: nat)"
    "sd_out ?d = Some [0, 0, 0, 0, 0, 0, 0, 0]" "4 * 1 \<le> length [0, 0, 0, 0, 0, 0, 0, 0 :: real]" "sp_last_ratio ?p = sd_src_ratio ?d"
    "on_stream [10, 20, 40] 1 0 ?q" "\<forall>i < 3 * 1. [10, 20, 40 :: real] ! i = [10, 20, 40] ! (0 * 1 + i)"
    by (simp_all add: call_data_def fresh_data_def on_stream_def)
  from linear_follows_stream [OF ok q] obtain psrc' data' out k u where
    r: "linear_vari_process ?p ?d = Some (SRC_ERR_NO_ERROR, psrc', data')" "sd_output_frames_gen data' = int k" "sd_out data' = Some out" "k \<le> 4"
    "k = 4 \<or> u = 3" "\<forall>i < k * 1. out ! i = stream_at [10, 20, 40] 1 (real 0 + sp_last_position ?p + real (i div 1) / sd_src_ratio ?d) (i mod 1)"
    "0 \<le> sp_last_position psrc'" "real (0 + u) + sp_last_position psrc' = real 0 + sp_last_position ?p + real k / sd_src_ratio ?d"
    by blast
  have k: "k = 4" using r(4,5,7,8) by (auto simp: call_data_def)
  have "\<lfloor>3 / 2 :: real\<rfloor> = 1" by (simp add: floor_eq_iff)
  then have "out ! 3 = 15" using r(6) by (simp add: k stream_at_def frac_def call_data_def)
  with r(1-3) k show ?thesis by auto
qed

text \<open>C20: A single frame. A call with a single frame of input, when the place is before it, reads in front of the input
  array: the leading loop needs two frames, and the main loop takes the frame before the input for the first one.\<close>

theorem single_frame_reads_outside:
  assumes "call_ok psrc data c 1 m inp" "sp_private_data psrc = Some p" "ld_channels p = int c" "c \<le> length (ld_last_value p)"
    "sd_input_frames data = 1" "sd_out data = Some out0" "0 < m" "sp_last_position psrc < 1" "sd_front data = []"
  shows "linear_vari_process psrc data = None"
  using single_frame [OF assms(1-8)] assms(1,9) by (simp add: call_ok_def)

theorem single_frame_reads_outside_witness:
  "\<exists>psrc. lib_src_new zero_alloc 0 (8, 8) SRC_LINEAR 2 = Some (SRC_ERR_NO_ERROR, Some psrc) \<and>
     linear_vari_process (psrc\<lparr>sp_last_ratio := 2\<rparr>) (call_data [] fresh_data [10, 20] 1 4 2) = None"
proof -
  obtain psrc q where n: "lib_src_new zero_alloc 0 (8, 8) SRC_LINEAR 2 = Some (SRC_ERR_NO_ERROR, Some psrc)" "sp_private_data psrc = Some q"
    "ld_channels q = 2" "2 \<le> length (ld_last_value q)" "sp_last_position psrc = 0"
    by (auto simp: lib_src_new_def psrc_set_converter_def linear_set_converter_def linear_reset_def src_reset_def SRC_LINEAR_def zero_alloc_def Let_def)
  let ?d = "call_data [] fresh_data [10, 20] 1 4 2"
  have "call_ok (psrc\<lparr>sp_last_ratio := 2\<rparr>) ?d 2 1 4 [10, 20]" using n(5) by (simp add: call_ok_def call_data_def good_ratio)
  from single_frame_reads_outside [OF this, of q "replicate 2048 0"] n show ?thesis by (simp add: call_data_def fresh_data_def)
qed

text \<open>A dropped frame. With room for one frame in the ring buffer and a next place before the end of the current frame, as in
  upsampling, the library makes a frame and uses none; the conversion loop takes that for the end and does not push it, although
  the place has moved on.\<close>

theorem made_frame_dropped:
  assumes "length front = 2" "\<forall>x \<in> set front. in16 x" "sr_ok linear_ok in16 sr" "sr_state sr = Some (p, d)" "ring_wf rb"
    "4 \<le> ring_cap rb - ring_len rb" "ring_cap rb - ring_len rb < 8" "0 \<le> len" "len \<le> int (length buf)"
    "2 \<le> sr_input_frames sr + min (512 - sr_input_frames sr) (len div 4)" "src_is_valid_ratio r" "sp_last_ratio p = r" "sp_last_position p + 1 / r < 1"
  shows "\<exists>c sr' p' d'. samplerate_convert_process (linear_env mal k sizes front) r 2 buf len (sr, rb) = Some (c, sr', rb) \<and>
    sr_state sr' = Some (p', d') \<and> sd_output_frames_gen d' = 1 \<and> sd_input_frames_used d' = 0 \<and> sp_last_position p' = sp_last_position p + 1 / r"
  by (rule frame_dropped [OF assms])

theorem made_frame_dropped_witness:
  "\<exists>sr c sr'. samplerate_convert_process (linear_env zero_alloc 0 (8, 8) [0, 0]) 2 2 [1, 0, 2, 0, 3, 0, 4, 0] 8 (sr, demo_ring) =
     Some (c, sr', demo_ring) \<and> sr_state sr' \<noteq> None"
proof -
  obtain psrc where n: "lib_src_new zero_alloc 0 (8, 8) SRC_LINEAR 2 = Some (SRC_ERR_NO_ERROR, Some psrc)" "sp_last_position psrc = 0"
    by (auto simp: lib_src_new_def psrc_set_converter_def linear_set_converter_def linear_reset_def src_reset_def SRC_LINEAR_def zero_alloc_def Let_def)
  let ?sr = "\<lparr>sr_state = Some (psrc\<lparr>sp_last_ratio := 2\<rparr>, fresh_data), sr_input_frames = 0, sr_input = replicate 1024 0\<rparr>"
  have v: "src_is_valid_ratio 2" by (simp add: src_is_valid_ratio_def good_ratio)
  then have "sr_ok linear_ok in16 ?sr" using new_linear_ok [OF n(1)] by (auto simp: sr_ok_def sr_wf_def in16_def linear_ok_def)
  moreover have "ring_len demo_ring = 0" using length_ring_contents [OF demo_ring_wf(1)] demo_ring_wf(2) by simp
  ultimately have "\<exists>c sr' p' d'. samplerate_convert_process (linear_env zero_alloc 0 (8, 8) [0, 0]) 2 2 [1, 0, 2, 0, 3, 0, 4, 0] 8 (?sr, demo_ring) =
      Some (c, sr', demo_ring) \<and> sr_state sr' = Some (p', d') \<and> sd_output_frames_gen d' = 1 \<and> sd_input_frames_used d' = 0 \<and>
      sp_last_position p' = sp_last_position (psrc\<lparr>sp_last_ratio := 2\<rparr>) + 1 / 2"
    using made_frame_dropped [of "[0, 0]" ?sr "psrc\<lparr>sp_last_ratio := 2\<rparr>" fresh_data demo_ring 8 "[1, 0, 2, 0, 3, 0, 4, 0]" 2 zero_alloc 0 "(8, 8)"]
      n(2) v demo_ring_wf by (simp add: in16_def)
  then show ?thesis by blast
qed

text \<open>The conversion test. With memory, the test of the converter over the linear converter ends for every input file, and has
  only appended to the output file.\<close>

theorem conversion_test_ends:
  assumes "allocator_ok mal" "\<And>i j. mal i j \<noteq> None" "length front = 2" "\<forall>x \<in> set front. in16 x"
    "length read_buf = 512" "length write_buf = 1024" "0 \<le> fl_pos reader" "at_end writer"
  shows "\<exists>f bs. samplerate_convert_test mal k conv_size 0 (linear_env mal k' sizes front) (32000 / 44100) read_buf write_buf
      (Some reader) (Some writer) = Some (Some f) \<and> fl_data f = fl_data writer @ bs"
proof -
  have "src_new (linear_env mal k' sizes front) \<noteq> None" using assms(2)
    by (auto simp: linear_env_def lib_src_new_def psrc_set_converter_def linear_set_converter_def src_reset_def SRC_LINEAR_def
        dst_channels_def Let_def)
  moreover have "src_is_valid_ratio (32000 / 44100)" "in16 0" by (simp_all add: src_is_valid_ratio_def good_ratio in16_def)
  ultimately show ?thesis
    using resampler.convert_test_total [OF linear_resampler [OF assms(3,4)] assms(1) assms(2) assms(2) _ _ _ assms(5-8)] by blast
qed

theorem conversion_test_ends_witness:
  "\<exists>f bs. samplerate_convert_test zero_alloc 0 100 0 (linear_env zero_alloc 0 (8, 8) [0, 0]) (32000 / 44100) (replicate 512 0) (replicate 1024 0)
     (Some \<lparr>fl_data = [1, 2, 3, 4, 5], fl_pos = 0\<rparr>) (Some \<lparr>fl_data = [], fl_pos = 0\<rparr>) = Some (Some f) \<and> fl_data f = [] @ bs"
proof -
  have "zero_alloc i j \<noteq> None" for i j by (simp add: zero_alloc_def)
  from conversion_test_ends [OF zero_alloc_ok this, of "[0, 0]" "replicate 512 0" "replicate 1024 0" "\<lparr>fl_data = [1, 2, 3, 4, 5], fl_pos = 0\<rparr>"
      "\<lparr>fl_data = [], fl_pos = 0\<rparr>"] show ?thesis by (simp add: in16_def at_end_def)
qed

end
